(* ===== verification/Prelude.thy ===== *)
theory Prelude
  imports Main "HOL-Library.Word" "HOL-Library.Sublist"
begin

text \<open>
  Shared vocabulary of the development: the machine types, the outcome of a C or C++ operation that
  may throw or dereference a bad pointer, the sequencing of such operations, \<open>memcpy\<close> into
  a byte block, and the list lemmas that the storage components use.
\<close>

unbundle bit_operations_syntax

section \<open>Machine types\<close>

type_synonym byte = "8 word"
type_synonym u16 = "16 word"
type_synonym u32 = "32 word"
type_synonym u64 = "64 word"

lemma unat_byte_less: "unat (b :: byte) < 256"
  using unsigned_less[of b, where 'a = nat] by simp

section \<open>Faults\<close>

text \<open>
  \<open>Out_of_range\<close> is the exception the sources throw themselves. The other faults are the
  undefined behaviours that an operation runs into when a precondition the code does not check is
  violated: a null pointer is followed, a block is accessed outside its bounds, a size is divided
  by zero, a loop never ends.
\<close>

datatype fault = Out_of_range | Null_deref | Bad_access | Div_by_zero | Diverges

type_synonym 'a res = "fault + 'a"

definition bindr :: "'a res \<Rightarrow> ('a \<Rightarrow> 'b res) \<Rightarrow> 'b res" where
  "bindr m f = (case m of Inl e \<Rightarrow> Inl e | Inr x \<Rightarrow> f x)"

lemma bindr_simps [simp]:
  "bindr (Inl e) f = Inl e"
  "bindr (Inr x) f = f x"
  by (simp_all add: bindr_def)

text \<open>The facts that say when a sequence of operations that may fail succeeds.\<close>

named_theorems success_iff

lemma bindr_eq_Inr_iff [success_iff]: "bindr m f = Inr y \<longleftrightarrow> (\<exists>x. m = Inr x \<and> f x = Inr y)"
  by (cases m) auto

lemma bindr_assoc: "bindr (bindr m f) g = bindr m (\<lambda>x. bindr (f x) g)"
  by (cases m) auto

lemma bindr_cong [fundef_cong]:
  "m = m' \<Longrightarrow> (\<And>x. m' = Inr x \<Longrightarrow> f x = f' x) \<Longrightarrow> bindr m f = bindr m' f'"
  by (cases m') auto

section \<open>Sizes\<close>

text \<open>
  A \<open>size_t\<close> is a natural number below \<open>2 ^ 64\<close>. Sums of sizes do not reach the bound,
  since memory would be exhausted long before; differences wrap and are written out.
\<close>

definition size_sub :: "nat \<Rightarrow> nat \<Rightarrow> nat" where
  "size_sub a b = (if b \<le> a then a - b else 2 ^ 64 + a - b)"

lemma size_sub_le [simp]: "b \<le> a \<Longrightarrow> size_sub a b = a - b"
  by (simp add: size_sub_def)

definition size_mod :: "nat \<Rightarrow> nat \<Rightarrow> nat res" where
  "size_mod a b = (if b = 0 then Inl Div_by_zero else Inr (a mod b))"

lemma size_mod_pos [simp]: "0 < b \<Longrightarrow> size_mod a b = Inr (a mod b)"
  by (simp add: size_mod_def)

section \<open>Blocks of bytes\<close>

definition overwrite :: "nat \<Rightarrow> 'a list \<Rightarrow> 'a list \<Rightarrow> 'a list" where
  "overwrite i xs ys = take i ys @ xs @ drop (i + length xs) ys"

lemma length_overwrite [simp]: "i + length xs \<le> length ys \<Longrightarrow> length (overwrite i xs ys) = length ys"
  by (simp add: overwrite_def)

lemma overwrite_Nil [simp]: "overwrite i [] ys = ys"
  by (simp add: overwrite_def)

lemma overwrite_take_drop:
  "i + length xs \<le> length ys \<Longrightarrow> take (length xs) (drop i (overwrite i xs ys)) = xs"
  by (simp add: overwrite_def)

lemma take_overwrite: "i \<le> length ys \<Longrightarrow> take i (overwrite i xs ys) = take i ys"
  by (simp add: overwrite_def)

lemma drop_overwrite:
  "i \<le> length ys \<Longrightarrow> drop (i + length xs) (overwrite i xs ys) = drop (i + length xs) ys"
  by (simp add: overwrite_def)

lemma overwrite_append_left:
  "i + length xs \<le> length ys \<Longrightarrow> overwrite i xs (ys @ zs) = overwrite i xs ys @ zs"
  by (simp add: overwrite_def)

lemma overwrite_append_right:
  "length ys \<le> i \<Longrightarrow> overwrite i xs (ys @ zs) = ys @ overwrite (i - length ys) xs zs"
  by (simp add: overwrite_def)

lemma overwrite_append:
  "length zs = i + length xs \<Longrightarrow>
   overwrite i (xs @ xs') (zs @ ys) = overwrite i xs zs @ overwrite 0 xs' ys"
  by (simp add: overwrite_def)

lemma overwrite_overwrite_adjacent:
  assumes "i + length xs + length xs' \<le> length ys"
  shows "overwrite (i + length xs) xs' (overwrite i xs ys) = overwrite i (xs @ xs') ys"
  using assms by (simp add: overwrite_def take_drop add.commute add.left_commute)

text \<open>\<open>memcpy(dst + i, src, length src)\<close> into one block, and the copy out of one.\<close>

definition memcpy_in :: "nat \<Rightarrow> byte list \<Rightarrow> byte list \<Rightarrow> byte list res" where
  "memcpy_in i src dst =
     (if i + length src \<le> length dst then Inr (overwrite i src dst) else Inl Bad_access)"

definition memcpy_out :: "nat \<Rightarrow> nat \<Rightarrow> byte list \<Rightarrow> byte list res" where
  "memcpy_out i n src =
     (if i + n \<le> length src then Inr (take n (drop i src)) else Inl Bad_access)"

section \<open>Chains of equally sized blocks\<close>

lemma length_concat_equal:
  "(\<And>x. x \<in> set xss \<Longrightarrow> length x = b) \<Longrightarrow> length (concat xss) = length xss * b"
  by (induction xss) auto

lemma ceil_div_mult:
  fixes n b :: nat
  assumes "0 < b"
  shows "n \<le> ((n + b - 1) div b) * b"
proof -
  have "n + b - 1 < ((n + b - 1) div b) * b + b"
    using assms by (metis add.commute dividend_less_times_div mult.commute)
  with assms show ?thesis by linarith
qed

end
