(* ===== verification/ByteArray.thy ===== *)
theory ByteArray
  imports Prelude
begin

text \<open>
  The byte store of \<open>sylar/bytearray.cc\<close>: a chain of equally sized blocks with a position
  that reads and writes advance. The chain hanging off \<open>m_root\<close> is the list of its blocks and
  a \<open>Node*\<close> into it is an index, with \<open>None\<close> for \<open>nullptr\<close>; a block's
  \<open>size\<close> field is the length of the list. A fresh block (\<open>new char[s]\<close>) is filled
  with zeroes; no lemma speaks about a byte that was never written. Every operation that may throw
  or follow a null pointer returns a value of type \<open>res\<close>.

  The second half relates the chain to a flat array with a cursor (\<open>ba_abs\<close>) and shows that
  every operation refines its counterpart there.
\<close>

section \<open>State\<close>

record bytearray =
  m_baseSize :: nat
  m_position :: nat
  m_capacity :: nat
  m_size :: nat
  m_endian :: byte
  m_root :: "byte list list"
  m_cur :: "nat option"

definition SYLAR_LITTLE_ENDIAN :: byte where
  "SYLAR_LITTLE_ENDIAN = 1"

definition SYLAR_BIG_ENDIAN :: byte where
  "SYLAR_BIG_ENDIAN = 2"

definition Node :: "nat \<Rightarrow> byte list" where
  "Node s = replicate s 0"

definition ByteArray_new :: "nat \<Rightarrow> bytearray" where
  "ByteArray_new base_size =
     \<lparr>m_baseSize = base_size, m_position = 0, m_capacity = base_size, m_size = 0,
      m_endian = SYLAR_BIG_ENDIAN, m_root = [Node base_size], m_cur = Some 0\<rparr>"

definition isLittleEndian :: "bytearray \<Rightarrow> bool" where
  "isLittleEndian s \<longleftrightarrow> m_endian s = SYLAR_LITTLE_ENDIAN"

definition setIsLittleEndian :: "bool \<Rightarrow> bytearray \<Rightarrow> bytearray" where
  "setIsLittleEndian val s =
     (if val then s\<lparr>m_endian := SYLAR_LITTLE_ENDIAN\<rparr> else s\<lparr>m_endian := SYLAR_BIG_ENDIAN\<rparr>)"

definition getReadSize :: "bytearray \<Rightarrow> nat" where
  "getReadSize s = size_sub (m_size s) (m_position s)"

definition getCapacity :: "bytearray \<Rightarrow> nat" where
  "getCapacity s = size_sub (m_capacity s) (m_position s)"

definition next_node :: "byte list list \<Rightarrow> nat \<Rightarrow> nat option" where
  "next_node nodes i = (if Suc i < length nodes then Some (Suc i) else None)"

definition deref :: "byte list list \<Rightarrow> nat option \<Rightarrow> byte list res" where
  "deref nodes cur =
     (case cur of None \<Rightarrow> Inl Null_deref
      | Some i \<Rightarrow> if i < length nodes then Inr (nodes ! i) else Inl Bad_access)"

section \<open>Operations\<close>

definition ByteArray_clear :: "bytearray \<Rightarrow> bytearray" where
  "ByteArray_clear s = s\<lparr>m_position := 0, m_size := 0, m_capacity := m_baseSize s,
               m_root := take 1 (m_root s), m_cur := Some 0\<rparr>"

definition addCapacity :: "nat \<Rightarrow> bytearray \<Rightarrow> bytearray res" where
  "addCapacity n s =
     (if n = 0 then Inr s
      else let old_cap = getCapacity s in
        if old_cap \<ge> n then Inr s
        else if m_baseSize s = 0 then Inl Div_by_zero
        else let count = (n - old_cap + m_baseSize s - 1) div m_baseSize s in
          Inr (s\<lparr>m_root := m_root s @ replicate count (Node (m_baseSize s)),
                 m_capacity := m_capacity s + count * m_baseSize s,
                 m_cur := (if old_cap = 0 then Some (length (m_root s)) else m_cur s)\<rparr>))"

text \<open>
  The loop of \<open>write\<close>: each round copies into the block under \<open>m_cur\<close> and moves on
  to the next one. The rest of the caller's buffer stands for \<open>buf + bpos\<close> and \<open>size\<close>.
\<close>

function write_loop ::
  "byte list list \<Rightarrow> nat option \<Rightarrow> nat \<Rightarrow> nat \<Rightarrow> nat \<Rightarrow> byte list
     \<Rightarrow> (byte list list \<times> nat option \<times> nat) res" where
  "write_loop nodes cur pos npos ncap buf =
     (if buf = [] then Inr (nodes, cur, pos)
      else case cur of
        None \<Rightarrow> Inl Null_deref
      | Some i \<Rightarrow>
          if length nodes \<le> i then Inl Bad_access
          else if length buf \<le> ncap then
            bindr (memcpy_in npos buf (nodes ! i)) (\<lambda>blk.
              Inr (nodes[i := blk],
                   if length (nodes ! i) = npos + length buf then next_node nodes i else cur,
                   pos + length buf))
          else
            bindr (memcpy_in npos (take ncap buf) (nodes ! i)) (\<lambda>blk.
              case next_node nodes i of
                None \<Rightarrow> Inl Null_deref
              | Some j \<Rightarrow> write_loop (nodes[i := blk]) (Some j) (pos + ncap) 0
                           (length (nodes ! j)) (drop ncap buf)))"
  by pat_completeness auto
termination
  by (relation "measure (\<lambda>(nodes, cur, _). case cur of None \<Rightarrow> 0 | Some i \<Rightarrow> length nodes - i)")
     (auto simp: next_node_def split: if_splits)

declare write_loop.simps [simp del]

definition ByteArray_write :: "byte list \<Rightarrow> bytearray \<Rightarrow> bytearray res" where
  "ByteArray_write buf s0 =
     (if buf = [] then Inr s0
      else bindr (addCapacity (length buf) s0) (\<lambda>s.
        bindr (size_mod (m_position s) (m_baseSize s)) (\<lambda>npos.
        bindr (deref (m_root s) (m_cur s)) (\<lambda>node.
        bindr (write_loop (m_root s) (m_cur s) (m_position s) npos
                 (size_sub (length node) npos) buf) (\<lambda>(nodes, cur, pos).
          Inr (s\<lparr>m_root := nodes, m_cur := cur, m_position := pos,
                 m_size := (if pos > m_size s then pos else m_size s)\<rparr>))))))"

text \<open>The loop shared by both \<open>read\<close> overloads, with the bytes copied so far.\<close>

function read_loop ::
  "byte list list \<Rightarrow> nat option \<Rightarrow> nat \<Rightarrow> nat \<Rightarrow> nat \<Rightarrow> byte list
     \<Rightarrow> (byte list \<times> nat option) res" where
  "read_loop nodes cur npos ncap n acc =
     (if n = 0 then Inr (acc, cur)
      else case cur of
        None \<Rightarrow> Inl Null_deref
      | Some i \<Rightarrow>
          if length nodes \<le> i then Inl Bad_access
          else if n \<le> ncap then
            bindr (memcpy_out npos n (nodes ! i)) (\<lambda>bs.
              Inr (acc @ bs,
                   if length (nodes ! i) = npos + n then next_node nodes i else cur))
          else
            bindr (memcpy_out npos ncap (nodes ! i)) (\<lambda>bs.
              case next_node nodes i of
                None \<Rightarrow> Inl Null_deref
              | Some j \<Rightarrow> read_loop nodes (Some j) 0 (length (nodes ! j)) (n - ncap) (acc @ bs)))"
  by pat_completeness auto
termination
  by (relation "measure (\<lambda>(nodes, cur, _). case cur of None \<Rightarrow> 0 | Some i \<Rightarrow> length nodes - i)")
     (auto simp: next_node_def split: if_splits)

declare read_loop.simps [simp del]

definition ByteArray_read :: "nat \<Rightarrow> bytearray \<Rightarrow> (byte list \<times> bytearray) res" where
  "ByteArray_read n s =
     (if n > getReadSize s then Inl Out_of_range
      else bindr (size_mod (m_position s) (m_baseSize s)) (\<lambda>npos.
        bindr (deref (m_root s) (m_cur s)) (\<lambda>node.
        bindr (read_loop (m_root s) (m_cur s) npos (size_sub (length node) npos) n [])
          (\<lambda>(bs, cur). Inr (bs, s\<lparr>m_cur := cur, m_position := m_position s + n\<rparr>)))))"

definition read_at :: "nat \<Rightarrow> nat \<Rightarrow> bytearray \<Rightarrow> byte list res" where
  "read_at n position s =
     (if n > size_sub (m_size s) position then Inl Out_of_range
      else bindr (size_mod position (m_baseSize s)) (\<lambda>npos.
        bindr (deref (m_root s) (m_cur s)) (\<lambda>node.
        bindr (read_loop (m_root s) (m_cur s) npos (size_sub (length node) npos) n [])
          (\<lambda>(bs, cur). Inr bs))))"

text \<open>
  The walk of \<open>setPosition\<close>: \<open>while (v > m_cur->size)\<close> subtract and follow
  \<open>next\<close>, then step over a block that is exactly full.
\<close>

fun seek :: "byte list list \<Rightarrow> nat \<Rightarrow> nat \<Rightarrow> nat option res" where
  "seek [] i v = Inl Null_deref"
| "seek (node # nodes) i v =
     (if v > length node then seek nodes (Suc i) (v - length node)
      else if v = length node then Inr (if nodes = [] then None else Some (Suc i))
      else Inr (Some i))"

definition setPosition :: "nat \<Rightarrow> bytearray \<Rightarrow> bytearray res" where
  "setPosition v s =
     (if v > m_capacity s then Inl Out_of_range
      else bindr (seek (m_root s) 0 v) (\<lambda>cur.
        Inr (s\<lparr>m_position := v, m_size := (if v > m_size s then v else m_size s), m_cur := cur\<rparr>)))"

definition toString :: "bytearray \<Rightarrow> byte list res" where
  "toString s =
     (if getReadSize s = 0 then Inr []
      else read_at (getReadSize s) (m_position s) s)"

section \<open>The invariant of the chain\<close>

definition blocks_ok :: "nat \<Rightarrow> byte list list \<Rightarrow> bool" where
  "blocks_ok b nodes \<longleftrightarrow> 0 < b \<and> list_all (\<lambda>x. length x = b) nodes"

definition cur_at :: "nat \<Rightarrow> byte list list \<Rightarrow> nat \<Rightarrow> nat option" where
  "cur_at b nodes pos = (if pos < length nodes * b then Some (pos div b) else None)"

definition ba_inv :: "bytearray \<Rightarrow> bool" where
  "ba_inv s \<longleftrightarrow> blocks_ok (m_baseSize s) (m_root s) \<and> m_root s \<noteq> [] \<and>
     m_capacity s = length (m_root s) * m_baseSize s \<and>
     m_position s \<le> m_size s \<and> m_size s \<le> m_capacity s \<and>
     m_cur s = cur_at (m_baseSize s) (m_root s) (m_position s) \<and>
     m_endian s \<in> {SYLAR_LITTLE_ENDIAN, SYLAR_BIG_ENDIAN}"

lemma blocks_okD:
  assumes "blocks_ok b nodes"
  shows "0 < b" "\<And>i. i < length nodes \<Longrightarrow> length (nodes ! i) = b"
    "length (concat nodes) = length nodes * b"
  using assms by (auto simp: blocks_ok_def list_all_iff intro: length_concat_equal)

lemma blocks_ok_update:
  "blocks_ok b nodes \<Longrightarrow> length blk = b \<Longrightarrow> blocks_ok b (nodes[i := blk])"
  unfolding blocks_ok_def list_all_iff by (auto dest: set_update_subset_insert[THEN subsetD])

lemma blocks_ok_append:
  "blocks_ok b nodes \<Longrightarrow> blocks_ok b (nodes @ replicate k (Node b))"
  by (auto simp: blocks_ok_def list_all_iff Node_def)

lemma div_block:
  fixes b :: nat
  assumes "npos < b"
  shows "(i * b + npos) div b = i" "(i * b + npos) mod b = npos"
  using assms by auto

lemma concat_split:
  assumes "blocks_ok b nodes" "i < length nodes"
  shows "concat nodes = concat (take i nodes) @ nodes ! i @ concat (drop (Suc i) nodes)"
    and "length (concat (take i nodes)) = i * b"
proof -
  have "nodes = take i nodes @ nodes ! i # drop (Suc i) nodes"
    using assms(2) by (rule id_take_nth_drop)
  then show "concat nodes = concat (take i nodes) @ nodes ! i @ concat (drop (Suc i) nodes)"
    by (metis concat.simps(2) concat_append)
  have "\<And>x. x \<in> set (take i nodes) \<Longrightarrow> length x = b"
    using assms(1) by (auto simp: blocks_ok_def list_all_iff dest: in_set_takeD)
  then show "length (concat (take i nodes)) = i * b"
    using assms(2) length_concat_equal[of "take i nodes" b] by simp
qed

lemma concat_update_overwrite:
  assumes ok: "blocks_ok b nodes" and i: "i < length nodes" and fit: "npos + length xs \<le> b"
  shows "concat (nodes[i := overwrite npos xs (nodes ! i)]) =
         overwrite (i * b + npos) xs (concat nodes)"
proof -
  let ?l = "concat (take i nodes)" and ?r = "concat (drop (Suc i) nodes)"
  have len: "length ?l = i * b" "length (nodes ! i) = b"
    using concat_split(2)[OF ok i] blocks_okD(2)[OF ok i] by auto
  have "concat (nodes[i := overwrite npos xs (nodes ! i)]) =
        ?l @ overwrite npos xs (nodes ! i) @ ?r"
    using i by (simp add: upd_conv_take_nth_drop)
  also have "\<dots> = ?l @ overwrite npos xs (nodes ! i @ ?r)"
    using fit len by (simp add: overwrite_append_left)
  also have "\<dots> = overwrite (i * b + npos) xs (?l @ nodes ! i @ ?r)"
    using len by (simp add: overwrite_append_right)
  finally show ?thesis
    using concat_split(1)[OF ok i] by simp
qed

lemma take_drop_block:
  assumes ok: "blocks_ok b nodes" and i: "i < length nodes" and fit: "npos + n \<le> b"
  shows "take n (drop npos (nodes ! i)) = take n (drop (i * b + npos) (concat nodes))"
proof -
  have len: "length (concat (take i nodes)) = i * b" "length (nodes ! i) = b"
    using concat_split(2)[OF ok i] blocks_okD(2)[OF ok i] by auto
  then show ?thesis
    using fit by (subst concat_split(1)[OF ok i]) simp
qed

section \<open>The copying loops\<close>

lemma cur_at_next:
  assumes "0 < b" "i < length nodes"
  shows "next_node nodes i = cur_at b nodes (Suc i * b)"
proof -
  have "Suc i * b < length nodes * b \<longleftrightarrow> Suc i < length nodes"
    using assms(1) by (simp only: mult_less_cancel2 simp_thms)
  then show ?thesis using assms(1) by (simp add: next_node_def cur_at_def)
qed

lemma cur_at_same:
  assumes "i < length nodes" "npos < b"
  shows "cur_at b nodes (i * b + npos) = Some i"
proof -
  have "i * b + npos < Suc i * b" using assms by simp
  also have "\<dots> \<le> length nodes * b" using assms by (metis Suc_leI mult_le_mono1)
  finally show ?thesis using assms div_block(1)[of npos b i] by (simp add: cur_at_def)
qed

lemma cur_at_block:
  assumes "i < length nodes" "npos < b" "npos + n \<le> b"
  shows "(if b = npos + n then next_node nodes i else Some i) = cur_at b nodes (i * b + npos + n)"
proof (cases "b = npos + n")
  case True
  then have "i * b + npos + n = Suc i * b" by simp
  then show ?thesis
    using True assms cur_at_next[of b i nodes] by (simp only: if_True simp_thms)
next
  case False
  then show ?thesis
    using assms cur_at_same[of i nodes "npos + n" b] by (simp add: add.assoc)
qed

lemma next_block_exists:
  assumes "b - npos < n" "npos < b" "i * b + npos + n \<le> length nodes * b"
  shows "Suc i < length nodes"
proof (rule ccontr)
  assume "\<not> Suc i < length nodes"
  then have "length nodes * b \<le> Suc i * b" by (intro mult_le_mono1) simp
  with assms show False by simp
qed

lemma cur_at_update [simp]: "cur_at b (nodes[i := x]) pos = cur_at b nodes pos"
  by (simp add: cur_at_def)

lemma write_loop_ok:
  assumes "blocks_ok b nodes" "i < length nodes" "npos < b" "buf \<noteq> []"
    and "i * b + npos + length buf \<le> length nodes * b"
  shows "\<exists>nodes'. write_loop nodes (Some i) pos npos (b - npos) buf =
           Inr (nodes', cur_at b nodes (i * b + npos + length buf), pos + length buf) \<and>
         blocks_ok b nodes' \<and> length nodes' = length nodes \<and>
         concat nodes' = overwrite (i * b + npos) buf (concat nodes)"
  using assms
proof (induction "length nodes - i" arbitrary: nodes i npos pos buf rule: less_induct)
  case less
  note ok = less.prems(1) and i = less.prems(2) and np = less.prems(3) and ne = less.prems(4)
  have len: "length (nodes ! i) = b" using blocks_okD(2)[OF ok i] .
  show ?case
  proof (cases "length buf \<le> b - npos")
    case True
    let ?blk = "overwrite npos buf (nodes ! i)"
    have fit: "npos + length buf \<le> b" using True np by simp
    have "write_loop nodes (Some i) pos npos (b - npos) buf =
          Inr (nodes[i := ?blk], cur_at b nodes (i * b + npos + length buf), pos + length buf)"
      using True fit len i ne cur_at_block[OF i np fit] by (subst write_loop.simps) (simp add: memcpy_in_def)
    moreover have "blocks_ok b (nodes[i := ?blk])"
      using ok fit len by (simp add: blocks_ok_update)
    ultimately show ?thesis
      using concat_update_overwrite[OF ok i fit] by simp
  next
    case False
    let ?c = "b - npos"
    let ?h = "take ?c buf" and ?t = "drop ?c buf"
    let ?nodes = "nodes[i := overwrite npos ?h (nodes ! i)]"
    have fit: "npos + length ?h \<le> b" and lh: "length ?h = ?c" using False np by auto
    have si: "Suc i < length nodes"
      using next_block_exists[OF _ np less.prems(5)] False by simp
    have ok': "blocks_ok b ?nodes"
      using ok fit len by (simp add: blocks_ok_update)
    have lenj: "length (nodes ! Suc i) = b" using blocks_okD(2)[OF ok si] .
    have step: "write_loop nodes (Some i) pos npos ?c buf =
                write_loop ?nodes (Some (Suc i)) (pos + ?c) 0 (b - 0) ?t"
      using False fit len i ne si lenj
      by (subst write_loop.simps) (simp add: memcpy_in_def next_node_def)
    have pos': "Suc i * b + 0 + length ?t = i * b + npos + length buf"
      using False np by simp
    have "\<exists>nodes'. write_loop ?nodes (Some (Suc i)) (pos + ?c) 0 (b - 0) ?t =
           Inr (nodes', cur_at b ?nodes (Suc i * b + 0 + length ?t), pos + ?c + length ?t) \<and>
         blocks_ok b nodes' \<and> length nodes' = length ?nodes \<and>
         concat nodes' = overwrite (Suc i * b + 0) ?t (concat ?nodes)"
    proof (rule less.hyps)
      show "length ?nodes - Suc i < length nodes - i" using si by simp
      show "Suc i * b + 0 + length ?t \<le> length ?nodes * b"
        unfolding pos' using less.prems(5) by simp
    qed (use ok' si False np in auto)
    then obtain nodes' where n:
      "write_loop ?nodes (Some (Suc i)) (pos + ?c) 0 (b - 0) ?t =
         Inr (nodes', cur_at b nodes (i * b + npos + length buf), pos + length buf)"
      "blocks_ok b nodes'" "length nodes' = length nodes"
      "concat nodes' = overwrite (Suc i * b) ?t (concat ?nodes)"
      unfolding pos' using False np by auto
    have "concat nodes' = overwrite (i * b + npos + length ?h) ?t
            (overwrite (i * b + npos) ?h (concat nodes))"
      using n(4) concat_update_overwrite[OF ok i fit] lh np by (simp add: add.commute)
    also have "\<dots> = overwrite (i * b + npos) (?h @ ?t) (concat nodes)"
      using less.prems(5) False blocks_okD(3)[OF ok]
      by (intro overwrite_overwrite_adjacent) simp
    finally have "concat nodes' = overwrite (i * b + npos) buf (concat nodes)"
      by simp
    with n step show ?thesis by auto
  qed
qed


lemma read_loop_ok:
  assumes "blocks_ok b nodes" "i < length nodes" "npos < b" "0 < n"
    and "i * b + npos + n \<le> length nodes * b"
  shows "read_loop nodes (Some i) npos (b - npos) n acc =
           Inr (acc @ take n (drop (i * b + npos) (concat nodes)), cur_at b nodes (i * b + npos + n))"
  using assms
proof (induction "length nodes - i" arbitrary: i npos n acc rule: less_induct)
  case less
  note ok = less.prems(1) and i = less.prems(2) and np = less.prems(3) and ne = less.prems(4)
  have len: "length (nodes ! i) = b" using blocks_okD(2)[OF ok i] .
  show ?case
  proof (cases "n \<le> b - npos")
    case True
    then have fit: "npos + n \<le> b" using np by simp
    then show ?thesis
      using True len i ne np take_drop_block[OF ok i fit] cur_at_block[OF i np fit]
      by (subst read_loop.simps) (simp add: memcpy_out_def)
  next
    case False
    let ?c = "b - npos"
    have fit: "npos + ?c \<le> b" using np by simp
    have si: "Suc i < length nodes"
      using next_block_exists[OF _ np less.prems(5)] False by simp
    have lenj: "length (nodes ! Suc i) = b" using blocks_okD(2)[OF ok si] .
    have pos': "Suc i * b + 0 + (n - ?c) = i * b + npos + n" using False np by simp
    have split: "take n (drop (i * b + npos) (concat nodes)) =
        take ?c (drop (i * b + npos) (concat nodes)) @
        take (n - ?c) (drop (Suc i * b) (concat nodes))"
    proof -
      have "n = ?c + (n - ?c)" "Suc i * b = ?c + (i * b + npos)" using False np by auto
      then show ?thesis by (metis drop_drop take_add)
    qed
    have "read_loop nodes (Some i) npos ?c n acc =
          read_loop nodes (Some (Suc i)) 0 (b - 0) (n - ?c)
            (acc @ take ?c (drop (i * b + npos) (concat nodes)))"
      using False fit len i ne si lenj take_drop_block[OF ok i fit]
      by (subst read_loop.simps) (simp add: memcpy_out_def next_node_def)
    also have "\<dots> = Inr ((acc @ take ?c (drop (i * b + npos) (concat nodes))) @
        take (n - ?c) (drop (Suc i * b + 0) (concat nodes)),
        cur_at b nodes (Suc i * b + 0 + (n - ?c)))"
      by (rule less.hyps) (use ok si np ne False less.prems(5) pos' in auto)
    finally show ?thesis
      unfolding pos' using split by simp
  qed
qed

section \<open>Refinement of a flat array with a cursor\<close>

type_synonym cursor = "byte list \<times> nat"

definition ba_abs :: "bytearray \<Rightarrow> cursor" where
  "ba_abs s = (take (m_size s) (concat (m_root s)), m_position s)"

definition spec_write :: "byte list \<Rightarrow> cursor \<Rightarrow> cursor" where
  "spec_write bs c = (overwrite (snd c) bs (fst c), snd c + length bs)"

definition spec_read :: "nat \<Rightarrow> cursor \<Rightarrow> (byte list \<times> cursor) option" where
  "spec_read n c =
     (if snd c + n \<le> length (fst c)
      then Some (take n (drop (snd c) (fst c)), (fst c, snd c + n)) else None)"

lemma spec_write_append:
  "snd c \<le> length (fst c) \<Longrightarrow> spec_write ys (spec_write xs c) = spec_write (xs @ ys) c"
  by (simp add: spec_write_def overwrite_def min_def add.commute add.left_commute)

lemma ba_invD:
  assumes "ba_inv s"
  shows "0 < m_baseSize s" "blocks_ok (m_baseSize s) (m_root s)"
    "length (concat (m_root s)) = m_capacity s"
    "m_capacity s = length (m_root s) * m_baseSize s"
    "m_position s \<le> m_size s" "m_size s \<le> m_capacity s"
    "getReadSize s = m_size s - m_position s" "getCapacity s = m_capacity s - m_position s"
    "length (fst (ba_abs s)) = m_size s" "snd (ba_abs s) = m_position s"
  using assms
  by (auto simp: ba_inv_def getReadSize_def getCapacity_def ba_abs_def dest: blocks_okD)

lemma ba_inv_cur:
  assumes "ba_inv s" "m_position s < m_capacity s"
  shows "m_cur s = Some (m_position s div m_baseSize s)"
    "m_position s div m_baseSize s < length (m_root s)"
    "deref (m_root s) (m_cur s) = Inr (m_root s ! (m_position s div m_baseSize s))"
    "length (m_root s ! (m_position s div m_baseSize s)) = m_baseSize s"
proof -
  show c: "m_cur s = Some (m_position s div m_baseSize s)"
    using assms by (simp add: ba_inv_def cur_at_def)
  show l: "m_position s div m_baseSize s < length (m_root s)"
    using assms by (simp add: ba_inv_def less_mult_imp_div_less)
  then show "deref (m_root s) (m_cur s) = Inr (m_root s ! (m_position s div m_baseSize s))"
    "length (m_root s ! (m_position s div m_baseSize s)) = m_baseSize s"
    using c ba_invD(2)[OF assms(1)] by (auto simp: deref_def dest: blocks_okD)
qed

lemma ba_inv_new: "0 < b \<Longrightarrow> ba_inv (ByteArray_new b)"
  by (simp add: ba_inv_def ByteArray_new_def blocks_ok_def Node_def cur_at_def)

lemma m_position_new [simp]: "m_position (ByteArray_new b) = 0"
  by (simp add: ByteArray_new_def)

lemma ba_abs_new: "ba_abs (ByteArray_new b) = ([], 0)"
  by (simp add: ba_abs_def ByteArray_new_def)

lemma addCapacity_ok:
  assumes inv: "ba_inv s"
  shows "\<exists>s'. addCapacity n s = Inr s' \<and> ba_inv s' \<and> ba_abs s' = ba_abs s \<and>
           m_position s + n \<le> m_capacity s' \<and> m_capacity s \<le> m_capacity s' \<and>
           m_size s' = m_size s \<and> m_position s' = m_position s \<and>
           m_baseSize s' = m_baseSize s \<and> m_endian s' = m_endian s"
proof (cases "n = 0 \<or> n \<le> getCapacity s")
  case True
  then show ?thesis
    using assms ba_invD[OF inv] by (auto simp: addCapacity_def Let_def)
next
  case False
  let ?b = "m_baseSize s"
  define k where "k = (n - getCapacity s + ?b - 1) div ?b"
  define s' where "s' = s\<lparr>m_root := m_root s @ replicate k (Node ?b),
     m_capacity := m_capacity s + k * ?b,
     m_cur := (if getCapacity s = 0 then Some (length (m_root s)) else m_cur s)\<rparr>"
  note D = ba_invD[OF inv]
  have room: "n - getCapacity s \<le> k * ?b"
    unfolding k_def using D(1) by (rule ceil_div_mult)
  have k: "0 < k" using room False by (cases k) auto
  have eq: "addCapacity n s = Inr s'"
    using False D(1) by (simp add: addCapacity_def s'_def k_def Let_def)
  have abs: "ba_abs s' = ba_abs s"
    using D(3,6) by (simp add: ba_abs_def s'_def)
  have "m_cur s' = cur_at ?b (m_root s') (m_position s)"
  proof (cases "getCapacity s = 0")
    case True
    then have "m_position s = length (m_root s) * ?b" using D by simp
    then show ?thesis
      using True k D(1) by (simp add: s'_def cur_at_def algebra_simps)
  next
    case False
    then have "m_position s < length (m_root s) * ?b" using D by simp
    then show ?thesis
      using False inv by (simp add: s'_def cur_at_def ba_inv_def algebra_simps)
  qed
  then have "ba_inv s'"
    using inv D k by (auto simp: ba_inv_def s'_def blocks_ok_append algebra_simps)
  then show ?thesis
    using eq abs room D by (auto simp: s'_def)
qed

lemma ba_abs_write:
  assumes "p \<le> n" "n \<le> length xs" "p + length bs \<le> length xs"
  shows "take (max n (p + length bs)) (overwrite p bs xs) = overwrite p bs (take n xs)"
proof (cases "n \<le> p + length bs")
  case True
  then show ?thesis using assms by (simp add: overwrite_def max_def)
next
  case False
  then show ?thesis
    using assms by (simp add: overwrite_def max_def take_drop min_def)
qed

text \<open>Writing never fails, keeps the invariant and overwrites the flat array at the cursor.\<close>

lemma write_refines:
  assumes inv: "ba_inv s"
  shows "\<exists>s'. ByteArray_write bs s = Inr s' \<and> ba_inv s' \<and> ba_abs s' = spec_write bs (ba_abs s) \<and>
           m_capacity s \<le> m_capacity s' \<and>
           m_baseSize s' = m_baseSize s \<and> m_endian s' = m_endian s"
proof (cases "bs = []")
  case True
  then show ?thesis using inv by (simp add: ByteArray_write_def spec_write_def)
next
  case ne: False
  obtain t where t: "addCapacity (length bs) s = Inr t" "ba_inv t" "ba_abs t = ba_abs s"
    "m_position s + length bs \<le> m_capacity t" "m_capacity s \<le> m_capacity t"
    "m_size t = m_size s" "m_position t = m_position s"
    "m_baseSize t = m_baseSize s" "m_endian t = m_endian s"
    using addCapacity_ok[OF inv] by blast
  let ?b = "m_baseSize t" and ?p = "m_position t"
  let ?i = "?p div ?b" and ?np = "?p mod ?b"
  note D = ba_invD[OF t(2)]
  have "?p < m_capacity t" using t(4,7) ne by (cases bs) auto
  note C = ba_inv_cur[OF t(2) this]
  have pos: "?i * ?b + ?np = ?p" by simp
  have np: "?np < ?b" using D(1) by simp
  have fits: "?i * ?b + ?np + length bs \<le> length (m_root t) * ?b"
    using t(4,7) D(4) by simp
  obtain nodes where n: "write_loop (m_root t) (Some ?i) ?p ?np (?b - ?np) bs =
       Inr (nodes, cur_at ?b (m_root t) (?p + length bs), ?p + length bs)"
     "blocks_ok ?b nodes" "length nodes = length (m_root t)"
     "concat nodes = overwrite ?p bs (concat (m_root t))"
    using write_loop_ok[OF D(2) C(2) np ne fits, of ?p] pos by auto
  define s' where "s' = t\<lparr>m_root := nodes, m_cur := cur_at ?b (m_root t) (?p + length bs),
     m_position := ?p + length bs, m_size := max (m_size t) (?p + length bs)\<rparr>"
  have eq: "ByteArray_write bs s = Inr s'"
    using ne t(1) D(1) C n(1) np by (auto simp: ByteArray_write_def s'_def max_def)
  have "ba_inv s'"
    using t(2) n D fits pos by (auto simp: ba_inv_def s'_def cur_at_def)
  moreover have "ba_abs s' = spec_write bs (ba_abs s)"
    using ba_abs_write[of ?p "m_size t" "concat (m_root t)" bs] D fits pos n(4) t(3)[symmetric]
    by (simp add: ba_abs_def s'_def spec_write_def)
  ultimately show ?thesis
    using eq t by (auto simp: s'_def)
qed

text \<open>
  Reading refines the flat read, the throw included, except that a request for zero bytes at the
  very end of the storage follows a null \<open>m_cur\<close>.
\<close>

lemma read_refines:
  assumes inv: "ba_inv s" and ok: "0 < n \<or> m_position s < m_capacity s"
  shows "case spec_read n (ba_abs s) of
           None \<Rightarrow> ByteArray_read n s = Inl Out_of_range
         | Some (bs, c) \<Rightarrow> \<exists>s'. ByteArray_read n s = Inr (bs, s') \<and> ba_inv s' \<and> ba_abs s' = c \<and>
             m_baseSize s' = m_baseSize s \<and> m_endian s' = m_endian s \<and>
             m_capacity s' = m_capacity s \<and> m_root s' = m_root s"
proof -
  note D = ba_invD[OF inv]
  let ?b = "m_baseSize s" and ?p = "m_position s"
  let ?i = "?p div ?b" and ?np = "?p mod ?b"
  show ?thesis
  proof (cases "?p + n \<le> m_size s")
    case False
    then have "getReadSize s < n" using D(5,7) by linarith
    then show ?thesis using False D(9,10) by (simp add: spec_read_def ByteArray_read_def)
  next
    case True
    have "?p < m_capacity s" using ok True D(6) by auto
    note C = ba_inv_cur[OF inv this]
    have np: "?np < ?b" using D(1) by simp
    have fits: "?i * ?b + ?np + n \<le> length (m_root s) * ?b"
      using True D(4,6) by simp
    have loop: "read_loop (m_root s) (Some ?i) ?np (?b - ?np) n [] =
        Inr (take n (drop ?p (concat (m_root s))), cur_at ?b (m_root s) (?p + n))"
    proof (cases "n = 0")
      case True
      then show ?thesis using C by (subst read_loop.simps) (use inv in \<open>simp add: ba_inv_def\<close>)
    next
      case False
      then show ?thesis using read_loop_ok[OF D(2) C(2) np _ fits, of "[]"] by simp
    qed
    define s' where "s' = s\<lparr>m_cur := cur_at ?b (m_root s) (?p + n), m_position := ?p + n\<rparr>"
    have "ByteArray_read n s = Inr (take n (drop ?p (concat (m_root s))), s')"
      using True D C loop np by (simp add: ByteArray_read_def s'_def)
    moreover have "ba_inv s'" using inv True by (simp add: ba_inv_def s'_def)
    moreover have "take n (drop ?p (concat (m_root s))) = take n (drop ?p (fst (ba_abs s)))"
      using True by (simp add: ba_abs_def take_drop min_def add.commute)
    ultimately show ?thesis
      using True D by (simp add: spec_read_def s'_def ba_abs_def)
  qed
qed

lemma seek_ok:
  assumes "list_all (\<lambda>x. length x = b) nodes" "0 < b" "v \<le> length nodes * b" "nodes \<noteq> []"
  shows "seek nodes i v = Inr (if v < length nodes * b then Some (i + v div b) else None)"
  using assms
proof (induction nodes i v rule: seek.induct)
  case (1 i v)
  then show ?case by simp
next
  case (2 node nodes i v)
  have len: "length node = b" using "2.prems" by simp
  consider "b < v" | "v = b" | "v < b" by linarith
  then show ?case
  proof cases
    case 1
    then have "nodes \<noteq> []" using "2.prems" len by (cases nodes) auto
    then show ?thesis
      using 1 2 len by (auto simp: le_div_geq less_diff_conv2)
  next
    case 2
    then show ?thesis using "2.prems" len by (cases nodes) auto
  next
    case 3
    then show ?thesis using "2.prems" len by auto
  qed
qed

lemma setPosition_ok:
  assumes inv: "ba_inv s" and v: "v \<le> m_capacity s"
  shows "\<exists>s'. setPosition v s = Inr s' \<and> ba_inv s' \<and> m_position s' = v \<and>
           m_size s' = max (m_size s) v \<and> m_root s' = m_root s \<and>
           m_baseSize s' = m_baseSize s \<and> m_endian s' = m_endian s \<and> m_capacity s' = m_capacity s"
proof -
  note D = ba_invD[OF inv]
  have "seek (m_root s) 0 v = Inr (cur_at (m_baseSize s) (m_root s) v)"
    using inv v seek_ok[of "m_baseSize s" "m_root s" v 0]
    by (simp add: ba_inv_def blocks_ok_def cur_at_def)
  then show ?thesis
    using v inv by (auto simp: setPosition_def ba_inv_def max_def)
qed

lemma setPosition_out_of_range: "m_capacity s < v \<Longrightarrow> setPosition v s = Inl Out_of_range"
  by (simp add: setPosition_def)

lemma setPosition_refines:
  assumes "ba_inv s" "v \<le> m_size s"
  shows "\<exists>s'. setPosition v s = Inr s' \<and> ba_inv s' \<and> ba_abs s' = (fst (ba_abs s), v) \<and>
           m_endian s' = m_endian s \<and> m_capacity s' = m_capacity s"
  using setPosition_ok[of s v] assms ba_invD(6)[OF assms(1)]
  by (auto simp: ba_abs_def max_def split: if_splits)

lemma clear_refines:
  assumes inv: "ba_inv s"
  shows "ba_inv (ByteArray_clear s)" "ba_abs (ByteArray_clear s) = ([], 0)"
    "m_endian (ByteArray_clear s) = m_endian s" "m_capacity (ByteArray_clear s) = m_baseSize s"
proof -
  obtain x xs where r: "m_root s = x # xs" using inv by (cases "m_root s") (auto simp: ba_inv_def)
  then show "ba_inv (ByteArray_clear s)"
    using inv by (simp add: ba_inv_def ByteArray_clear_def blocks_ok_def cur_at_def)
qed (simp_all add: ba_abs_def ByteArray_clear_def)

lemma toString_ok:
  assumes inv: "ba_inv s"
  shows "toString s = Inr (drop (snd (ba_abs s)) (fst (ba_abs s)))"
proof (cases "m_position s = m_size s")
  case True
  then show ?thesis using ba_invD[OF inv] by (simp add: toString_def ba_abs_def)
next
  case False
  note D = ba_invD[OF inv]
  let ?n = "m_size s - m_position s"
  have lt: "0 < ?n" using False D(5) by simp
  have "toString s = bindr (ByteArray_read ?n s) (\<lambda>(bs, _). Inr bs)"
    using lt D(7) by (simp add: toString_def ByteArray_read_def read_at_def bindr_assoc size_sub_def
      getReadSize_def split_def)
  then show ?thesis
    using read_refines[OF inv, of ?n] lt D by (auto simp: spec_read_def split: option.splits)
qed

section \<open>Sequences of operations\<close>

text \<open>
  A client of the store issues writes, reads, repositionings and clears. The flat array determines
  the outcome of each (\<open>spec_step\<close>), except for a read of zero bytes and a position beyond the
  stored data, which depend on how much storage there is.
\<close>

datatype ba_op = Write "byte list" | Read nat | Seek nat | Clear

fun ba_step :: "ba_op \<Rightarrow> bytearray \<Rightarrow> byte list res \<times> bytearray" where
  "ba_step (Write bs) s =
     (case ByteArray_write bs s of Inl e \<Rightarrow> (Inl e, s) | Inr s' \<Rightarrow> (Inr [], s'))"
| "ba_step (Read n) s =
     (case ByteArray_read n s of Inl e \<Rightarrow> (Inl e, s) | Inr (bs, s') \<Rightarrow> (Inr bs, s'))"
| "ba_step (Seek v) s =
     (case setPosition v s of Inl e \<Rightarrow> (Inl e, s) | Inr s' \<Rightarrow> (Inr [], s'))"
| "ba_step Clear s = (Inr [], ByteArray_clear s)"

fun ba_run :: "ba_op list \<Rightarrow> bytearray \<Rightarrow> byte list res list \<times> bytearray" where
  "ba_run [] s = ([], s)"
| "ba_run (x # xs) s = (let (r, s') = ba_step x s; (rs, t) = ba_run xs s' in (r # rs, t))"

fun spec_step :: "ba_op \<Rightarrow> cursor \<Rightarrow> (byte list res \<times> cursor) option" where
  "spec_step (Write bs) c = Some (Inr [], spec_write bs c)"
| "spec_step (Read n) c =
     (if n = 0 then None
      else case spec_read n c of None \<Rightarrow> Some (Inl Out_of_range, c) | Some (bs, c') \<Rightarrow> Some (Inr bs, c'))"
| "spec_step (Seek v) c = (if v \<le> length (fst c) then Some (Inr [], (fst c, v)) else None)"
| "spec_step Clear c = Some (Inr [], ([], 0))"

fun spec_run :: "ba_op list \<Rightarrow> cursor \<Rightarrow> (byte list res list \<times> cursor) option" where
  "spec_run [] c = Some ([], c)"
| "spec_run (x # xs) c =
     Option.bind (spec_step x c) (\<lambda>(r, c'). map_option (\<lambda>(rs, d). (r # rs, d)) (spec_run xs c'))"

lemma ba_step_refines:
  assumes inv: "ba_inv s" and step: "spec_step x (ba_abs s) = Some (r, c)"
  shows "\<exists>s'. ba_step x s = (r, s') \<and> ba_inv s' \<and> ba_abs s' = c"
proof (cases x)
  case (Write bs)
  then show ?thesis using write_refines[OF inv, of bs] step by auto
next
  case (Read n)
  then show ?thesis
    using read_refines[OF inv, of n] step inv by (auto split: if_splits option.splits)
next
  case (Seek v)
  then show ?thesis
    using setPosition_refines[OF inv, of v] step ba_invD(9)[OF inv] by (auto split: if_splits)
next
  case Clear
  then show ?thesis using clear_refines[OF inv] step by auto
qed

lemma ba_run_refines:
  assumes "ba_inv s" "spec_run xs (ba_abs s) = Some (rs, c)"
  shows "\<exists>s'. ba_run xs s = (rs, s') \<and> ba_inv s' \<and> ba_abs s' = c"
  using assms
proof (induction xs arbitrary: s rs)
  case Nil
  then show ?case by simp
next
  case (Cons x xs)
  from Cons.prems(2) obtain r c' rs' where c: "spec_step x (ba_abs s) = Some (r, c')"
    "spec_run xs c' = Some (rs', c)" "rs = r # rs'"
    by (auto simp: Option.bind_eq_Some_conv)
  obtain s' where s': "ba_step x s = (r, s')" "ba_inv s'" "ba_abs s' = c'"
    using ba_step_refines[OF Cons.prems(1) c(1)] by blast
  then show ?case using Cons.IH[of s' rs'] c by auto
qed

section \<open>Properties\<close>



text \<open>
  a write never fails on a well-formed store: it grows the chain as needed, overwrites the flat
  contents at the position, and leaves a well-formed store whose capacity never shrinks.
\<close>

theorem write_total:
  assumes "ba_inv s"
  shows "\<exists>s'. ByteArray_write bs s = Inr s' \<and> ba_inv s' \<and>
           m_position s' = m_position s + length bs \<and>
           m_size s' = max (m_size s) (m_position s + length bs) \<and>
           fst (ba_abs s') = overwrite (m_position s) bs (fst (ba_abs s)) \<and>
           m_capacity s \<le> m_capacity s' \<and> m_endian s' = m_endian s"
proof -
  obtain s' where s': "ByteArray_write bs s = Inr s'" "ba_inv s'" "ba_abs s' = spec_write bs (ba_abs s)"
    "m_capacity s \<le> m_capacity s'" "m_endian s' = m_endian s"
    using write_refines[OF assms] by blast
  have "m_size s' = length (overwrite (m_position s) bs (fst (ba_abs s)))"
    using ba_invD(9)[OF s'(2)] s'(3) ba_invD(10)[OF assms] by (simp add: spec_write_def)
  also have "\<dots> = max (m_size s) (m_position s + length bs)"
    using ba_invD(5,9)[OF assms] by (simp add: overwrite_def)
  finally show ?thesis
    using s' ba_invD(10)[OF assms] ba_invD(10)[OF s'(2)] by (auto simp: spec_write_def)
qed

theorem write_total_witness:
  "\<exists>s'. ByteArray_write [7, 8, 9] (ByteArray_new 2) = Inr s' \<and> fst (ba_abs s') = [7, 8, 9]"
  using write_total[OF ba_inv_new, of 2 "[7, 8, 9]"] by (auto simp: ba_abs_new overwrite_def)

text \<open>
  \<open>setPosition\<close> throws exactly beyond the capacity; otherwise it moves the position, extends
  the size when the position passes it, and keeps the store well formed.
\<close>

theorem setPosition_total:
  assumes "ba_inv s"
  shows "if v \<le> m_capacity s
         then \<exists>s'. setPosition v s = Inr s' \<and> ba_inv s' \<and> m_position s' = v \<and>
                m_size s' = max (m_size s) v \<and> m_root s' = m_root s
         else setPosition v s = Inl Out_of_range"
  using setPosition_ok[OF assms, of v] setPosition_out_of_range[of s v] by auto

theorem setPosition_total_witness:
  "setPosition 3 (ByteArray_new 2) = Inl Out_of_range"
  using setPosition_total[OF ba_inv_new, of 2 3] by (simp add: ByteArray_new_def)

text \<open>
  at the end of the storage even a read of zero bytes, which the size check admits, follows the
  null \<open>m_cur\<close>.
\<close>

theorem read_zero_at_end_null_deref:
  assumes "ba_inv s" "m_position s = m_capacity s"
  shows "ByteArray_read 0 s = Inl Null_deref"
  using assms ba_invD(1)[OF assms(1)]
  by (simp add: ByteArray_read_def ba_inv_def cur_at_def deref_def)

theorem read_zero_at_end_null_deref_witness:
  "\<exists>s. ByteArray_write [1] (ByteArray_new 1) = Inr s \<and> ByteArray_read 0 s = Inl Null_deref"
proof -
  let ?s = "\<lparr>m_baseSize = 1, m_position = 1, m_capacity = 1, m_size = 1, m_endian = 2,
             m_root = [[1]], m_cur = None\<rparr>"
  have "ByteArray_write [1] (ByteArray_new 1) = Inr ?s" by code_simp
  moreover have "ByteArray_read 0 ?s = Inl Null_deref"
    by (rule read_zero_at_end_null_deref)
       (simp_all add: ba_inv_def blocks_ok_def cur_at_def SYLAR_BIG_ENDIAN_def)
  ultimately show ?thesis by blast
qed

text \<open>
  the positional \<open>read\<close> starts in the block under \<open>m_cur\<close>, not in the block of the
  requested position: it returns the bytes at the requested offset modulo the block size counted
  from the current block, so it is right exactly when the position lies in the current block.
\<close>

theorem positional_read_uses_current_block:
  assumes inv: "ba_inv s" and n: "0 < n" "p + n \<le> m_size s" and cur: "m_position s < m_capacity s"
    and q: "q = m_position s div m_baseSize s * m_baseSize s + p mod m_baseSize s"
    and fit: "q + n \<le> m_capacity s"
  shows "read_at n p s = Inr (take n (drop q (concat (m_root s)))) \<and>
         (p div m_baseSize s = m_position s div m_baseSize s \<longrightarrow>
            read_at n p s = Inr (take n (drop p (fst (ba_abs s)))))"
proof -
  note D = ba_invD[OF inv] and C = ba_inv_cur[OF inv cur]
  have np: "p mod m_baseSize s < m_baseSize s" using D(1) by simp
  have "read_at n p s = Inr (take n (drop q (concat (m_root s))))"
    using read_loop_ok[OF D(2) C(2) np n(1), of "[]"] fit C D n(2) np
    by (simp add: read_at_def q)
  moreover have "p div m_baseSize s = m_position s div m_baseSize s \<Longrightarrow> q = p"
    unfolding q by (metis div_mult_mod_eq)
  moreover have "take n (drop p (concat (m_root s))) = take n (drop p (fst (ba_abs s)))"
    using n(2) by (simp add: ba_abs_def drop_take)
  ultimately show ?thesis by auto
qed

theorem positional_read_uses_current_block_witness:
  "\<exists>s. ba_run [Write [1, 2, 3, 4], Seek 0] (ByteArray_new 2) = ([Inr [], Inr []], s) \<and>
     fst (ba_abs s) = [1, 2, 3, 4] \<and> read_at 1 2 s = Inr [1]"
proof -
  let ?s = "\<lparr>m_baseSize = 2, m_position = 0, m_capacity = 4, m_size = 4, m_endian = 2,
             m_root = [[1, 2], [3, 4]], m_cur = Some 0\<rparr>"
  have "ba_run [Write [1, 2, 3, 4], Seek 0] (ByteArray_new 2) = ([Inr [], Inr []], ?s)" by code_simp
  moreover have "read_at 1 2 ?s = Inr (take 1 (drop 0 (concat (m_root ?s))))"
    by (rule positional_read_uses_current_block[THEN conjunct1])
       (simp_all add: ba_inv_def blocks_ok_def cur_at_def SYLAR_BIG_ENDIAN_def)
  ultimately show ?thesis by (simp add: ba_abs_def)
qed

text \<open>\<open>toString\<close> returns the bytes from the position to the end and never fails.\<close>

theorem toString_returns_pending:
  assumes "ba_inv s"
  shows "toString s = Inr (drop (m_position s) (fst (ba_abs s)))"
  using toString_ok[OF assms] ba_invD(10)[OF assms] by simp

theorem toString_returns_pending_witness: "toString (ByteArray_new 4) = Inr []"
  using toString_returns_pending[OF ba_inv_new, of 4] by (simp add: ba_abs_new)

end
