(* ===== verification/ByteArrayIO.thy ===== *)
theory ByteArrayIO
  imports ByteArray
begin

text \<open>
  The operations of \<open>sylar/bytearray.cc\<close> that expose the store to the outside: scatter/gather
  buffers for \<open>readv\<close> and \<open>writev\<close>, copying to and from files, and the hex dump.
  An \<open>iovec\<close> is the triple of a block index, an offset in that block and a length.
\<close>

section \<open>Scatter and gather buffers\<close>

type_synonym iovec = "nat \<times> nat \<times> nat"

function buffers_loop ::
  "byte list list \<Rightarrow> nat option \<Rightarrow> nat \<Rightarrow> nat \<Rightarrow> nat \<Rightarrow> iovec list \<Rightarrow> iovec list res" where
  "buffers_loop nodes cur npos ncap len buffers =
     (if len = 0 then Inr buffers
      else case cur of
        None \<Rightarrow> Inl Null_deref
      | Some i \<Rightarrow>
          if length nodes \<le> i then Inl Bad_access
          else if len \<le> ncap then Inr (buffers @ [(i, npos, len)])
          else case next_node nodes i of
                 None \<Rightarrow> Inl Null_deref
               | Some j \<Rightarrow> buffers_loop nodes (Some j) 0 (length (nodes ! j)) (len - ncap)
                            (buffers @ [(i, npos, ncap)]))"
  by pat_completeness auto
termination
  by (relation "measure (\<lambda>(nodes, cur, _). case cur of None \<Rightarrow> 0 | Some i \<Rightarrow> length nodes - i)")
     (auto simp: next_node_def split: if_splits)

declare buffers_loop.simps [simp del]

definition getReadBuffers :: "nat \<Rightarrow> bytearray \<Rightarrow> (nat \<times> iovec list) res" where
  "getReadBuffers len0 s =
     (let len = (if len0 > getReadSize s then getReadSize s else len0) in
      if len = 0 then Inr (0, [])
      else bindr (size_mod (m_position s) (m_baseSize s)) (\<lambda>npos.
        bindr (deref (m_root s) (m_cur s)) (\<lambda>node.
        bindr (buffers_loop (m_root s) (m_cur s) npos (size_sub (length node) npos) len [])
          (\<lambda>buffers. Inr (len, buffers)))))"

definition nth_node :: "byte list list \<Rightarrow> nat \<Rightarrow> nat option" where
  "nth_node nodes count = (if count < length nodes then Some count else None)"

definition getReadBuffers_at :: "nat \<Rightarrow> nat \<Rightarrow> bytearray \<Rightarrow> (nat \<times> iovec list) res" where
  "getReadBuffers_at len0 position s =
     (let len = (if len0 > getReadSize s then getReadSize s else len0) in
      if len = 0 then Inr (0, [])
      else bindr (size_mod position (m_baseSize s)) (\<lambda>npos.
        let cur = nth_node (m_root s) (position div m_baseSize s) in
        bindr (deref (m_root s) cur) (\<lambda>node.
        bindr (buffers_loop (m_root s) cur npos (size_sub (length node) npos) len [])
          (\<lambda>buffers. Inr (len, buffers)))))"

definition getWriteBuffers :: "nat \<Rightarrow> bytearray \<Rightarrow> (nat \<times> iovec list \<times> bytearray) res" where
  "getWriteBuffers len s0 =
     (if len = 0 then Inr (0, [], s0)
      else bindr (addCapacity len s0) (\<lambda>s.
        bindr (size_mod (m_position s) (m_baseSize s)) (\<lambda>npos.
        bindr (deref (m_root s) (m_cur s)) (\<lambda>node.
        bindr (buffers_loop (m_root s) (m_cur s) npos (size_sub (length node) npos) len [])
          (\<lambda>buffers. Inr (len, buffers, s))))))"

section \<open>Files\<close>

text \<open>
  \<open>writeToFile\<close> on an opened stream: the sizes are signed 64-bit numbers, \<open>len\<close>
  may come out negative, and the bytes written are the result. A length that is negative or leaves
  the block is a bad access.
\<close>

function writeToFile_loop ::
  "byte list list \<Rightarrow> nat \<Rightarrow> nat option \<Rightarrow> int \<Rightarrow> int \<Rightarrow> byte list \<Rightarrow> byte list res" where
  "writeToFile_loop nodes base cur read_size pos out =
     (if read_size \<le> 0 then Inr out
      else if base = 0 then Inl Div_by_zero
      else let diff = pos mod int base;
               len = (if read_size > int base then int base else read_size) - diff in
        case cur of
          None \<Rightarrow> Inl Null_deref
        | Some i \<Rightarrow>
            if length nodes \<le> i then Inl Bad_access
            else if len < 0 then Inl Bad_access
            else bindr (memcpy_out (nat diff) (nat len) (nodes ! i)) (\<lambda>bs.
              writeToFile_loop nodes base (next_node nodes i) (read_size - len) (pos + len) (out @ bs)))"
  by pat_completeness auto
termination
  by (relation "measure (\<lambda>(nodes, base, cur, _). case cur of None \<Rightarrow> 0 | Some i \<Rightarrow> Suc (length nodes) - i)")
     (auto simp: next_node_def split: if_splits)

declare writeToFile_loop.simps [simp del]

definition writeToFile :: "bool \<Rightarrow> bytearray \<Rightarrow> (bool \<times> byte list) res" where
  "writeToFile opened s =
     (if \<not> opened then Inr (False, [])
      else bindr (writeToFile_loop (m_root s) (m_baseSize s) (m_cur s) (int (getReadSize s))
                    (int (m_position s)) [])
             (\<lambda>out. Inr (True, out)))"

text \<open>
  \<open>readFromFile\<close> on an opened stream that holds \<open>content\<close>: a read that comes back
  short sets \<open>eof\<close>. With an empty buffer no read is ever short.
\<close>

function readFromFile_loop :: "nat \<Rightarrow> byte list \<Rightarrow> bytearray \<Rightarrow> bytearray res" where
  "readFromFile_loop base content s =
     (if base = 0 then Inl Diverges
      else bindr (ByteArray_write (take base content) s) (\<lambda>t.
        if length content < base then Inr t else readFromFile_loop base (drop base content) t))"
  by pat_completeness auto
termination
  by (relation "measure (\<lambda>(base, content, s). if length content < base then 0 else Suc (length content))")
     auto

declare readFromFile_loop.simps [simp del]

definition readFromFile :: "byte list option \<Rightarrow> bytearray \<Rightarrow> (bool \<times> bytearray) res" where
  "readFromFile file s =
     (case file of
        None \<Rightarrow> Inr (False, s)
      | Some content \<Rightarrow> bindr (readFromFile_loop (m_baseSize s) content s) (\<lambda>t. Inr (True, t)))"

section \<open>Hex dump\<close>

definition hex_digit :: "nat \<Rightarrow> char" where
  "hex_digit n = ''0123456789abcdef'' ! n"

fun hex_bytes :: "nat \<Rightarrow> byte list \<Rightarrow> string" where
  "hex_bytes i [] = []"
| "hex_bytes i (b # bs) =
     (if 0 < i \<and> i mod 32 = 0 then [CHR 0x0A] else []) @
     [hex_digit (unat b div 16), hex_digit (unat b mod 16), CHR '' ''] @ hex_bytes (Suc i) bs"

definition toHexString :: "bytearray \<Rightarrow> string res" where
  "toHexString s = bindr (toString s) (\<lambda>str. Inr (hex_bytes 0 str))"

section \<open>What the buffers cover\<close>

definition iov_range :: "nat \<Rightarrow> iovec \<Rightarrow> nat list" where
  "iov_range b v = (case v of (i, off, len) \<Rightarrow> [i * b + off ..< i * b + off + len])"

definition iov_ok :: "nat \<Rightarrow> byte list list \<Rightarrow> iovec \<Rightarrow> bool" where
  "iov_ok b nodes v = (case v of (i, off, len) \<Rightarrow> i < length nodes \<and> off + len \<le> b \<and> 0 < len)"

definition iov_bytes :: "byte list list \<Rightarrow> iovec list \<Rightarrow> byte list" where
  "iov_bytes nodes vs = concat (map (\<lambda>(i, off, len). take len (drop off (nodes ! i))) vs)"

lemma upt_split: "a \<le> b \<Longrightarrow> b \<le> c \<Longrightarrow> [a..<b] @ [b..<c] = [a..<c]"
  by (metis le_add_diff_inverse upt_add_eq_append)

lemma buffers_loop_ok:
  assumes "blocks_ok b nodes" "i < length nodes" "npos < b" "0 < len"
    and "i * b + npos + len \<le> length nodes * b"
  shows "\<exists>vs. buffers_loop nodes (Some i) npos (b - npos) len acc = Inr (acc @ vs) \<and>
           list_all (iov_ok b nodes) vs \<and>
           concat (map (iov_range b) vs) = [i * b + npos ..< i * b + npos + len]"
  using assms
proof (induction "length nodes - i" arbitrary: i npos len acc rule: less_induct)
  case less
  note ok = less.prems(1) and i = less.prems(2) and np = less.prems(3) and ne = less.prems(4)
  show ?case
  proof (cases "len \<le> b - npos")
    case True
    have "buffers_loop nodes (Some i) npos (b - npos) len acc = Inr (acc @ [(i, npos, len)])"
      using True i ne by (subst buffers_loop.simps) simp
    moreover have "list_all (iov_ok b nodes) [(i, npos, len)]"
      using True i ne np by (simp add: iov_ok_def)
    moreover have "concat (map (iov_range b) [(i, npos, len)]) = [i * b + npos ..< i * b + npos + len]"
      by (simp add: iov_range_def)
    ultimately show ?thesis by blast
  next
    case False
    let ?c = "b - npos"
    have si: "Suc i < length nodes"
      using next_block_exists[OF _ np less.prems(5)] False by simp
    have lenj: "length (nodes ! Suc i) = b" using blocks_okD(2)[OF ok si] .
    have pos': "Suc i * b + 0 + (len - ?c) = i * b + npos + len" using False np by simp
    have step: "buffers_loop nodes (Some i) npos ?c len acc =
          buffers_loop nodes (Some (Suc i)) 0 (b - 0) (len - ?c) (acc @ [(i, npos, ?c)])"
      using False i ne si lenj by (subst buffers_loop.simps) (simp add: next_node_def)
    have "\<exists>vs. buffers_loop nodes (Some (Suc i)) 0 (b - 0) (len - ?c) (acc @ [(i, npos, ?c)]) =
           Inr ((acc @ [(i, npos, ?c)]) @ vs) \<and> list_all (iov_ok b nodes) vs \<and>
         concat (map (iov_range b) vs) = [Suc i * b + 0 ..< Suc i * b + 0 + (len - ?c)]"
      by (rule less.hyps) (use si ok np False less.prems(5) pos' in auto)
    then obtain vs where vs:
      "buffers_loop nodes (Some (Suc i)) 0 (b - 0) (len - ?c) (acc @ [(i, npos, ?c)]) =
         Inr ((acc @ [(i, npos, ?c)]) @ vs)"
      "list_all (iov_ok b nodes) vs"
      "concat (map (iov_range b) vs) = [Suc i * b + 0 ..< Suc i * b + 0 + (len - ?c)]"
      by blast
    have "concat (map (iov_range b) ((i, npos, ?c) # vs)) =
          [i * b + npos ..< i * b + npos + ?c] @ [Suc i * b + 0 ..< i * b + npos + len]"
      using vs(3) unfolding pos' by (simp add: iov_range_def)
    also have "\<dots> = [i * b + npos ..< i * b + npos + len]"
      using np False upt_split[of "i * b + npos" "i * b + b" "i * b + npos + len"]
      by (simp add: add.commute)
    finally have "concat (map (iov_range b) ((i, npos, ?c) # vs)) = [i * b + npos ..< i * b + npos + len]" .
    moreover have "list_all (iov_ok b nodes) ((i, npos, ?c) # vs)"
      using vs(2) i np by (simp add: iov_ok_def)
    ultimately show ?thesis
      using step vs(1) by (intro exI[of _ "(i, npos, ?c) # vs"]) simp
  qed
qed

lemma take_drop_map_nth: "off + len \<le> length xs \<Longrightarrow> take len (drop off xs) = map ((!) xs) [off..<off + len]"
  by (simp add: list_eq_iff_nth_eq)

lemma iov_bytes_flat:
  assumes "blocks_ok b nodes" "list_all (iov_ok b nodes) vs"
  shows "iov_bytes nodes vs = map ((!) (concat nodes)) (concat (map (iov_range b) vs))"
  using assms(2)
proof (induction vs)
  case Nil
  then show ?case by (simp add: iov_bytes_def)
next
  case (Cons v vs)
  obtain i off len where v: "v = (i, off, len)" by (cases v)
  have i: "i < length nodes" and fit: "off + len \<le> b" using Cons.prems v by (auto simp: iov_ok_def)
  have "Suc i * b \<le> length nodes * b" using i by (intro mult_le_mono1) simp
  then have "i * b + off + len \<le> length (concat nodes)"
    using fit blocks_okD(3)[OF assms(1)] by simp
  then have "take len (drop off (nodes ! i)) = map ((!) (concat nodes)) (iov_range b v)"
    using take_drop_block[OF assms(1) i fit] by (simp add: take_drop_map_nth iov_range_def v)
  then show ?case using Cons by (simp add: iov_bytes_def v)
qed

lemma getReadBuffers_ok:
  assumes inv: "ba_inv s"
  shows "\<exists>vs. getReadBuffers len s = Inr (min len (getReadSize s), vs) \<and>
           list_all (iov_ok (m_baseSize s) (m_root s)) vs \<and>
           iov_bytes (m_root s) vs = take len (drop (snd (ba_abs s)) (fst (ba_abs s)))"
proof (cases "min len (getReadSize s) = 0")
  case True
  then show ?thesis
    using ba_invD[OF inv]
    by (auto simp: getReadBuffers_def iov_bytes_def min_def ba_abs_def split: if_splits)
next
  case False
  note D = ba_invD[OF inv]
  let ?n = "min len (getReadSize s)" and ?b = "m_baseSize s" and ?p = "m_position s"
  have rs: "0 < ?n" "?p + ?n \<le> m_size s" using False D by auto
  then have "?p < m_capacity s" using D(6) by linarith
  note C = ba_inv_cur[OF inv this]
  have np: "?p mod ?b < ?b" using D(1) by simp
  obtain vs where vs: "buffers_loop (m_root s) (Some (?p div ?b)) (?p mod ?b) (?b - ?p mod ?b) ?n [] = Inr vs"
    "list_all (iov_ok ?b (m_root s)) vs" "concat (map (iov_range ?b) vs) = [?p ..< ?p + ?n]"
    using buffers_loop_ok[OF D(2) C(2) np rs(1), of "[]"] rs(2) D(4,6) by auto
  have "getReadBuffers len s = Inr (?n, vs)"
    using False C D vs(1) np by (auto simp: getReadBuffers_def min_def Let_def)
  moreover have "iov_bytes (m_root s) vs = take len (drop (snd (ba_abs s)) (fst (ba_abs s)))"
  proof -
    have "take len (drop (snd (ba_abs s)) (fst (ba_abs s))) = take ?n (drop ?p (concat (m_root s)))"
      by (simp add: ba_abs_def drop_take D(7))
    also have "\<dots> = map ((!) (concat (m_root s))) [?p ..< ?p + ?n]"
      using rs(2) D(3,6) by (intro take_drop_map_nth) linarith
    finally show ?thesis using iov_bytes_flat[OF D(2) vs(2)] vs(3) by simp
  qed
  ultimately show ?thesis using vs(2) by blast
qed

lemma getWriteBuffers_ok:
  assumes inv: "ba_inv s"
  shows "\<exists>vs s'. getWriteBuffers len s = Inr (len, vs, s') \<and> ba_inv s' \<and> ba_abs s' = ba_abs s \<and>
           m_position s + len \<le> m_capacity s' \<and>
           list_all (iov_ok (m_baseSize s) (m_root s')) vs \<and>
           concat (map (iov_range (m_baseSize s)) vs) = [m_position s ..< m_position s + len]"
proof (cases "len = 0")
  case True
  then show ?thesis
    using inv ba_invD[OF inv] by (simp add: getWriteBuffers_def)
next
  case False
  obtain t where t: "addCapacity len s = Inr t" "ba_inv t" "ba_abs t = ba_abs s"
    "m_position s + len \<le> m_capacity t" "m_position t = m_position s" "m_baseSize t = m_baseSize s"
    using addCapacity_ok[OF inv] by blast
  note D = ba_invD[OF t(2)]
  let ?b = "m_baseSize t" and ?p = "m_position t"
  have "?p < m_capacity t" using t(4,5) False by simp
  note C = ba_inv_cur[OF t(2) this]
  have np: "?p mod ?b < ?b" using D(1) by simp
  obtain vs where vs: "buffers_loop (m_root t) (Some (?p div ?b)) (?p mod ?b) (?b - ?p mod ?b) len [] = Inr vs"
    "list_all (iov_ok ?b (m_root t)) vs" "concat (map (iov_range ?b) vs) = [?p ..< ?p + len]"
    using buffers_loop_ok[OF D(2) C(2) np, of len "[]"] False t(4,5) D(4) by auto
  have "getWriteBuffers len s = Inr (len, vs, t)"
    using False C D vs(1) np t(1) by (auto simp: getWriteBuffers_def)
  then show ?thesis using t vs by auto
qed

section \<open>Files\<close>

lemma writeToFile_loop_aligned:
  assumes "blocks_ok b nodes" "i < length nodes \<or> n = 0" "i * b + n \<le> length nodes * b"
  shows "writeToFile_loop nodes b (cur_at b nodes (i * b)) (int n) (int (i * b)) out =
         Inr (out @ take n (drop (i * b) (concat nodes)))"
  using assms
proof (induction "length nodes - i" arbitrary: i n out rule: less_induct)
  case less
  note ok = less.prems(1)
  have b: "0 < b" using blocks_okD(1)[OF ok] .
  show ?case
  proof (cases "n = 0")
    case True
    then show ?thesis by (subst writeToFile_loop.simps) simp
  next
    case False
    then have i: "i < length nodes" using less.prems(2) by simp
    have len: "length (nodes ! i) = b" using blocks_okD(2)[OF ok i] .
    have cur: "cur_at b nodes (i * b) = Some i" using cur_at_same[of i nodes 0 b] i b by simp
    have nxt: "next_node nodes i = cur_at b nodes (Suc i * b)" using cur_at_next[OF b i] .
    define k where "k = min b n"
    have blk: "memcpy_out 0 k (nodes ! i) = Inr (take k (drop (i * b) (concat nodes)))"
      using take_drop_block[OF ok i, of 0 k] len by (simp add: memcpy_out_def k_def)
    have k: "b < n \<Longrightarrow> k = b" "\<not> b < n \<Longrightarrow> k = n"
      by (simp_all add: k_def)
    have step: "writeToFile_loop nodes b (cur_at b nodes (i * b)) (int n) (int (i * b)) out =
      writeToFile_loop nodes b (cur_at b nodes (Suc i * b)) (int n - int k) (int (i * b) + int k)
        (out @ take k (drop (i * b) (concat nodes)))"
      using False b i
      by (subst writeToFile_loop.simps) (use blk k in \<open>auto simp: Let_def cur nxt\<close>)
    show ?thesis
    proof (cases "n \<le> b")
      case True
      then show ?thesis
        unfolding step by (subst writeToFile_loop.simps) (simp add: k_def)
    next
      case gt: False
      then have si: "Suc i < length nodes"
        using next_block_exists[of b 0 n i nodes] b less.prems(3) by simp
      have "writeToFile_loop nodes b (cur_at b nodes (Suc i * b)) (int (n - b)) (int (Suc i * b))
          (out @ take b (drop (i * b) (concat nodes))) =
        Inr ((out @ take b (drop (i * b) (concat nodes))) @ take (n - b) (drop (Suc i * b) (concat nodes)))"
        by (rule less.hyps) (use si ok gt less.prems(3) in auto)
      moreover have "take n (drop (i * b) (concat nodes)) =
          take b (drop (i * b) (concat nodes)) @ take (n - b) (drop (Suc i * b) (concat nodes))"
        using gt by (metis drop_drop le_add_diff_inverse mult_Suc nat_le_linear take_add)
      ultimately show ?thesis
        using step gt by (simp add: k_def add.commute of_nat_diff)
    qed
  qed
qed

lemma writeToFile_loop_stuck:
  assumes "0 < r" "r < int b" "r \<le> pos mod int b"
  shows "\<exists>e. writeToFile_loop nodes b cur r pos out = Inl e"
proof (induction "case cur of None \<Rightarrow> 0 | Some i \<Rightarrow> Suc (length nodes) - i"
    arbitrary: cur out rule: less_induct)
  case less
  have len: "(if r > int b then int b else r) - pos mod int b = r - pos mod int b"
    using assms by simp
  show ?case
  proof (cases "(case cur of None \<Rightarrow> True | Some i \<Rightarrow> length nodes \<le> i) \<or> r < pos mod int b")
    case True
    then show ?thesis
      using assms by (subst writeToFile_loop.simps) (auto simp: Let_def split: option.splits)
  next
    case False
    then obtain i where i: "cur = Some i" "i < length nodes" by (auto split: option.splits)
    have r: "r = pos mod int b" using False assms(3) by simp
    have "\<exists>e. writeToFile_loop nodes b (next_node nodes i) r pos out' = Inl e" for out'
      by (rule less.hyps) (use i in \<open>auto simp: next_node_def\<close>)
    then show ?thesis
      using assms i r
      by (subst writeToFile_loop.simps)
         (cases "memcpy_out (nat r) 0 (nodes ! i)"; simp add: Let_def)
  qed
qed

text \<open>
  With the position inside a block and fewer than a block's worth of bytes left, the first round
  writes \<open>diff\<close> bytes too few and the loop runs into a fault.
\<close>

lemma writeToFile_loop_fault:
  assumes "0 < r" "r < int b" "0 < pos mod int b"
  shows "\<exists>e. writeToFile_loop nodes b cur r pos out = Inl e"
proof (cases "r \<le> pos mod int b")
  case True
  then show ?thesis using writeToFile_loop_stuck assms by blast
next
  case False
  define d where "d = pos mod int b"
  have d: "0 < d" "d < r" using assms(3) False by (auto simp: d_def)
  have "(pos + (r - d)) mod int b = (d + (r - d)) mod int b"
    unfolding d_def by (metis mod_add_left_eq)
  then have d': "(pos + (r - d)) mod int b = r" using assms by simp
  have rest: "\<exists>e. writeToFile_loop nodes b c (r - (r - d)) (pos + (r - d)) o' = Inl e" for c o'
    by (rule writeToFile_loop_stuck) (use d d' assms in auto)
  show ?thesis
  proof (cases "case cur of None \<Rightarrow> True | Some i \<Rightarrow> length nodes \<le> i")
    case True
    then show ?thesis
      using assms d by (subst writeToFile_loop.simps) (auto simp: Let_def split: option.splits)
  next
    case False
    then obtain i where i: "cur = Some i" "i < length nodes" by (auto split: option.splits)
    then show ?thesis
      using assms d rest
      by (subst writeToFile_loop.simps)
         (cases "memcpy_out (nat d) (nat (r - d)) (nodes ! i)"; simp add: Let_def d_def[symmetric])
  qed
qed

lemma writeToFile_loop_unaligned:
  assumes ok: "blocks_ok b nodes" and i: "i < length nodes" and np: "npos < b" "b \<le> n"
    and fit: "i * b + npos + n \<le> length nodes * b"
  shows "writeToFile_loop nodes b (Some i) (int n) (int (i * b + npos)) [] =
         Inr (take n (drop (i * b + npos) (concat nodes)))"
proof -
  let ?c = "b - npos"
  have len: "length (nodes ! i) = b" using blocks_okD(2)[OF ok i] .
  have blk: "memcpy_out npos ?c (nodes ! i) = Inr (take ?c (drop (i * b + npos) (concat nodes)))"
    using take_drop_block[OF ok i, of npos ?c] np len by (simp add: memcpy_out_def)
  have nxt: "next_node nodes i = cur_at b nodes (Suc i * b)"
    using cur_at_next[of b i nodes] i np by simp
  have m: "int (i * b + npos) mod int b = int npos"
    using div_block(2)[OF np(1), of i] by (metis of_nat_mod)
  have l: "(if int n > int b then int b else int n) - int npos = int ?c" using np by auto
  have s': "int n - int ?c = int (n - ?c)" "int (i * b + npos) + int ?c = int (Suc i * b)"
    using np by (auto simp: of_nat_diff algebra_simps)
  have step: "writeToFile_loop nodes b (Some i) (int n) (int (i * b + npos)) [] =
     writeToFile_loop nodes b (cur_at b nodes (Suc i * b)) (int (n - ?c)) (int (Suc i * b))
       (take ?c (drop (i * b + npos) (concat nodes)))"
  proof -
    have "\<not> int n \<le> 0" "b \<noteq> 0" "\<not> length nodes \<le> i" "\<not> int ?c < 0" using i np by auto
    then show ?thesis
      by (subst writeToFile_loop.simps)
         (simp only: Let_def m l s' nxt blk if_False option.case bindr_simps nat_int append_Nil)
  qed
  have "Suc i < length nodes \<or> n - ?c = 0"
    using next_block_exists[of b npos n i nodes] np fit by (cases "b - npos < n") auto
  moreover have "Suc i * b + (n - ?c) \<le> length nodes * b"
    using np fit by simp
  ultimately have "writeToFile_loop nodes b (cur_at b nodes (Suc i * b)) (int (n - ?c)) (int (Suc i * b))
       (take ?c (drop (i * b + npos) (concat nodes))) =
     Inr (take ?c (drop (i * b + npos) (concat nodes)) @ take (n - ?c) (drop (Suc i * b) (concat nodes)))"
    by (rule writeToFile_loop_aligned[OF ok])
  moreover have "n = ?c + (n - ?c)" "Suc i * b = ?c + (i * b + npos)" using np by auto
  then have "take n (drop (i * b + npos) (concat nodes)) =
     take ?c (drop (i * b + npos) (concat nodes)) @ take (n - ?c) (drop (Suc i * b) (concat nodes))"
    by (metis drop_drop take_add)
  ultimately show ?thesis using step by simp
qed

lemma writeToFile_spec:
  assumes inv: "ba_inv s"
  shows "if getReadSize s = 0 \<or> m_position s mod m_baseSize s = 0 \<or> m_baseSize s \<le> getReadSize s
         then writeToFile True s = Inr (True, drop (snd (ba_abs s)) (fst (ba_abs s)))
         else \<exists>e. writeToFile True s = Inl e"
proof -
  note D = ba_invD[OF inv]
  let ?b = "m_baseSize s" and ?p = "m_position s" and ?n = "getReadSize s"
  let ?i = "?p div ?b" and ?np = "?p mod ?b"
  have abs: "drop (snd (ba_abs s)) (fst (ba_abs s)) = take ?n (drop ?p (concat (m_root s)))"
    by (simp add: ba_abs_def drop_take D(7))
  have fit: "?i * ?b + ?np + ?n \<le> length (m_root s) * ?b" using D by simp
  show ?thesis
  proof (cases "?n = 0")
    case True
    then show ?thesis unfolding abs
      by (simp add: writeToFile_def) (subst writeToFile_loop.simps, simp)
  next
    case False
    then have "?p < m_capacity s" using D by linarith
    note C = ba_inv_cur[OF inv this]
    have np: "?np < ?b" using D(1) by simp
    have pm: "int ?p mod int ?b = int ?np" by (simp add: of_nat_mod)
    consider "?np = 0" | "?b \<le> ?n" | "0 < ?np" "?n < ?b" by linarith
    then show ?thesis
    proof cases
      case 1
      then have p: "?i * ?b = ?p" by (metis add.right_neutral div_mult_mod_eq)
      have cur: "m_cur s = cur_at ?b (m_root s) (?i * ?b)" using inv p by (simp add: ba_inv_def)
      show ?thesis
        using 1 writeToFile_loop_aligned[OF D(2), of ?i ?n "[]"] C(2) fit
        by (simp add: writeToFile_def cur abs p)
    next
      case 2
      then show ?thesis
        using writeToFile_loop_unaligned[OF D(2) C(2) np 2 fit] C(1)
        by (simp add: writeToFile_def abs)
    next
      case 3
      have "\<exists>e. writeToFile_loop (m_root s) ?b (m_cur s) (int ?n) (int ?p) [] = Inl e"
        by (rule writeToFile_loop_fault) (use False 3 pm in auto)
      then show ?thesis using 3 False by (auto simp: writeToFile_def)
    qed
  qed
qed

lemma readFromFile_loop_ok:
  assumes "ba_inv s" "0 < b"
  shows "\<exists>t. readFromFile_loop b content s = Inr t \<and> ba_inv t \<and>
           ba_abs t = spec_write content (ba_abs s) \<and> m_endian t = m_endian s"
  using assms
proof (induction "length content" arbitrary: content s rule: less_induct)
  case less
  obtain t where t: "ByteArray_write (take b content) s = Inr t" "ba_inv t"
    "ba_abs t = spec_write (take b content) (ba_abs s)" "m_endian t = m_endian s"
    using write_refines[OF less.prems(1)] by blast
  show ?case
  proof (cases "length content < b")
    case True
    then show ?thesis
      using less.prems t by (subst readFromFile_loop.simps) simp
  next
    case False
    then obtain u where u: "readFromFile_loop b (drop b content) t = Inr u" "ba_inv u"
      "ba_abs u = spec_write (drop b content) (ba_abs t)" "m_endian u = m_endian t"
      using less.hyps[of "drop b content" t] t(2) less.prems(2) by (cases content) auto
    have "ba_abs u = spec_write content (ba_abs s)"
      using u(3) t(3) spec_write_append[of "ba_abs s" "drop b content" "take b content"]
        ba_invD(5,9,10)[OF less.prems(1)] by simp
    moreover have "readFromFile_loop b content s = Inr u"
      using False less.prems t(1) u(1) by (subst readFromFile_loop.simps) simp
    ultimately show ?thesis using u t by auto
  qed
qed

lemma readFromFile_ok:
  assumes "ba_inv s"
  shows "\<exists>t. readFromFile (Some content) s = Inr (True, t) \<and> ba_inv t \<and>
           ba_abs t = spec_write content (ba_abs s)"
  using readFromFile_loop_ok[OF assms ba_invD(1)[OF assms]]
  by (force simp: readFromFile_def)

section \<open>Hex dump\<close>

definition hex_val :: "char \<Rightarrow> nat" where
  "hex_val c = (if c \<in> set ''0123456789'' then of_char c - 48 else of_char c - 87)"

fun unhex_pairs :: "string \<Rightarrow> byte list" where
  "unhex_pairs (a # b # cs) = of_nat (16 * hex_val a + hex_val b) # unhex_pairs cs"
| "unhex_pairs _ = []"

lemma hex_digit_cases:
  assumes "n < 16"
  shows "hex_val (hex_digit n) = n" "hex_digit n \<noteq> CHR '' ''" "hex_digit n \<noteq> CHR 0x0A"
proof -
  have "list_all (\<lambda>n. hex_val (hex_digit n) = n \<and> hex_digit n \<noteq> CHR '' '' \<and>
          hex_digit n \<noteq> CHR 0x0A) [0..<16]"
    by code_simp
  then show "hex_val (hex_digit n) = n" "hex_digit n \<noteq> CHR '' ''" "hex_digit n \<noteq> CHR 0x0A"
    using assms by (auto simp: list_all_iff)
qed

lemma hex_bytes_roundtrip:
  "unhex_pairs (filter (\<lambda>c. c \<noteq> CHR '' '' \<and> c \<noteq> CHR 0x0A) (hex_bytes i bs)) = bs"
proof (induction bs arbitrary: i)
  case Nil
  then show ?case by simp
next
  case (Cons b bs)
  have "unat b < 256" by (rule unat_byte_less)
  then have "unat b div 16 < 16" "unat b mod 16 < 16" by auto
  then show ?case
    using Cons hex_digit_cases[of "unat b div 16"] hex_digit_cases[of "unat b mod 16"]
    by simp
qed

section \<open>Properties\<close>

text \<open>
  the buffers handed to \<open>writev\<close> lie inside their blocks and hold exactly the pending
  bytes, up to the requested length.
\<close>

theorem read_buffers_gather_pending:
  assumes "ba_inv s"
  shows "\<exists>vs. getReadBuffers len s = Inr (min len (getReadSize s), vs) \<and>
           list_all (iov_ok (m_baseSize s) (m_root s)) vs \<and>
           iov_bytes (m_root s) vs = take len (drop (m_position s) (fst (ba_abs s)))"
  using getReadBuffers_ok[OF assms] ba_invD(10)[OF assms] by simp

theorem read_buffers_gather_pending_witness:
  "\<exists>s vs. ba_run [Write [1, 2, 3], Seek 1] (ByteArray_new 2) = ([Inr [], Inr []], s) \<and>
     getReadBuffers 9 s = Inr (2, vs) \<and> iov_bytes (m_root s) vs = [2, 3]"
proof -
  let ?s = "\<lparr>m_baseSize = 2, m_position = 1, m_capacity = 4, m_size = 3, m_endian = 2,
             m_root = [[1, 2], [3, 0]], m_cur = Some 0\<rparr>"
  have run: "ba_run [Write [1, 2, 3], Seek 1] (ByteArray_new 2) = ([Inr [], Inr []], ?s)" by code_simp
  have inv: "ba_inv ?s" by (simp add: ba_inv_def blocks_ok_def cur_at_def SYLAR_BIG_ENDIAN_def)
  have m: "min 9 (getReadSize ?s) = 2"
    "take 9 (drop (m_position ?s) (fst (ba_abs ?s))) = [2, 3]" by code_simp+
  from read_buffers_gather_pending[OF inv, of 9] run show ?thesis
    unfolding m by blast
qed

text \<open>
  the buffers handed to \<open>readv\<close> cover exactly the storage from the position on, in order
  and without gap or overlap; the chain has grown to hold them and the stored data is untouched.
\<close>

theorem write_buffers_cover_region:
  assumes "ba_inv s"
  shows "\<exists>vs s'. getWriteBuffers len s = Inr (len, vs, s') \<and> ba_inv s' \<and> ba_abs s' = ba_abs s \<and>
           list_all (iov_ok (m_baseSize s) (m_root s')) vs \<and>
           concat (map (iov_range (m_baseSize s)) vs) = [m_position s ..< m_position s + len]"
  using getWriteBuffers_ok[OF assms, of len] by blast

theorem write_buffers_cover_region_witness:
  "\<exists>vs s'. getWriteBuffers 5 (ByteArray_new 2) = Inr (5, vs, s') \<and>
     concat (map (iov_range 2) vs) = [0, 1, 2, 3, 4]"
proof -
  have "m_baseSize (ByteArray_new 2) = 2" "[0 ..< 0 + 5] = [0, 1, 2, 3, 4 :: nat]"
    by (simp_all add: ByteArray_new_def upt_rec)
  then show ?thesis
    using write_buffers_cover_region[OF ba_inv_new, of 2 5] by auto
qed

text \<open>
  the positional variant clamps the length by the bytes left after the \<^emph>\<open>current\<close>
  position, so with the store rewound it reports buffers that reach past the stored data: three
  bytes from offset two of a three-byte content.
\<close>

theorem positional_read_buffers_overrun:
  "\<exists>s. ba_run [Write [1, 2, 3], Seek 0] (ByteArray_new 8) = ([Inr [], Inr []], s) \<and>
     m_size s = 3 \<and> getReadBuffers_at 9 2 s = Inr (3, [(0, 2, 3)])"
proof -
  let ?s = "\<lparr>m_baseSize = 8, m_position = 0, m_capacity = 8, m_size = 3, m_endian = 2,
             m_root = [[1, 2, 3, 0, 0, 0, 0, 0]], m_cur = Some 0\<rparr>"
  have "ba_run [Write [1, 2, 3], Seek 0] (ByteArray_new 8) = ([Inr [], Inr []], ?s)" by code_simp
  moreover have "getReadBuffers_at 9 2 ?s = Inr (3, [(0, 2, 3)])" by code_simp
  ultimately show ?thesis by auto
qed

text \<open>
  \<open>writeToFile\<close> writes exactly the pending bytes when nothing is pending, when the position is
  at the start of a block, or when at least a block's worth of bytes is pending; in every other case
  it runs into a negative length, past a block or into a null block.
\<close>

theorem writeToFile_exact_or_fault:
  assumes "ba_inv s"
  shows "if getReadSize s = 0 \<or> m_position s mod m_baseSize s = 0 \<or> m_baseSize s \<le> getReadSize s
         then writeToFile True s = Inr (True, drop (m_position s) (fst (ba_abs s)))
         else \<exists>e. writeToFile True s = Inl e"
  using writeToFile_spec[OF assms] ba_invD(10)[OF assms] by simp

theorem writeToFile_exact_or_fault_witness:
  "\<exists>s e. ba_run [Write [1, 2, 3], Seek 1] (ByteArray_new 8) = ([Inr [], Inr []], s) \<and>
     writeToFile True s = Inl e"
proof -
  let ?s = "\<lparr>m_baseSize = 8, m_position = 1, m_capacity = 8, m_size = 3, m_endian = 2,
             m_root = [[1, 2, 3, 0, 0, 0, 0, 0]], m_cur = Some 0\<rparr>"
  have run: "ba_run [Write [1, 2, 3], Seek 1] (ByteArray_new 8) = ([Inr [], Inr []], ?s)" by code_simp
  have inv: "ba_inv ?s" by (simp add: ba_inv_def blocks_ok_def cur_at_def SYLAR_BIG_ENDIAN_def)
  have "getReadSize ?s = 2" by code_simp
  then have "\<exists>e. writeToFile True ?s = Inl e"
    using writeToFile_exact_or_fault[OF inv] by simp
  with run show ?thesis by blast
qed



text \<open>
  the hex dump loses nothing: dropping blanks and line breaks and pairing up the digits gives
  the pending bytes back.
\<close>

theorem hex_dump_roundtrip:
  assumes "ba_inv s"
  shows "\<exists>str. toHexString s = Inr str \<and>
           unhex_pairs (filter (\<lambda>c. c \<noteq> CHR '' '' \<and> c \<noteq> CHR 0x0A) str) =
           drop (m_position s) (fst (ba_abs s))"
  using toString_ok[OF assms] ba_invD(10)[OF assms]
  by (simp add: toHexString_def hex_bytes_roundtrip)

theorem hex_dump_roundtrip_witness: "\<exists>str. toHexString (ByteArray_new 2) = Inr str"
  using hex_dump_roundtrip[OF ba_inv_new, of 2] by auto

end
