(* ===== verification/Serialize.thy ===== *)
theory Serialize
  imports ByteArray
begin

text \<open>
  The typed reads and writes of \<open>sylar/bytearray.cc\<close> over the byte store, with the byte
  swapping of \<open>sylar/endian.h\<close>. The host's byte order \<open>SYLAR_BYTE_ORDER\<close> is a
  parameter of every operation that looks at it, so the results hold for either build. A signed
  integer is the word of its two's complement representation, as \<open>memcpy\<close> sees it; a
  \<open>float\<close> or \<open>double\<close> is the word of its bits.
\<close>

section \<open>Integers in memory\<close>

primrec le_bytes :: "nat \<Rightarrow> nat \<Rightarrow> byte list" where
  "le_bytes 0 v = []"
| "le_bytes (Suc n) v = of_nat v # le_bytes n (v div 256)"

primrec le_val :: "byte list \<Rightarrow> nat" where
  "le_val [] = 0"
| "le_val (b # bs) = unat b + 256 * le_val bs"

definition mem_of_word :: "byte \<Rightarrow> 'a::len word \<Rightarrow> byte list" where
  "mem_of_word host w =
     (let bs = le_bytes (LENGTH('a) div 8) (unat w)
      in if host = SYLAR_LITTLE_ENDIAN then bs else rev bs)"

definition word_of_mem :: "byte \<Rightarrow> byte list \<Rightarrow> 'a::len word" where
  "word_of_mem host bs = of_nat (le_val (if host = SYLAR_LITTLE_ENDIAN then bs else rev bs))"

definition byteswap :: "'a::len word \<Rightarrow> 'a word" where
  "byteswap w = of_nat (le_val (rev (le_bytes (LENGTH('a) div 8) (unat w))))"

definition byteswapOnLittleEndian :: "byte \<Rightarrow> 'a::len word \<Rightarrow> 'a word" where
  "byteswapOnLittleEndian host t = (if host = SYLAR_BIG_ENDIAN then t else byteswap t)"

definition byteswapOnBigEndian :: "byte \<Rightarrow> 'a::len word \<Rightarrow> 'a word" where
  "byteswapOnBigEndian host t = (if host = SYLAR_BIG_ENDIAN then byteswap t else t)"

section \<open>Fixed-width integers\<close>

definition writeF :: "byte \<Rightarrow> 'a::len word \<Rightarrow> bytearray \<Rightarrow> bytearray res" where
  "writeF host v s =
     ByteArray_write (mem_of_word host (if m_endian s \<noteq> host then byteswap v else v)) s"

definition writeFint8 :: "byte \<Rightarrow> bytearray \<Rightarrow> bytearray res" where
  "writeFint8 v s = ByteArray_write [v] s"
definition writeFuint8 :: "byte \<Rightarrow> bytearray \<Rightarrow> bytearray res" where
  "writeFuint8 v s = ByteArray_write [v] s"
definition writeFint16 :: "byte \<Rightarrow> u16 \<Rightarrow> bytearray \<Rightarrow> bytearray res" where
  "writeFint16 host v s = writeF host v s"
definition writeFuint16 :: "byte \<Rightarrow> u16 \<Rightarrow> bytearray \<Rightarrow> bytearray res" where
  "writeFuint16 host v s = writeF host v s"
definition writeFint32 :: "byte \<Rightarrow> u32 \<Rightarrow> bytearray \<Rightarrow> bytearray res" where
  "writeFint32 host v s = writeF host v s"
definition writeFuint32 :: "byte \<Rightarrow> u32 \<Rightarrow> bytearray \<Rightarrow> bytearray res" where
  "writeFuint32 host v s = writeF host v s"
definition writeFint64 :: "byte \<Rightarrow> u64 \<Rightarrow> bytearray \<Rightarrow> bytearray res" where
  "writeFint64 host v s = writeF host v s"
definition writeFuint64 :: "byte \<Rightarrow> u64 \<Rightarrow> bytearray \<Rightarrow> bytearray res" where
  "writeFuint64 host v s = writeF host v s"
definition writeFloat :: "byte \<Rightarrow> u32 \<Rightarrow> bytearray \<Rightarrow> bytearray res" where
  "writeFloat host v s = writeFuint32 host v s"
definition writeDouble :: "byte \<Rightarrow> u64 \<Rightarrow> bytearray \<Rightarrow> bytearray res" where
  "writeDouble host v s = writeFuint64 host v s"

definition readF :: "byte \<Rightarrow> bytearray \<Rightarrow> ('a::len word \<times> bytearray) res" where
  "readF host s =
     bindr (ByteArray_read (LENGTH('a) div 8) s) (\<lambda>(bs, t).
       let v = word_of_mem host bs in Inr (if m_endian s = host then v else byteswap v, t))"

definition readFuint8 :: "bytearray \<Rightarrow> (byte \<times> bytearray) res" where
  "readFuint8 s = bindr (ByteArray_read 1 s) (\<lambda>(bs, t). Inr (hd bs, t))"
definition readFint8 :: "bytearray \<Rightarrow> (byte \<times> bytearray) res" where
  "readFint8 s = bindr (ByteArray_read 1 s) (\<lambda>(bs, t). Inr (hd bs, t))"
definition readFint16 :: "byte \<Rightarrow> bytearray \<Rightarrow> (u16 \<times> bytearray) res" where
  "readFint16 host s = readF host s"
definition readFuint16 :: "byte \<Rightarrow> bytearray \<Rightarrow> (u16 \<times> bytearray) res" where
  "readFuint16 host s = readF host s"
definition readFint32 :: "byte \<Rightarrow> bytearray \<Rightarrow> (u32 \<times> bytearray) res" where
  "readFint32 host s = readF host s"
definition readFuint32 :: "byte \<Rightarrow> bytearray \<Rightarrow> (u32 \<times> bytearray) res" where
  "readFuint32 host s = readF host s"
definition readFint64 :: "byte \<Rightarrow> bytearray \<Rightarrow> (u64 \<times> bytearray) res" where
  "readFint64 host s = readF host s"
definition readFuint64 :: "byte \<Rightarrow> bytearray \<Rightarrow> (u64 \<times> bytearray) res" where
  "readFuint64 host s = readF host s"
definition readFloat :: "byte \<Rightarrow> bytearray \<Rightarrow> (u32 \<times> bytearray) res" where
  "readFloat host s = readFuint32 host s"
definition readDouble :: "byte \<Rightarrow> bytearray \<Rightarrow> (u64 \<times> bytearray) res" where
  "readDouble host s = readFuint64 host s"

section \<open>Zigzag and variable-length integers\<close>

definition EncodeZigzag :: "'a::len word \<Rightarrow> 'a word" where
  "EncodeZigzag v = (if sint v < 0 then (- v) * 2 - 1 else v * 2)"

definition DecodeZigzag :: "'a::len word \<Rightarrow> 'a word" where
  "DecodeZigzag v = drop_bit 1 v XOR (- (v AND 1))"

definition EncodeZigzag32 :: "u32 \<Rightarrow> u32" where "EncodeZigzag32 v = EncodeZigzag v"
definition EncodeZigzag64 :: "u64 \<Rightarrow> u64" where "EncodeZigzag64 v = EncodeZigzag v"
definition DecodeZigzag32 :: "u32 \<Rightarrow> u32" where "DecodeZigzag32 v = DecodeZigzag v"
definition DecodeZigzag64 :: "u64 \<Rightarrow> u64" where "DecodeZigzag64 v = DecodeZigzag v"

text \<open>
  The loop that fills \<open>tmp\<close> in \<open>writeUint32\<close> and \<open>writeUint64\<close>, with the room
  left in \<open>tmp\<close>: a store past its end is a bad access.
\<close>

fun varint_loop :: "nat \<Rightarrow> 'a::len word \<Rightarrow> byte list \<Rightarrow> byte list res" where
  "varint_loop 0 v tmp = Inl Bad_access"
| "varint_loop (Suc room) v tmp =
     (if v \<ge> 0x80 then varint_loop room (drop_bit 7 v) (tmp @ [ucast ((v AND 0x7F) OR 0x80)])
      else Inr (tmp @ [ucast v]))"

definition writeUint32 :: "u32 \<Rightarrow> bytearray \<Rightarrow> bytearray res" where
  "writeUint32 v s = bindr (varint_loop 5 v []) (\<lambda>tmp. ByteArray_write tmp s)"
definition writeUint64 :: "u64 \<Rightarrow> bytearray \<Rightarrow> bytearray res" where
  "writeUint64 v s = bindr (varint_loop 10 v []) (\<lambda>tmp. ByteArray_write tmp s)"
definition writeInt32 :: "u32 \<Rightarrow> bytearray \<Rightarrow> bytearray res" where
  "writeInt32 v s = writeUint32 (EncodeZigzag32 v) s"
definition writeInt64 :: "u64 \<Rightarrow> bytearray \<Rightarrow> bytearray res" where
  "writeInt64 v s = writeUint64 (EncodeZigzag64 v) s"

text \<open>
  \<open>for (int i = 0; i < bits; i += 7)\<close>: the list holds the values of \<open>i\<close> still to
  come, and \<open>readFuint8\<close> is the operation \<open>rd\<close>.
\<close>

fun varint_read ::
  "('s \<Rightarrow> (byte \<times> 's) res) \<Rightarrow> nat list \<Rightarrow> 'a::len word \<Rightarrow> 's \<Rightarrow> ('a word \<times> 's) res" where
  "varint_read rd [] result s = Inr (result, s)"
| "varint_read rd (i # is) result s =
     bindr (rd s) (\<lambda>(b, t).
       if b < 0x80 then Inr (result OR push_bit i (ucast b), t)
       else varint_read rd is (result OR push_bit i (ucast (b AND 0x7F))) t)"

definition readUint32 :: "bytearray \<Rightarrow> (u32 \<times> bytearray) res" where
  "readUint32 s = varint_read readFuint8 [0, 7, 14, 21, 28] 0 s"
definition readUint64 :: "bytearray \<Rightarrow> (u64 \<times> bytearray) res" where
  "readUint64 s = varint_read readFuint8 [0, 7, 14, 21, 28, 35, 42, 49, 56, 63] 0 s"
definition readInt32 :: "bytearray \<Rightarrow> (u32 \<times> bytearray) res" where
  "readInt32 s = bindr (readUint32 s) (\<lambda>(v, t). Inr (DecodeZigzag32 v, t))"
definition readInt64 :: "bytearray \<Rightarrow> (u64 \<times> bytearray) res" where
  "readInt64 s = bindr (readUint64 s) (\<lambda>(v, t). Inr (DecodeZigzag64 v, t))"

section \<open>Strings\<close>

definition writeStringF16 :: "byte \<Rightarrow> byte list \<Rightarrow> bytearray \<Rightarrow> bytearray res" where
  "writeStringF16 host v s =
     bindr (writeFuint16 host (of_nat (length v)) s) (\<lambda>t. ByteArray_write v t)"
definition writeStringF32 :: "byte \<Rightarrow> byte list \<Rightarrow> bytearray \<Rightarrow> bytearray res" where
  "writeStringF32 host v s =
     bindr (writeFuint32 host (of_nat (length v)) s) (\<lambda>t. ByteArray_write v t)"
definition writeStringF64 :: "byte \<Rightarrow> byte list \<Rightarrow> bytearray \<Rightarrow> bytearray res" where
  "writeStringF64 host v s =
     bindr (writeFuint64 host (of_nat (length v)) s) (\<lambda>t. ByteArray_write v t)"
definition writeStringVint :: "byte list \<Rightarrow> bytearray \<Rightarrow> bytearray res" where
  "writeStringVint v s =
     bindr (writeUint64 (of_nat (length v)) s) (\<lambda>t. ByteArray_write v t)"
definition writeStringWithoutLength :: "byte list \<Rightarrow> bytearray \<Rightarrow> bytearray res" where
  "writeStringWithoutLength v s = ByteArray_write v s"

definition readStringF16 :: "byte \<Rightarrow> bytearray \<Rightarrow> (byte list \<times> bytearray) res" where
  "readStringF16 host s = bindr (readFuint16 host s) (\<lambda>(len, t). ByteArray_read (unat len) t)"
definition readStringF32 :: "byte \<Rightarrow> bytearray \<Rightarrow> (byte list \<times> bytearray) res" where
  "readStringF32 host s = bindr (readFuint32 host s) (\<lambda>(len, t). ByteArray_read (unat len) t)"
definition readStringF64 :: "byte \<Rightarrow> bytearray \<Rightarrow> (byte list \<times> bytearray) res" where
  "readStringF64 host s = bindr (readFuint64 host s) (\<lambda>(len, t). ByteArray_read (unat len) t)"
definition readStringVint :: "bytearray \<Rightarrow> (byte list \<times> bytearray) res" where
  "readStringVint s = bindr (readUint64 s) (\<lambda>(len, t). ByteArray_read (unat len) t)"

section \<open>Bytes of a word\<close>

lemma length_le_bytes [simp]: "length (le_bytes n v) = n"
  by (induction n arbitrary: v) auto

lemma le_val_le_bytes: "le_val (le_bytes n v) = v mod 256 ^ n"
proof (induction n arbitrary: v)
  case 0
  then show ?case by simp
next
  case (Suc n)
  have "unat (of_nat v :: byte) = v mod 256" by (simp add: unat_of_nat)
  then show ?case
    using Suc[of "v div 256"] by (simp add: mod_mult2_eq add.commute)
qed

lemma le_val_less: "le_val bs < 256 ^ length bs"
proof (induction bs)
  case (Cons b bs)
  then show ?case using unat_byte_less[of b] by simp
qed simp

lemma le_bytes_le_val: "le_bytes (length bs) (le_val bs) = bs"
proof (induction bs)
  case Nil
  then show ?case by simp
next
  case (Cons b bs)
  have "(unat b + 256 * le_val bs) div 256 = le_val bs" using unat_byte_less[of b] by simp
  moreover have "of_nat (unat b + 256 * le_val bs) = b"
  proof -
    have "(256 :: byte) = 0" by simp
    then show ?thesis by (simp only: of_nat_add of_nat_mult of_nat_numeral) simp
  qed
  ultimately show ?case using Cons by simp
qed

lemma word_le_val:
  fixes w :: "'a::len word"
  assumes "LENGTH('a) = 8 * n"
  shows "of_nat (le_val (le_bytes n (unat w))) = w"
    and "length bs = n \<Longrightarrow> le_bytes n (unat (of_nat (le_val bs) :: 'a word)) = bs"
proof -
  have p: "(256 :: nat) ^ n = 2 ^ LENGTH('a)" using assms by (simp add: power_mult)
  have "unat w < 256 ^ n" unfolding p by (rule unsigned_less)
  then show "of_nat (le_val (le_bytes n (unat w))) = w"
    by (simp add: le_val_le_bytes)
  assume "length bs = n"
  then have "unat (of_nat (le_val bs) :: 'a word) = le_val bs"
    using le_val_less[of bs] p by (simp add: unat_of_nat)
  with \<open>length bs = n\<close> show "le_bytes n (unat (of_nat (le_val bs) :: 'a word)) = bs"
    using le_bytes_le_val[of bs] by simp
qed

text \<open>Swapping reverses the bytes in memory, and swapping twice is the identity.\<close>

lemma le_bytes_byteswap:
  fixes w :: "'a::len word"
  assumes "LENGTH('a) = 8 * n"
  shows "le_bytes n (unat (byteswap w)) = rev (le_bytes n (unat w))"
  using word_le_val(2)[OF assms, of "rev (le_bytes n (unat w))"] assms by (simp add: byteswap_def)

lemma byteswap_byteswap:
  fixes w :: "'a::len word"
  assumes "LENGTH('a) = 8 * n"
  shows "byteswap (byteswap w) = w"
proof -
  have "le_bytes n (unat (byteswap (byteswap w))) = le_bytes n (unat w)"
    by (simp add: le_bytes_byteswap[OF assms])
  then show ?thesis by (metis word_le_val(1)[OF assms])
qed

definition wire_of_word :: "byte \<Rightarrow> 'a::len word \<Rightarrow> byte list" where
  "wire_of_word endian w =
     (let bs = le_bytes (LENGTH('a) div 8) (unat w)
      in if endian = SYLAR_LITTLE_ENDIAN then bs else rev bs)"

definition endian_ok :: "byte \<Rightarrow> bool" where
  "endian_ok e \<longleftrightarrow> e = SYLAR_LITTLE_ENDIAN \<or> e = SYLAR_BIG_ENDIAN"

lemma length_wire_of_word [simp]: "length (wire_of_word e (w :: 'a::len word)) = LENGTH('a) div 8"
  by (simp add: wire_of_word_def Let_def)

lemma mem_of_word_wire:
  fixes w :: "'a::len word"
  assumes "LENGTH('a) = 8 * n" "endian_ok host" "endian_ok e"
  shows "mem_of_word host (if e \<noteq> host then byteswap w else w) = wire_of_word e w"
  using assms le_bytes_byteswap[OF assms(1), of w]
  by (auto simp: mem_of_word_def wire_of_word_def Let_def endian_ok_def
      SYLAR_LITTLE_ENDIAN_def SYLAR_BIG_ENDIAN_def)

lemma word_of_mem_wire:
  fixes w :: "'a::len word"
  assumes "LENGTH('a) = 8 * n" "endian_ok host" "endian_ok e"
  shows "(let v = word_of_mem host (wire_of_word e w) in if e = host then v else byteswap v) = w"
proof -
  have "word_of_mem host (mem_of_word host v) = v" for v :: "'a word"
    using word_le_val(1)[OF assms(1), of v] assms(1)
    by (simp add: word_of_mem_def mem_of_word_def Let_def)
  then show ?thesis
    unfolding mem_of_word_wire[OF assms, symmetric]
    by (simp add: Let_def byteswap_byteswap[OF assms(1)])
qed

section \<open>Zigzag\<close>

declare push_bit_Suc [simp del]

lemma zigzag_neg_eq: "(- v) * 2 - 1 = 2 * NOT v + (1 :: 'a::len word)"
  by (simp add: not_eq_complement algebra_simps)

lemma push_bit_and_one: "push_bit 1 v AND 1 = (0 :: 'a::len word)"
  by (metis and_one_eq even_iff_mod_2_eq_zero even_push_bit_iff zero_neq_one)

lemma DecodeZigzag_EncodeZigzag:
  fixes v :: "'a::len word"
  shows "DecodeZigzag (EncodeZigzag v) = v"
proof (cases "sint v < 0")
  case True
  then have top: "bit v (LENGTH('a) - 1)"
    using bit_last_iff[of v] by simp
  define u where "u = push_bit 1 (NOT v) OR 1"
  have u: "EncodeZigzag v = u"
  proof -
    have "push_bit 1 (NOT v) AND 1 = 0" by (rule push_bit_and_one)
    then show ?thesis
      using True zigzag_neg_eq[of v]
      by (simp add: EncodeZigzag_def u_def disjunctive_add_eq_or[symmetric] push_bit_eq_mult mult.commute)
  qed
  have "u AND 1 = 1" by (rule bit_word_eqI) (auto simp: u_def bit_simps)
  moreover have "drop_bit 1 u = NOT v"
  proof (rule bit_word_eqI)
    fix n assume n: "n < LENGTH('a)"
    show "bit (drop_bit 1 u) n = bit (NOT v) n"
    proof (cases "Suc n < LENGTH('a)")
      case True
      then show ?thesis by (simp add: u_def bit_simps)
    next
      case False
      then have "n = LENGTH('a) - 1" using n by simp
      then show ?thesis using top n by (simp add: u_def bit_simps)
    qed
  qed
  ultimately show ?thesis by (simp add: DecodeZigzag_def u)
next
  case False
  then have top: "\<not> bit v (LENGTH('a) - 1)"
    using bit_last_iff[of v] by simp
  have u: "EncodeZigzag v = push_bit 1 v"
    using False by (simp add: EncodeZigzag_def push_bit_eq_mult mult.commute)
  have "push_bit 1 v AND 1 = 0" by (rule push_bit_and_one)
  moreover have "drop_bit 1 (push_bit 1 v) = v"
  proof (rule bit_word_eqI)
    fix n assume n: "n < LENGTH('a)"
    show "bit (drop_bit 1 (push_bit 1 v)) n = bit v n"
    proof (cases "Suc n < LENGTH('a)")
      case True
      then show ?thesis by (simp add: bit_simps)
    next
      case False
      then have "n = LENGTH('a) - 1" using n by simp
      then show ?thesis using top n by (simp add: bit_simps)
    qed
  qed
  ultimately show ?thesis by (simp add: DecodeZigzag_def u)
qed


lemma EncodeZigzag_DecodeZigzag:
  fixes v :: "'a::len word"
  shows "EncodeZigzag (DecodeZigzag v) = v"
proof -
  have "inj (EncodeZigzag :: 'a word \<Rightarrow> _)"
    by (metis DecodeZigzag_EncodeZigzag injI)
  then have "surj (EncodeZigzag :: 'a word \<Rightarrow> _)"
    by (rule finite_UNIV_inj_surj[OF finite])
  then obtain w where "v = EncodeZigzag w" by (metis surjD)
  then show ?thesis by (simp add: DecodeZigzag_EncodeZigzag)
qed

section \<open>Variable-length integers\<close>

fun venc :: "nat \<Rightarrow> byte list" where
  "venc n = (if 128 \<le> n then of_nat (n mod 128 + 128) # venc (n div 128) else [of_nat n])"

declare venc.simps [simp del]

lemma length_venc: "n < 128 ^ Suc k \<Longrightarrow> length (venc n) \<le> Suc k"
proof (induction k arbitrary: n)
  case 0
  then show ?case by (subst venc.simps) simp
next
  case (Suc k)
  then have "n div 128 < 128 ^ Suc k" by (simp add: less_mult_imp_div_less mult.commute)
  then show ?case using Suc.IH[of "n div 128"] by (subst venc.simps) simp
qed

lemma venc_not_Nil [simp]: "venc n \<noteq> []"
  by (subst venc.simps) simp

lemma unat_and_127: "unat (v AND 0x7F) = unat v mod 128" for v :: "'a::len word"
proof -
  have "v AND 0x7F = take_bit 7 v" by (simp add: take_bit_eq_mask mask_eq_exp_minus_1)
  then have "unat (v AND 0x7F) = take_bit 7 (unat v)" by (simp only: unsigned_take_bit_eq)
  then show ?thesis by (simp add: take_bit_nat_def)
qed

lemma unat_or_128:
  fixes v :: "'a::len word"
  assumes "8 \<le> LENGTH('a)"
  shows "unat ((v AND 0x7F) OR 0x80) = unat v mod 128 + 128"
proof -
  let ?x = "v AND 0x7F"
  have "(256 :: nat) = 2 ^ 8" by simp
  also have "\<dots> \<le> 2 ^ LENGTH('a)" using assms by (intro power_increasing) auto
  finally have big: "(256 :: nat) \<le> 2 ^ LENGTH('a)" .
  have "(v AND mask 7) AND push_bit 7 1 = 0"
    by (rule bit_word_eqI) (simp only: bit_and_iff bit_mask_iff bit_push_bit_iff bit_0_eq bot_apply, simp)
  moreover have "mask 7 = (0x7F :: 'a word)" "push_bit 7 1 = (0x80 :: 'a word)"
    by (simp_all add: mask_eq_exp_minus_1 push_bit_eq_mult)
  ultimately have "?x AND 0x80 = 0" by simp
  then have "?x OR 0x80 = ?x + 0x80" by (simp add: disjunctive_add_eq_or)
  moreover have "unat (0x80 :: 'a word) = 128"
    using big by (simp add: unat_numeral take_bit_eq_mod)
  ultimately show ?thesis
    using big by (simp add: unat_word_ariths unat_and_127)
qed

lemma varint_loop_ok:
  fixes v :: "'a::len word"
  assumes "8 \<le> LENGTH('a)" "unat v < 128 ^ Suc room"
  shows "varint_loop (Suc room) v tmp = Inr (tmp @ venc (unat v))"
  using assms(2)
proof (induction room arbitrary: v tmp)
  case 0
  have "(256 :: nat) \<le> 2 ^ LENGTH('a)"
    using assms(1) power_increasing[of 8 "LENGTH('a)" "2 :: nat"] by simp
  then have "unat (0x80 :: 'a word) = 128" by (simp add: unat_numeral take_bit_eq_mod)
  then have "\<not> v \<ge> 0x80" using 0 by (simp add: word_le_nat_alt)
  moreover have "ucast v = (of_nat (unat v) :: byte)" by simp
  ultimately show ?case using 0 by (subst venc.simps) simp
next
  case (Suc room)
  have "(256 :: nat) \<le> 2 ^ LENGTH('a)"
    using assms(1) power_increasing[of 8 "LENGTH('a)" "2 :: nat"] by simp
  then have c: "v \<ge> 0x80 \<longleftrightarrow> 128 \<le> unat v"
    by (simp add: word_le_nat_alt unat_numeral take_bit_eq_mod)
  have b: "ucast ((v AND 0x7F) OR 0x80) = (of_nat (unat v mod 128 + 128) :: byte)"
  proof -
    have "ucast y = (of_nat (unat y) :: byte)" for y :: "'a word" by simp
    then show ?thesis using unat_or_128[OF assms(1), of v] by metis
  qed
  have "unat (drop_bit 7 v) = drop_bit 7 (unat v)"
    using take_bit_tightened_less_eq_nat by (simp only: unsigned_drop_bit_eq) (simp add: take_bit_nat_eq_self)
  then have d: "unat (drop_bit 7 v) = unat v div 128" by (simp add: drop_bit_nat_def)
  then have "unat (drop_bit 7 v) < 128 ^ Suc room"
    using Suc.prems by (simp add: less_mult_imp_div_less mult.commute)
  note IH = Suc.IH[OF this, of "tmp @ [ucast ((v AND 0x7F) OR 0x80)]"]
  show ?case
  proof (cases "128 \<le> unat v")
    case True
    then have "v \<ge> 0x80" using c by simp
    then have "varint_loop (Suc (Suc room)) v tmp =
        varint_loop (Suc room) (drop_bit 7 v) (tmp @ [ucast ((v AND 0x7F) OR 0x80)])"
      by simp
    then show ?thesis
      using True IH d b by (subst venc.simps) simp
  next
    case False
    then have "\<not> v \<ge> 0x80" using c by simp
    then have "varint_loop (Suc (Suc room)) v tmp = Inr (tmp @ [ucast v])" by simp
    then show ?thesis using False by (subst venc.simps) simp
  qed
qed

lemma or_push_bit:
  fixes r :: "'a::len word"
  assumes "unat r < 2 ^ i"
  shows "r OR push_bit i x = of_nat (unat r + 2 ^ i * unat x)"
proof -
  have "unat (take_bit i r) = take_bit i (unat r)" by (simp only: unsigned_take_bit_eq)
  then have "unat (take_bit i r) = unat r" using assms by (simp add: take_bit_nat_def)
  then have t: "take_bit i r = r" by (simp only: word_unat_eq_iff)
  have "r AND push_bit i x = 0"
    by (subst t[symmetric]) (auto intro!: bit_word_eqI simp: bit_simps)
  then have "r OR push_bit i x = r + push_bit i x" by (simp add: disjunctive_add_eq_or)
  then show ?thesis by (simp add: push_bit_eq_mult mult.commute)
qed

section \<open>Clients of a byte store\<close>

text \<open>
  What the typed operations rely on. A \<open>byte_source\<close> hands out the pending bytes in order and
  throws when too few are left; it says nothing about reading zero bytes. A \<open>byte_store\<close> is
  a flat array with a cursor that can also be overwritten and repositioned.
\<close>

definition read_byte :: "(nat \<Rightarrow> 's \<Rightarrow> (byte list \<times> 's) res) \<Rightarrow> 's \<Rightarrow> (byte \<times> 's) res" where
  "read_byte rd s = bindr (rd 1 s) (\<lambda>(bs, t). Inr (hd bs, t))"

fun shifts :: "nat \<Rightarrow> nat \<Rightarrow> nat list" where
  "shifts i 0 = []"
| "shifts i (Suc k) = i # shifts (i + 7) k"

lemma unat_ucast_small:
  fixes b :: byte
  assumes "unat b < 2 ^ LENGTH('a::len)"
  shows "unat (ucast b :: 'a word) = unat b"
  using assms by (simp add: unsigned_ucast_eq take_bit_nat_eq_self)

lemma unat_continuation: "unat (of_nat (n mod 128 + 128) :: byte) = n mod 128 + 128"
proof -
  have "n mod 128 + 128 < 256" using mod_less_divisor[of 128 n] by simp
  then show ?thesis by (simp only: unat_of_nat) simp
qed

locale byte_source =
  fixes inv :: "'s \<Rightarrow> bool"
    and pending :: "'s \<Rightarrow> byte list"
    and rd :: "nat \<Rightarrow> 's \<Rightarrow> (byte list \<times> 's) res"
  assumes rd_ok: "inv s \<Longrightarrow> pending s = bs @ rest \<Longrightarrow> bs \<noteq> [] \<Longrightarrow>
      \<exists>s'. rd (length bs) s = Inr (bs, s') \<and> inv s' \<and> pending s' = rest"
    and rd_short: "inv s \<Longrightarrow> length (pending s) < n \<Longrightarrow> rd n s = Inl Out_of_range"
begin

lemma read_byte_ok:
  assumes "inv s" "pending s = b # rest"
  shows "\<exists>s'. read_byte rd s = Inr (b, s') \<and> inv s' \<and> pending s' = rest"
  using rd_ok[of s "[b]" rest] assms by (auto simp: read_byte_def)

lemma read_byte_short: "inv s \<Longrightarrow> pending s = [] \<Longrightarrow> read_byte rd s = Inl Out_of_range"
  using rd_short[of s 1] by (simp add: read_byte_def)

lemma varint_read_ok:
  fixes r :: "'a::len word"
  assumes "8 \<le> LENGTH('a)" "inv s" "pending s = venc n @ rest" "unat r < 2 ^ i"
    and "length (venc n) \<le> k" "unat r + 2 ^ i * n < 2 ^ LENGTH('a)"
  shows "\<exists>s'. varint_read (read_byte rd) (shifts i k) r s = Inr (of_nat (unat r + 2 ^ i * n), s') \<and>
           inv s' \<and> pending s' = rest"
  using assms(2-)
proof (induction k arbitrary: i r s n)
  case 0
  then show ?case by simp
next
  case (Suc k)
  have big: "(256 :: nat) \<le> 2 ^ LENGTH('a)"
    using assms(1) power_increasing[of 8 "LENGTH('a)" "2 :: nat"] by simp
  show ?case
  proof (cases "128 \<le> n")
    case False
    then have n: "n < 128" and v: "venc n = [of_nat n]" by (simp, subst venc.simps, simp)
    obtain s' where s': "read_byte rd s = Inr (of_nat n, s')" "inv s'" "pending s' = rest"
      using read_byte_ok[of s "of_nat n" rest] Suc.prems(1,2) v by auto
    have b: "unat (of_nat n :: byte) = n" using n by (simp add: unat_of_nat)
    then have "(of_nat n :: byte) < 0x80" using n by (simp add: word_less_nat_alt)
    moreover have "unat (ucast (of_nat n :: byte) :: 'a word) = n"
      using unat_ucast_small[of "of_nat n", where 'a = 'a] b n big by simp
    ultimately show ?thesis
      using s' or_push_bit[OF Suc.prems(3), of "ucast (of_nat n :: byte)"] by simp
  next
    case True
    define b where "b = (of_nat (n mod 128 + 128) :: byte)"
    have v: "venc n = b # venc (n div 128)" using True by (subst venc.simps) (simp add: b_def)
    obtain s' where s': "read_byte rd s = Inr (b, s')" "inv s'" "pending s' = venc (n div 128) @ rest"
      using read_byte_ok[of s b "venc (n div 128) @ rest"] Suc.prems(1,2) v by auto
    have ub: "unat b = n mod 128 + 128" unfolding b_def by (rule unat_continuation)
    then have "\<not> b < 0x80" by (simp add: word_less_nat_alt)
    have "unat (ucast (b AND 0x7F) :: 'a word) = n mod 128"
      using unat_ucast_small[of "b AND 0x7F", where 'a = 'a] unat_and_127[of b] ub big by simp
    define r' where "r' = r OR push_bit i (ucast (b AND 0x7F))"
    have lt: "unat r + 2 ^ i * (n mod 128) \<le> unat r + 2 ^ i * n" by simp
    have "r' = of_nat (unat r + 2 ^ i * (n mod 128))"
      using or_push_bit[OF Suc.prems(3), of "ucast (b AND 0x7F)"]
        \<open>unat (ucast (b AND 0x7F) :: 'a word) = n mod 128\<close> by (simp only: r'_def)
    then have r': "unat r' = unat r + 2 ^ i * (n mod 128)"
      using le_less_trans[OF lt Suc.prems(5)] by (simp only: unat_of_nat mod_less)
    have sum: "unat r' + 2 ^ (i + 7) * (n div 128) = unat r + 2 ^ i * n"
    proof -
      have "2 ^ i * (n mod 128) + 2 ^ (i + 7) * (n div 128) = 2 ^ i * (n mod 128 + 128 * (n div 128))"
        by (simp only: power_add distrib_left mult.assoc) simp
      then show ?thesis using r' by simp
    qed
    have "unat r' < 2 ^ (i + 7)"
    proof -
      have "unat r' < 2 ^ i + 2 ^ i * 127" unfolding r'
        by (intro add_less_le_mono Suc.prems(3) mult_le_mono2) simp
      then show ?thesis by (simp add: power_add)
    qed
    then obtain t where t: "varint_read (read_byte rd) (shifts (i + 7) k) r' s' =
         Inr (of_nat (unat r' + 2 ^ (i + 7) * (n div 128)), t)" "inv t" "pending t = rest"
      using Suc.IH[of s' "n div 128" r' "i + 7"] s' v Suc.prems(4,5) sum by auto
    then show ?thesis
      using s'(1) \<open>\<not> b < 0x80\<close> t(1)[unfolded sum] by (simp add: r'_def)
  qed
qed

lemma varint_read_truncated:
  assumes "inv s" "pending s = take k (venc n)" "k < length (venc n)" "length (venc n) \<le> length is"
  shows "varint_read (read_byte rd) is r s = Inl Out_of_range"
  using assms
proof (induction "is" arbitrary: k n r s)
  case Nil
  then show ?case by simp
next
  case (Cons i "is")
  show ?case
  proof (cases k)
    case 0
    then show ?thesis using Cons.prems read_byte_short by simp
  next
    case (Suc j)
    have big: "128 \<le> n"
      using Cons.prems(3) Suc by (subst (asm) venc.simps) (auto split: if_splits)
    define b where "b = (of_nat (n mod 128 + 128) :: byte)"
    have v: "venc n = b # venc (n div 128)" using big by (subst venc.simps) (simp add: b_def)
    obtain s' where s': "read_byte rd s = Inr (b, s')" "inv s'" "pending s' = take j (venc (n div 128))"
      using read_byte_ok[of s b "take j (venc (n div 128))"] Cons.prems(1,2) v Suc by auto
    have "unat b = n mod 128 + 128" unfolding b_def by (rule unat_continuation)
    then have "\<not> b < 0x80" by (simp add: word_less_nat_alt)
    then show ?thesis
      using s' Cons.IH[of s' j "n div 128"] Cons.prems(3,4) v Suc by simp
  qed
qed

lemma prefixed_read_ok:
  assumes "len s = Inr (w, t)" "inv t" "pending t = str @ rest" "unat w = length str" "str \<noteq> []"
  shows "\<exists>u. bindr (len s) (\<lambda>(w, t). rd (unat w) t) = Inr (str, u) \<and> inv u \<and> pending u = rest"
  using rd_ok[OF assms(2,3,5)] assms(1,4) by auto

end

locale byte_store =
  fixes inv :: "'s \<Rightarrow> bool"
    and view :: "'s \<Rightarrow> cursor"
    and rd :: "nat \<Rightarrow> 's \<Rightarrow> (byte list \<times> 's) res"
    and wr :: "byte list \<Rightarrow> 's \<Rightarrow> 's res"
    and seek_to :: "nat \<Rightarrow> 's \<Rightarrow> 's res"
  assumes view_ok: "inv s \<Longrightarrow> snd (view s) \<le> length (fst (view s))"
    and rd_view: "inv s \<Longrightarrow> 0 < n \<Longrightarrow>
      case spec_read n (view s) of
        None \<Rightarrow> rd n s = Inl Out_of_range
      | Some (bs, c) \<Rightarrow> \<exists>s'. rd n s = Inr (bs, s') \<and> inv s' \<and> view s' = c"
    and wr_view: "inv s \<Longrightarrow> \<exists>s'. wr bs s = Inr s' \<and> inv s' \<and> view s' = spec_write bs (view s)"
    and seek_view: "inv s \<Longrightarrow> p \<le> length (fst (view s)) \<Longrightarrow>
      \<exists>s'. seek_to p s = Inr s' \<and> inv s' \<and> view s' = (fst (view s), p)"

definition rest_of :: "cursor \<Rightarrow> byte list" where
  "rest_of c = drop (snd c) (fst c)"

sublocale byte_store \<subseteq> src: byte_source inv "\<lambda>s. rest_of (view s)" rd
proof unfold_locales
  fix s bs rest
  assume s: "inv s" "rest_of (view s) = bs @ rest" "bs \<noteq> []"
  have "length (fst (view s)) = snd (view s) + length (bs @ rest)"
    using view_ok[OF s(1)] arg_cong[OF s(2), of length] by (simp add: rest_of_def)
  then have "spec_read (length bs) (view s) = Some (bs, fst (view s), snd (view s) + length bs)"
    using s(2) by (simp add: spec_read_def rest_of_def)
  moreover have "rest_of (fst (view s), snd (view s) + length bs) = rest"
    using s(2) by (simp add: rest_of_def add.commute flip: drop_drop)
  ultimately show "\<exists>s'. rd (length bs) s = Inr (bs, s') \<and> inv s' \<and> rest_of (view s') = rest"
    using rd_view[OF s(1), of "length bs"] s(3) by auto
next
  fix s n
  assume s: "inv s" "length (rest_of (view s)) < n"
  then have "spec_read n (view s) = None"
    using view_ok[OF s(1)] by (auto simp: spec_read_def rest_of_def)
  then show "rd n s = Inl Out_of_range"
    using rd_view[OF s(1), of n] s(2) by auto
qed

context byte_store
begin

text \<open>Two writes in a row are one write of the concatenation.\<close>

lemma write_write:
  assumes "inv s" "wr xs s = Inr t" "wr ys t = Inr u"
  shows "inv u" "view u = spec_write (xs @ ys) (view s)"
proof -
  have t: "inv t" "view t = spec_write xs (view s)" using wr_view[OF assms(1), of xs] assms(2) by auto
  then show "inv u" using wr_view[of t ys] assms(3) by auto
  have "view u = spec_write ys (view t)" using wr_view[OF t(1), of ys] assms(3) by auto
  then show "view u = spec_write (xs @ ys) (view s)"
    using t(2) spec_write_append[OF view_ok[OF assms(1)]] by simp
qed

text \<open>Going back to where a write started leaves the written bytes pending.\<close>

lemma rewind:
  assumes "inv s" "inv t" "view t = spec_write bs (view s)"
  shows "\<exists>u. seek_to (snd (view s)) t = Inr u \<and> inv u \<and>
           rest_of (view u) = bs @ drop (snd (view s) + length bs) (fst (view s)) \<and>
           snd (view t) = snd (view s) + length bs"
proof -
  let ?p = "snd (view s)"
  have p: "?p \<le> length (fst (view s))" using view_ok[OF assms(1)] .
  then have "?p \<le> length (fst (view t))"
    by (simp add: assms(3) spec_write_def overwrite_def)
  then obtain u where "seek_to ?p t = Inr u" "inv u" "view u = (fst (view t), ?p)"
    using seek_view[OF assms(2)] by blast
  then show ?thesis
    using p by (auto simp: rest_of_def assms(3) spec_write_def overwrite_def)
qed

text \<open>So a reader that decodes what was written gives the value back.\<close>

lemma write_read:
  assumes "inv s" "inv t" "view t = spec_write bs (view s)"
    and reader: "\<And>u rest. inv u \<Longrightarrow> rest_of (view u) = bs @ rest \<Longrightarrow>
       \<exists>w. R u = Inr (v, w) \<and> inv w \<and> rest_of (view w) = rest"
  shows "\<exists>u w. seek_to (snd (view s)) t = Inr u \<and> R u = Inr (v, w) \<and> inv w"
  using rewind[OF assms(1-3)] reader by blast

end

section \<open>The typed operations on the byte array\<close>

interpretation ba: byte_store "\<lambda>s. ba_inv s \<and> m_endian s = e" ba_abs ByteArray_read ByteArray_write
  setPosition for e
proof unfold_locales
  fix s assume "ba_inv s \<and> m_endian s = e"
  then show "snd (ba_abs s) \<le> length (fst (ba_abs s))" using ba_invD(5,9,10)[of s] by simp
next
  fix s and n :: nat assume "ba_inv s \<and> m_endian s = e" "0 < n"
  then show "case spec_read n (ba_abs s) of
        None \<Rightarrow> ByteArray_read n s = Inl Out_of_range
      | Some (bs, c) \<Rightarrow> \<exists>s'. ByteArray_read n s = Inr (bs, s') \<and> (ba_inv s' \<and> m_endian s' = e) \<and> ba_abs s' = c"
    using read_refines[of s n] by (auto split: option.splits)
next
  fix s bs assume "ba_inv s \<and> m_endian s = e"
  then show "\<exists>s'. ByteArray_write bs s = Inr s' \<and> (ba_inv s' \<and> m_endian s' = e) \<and>
      ba_abs s' = spec_write bs (ba_abs s)"
    using write_refines[of s bs] by auto
next
  fix s p assume "ba_inv s \<and> m_endian s = e" "p \<le> length (fst (ba_abs s))"
  then show "\<exists>s'. setPosition p s = Inr s' \<and> (ba_inv s' \<and> m_endian s' = e) \<and> ba_abs s' = (fst (ba_abs s), p)"
    using setPosition_refines[of s p] ba_invD(9)[of s] by auto
qed

lemma readFuint8_read_byte: "readFuint8 = read_byte ByteArray_read"
  by (simp add: fun_eq_iff readFuint8_def read_byte_def)

lemma shifts_32: "[0, 7, 14, 21, 28] = shifts 0 5"
  and shifts_64: "[0, 7, 14, 21, 28, 35, 42, 49, 56, 63] = shifts 0 10"
  by (simp_all add: eval_nat_numeral)

lemma writeUint32_eq: "writeUint32 v s = ByteArray_write (venc (unat v)) s"
proof -
  have "unat v < 128 ^ Suc 4" using unsigned_less[of v, where 'a = nat] by simp
  then have "varint_loop (Suc 4) v [] = Inr ([] @ venc (unat v))" by (intro varint_loop_ok) auto
  then show ?thesis by (simp add: writeUint32_def)
qed

lemma writeUint64_eq: "writeUint64 v s = ByteArray_write (venc (unat v)) s"
proof -
  have "unat v < 128 ^ Suc 9" using unsigned_less[of v, where 'a = nat] by simp
  then have "varint_loop (Suc 9) v [] = Inr ([] @ venc (unat v))" by (intro varint_loop_ok) auto
  then show ?thesis by (simp add: writeUint64_def)
qed

lemma readUint32_pending:
  assumes "ba_inv s" "m_endian s = e" "rest_of (ba_abs s) = venc (unat v) @ rest"
  shows "\<exists>t. readUint32 s = Inr (v, t) \<and> (ba_inv t \<and> m_endian t = e) \<and> rest_of (ba_abs t) = rest"
proof -
  have v: "unat v < 2 ^ 32" using unsigned_less[of v, where 'a = nat] by simp
  then have "length (venc (unat v)) \<le> Suc 4" by (intro length_venc) simp
  then show ?thesis
    using ba.src.varint_read_ok[of s e "unat v" rest "0 :: u32" 0 5] assms v
    by (simp add: readUint32_def shifts_32 readFuint8_read_byte)
qed

lemma readUint64_pending:
  assumes "ba_inv s" "m_endian s = e" "rest_of (ba_abs s) = venc (unat v) @ rest"
  shows "\<exists>t. readUint64 s = Inr (v, t) \<and> (ba_inv t \<and> m_endian t = e) \<and> rest_of (ba_abs t) = rest"
proof -
  have v: "unat v < 2 ^ 64" using unsigned_less[of v, where 'a = nat] by simp
  then have "length (venc (unat v)) \<le> Suc 9" by (intro length_venc) simp
  then show ?thesis
    using ba.src.varint_read_ok[of s e "unat v" rest "0 :: u64" 0 10] assms v
    by (simp add: readUint64_def shifts_64 readFuint8_read_byte)
qed

lemma ba_inv_endian_ok: "ba_inv s \<Longrightarrow> endian_ok (m_endian s)"
  by (auto simp: ba_inv_def endian_ok_def)

lemma writeF_eq:
  fixes v :: "'a::len word"
  assumes "LENGTH('a) = 8 * n" "endian_ok host" "ba_inv s"
  shows "writeF host v s = ByteArray_write (wire_of_word (m_endian s) v) s"
  using mem_of_word_wire[OF assms(1,2) ba_inv_endian_ok[OF assms(3)]] by (simp add: writeF_def)

lemma readF_pending:
  fixes v :: "'a::len word"
  assumes "LENGTH('a) = 8 * n" "0 < n" "endian_ok host" "ba_inv s" "m_endian s = e"
    and "rest_of (ba_abs s) = wire_of_word e v @ rest"
  shows "\<exists>t. readF host s = Inr (v, t) \<and> (ba_inv t \<and> m_endian t = e) \<and> rest_of (ba_abs t) = rest"
proof -
  have "wire_of_word e v \<noteq> []" using assms(1,2) by (metis length_wire_of_word list.size(3)
      nonzero_mult_div_cancel_left not_gr_zero zero_neq_numeral)
  then obtain t where "ByteArray_read (LENGTH('a) div 8) s = Inr (wire_of_word e v, t)"
    "ba_inv t \<and> m_endian t = e" "rest_of (ba_abs t) = rest"
    using ba.src.rd_ok[of s e "wire_of_word e v" rest] assms(4-) by auto
  then show ?thesis
    using word_of_mem_wire[OF assms(1,3) ba_inv_endian_ok[OF assms(4)], of v] assms(5)
    by (simp add: readF_def Let_def)
qed

text \<open>
  The shape of every round trip: write, go back to where the write started, read.
\<close>

lemma ba_roundtrip:
  assumes s: "ba_inv s" and w: "W = ByteArray_write bs s"
    and R: "\<And>u rest. ba_inv u \<Longrightarrow> m_endian u = m_endian s \<Longrightarrow> rest_of (ba_abs u) = bs @ rest \<Longrightarrow>
       \<exists>t. R u = Inr (v, t) \<and> (ba_inv t \<and> m_endian t = m_endian s) \<and> rest_of (ba_abs t) = rest"
  shows "\<exists>t u w. W = Inr t \<and> setPosition (m_position s) t = Inr u \<and> R u = Inr (v, w) \<and> ba_inv w"
proof -
  obtain t where t: "ByteArray_write bs s = Inr t" "ba_inv t \<and> m_endian t = m_endian s"
    "ba_abs t = spec_write bs (ba_abs s)"
    using ba.wr_view[of s "m_endian s" bs] s by auto
  have "\<exists>u w. setPosition (snd (ba_abs s)) t = Inr u \<and> R u = Inr (v, w) \<and> ba_inv w \<and> m_endian w = m_endian s"
    by (rule ba.write_read[OF _ t(2,3)]) (use s R in auto)
  then show ?thesis using t(1) w ba_invD(10)[OF s] by auto
qed

lemma ba_write2_eq:
  assumes s: "ba_inv s"
  shows "\<exists>u. bindr (ByteArray_write xs s) (\<lambda>t. ByteArray_write ys t) = Inr u \<and> ba_inv u \<and>
     m_endian u = m_endian s \<and> ba_abs u = spec_write (xs @ ys) (ba_abs s)"
proof -
  obtain t where t: "ByteArray_write xs s = Inr t" "ba_inv t \<and> m_endian t = m_endian s"
    using ba.wr_view[of s "m_endian s" xs] s by auto
  then obtain u where u: "ByteArray_write ys t = Inr u" "ba_inv u \<and> m_endian u = m_endian s"
    using ba.wr_view[of t "m_endian s" ys] by auto
  then show ?thesis
    using ba.write_write(2)[of s "m_endian s" xs t ys u] t s by auto
qed

text \<open>A length prefix that decodes, followed by that many bytes.\<close>

lemma ba_string_roundtrip:
  fixes len :: "'a::len word"
  assumes s: "ba_inv s" and ne: "str \<noteq> []" and len: "unat len = length str"
    and w: "W = bindr (ByteArray_write pre s) (\<lambda>t. ByteArray_write str t)"
    and R: "\<And>u. R u = bindr (L u) (\<lambda>(len, t). ByteArray_read (unat len) t)"
    and L: "\<And>u rest. ba_inv u \<Longrightarrow> m_endian u = m_endian s \<Longrightarrow> rest_of (ba_abs u) = pre @ rest \<Longrightarrow>
       \<exists>t. L u = Inr (len, t) \<and> (ba_inv t \<and> m_endian t = m_endian s) \<and> rest_of (ba_abs t) = rest"
  shows "\<exists>t u w. W = Inr t \<and> setPosition (m_position s) t = Inr u \<and> R u = Inr (str, w) \<and> ba_inv w"
proof -
  obtain t where t: "W = Inr t" "ba_inv t \<and> m_endian t = m_endian s"
    "ba_abs t = spec_write (pre @ str) (ba_abs s)"
    using ba_write2_eq[OF s, of pre str] w by auto
  have "\<exists>u w. setPosition (snd (ba_abs s)) t = Inr u \<and> R u = Inr (str, w) \<and> ba_inv w \<and> m_endian w = m_endian s"
  proof (rule ba.write_read[OF _ t(2,3)])
    fix u rest assume u: "ba_inv u \<and> m_endian u = m_endian s" "rest_of (ba_abs u) = (pre @ str) @ rest"
    then obtain v where v: "L u = Inr (len, v)" "ba_inv v \<and> m_endian v = m_endian s"
      "rest_of (ba_abs v) = str @ rest"
      using L[of u "str @ rest"] by auto
    then show "\<exists>w. R u = Inr (str, w) \<and> (ba_inv w \<and> m_endian w = m_endian s) \<and> rest_of (ba_abs w) = rest"
      using ba.src.prefixed_read_ok[where len = L and s = u, OF v(1,2,3) len ne] R[of u] by simp
  qed (use s in simp)
  then show ?thesis using t(1) ba_invD(10)[OF s] by auto
qed

section \<open>Properties\<close>

text \<open>
  C29: an unsigned integer written as a varint is read back, at either width, from every state of the
  store, whatever lies behind it; the five or ten byte scratch array never overflows.
\<close>

theorem varint_roundtrip:
  assumes "ba_inv s"
  shows "(\<exists>t u w. writeUint32 x s = Inr t \<and> setPosition (m_position s) t = Inr u \<and>
            readUint32 u = Inr (x, w) \<and> ba_inv w) \<and>
         (\<exists>t u w. writeUint64 y s = Inr t \<and> setPosition (m_position s) t = Inr u \<and>
            readUint64 u = Inr (y, w) \<and> ba_inv w)"
  by (intro conjI ba_roundtrip[OF assms writeUint32_eq] ba_roundtrip[OF assms writeUint64_eq]
      readUint32_pending readUint64_pending) auto

theorem varint_roundtrip_witness:
  "\<exists>t u w. writeUint32 300 (ByteArray_new 1) = Inr t \<and> setPosition 0 t = Inr u \<and>
     readUint32 u = Inr (300, w)"
  using varint_roundtrip[OF ba_inv_new, of 1 300 0] by auto

text \<open>
  zigzag coding is a bijection between the signed and the unsigned integers of either width.
\<close>

theorem zigzag_bijection:
  "DecodeZigzag32 (EncodeZigzag32 v) = v \<and> EncodeZigzag32 (DecodeZigzag32 u) = u \<and>
   DecodeZigzag64 (EncodeZigzag64 v') = v' \<and> EncodeZigzag64 (DecodeZigzag64 u') = u'"
  by (simp add: DecodeZigzag32_def EncodeZigzag32_def DecodeZigzag64_def EncodeZigzag64_def
      DecodeZigzag_EncodeZigzag EncodeZigzag_DecodeZigzag)

lemma writeInt32_eq: "writeInt32 v s = ByteArray_write (venc (unat (EncodeZigzag32 v))) s"
  by (simp add: writeInt32_def writeUint32_eq)

lemma writeInt64_eq: "writeInt64 v s = ByteArray_write (venc (unat (EncodeZigzag64 v))) s"
  by (simp add: writeInt64_def writeUint64_eq)

text \<open>
  a signed integer written with \<open>writeInt32\<close> or \<open>writeInt64\<close> is read back.
\<close>

theorem signed_varint_roundtrip:
  assumes "ba_inv s"
  shows "(\<exists>t u w. writeInt32 x s = Inr t \<and> setPosition (m_position s) t = Inr u \<and>
            readInt32 u = Inr (x, w) \<and> ba_inv w) \<and>
         (\<exists>t u w. writeInt64 y s = Inr t \<and> setPosition (m_position s) t = Inr u \<and>
            readInt64 u = Inr (y, w) \<and> ba_inv w)"
proof (intro conjI ba_roundtrip[OF assms writeInt32_eq] ba_roundtrip[OF assms writeInt64_eq])
  fix u rest
  assume "ba_inv u" "m_endian u = m_endian s"
  note u = this
  show "\<exists>t. readInt32 u = Inr (x, t) \<and> (ba_inv t \<and> m_endian t = m_endian s) \<and> rest_of (ba_abs t) = rest"
    if "rest_of (ba_abs u) = venc (unat (EncodeZigzag32 x)) @ rest"
    using readUint32_pending[OF u that]
    by (auto simp: readInt32_def DecodeZigzag32_def EncodeZigzag32_def DecodeZigzag_EncodeZigzag)
  show "\<exists>t. readInt64 u = Inr (y, t) \<and> (ba_inv t \<and> m_endian t = m_endian s) \<and> rest_of (ba_abs t) = rest"
    if "rest_of (ba_abs u) = venc (unat (EncodeZigzag64 y)) @ rest"
    using readUint64_pending[OF u that]
    by (auto simp: readInt64_def DecodeZigzag64_def EncodeZigzag64_def DecodeZigzag_EncodeZigzag)
qed

theorem signed_varint_roundtrip_witness:
  "\<exists>t u w. writeInt32 (- 5) (ByteArray_new 3) = Inr t \<and> setPosition 0 t = Inr u \<and>
     readInt32 u = Inr (- 5, w)"
  using signed_varint_roundtrip[OF ba_inv_new, of 3 "- 5" 0] by auto

text \<open>
  C30: a fixed-width integer is stored in the byte order the array is set to, whatever the byte
  order of the host that runs the code, and a host of either byte order reads it back.
\<close>

theorem fixed_width_wire_format:
  assumes "ba_inv s" "endian_ok host" "endian_ok host'"
  shows "(\<exists>t u w. writeFuint16 host x s = Inr t \<and>
            ba_abs t = spec_write (wire_of_word (m_endian s) x) (ba_abs s) \<and>
            setPosition (m_position s) t = Inr u \<and> readFuint16 host' u = Inr (x, w) \<and> ba_inv w) \<and>
         (\<exists>t u w. writeFuint32 host y s = Inr t \<and>
            ba_abs t = spec_write (wire_of_word (m_endian s) y) (ba_abs s) \<and>
            setPosition (m_position s) t = Inr u \<and> readFuint32 host' u = Inr (y, w) \<and> ba_inv w) \<and>
         (\<exists>t u w. writeFuint64 host z s = Inr t \<and>
            ba_abs t = spec_write (wire_of_word (m_endian s) z) (ba_abs s) \<and>
            setPosition (m_position s) t = Inr u \<and> readFuint64 host' u = Inr (z, w) \<and> ba_inv w)"
proof -
  have gen: "\<exists>t u w. writeF host v s = Inr t \<and>
      ba_abs t = spec_write (wire_of_word (m_endian s) v) (ba_abs s) \<and>
      setPosition (m_position s) t = Inr u \<and> readF host' u = Inr (v, w) \<and> ba_inv w"
    if l: "LENGTH('a) = 8 * n" "0 < n" for v :: "'a::len word" and n
  proof -
    have "\<exists>t u w. writeF host v s = Inr t \<and> setPosition (m_position s) t = Inr u \<and>
        readF host' u = Inr (v, w) \<and> ba_inv w"
      by (rule ba_roundtrip[OF assms(1) writeF_eq[OF l(1) assms(2,1)]],
          rule readF_pending[OF l assms(3)]) auto
    moreover obtain t where "writeF host v s = Inr t"
      "ba_abs t = spec_write (wire_of_word (m_endian s) v) (ba_abs s)"
      using write_refines[OF assms(1)] writeF_eq[OF l(1) assms(2,1), of v] by metis
    ultimately show ?thesis by auto
  qed
  show ?thesis
    using gen[of 2 x] gen[of 4 y] gen[of 8 z]
    by (simp add: writeFuint16_def writeFuint32_def writeFuint64_def
        readFuint16_def readFuint32_def readFuint64_def)
qed

theorem fixed_width_wire_format_witness:
  "\<exists>t u w. writeFuint16 SYLAR_LITTLE_ENDIAN 0x1234 (ByteArray_new 1) = Inr t \<and>
     fst (ba_abs t) = [0x12, 0x34] \<and> setPosition 0 t = Inr u \<and>
     readFuint16 SYLAR_BIG_ENDIAN u = Inr (0x1234, w)"
proof -
  have w: "wire_of_word (m_endian (ByteArray_new 1)) (0x1234 :: u16) = [0x12, 0x34]"
    by code_simp
  have "\<exists>t u w. writeFuint16 SYLAR_LITTLE_ENDIAN 0x1234 (ByteArray_new 1) = Inr t \<and>
            ba_abs t = spec_write [0x12, 0x34] ([], 0) \<and>
            setPosition 0 t = Inr u \<and> readFuint16 SYLAR_BIG_ENDIAN u = Inr (0x1234, w) \<and> ba_inv w"
    using fixed_width_wire_format[OF ba_inv_new, of 1 SYLAR_LITTLE_ENDIAN SYLAR_BIG_ENDIAN "0x1234",
        unfolded w m_position_new ba_abs_new] by (simp add: endian_ok_def)
  then show ?thesis by (auto simp: spec_write_def overwrite_def)
qed

lemma ba_stringF_roundtrip:
  assumes l: "LENGTH('a::len) = 8 * n" "0 < n"
    and "ba_inv s" "endian_ok host" "str \<noteq> []" and len: "length str < 2 ^ LENGTH('a)"
  shows "\<exists>t u w. bindr (writeF host (of_nat (length str) :: 'a word) s) (\<lambda>t. ByteArray_write str t) = Inr t \<and>
     setPosition (m_position s) t = Inr u \<and>
     bindr (readF host u) (\<lambda>(len :: 'a word, t). ByteArray_read (unat len) t) = Inr (str, w) \<and> ba_inv w"
proof (rule ba_string_roundtrip[OF assms(3,5)])
  show "unat (of_nat (length str) :: 'a word) = length str" using len by (simp add: unat_of_nat)
  show "bindr (writeF host (of_nat (length str) :: 'a word) s) (\<lambda>t. ByteArray_write str t) =
      bindr (ByteArray_write (wire_of_word (m_endian s) (of_nat (length str) :: 'a word)) s)
        (\<lambda>t. ByteArray_write str t)"
    by (simp only: writeF_eq[OF l(1) assms(4,3)])
qed (use readF_pending[OF l assms(4)] in simp_all)

text \<open>
  a non-empty string that fits its length prefix is read back, for each of the four prefixes.
\<close>

theorem string_roundtrip:
  assumes "ba_inv s" "endian_ok host" "str \<noteq> []"
  shows "(length str < 2 ^ 16 \<longrightarrow> (\<exists>t u w. writeStringF16 host str s = Inr t \<and>
            setPosition (m_position s) t = Inr u \<and> readStringF16 host u = Inr (str, w) \<and> ba_inv w)) \<and>
         (length str < 2 ^ 32 \<longrightarrow> (\<exists>t u w. writeStringF32 host str s = Inr t \<and>
            setPosition (m_position s) t = Inr u \<and> readStringF32 host u = Inr (str, w) \<and> ba_inv w)) \<and>
         (length str < 2 ^ 64 \<longrightarrow> (\<exists>t u w. writeStringF64 host str s = Inr t \<and>
            setPosition (m_position s) t = Inr u \<and> readStringF64 host u = Inr (str, w) \<and> ba_inv w)) \<and>
         (length str < 2 ^ 64 \<longrightarrow> (\<exists>t u w. writeStringVint str s = Inr t \<and>
            setPosition (m_position s) t = Inr u \<and> readStringVint u = Inr (str, w) \<and> ba_inv w))"
proof (intro conjI impI)
  assume "length str < 2 ^ 16"
  then show "\<exists>t u w. writeStringF16 host str s = Inr t \<and>
      setPosition (m_position s) t = Inr u \<and> readStringF16 host u = Inr (str, w) \<and> ba_inv w"
    using ba_stringF_roundtrip[OF _ _ assms, of 2, where 'a = 16]
    by (simp add: writeStringF16_def readStringF16_def writeFuint16_def readFuint16_def)
next
  assume "length str < 2 ^ 32"
  then show "\<exists>t u w. writeStringF32 host str s = Inr t \<and>
      setPosition (m_position s) t = Inr u \<and> readStringF32 host u = Inr (str, w) \<and> ba_inv w"
    using ba_stringF_roundtrip[OF _ _ assms, of 4, where 'a = 32]
    by (simp add: writeStringF32_def readStringF32_def writeFuint32_def readFuint32_def)
next
  assume "length str < 2 ^ 64"
  then show "\<exists>t u w. writeStringF64 host str s = Inr t \<and>
      setPosition (m_position s) t = Inr u \<and> readStringF64 host u = Inr (str, w) \<and> ba_inv w"
    using ba_stringF_roundtrip[OF _ _ assms, of 8, where 'a = 64]
    by (simp add: writeStringF64_def readStringF64_def writeFuint64_def readFuint64_def)
next
  assume l: "length str < 2 ^ 64"
  let ?n = "of_nat (length str) :: u64"
  show "\<exists>t u w. writeStringVint str s = Inr t \<and>
      setPosition (m_position s) t = Inr u \<and> readStringVint u = Inr (str, w) \<and> ba_inv w"
  proof (rule ba_string_roundtrip[OF assms(1,3)])
    show "writeStringVint str s = bindr (ByteArray_write (venc (unat ?n)) s) (\<lambda>t. ByteArray_write str t)"
      by (simp only: writeStringVint_def writeUint64_eq)
    show "unat ?n = length str" using l by (simp add: unat_of_nat)
  qed (use readUint64_pending in \<open>simp_all add: readStringVint_def\<close>)
qed

theorem string_roundtrip_witness:
  "\<exists>t u w. writeStringF16 SYLAR_LITTLE_ENDIAN [104, 105] (ByteArray_new 3) = Inr t \<and>
     setPosition 0 t = Inr u \<and> readStringF16 SYLAR_LITTLE_ENDIAN u = Inr ([104, 105], w)"
  using string_roundtrip[OF ba_inv_new, of 3 SYLAR_LITTLE_ENDIAN "[104, 105]"]
  by (auto simp: endian_ok_def)

text \<open>
  the empty string is the exception. When its prefix ends exactly at the end of the storage,
  reading it back follows the null \<open>m_cur\<close> instead of returning the empty string.
\<close>

theorem empty_string_null_deref:
  "\<exists>t u. writeStringF16 SYLAR_LITTLE_ENDIAN [] (ByteArray_new 2) = Inr t \<and>
     setPosition 0 t = Inr u \<and> readStringF16 SYLAR_LITTLE_ENDIAN u = Inl Null_deref"
proof -
  let ?t = "\<lparr>m_baseSize = 2, m_position = 2, m_capacity = 2, m_size = 2, m_endian = 2,
             m_root = [[0, 0]], m_cur = None\<rparr>"
  let ?u = "?t\<lparr>m_position := 0, m_cur := Some 0\<rparr>"
  have "writeStringF16 SYLAR_LITTLE_ENDIAN [] (ByteArray_new 2) = Inr ?t" by code_simp
  moreover have "setPosition 0 ?t = Inr ?u" by code_simp
  moreover have "readStringF16 SYLAR_LITTLE_ENDIAN ?u = Inl Null_deref" by code_simp
  ultimately show ?thesis by blast
qed

text \<open>
  a truncated varint is reported: when the pending bytes are a proper prefix of an encoding,
  \<open>readUint64\<close> throws instead of returning a value.
\<close>

theorem truncated_varint_throws:
  assumes "ba_inv s" "rest_of (ba_abs s) = take k (venc (unat (v :: u64)))" "k < length (venc (unat v))"
  shows "readUint64 s = Inl Out_of_range"
proof -
  have "unat v < 128 ^ Suc 9" using unsigned_less[of v, where 'a = nat] by simp
  then have "length (venc (unat v)) \<le> length (shifts 0 10)"
    using length_venc[of "unat v" 9] by (simp add: shifts_64[symmetric])
  then show ?thesis
    using ba.src.varint_read_truncated[of s "m_endian s" k "unat v" "shifts 0 10" 0] assms
    by (simp add: readUint64_def shifts_64 readFuint8_read_byte)
qed

theorem truncated_varint_throws_witness:
  "readUint64 (ByteArray_new 4) = Inl Out_of_range"
  using truncated_varint_throws[OF ba_inv_new, of 4 0 5] by (simp add: rest_of_def ba_abs_new)

end
