(* ===== verification/HttpDefs.thy ===== *)
theory HttpDefs
  imports Prelude
begin

text \<open>
  The data of \<open>http-parser/http_parser.h\<close>: status codes, methods, error codes, flags, the
  parser object and the table of callbacks. The bit fields of the parser keep their width. The
  \<open>void *data\<close> member is a value of the type parameter, so that a callback can carry the
  state of the application; a callback takes the parser and returns the parser it leaves behind
  together with its return code, and a null callback is \<open>None\<close>.
\<close>

section \<open>Status codes and methods\<close>

definition http_status_map :: "(nat \<times> string) list" where
  "http_status_map =
   [(100, ''Continue''),
    (101, ''Switching Protocols''),
    (102, ''Processing''),
    (200, ''OK''),
    (201, ''Created''),
    (202, ''Accepted''),
    (203, ''Non-Authoritative Information''),
    (204, ''No Content''),
    (205, ''Reset Content''),
    (206, ''Partial Content''),
    (207, ''Multi-Status''),
    (208, ''Already Reported''),
    (226, ''IM Used''),
    (300, ''Multiple Choices''),
    (301, ''Moved Permanently''),
    (302, ''Found''),
    (303, ''See Other''),
    (304, ''Not Modified''),
    (305, ''Use Proxy''),
    (307, ''Temporary Redirect''),
    (308, ''Permanent Redirect''),
    (400, ''Bad Request''),
    (401, ''Unauthorized''),
    (402, ''Payment Required''),
    (403, ''Forbidden''),
    (404, ''Not Found''),
    (405, ''Method Not Allowed''),
    (406, ''Not Acceptable''),
    (407, ''Proxy Authentication Required''),
    (408, ''Request Timeout''),
    (409, ''Conflict''),
    (410, ''Gone''),
    (411, ''Length Required''),
    (412, ''Precondition Failed''),
    (413, ''Payload Too Large''),
    (414, ''URI Too Long''),
    (415, ''Unsupported Media Type''),
    (416, ''Range Not Satisfiable''),
    (417, ''Expectation Failed''),
    (421, ''Misdirected Request''),
    (422, ''Unprocessable Entity''),
    (423, ''Locked''),
    (424, ''Failed Dependency''),
    (426, ''Upgrade Required''),
    (428, ''Precondition Required''),
    (429, ''Too Many Requests''),
    (431, ''Request Header Fields Too Large''),
    (451, ''Unavailable For Legal Reasons''),
    (500, ''Internal Server Error''),
    (501, ''Not Implemented''),
    (502, ''Bad Gateway''),
    (503, ''Service Unavailable''),
    (504, ''Gateway Timeout''),
    (505, ''HTTP Version Not Supported''),
    (506, ''Variant Also Negotiates''),
    (507, ''Insufficient Storage''),
    (508, ''Loop Detected''),
    (510, ''Not Extended''),
    (511, ''Network Authentication Required'')]"

datatype (plugins only: code size) http_method =
    HTTP_DELETE | HTTP_GET | HTTP_HEAD | HTTP_POST | HTTP_PUT | HTTP_CONNECT | HTTP_OPTIONS
   | HTTP_TRACE | HTTP_COPY | HTTP_LOCK | HTTP_MKCOL | HTTP_MOVE | HTTP_PROPFIND | HTTP_PROPPATCH
   | HTTP_SEARCH | HTTP_UNLOCK | HTTP_BIND | HTTP_REBIND | HTTP_UNBIND | HTTP_ACL | HTTP_REPORT
   | HTTP_MKACTIVITY | HTTP_CHECKOUT | HTTP_MERGE | HTTP_MSEARCH | HTTP_NOTIFY | HTTP_SUBSCRIBE
   | HTTP_UNSUBSCRIBE | HTTP_PATCH | HTTP_PURGE | HTTP_MKCALENDAR | HTTP_LINK | HTTP_UNLINK
   | HTTP_SOURCE

definition http_methods :: "http_method list" where
  "http_methods =
    [HTTP_DELETE, HTTP_GET, HTTP_HEAD, HTTP_POST, HTTP_PUT, HTTP_CONNECT, HTTP_OPTIONS, HTTP_TRACE
  , HTTP_COPY, HTTP_LOCK, HTTP_MKCOL, HTTP_MOVE, HTTP_PROPFIND, HTTP_PROPPATCH, HTTP_SEARCH
  , HTTP_UNLOCK, HTTP_BIND, HTTP_REBIND, HTTP_UNBIND, HTTP_ACL, HTTP_REPORT, HTTP_MKACTIVITY
  , HTTP_CHECKOUT, HTTP_MERGE, HTTP_MSEARCH, HTTP_NOTIFY, HTTP_SUBSCRIBE, HTTP_UNSUBSCRIBE
  , HTTP_PATCH, HTTP_PURGE, HTTP_MKCALENDAR, HTTP_LINK, HTTP_UNLINK, HTTP_SOURCE]"

definition method_strings :: "string list" where
  "method_strings =
    [''DELETE'', ''GET'', ''HEAD'', ''POST'', ''PUT'', ''CONNECT'', ''OPTIONS'', ''TRACE''
  , ''COPY'', ''LOCK'', ''MKCOL'', ''MOVE'', ''PROPFIND'', ''PROPPATCH'', ''SEARCH'', ''UNLOCK''
  , ''BIND'', ''REBIND'', ''UNBIND'', ''ACL'', ''REPORT'', ''MKACTIVITY'', ''CHECKOUT'', ''MERGE''
  , ''M-SEARCH'', ''NOTIFY'', ''SUBSCRIBE'', ''UNSUBSCRIBE'', ''PATCH'', ''PURGE'', ''MKCALENDAR''
  , ''LINK'', ''UNLINK'', ''SOURCE'']"

primrec method_num :: "http_method \<Rightarrow> nat" where
  "method_num HTTP_DELETE = 0"
| "method_num HTTP_GET = 1"
| "method_num HTTP_HEAD = 2"
| "method_num HTTP_POST = 3"
| "method_num HTTP_PUT = 4"
| "method_num HTTP_CONNECT = 5"
| "method_num HTTP_OPTIONS = 6"
| "method_num HTTP_TRACE = 7"
| "method_num HTTP_COPY = 8"
| "method_num HTTP_LOCK = 9"
| "method_num HTTP_MKCOL = 10"
| "method_num HTTP_MOVE = 11"
| "method_num HTTP_PROPFIND = 12"
| "method_num HTTP_PROPPATCH = 13"
| "method_num HTTP_SEARCH = 14"
| "method_num HTTP_UNLOCK = 15"
| "method_num HTTP_BIND = 16"
| "method_num HTTP_REBIND = 17"
| "method_num HTTP_UNBIND = 18"
| "method_num HTTP_ACL = 19"
| "method_num HTTP_REPORT = 20"
| "method_num HTTP_MKACTIVITY = 21"
| "method_num HTTP_CHECKOUT = 22"
| "method_num HTTP_MERGE = 23"
| "method_num HTTP_MSEARCH = 24"
| "method_num HTTP_NOTIFY = 25"
| "method_num HTTP_SUBSCRIBE = 26"
| "method_num HTTP_UNSUBSCRIBE = 27"
| "method_num HTTP_PATCH = 28"
| "method_num HTTP_PURGE = 29"
| "method_num HTTP_MKCALENDAR = 30"
| "method_num HTTP_LINK = 31"
| "method_num HTTP_UNLINK = 32"
| "method_num HTTP_SOURCE = 33"

definition method_string :: "http_method \<Rightarrow> string" where
  "method_string m = method_strings ! method_num m"

section \<open>Errors\<close>

datatype (plugins only: code size) http_errno =
    HPE_OK | HPE_CB_message_begin | HPE_CB_url | HPE_CB_header_field | HPE_CB_header_value
   | HPE_CB_headers_complete | HPE_CB_body | HPE_CB_message_complete | HPE_CB_status
   | HPE_CB_chunk_header | HPE_CB_chunk_complete | HPE_INVALID_EOF_STATE | HPE_HEADER_OVERFLOW
   | HPE_CLOSED_CONNECTION | HPE_INVALID_VERSION | HPE_INVALID_STATUS | HPE_INVALID_METHOD
   | HPE_INVALID_URL | HPE_INVALID_HOST | HPE_INVALID_PORT | HPE_INVALID_PATH
   | HPE_INVALID_QUERY_STRING | HPE_INVALID_FRAGMENT | HPE_LF_EXPECTED | HPE_INVALID_HEADER_TOKEN
   | HPE_INVALID_CONTENT_LENGTH | HPE_UNEXPECTED_CONTENT_LENGTH | HPE_INVALID_CHUNK_SIZE
   | HPE_INVALID_CONSTANT | HPE_INVALID_INTERNAL_STATE | HPE_STRICT | HPE_PAUSED | HPE_UNKNOWN

definition http_errnos :: "http_errno list" where
  "http_errnos =
    [HPE_OK, HPE_CB_message_begin, HPE_CB_url, HPE_CB_header_field, HPE_CB_header_value
  , HPE_CB_headers_complete, HPE_CB_body, HPE_CB_message_complete, HPE_CB_status
  , HPE_CB_chunk_header, HPE_CB_chunk_complete, HPE_INVALID_EOF_STATE, HPE_HEADER_OVERFLOW
  , HPE_CLOSED_CONNECTION, HPE_INVALID_VERSION, HPE_INVALID_STATUS, HPE_INVALID_METHOD
  , HPE_INVALID_URL, HPE_INVALID_HOST, HPE_INVALID_PORT, HPE_INVALID_PATH
  , HPE_INVALID_QUERY_STRING, HPE_INVALID_FRAGMENT, HPE_LF_EXPECTED, HPE_INVALID_HEADER_TOKEN
  , HPE_INVALID_CONTENT_LENGTH, HPE_UNEXPECTED_CONTENT_LENGTH, HPE_INVALID_CHUNK_SIZE
  , HPE_INVALID_CONSTANT, HPE_INVALID_INTERNAL_STATE, HPE_STRICT, HPE_PAUSED, HPE_UNKNOWN]"

definition http_strerror_tab :: "(http_errno \<times> string \<times> string) list" where
  "http_strerror_tab =
   [(HPE_OK, ''HPE_OK'', ''success''),
    (HPE_CB_message_begin, ''HPE_CB_message_begin'', ''the on_message_begin callback failed''),
    (HPE_CB_url, ''HPE_CB_url'', ''the on_url callback failed''),
    (HPE_CB_header_field, ''HPE_CB_header_field'', ''the on_header_field callback failed''),
    (HPE_CB_header_value, ''HPE_CB_header_value'', ''the on_header_value callback failed''),
    (HPE_CB_headers_complete, ''HPE_CB_headers_complete'', ''the on_headers_complete callback failed''),
    (HPE_CB_body, ''HPE_CB_body'', ''the on_body callback failed''),
    (HPE_CB_message_complete, ''HPE_CB_message_complete'', ''the on_message_complete callback failed''),
    (HPE_CB_status, ''HPE_CB_status'', ''the on_status callback failed''),
    (HPE_CB_chunk_header, ''HPE_CB_chunk_header'', ''the on_chunk_header callback failed''),
    (HPE_CB_chunk_complete, ''HPE_CB_chunk_complete'', ''the on_chunk_complete callback failed''),
    (HPE_INVALID_EOF_STATE, ''HPE_INVALID_EOF_STATE'', ''stream ended at an unexpected time''),
    (HPE_HEADER_OVERFLOW, ''HPE_HEADER_OVERFLOW'', ''too many header bytes seen; overflow detected''),
    (HPE_CLOSED_CONNECTION, ''HPE_CLOSED_CONNECTION'', ''data received after completed connection: close message''),
    (HPE_INVALID_VERSION, ''HPE_INVALID_VERSION'', ''invalid HTTP version''),
    (HPE_INVALID_STATUS, ''HPE_INVALID_STATUS'', ''invalid HTTP status code''),
    (HPE_INVALID_METHOD, ''HPE_INVALID_METHOD'', ''invalid HTTP method''),
    (HPE_INVALID_URL, ''HPE_INVALID_URL'', ''invalid URL''),
    (HPE_INVALID_HOST, ''HPE_INVALID_HOST'', ''invalid host''),
    (HPE_INVALID_PORT, ''HPE_INVALID_PORT'', ''invalid port''),
    (HPE_INVALID_PATH, ''HPE_INVALID_PATH'', ''invalid path''),
    (HPE_INVALID_QUERY_STRING, ''HPE_INVALID_QUERY_STRING'', ''invalid query string''),
    (HPE_INVALID_FRAGMENT, ''HPE_INVALID_FRAGMENT'', ''invalid fragment''),
    (HPE_LF_EXPECTED, ''HPE_LF_EXPECTED'', ''LF character expected''),
    (HPE_INVALID_HEADER_TOKEN, ''HPE_INVALID_HEADER_TOKEN'', ''invalid character in header''),
    (HPE_INVALID_CONTENT_LENGTH, ''HPE_INVALID_CONTENT_LENGTH'', ''invalid character in content-length header''),
    (HPE_UNEXPECTED_CONTENT_LENGTH, ''HPE_UNEXPECTED_CONTENT_LENGTH'', ''unexpected content-length header''),
    (HPE_INVALID_CHUNK_SIZE, ''HPE_INVALID_CHUNK_SIZE'', ''invalid character in chunk size header''),
    (HPE_INVALID_CONSTANT, ''HPE_INVALID_CONSTANT'', ''invalid constant string''),
    (HPE_INVALID_INTERNAL_STATE, ''HPE_INVALID_INTERNAL_STATE'', ''encountered unexpected internal state''),
    (HPE_STRICT, ''HPE_STRICT'', ''strict mode assertion failed''),
    (HPE_PAUSED, ''HPE_PAUSED'', ''parser is paused''),
    (HPE_UNKNOWN, ''HPE_UNKNOWN'', ''an unknown error occurred'')]"

section \<open>Flags\<close>

definition F_CHUNKED :: byte where "F_CHUNKED = 1"
definition F_CONNECTION_KEEP_ALIVE :: byte where "F_CONNECTION_KEEP_ALIVE = 2"
definition F_CONNECTION_CLOSE :: byte where "F_CONNECTION_CLOSE = 4"
definition F_CONNECTION_UPGRADE :: byte where "F_CONNECTION_UPGRADE = 8"
definition F_TRAILING :: byte where "F_TRAILING = 16"
definition F_UPGRADE :: byte where "F_UPGRADE = 32"
definition F_SKIPBODY :: byte where "F_SKIPBODY = 64"
definition F_CONTENTLENGTH :: byte where "F_CONTENTLENGTH = 128"

section \<open>States\<close>

datatype (plugins only: code size) state =
    s_dead | s_start_req_or_res | s_res_or_resp_H | s_start_res | s_res_H | s_res_HT | s_res_HTT
   | s_res_HTTP | s_res_http_major | s_res_http_dot | s_res_http_minor | s_res_http_end
   | s_res_first_status_code | s_res_status_code | s_res_status_start | s_res_status
   | s_res_line_almost_done | s_start_req | s_req_method | s_req_spaces_before_url | s_req_schema
   | s_req_schema_slash | s_req_schema_slash_slash | s_req_server_start | s_req_server
   | s_req_server_with_at | s_req_path | s_req_query_string_start | s_req_query_string
   | s_req_fragment_start | s_req_fragment | s_req_http_start | s_req_http_H | s_req_http_HT
   | s_req_http_HTT | s_req_http_HTTP | s_req_http_I | s_req_http_IC | s_req_http_major
   | s_req_http_dot | s_req_http_minor | s_req_http_end | s_req_line_almost_done
   | s_header_field_start | s_header_field | s_header_value_discard_ws
   | s_header_value_discard_ws_almost_done | s_header_value_discard_lws | s_header_value_start
   | s_header_value | s_header_value_lws | s_header_almost_done | s_chunk_size_start
   | s_chunk_size | s_chunk_parameters | s_chunk_size_almost_done | s_headers_almost_done
   | s_headers_done | s_chunk_data | s_chunk_data_almost_done | s_chunk_data_done
   | s_body_identity | s_body_identity_eof | s_message_done

datatype (plugins only: code size) header_state =
    h_general | h_C | h_CO | h_CON | h_matching_connection | h_matching_proxy_connection
   | h_matching_content_length | h_matching_transfer_encoding | h_matching_upgrade | h_connection
   | h_content_length | h_content_length_num | h_content_length_ws | h_transfer_encoding
   | h_upgrade | h_matching_transfer_encoding_chunked | h_matching_connection_token_start
   | h_matching_connection_keep_alive | h_matching_connection_close
   | h_matching_connection_upgrade | h_matching_connection_token | h_transfer_encoding_chunked
   | h_connection_keep_alive | h_connection_close | h_connection_upgrade

datatype http_host_state =
    s_http_host_dead | s_http_userinfo_start | s_http_userinfo | s_http_host_start
   | s_http_host_v6_start | s_http_host | s_http_host_v6 | s_http_host_v6_end
   | s_http_host_v6_zone_start | s_http_host_v6_zone | s_http_host_port_start | s_http_host_port

text \<open>The states after \<open>s_headers_done\<close> in the enumeration are the body states.\<close>

definition body_states :: "state list" where
  "body_states = [s_chunk_data, s_chunk_data_almost_done, s_chunk_data_done, s_body_identity,
     s_body_identity_eof, s_message_done]"

definition PARSING_HEADER :: "state \<Rightarrow> bool" where
  "PARSING_HEADER s \<longleftrightarrow> s \<notin> set body_states"

section \<open>The parser object and the callbacks\<close>

datatype http_parser_type = HTTP_REQUEST | HTTP_RESPONSE | HTTP_BOTH

record 'd http_parser =
  hp_type :: http_parser_type
  hp_flags :: byte
  hp_state :: state
  hp_header_state :: header_state
  hp_index :: "7 word"
  hp_lenient :: bool
  hp_nread :: u32
  hp_content_length :: u64
  hp_major :: u16
  hp_minor :: u16
  hp_status_code :: u16
  hp_method :: http_method
  hp_errno :: http_errno
  hp_upgrade :: bool
  hp_data :: 'd

type_synonym 'd http_cb = "'d http_parser \<Rightarrow> int \<times> 'd http_parser"
type_synonym 'd http_data_cb = "string \<Rightarrow> 'd http_cb"

record 'd http_parser_settings =
  on_message_begin :: "'d http_cb option"
  on_url :: "'d http_data_cb option"
  on_status :: "'d http_data_cb option"
  on_header_field :: "'d http_data_cb option"
  on_header_value :: "'d http_data_cb option"
  on_headers_complete :: "'d http_cb option"
  on_body :: "'d http_data_cb option"
  on_message_complete :: "'d http_cb option"
  on_chunk_header :: "'d http_cb option"
  on_chunk_complete :: "'d http_cb option"

definition http_parser_settings_init :: "'d http_parser_settings" where
  "http_parser_settings_init =
     \<lparr>on_message_begin = None, on_url = None, on_status = None, on_header_field = None,
      on_header_value = None, on_headers_complete = None, on_body = None,
      on_message_complete = None, on_chunk_header = None, on_chunk_complete = None\<rparr>"

definition HTTP_MAX_HEADER_SIZE :: u32 where
  "HTTP_MAX_HEADER_SIZE = 80 * 1024"

definition ULLONG_MAX :: u64 where
  "ULLONG_MAX = - 1"

definition has_flag :: "byte \<Rightarrow> 'd http_parser \<Rightarrow> bool" where
  "has_flag f p \<longleftrightarrow> hp_flags p AND f \<noteq> 0"

definition set_flag :: "byte \<Rightarrow> 'd http_parser \<Rightarrow> 'd http_parser" where
  "set_flag f p = p\<lparr>hp_flags := hp_flags p OR f\<rparr>"

section \<open>The small functions of the library\<close>

definition http_parser_init :: "http_parser_type \<Rightarrow> 'd \<Rightarrow> 'd http_parser" where
  "http_parser_init t d =
     \<lparr>hp_type = t, hp_flags = 0,
      hp_state = (if t = HTTP_REQUEST then s_start_req
                  else if t = HTTP_RESPONSE then s_start_res else s_start_req_or_res),
      hp_header_state = h_general, hp_index = 0, hp_lenient = False, hp_nread = 0,
      hp_content_length = 0, hp_major = 0, hp_minor = 0, hp_status_code = 0,
      hp_method = HTTP_DELETE, hp_errno = HPE_OK, hp_upgrade = False, hp_data = d\<rparr>"

definition http_message_needs_eof :: "'d http_parser \<Rightarrow> bool" where
  "http_message_needs_eof p =
     (if hp_type p = HTTP_REQUEST then False
      else if hp_status_code p div 100 = 1 \<or> hp_status_code p = 204 \<or> hp_status_code p = 304 \<or>
              has_flag F_SKIPBODY p then False
      else if has_flag F_CHUNKED p \<or> hp_content_length p \<noteq> ULLONG_MAX then False
      else True)"

definition http_should_keep_alive :: "'d http_parser \<Rightarrow> bool" where
  "http_should_keep_alive p =
     (if hp_major p > 0 \<and> hp_minor p > 0
      then if has_flag F_CONNECTION_CLOSE p then False else \<not> http_message_needs_eof p
      else if \<not> has_flag F_CONNECTION_KEEP_ALIVE p then False else \<not> http_message_needs_eof p)"

definition http_method_str :: "nat \<Rightarrow> string" where
  "http_method_str m = (if m < length method_strings then method_strings ! m else ''<unknown>'')"

definition http_status_str :: "nat \<Rightarrow> string" where
  "http_status_str s = (case map_of http_status_map s of Some str \<Rightarrow> str | None \<Rightarrow> ''<unknown>'')"

definition http_errno_name :: "http_errno \<Rightarrow> string" where
  "http_errno_name err = fst (the (map_of http_strerror_tab err))"

definition http_errno_description :: "http_errno \<Rightarrow> string" where
  "http_errno_description err = snd (the (map_of http_strerror_tab err))"

text \<open>\<open>None\<close> is the failed assertion of a parser that is already in another error state.\<close>

definition http_parser_pause :: "bool \<Rightarrow> 'd http_parser \<Rightarrow> 'd http_parser option" where
  "http_parser_pause paused p =
     (if hp_errno p = HPE_OK \<or> hp_errno p = HPE_PAUSED
      then Some (p\<lparr>hp_errno := (if paused then HPE_PAUSED else HPE_OK)\<rparr>)
      else None)"

definition http_body_is_final :: "'d http_parser \<Rightarrow> bool" where
  "http_body_is_final p \<longleftrightarrow> hp_state p = s_message_done"

definition http_parser_version :: u64 where
  "http_parser_version = (2 * 0x10000 OR 9 * 0x00100) OR 2 * 0x00001"

end
