(* ===== verification/HttpChars.thy ===== *)
theory HttpChars
  imports HttpDefs "HOL-Library.Code_Target_Nat"
begin

text \<open>
  The character tables and classes of \<open>http_parser.c\<close>, in strict mode
  (\<open>HTTP_PARSER_STRICT\<close> is 1 unless the build overrides it). The tables are written row by
  row as in the source; entries the source leaves out are zero, as C initialises them. The second
  half characterises each table by the set of characters it stands for.
\<close>

abbreviation CR :: char where "CR \<equiv> CHR 0x0D"
abbreviation LF :: char where "LF \<equiv> CHR 0x0A"
abbreviation TAB :: char where "TAB \<equiv> CHR 0x09"
abbreviation FF :: char where "FF \<equiv> CHR 0x0C"
abbreviation NUL :: char where "NUL \<equiv> CHR 0x00"
abbreviation SP :: char where "SP \<equiv> CHR '' ''"
abbreviation SQ :: char where "SQ \<equiv> CHR 0x27"

section \<open>Tables\<close>

definition tokens :: string where
  "tokens =
     replicate 32 NUL @
     [SP, CHR ''!'', NUL, CHR ''#'', CHR ''$'', CHR ''%'', CHR ''&'', SQ] @
     [NUL, NUL, CHR ''*'', CHR ''+'', NUL, CHR ''-'', CHR ''.'', NUL] @
     ''01234567'' @
     ''89'' @ replicate 6 NUL @
     [NUL] @ ''abcdefg'' @
     ''hijklmno'' @
     ''pqrstuvw'' @
     ''xyz'' @ [NUL, NUL, NUL, CHR ''^'', CHR ''_''] @
     [CHR 0x60] @ ''abcdefg'' @
     ''hijklmno'' @
     ''pqrstuvw'' @
     ''xyz'' @ [NUL, CHR ''|'', NUL, CHR ''~'', NUL] @
     replicate 128 NUL"

definition unhex :: "int list" where
  "unhex =
     replicate 48 (- 1) @
     [0, 1, 2, 3, 4, 5, 6, 7, 8, 9] @ replicate 6 (- 1) @
     [- 1, 10, 11, 12, 13, 14, 15] @ replicate 9 (- 1) @
     replicate 16 (- 1) @
     [- 1, 10, 11, 12, 13, 14, 15] @ replicate 9 (- 1) @
     replicate 16 (- 1) @
     replicate 128 0"

definition normal_url_char :: "nat list" where
  "normal_url_char =
     [0, 0, 0, 0,
      2 + 4 + 16 + 32 + 64 + 128,
      1 + 2 + 4 + 8 + 16 + 32 + 64 + 128,
      1 + 2 + 4 + 8 + 16 + 32 + 64 + 128,
      1 + 2 + 4 + 8 + 16 + 32 + 64,
      1 + 2 + 4 + 8 + 16 + 32 + 64 + 128,
      1 + 2 + 4 + 8 + 16 + 32 + 64 + 128,
      1 + 2 + 4 + 8 + 16 + 32 + 64 + 128,
      1 + 2 + 4 + 8 + 16 + 32 + 64 + 128,
      1 + 2 + 4 + 8 + 16 + 32 + 64 + 128,
      1 + 2 + 4 + 8 + 16 + 32 + 64 + 128,
      1 + 2 + 4 + 8 + 16 + 32 + 64 + 128,
      1 + 2 + 4 + 8 + 16 + 32 + 64] @ replicate 16 0"

section \<open>Character classes\<close>

definition ord_of :: "char \<Rightarrow> nat" where
  "ord_of c = of_char c"

definition LOWER :: "char \<Rightarrow> char" where
  "LOWER c = char_of (ord_of c OR 0x20)"

definition in_range :: "char \<Rightarrow> char \<Rightarrow> char \<Rightarrow> bool" where
  "in_range lo hi c \<longleftrightarrow> ord_of lo \<le> ord_of c \<and> ord_of c \<le> ord_of hi"

definition IS_ALPHA :: "char \<Rightarrow> bool" where
  "IS_ALPHA c \<longleftrightarrow> in_range (CHR ''a'') (CHR ''z'') (LOWER c)"

definition IS_NUM :: "char \<Rightarrow> bool" where
  "IS_NUM c \<longleftrightarrow> in_range (CHR ''0'') (CHR ''9'') c"

definition IS_ALPHANUM :: "char \<Rightarrow> bool" where
  "IS_ALPHANUM c \<longleftrightarrow> IS_ALPHA c \<or> IS_NUM c"

definition IS_HEX :: "char \<Rightarrow> bool" where
  "IS_HEX c \<longleftrightarrow> IS_NUM c \<or> in_range (CHR ''a'') (CHR ''f'') (LOWER c)"

definition IS_MARK :: "char \<Rightarrow> bool" where
  "IS_MARK c \<longleftrightarrow> c = CHR ''-'' \<or> c = CHR ''_'' \<or> c = CHR ''.'' \<or> c = CHR ''!'' \<or> c = CHR ''~'' \<or>
     c = CHR ''*'' \<or> c = SQ \<or> c = CHR ''('' \<or> c = CHR '')''"

definition IS_USERINFO_CHAR :: "char \<Rightarrow> bool" where
  "IS_USERINFO_CHAR c \<longleftrightarrow> IS_ALPHANUM c \<or> IS_MARK c \<or> c = CHR ''%'' \<or> c = CHR '';'' \<or> c = CHR '':'' \<or>
     c = CHR ''&'' \<or> c = CHR ''='' \<or> c = CHR ''+'' \<or> c = CHR ''$'' \<or> c = CHR '',''"

definition STRICT_TOKEN :: "char \<Rightarrow> char" where
  "STRICT_TOKEN c = (if c = SP then NUL else tokens ! ord_of c)"

definition TOKEN :: "char \<Rightarrow> char" where
  "TOKEN c = STRICT_TOKEN c"

definition BIT_AT :: "nat list \<Rightarrow> nat \<Rightarrow> bool" where
  "BIT_AT a i \<longleftrightarrow> bit (a ! (i div 8)) (i mod 8)"

definition IS_URL_CHAR :: "char \<Rightarrow> bool" where
  "IS_URL_CHAR c \<longleftrightarrow> BIT_AT normal_url_char (ord_of c)"

definition IS_HOST_CHAR :: "char \<Rightarrow> bool" where
  "IS_HOST_CHAR c \<longleftrightarrow> IS_ALPHANUM c \<or> c = CHR ''.'' \<or> c = CHR ''-''"

definition IS_HEADER_CHAR :: "char \<Rightarrow> bool" where
  "IS_HEADER_CHAR c \<longleftrightarrow> c = CR \<or> c = LF \<or> c = TAB \<or> (ord_of c > 31 \<and> ord_of c \<noteq> 127)"

definition unhex_val :: "char \<Rightarrow> int" where
  "unhex_val c = unhex ! ord_of c"

definition digit_val :: "char \<Rightarrow> nat" where
  "digit_val c = ord_of c - 48"

section \<open>What the tables mean\<close>

lemma ord_of_less: "ord_of c < 256"
  by (simp add: ord_of_def)

lemma ord_of_inj: "ord_of c = ord_of d \<longleftrightarrow> c = d"
  by (simp add: ord_of_def)

text \<open>
  A table is checked against its meaning entry by entry: the \<open>i\<close>-th entry belongs to the
  \<open>i\<close>-th character.
\<close>

abbreviation all_chars :: string where "all_chars \<equiv> map char_of [0..<256 :: nat]"

lemma table_lookup:
  assumes "list_all2 P all_chars t"
  shows "P c (t ! ord_of c)"
proof -
  have "ord_of c < length all_chars" using ord_of_less[of c] by simp
  then have "P (all_chars ! ord_of c) (t ! ord_of c)" by (rule list_all2_nthD[OF assms])
  moreover have "all_chars ! ord_of c = c" using ord_of_less[of c] by (simp add: ord_of_def)
  ultimately show ?thesis by simp
qed

lemma all_charsD: "list_all P all_chars \<Longrightarrow> P c"
proof -
  assume "list_all P all_chars"
  moreover have "c = char_of (ord_of c)" "ord_of c \<in> set [0..<256]"
    using ord_of_less[of c] by (simp_all add: ord_of_def)
  ultimately show "P c" unfolding list_all_iff set_map by (metis imageI)
qed

lemma bit_table_lookup:
  assumes "length t = 32"
    and "list_all (\<lambda>(j, b). list_all (\<lambda>k. bit b k = Q (char_of (8 * j + k))) [0..<8]) (zip [0..<32] t)"
  shows "BIT_AT t (ord_of c) = Q c"
proof -
  let ?j = "ord_of c div 8" and ?k = "ord_of c mod 8"
  have "?j < 32" using ord_of_less[of c] by auto
  then have "(?j, t ! ?j) \<in> set (zip [0..<32] t)"
    using assms(1) by (auto simp: in_set_zip intro!: exI[of _ ?j])
  then have "bit (t ! ?j) ?k = Q (char_of (8 * ?j + ?k))"
    using assms(2) by (auto simp: list_all_iff)
  then show ?thesis by (simp add: BIT_AT_def ord_of_def)
qed

lemma IS_NUM_iff: "IS_NUM c \<longleftrightarrow> 48 \<le> ord_of c \<and> ord_of c \<le> 57"
  by (simp add: IS_NUM_def in_range_def ord_of_def)

definition is_token :: "char \<Rightarrow> bool" where
  "is_token c \<longleftrightarrow> 32 < ord_of c \<and> ord_of c < 127 \<and> c \<notin> set ''()<>@,;:/[]?={}'' \<and>
     c \<noteq> CHR 0x22 \<and> c \<noteq> CHR 0x5C"

definition lower_case :: "char \<Rightarrow> char" where
  "lower_case c = (if in_range (CHR ''A'') (CHR ''Z'') c then LOWER c else c)"

lemma tokens_table:
  "list_all2 (\<lambda>c t. t = (if c = SP then SP else if is_token c then lower_case c else NUL)) all_chars tokens"
  by code_simp

lemma TOKEN_eq: "TOKEN c = (if is_token c then lower_case c else NUL)"
  using table_lookup[OF tokens_table, of c]
  by (simp add: TOKEN_def STRICT_TOKEN_def is_token_def ord_of_def)

lemma lower_case_not_NUL: "is_token c \<Longrightarrow> lower_case c \<noteq> NUL"
proof -
  have "list_all (\<lambda>c. is_token c \<longrightarrow> lower_case c \<noteq> NUL) all_chars" by code_simp
  then show "is_token c \<Longrightarrow> lower_case c \<noteq> NUL"
    using all_charsD[of "\<lambda>c. is_token c \<longrightarrow> lower_case c \<noteq> NUL" c] by blast
qed

lemma TOKEN_iff: "TOKEN c \<noteq> NUL \<longleftrightarrow> is_token c"
  by (simp add: TOKEN_eq lower_case_not_NUL)

lemma unhex_table:
  "list_all2 (\<lambda>c v. v = (if 128 \<le> ord_of c then 0
        else if IS_NUM c then int (ord_of c) - 48
        else if in_range (CHR ''a'') (CHR ''f'') (LOWER c) then int (ord_of (LOWER c)) - 87
        else - 1)) all_chars unhex"
  by code_simp

lemmas unhex_val_eq = unhex_table[THEN table_lookup, folded unhex_val_def]

lemma IS_URL_CHAR_iff:
  "IS_URL_CHAR c \<longleftrightarrow> 32 < ord_of c \<and> ord_of c < 127 \<and> c \<noteq> CHR ''#'' \<and> c \<noteq> CHR ''?''"
  unfolding IS_URL_CHAR_def by (rule bit_table_lookup) code_simp+

end
