(* ===== verification/HttpUrl.thy ===== *)
theory HttpUrl
  imports HttpChars
begin

text \<open>
  The URL parser of \<open>http_parser.c\<close>: the transition function shared with the message parser,
  the host parser and \<open>http_parser_parse_url\<close>. Offsets and lengths are 16-bit, as in
  \<open>struct http_parser_url\<close>; a position in the buffer is a natural number that is truncated
  where the source casts it. A failed \<open>assert\<close> is the result \<open>Url_abort\<close>.
\<close>

section \<open>Transitions\<close>

definition parse_url_char :: "state \<Rightarrow> char \<Rightarrow> state" where
  "parse_url_char s ch =
     (if ch = SP \<or> ch = CR \<or> ch = LF then s_dead
      else if ch = TAB \<or> ch = FF then s_dead
      else case s of
        s_req_spaces_before_url \<Rightarrow>
          if ch = CHR ''/'' \<or> ch = CHR ''*'' then s_req_path
          else if IS_ALPHA ch then s_req_schema else s_dead
      | s_req_schema \<Rightarrow>
          if IS_ALPHA ch then s
          else if ch = CHR '':'' then s_req_schema_slash else s_dead
      | s_req_schema_slash \<Rightarrow> if ch = CHR ''/'' then s_req_schema_slash_slash else s_dead
      | s_req_schema_slash_slash \<Rightarrow> if ch = CHR ''/'' then s_req_server_start else s_dead
      | s_req_server_with_at \<Rightarrow>
          if ch = CHR ''@'' then s_dead
          else if ch = CHR ''/'' then s_req_path
          else if ch = CHR ''?'' then s_req_query_string_start
          else if IS_USERINFO_CHAR ch \<or> ch = CHR ''['' \<or> ch = CHR '']'' then s_req_server else s_dead
      | s_req_server_start \<Rightarrow>
          if ch = CHR ''/'' then s_req_path
          else if ch = CHR ''?'' then s_req_query_string_start
          else if ch = CHR ''@'' then s_req_server_with_at
          else if IS_USERINFO_CHAR ch \<or> ch = CHR ''['' \<or> ch = CHR '']'' then s_req_server else s_dead
      | s_req_server \<Rightarrow>
          if ch = CHR ''/'' then s_req_path
          else if ch = CHR ''?'' then s_req_query_string_start
          else if ch = CHR ''@'' then s_req_server_with_at
          else if IS_USERINFO_CHAR ch \<or> ch = CHR ''['' \<or> ch = CHR '']'' then s_req_server else s_dead
      | s_req_path \<Rightarrow>
          if IS_URL_CHAR ch then s
          else if ch = CHR ''?'' then s_req_query_string_start
          else if ch = CHR ''#'' then s_req_fragment_start else s_dead
      | s_req_query_string_start \<Rightarrow>
          if IS_URL_CHAR ch then s_req_query_string
          else if ch = CHR ''?'' then s_req_query_string
          else if ch = CHR ''#'' then s_req_fragment_start else s_dead
      | s_req_query_string \<Rightarrow>
          if IS_URL_CHAR ch then s_req_query_string
          else if ch = CHR ''?'' then s_req_query_string
          else if ch = CHR ''#'' then s_req_fragment_start else s_dead
      | s_req_fragment_start \<Rightarrow>
          if IS_URL_CHAR ch then s_req_fragment
          else if ch = CHR ''?'' then s_req_fragment
          else if ch = CHR ''#'' then s else s_dead
      | s_req_fragment \<Rightarrow>
          if IS_URL_CHAR ch then s
          else if ch = CHR ''?'' \<or> ch = CHR ''#'' then s else s_dead
      | _ \<Rightarrow> s_dead)"

section \<open>The result structure\<close>

datatype url_field =
  UF_SCHEMA | UF_HOST | UF_PORT | UF_PATH | UF_QUERY | UF_FRAGMENT | UF_USERINFO | UF_MAX

primrec uf_num :: "url_field \<Rightarrow> nat" where
  "uf_num UF_SCHEMA = 0"
| "uf_num UF_HOST = 1"
| "uf_num UF_PORT = 2"
| "uf_num UF_PATH = 3"
| "uf_num UF_QUERY = 4"
| "uf_num UF_FRAGMENT = 5"
| "uf_num UF_USERINFO = 6"
| "uf_num UF_MAX = 7"

record field_run =
  fr_off :: u16
  fr_len :: u16

record http_parser_url =
  field_set :: u16
  port :: u16
  field_data :: "url_field \<Rightarrow> field_run"

definition http_parser_url_init :: http_parser_url where
  "http_parser_url_init =
     \<lparr>field_set = 0, port = 0, field_data = (\<lambda>_. \<lparr>fr_off = 0, fr_len = 0\<rparr>)\<rparr>"

definition has_field :: "http_parser_url \<Rightarrow> url_field \<Rightarrow> bool" where
  "has_field u f \<longleftrightarrow> bit (field_set u) (uf_num f)"

definition add_field :: "url_field \<Rightarrow> http_parser_url \<Rightarrow> http_parser_url" where
  "add_field f u = u\<lparr>field_set := field_set u OR push_bit (uf_num f) 1\<rparr>"

definition set_run :: "url_field \<Rightarrow> u16 \<Rightarrow> u16 \<Rightarrow> http_parser_url \<Rightarrow> http_parser_url" where
  "set_run f o' l u = u\<lparr>field_data := (field_data u)(f := \<lparr>fr_off = o', fr_len = l\<rparr>)\<rparr>"

definition grow_run :: "url_field \<Rightarrow> http_parser_url \<Rightarrow> http_parser_url" where
  "grow_run f u = set_run f (fr_off (field_data u f)) (fr_len (field_data u f) + 1) u"

datatype url_result = Url_ok http_parser_url | Url_fail http_parser_url | Url_abort

section \<open>The host part\<close>

definition http_parse_host_char :: "http_host_state \<Rightarrow> char \<Rightarrow> http_host_state" where
  "http_parse_host_char s ch =
     (case s of
        s_http_userinfo \<Rightarrow>
          if ch = CHR ''@'' then s_http_host_start
          else if IS_USERINFO_CHAR ch then s_http_userinfo else s_http_host_dead
      | s_http_userinfo_start \<Rightarrow>
          if ch = CHR ''@'' then s_http_host_start
          else if IS_USERINFO_CHAR ch then s_http_userinfo else s_http_host_dead
      | s_http_host_start \<Rightarrow>
          if ch = CHR ''['' then s_http_host_v6_start
          else if IS_HOST_CHAR ch then s_http_host else s_http_host_dead
      | s_http_host \<Rightarrow>
          if IS_HOST_CHAR ch then s_http_host
          else if ch = CHR '':'' then s_http_host_port_start else s_http_host_dead
      | s_http_host_v6_end \<Rightarrow>
          if ch = CHR '':'' then s_http_host_port_start else s_http_host_dead
      | s_http_host_v6 \<Rightarrow>
          if ch = CHR '']'' then s_http_host_v6_end
          else if IS_HEX ch \<or> ch = CHR '':'' \<or> ch = CHR ''.'' then s_http_host_v6
          else if ch = CHR ''%'' then s_http_host_v6_zone_start else s_http_host_dead
      | s_http_host_v6_start \<Rightarrow>
          if IS_HEX ch \<or> ch = CHR '':'' \<or> ch = CHR ''.'' then s_http_host_v6 else s_http_host_dead
      | s_http_host_v6_zone \<Rightarrow>
          if ch = CHR '']'' then s_http_host_v6_end
          else if IS_ALPHANUM ch \<or> ch = CHR ''%'' \<or> ch = CHR ''.'' \<or> ch = CHR ''-'' \<or> ch = CHR ''_'' \<or>
                  ch = CHR ''~'' then s_http_host_v6_zone else s_http_host_dead
      | s_http_host_v6_zone_start \<Rightarrow>
          if IS_ALPHANUM ch \<or> ch = CHR ''%'' \<or> ch = CHR ''.'' \<or> ch = CHR ''-'' \<or> ch = CHR ''_'' \<or>
             ch = CHR ''~'' then s_http_host_v6_zone else s_http_host_dead
      | s_http_host_port \<Rightarrow> if IS_NUM ch then s_http_host_port else s_http_host_dead
      | s_http_host_port_start \<Rightarrow> if IS_NUM ch then s_http_host_port else s_http_host_dead
      | s_http_host_dead \<Rightarrow> s_http_host_dead)"

text \<open>What one accepted character does to the structure; \<open>p\<close> is its position.\<close>

definition host_update ::
  "http_host_state \<Rightarrow> http_host_state \<Rightarrow> nat \<Rightarrow> http_parser_url \<Rightarrow> http_parser_url" where
  "host_update s new_s p u =
     (case new_s of
        s_http_host \<Rightarrow>
          grow_run UF_HOST
            (if s \<noteq> s_http_host then set_run UF_HOST (of_nat p) (fr_len (field_data u UF_HOST)) u else u)
      | s_http_host_v6 \<Rightarrow>
          grow_run UF_HOST
            (if s \<noteq> s_http_host_v6 then set_run UF_HOST (of_nat p) (fr_len (field_data u UF_HOST)) u else u)
      | s_http_host_v6_zone_start \<Rightarrow> grow_run UF_HOST u
      | s_http_host_v6_zone \<Rightarrow> grow_run UF_HOST u
      | s_http_host_port \<Rightarrow>
          grow_run UF_PORT
            (if s \<noteq> s_http_host_port then add_field UF_PORT (set_run UF_PORT (of_nat p) 0 u) else u)
      | s_http_userinfo \<Rightarrow>
          grow_run UF_USERINFO
            (if s \<noteq> s_http_userinfo then add_field UF_USERINFO (set_run UF_USERINFO (of_nat p) 0 u) else u)
      | _ \<Rightarrow> u)"

fun host_loop ::
  "nat \<Rightarrow> string \<Rightarrow> http_host_state \<Rightarrow> http_parser_url \<Rightarrow> (http_host_state \<times> http_parser_url) option \<times> http_parser_url" where
  "host_loop p [] s u = (Some (s, u), u)"
| "host_loop p (c # cs) s u =
     (let new_s = http_parse_host_char s c in
      if new_s = s_http_host_dead then (None, u)
      else host_loop (Suc p) cs new_s (host_update s new_s p u))"

definition host_final_bad :: "http_host_state \<Rightarrow> bool" where
  "host_final_bad s \<longleftrightarrow> s \<in> {s_http_host_start, s_http_host_v6_start, s_http_host_v6,
     s_http_host_v6_zone_start, s_http_host_v6_zone, s_http_host_port_start, s_http_userinfo,
     s_http_userinfo_start}"

definition http_parse_host :: "string \<Rightarrow> http_parser_url \<Rightarrow> bool \<Rightarrow> url_result" where
  "http_parse_host buf u found_at =
     (if \<not> has_field u UF_HOST then Url_abort
      else let o' = unat (fr_off (field_data u UF_HOST)); l = unat (fr_len (field_data u UF_HOST));
               u1 = set_run UF_HOST (fr_off (field_data u UF_HOST)) 0 u;
               s0 = (if found_at then s_http_userinfo_start else s_http_host_start) in
        case host_loop o' (take l (drop o' buf)) s0 u1 of
          (None, u2) \<Rightarrow> Url_fail u2
        | (Some (s, u2), _) \<Rightarrow> if host_final_bad s then Url_fail u2 else Url_ok u2)"

section \<open>The whole URL\<close>

definition field_of_state :: "state \<Rightarrow> url_field option" where
  "field_of_state s =
     (case s of
        s_req_schema \<Rightarrow> Some UF_SCHEMA
      | s_req_server_with_at \<Rightarrow> Some UF_HOST
      | s_req_server \<Rightarrow> Some UF_HOST
      | s_req_path \<Rightarrow> Some UF_PATH
      | s_req_query_string \<Rightarrow> Some UF_QUERY
      | s_req_fragment \<Rightarrow> Some UF_FRAGMENT
      | _ \<Rightarrow> None)"

definition is_delimiter_state :: "state \<Rightarrow> bool" where
  "is_delimiter_state s \<longleftrightarrow> s \<in> {s_req_schema_slash, s_req_schema_slash_slash, s_req_server_start,
     s_req_query_string_start, s_req_fragment_start}"

datatype url_scan = Scan_ok bool http_parser_url | Scan_fail http_parser_url | Scan_abort

fun url_loop ::
  "nat \<Rightarrow> string \<Rightarrow> state \<Rightarrow> url_field \<Rightarrow> bool \<Rightarrow> http_parser_url \<Rightarrow> url_scan" where
  "url_loop p [] s old_uf found_at u = Scan_ok found_at u"
| "url_loop p (c # cs) s0 old_uf found_at0 u =
     (let s = parse_url_char s0 c in
      if s = s_dead then Scan_fail u
      else if is_delimiter_state s then url_loop (Suc p) cs s old_uf found_at0 u
      else let found_at = (found_at0 \<or> s = s_req_server_with_at) in
        case field_of_state s of
          None \<Rightarrow> Scan_abort
        | Some uf \<Rightarrow>
            if uf = old_uf then url_loop (Suc p) cs s old_uf found_at (grow_run uf u)
            else url_loop (Suc p) cs s uf found_at (add_field uf (set_run uf (of_nat p) 1 u)))"

text \<open>
  \<open>*p - '0'\<close> is an \<open>int\<close> (\<open>char\<close> is signed) that is added to an \<open>unsigned long\<close>. The result is
  \<open>None\<close> when a prefix exceeds \<open>0xffff\<close>.
\<close>

definition char_minus_zero :: "char \<Rightarrow> int" where
  "char_minus_zero c = (if ord_of c < 128 then int (ord_of c) else int (ord_of c) - 256) - 48"

fun port_loop :: "string \<Rightarrow> u64 \<Rightarrow> u64 option" where
  "port_loop [] v = Some v"
| "port_loop (c # cs) v =
     (let v' = v * 10 + word_of_int (char_minus_zero c) in if v' > 0xffff then None else port_loop cs v')"

definition parse_port :: "string \<Rightarrow> http_parser_url \<Rightarrow> url_result" where
  "parse_port buf u =
     (if \<not> has_field u UF_PORT then Url_ok u
      else let o' = unat (fr_off (field_data u UF_PORT)); l = unat (fr_len (field_data u UF_PORT)) in
        if o' + l > length buf then Url_abort
        else case port_loop (take l (drop o' buf)) 0 of
               None \<Rightarrow> Url_fail u
             | Some v \<Rightarrow> Url_ok (u\<lparr>port := ucast v\<rparr>))"

definition http_parser_parse_url :: "string \<Rightarrow> bool \<Rightarrow> http_parser_url \<Rightarrow> url_result" where
  "http_parser_parse_url buf is_connect u0 =
     (if buf = [] then Url_fail u0
      else let s = (if is_connect then s_req_server_start else s_req_spaces_before_url) in
        case url_loop 0 buf s UF_MAX False (u0\<lparr>port := 0, field_set := 0\<rparr>) of
          Scan_fail u \<Rightarrow> Url_fail u
        | Scan_abort \<Rightarrow> Url_abort
        | Scan_ok found_at u \<Rightarrow>
            if has_field u UF_SCHEMA \<and> \<not> has_field u UF_HOST then Url_fail u
            else case (if has_field u UF_HOST then http_parse_host buf u found_at else Url_ok u) of
              Url_fail u \<Rightarrow> Url_fail u
            | Url_abort \<Rightarrow> Url_abort
            | Url_ok u \<Rightarrow>
                if is_connect \<and> field_set u \<noteq> push_bit (uf_num UF_HOST) 1 OR push_bit (uf_num UF_PORT) 1
                then Url_fail u
                else parse_port buf u)"

section \<open>Bounds\<close>

lemma has_field_simps [simp]:
  "has_field (add_field f u) g \<longleftrightarrow> has_field u g \<or> g = f"
  "has_field (set_run f a b u) g \<longleftrightarrow> has_field u g"
  "has_field (grow_run f u) g \<longleftrightarrow> has_field u g"
  "has_field (u\<lparr>port := v\<rparr>) g \<longleftrightarrow> has_field u g"
  "\<not> has_field (u\<lparr>field_set := 0\<rparr>) g"
proof -
  have "bit (push_bit (uf_num f) (1 :: u16)) (uf_num g) \<longleftrightarrow> g = f"
    by (cases f; cases g) simp_all
  then show "has_field (add_field f u) g \<longleftrightarrow> has_field u g \<or> g = f"
    by (simp add: has_field_def add_field_def bit_or_iff)
qed (simp_all add: has_field_def set_run_def grow_run_def)

lemma field_data_simps [simp]:
  "field_data (add_field f u) = field_data u"
  "field_data (set_run f a b u) = (field_data u)(f := \<lparr>fr_off = a, fr_len = b\<rparr>)"
  "field_data (grow_run f u) =
     (field_data u)(f := \<lparr>fr_off = fr_off (field_data u f), fr_len = fr_len (field_data u f) + 1\<rparr>)"
  by (simp_all add: add_field_def set_run_def grow_run_def)

definition run_end :: "http_parser_url \<Rightarrow> url_field \<Rightarrow> nat" where
  "run_end u f = unat (fr_off (field_data u f)) + unat (fr_len (field_data u f))"

definition runs_upto :: "url_field set \<Rightarrow> nat \<Rightarrow> http_parser_url \<Rightarrow> bool" where
  "runs_upto A p u \<longleftrightarrow> (\<forall>f \<in> A. has_field u f \<longrightarrow> run_end u f \<le> p)"

definition fields_in :: "url_field set \<Rightarrow> http_parser_url \<Rightarrow> bool" where
  "fields_in A u \<longleftrightarrow> (\<forall>f. has_field u f \<longrightarrow> f \<in> A)"

lemma unat_suc_le: "unat (x + 1 :: u16) \<le> Suc (unat x)"
  by (metis Suc_eq_plus1 unat_1 unat_add_lem unat_word_ariths(1) mod_less_eq_dividend)

lemma unat_of_nat_le: "unat (of_nat n :: u16) \<le> n"
  by (simp add: unat_of_nat)

lemma run_end_simps:
  "run_end (add_field f u) g = run_end u g"
  "run_end (u\<lparr>port := v\<rparr>) g = run_end u g"
  "run_end (set_run f a b u) g = (if g = f then unat a + unat b else run_end u g)"
  "g \<noteq> f \<Longrightarrow> run_end (grow_run f u) g = run_end u g"
  "run_end (grow_run f u) f \<le> Suc (run_end u f)"
  using unat_suc_le[of "fr_len (field_data u f)"] by (auto simp: run_end_def add_field_def)

lemma grow_run_upto: "runs_upto A p u \<Longrightarrow> has_field u f \<Longrightarrow> runs_upto A (Suc p) (grow_run f u)"
  unfolding runs_upto_def
  by (metis (no_types) has_field_simps(3) le_SucI le_trans not_less_eq_eq run_end_simps(4,5))

lemma runs_upto_mono: "runs_upto A p u \<Longrightarrow> p \<le> q \<Longrightarrow> runs_upto A q u"
  by (auto simp: runs_upto_def intro: le_trans)

lemma new_run_upto: "runs_upto A p u \<Longrightarrow> runs_upto A (Suc p) (add_field f (set_run f (of_nat p) 1 u))"
  using unat_of_nat_le[of p] by (auto simp: runs_upto_def run_end_simps le_SucI)

text \<open>The scan never meets a state without a field.\<close>

definition url_states :: "state set" where
  "url_states = {s_req_spaces_before_url, s_req_schema, s_req_schema_slash, s_req_schema_slash_slash,
     s_req_server_start, s_req_server, s_req_server_with_at, s_req_path, s_req_query_string_start,
     s_req_query_string, s_req_fragment_start, s_req_fragment}"

lemma parse_url_char_range:
  "parse_url_char s c = s_dead \<or> is_delimiter_state (parse_url_char s c) \<or>
   (\<exists>f. field_of_state (parse_url_char s c) = Some f \<and> f \<in> {UF_SCHEMA, UF_HOST, UF_PATH, UF_QUERY, UF_FRAGMENT})"
  by (cases s) (simp_all add: parse_url_char_def is_delimiter_state_def field_of_state_def)

definition scan_good :: "nat \<Rightarrow> url_scan \<Rightarrow> bool" where
  "scan_good n r \<longleftrightarrow>
     (case r of
        Scan_abort \<Rightarrow> False
      | Scan_fail u \<Rightarrow> True
      | Scan_ok fa u \<Rightarrow> runs_upto UNIV n u \<and>
          fields_in {UF_SCHEMA, UF_HOST, UF_PATH, UF_QUERY, UF_FRAGMENT} u)"

lemma url_loop_ok:
  assumes "runs_upto UNIV p u" "old_uf = UF_MAX \<or> has_field u old_uf"
    and "fields_in {UF_SCHEMA, UF_HOST, UF_PATH, UF_QUERY, UF_FRAGMENT} u"
  shows "scan_good (p + length cs) (url_loop p cs s old_uf fa u)"
  using assms
proof (induction cs arbitrary: p s old_uf fa u)
  case Nil
  then show ?case by (simp add: scan_good_def)
next
  case (Cons c cs)
  let ?s = "parse_url_char s c"
  consider "?s = s_dead" | "?s \<noteq> s_dead" "is_delimiter_state ?s"
    | f where "?s \<noteq> s_dead" "\<not> is_delimiter_state ?s" "field_of_state ?s = Some f"
        "f \<in> {UF_SCHEMA, UF_HOST, UF_PATH, UF_QUERY, UF_FRAGMENT}"
    using parse_url_char_range[of s c] by blast
  then show ?case
  proof cases
    case 1
    then show ?thesis by (simp add: Let_def scan_good_def)
  next
    case 2
    then show ?thesis
      using Cons.IH[of "Suc p" u old_uf ?s fa] Cons.prems runs_upto_mono[of UNIV p u "Suc p"]
      by (simp add: Let_def)
  next
    case 3
    show ?thesis
    proof (cases "f = old_uf")
      case True
      then have "has_field u f" using Cons.prems(2) 3(4) by auto
      then show ?thesis
        using Cons.IH[of "Suc p" "grow_run f u" old_uf ?s] Cons.prems 3 True grow_run_upto[of UNIV p u f]
        by (simp add: Let_def fields_in_def)
    next
      case False
      then show ?thesis
        using Cons.IH[of "Suc p" "add_field f (set_run f (of_nat p) 1 u)" f ?s] Cons.prems 3
          new_run_upto[of UNIV p u f]
        by (simp add: Let_def fields_in_def)
    qed
  qed
qed


text \<open>
  The host parser rewrites the host run inside the old one and adds the port and the user
  information; until the host proper starts its length is zero. It leaves the other runs alone.
\<close>

abbreviation host_fields :: "url_field set" where
  "host_fields \<equiv> {UF_HOST, UF_PORT, UF_USERINFO}"

definition same_outside :: "url_field set \<Rightarrow> http_parser_url \<Rightarrow> http_parser_url \<Rightarrow> bool" where
  "same_outside A u v \<longleftrightarrow> (\<forall>f. f \<notin> A \<longrightarrow> has_field v f = has_field u f \<and> run_end v f = run_end u f)"

definition host_inv :: "nat \<Rightarrow> http_host_state \<Rightarrow> http_parser_url \<Rightarrow> bool" where
  "host_inv p s u \<longleftrightarrow> runs_upto host_fields p u \<and> has_field u UF_HOST \<and>
     (s \<in> {s_http_userinfo_start, s_http_userinfo, s_http_host_start, s_http_host_v6_start} \<longrightarrow>
        fr_len (field_data u UF_HOST) = 0) \<and>
     (s = s_http_host_port \<longrightarrow> has_field u UF_PORT) \<and>
     (s = s_http_userinfo \<longrightarrow> has_field u UF_USERINFO)"

lemma restart_run_upto:
  assumes "runs_upto A p u" "has_field u f"
  shows "runs_upto A (Suc p) (grow_run f (set_run f (of_nat p) 0 u))"
proof -
  have "runs_upto A p (set_run f (of_nat p) 0 u)"
    using assms unat_of_nat_le[of p] by (auto simp: runs_upto_def run_end_simps)
  then show ?thesis using assms(2) by (intro grow_run_upto) simp_all
qed

lemma add_run_upto:
  assumes "runs_upto A p u"
  shows "runs_upto A (Suc p) (grow_run f (add_field f (set_run f (of_nat p) 0 u)))"
proof -
  have "runs_upto A p (add_field f (set_run f (of_nat p) 0 u))"
    using assms unat_of_nat_le[of p] by (auto simp: runs_upto_def run_end_simps)
  then show ?thesis by (intro grow_run_upto) simp_all
qed

lemma host_step_inv:
  assumes inv: "host_inv p s u" and live: "http_parse_host_char s c \<noteq> s_http_host_dead"
  shows "host_inv (Suc p) (http_parse_host_char s c) (host_update s (http_parse_host_char s c) p u)"
proof -
  have r: "runs_upto host_fields p u" and h: "has_field u UF_HOST" using inv by (simp_all add: host_inv_def)
  note runs = grow_run_upto[OF r] restart_run_upto[OF r h] add_run_upto[OF r] runs_upto_mono[OF r]
  show ?thesis
    using inv live
    by (cases s)
       (simp_all add: host_inv_def http_parse_host_char_def host_update_def runs split: if_splits)
qed

lemma host_update_same_outside: "same_outside host_fields u (host_update s t p u)"
  by (cases t) (auto simp: same_outside_def host_update_def run_end_simps)

lemma same_outside_trans: "same_outside A u v \<Longrightarrow> same_outside A v w \<Longrightarrow> same_outside A u w"
  by (auto simp: same_outside_def)

lemma host_loop_inv:
  assumes "host_inv p s u" "host_loop p cs s u = (Some (s', u'), v)"
  shows "host_inv (p + length cs) s' u' \<and> same_outside host_fields u u'"
  using assms
proof (induction p cs s u rule: host_loop.induct)
  case (1 p s u)
  then show ?case by (simp add: same_outside_def)
next
  case (2 p c cs s u)
  then show ?case
    using host_step_inv[of p s u c] same_outside_trans[OF host_update_same_outside]
    by (fastforce simp: Let_def split: if_splits)
qed

lemma http_parse_host_ok:
  assumes runs: "runs_upto UNIV n u" and h: "has_field u UF_HOST"
    and fresh: "\<not> has_field u UF_PORT" "\<not> has_field u UF_USERINFO"
  shows "http_parse_host buf u fa \<noteq> Url_abort"
    and "http_parse_host buf u fa = Url_ok u' \<Longrightarrow>
      runs_upto UNIV n u' \<and> has_field u' UF_HOST \<and> same_outside host_fields u u'"
proof -
  let ?r = "field_data u UF_HOST"
  let ?o = "unat (fr_off ?r)" and ?l = "unat (fr_len ?r)"
  let ?s0 = "if fa then s_http_userinfo_start else s_http_host_start"
  let ?u1 = "set_run UF_HOST (fr_off ?r) 0 u"
  have n: "?o + ?l \<le> n" using runs h by (auto simp: runs_upto_def run_end_def)
  show "http_parse_host buf u fa \<noteq> Url_abort"
    using h by (auto simp: http_parse_host_def Let_def split: prod.splits option.splits)
  assume "http_parse_host buf u fa = Url_ok u'"
  then obtain s v where s: "host_loop ?o (take ?l (drop ?o buf)) ?s0 ?u1 = (Some (s, u'), v)"
    using h by (auto simp: http_parse_host_def Let_def split: prod.splits option.splits if_splits)
  have "host_inv ?o ?s0 ?u1"
    using h fresh by (auto simp: host_inv_def runs_upto_def run_end_simps)
  from host_loop_inv[OF this s]
  have inv: "host_inv (?o + length (take ?l (drop ?o buf))) s u'" and same: "same_outside host_fields ?u1 u'"
    by auto
  have u: "same_outside host_fields u u'"
    using same by (auto simp: same_outside_def run_end_simps)
  have "?o + length (take ?l (drop ?o buf)) \<le> n" using n by simp
  then have "runs_upto host_fields n u'"
    using inv runs_upto_mono by (auto simp: host_inv_def)
  then have "runs_upto UNIV n u'"
    using u runs unfolding runs_upto_def same_outside_def by metis
  then show "runs_upto UNIV n u' \<and> has_field u' UF_HOST \<and> same_outside host_fields u u'"
    using inv u by (simp add: host_inv_def)
qed

section \<open>Ports\<close>

primrec dec_value :: "nat \<Rightarrow> string \<Rightarrow> nat" where
  "dec_value v [] = v"
| "dec_value v (c # cs) = dec_value (v * 10 + digit_val c) cs"

lemma dec_value_ge: "v \<le> dec_value v cs"
proof (induction cs arbitrary: v)
  case (Cons c cs)
  show ?case using Cons.IH[of "v * 10 + digit_val c"] by simp
qed simp

lemma char_minus_zero_digit: "IS_NUM c \<Longrightarrow> word_of_int (char_minus_zero c) = (of_nat (digit_val c) :: u64)"
  by (simp add: char_minus_zero_def digit_val_def IS_NUM_iff of_nat_diff)

lemma port_loop_value:
  assumes "list_all IS_NUM cs" "n \<le> 0xffff"
  shows "port_loop cs (of_nat n) = (if dec_value n cs \<le> 0xffff then Some (of_nat (dec_value n cs)) else None)"
  using assms
proof (induction cs arbitrary: n)
  case Nil
  then show ?case by simp
next
  case (Cons c cs)
  let ?n = "n * 10 + digit_val c"
  have d: "digit_val c \<le> 9" using Cons.prems(1) by (auto simp: IS_NUM_iff digit_val_def)
  have w: "(of_nat n * 10 + word_of_int (char_minus_zero c) :: u64) = of_nat ?n"
    using Cons.prems by (simp add: char_minus_zero_digit)
  have u: "unat (of_nat ?n :: u64) = ?n"
    using Cons.prems(2) d by (subst unat_of_nat) simp
  have gt: "(of_nat ?n :: u64) > 0xffff \<longleftrightarrow> ?n > 0xffff"
    unfolding word_less_nat_alt u by simp
  show ?case
  proof (cases "?n > 0xffff")
    case True
    then have "\<not> dec_value ?n cs \<le> 0xffff" using dec_value_ge[of ?n cs] by linarith
    then show ?thesis using True gt w by (simp add: Let_def del: of_nat_add of_nat_mult)
  next
    case False
    then show ?thesis
      using gt w Cons.IH[of ?n] Cons.prems by (simp add: Let_def del: of_nat_add of_nat_mult)
  qed
qed

text \<open>
  In a buffer whose offsets fit 16 bits the port run consists of digits: the port is the last
  part of the host, and it grows only over digits.
\<close>

definition port_inv :: "string \<Rightarrow> nat \<Rightarrow> http_host_state \<Rightarrow> http_parser_url \<Rightarrow> bool" where
  "port_inv buf p s u \<longleftrightarrow>
     (has_field u UF_PORT \<longrightarrow> s = s_http_host_port \<and> run_end u UF_PORT = p \<and> 0 < unat (fr_len (field_data u UF_PORT)) \<and>
        (\<forall>i. unat (fr_off (field_data u UF_PORT)) \<le> i \<and> i < p \<longrightarrow> IS_NUM (buf ! i)))"

lemma port_step_inv:
  assumes inv: "port_inv buf p s u" and live: "http_parse_host_char s (buf ! p) \<noteq> s_http_host_dead"
    and s: "s = s_http_host_port \<longrightarrow> has_field u UF_PORT" and p: "p < 65535"
  shows "port_inv buf (Suc p) (http_parse_host_char s (buf ! p)) (host_update s (http_parse_host_char s (buf ! p)) p u)"
proof -
  consider "s = s_http_host_port" | "s = s_http_host_port_start" "\<not> has_field u UF_PORT"
    | "s \<noteq> s_http_host_port" "s \<noteq> s_http_host_port_start" "\<not> has_field u UF_PORT"
    using inv by (auto simp: port_inv_def)
  then show ?thesis
  proof cases
    case 1
    then have d: "IS_NUM (buf ! p)" using live by (auto simp: http_parse_host_char_def split: if_splits)
    let ?l = "fr_len (field_data u UF_PORT)"
    have e: "run_end u UF_PORT = p" using inv s 1 by (simp add: port_inv_def)
    then have "unat ?l < 65535" using p by (simp add: run_end_def)
    then have l: "unat (?l + 1) = Suc (unat ?l)" by (simp add: unat_word_ariths)
    then have "run_end (grow_run UF_PORT u) UF_PORT = Suc p"
      using e by (simp add: run_end_def)
    then show ?thesis
      using inv s 1 d l by (auto simp: port_inv_def http_parse_host_char_def host_update_def less_Suc_eq)
  next
    case 2
    then have d: "IS_NUM (buf ! p)" using live by (auto simp: http_parse_host_char_def split: if_splits)
    have "unat (of_nat p :: u16) = p" using p by (simp add: unat_of_nat)
    then show ?thesis
      using 2 d by (auto simp: port_inv_def http_parse_host_char_def host_update_def run_end_def
        grow_run_def add_field_def set_run_def has_field_def less_Suc_eq)
  next
    case 3
    then have "http_parse_host_char s (buf ! p) \<noteq> s_http_host_port"
      by (cases s) (simp_all add: http_parse_host_char_def)
    then have "\<not> has_field (host_update s (http_parse_host_char s (buf ! p)) p u) UF_PORT"
      using 3(3) by (cases "http_parse_host_char s (buf ! p)") (simp_all add: host_update_def)
    then show ?thesis by (simp add: port_inv_def)
  qed
qed

lemma host_loop_port:
  assumes "host_inv p s u" "port_inv buf p s u" "host_loop p (take l (drop p buf)) s u = (Some (s', u'), v)"
    and "p + l \<le> length buf" "length buf \<le> 65535"
  shows "\<exists>p' \<le> p + l. port_inv buf p' s' u'"
  using assms
proof (induction l arbitrary: p s u)
  case 0
  then show ?case by auto
next
  case (Suc l)
  let ?s = "http_parse_host_char s (buf ! p)"
  have d: "take (Suc l) (drop p buf) = buf ! p # take l (drop (Suc p) buf)"
    using Suc.prems(4) by (simp add: Cons_nth_drop_Suc[symmetric])
  have live: "?s \<noteq> s_http_host_dead"
    and loop: "host_loop (Suc p) (take l (drop (Suc p) buf)) ?s (host_update s ?s p u) = (Some (s', u'), v)"
    using Suc.prems(3) by (auto simp: d Let_def split: if_splits)
  have "s = s_http_host_port \<longrightarrow> has_field u UF_PORT" using Suc.prems(1) by (simp add: host_inv_def)
  then have "port_inv buf (Suc p) ?s (host_update s ?s p u)"
    using Suc.prems live by (intro port_step_inv) auto
  moreover have "host_inv (Suc p) ?s (host_update s ?s p u)" by (rule host_step_inv[OF Suc.prems(1) live])
  ultimately show ?case using Suc.IH[OF _ _ loop] Suc.prems by fastforce
qed

definition run_text :: "string \<Rightarrow> http_parser_url \<Rightarrow> url_field \<Rightarrow> string" where
  "run_text buf u f = take (unat (fr_len (field_data u f))) (drop (unat (fr_off (field_data u f))) buf)"

lemma port_inv_digits:
  assumes "port_inv buf p s u" "has_field u UF_PORT"
  shows "list_all IS_NUM (run_text buf u UF_PORT)" "0 < unat (fr_len (field_data u UF_PORT))"
  using assms unfolding list_all_length run_text_def port_inv_def run_end_def by auto

lemma http_parse_host_port:
  assumes runs: "runs_upto UNIV (length buf) u" and h: "has_field u UF_HOST"
    and fresh: "\<not> has_field u UF_PORT" "\<not> has_field u UF_USERINFO"
    and len: "length buf \<le> 65535" and ok: "http_parse_host buf u fa = Url_ok u'" and port: "has_field u' UF_PORT"
  shows "list_all IS_NUM (run_text buf u' UF_PORT) \<and> 0 < unat (fr_len (field_data u' UF_PORT))"
proof -
  let ?r = "field_data u UF_HOST"
  let ?o = "unat (fr_off ?r)" and ?l = "unat (fr_len ?r)"
  let ?s0 = "if fa then s_http_userinfo_start else s_http_host_start"
  let ?u1 = "set_run UF_HOST (fr_off ?r) 0 u"
  have n: "?o + ?l \<le> length buf" using runs h by (auto simp: runs_upto_def run_end_def)
  from ok obtain s v where s: "host_loop ?o (take ?l (drop ?o buf)) ?s0 ?u1 = (Some (s, u'), v)"
    using h by (auto simp: http_parse_host_def Let_def split: prod.splits option.splits if_splits)
  have "host_inv ?o ?s0 ?u1"
    using h fresh by (auto simp: host_inv_def runs_upto_def run_end_simps)
  moreover have "port_inv buf ?o ?s0 ?u1" using fresh by (simp add: port_inv_def)
  ultimately obtain p' where "port_inv buf p' s u'" using host_loop_port[OF _ _ s n len] by blast
  then show ?thesis using port_inv_digits port by blast
qed

section \<open>The whole parser\<close>

text \<open>One shape for the successful runs of \<open>http_parser_parse_url\<close>, which the properties share.\<close>

abbreviation scan_of :: "string \<Rightarrow> bool \<Rightarrow> http_parser_url \<Rightarrow> url_scan" where
  "scan_of buf c u0 \<equiv> url_loop 0 buf (if c then s_req_server_start else s_req_spaces_before_url) UF_MAX
     False (u0\<lparr>port := 0, field_set := 0\<rparr>)"

lemma scan_of_good: "scan_good (length buf) (scan_of buf c u0)"
  using url_loop_ok[of 0 "u0\<lparr>port := 0, field_set := 0\<rparr>" UF_MAX buf]
  by (simp add: runs_upto_def fields_in_def)

lemma fields_inD: "fields_in A u \<Longrightarrow> f \<notin> A \<Longrightarrow> \<not> has_field u f"
  by (auto simp: fields_in_def)

lemma parse_url_okD:
  assumes "http_parser_parse_url buf c u0 = Url_ok u'"
  obtains fa u where "scan_of buf c u0 = Scan_ok fa u" "runs_upto UNIV (length buf) u"
    "\<not> has_field u UF_PORT" "\<not> has_field u UF_USERINFO" "\<not> has_field u UF_MAX"
    "has_field u UF_SCHEMA \<longrightarrow> has_field u UF_HOST"
    "\<exists>v. (if has_field u UF_HOST then http_parse_host buf u fa else Url_ok u) = Url_ok v \<and>
       (c \<longrightarrow> field_set v = push_bit (uf_num UF_HOST) 1 OR push_bit (uf_num UF_PORT) 1) \<and>
       parse_port buf v = Url_ok u'"
  using assms scan_of_good[of buf c u0]
  by (auto simp: http_parser_parse_url_def Let_def scan_good_def fields_inD
      split: if_splits url_scan.splits url_result.splits)

lemma parse_port_ok:
  assumes "runs_upto UNIV (length buf) u"
  shows "parse_port buf u \<noteq> Url_abort"
    and "parse_port buf u = Url_ok u' \<Longrightarrow> u' = u\<lparr>port := port u'\<rparr>"
  using assms
  by (auto simp: parse_port_def Let_def runs_upto_def run_end_def split: if_splits option.splits)


lemma port_simps [simp]:
  "port (add_field f u) = port u" "port (set_run f a b u) = port u" "port (grow_run f u) = port u"
  by (simp_all add: add_field_def set_run_def grow_run_def)

lemma url_loop_keeps_port: "url_loop p cs s uf fa u = Scan_ok fa' u' \<Longrightarrow> port u' = port u"
  by (induction p cs s uf fa u rule: url_loop.induct) (auto simp: Let_def split: if_splits option.splits)

lemmas scan_of_port = url_loop_keeps_port[where u = "u\<lparr>port := 0, field_set := 0\<rparr>" for u, simplified]

lemma host_loop_keeps_port: "host_loop p cs s u = (Some (s', u'), v) \<Longrightarrow> port u' = port u"
proof (induction p cs s u rule: host_loop.induct)
  case (2 p c cs s u)
  have "port (host_update s t p u) = port u" for t by (cases t) (simp_all add: host_update_def)
  then show ?case using 2 by (auto simp: Let_def split: if_splits)
qed auto

lemma http_parse_host_keeps_port: "http_parse_host buf u fa = Url_ok u' \<Longrightarrow> port u' = port u"
  by (auto simp: http_parse_host_def Let_def dest!: host_loop_keeps_port split: if_splits prod.splits option.splits)

lemma parse_url_bounds:
  "http_parser_parse_url buf is_connect u0 \<noteq> Url_abort \<and>
   (\<forall>u f. http_parser_parse_url buf is_connect u0 = Url_ok u \<and> has_field u f \<longrightarrow>
      unat (fr_off (field_data u f)) + unat (fr_len (field_data u f)) \<le> length buf)"
proof -
  have good: "scan_good (length buf) (scan_of buf is_connect u0)" by (rule scan_of_good)
  have "http_parser_parse_url buf is_connect u0 \<noteq> Url_abort"
    using good by (auto simp: http_parser_parse_url_def Let_def scan_good_def fields_inD
        dest: http_parse_host_ok parse_port_ok(1) split: if_splits url_scan.splits url_result.splits)
  moreover have "unat (fr_off (field_data u f)) + unat (fr_len (field_data u f)) \<le> length buf"
    if ok: "http_parser_parse_url buf is_connect u0 = Url_ok u" and f: "has_field u f" for u f
  proof -
    from ok obtain fa w v where w: "runs_upto UNIV (length buf) w" "\<not> has_field w UF_PORT"
        "\<not> has_field w UF_USERINFO"
      and v: "(if has_field w UF_HOST then http_parse_host buf w fa else Url_ok w) = Url_ok v"
        "parse_port buf v = Url_ok u"
      by (rule parse_url_okD) blast
    have "runs_upto UNIV (length buf) v"
      using w v(1) http_parse_host_ok(2)[OF w(1)] by (auto split: if_splits)
    then have "runs_upto UNIV (length buf) u"
      using parse_port_ok(2)[OF _ v(2)] unfolding runs_upto_def
      by (metis run_end_simps(2) has_field_simps(4))
    then show ?thesis using f by (simp add: runs_upto_def run_end_def)
  qed
  ultimately show ?thesis by blast
qed

text \<open>
  URL parsing never fails one of the parser's own assertions, on any input and whatever the
  caller's structure held before, and every component it reports lies inside the buffer.
\<close>

theorem parse_url_in_bounds:
  "http_parser_parse_url buf is_connect u0 \<noteq> Url_abort \<and>
   (\<forall>u f. http_parser_parse_url buf is_connect u0 = Url_ok u \<and> has_field u f \<longrightarrow>
      unat (fr_off (field_data u f)) + unat (fr_len (field_data u f)) \<le> length buf)"
  by (rule parse_url_bounds)

lemma parse_url_port_value:
  assumes "http_parser_parse_url buf is_connect u0 = Url_ok u" "length buf \<le> 65535"
  shows "if has_field u UF_PORT
         then list_all IS_NUM (run_text buf u UF_PORT) \<and> unat (port u) = dec_value 0 (run_text buf u UF_PORT) \<and>
           dec_value 0 (run_text buf u UF_PORT) \<le> 0xffff \<and> run_text buf u UF_PORT \<noteq> []
         else port u = 0"
proof -
  from assms(1) obtain fa w v where w: "runs_upto UNIV (length buf) w" "\<not> has_field w UF_PORT"
      "\<not> has_field w UF_USERINFO"
    and v: "(if has_field w UF_HOST then http_parse_host buf w fa else Url_ok w) = Url_ok v"
      "parse_port buf v = Url_ok u"
    and scan: "scan_of buf is_connect u0 = Scan_ok fa w"
    by (rule parse_url_okD) blast
  show ?thesis
  proof (cases "has_field v UF_PORT")
    case True
    then have h: "has_field w UF_HOST" and ok: "http_parse_host buf w fa = Url_ok v"
      using v(1) w(2) by (auto split: if_splits)
    have d: "list_all IS_NUM (run_text buf v UF_PORT)" "0 < unat (fr_len (field_data v UF_PORT))"
      using http_parse_host_port[OF w(1) h w(2,3) assms(2) ok True] by blast+
    from v(2) True obtain x where x: "port_loop (run_text buf v UF_PORT) 0 = Some x" "u = v\<lparr>port := ucast x\<rparr>"
      by (auto simp: parse_port_def Let_def run_text_def split: if_splits option.splits)
    let ?n = "dec_value 0 (run_text buf v UF_PORT)"
    have n: "?n \<le> 0xffff" "x = of_nat ?n"
      using port_loop_value[OF d(1), of 0] x(1) by (simp_all split: if_splits)
    have "unat (ucast (of_nat ?n :: u64) :: u16) = ?n"
      using n(1) by (simp add: unsigned_ucast_eq unat_of_nat take_bit_eq_mod)
    moreover have "unat (fr_off (field_data v UF_PORT)) + unat (fr_len (field_data v UF_PORT)) \<le> length buf"
      using parse_url_bounds[of buf is_connect u0] assms(1) True x(2) by auto
    ultimately show ?thesis using True d x(2) n by (simp add: run_text_def)
  next
    case False
    have "port w = 0" using scan_of_port[OF scan] .
    moreover have "port v = port w" using http_parse_host_keeps_port v(1) by (auto split: if_splits)
    ultimately show ?thesis using False v(2) by (simp add: parse_port_def)
  qed
qed

text \<open>
  When the URL is shorter than 64 KiB, a reported port is the decimal value of the digits in its
  run, at most 65535, and a URL without a port reports 0.
\<close>

theorem parse_url_port:
  assumes "http_parser_parse_url buf is_connect u0 = Url_ok u" "length buf \<le> 65535"
  shows "if has_field u UF_PORT
         then list_all IS_NUM (run_text buf u UF_PORT) \<and> unat (port u) = dec_value 0 (run_text buf u UF_PORT)
         else port u = 0"
  using parse_url_port_value[OF assms] by (auto split: if_splits)

text \<open>
  A successful parse has a consistent set of components: a schema comes with a host, port and
  user information only with a host, and a CONNECT target is exactly a host and a port.
\<close>

theorem parse_url_components:
  assumes "http_parser_parse_url buf is_connect u0 = Url_ok u"
  shows "(has_field u UF_SCHEMA \<or> has_field u UF_PORT \<or> has_field u UF_USERINFO \<longrightarrow> has_field u UF_HOST) \<and>
    (is_connect \<longrightarrow> (\<forall>f. has_field u f \<longleftrightarrow> f = UF_HOST \<or> f = UF_PORT))"
proof -
  from assms obtain fa w v where w: "runs_upto UNIV (length buf) w" "\<not> has_field w UF_PORT"
      "\<not> has_field w UF_USERINFO" "has_field w UF_SCHEMA \<longrightarrow> has_field w UF_HOST"
    and v: "(if has_field w UF_HOST then http_parse_host buf w fa else Url_ok w) = Url_ok v"
      "is_connect \<longrightarrow> field_set v = push_bit (uf_num UF_HOST) 1 OR push_bit (uf_num UF_PORT) 1"
      "parse_port buf v = Url_ok u"
    by (rule parse_url_okD) blast
  have "runs_upto UNIV (length buf) v"
    using w v(1) http_parse_host_ok(2)[OF w(1)] by (auto split: if_splits)
  then have same: "has_field u f = has_field v f" for f
    using parse_port_ok(2)[OF _ v(3)] by (metis has_field_simps(4))
  have "has_field v f \<longleftrightarrow> f = UF_HOST \<or> f = UF_PORT" if "is_connect" for f
    using v(2) that by (cases f) (simp_all add: has_field_def bit_or_iff)
  moreover have "has_field v UF_SCHEMA \<or> has_field v UF_PORT \<or> has_field v UF_USERINFO \<longrightarrow> has_field v UF_HOST"
    using w v(1) http_parse_host_ok(2)[OF w(1)] by (auto split: if_splits)
  ultimately show ?thesis using same by blast
qed

definition url_succeeds :: "(http_parser_url \<Rightarrow> bool) \<Rightarrow> url_result \<Rightarrow> bool" where
  "url_succeeds P r \<longleftrightarrow> (case r of Url_ok u \<Rightarrow> P u | _ \<Rightarrow> False)"

lemma url_succeedsE: "url_succeeds P r \<Longrightarrow> (\<And>u. r = Url_ok u \<Longrightarrow> P u \<Longrightarrow> Q) \<Longrightarrow> Q"
  by (cases r) (auto simp: url_succeeds_def)

text \<open>A URL with every component, and a CONNECT target.\<close>

definition example_url :: string where
  "example_url = ''http://me@a.cn:8020/p/q?k=v#top''"

lemma example_url_fields:
  "url_succeeds (\<lambda>u. list_all (has_field u)
      [UF_SCHEMA, UF_HOST, UF_PORT, UF_PATH, UF_QUERY, UF_FRAGMENT, UF_USERINFO] \<and>
      map (run_text example_url u) [UF_SCHEMA, UF_HOST, UF_PORT, UF_PATH, UF_QUERY, UF_FRAGMENT, UF_USERINFO] =
        [''http'', ''a.cn'', ''8020'', ''/p/q'', ''k=v'', ''top'', ''me''])
     (http_parser_parse_url example_url False http_parser_url_init)"
  by code_simp

lemma connect_url_fields:
  "url_succeeds (\<lambda>u. has_field u UF_HOST) (http_parser_parse_url ''a.cn:443'' True http_parser_url_init)"
  by code_simp

theorem parse_url_in_bounds_witness:
  "\<exists>u. http_parser_parse_url example_url False http_parser_url_init = Url_ok u \<and> has_field u UF_QUERY \<and>
     unat (fr_off (field_data u UF_QUERY)) + unat (fr_len (field_data u UF_QUERY)) \<le> length example_url"
  using parse_url_in_bounds[of example_url False http_parser_url_init] example_url_fields
  by (auto elim!: url_succeedsE)

theorem parse_url_port_witness:
  "\<exists>u. http_parser_parse_url example_url False http_parser_url_init = Url_ok u \<and> unat (port u) = 8020"
proof -
  obtain u where u: "http_parser_parse_url example_url False http_parser_url_init = Url_ok u"
      "has_field u UF_PORT" "run_text example_url u UF_PORT = ''8020''"
    using example_url_fields by (auto elim!: url_succeedsE)
  have "length example_url \<le> 65535" by (simp add: example_url_def)
  then show ?thesis using parse_url_port[OF u(1)] u by (auto simp: digit_val_def ord_of_def)
qed

theorem parse_url_components_witness:
  "\<exists>u. http_parser_parse_url ''a.cn:443'' True http_parser_url_init = Url_ok u \<and>
     has_field u UF_PORT \<and> \<not> has_field u UF_PATH"
  using connect_url_fields parse_url_components[of "''a.cn:443''" True http_parser_url_init]
  by (auto elim!: url_succeedsE)

end
