(* ===== verification/HttpExec.thy ===== *)
theory HttpExec
  imports HttpUrl
begin

text \<open>
  The machinery of \<open>http_parser_execute\<close>: its local variables, the macros it is written in and
  the request and status lines. The locals are the record \<open>exec\<close>; a position in the buffer is the
  offset \<open>p - data\<close>. One definition stands for each case of the big \<open>switch\<close>; its
  result says how the case is left: by \<open>break\<close> (\<open>Next\<close>), by \<open>goto reexecute\<close>
  (\<open>Again\<close>), by a \<open>return\<close> (\<open>Ret\<close>, also for \<open>goto error\<close>), or by a failed
  assertion or an access outside an array (\<open>Abort\<close>). \<open>Diverge\<close> marks exhausted fuel.
\<close>

section \<open>Local variables\<close>

datatype mark = M_header_field | M_header_value | M_url | M_body | M_status

record 'd exec =
  ex_hp :: "'d http_parser"
  ex_state :: state
  ex_nread :: u32
  ex_pos :: nat
  ex_ch :: char
  ex_marks :: "mark \<Rightarrow> nat option"

text \<open>
  What a call does not change: the settings, the buffer, the file-scope variable
  \<open>max_header_size\<close> and the copy of \<open>lenient_http_headers\<close>.
\<close>

record 'd env =
  env_settings :: "'d http_parser_settings"
  env_data :: string
  env_max :: u32
  env_lenient :: bool

text \<open>
  A read of the buffer at an offset; \<open>None\<close> is a read outside of it. Every place of the parser
  that dereferences \<open>p\<close> goes through it and aborts on \<open>None\<close>.
\<close>

definition byte_at :: "'d env \<Rightarrow> nat \<Rightarrow> char option" where
  "byte_at e p = (if p < length (env_data e) then Some (env_data e ! p) else None)"

datatype 'd outcome = Next "'d exec" | Again "'d exec" | Ret nat "'d http_parser" | Abort | Diverge

section \<open>Macros\<close>

definition UPDATE_STATE :: "state \<Rightarrow> 'd exec \<Rightarrow> 'd exec" where
  "UPDATE_STATE s x = x\<lparr>ex_state := s\<rparr>"

definition upd_hp :: "('d http_parser \<Rightarrow> 'd http_parser) \<Rightarrow> 'd exec \<Rightarrow> 'd exec" where
  "upd_hp f x = x\<lparr>ex_hp := f (ex_hp x)\<rparr>"

definition SET_ERRNO :: "http_errno \<Rightarrow> 'd exec \<Rightarrow> 'd exec" where
  "SET_ERRNO e = (\<lambda>x. upd_hp (\<lambda>p. p\<lparr>hp_nread := ex_nread x, hp_errno := e\<rparr>) x)"

definition RETURN :: "nat \<Rightarrow> 'd exec \<Rightarrow> 'd outcome" where
  "RETURN v x = Ret v ((ex_hp x)\<lparr>hp_nread := ex_nread x, hp_state := ex_state x\<rparr>)"

definition goto_error :: "'d exec \<Rightarrow> 'd outcome" where
  "goto_error x =
     (let y = (if hp_errno (ex_hp x) = HPE_OK then SET_ERRNO HPE_UNKNOWN x else x) in RETURN (ex_pos y) y)"

definition fail :: "http_errno \<Rightarrow> 'd exec \<Rightarrow> 'd outcome" where
  "fail e x = goto_error (SET_ERRNO e x)"

definition STRICT_CHECK :: "bool \<Rightarrow> 'd outcome \<Rightarrow> 'd exec \<Rightarrow> 'd outcome" where
  "STRICT_CHECK cond k x = (if cond then fail HPE_STRICT x else k)"

definition andthen :: "'d outcome \<Rightarrow> ('d exec \<Rightarrow> 'd outcome) \<Rightarrow> 'd outcome" where
  "andthen r k = (case r of Next x \<Rightarrow> k x | _ \<Rightarrow> r)"

definition COUNT_HEADER_SIZE :: "'d env \<Rightarrow> nat \<Rightarrow> 'd exec \<Rightarrow> 'd outcome" where
  "COUNT_HEADER_SIZE e v x =
     (let y = x\<lparr>ex_nread := ex_nread x + of_nat v\<rparr> in
      if ex_nread y > env_max e then fail HPE_HEADER_OVERFLOW y else Next y)"

definition CALLBACK_NOTIFY :: "'d http_cb option \<Rightarrow> http_errno \<Rightarrow> nat \<Rightarrow> 'd exec \<Rightarrow> 'd outcome" where
  "CALLBACK_NOTIFY cb err er x =
     (if hp_errno (ex_hp x) \<noteq> HPE_OK then Abort
      else case cb of
        None \<Rightarrow> Next x
      | Some f \<Rightarrow>
          (case f ((ex_hp x)\<lparr>hp_state := ex_state x\<rparr>) of
             (rc, q) \<Rightarrow>
               let x1 = x\<lparr>ex_hp := q\<rparr>;
                   x2 = (if rc \<noteq> 0 then SET_ERRNO err x1 else x1);
                   x3 = UPDATE_STATE (hp_state (ex_hp x2)) x2
               in if hp_errno (ex_hp x3) \<noteq> HPE_OK then Ret er (ex_hp x3) else Next x3))"

definition data_cb :: "'d http_parser_settings \<Rightarrow> mark \<Rightarrow> 'd http_data_cb option" where
  "data_cb s m = (case m of M_header_field \<Rightarrow> on_header_field s | M_header_value \<Rightarrow> on_header_value s
     | M_url \<Rightarrow> on_url s | M_body \<Rightarrow> on_body s | M_status \<Rightarrow> on_status s)"

definition data_cb_errno :: "mark \<Rightarrow> http_errno" where
  "data_cb_errno m = (case m of M_header_field \<Rightarrow> HPE_CB_header_field | M_header_value \<Rightarrow> HPE_CB_header_value
     | M_url \<Rightarrow> HPE_CB_url | M_body \<Rightarrow> HPE_CB_body | M_status \<Rightarrow> HPE_CB_status)"

definition MARK :: "mark \<Rightarrow> 'd exec \<Rightarrow> 'd exec" where
  "MARK m x = (if ex_marks x m = None then x\<lparr>ex_marks := (ex_marks x)(m := Some (ex_pos x))\<rparr> else x)"

text \<open>
  The data callback gets the bytes from the mark up to position \<open>fin\<close>, exclusively: a mark behind
  \<open>fin\<close> or a \<open>fin\<close> behind the end would hand it bytes outside the buffer.
\<close>

definition CALLBACK_DATA_ER :: "'d env \<Rightarrow> mark \<Rightarrow> nat \<Rightarrow> nat \<Rightarrow> 'd exec \<Rightarrow> 'd outcome" where
  "CALLBACK_DATA_ER e m fin er x =
     (if hp_errno (ex_hp x) \<noteq> HPE_OK then Abort
      else case ex_marks x m of
        None \<Rightarrow> Next x
      | Some b \<Rightarrow>
          (case data_cb (env_settings e) m of
             None \<Rightarrow> Next (x\<lparr>ex_marks := (ex_marks x)(m := None)\<rparr>)
           | Some f \<Rightarrow>
               if \<not> (b \<le> fin \<and> fin \<le> length (env_data e)) then Abort else
               (case f (take (fin - b) (drop b (env_data e))) ((ex_hp x)\<lparr>hp_state := ex_state x\<rparr>) of
                  (rc, q) \<Rightarrow>
                    let x1 = x\<lparr>ex_hp := q\<rparr>;
                        x2 = (if rc \<noteq> 0 then SET_ERRNO (data_cb_errno m) x1 else x1);
                        x3 = UPDATE_STATE (hp_state (ex_hp x2)) x2
                    in if hp_errno (ex_hp x3) \<noteq> HPE_OK then Ret er (ex_hp x3)
                       else Next (x3\<lparr>ex_marks := (ex_marks x3)(m := None)\<rparr>))))"

definition CALLBACK_DATA :: "'d env \<Rightarrow> mark \<Rightarrow> 'd exec \<Rightarrow> 'd outcome" where
  "CALLBACK_DATA e m x = CALLBACK_DATA_ER e m (ex_pos x) (ex_pos x + 1) x"

definition CALLBACK_DATA_NOADVANCE :: "'d env \<Rightarrow> mark \<Rightarrow> 'd exec \<Rightarrow> 'd outcome" where
  "CALLBACK_DATA_NOADVANCE e m x = CALLBACK_DATA_ER e m (ex_pos x) (ex_pos x) x"

definition notify_message_begin :: "'d env \<Rightarrow> 'd exec \<Rightarrow> 'd outcome" where
  "notify_message_begin e x =
     CALLBACK_NOTIFY (on_message_begin (env_settings e)) HPE_CB_message_begin (ex_pos x + 1) x"

definition notify_message_complete :: "'d env \<Rightarrow> 'd exec \<Rightarrow> 'd outcome" where
  "notify_message_complete e x =
     CALLBACK_NOTIFY (on_message_complete (env_settings e)) HPE_CB_message_complete (ex_pos x + 1) x"

definition notify_chunk_header :: "'d env \<Rightarrow> 'd exec \<Rightarrow> 'd outcome" where
  "notify_chunk_header e x =
     CALLBACK_NOTIFY (on_chunk_header (env_settings e)) HPE_CB_chunk_header (ex_pos x + 1) x"

definition notify_chunk_complete :: "'d env \<Rightarrow> nat \<Rightarrow> 'd exec \<Rightarrow> 'd outcome" where
  "notify_chunk_complete e er x =
     CALLBACK_NOTIFY (on_chunk_complete (env_settings e)) HPE_CB_chunk_complete er x"

definition start_state :: "'d http_parser \<Rightarrow> state" where
  "start_state p = (if hp_type p = HTTP_REQUEST then s_start_req else s_start_res)"

definition NEW_MESSAGE :: "'d http_parser \<Rightarrow> state" where
  "NEW_MESSAGE p = (if http_should_keep_alive p then start_state p else s_dead)"

section \<open>The start of a message\<close>

definition step_dead :: "'d exec \<Rightarrow> 'd outcome" where
  "step_dead x = (if ex_ch x = CR \<or> ex_ch x = LF then Next x else fail HPE_CLOSED_CONNECTION x)"

definition reset_message :: "'d exec \<Rightarrow> 'd exec" where
  "reset_message = upd_hp (\<lambda>p. p\<lparr>hp_flags := 0, hp_content_length := ULLONG_MAX\<rparr>)"

definition step_start_req_or_res :: "'d env \<Rightarrow> 'd exec \<Rightarrow> 'd outcome" where
  "step_start_req_or_res e x =
     (if ex_ch x = CR \<or> ex_ch x = LF then Next x
      else let y = reset_message x in
        if ex_ch x = CHR ''H'' then notify_message_begin e (UPDATE_STATE s_res_or_resp_H y)
        else Again (UPDATE_STATE s_start_req (upd_hp (\<lambda>p. p\<lparr>hp_type := HTTP_REQUEST\<rparr>) y)))"

definition step_res_or_resp_H :: "'d exec \<Rightarrow> 'd outcome" where
  "step_res_or_resp_H x =
     (if ex_ch x = CHR ''T'' then Next (UPDATE_STATE s_res_HT (upd_hp (\<lambda>p. p\<lparr>hp_type := HTTP_RESPONSE\<rparr>) x))
      else if ex_ch x \<noteq> CHR ''E'' then fail HPE_INVALID_CONSTANT x
      else Next (UPDATE_STATE s_req_method
             (upd_hp (\<lambda>p. p\<lparr>hp_type := HTTP_REQUEST, hp_method := HTTP_HEAD, hp_index := 2\<rparr>) x)))"

section \<open>The status line\<close>

definition step_start_res :: "'d env \<Rightarrow> 'd exec \<Rightarrow> 'd outcome" where
  "step_start_res e x =
     (if ex_ch x = CR \<or> ex_ch x = LF then Next x
      else let y = reset_message x in
        if ex_ch x = CHR ''H'' then notify_message_begin e (UPDATE_STATE s_res_H y)
        else fail HPE_INVALID_CONSTANT y)"

definition step_expect :: "char \<Rightarrow> state \<Rightarrow> 'd exec \<Rightarrow> 'd outcome" where
  "step_expect c s x = STRICT_CHECK (ex_ch x \<noteq> c) (Next (UPDATE_STATE s x)) x"

definition step_version_char :: "char \<Rightarrow> state \<Rightarrow> 'd exec \<Rightarrow> 'd outcome" where
  "step_version_char c s x =
     (if ex_ch x \<noteq> c then fail HPE_INVALID_VERSION x else Next (UPDATE_STATE s x))"

definition step_http_major :: "state \<Rightarrow> 'd exec \<Rightarrow> 'd outcome" where
  "step_http_major s x =
     (if \<not> IS_NUM (ex_ch x) then fail HPE_INVALID_VERSION x
      else Next (UPDATE_STATE s (upd_hp (\<lambda>p. p\<lparr>hp_major := of_nat (digit_val (ex_ch x))\<rparr>) x)))"

definition step_http_minor :: "state \<Rightarrow> 'd exec \<Rightarrow> 'd outcome" where
  "step_http_minor s x =
     (if \<not> IS_NUM (ex_ch x) then fail HPE_INVALID_VERSION x
      else Next (UPDATE_STATE s (upd_hp (\<lambda>p. p\<lparr>hp_minor := of_nat (digit_val (ex_ch x))\<rparr>) x)))"

definition step_res_first_status_code :: "'d exec \<Rightarrow> 'd outcome" where
  "step_res_first_status_code x =
     (if \<not> IS_NUM (ex_ch x)
      then if ex_ch x = SP then Next x else fail HPE_INVALID_STATUS x
      else Next (UPDATE_STATE s_res_status_code
             (upd_hp (\<lambda>p. p\<lparr>hp_status_code := of_nat (digit_val (ex_ch x))\<rparr>) x)))"

definition step_res_status_code :: "'d exec \<Rightarrow> 'd outcome" where
  "step_res_status_code x =
     (if \<not> IS_NUM (ex_ch x)
      then if ex_ch x = SP then Next (UPDATE_STATE s_res_status_start x)
           else if ex_ch x = CR \<or> ex_ch x = LF then Again (UPDATE_STATE s_res_status_start x)
           else fail HPE_INVALID_STATUS x
      else let y = upd_hp (\<lambda>p. p\<lparr>hp_status_code := hp_status_code p * 10 + of_nat (digit_val (ex_ch x))\<rparr>) x in
        if hp_status_code (ex_hp y) > 999 then fail HPE_INVALID_STATUS y else Next y)"

definition step_res_status_start :: "'d exec \<Rightarrow> 'd outcome" where
  "step_res_status_start x =
     (let y = upd_hp (\<lambda>p. p\<lparr>hp_index := 0\<rparr>) (UPDATE_STATE s_res_status (MARK M_status x)) in
      if ex_ch x = CR \<or> ex_ch x = LF then Again y else Next y)"

definition step_res_status :: "'d env \<Rightarrow> 'd exec \<Rightarrow> 'd outcome" where
  "step_res_status e x =
     (if ex_ch x = CR then CALLBACK_DATA e M_status (UPDATE_STATE s_res_line_almost_done x)
      else if ex_ch x = LF then CALLBACK_DATA e M_status (UPDATE_STATE s_header_field_start x)
      else Next x)"

section \<open>The request line\<close>

definition first_method :: "char \<Rightarrow> http_method option" where
  "first_method c = map_of
     [(CHR ''A'', HTTP_ACL), (CHR ''B'', HTTP_BIND), (CHR ''C'', HTTP_CONNECT), (CHR ''D'', HTTP_DELETE),
      (CHR ''G'', HTTP_GET), (CHR ''H'', HTTP_HEAD), (CHR ''L'', HTTP_LOCK), (CHR ''M'', HTTP_MKCOL),
      (CHR ''N'', HTTP_NOTIFY), (CHR ''O'', HTTP_OPTIONS), (CHR ''P'', HTTP_POST), (CHR ''R'', HTTP_REPORT),
      (CHR ''S'', HTTP_SUBSCRIBE), (CHR ''T'', HTTP_TRACE), (CHR ''U'', HTTP_UNLOCK)] c"

definition step_start_req :: "'d env \<Rightarrow> 'd exec \<Rightarrow> 'd outcome" where
  "step_start_req e x =
     (if ex_ch x = CR \<or> ex_ch x = LF then Next x
      else let y = reset_message x in
        if \<not> IS_ALPHA (ex_ch x) then fail HPE_INVALID_METHOD y
        else let z = upd_hp (\<lambda>p. p\<lparr>hp_method := HTTP_DELETE, hp_index := 1\<rparr>) y in
          case first_method (ex_ch x) of
            None \<Rightarrow> fail HPE_INVALID_METHOD z
          | Some m \<Rightarrow>
              notify_message_begin e (UPDATE_STATE s_req_method (upd_hp (\<lambda>p. p\<lparr>hp_method := m\<rparr>) z)))"

text \<open>\<open>XX(meth, pos, ch, new_meth)\<close>: the methods that share a prefix with the current guess.\<close>

definition method_switch :: "((http_method \<times> nat \<times> char) \<times> http_method) list" where
  "method_switch =
     [((HTTP_POST, 1, CHR ''U''), HTTP_PUT),
      ((HTTP_POST, 1, CHR ''A''), HTTP_PATCH),
      ((HTTP_POST, 1, CHR ''R''), HTTP_PROPFIND),
      ((HTTP_PUT, 2, CHR ''R''), HTTP_PURGE),
      ((HTTP_CONNECT, 1, CHR ''H''), HTTP_CHECKOUT),
      ((HTTP_CONNECT, 2, CHR ''P''), HTTP_COPY),
      ((HTTP_MKCOL, 1, CHR ''O''), HTTP_MOVE),
      ((HTTP_MKCOL, 1, CHR ''E''), HTTP_MERGE),
      ((HTTP_MKCOL, 1, CHR ''-''), HTTP_MSEARCH),
      ((HTTP_MKCOL, 2, CHR ''A''), HTTP_MKACTIVITY),
      ((HTTP_MKCOL, 3, CHR ''A''), HTTP_MKCALENDAR),
      ((HTTP_SUBSCRIBE, 1, CHR ''E''), HTTP_SEARCH),
      ((HTTP_SUBSCRIBE, 1, CHR ''O''), HTTP_SOURCE),
      ((HTTP_REPORT, 2, CHR ''B''), HTTP_REBIND),
      ((HTTP_PROPFIND, 4, CHR ''P''), HTTP_PROPPATCH),
      ((HTTP_LOCK, 1, CHR ''I''), HTTP_LINK),
      ((HTTP_UNLOCK, 2, CHR ''S''), HTTP_UNSUBSCRIBE),
      ((HTTP_UNLOCK, 2, CHR ''B''), HTTP_UNBIND),
      ((HTTP_UNLOCK, 3, CHR ''I''), HTTP_UNLINK)]"

text \<open>\<open>matcher[index]\<close>: the terminating zero can be read, what follows it cannot.\<close>

definition step_req_method :: "'d exec \<Rightarrow> 'd outcome" where
  "step_req_method x =
     (let p = ex_hp x; ch = ex_ch x; i = unat (hp_index p); matcher = method_string (hp_method p) @ [NUL];
          next = upd_hp (\<lambda>p. p\<lparr>hp_index := hp_index p + 1\<rparr>)
      in if ch = NUL then fail HPE_INVALID_METHOD x
         else if i \<ge> length matcher then Abort
         else if ch = SP \<and> matcher ! i = NUL then Next (next (UPDATE_STATE s_req_spaces_before_url x))
         else if ch = matcher ! i then Next (next x)
         else if in_range (CHR ''A'') (CHR ''Z'') ch \<or> ch = CHR ''-''
         then case map_of method_switch (hp_method p, i, ch) of
                None \<Rightarrow> fail HPE_INVALID_METHOD x
              | Some m \<Rightarrow> Next (next (upd_hp (\<lambda>p. p\<lparr>hp_method := m\<rparr>) x))
         else fail HPE_INVALID_METHOD x)"

definition url_char_or_fail :: "'d exec \<Rightarrow> 'd outcome" where
  "url_char_or_fail x =
     (let y = UPDATE_STATE (parse_url_char (ex_state x) (ex_ch x)) x in
      if ex_state y = s_dead then fail HPE_INVALID_URL y else Next y)"

definition step_req_spaces_before_url :: "'d exec \<Rightarrow> 'd outcome" where
  "step_req_spaces_before_url x =
     (if ex_ch x = SP then Next x
      else let y = MARK M_url x in
        url_char_or_fail (if hp_method (ex_hp x) = HTTP_CONNECT then UPDATE_STATE s_req_server_start y else y))"

definition step_req_schema :: "'d exec \<Rightarrow> 'd outcome" where
  "step_req_schema x =
     (if ex_ch x = SP \<or> ex_ch x = CR \<or> ex_ch x = LF then fail HPE_INVALID_URL x else url_char_or_fail x)"

definition step_req_url :: "'d env \<Rightarrow> 'd exec \<Rightarrow> 'd outcome" where
  "step_req_url e x =
     (if ex_ch x = SP then CALLBACK_DATA e M_url (UPDATE_STATE s_req_http_start x)
      else if ex_ch x = CR \<or> ex_ch x = LF
      then CALLBACK_DATA e M_url
             (UPDATE_STATE (if ex_ch x = CR then s_req_line_almost_done else s_header_field_start)
               (upd_hp (\<lambda>p. p\<lparr>hp_major := 0, hp_minor := 9\<rparr>) x))
      else url_char_or_fail x)"

definition step_req_http_start :: "'d exec \<Rightarrow> 'd outcome" where
  "step_req_http_start x =
     (if ex_ch x = SP then Next x
      else if ex_ch x = CHR ''H'' then Next (UPDATE_STATE s_req_http_H x)
      else if ex_ch x = CHR ''I'' \<and> hp_method (ex_hp x) = HTTP_SOURCE then Next (UPDATE_STATE s_req_http_I x)
      else fail HPE_INVALID_CONSTANT x)"

definition step_req_http_end :: "'d exec \<Rightarrow> 'd outcome" where
  "step_req_http_end x =
     (if ex_ch x = CR then Next (UPDATE_STATE s_req_line_almost_done x)
      else if ex_ch x = LF then Next (UPDATE_STATE s_header_field_start x)
      else fail HPE_INVALID_VERSION x)"

definition step_req_line_almost_done :: "'d exec \<Rightarrow> 'd outcome" where
  "step_req_line_almost_done x =
     (if ex_ch x \<noteq> LF then fail HPE_LF_EXPECTED x else Next (UPDATE_STATE s_header_field_start x))"

end
