(* ===== verification/HttpHeaders.thy ===== *)
theory HttpHeaders
  imports HttpExec
begin

text \<open>
  The header lines of \<open>http_parser_execute\<close>: the field name automaton that recognises the
  five headers the parser interprets, the value automaton, folding, and the end of the header block
  with the decision how the message body is framed.
\<close>

section \<open>Field names\<close>

definition CONNECTION :: string where "CONNECTION = ''connection''"
definition PROXY_CONNECTION :: string where "PROXY_CONNECTION = ''proxy-connection''"
definition CONTENT_LENGTH :: string where "CONTENT_LENGTH = ''content-length''"
definition TRANSFER_ENCODING :: string where "TRANSFER_ENCODING = ''transfer-encoding''"
definition UPGRADE :: string where "UPGRADE = ''upgrade''"
definition CHUNKED :: string where "CHUNKED = ''chunked''"
definition KEEP_ALIVE :: string where "KEEP_ALIVE = ''keep-alive''"
definition CLOSE :: string where "CLOSE = ''close''"

text \<open>
  One step of a matcher that stands in \<open>stay\<close>: \<open>i\<close> is the index after its
  increment, \<open>sizeof(w) - 1\<close> the length of the word.
\<close>

definition match_char ::
  "string \<Rightarrow> 7 word \<Rightarrow> char \<Rightarrow> header_state \<Rightarrow> header_state \<Rightarrow> header_state \<Rightarrow> header_state" where
  "match_char w i c bad stay matched =
     (if unat i > length w \<or> c \<noteq> (w @ [NUL]) ! unat i then bad
      else if unat i = length w - 1 then matched else stay)"

definition step_header_field_start :: "'d exec \<Rightarrow> 'd outcome" where
  "step_header_field_start x =
     (if ex_ch x = CR then Next (UPDATE_STATE s_headers_almost_done x)
      else if ex_ch x = LF then Again (UPDATE_STATE s_headers_almost_done x)
      else let c = TOKEN (ex_ch x) in
        if c = NUL then fail HPE_INVALID_HEADER_TOKEN x
        else Next (upd_hp (\<lambda>p. p\<lparr>hp_index := 0, hp_header_state :=
                 (if c = CHR ''c'' then h_C
                  else if c = CHR ''p'' then h_matching_proxy_connection
                  else if c = CHR ''t'' then h_matching_transfer_encoding
                  else if c = CHR ''u'' then h_matching_upgrade
                  else h_general)\<rparr>) (UPDATE_STATE s_header_field (MARK M_header_field x))))"

text \<open>
  The inner \<open>switch\<close> on one character of a name, apart from \<open>h_general\<close>.
  \<open>None\<close> is the assertion on an unknown header state.
\<close>

definition field_char :: "char \<Rightarrow> 'd http_parser \<Rightarrow> 'd http_parser option" where
  "field_char ch p =
     (let c = TOKEN ch; i = hp_index p + 1;
          advance = (\<lambda>h. Some (p\<lparr>hp_index := i, hp_header_state := h\<rparr>)) in
      case hp_header_state p of
        h_C \<Rightarrow> advance (if c = CHR ''o'' then h_CO else h_general)
      | h_CO \<Rightarrow> advance (if c = CHR ''n'' then h_CON else h_general)
      | h_CON \<Rightarrow> advance (if c = CHR ''n'' then h_matching_connection
                        else if c = CHR ''t'' then h_matching_content_length else h_general)
      | h_matching_connection \<Rightarrow>
          advance (match_char CONNECTION i c h_general h_matching_connection h_connection)
      | h_matching_proxy_connection \<Rightarrow>
          advance (match_char PROXY_CONNECTION i c h_general h_matching_proxy_connection h_connection)
      | h_matching_content_length \<Rightarrow>
          advance (match_char CONTENT_LENGTH i c h_general h_matching_content_length h_content_length)
      | h_matching_transfer_encoding \<Rightarrow>
          advance (match_char TRANSFER_ENCODING i c h_general h_matching_transfer_encoding h_transfer_encoding)
      | h_matching_upgrade \<Rightarrow>
          advance (match_char UPGRADE i c h_general h_matching_upgrade h_upgrade)
      | h_connection \<Rightarrow> Some (if ch \<noteq> SP then p\<lparr>hp_header_state := h_general\<rparr> else p)
      | h_content_length \<Rightarrow> Some (if ch \<noteq> SP then p\<lparr>hp_header_state := h_general\<rparr> else p)
      | h_transfer_encoding \<Rightarrow> Some (if ch \<noteq> SP then p\<lparr>hp_header_state := h_general\<rparr> else p)
      | h_upgrade \<Rightarrow> Some (if ch \<noteq> SP then p\<lparr>hp_header_state := h_general\<rparr> else p)
      | _ \<Rightarrow> None)"

text \<open>
  \<open>pe\<close>, where the fast scans of \<open>h_general\<close> stop, and the \<open>while\<close> loop over a name: it looks one
  character ahead and gives the last position it moves to, \<open>None\<close> when it looks outside the buffer.
\<close>

definition scan_limit :: "'d env \<Rightarrow> nat \<Rightarrow> nat" where
  "scan_limit e p = p + min (length (env_data e) - p) (unat (env_max e))"

function field_skip :: "'d env \<Rightarrow> nat \<Rightarrow> nat \<Rightarrow> nat option" where
  "field_skip e pe p =
     (if p + 1 < pe
      then case byte_at e (p + 1) of
             None \<Rightarrow> None
           | Some c \<Rightarrow> if TOKEN c \<noteq> NUL then field_skip e pe (p + 1) else Some p
      else Some p)"
  by pat_completeness auto
termination by (relation "measure (\<lambda>(e, pe, p). pe - p)") auto

declare field_skip.simps [simp del]

lemma field_skip_ge: "field_skip e pe p = Some q \<Longrightarrow> p \<le> q"
proof (induction e pe p rule: field_skip.induct)
  case (1 e pe p)
  then show ?case
    by (subst (asm) field_skip.simps) (fastforce split: if_splits option.splits)
qed

definition field_end :: "'d env \<Rightarrow> nat \<Rightarrow> 'd exec \<Rightarrow> 'd outcome" where
  "field_end e start x =
     (if ex_pos x = length (env_data e)
      then let y = x\<lparr>ex_pos := ex_pos x - 1\<rparr> in COUNT_HEADER_SIZE e (ex_pos y - start) y
      else andthen (COUNT_HEADER_SIZE e (ex_pos x - start) x) (\<lambda>y.
        if ex_ch y = CHR '':''
        then CALLBACK_DATA e M_header_field (UPDATE_STATE s_header_value_discard_ws y)
        else fail HPE_INVALID_HEADER_TOKEN y))"

function field_loop :: "'d env \<Rightarrow> nat \<Rightarrow> 'd exec \<Rightarrow> 'd outcome" where
  "field_loop e start x =
     (if ex_pos x = length (env_data e) then field_end e start x
      else case byte_at e (ex_pos x) of
        None \<Rightarrow> Abort
      | Some ch \<Rightarrow>
          let y = x\<lparr>ex_ch := ch\<rparr> in
          if TOKEN ch = NUL then field_end e start y
          else if hp_header_state (ex_hp y) = h_general
          then case field_skip e (scan_limit e (ex_pos y)) (ex_pos y) of
                 None \<Rightarrow> Abort
               | Some q \<Rightarrow> field_loop e start (y\<lparr>ex_pos := Suc q\<rparr>)
          else case field_char ch (ex_hp y) of
                 None \<Rightarrow> Abort
               | Some q \<Rightarrow> field_loop e start (y\<lparr>ex_hp := q, ex_pos := Suc (ex_pos y)\<rparr>))"
  by pat_completeness auto
termination
  by (relation "measure (\<lambda>(e, start, x). length (env_data e) - ex_pos x)")
     (auto simp: byte_at_def split: if_splits dest!: field_skip_ge)

declare field_loop.simps [simp del]

definition step_header_field :: "'d env \<Rightarrow> 'd exec \<Rightarrow> 'd outcome" where
  "step_header_field e x = field_loop e (ex_pos x) x"

section \<open>Field values\<close>

definition value_start_state :: "char \<Rightarrow> 'd http_parser \<Rightarrow> http_errno + 'd http_parser" where
  "value_start_state ch p =
     (let c = LOWER ch; become = (\<lambda>h. Inr (p\<lparr>hp_header_state := h\<rparr>)) in
      case hp_header_state p of
        h_upgrade \<Rightarrow> Inr (set_flag F_UPGRADE p\<lparr>hp_header_state := h_general\<rparr>)
      | h_transfer_encoding \<Rightarrow>
          become (if c = CHR ''c'' then h_matching_transfer_encoding_chunked else h_general)
      | h_content_length \<Rightarrow>
          if \<not> IS_NUM ch then Inl HPE_INVALID_CONTENT_LENGTH
          else if has_flag F_CONTENTLENGTH p then Inl HPE_UNEXPECTED_CONTENT_LENGTH
          else Inr (set_flag F_CONTENTLENGTH p\<lparr>hp_content_length := of_nat (digit_val ch),
                      hp_header_state := h_content_length_num\<rparr>)
      | h_content_length_ws \<Rightarrow> Inr p
      | h_connection \<Rightarrow>
          become (if c = CHR ''k'' then h_matching_connection_keep_alive
                  else if c = CHR ''c'' then h_matching_connection_close
                  else if c = CHR ''u'' then h_matching_connection_upgrade
                  else h_matching_connection_token)
      | h_matching_connection_token_start \<Rightarrow> Inr p
      | _ \<Rightarrow> become h_general)"

definition step_header_value_start :: "'d exec \<Rightarrow> 'd outcome" where
  "step_header_value_start x =
     (let y = upd_hp (\<lambda>p. p\<lparr>hp_index := 0\<rparr>) (UPDATE_STATE s_header_value (MARK M_header_value x)) in
      case value_start_state (ex_ch x) (ex_hp y) of
        Inl err \<Rightarrow> fail err y
      | Inr q \<Rightarrow> Next (y\<lparr>ex_hp := q\<rparr>))"

definition step_header_value_discard_ws :: "'d exec \<Rightarrow> 'd outcome" where
  "step_header_value_discard_ws x =
     (if ex_ch x = SP \<or> ex_ch x = TAB then Next x
      else if ex_ch x = CR then Next (UPDATE_STATE s_header_value_discard_ws_almost_done x)
      else if ex_ch x = LF then Next (UPDATE_STATE s_header_value_discard_lws x)
      else step_header_value_start x)"

text \<open>
  One character of a value in a state other than \<open>h_general\<close>: the next value state and
  parser, a rejected content length, or the assertion.
\<close>

datatype 'd value_step = Value_next header_state "'d http_parser" | Value_fail header_state | Value_abort

definition content_length_digit :: "char \<Rightarrow> 'd http_parser \<Rightarrow> 'd value_step" where
  "content_length_digit ch p =
     (if ch = SP then Value_next h_content_length_ws p
      else if \<not> IS_NUM ch then Value_fail h_content_length_num
      else let t = hp_content_length p * 10 + of_nat (digit_val ch) in
        if (ULLONG_MAX - 10) div 10 < hp_content_length p then Value_fail h_content_length_num
        else Value_next h_content_length_num (p\<lparr>hp_content_length := t\<rparr>))"

definition connection_flag :: "header_state \<Rightarrow> 'd http_parser \<Rightarrow> 'd http_parser" where
  "connection_flag h p =
     (if h = h_connection_keep_alive then set_flag F_CONNECTION_KEEP_ALIVE p
      else if h = h_connection_close then set_flag F_CONNECTION_CLOSE p
      else if h = h_connection_upgrade then set_flag F_CONNECTION_UPGRADE p
      else p)"

definition connection_token_end :: "header_state \<Rightarrow> char \<Rightarrow> 'd http_parser \<Rightarrow> 'd value_step" where
  "connection_token_end h ch p =
     (if ch = CHR '','' then Value_next h_matching_connection_token_start (connection_flag h p\<lparr>hp_index := 0\<rparr>)
      else if ch \<noteq> SP then Value_next h_matching_connection_token p
      else Value_next h p)"

definition value_char :: "header_state \<Rightarrow> char \<Rightarrow> 'd http_parser \<Rightarrow> 'd value_step" where
  "value_char h ch p =
     (let c = LOWER ch; i = hp_index p + 1;
          matching = (\<lambda>w bad matched. Value_next (match_char w i c bad h matched) (p\<lparr>hp_index := i\<rparr>)) in
      case h of
        h_connection \<Rightarrow> Value_abort
      | h_transfer_encoding \<Rightarrow> Value_abort
      | h_content_length \<Rightarrow> if ch = SP then Value_next h_content_length p else content_length_digit ch p
      | h_content_length_num \<Rightarrow> content_length_digit ch p
      | h_content_length_ws \<Rightarrow> if ch = SP then Value_next h p else Value_fail h
      | h_matching_transfer_encoding_chunked \<Rightarrow> matching CHUNKED h_general h_transfer_encoding_chunked
      | h_matching_connection_token_start \<Rightarrow>
          Value_next (if c = CHR ''k'' then h_matching_connection_keep_alive
                      else if c = CHR ''c'' then h_matching_connection_close
                      else if c = CHR ''u'' then h_matching_connection_upgrade
                      else if STRICT_TOKEN c \<noteq> NUL then h_matching_connection_token
                      else if c = SP \<or> c = TAB then h
                      else h_general) p
      | h_matching_connection_keep_alive \<Rightarrow>
          matching KEEP_ALIVE h_matching_connection_token h_connection_keep_alive
      | h_matching_connection_close \<Rightarrow> matching CLOSE h_matching_connection_token h_connection_close
      | h_matching_connection_upgrade \<Rightarrow> matching UPGRADE h_matching_connection_token h_connection_upgrade
      | h_matching_connection_token \<Rightarrow>
          if ch = CHR '','' then Value_next h_matching_connection_token_start (p\<lparr>hp_index := 0\<rparr>)
          else Value_next h p
      | h_transfer_encoding_chunked \<Rightarrow> Value_next (if ch \<noteq> SP then h_general else h) p
      | h_connection_keep_alive \<Rightarrow> connection_token_end h ch p
      | h_connection_close \<Rightarrow> connection_token_end h ch p
      | h_connection_upgrade \<Rightarrow> connection_token_end h ch p
      | _ \<Rightarrow> Value_next h_general p)"

definition value_char_ok :: "'d env \<Rightarrow> char \<Rightarrow> bool" where
  "value_char_ok e ch \<longleftrightarrow> env_lenient e \<or> IS_HEADER_CHAR ch"

text \<open>
  The scan of \<open>h_general\<close> up to \<open>pe\<close>: the position it leaves, and whether it met a character
  that is not allowed; \<open>None\<close> when it reads outside the buffer. A line end is left for the outer loop,
  so the position steps back.
\<close>

function value_skip :: "'d env \<Rightarrow> nat \<Rightarrow> nat \<Rightarrow> (nat \<times> bool) option" where
  "value_skip e pe p =
     (if p = pe then Some (if p = length (env_data e) then p - 1 else p, False)
      else case byte_at e p of
        None \<Rightarrow> None
      | Some c \<Rightarrow>
          if c = CR \<or> c = LF then Some (p - 1, False)
          else if \<not> value_char_ok e c then Some (p, True)
          else value_skip e pe (p + 1))"
  by pat_completeness auto
termination
  by (relation "measure (\<lambda>(e, pe, p). length (env_data e) - p)") (auto simp: byte_at_def split: if_splits)

declare value_skip.simps [simp del]

lemma value_skip_from: "value_skip e pe p = Some r \<Longrightarrow> p \<le> Suc (fst r)"
proof (induction e pe p rule: value_skip.induct)
  case (1 e pe p)
  then show ?case
    by (subst (asm) value_skip.simps) (fastforce split: if_splits option.splits)
qed

lemma value_skip_ge:
  assumes "p < length (env_data e)" "env_data e ! p \<noteq> CR" "env_data e ! p \<noteq> LF" "value_skip e pe p = Some r"
  shows "p \<le> fst r"
  using assms value_skip_from[of e pe "p + 1" r]
  by (subst (asm) value_skip.simps) (auto simp: byte_at_def split: if_splits)

lemma value_skip_decreases:
  assumes "p < length (env_data e)" "env_data e ! p \<noteq> CR" "env_data e ! p \<noteq> LF" "value_skip e pe p = Some (q, b)"
  shows "length (env_data e) - Suc q < length (env_data e) - p"
  using value_skip_ge[OF assms] assms(1) by simp

definition value_end :: "'d env \<Rightarrow> nat \<Rightarrow> header_state \<Rightarrow> 'd exec \<Rightarrow> 'd outcome" where
  "value_end e start h x =
     (let y = upd_hp (\<lambda>p. p\<lparr>hp_header_state := h\<rparr>) x;
          z = (if ex_pos y = length (env_data e) then y\<lparr>ex_pos := ex_pos y - 1\<rparr> else y)
      in COUNT_HEADER_SIZE e (ex_pos z - start) z)"

definition value_cr :: "'d env \<Rightarrow> nat \<Rightarrow> header_state \<Rightarrow> 'd exec \<Rightarrow> 'd outcome" where
  "value_cr e start h x =
     andthen (CALLBACK_DATA e M_header_value
                (upd_hp (\<lambda>p. p\<lparr>hp_header_state := h\<rparr>) (UPDATE_STATE s_header_almost_done x)))
             (value_end e start h)"

definition value_lf :: "'d env \<Rightarrow> nat \<Rightarrow> header_state \<Rightarrow> 'd exec \<Rightarrow> 'd outcome" where
  "value_lf e start h x =
     andthen (COUNT_HEADER_SIZE e (ex_pos x - start) (UPDATE_STATE s_header_almost_done x)) (\<lambda>y.
     andthen (CALLBACK_DATA_NOADVANCE e M_header_value (upd_hp (\<lambda>p. p\<lparr>hp_header_state := h\<rparr>) y)) Again)"

function value_loop :: "'d env \<Rightarrow> nat \<Rightarrow> header_state \<Rightarrow> 'd exec \<Rightarrow> 'd outcome" where
  "value_loop e start h x =
     (if ex_pos x = length (env_data e) then value_end e start h x
      else case byte_at e (ex_pos x) of
        None \<Rightarrow> Abort
      | Some ch \<Rightarrow>
          let p = ex_pos x; y = x\<lparr>ex_ch := ch\<rparr> in
          if ch = CR then value_cr e start h y
          else if ch = LF then value_lf e start h y
          else if \<not> value_char_ok e ch then fail HPE_INVALID_HEADER_TOKEN y
          else if h = h_general
          then case value_skip e (scan_limit e p) p of
                 None \<Rightarrow> Abort
               | Some (q, bad) \<Rightarrow>
                   if bad then fail HPE_INVALID_HEADER_TOKEN (y\<lparr>ex_pos := q\<rparr>)
                   else value_loop e start h (y\<lparr>ex_pos := Suc q\<rparr>)
          else case value_char h ch (ex_hp y) of
                 Value_abort \<Rightarrow> Abort
               | Value_fail h' \<Rightarrow>
                   fail HPE_INVALID_CONTENT_LENGTH (upd_hp (\<lambda>p. p\<lparr>hp_header_state := h'\<rparr>) y)
               | Value_next h' q \<Rightarrow> value_loop e start h' (y\<lparr>ex_hp := q, ex_pos := Suc p\<rparr>))"
  by pat_completeness auto
termination
  by (relation "measure (\<lambda>(e, start, h, x). length (env_data e) - ex_pos x)")
     (auto simp: byte_at_def split: if_splits intro: value_skip_decreases)

declare value_loop.simps [simp del]

definition step_header_value :: "'d env \<Rightarrow> 'd exec \<Rightarrow> 'd outcome" where
  "step_header_value e x = value_loop e (ex_pos x) (hp_header_state (ex_hp x)) x"

section \<open>The end of a header line\<close>

definition step_header_almost_done :: "'d exec \<Rightarrow> 'd outcome" where
  "step_header_almost_done x =
     (if ex_ch x \<noteq> LF then fail HPE_LF_EXPECTED x else Next (UPDATE_STATE s_header_value_lws x))"

text \<open>The flag a finished header sets.\<close>

definition finish_header :: "'d http_parser \<Rightarrow> 'd http_parser" where
  "finish_header p =
     (if hp_header_state p = h_transfer_encoding_chunked then set_flag F_CHUNKED p
      else connection_flag (hp_header_state p) p)"

definition step_header_value_lws :: "'d exec \<Rightarrow> 'd outcome" where
  "step_header_value_lws x =
     (if ex_ch x = SP \<or> ex_ch x = TAB
      then Again (UPDATE_STATE s_header_value_start
             (if hp_header_state (ex_hp x) = h_content_length_num
              then upd_hp (\<lambda>p. p\<lparr>hp_header_state := h_content_length_ws\<rparr>) x else x))
      else Again (UPDATE_STATE s_header_field_start (upd_hp finish_header x)))"

definition step_header_value_discard_lws :: "'d env \<Rightarrow> 'd exec \<Rightarrow> 'd outcome" where
  "step_header_value_discard_lws e x =
     (if ex_ch x = SP \<or> ex_ch x = TAB then Next (UPDATE_STATE s_header_value_discard_ws x)
      else if hp_header_state (ex_hp x) = h_content_length then fail HPE_INVALID_CONTENT_LENGTH x
      else andthen (CALLBACK_DATA_NOADVANCE e M_header_value
             (UPDATE_STATE s_header_field_start (MARK M_header_value (upd_hp finish_header x)))) Again)"

section \<open>The end of the header block\<close>

definition step_headers_almost_done :: "'d env \<Rightarrow> 'd exec \<Rightarrow> 'd outcome" where
  "step_headers_almost_done e x =
     STRICT_CHECK (ex_ch x \<noteq> LF)
      (if has_flag F_TRAILING (ex_hp x)
       then andthen (notify_chunk_complete e (ex_pos x) (UPDATE_STATE s_message_done x)) Again
       else if has_flag F_CHUNKED (ex_hp x) \<and> has_flag F_CONTENTLENGTH (ex_hp x)
       then fail HPE_UNEXPECTED_CONTENT_LENGTH x
       else
         let y = upd_hp (\<lambda>p. p\<lparr>hp_upgrade :=
                   (if has_flag F_UPGRADE p \<and> has_flag F_CONNECTION_UPGRADE p
                    then hp_type p = HTTP_REQUEST \<or> hp_status_code p = 101
                    else hp_method p = HTTP_CONNECT)\<rparr>) (UPDATE_STATE s_headers_done x);
             check = (\<lambda>z. if hp_errno (ex_hp z) \<noteq> HPE_OK then RETURN (ex_pos z) z else Again z)
         in case on_headers_complete (env_settings e) of
              None \<Rightarrow> check y
            | Some f \<Rightarrow>
                (case f (ex_hp y) of
                   (rc, q) \<Rightarrow>
                     let z = y\<lparr>ex_hp := q\<rparr> in
                     if rc = 0 then check z
                     else if rc = 2 then check (upd_hp (\<lambda>p. set_flag F_SKIPBODY (p\<lparr>hp_upgrade := True\<rparr>)) z)
                     else if rc = 1 then check (upd_hp (set_flag F_SKIPBODY) z)
                     else RETURN (ex_pos z) (SET_ERRNO HPE_CB_headers_complete z)))
      x"

definition step_headers_done :: "'d env \<Rightarrow> 'd exec \<Rightarrow> 'd outcome" where
  "step_headers_done e x =
     STRICT_CHECK (ex_ch x \<noteq> LF)
      (let y = upd_hp (\<lambda>p. p\<lparr>hp_nread := 0\<rparr>) (x\<lparr>ex_nread := 0\<rparr>);
           p = ex_hp y;
           hasBody = (has_flag F_CHUNKED p \<or> (hp_content_length p > 0 \<and> hp_content_length p \<noteq> ULLONG_MAX));
           complete = notify_message_complete e (UPDATE_STATE (NEW_MESSAGE p) y)
       in if hp_upgrade p \<and> (hp_method p = HTTP_CONNECT \<or> has_flag F_SKIPBODY p \<or> \<not> hasBody)
          then andthen complete (\<lambda>z. RETURN (ex_pos z + 1) z)
          else if has_flag F_SKIPBODY p then complete
          else if has_flag F_CHUNKED p then Next (UPDATE_STATE s_chunk_size_start y)
          else if hp_content_length p = 0 then complete
          else if hp_content_length p \<noteq> ULLONG_MAX then Next (UPDATE_STATE s_body_identity y)
          else if \<not> http_message_needs_eof p then complete
          else Next (UPDATE_STATE s_body_identity_eof y))
      x"

end
