(* ===== verification/HttpParser.thy ===== *)
theory HttpParser
  imports HttpHeaders
begin

text \<open>
  The body states, the dispatch on the state and \<open>http_parser_execute\<close> itself. The jump back to
  \<open>reexecute\<close> and the loop over the buffer take fuel: eight jumps per character and one round per
  character and the final test. The safety theory shows that this never runs out.
\<close>

section \<open>Bodies\<close>

definition to_read :: "'d env \<Rightarrow> 'd exec \<Rightarrow> u64" where
  "to_read e x = min (hp_content_length (ex_hp x)) (of_nat (length (env_data e) - ex_pos x))"

text \<open>
  The part that both body states share: mark the body, subtract what the buffer has, and move to
  its last byte.
\<close>

definition consume_body :: "'d env \<Rightarrow> 'd exec \<Rightarrow> 'd exec" where
  "consume_body e x =
     (let n = to_read e x;
          y = upd_hp (\<lambda>p. p\<lparr>hp_content_length := hp_content_length p - n\<rparr>) (MARK M_body x)
      in y\<lparr>ex_pos := ex_pos y + unat n - 1\<rparr>)"

definition step_body_identity :: "'d env \<Rightarrow> 'd exec \<Rightarrow> 'd outcome" where
  "step_body_identity e x =
     (if \<not> (hp_content_length (ex_hp x) \<noteq> 0 \<and> hp_content_length (ex_hp x) \<noteq> ULLONG_MAX) then Abort
      else let y = consume_body e x in
        if hp_content_length (ex_hp y) = 0
        then andthen (CALLBACK_DATA_ER e M_body (ex_pos y + 1) (ex_pos y) (UPDATE_STATE s_message_done y)) Again
        else Next y)"

definition step_body_identity_eof :: "'d env \<Rightarrow> 'd exec \<Rightarrow> 'd outcome" where
  "step_body_identity_eof e x = Next ((MARK M_body x)\<lparr>ex_pos := length (env_data e) - 1\<rparr>)"

definition step_message_done :: "'d env \<Rightarrow> 'd exec \<Rightarrow> 'd outcome" where
  "step_message_done e x =
     andthen (notify_message_complete e (UPDATE_STATE (NEW_MESSAGE (ex_hp x)) x)) (\<lambda>y.
       if hp_upgrade (ex_hp y) then RETURN (ex_pos y + 1) y else Next y)"

definition step_chunk_size_start :: "'d exec \<Rightarrow> 'd outcome" where
  "step_chunk_size_start x =
     (if ex_nread x \<noteq> 1 \<or> \<not> has_flag F_CHUNKED (ex_hp x) then Abort
      else let v = unhex_val (ex_ch x) in
        if v = - 1 then fail HPE_INVALID_CHUNK_SIZE x
        else Next (UPDATE_STATE s_chunk_size (upd_hp (\<lambda>p. p\<lparr>hp_content_length := word_of_int v\<rparr>) x)))"

definition step_chunk_size :: "'d exec \<Rightarrow> 'd outcome" where
  "step_chunk_size x =
     (if \<not> has_flag F_CHUNKED (ex_hp x) then Abort
      else if ex_ch x = CR then Next (UPDATE_STATE s_chunk_size_almost_done x)
      else let v = unhex_val (ex_ch x) in
        if v = - 1
        then if ex_ch x = CHR '';'' \<or> ex_ch x = SP then Next (UPDATE_STATE s_chunk_parameters x)
             else fail HPE_INVALID_CHUNK_SIZE x
        else let t = hp_content_length (ex_hp x) * 16 + word_of_int v in
          if (ULLONG_MAX - 16) div 16 < hp_content_length (ex_hp x) then fail HPE_INVALID_CONTENT_LENGTH x
          else Next (upd_hp (\<lambda>p. p\<lparr>hp_content_length := t\<rparr>) x))"

definition step_chunk_parameters :: "'d exec \<Rightarrow> 'd outcome" where
  "step_chunk_parameters x =
     (if \<not> has_flag F_CHUNKED (ex_hp x) then Abort
      else if ex_ch x = CR then Next (UPDATE_STATE s_chunk_size_almost_done x)
      else Next x)"

definition step_chunk_size_almost_done :: "'d env \<Rightarrow> 'd exec \<Rightarrow> 'd outcome" where
  "step_chunk_size_almost_done e x =
     (if \<not> has_flag F_CHUNKED (ex_hp x) then Abort
      else STRICT_CHECK (ex_ch x \<noteq> LF)
        (let y = upd_hp (\<lambda>p. p\<lparr>hp_nread := 0\<rparr>) (x\<lparr>ex_nread := 0\<rparr>) in
         notify_chunk_header e
           (if hp_content_length (ex_hp y) = 0
            then UPDATE_STATE s_header_field_start (upd_hp (set_flag F_TRAILING) y)
            else UPDATE_STATE s_chunk_data y))
        x)"

definition step_chunk_data :: "'d env \<Rightarrow> 'd exec \<Rightarrow> 'd outcome" where
  "step_chunk_data e x =
     (if \<not> has_flag F_CHUNKED (ex_hp x) \<or>
         \<not> (hp_content_length (ex_hp x) \<noteq> 0 \<and> hp_content_length (ex_hp x) \<noteq> ULLONG_MAX) then Abort
      else let y = consume_body e x in
        if hp_content_length (ex_hp y) = 0 then Next (UPDATE_STATE s_chunk_data_almost_done y) else Next y)"

definition step_chunk_data_almost_done :: "'d env \<Rightarrow> 'd exec \<Rightarrow> 'd outcome" where
  "step_chunk_data_almost_done e x =
     (if \<not> has_flag F_CHUNKED (ex_hp x) \<or> hp_content_length (ex_hp x) \<noteq> 0 then Abort
      else STRICT_CHECK (ex_ch x \<noteq> CR) (CALLBACK_DATA e M_body (UPDATE_STATE s_chunk_data_done x)) x)"

definition step_chunk_data_done :: "'d env \<Rightarrow> 'd exec \<Rightarrow> 'd outcome" where
  "step_chunk_data_done e x =
     (if \<not> has_flag F_CHUNKED (ex_hp x) then Abort
      else STRICT_CHECK (ex_ch x \<noteq> LF)
        (let y = upd_hp (\<lambda>p. p\<lparr>hp_nread := 0\<rparr>) (x\<lparr>ex_nread := 0\<rparr>) in
         notify_chunk_complete e (ex_pos x + 1) (UPDATE_STATE s_chunk_size_start y))
        x)"

section \<open>The switch\<close>

definition exec_switch :: "'d env \<Rightarrow> 'd exec \<Rightarrow> 'd outcome" where
  "exec_switch e x =
     (case ex_state x of
        s_dead \<Rightarrow> step_dead x
      | s_start_req_or_res \<Rightarrow> step_start_req_or_res e x
      | s_res_or_resp_H \<Rightarrow> step_res_or_resp_H x
      | s_start_res \<Rightarrow> step_start_res e x
      | s_res_H \<Rightarrow> step_expect (CHR ''T'') s_res_HT x
      | s_res_HT \<Rightarrow> step_expect (CHR ''T'') s_res_HTT x
      | s_res_HTT \<Rightarrow> step_expect (CHR ''P'') s_res_HTTP x
      | s_res_HTTP \<Rightarrow> step_expect (CHR ''/'') s_res_http_major x
      | s_res_http_major \<Rightarrow> step_http_major s_res_http_dot x
      | s_res_http_dot \<Rightarrow> step_version_char (CHR ''.'') s_res_http_minor x
      | s_res_http_minor \<Rightarrow> step_http_minor s_res_http_end x
      | s_res_http_end \<Rightarrow> step_version_char SP s_res_first_status_code x
      | s_res_first_status_code \<Rightarrow> step_res_first_status_code x
      | s_res_status_code \<Rightarrow> step_res_status_code x
      | s_res_status_start \<Rightarrow> step_res_status_start x
      | s_res_status \<Rightarrow> step_res_status e x
      | s_res_line_almost_done \<Rightarrow> step_expect LF s_header_field_start x
      | s_start_req \<Rightarrow> step_start_req e x
      | s_req_method \<Rightarrow> step_req_method x
      | s_req_spaces_before_url \<Rightarrow> step_req_spaces_before_url x
      | s_req_schema \<Rightarrow> step_req_schema x
      | s_req_schema_slash \<Rightarrow> step_req_schema x
      | s_req_schema_slash_slash \<Rightarrow> step_req_schema x
      | s_req_server_start \<Rightarrow> step_req_schema x
      | s_req_server \<Rightarrow> step_req_url e x
      | s_req_server_with_at \<Rightarrow> step_req_url e x
      | s_req_path \<Rightarrow> step_req_url e x
      | s_req_query_string_start \<Rightarrow> step_req_url e x
      | s_req_query_string \<Rightarrow> step_req_url e x
      | s_req_fragment_start \<Rightarrow> step_req_url e x
      | s_req_fragment \<Rightarrow> step_req_url e x
      | s_req_http_start \<Rightarrow> step_req_http_start x
      | s_req_http_H \<Rightarrow> step_expect (CHR ''T'') s_req_http_HT x
      | s_req_http_HT \<Rightarrow> step_expect (CHR ''T'') s_req_http_HTT x
      | s_req_http_HTT \<Rightarrow> step_expect (CHR ''P'') s_req_http_HTTP x
      | s_req_http_I \<Rightarrow> step_expect (CHR ''C'') s_req_http_IC x
      | s_req_http_IC \<Rightarrow> step_expect (CHR ''E'') s_req_http_HTTP x
      | s_req_http_HTTP \<Rightarrow> step_expect (CHR ''/'') s_req_http_major x
      | s_req_http_major \<Rightarrow> step_http_major s_req_http_dot x
      | s_req_http_dot \<Rightarrow> step_version_char (CHR ''.'') s_req_http_minor x
      | s_req_http_minor \<Rightarrow> step_http_minor s_req_http_end x
      | s_req_http_end \<Rightarrow> step_req_http_end x
      | s_req_line_almost_done \<Rightarrow> step_req_line_almost_done x
      | s_header_field_start \<Rightarrow> step_header_field_start x
      | s_header_field \<Rightarrow> step_header_field e x
      | s_header_value_discard_ws \<Rightarrow> step_header_value_discard_ws x
      | s_header_value_start \<Rightarrow> step_header_value_start x
      | s_header_value \<Rightarrow> step_header_value e x
      | s_header_almost_done \<Rightarrow> step_header_almost_done x
      | s_header_value_lws \<Rightarrow> step_header_value_lws x
      | s_header_value_discard_ws_almost_done \<Rightarrow> step_expect LF s_header_value_discard_lws x
      | s_header_value_discard_lws \<Rightarrow> step_header_value_discard_lws e x
      | s_headers_almost_done \<Rightarrow> step_headers_almost_done e x
      | s_headers_done \<Rightarrow> step_headers_done e x
      | s_body_identity \<Rightarrow> step_body_identity e x
      | s_body_identity_eof \<Rightarrow> step_body_identity_eof e x
      | s_message_done \<Rightarrow> step_message_done e x
      | s_chunk_size_start \<Rightarrow> step_chunk_size_start x
      | s_chunk_size \<Rightarrow> step_chunk_size x
      | s_chunk_parameters \<Rightarrow> step_chunk_parameters x
      | s_chunk_size_almost_done \<Rightarrow> step_chunk_size_almost_done e x
      | s_chunk_data \<Rightarrow> step_chunk_data e x
      | s_chunk_data_almost_done \<Rightarrow> step_chunk_data_almost_done e x
      | s_chunk_data_done \<Rightarrow> step_chunk_data_done e x)"

primrec reexecute :: "'d env \<Rightarrow> nat \<Rightarrow> 'd exec \<Rightarrow> 'd outcome" where
  "reexecute e 0 x = Diverge"
| "reexecute e (Suc n) x = (case exec_switch e x of Again y \<Rightarrow> reexecute e n y | r \<Rightarrow> r)"

abbreviation reexecute_fuel :: nat where "reexecute_fuel \<equiv> 8"

text \<open>One round of the \<open>for\<close> loop, without the final \<open>p++\<close>.\<close>

definition exec_round :: "'d env \<Rightarrow> 'd exec \<Rightarrow> 'd outcome" where
  "exec_round e x =
     (case byte_at e (ex_pos x) of
        None \<Rightarrow> Abort
      | Some ch \<Rightarrow>
          let y = x\<lparr>ex_ch := ch\<rparr> in
          andthen (if PARSING_HEADER (ex_state y) then COUNT_HEADER_SIZE e 1 y else Next y)
            (reexecute e reexecute_fuel))"

definition all_marks :: "mark list" where
  "all_marks = [M_header_field, M_header_value, M_url, M_body, M_status]"

definition exec_finish :: "'d env \<Rightarrow> 'd exec \<Rightarrow> 'd outcome" where
  "exec_finish e x =
     (if length (filter (\<lambda>m. ex_marks x m \<noteq> None) all_marks) > 1 then Abort
      else andthen (fold (\<lambda>m r. andthen r (CALLBACK_DATA_NOADVANCE e m)) all_marks (Next x))
             (RETURN (length (env_data e))))"

primrec exec_loop :: "'d env \<Rightarrow> nat \<Rightarrow> 'd exec \<Rightarrow> 'd outcome" where
  "exec_loop e 0 x = Diverge"
| "exec_loop e (Suc n) x =
     (if ex_pos x = length (env_data e) then exec_finish e x
      else andthen (exec_round e x) (\<lambda>y. exec_loop e n (y\<lparr>ex_pos := Suc (ex_pos y)\<rparr>)))"

section \<open>The whole call\<close>

definition url_mark_states :: "state list" where
  "url_mark_states = [s_req_path, s_req_schema, s_req_schema_slash, s_req_schema_slash_slash,
     s_req_server_start, s_req_server, s_req_server_with_at, s_req_query_string_start,
     s_req_query_string, s_req_fragment_start, s_req_fragment]"

definition initial_marks :: "state \<Rightarrow> mark \<Rightarrow> nat option" where
  "initial_marks s m =
     (if (m = M_header_field \<and> s = s_header_field) \<or> (m = M_header_value \<and> s = s_header_value) \<or>
         (m = M_url \<and> s \<in> set url_mark_states) \<or> (m = M_status \<and> s = s_res_status)
      then Some 0 else None)"

definition exec_init :: "'d http_parser \<Rightarrow> 'd exec" where
  "exec_init p = \<lparr>ex_hp = p, ex_state = hp_state p, ex_nread = hp_nread p, ex_pos = 0, ex_ch = NUL,
     ex_marks = initial_marks (hp_state p)\<rparr>"

text \<open>\<open>len == 0\<close>: the connection has ended. The last \<open>return 0\<close> leaves \<open>nread\<close> and \<open>state\<close> alone.\<close>

definition exec_eof :: "'d env \<Rightarrow> 'd exec \<Rightarrow> 'd outcome" where
  "exec_eof e x =
     (if ex_state x = s_body_identity_eof
      then andthen (CALLBACK_NOTIFY (on_message_complete (env_settings e)) HPE_CB_message_complete (ex_pos x) x)
             (\<lambda>y. Ret 0 (ex_hp y))
      else if ex_state x \<in> {s_dead, s_start_req_or_res, s_start_res, s_start_req} then Ret 0 (ex_hp x)
      else Ret 1 (ex_hp (SET_ERRNO HPE_INVALID_EOF_STATE x)))"

definition make_env :: "u32 \<Rightarrow> 'd http_parser_settings \<Rightarrow> 'd http_parser \<Rightarrow> string \<Rightarrow> 'd env" where
  "make_env mx settings p buf =
     \<lparr>env_settings = settings, env_data = buf, env_max = mx, env_lenient = hp_lenient p\<rparr>"

definition http_parser_execute ::
  "u32 \<Rightarrow> 'd http_parser \<Rightarrow> 'd http_parser_settings \<Rightarrow> string \<Rightarrow> 'd outcome" where
  "http_parser_execute mx p settings buf =
     (if hp_errno p \<noteq> HPE_OK then Ret 0 p
      else if buf = [] then exec_eof (make_env mx settings p buf) (exec_init p)
      else exec_loop (make_env mx settings p buf) (Suc (length buf)) (exec_init p))"

text \<open>The file-scope limit and its setter.\<close>

definition http_parser_set_max_header_size :: "u32 \<Rightarrow> u32" where
  "http_parser_set_max_header_size sz = sz"

end
