(* ===== verification/HttpInvariant.thy ===== *)
theory HttpInvariant
  imports HttpParser
begin

text \<open>
  The invariant of the message parser. A client whose callbacks touch only the \<open>data\<close>
  pointer and the error code (to pause the parser) is the locale \<open>parser_client\<close>. This theory
  states what each state promises of the parser object, of the marks and of the counters, what the
  macros do to it, and that the states of the request and status lines keep it.
\<close>

section \<open>The invariant\<close>

definition keeps_parser :: "'d http_cb \<Rightarrow> bool" where
  "keeps_parser f \<longleftrightarrow> (\<forall>q. \<exists>d err. snd (f q) = q\<lparr>hp_data := d, hp_errno := err\<rparr>)"

definition settings_ok :: "'d http_parser_settings \<Rightarrow> bool" where
  "settings_ok s \<longleftrightarrow>
     (\<forall>f. Some f \<in> {on_message_begin s, on_headers_complete s, on_message_complete s,
                     on_chunk_header s, on_chunk_complete s} \<longrightarrow> keeps_parser f) \<and>
     (\<forall>m f t. data_cb s m = Some f \<longrightarrow> keeps_parser (f t))"

definition field_states :: "header_state set" where
  "field_states = {h_general, h_C, h_CO, h_CON, h_matching_connection, h_matching_proxy_connection,
     h_matching_content_length, h_matching_transfer_encoding, h_matching_upgrade, h_connection,
     h_content_length, h_transfer_encoding, h_upgrade}"

definition chunk_states :: "state set" where
  "chunk_states = {s_chunk_size_start, s_chunk_size, s_chunk_parameters, s_chunk_size_almost_done,
     s_chunk_data, s_chunk_data_almost_done, s_chunk_data_done}"

text \<open>What the parser object satisfies in a state; it does not depend on \<open>hp_state\<close>.\<close>

definition state_ok :: "state \<Rightarrow> 'd http_parser \<Rightarrow> bool" where
  "state_ok s p \<longleftrightarrow>
     (s = s_header_field \<longrightarrow> hp_header_state p \<in> field_states) \<and>
     (s = s_header_value \<longrightarrow> hp_header_state p \<noteq> h_connection \<and> hp_header_state p \<noteq> h_transfer_encoding) \<and>
     (s = s_req_method \<longrightarrow> unat (hp_index p) \<le> length (method_string (hp_method p))) \<and>
     (s \<in> chunk_states \<longrightarrow> has_flag F_CHUNKED p) \<and>
     (s \<in> {s_body_identity, s_chunk_data} \<longrightarrow> hp_content_length p \<noteq> 0) \<and>
     (s \<in> {s_body_identity, s_chunk_data, s_chunk_size, s_chunk_parameters, s_chunk_size_almost_done} \<longrightarrow>
        hp_content_length p \<noteq> ULLONG_MAX) \<and>
     (s = s_chunk_data_almost_done \<longrightarrow> hp_content_length p = 0)"

text \<open>The one mark that may be set in a state.\<close>

definition mark_of :: "state \<Rightarrow> mark option" where
  "mark_of s =
     (if s = s_header_field then Some M_header_field
      else if s = s_header_value then Some M_header_value
      else if s \<in> set url_mark_states then Some M_url
      else if s = s_res_status then Some M_status
      else if s \<in> {s_body_identity, s_body_identity_eof, s_chunk_data, s_chunk_data_almost_done} then Some M_body
      else None)"

definition marks_in :: "mark option \<Rightarrow> (mark \<Rightarrow> nat option) \<Rightarrow> bool" where
  "marks_in a ms \<longleftrightarrow> (\<forall>m. ms m \<noteq> None \<longrightarrow> a = Some m)"

text \<open>A mark lies in the buffer and not behind the position, so the bytes from it on can be handed out.\<close>

definition marks_before :: "'d env \<Rightarrow> 'd exec \<Rightarrow> bool" where
  "marks_before e x \<longleftrightarrow> (\<forall>m b. ex_marks x m = Some b \<longrightarrow> b \<le> ex_pos x \<and> b < length (env_data e))"

definition core :: "'d env \<Rightarrow> u32 \<Rightarrow> 'd exec \<Rightarrow> bool" where
  "core e k x \<longleftrightarrow> hp_errno (ex_hp x) = HPE_OK \<and> state_ok (ex_state x) (ex_hp x) \<and>
     (ex_state x = s_chunk_size_start \<longrightarrow> ex_nread x = k) \<and>
     ex_nread x \<le> env_max e \<and> hp_nread (ex_hp x) \<le> env_max e \<and> marks_before e x"

definition ex_inv :: "'d env \<Rightarrow> u32 \<Rightarrow> 'd exec \<Rightarrow> bool" where
  "ex_inv e k x \<longleftrightarrow> core e k x \<and> marks_in (mark_of (ex_state x)) (ex_marks x) \<and> ex_pos x < length (env_data e)"

definition parser_inv :: "u32 \<Rightarrow> 'd http_parser \<Rightarrow> bool" where
  "parser_inv mx q \<longleftrightarrow> (hp_errno q = HPE_OK \<or> hp_errno q = HPE_PAUSED \<longrightarrow>
     state_ok (hp_state q) q \<and> (hp_state q = s_chunk_size_start \<longrightarrow> hp_nread q = 0) \<and> hp_nread q \<le> mx)"

definition ret_ok :: "'d env \<Rightarrow> nat \<Rightarrow> 'd http_parser \<Rightarrow> bool" where
  "ret_ok e n q \<longleftrightarrow> n \<le> length (env_data e) \<and>
     (hp_errno q = HPE_OK \<longrightarrow> n = length (env_data e) \<or> hp_upgrade q) \<and> parser_inv (env_max e) q"

text \<open>How often a state can still jump back to \<open>reexecute\<close>.\<close>

definition rank :: "state \<Rightarrow> nat" where
  "rank s =
     (if s = s_header_value_lws \<or> s = s_header_value_discard_lws then 4
      else if s = s_header_field_start then 3
      else if s = s_headers_almost_done \<or> s = s_res_status_code then 2
      else if s = s_start_req_or_res \<or> s = s_res_status_start \<or> s = s_header_value \<or> s = s_body_identity then 1
      else 0)"

definition good :: "'d env \<Rightarrow> nat \<Rightarrow> 'd outcome \<Rightarrow> bool" where
  "good e b r \<longleftrightarrow>
     (case r of
        Next y \<Rightarrow> ex_inv e 0 y
      | Again y \<Rightarrow> ex_inv e 0 y \<and> ex_state y \<noteq> s_chunk_size_start \<and> rank (ex_state y) < b
      | Ret n q \<Rightarrow> ret_ok e n q
      | Abort \<Rightarrow> False
      | Diverge \<Rightarrow> False)"

lemma good_simps [simp]:
  "good e b (Next y) \<longleftrightarrow> ex_inv e 0 y"
  "good e b (Again y) \<longleftrightarrow> ex_inv e 0 y \<and> ex_state y \<noteq> s_chunk_size_start \<and> rank (ex_state y) < b"
  "good e b (Ret n q) \<longleftrightarrow> ret_ok e n q"
  "\<not> good e b Abort"
  by (simp_all add: good_def)

section \<open>The macros\<close>

lemma exec_update_simps [simp]:
  "ex_hp (UPDATE_STATE s x) = ex_hp x" "ex_state (UPDATE_STATE s x) = s"
  "ex_nread (UPDATE_STATE s x) = ex_nread x" "ex_pos (UPDATE_STATE s x) = ex_pos x"
  "ex_ch (UPDATE_STATE s x) = ex_ch x" "ex_marks (UPDATE_STATE s x) = ex_marks x"
  "ex_hp (upd_hp f x) = f (ex_hp x)" "ex_state (upd_hp f x) = ex_state x"
  "ex_nread (upd_hp f x) = ex_nread x" "ex_pos (upd_hp f x) = ex_pos x"
  "ex_ch (upd_hp f x) = ex_ch x" "ex_marks (upd_hp f x) = ex_marks x"
  "ex_hp (MARK m x) = ex_hp x" "ex_state (MARK m x) = ex_state x"
  "ex_nread (MARK m x) = ex_nread x" "ex_pos (MARK m x) = ex_pos x"
  "ex_ch (MARK m x) = ex_ch x"
  by (simp_all add: UPDATE_STATE_def upd_hp_def MARK_def)

lemma marks_before_simps [simp]:
  "marks_before e (x\<lparr>ex_hp := p\<rparr>) = marks_before e x" "marks_before e (x\<lparr>ex_state := s\<rparr>) = marks_before e x"
  "marks_before e (x\<lparr>ex_nread := n\<rparr>) = marks_before e x" "marks_before e (x\<lparr>ex_ch := c\<rparr>) = marks_before e x"
  "marks_before e (UPDATE_STATE s x) = marks_before e x" "marks_before e (upd_hp f x) = marks_before e x"
  by (simp_all add: marks_before_def UPDATE_STATE_def upd_hp_def)

lemma marks_before_steps [simp]:
  "marks_before e x \<Longrightarrow> ex_pos x < length (env_data e) \<Longrightarrow> marks_before e (MARK m x)"
  "marks_before e x \<Longrightarrow> marks_before e (x\<lparr>ex_marks := (ex_marks x)(m := None)\<rparr>)"
  "marks_before e x \<Longrightarrow> ex_pos x \<le> p \<Longrightarrow> marks_before e (x\<lparr>ex_pos := p\<rparr>)"
  by (auto simp: marks_before_def MARK_def intro: order_trans)

lemma marks_before_last [simp]: "marks_before e x \<Longrightarrow> marks_before e (x\<lparr>ex_pos := length (env_data e) - Suc 0\<rparr>)"
  by (fastforce simp: marks_before_def)

lemma marks_before_cong:
  "ex_marks y = ex_marks x \<Longrightarrow> ex_pos y = ex_pos x \<Longrightarrow> marks_before e y = marks_before e x"
  by (simp add: marks_before_def)

lemma andthen_simps [simp]:
  "andthen (Next x) k = k x" "andthen (Again x) k = Again x" "andthen (Ret n q) k = Ret n q"
  "andthen Abort k = Abort"
  by (simp_all add: andthen_def)

lemma marks_in_simps:
  "marks_in None ms \<Longrightarrow> marks_in a ms"
  "marks_in (Some m) (ex_marks x) \<Longrightarrow> marks_in (Some m) (ex_marks (MARK m x))"
  "marks_in None (ex_marks x) \<Longrightarrow> marks_in (Some m) (ex_marks (MARK m x))"
  "marks_in (Some m) ms \<Longrightarrow> marks_in None (ms(m := None))"
  by (auto simp: marks_in_def MARK_def split: if_splits)

lemma fail_eq: "err \<noteq> HPE_OK \<Longrightarrow> fail err x = Ret (ex_pos x)
   ((ex_hp x)\<lparr>hp_nread := ex_nread x, hp_errno := err, hp_state := ex_state x\<rparr>)"
  by (simp add: fail_def goto_error_def RETURN_def SET_ERRNO_def Let_def)

lemma fail_good: "ex_pos x \<le> length (env_data e) \<Longrightarrow> err \<noteq> HPE_OK \<Longrightarrow> err \<noteq> HPE_PAUSED \<Longrightarrow> good e b (fail err x)"
  by (simp add: fail_eq ret_ok_def parser_inv_def)

lemma STRICT_CHECK_good:
  "ex_pos x \<le> length (env_data e) \<Longrightarrow> (\<not> c \<Longrightarrow> good e b k) \<Longrightarrow> good e b (STRICT_CHECK c k x)"
  by (simp add: STRICT_CHECK_def fail_good)

lemma COUNT_cases:
  assumes "ex_pos x \<le> length (env_data e)"
  obtains (ok) "COUNT_HEADER_SIZE e v x = Next (x\<lparr>ex_nread := ex_nread x + of_nat v\<rparr>)"
      "ex_nread x + of_nat v \<le> env_max e"
  | (over) n q where "COUNT_HEADER_SIZE e v x = Ret n q" "\<And>b. good e b (Ret n q)"
proof (cases "ex_nread x + of_nat v \<le> env_max e")
  case True
  then have "\<not> env_max e < ex_nread x + of_nat v" by simp
  then show ?thesis using True by (intro ok) (simp_all add: COUNT_HEADER_SIZE_def Let_def)
next
  case False
  let ?y = "x\<lparr>ex_nread := ex_nread x + of_nat v\<rparr>"
  have "good e b (fail HPE_HEADER_OVERFLOW ?y)" for b by (rule fail_good) (simp_all add: assms)
  moreover have "COUNT_HEADER_SIZE e v x = fail HPE_HEADER_OVERFLOW ?y"
    using False by (simp add: COUNT_HEADER_SIZE_def Let_def not_le)
  ultimately show ?thesis by (intro over) (simp_all add: fail_eq)
qed

text \<open>Two executions that differ only in what a callback may change.\<close>

definition quiet :: "'d exec \<Rightarrow> 'd exec \<Rightarrow> bool" where
  "quiet x y \<longleftrightarrow> (\<exists>s d. (s = hp_state (ex_hp x) \<or> s = ex_state x) \<and> y = x\<lparr>ex_hp := (ex_hp x)\<lparr>hp_state := s, hp_data := d\<rparr>\<rparr>)"

lemma quiet_refl: "quiet x x"
  by (simp add: quiet_def exI[of _ "hp_state (ex_hp x)"] exI[of _ "hp_data (ex_hp x)"])

lemma state_ok_cong:
  "state_ok s (p\<lparr>hp_state := t\<rparr>) = state_ok s p" "state_ok s (p\<lparr>hp_data := d\<rparr>) = state_ok s p"
  "state_ok s (p\<lparr>hp_errno := er\<rparr>) = state_ok s p" "state_ok s (p\<lparr>hp_nread := n\<rparr>) = state_ok s p"
  by (simp_all add: state_ok_def has_flag_def)

lemma quietD:
  assumes "quiet x y"
  shows "ex_state y = ex_state x" "ex_nread y = ex_nread x" "ex_pos y = ex_pos x" "ex_ch y = ex_ch x"
    "ex_marks y = ex_marks x" "hp_upgrade (ex_hp y) = hp_upgrade (ex_hp x)" "core e k y = core e k x"
    "ex_inv e k y = ex_inv e k x" "hp_nread (ex_hp y) = hp_nread (ex_hp x)" "hp_errno (ex_hp y) = hp_errno (ex_hp x)"
    "state_ok s (ex_hp y) = state_ok s (ex_hp x)"
    "hp_header_state (ex_hp y) = hp_header_state (ex_hp x)"
  using assms by (auto simp: quiet_def core_def ex_inv_def state_ok_cong)

text \<open>What a failing or pausing callback leaves behind.\<close>

lemma callback_ret_ok:
  assumes "core e 0 x" "hp_nread (ex_hp x) = 0 \<or> ex_state x \<noteq> s_chunk_size_start"
    and "er \<le> length (env_data e)" "err \<noteq> HPE_OK" "n = hp_nread (ex_hp x) \<or> n = ex_nread x"
  shows "ret_ok e er ((ex_hp x)\<lparr>hp_state := ex_state x, hp_data := d, hp_errno := err, hp_nread := n\<rparr>)"
  using assms by (auto simp: ret_ok_def parser_inv_def core_def state_ok_cong)


lemma keeps_parserE:
  assumes "keeps_parser f"
  obtains d err where "f q = (fst (f q), q\<lparr>hp_data := d, hp_errno := err\<rparr>)"
  using assms unfolding keeps_parser_def by (metis prod.collapse)

text \<open>The shape of a callback's effect, for both macros.\<close>

lemma NOTIFY_cases:
  assumes f: "\<forall>f. cb = Some f \<longrightarrow> keeps_parser f" and err: "err \<noteq> HPE_OK" and ok: "hp_errno (ex_hp x) = HPE_OK"
  obtains (Next) y where "CALLBACK_NOTIFY cb err er x = Next y" "quiet x y"
  | (Ret) d err' n where "CALLBACK_NOTIFY cb err er x =
        Ret er ((ex_hp x)\<lparr>hp_state := ex_state x, hp_data := d, hp_errno := err', hp_nread := n\<rparr>)"
      "err' \<noteq> HPE_OK" "n = hp_nread (ex_hp x) \<or> n = ex_nread x"
proof (cases cb)
  case None
  then show ?thesis using ok quiet_refl by (intro Next) (auto simp: CALLBACK_NOTIFY_def)
next
  case (Some f)
  let ?q = "(ex_hp x)\<lparr>hp_state := ex_state x\<rparr>"
  obtain d err' where q: "f ?q = (fst (f ?q), ?q\<lparr>hp_data := d, hp_errno := err'\<rparr>)"
    using keeps_parserE[OF f[rule_format, OF Some]] .
  consider "fst (f ?q) = 0" "err' = HPE_OK" | "fst (f ?q) = 0" "err' \<noteq> HPE_OK" | "fst (f ?q) \<noteq> 0" by blast
  then show ?thesis
  proof cases
    case 1
    then show ?thesis
      using Some ok q
      by (intro Next[of "x\<lparr>ex_hp := (ex_hp x)\<lparr>hp_state := ex_state x, hp_data := d\<rparr>\<rparr>"])
         (auto simp: CALLBACK_NOTIFY_def Let_def quiet_def UPDATE_STATE_def split: prod.splits)
  next
    case 2
    then show ?thesis
      using Some ok q by (intro Ret[where d = d and err' = err' and n = "hp_nread (ex_hp x)"])
        (auto simp: CALLBACK_NOTIFY_def Let_def UPDATE_STATE_def split: prod.splits)
  next
    case 3
    then show ?thesis
      using Some ok q err by (intro Ret[where d = d and err' = err and n = "ex_nread x"])
        (auto simp: CALLBACK_NOTIFY_def Let_def UPDATE_STATE_def SET_ERRNO_def upd_hp_def split: prod.splits)
  qed
qed

lemma data_cb_errno_not_ok: "data_cb_errno m \<noteq> HPE_OK"
  by (cases m) (simp_all add: data_cb_errno_def)

text \<open>A data callback is a notification, after which the mark is cleared.\<close>

lemma DATA_NOTIFY:
  assumes "marks_before e x" "ex_pos x \<le> fin" "fin \<le> length (env_data e)"
  shows "CALLBACK_DATA_ER e m fin er x =
     (case ex_marks x m of
        None \<Rightarrow> CALLBACK_NOTIFY None HPE_OK er x
      | Some b \<Rightarrow>
          andthen (CALLBACK_NOTIFY (map_option (\<lambda>f. f (take (fin - b) (drop b (env_data e)))) (data_cb (env_settings e) m))
                     (data_cb_errno m) er x)
            (\<lambda>y. Next (y\<lparr>ex_marks := (ex_marks y)(m := None)\<rparr>)))"
proof (cases "ex_marks x m")
  case (Some b)
  then have "b \<le> fin" using assms unfolding marks_before_def by (meson order_trans)
  then show ?thesis
    using Some assms(3)
    by (auto simp: CALLBACK_DATA_ER_def CALLBACK_NOTIFY_def Let_def UPDATE_STATE_def SET_ERRNO_def upd_hp_def
        split: option.splits prod.splits if_splits)
qed (simp add: CALLBACK_DATA_ER_def CALLBACK_NOTIFY_def)

section \<open>Clients\<close>

locale parser_client =
  fixes settings :: "'d http_parser_settings"
  assumes settings_ok: "settings_ok settings"
begin

lemma cb_keeps:
  "cb \<in> {on_message_begin settings, on_headers_complete settings, on_message_complete settings,
      on_chunk_header settings, on_chunk_complete settings} \<Longrightarrow> cb = Some f \<Longrightarrow> keeps_parser f"
  using settings_ok unfolding settings_ok_def by metis

lemma notify_good:
  assumes cb: "cb \<in> {on_message_begin settings, on_headers_complete settings, on_message_complete settings,
      on_chunk_header settings, on_chunk_complete settings}"
    and inv: "ex_inv e 0 x" and err: "err \<noteq> HPE_OK" and er: "er \<le> length (env_data e)"
    and z: "hp_nread (ex_hp x) = 0 \<or> ex_state x \<noteq> s_chunk_size_start"
    and k: "\<And>y. quiet x y \<Longrightarrow> ex_inv e 0 y \<Longrightarrow> good e b (k y)"
  shows "good e b (andthen (CALLBACK_NOTIFY cb err er x) k)"
proof -
  have ok: "hp_errno (ex_hp x) = HPE_OK" using inv by (simp add: ex_inv_def core_def)
  have "\<forall>f. cb = Some f \<longrightarrow> keeps_parser f" using cb_keeps[OF cb] by blast
  then show ?thesis using err ok
  proof (cases rule: NOTIFY_cases[where cb = cb and err = err and x = x and er = er])
    case (Next y)
    then show ?thesis using k inv quietD(8)[of x y e 0] by simp
  next
    case (Ret d err' n)
    then show ?thesis using callback_ret_ok[OF _ z er] inv by (simp add: ex_inv_def)
  qed
qed

lemma data_good:
  assumes e: "env_settings e = settings" and core: "core e 0 x" and pos: "ex_pos x < length (env_data e)"
    and m: "marks_in (Some m) (ex_marks x)" and er: "er \<le> length (env_data e)"
    and fin: "ex_pos x \<le> fin" "fin \<le> length (env_data e)"
    and z: "hp_nread (ex_hp x) = 0 \<or> ex_state x \<noteq> s_chunk_size_start"
    and k: "\<And>y. quiet (x\<lparr>ex_marks := (ex_marks x)(m := None)\<rparr>) y \<Longrightarrow> ex_inv e 0 y \<Longrightarrow> good e b (k y)"
  shows "good e b (andthen (CALLBACK_DATA_ER e m fin er x) k)"
proof -
  have ok: "hp_errno (ex_hp x) = HPE_OK" and mb: "marks_before e x" using core by (simp_all add: core_def)
  note NOTIFY = DATA_NOTIFY[OF mb fin]
  let ?x = "x\<lparr>ex_marks := (ex_marks x)(m := None)\<rparr>"
  have inv: "ex_inv e 0 ?x"
    using core pos marks_in_simps(1)[OF marks_in_simps(4)[OF m]] by (simp add: ex_inv_def core_def)
  show ?thesis
  proof (cases "ex_marks x m")
    case None
    then have "?x = x" by (simp add: fun_upd_idem)
    then show ?thesis
      using None ok k[of x] inv quiet_refl[of x] by (simp add: NOTIFY CALLBACK_NOTIFY_def)
  next
    case (Some a)
    define cb where "cb = map_option (\<lambda>f. f (take (fin - a) (drop a (env_data e)))) (data_cb (env_settings e) m)"
    have "\<forall>f. cb = Some f \<longrightarrow> keeps_parser f"
      using settings_ok unfolding settings_ok_def cb_def e by auto
    then show ?thesis using data_cb_errno_not_ok[of m] ok
    proof (cases rule: NOTIFY_cases[where cb = cb and err = "data_cb_errno m" and x = x and er = er])
      case (Next y)
      let ?y = "y\<lparr>ex_marks := (ex_marks y)(m := None)\<rparr>"
      obtain s d where s: "s = hp_state (ex_hp x) \<or> s = ex_state x"
        and y: "y = x\<lparr>ex_hp := (ex_hp x)\<lparr>hp_state := s, hp_data := d\<rparr>\<rparr>"
        using Next(2) by (auto simp: quiet_def)
      have "?y = ?x\<lparr>ex_hp := (ex_hp ?x)\<lparr>hp_state := s, hp_data := d\<rparr>\<rparr>" unfolding y by (cases x) simp
      then have q: "quiet ?x ?y" unfolding quiet_def using s by (intro exI[of _ s] exI[of _ d]) simp
      then have "ex_inv e 0 ?y" using inv quietD(8) by blast
      then show ?thesis using Next Some k[OF q] by (simp add: NOTIFY cb_def)
    next
      case (Ret d err' n)
      then show ?thesis using callback_ret_ok[OF core z er] Some by (simp add: NOTIFY cb_def)
    qed
  qed
qed

end

section \<open>The simple states\<close>

lemma upd_simps_state_ok:
  "has_flag F_CHUNKED p \<Longrightarrow> has_flag F_CHUNKED (set_flag g p)"
  unfolding has_flag_def set_flag_def
  by (auto simp: bit_eq_iff bit_and_iff bit_or_iff)

lemma inv_pos [simp]: "ex_inv e k x \<Longrightarrow> ex_pos x < length (env_data e)"
  by (simp add: ex_inv_def)

lemma inv_pos_le [simp]: "ex_inv e k x \<Longrightarrow> ex_pos x \<le> length (env_data e)"
  by (simp add: ex_inv_def)

text \<open>Moving to a state without obligations.\<close>

definition plain :: "state \<Rightarrow> bool" where
  "plain s \<longleftrightarrow> mark_of s = None \<and> s \<notin> chunk_states \<and> s \<notin> {s_body_identity, s_req_method}"

lemma plain_state_ok [simp]: "plain s \<Longrightarrow> state_ok s p"
  unfolding plain_def state_ok_def by (auto simp: mark_of_def chunk_states_def split: if_splits)

lemma inv_to_plain:
  assumes "ex_inv e k x" "mark_of (ex_state x) = None" "plain s" and f: "hp_errno (f (ex_hp x)) = HPE_OK"
    "hp_nread (f (ex_hp x)) \<le> env_max e"
  shows "ex_inv e 0 (UPDATE_STATE s (upd_hp f x))"
  using assms plain_state_ok[OF assms(3), of "f (ex_hp x)"]
  by (auto simp: ex_inv_def core_def plain_def chunk_states_def)

lemma inv_plain:
  assumes "ex_inv e k x" "mark_of (ex_state x) = None" "plain s"
  shows "ex_inv e 0 (UPDATE_STATE s x)"
  using inv_to_plain[OF assms, of id] assms(1) by (simp add: ex_inv_def core_def upd_hp_def)


lemma plain_simps [simp]:
  "plain s_dead" "plain s_res_or_resp_H" "plain s_res_H" "plain s_res_HT" "plain s_res_HTT" "plain s_res_HTTP"
  "plain s_res_http_major" "plain s_res_http_dot" "plain s_res_http_minor" "plain s_res_http_end"
  "plain s_res_first_status_code" "plain s_res_status_code" "plain s_res_status_start"
  "plain s_res_line_almost_done" "plain s_start_req" "plain s_start_res" "plain s_start_req_or_res"
  "plain s_req_spaces_before_url" "plain s_req_http_start" "plain s_req_http_H" "plain s_req_http_HT"
  "plain s_req_http_HTT" "plain s_req_http_HTTP" "plain s_req_http_I" "plain s_req_http_IC"
  "plain s_req_http_major" "plain s_req_http_dot" "plain s_req_http_minor" "plain s_req_http_end"
  "plain s_req_line_almost_done" "plain s_header_field_start" "plain s_header_value_discard_ws"
  "plain s_header_value_discard_ws_almost_done" "plain s_header_value_discard_lws"
  "plain s_header_value_start" "plain s_header_value_lws" "plain s_header_almost_done"
  "plain s_headers_almost_done" "plain s_headers_done" "plain s_message_done"
  by (simp_all add: plain_def mark_of_def chunk_states_def url_mark_states_def)

lemma plain_mark [simp]: "plain s \<Longrightarrow> mark_of s = None"
  by (simp add: plain_def)

lemma plain_not_chunk_start: "plain s \<Longrightarrow> s \<noteq> s_chunk_size_start"
  by (auto simp: plain_def chunk_states_def)

lemma inv_shift: "ex_inv e k x \<Longrightarrow> ex_state x \<noteq> s_chunk_size_start \<Longrightarrow> ex_inv e k' x"
  by (simp add: ex_inv_def core_def)

lemma mark_of_simps [simp]:
  "mark_of s_header_field = Some M_header_field" "mark_of s_header_value = Some M_header_value"
  "mark_of s_res_status = Some M_status" "mark_of s_body_identity = Some M_body"
  "mark_of s_body_identity_eof = Some M_body" "mark_of s_chunk_data = Some M_body"
  "mark_of s_chunk_data_almost_done = Some M_body" "mark_of s_req_method = None"
  "mark_of s_chunk_size_start = None" "mark_of s_chunk_size = None" "mark_of s_chunk_parameters = None"
  "mark_of s_chunk_size_almost_done = None" "mark_of s_chunk_data_done = None"
  by (simp_all add: mark_of_def url_mark_states_def)

lemma state_ok_simps [simp]:
  "state_ok s_header_field p \<longleftrightarrow> hp_header_state p \<in> field_states"
  "state_ok s_header_value p \<longleftrightarrow> hp_header_state p \<noteq> h_connection \<and> hp_header_state p \<noteq> h_transfer_encoding"
  "state_ok s_req_method p \<longleftrightarrow> unat (hp_index p) \<le> length (method_string (hp_method p))"
  "state_ok s_res_status p" "state_ok s_body_identity_eof p"
  "state_ok s_body_identity p \<longleftrightarrow> hp_content_length p \<noteq> 0 \<and> hp_content_length p \<noteq> ULLONG_MAX"
  "state_ok s_chunk_size_start p \<longleftrightarrow> has_flag F_CHUNKED p"
  "state_ok s_chunk_size p \<longleftrightarrow> has_flag F_CHUNKED p \<and> hp_content_length p \<noteq> ULLONG_MAX"
  "state_ok s_chunk_parameters p \<longleftrightarrow> has_flag F_CHUNKED p \<and> hp_content_length p \<noteq> ULLONG_MAX"
  "state_ok s_chunk_size_almost_done p \<longleftrightarrow> has_flag F_CHUNKED p \<and> hp_content_length p \<noteq> ULLONG_MAX"
  "state_ok s_chunk_data p \<longleftrightarrow>
     has_flag F_CHUNKED p \<and> hp_content_length p \<noteq> 0 \<and> hp_content_length p \<noteq> ULLONG_MAX"
  "state_ok s_chunk_data_almost_done p \<longleftrightarrow> has_flag F_CHUNKED p \<and> hp_content_length p = 0"
  "state_ok s_chunk_data_done p \<longleftrightarrow> has_flag F_CHUNKED p"
  by (simp_all add: state_ok_def chunk_states_def)

lemma ex_invD:
  assumes "ex_inv e k x" "ex_state x = s"
  shows "hp_errno (ex_hp x) = HPE_OK" "state_ok s (ex_hp x)" "s = s_chunk_size_start \<longrightarrow> ex_nread x = k"
    "ex_nread x \<le> env_max e" "hp_nread (ex_hp x) \<le> env_max e" "marks_in (mark_of s) (ex_marks x)"
    "ex_pos x < length (env_data e)" "marks_before e x"
  using assms by (auto simp: ex_inv_def core_def)

lemma coreI:
  assumes "hp_errno (ex_hp y) = HPE_OK" "state_ok (ex_state y) (ex_hp y)"
    "ex_state y \<noteq> s_chunk_size_start \<or> ex_nread y = 0" "ex_nread y \<le> env_max e"
    "hp_nread (ex_hp y) \<le> env_max e" "marks_before e y"
  shows "core e 0 y"
  using assms by (auto simp: core_def)

lemma ex_invI:
  assumes "hp_errno (ex_hp y) = HPE_OK" "state_ok (ex_state y) (ex_hp y)"
    "ex_state y \<noteq> s_chunk_size_start \<or> ex_nread y = 0" "ex_nread y \<le> env_max e"
    "hp_nread (ex_hp y) \<le> env_max e" "marks_in (mark_of (ex_state y)) (ex_marks y)"
    "ex_pos y < length (env_data e)" "marks_before e y"
  shows "ex_inv e 0 y"
  using assms by (simp add: ex_inv_def coreI)

text \<open>A step from a plain state to a plain state, with or without a change of the parser.\<close>

lemma good_plain:
  assumes "ex_inv e k x" "plain (ex_state x)" "plain s"
  shows "good e b (Next (UPDATE_STATE s x))" "good e b (Next x)"
    "rank s < b \<Longrightarrow> good e b (Again (UPDATE_STATE s x))"
  using inv_plain[OF assms(1) plain_mark[OF assms(2)] assms(3)] assms inv_shift[OF assms(1), of 0]
  by (auto simp: plain_not_chunk_start)

lemma good_to_plain:
  assumes "ex_inv e k x" "plain (ex_state x)" "plain s" "hp_errno (f (ex_hp x)) = HPE_OK"
    "hp_nread (f (ex_hp x)) \<le> env_max e"
  shows "good e b (Next (UPDATE_STATE s (upd_hp f x)))"
    "rank s < b \<Longrightarrow> good e b (Again (UPDATE_STATE s (upd_hp f x)))"
  using inv_to_plain[where f = f, OF assms(1) plain_mark[OF assms(2)] assms(3-5)] assms(3)
  by (auto simp: plain_not_chunk_start)

lemma inv_hp: "ex_inv e k x \<Longrightarrow> hp_errno (ex_hp x) = HPE_OK" "ex_inv e k x \<Longrightarrow> hp_nread (ex_hp x) \<le> env_max e"
  by (simp_all add: ex_inv_def core_def)

lemmas plain_rules = good_plain good_to_plain fail_good

lemma step_dead_good: "ex_inv e 1 x \<Longrightarrow> ex_state x = s_dead \<Longrightarrow> good e b (step_dead x)"
  by (auto simp: step_dead_def fail_good inv_shift[of e 1])

lemma step_expect_good:
  "ex_inv e 1 x \<Longrightarrow> plain (ex_state x) \<Longrightarrow> plain s \<Longrightarrow> good e b (step_expect c s x)"
  by (simp add: step_expect_def STRICT_CHECK_good plain_rules del: good_simps)

lemma step_version_char_good:
  "ex_inv e 1 x \<Longrightarrow> plain (ex_state x) \<Longrightarrow> plain s \<Longrightarrow> good e b (step_version_char c s x)"
  by (simp add: step_version_char_def plain_rules del: good_simps)

lemma step_http_version_good:
  assumes "ex_inv e 1 x" "plain (ex_state x)" "plain s"
  shows "good e b (step_http_major s x)" "good e b (step_http_minor s x)"
  using assms inv_hp[OF assms(1)]
  by (simp_all add: step_http_major_def step_http_minor_def plain_rules del: good_simps)

lemma step_res_or_resp_H_good:
  assumes "ex_inv e 1 x" "ex_state x = s_res_or_resp_H"
  shows "good e b (step_res_or_resp_H x)"
proof -
  have "length (method_string HTTP_HEAD) = 4" by code_simp
  then have "ex_inv e 0 (UPDATE_STATE s_req_method
      (upd_hp (\<lambda>p. p\<lparr>hp_type := HTTP_REQUEST, hp_method := HTTP_HEAD, hp_index := 2\<rparr>) x))"
    using ex_invD[OF assms] by (intro ex_invI) simp_all
  then show ?thesis
    using assms inv_hp[OF assms(1)] by (auto simp: step_res_or_resp_H_def fail_good intro!: inv_to_plain)
qed

lemma step_res_first_status_code_good:
  assumes "ex_inv e 1 x" "ex_state x = s_res_first_status_code"
  shows "good e b (step_res_first_status_code x)"
  using assms inv_hp[OF assms(1)]
  by (simp add: step_res_first_status_code_def plain_rules inv_shift[OF assms(1)] del: good_simps) (simp add: inv_shift[OF assms(1)])

lemma step_res_status_code_good:
  assumes "ex_inv e 1 x" "ex_state x = s_res_status_code"
  shows "good e (rank s_res_status_code) (step_res_status_code x)"
proof -
  let ?y = "upd_hp (\<lambda>p. p\<lparr>hp_status_code := hp_status_code p * 10 + of_nat (digit_val (ex_ch x))\<rparr>) x"
  have "ex_inv e 0 ?y" using assms(2) ex_invD[OF assms] by (intro ex_invI) simp_all
  moreover have "rank s_res_status_start < rank s_res_status_code" by (simp add: rank_def)
  ultimately show ?thesis
    using assms good_plain[OF assms(1)]
    by (simp add: step_res_status_code_def Let_def fail_good)
qed

lemma step_res_status_start_good:
  assumes "ex_inv e 1 x" "ex_state x = s_res_status_start"
  shows "good e (rank s_res_status_start) (step_res_status_start x)"
proof -
  have "ex_inv e 0 (upd_hp (\<lambda>p. p\<lparr>hp_index := 0\<rparr>) (UPDATE_STATE s_res_status (MARK M_status x)))"
    using assms(2) ex_invD[OF assms] marks_in_simps(3)[of x M_status] by (intro ex_invI) simp_all
  then show ?thesis by (simp add: step_res_status_start_def Let_def rank_def)
qed

lemma reset_message_simps:
  assumes "ex_inv e k x" "plain (ex_state x)"
  shows "ex_inv e 0 (reset_message x)" "ex_state (reset_message x) = ex_state x" "ex_pos (reset_message x) = ex_pos x"
  using assms plain_state_ok[OF assms(2)] plain_not_chunk_start[OF assms(2)]
  by (simp_all add: reset_message_def ex_inv_def core_def)

lemma method_switch_ok:
  "list_all (\<lambda>((m, i, c), m'). Suc i \<le> length (method_string m')) method_switch"
  by code_simp

lemma method_string_short: "length (method_string m) < 100"
proof -
  have "list_all (\<lambda>m. length (method_string m) < 100) http_methods" by code_simp
  moreover have "m \<in> set http_methods" by (cases m) (simp_all add: http_methods_def)
  ultimately show ?thesis by (auto simp: list_all_iff)
qed

lemma index_suc: "unat (i :: 7 word) < 100 \<Longrightarrow> unat (i + 1) = Suc (unat i)"
  by (simp add: unat_word_ariths)

lemma method_string_no_NUL: "NUL \<notin> set (method_string m)"
proof -
  have "list_all (\<lambda>m. NUL \<notin> set (method_string m)) http_methods" by code_simp
  moreover have "m \<in> set http_methods" by (cases m) (simp_all add: http_methods_def)
  ultimately show ?thesis by (auto simp: list_all_iff)
qed

lemma step_req_method_good:
  assumes inv: "ex_inv e 1 x" and s: "ex_state x = s_req_method"
  shows "good e b (step_req_method x)"
proof -
  let ?p = "ex_hp x" and ?next = "upd_hp (\<lambda>p. p\<lparr>hp_index := hp_index p + 1\<rparr>)"
  let ?m = "method_string (hp_method ?p)"
  have i: "unat (hp_index ?p) \<le> length ?m" using ex_invD[OF inv s] by simp
  then have suc: "unat (hp_index ?p + 1) = Suc (unat (hp_index ?p))"
    using method_string_short[of "hp_method ?p"] by (intro index_suc) simp
  have sp: "ex_inv e 0 (?next (UPDATE_STATE s_req_spaces_before_url x))"
    using s ex_invD[OF inv s] by (intro ex_invI) simp_all
  have adv: "ex_inv e 0 (?next x)" if "unat (hp_index ?p) < length ?m"
    using s that suc ex_invD[OF inv s] by (intro ex_invI) simp_all
  have sw: "ex_inv e 0 (?next (upd_hp (\<lambda>p. p\<lparr>hp_method := m\<rparr>) x))"
    if "map_of method_switch (hp_method ?p, unat (hp_index ?p), ex_ch x) = Some m" for m
  proof -
    have "Suc (unat (hp_index ?p)) \<le> length (method_string m)"
      using method_switch_ok map_of_SomeD[OF that] by (auto simp: list_all_iff)
    then show ?thesis using s suc ex_invD[OF inv s] by (intro ex_invI) simp_all
  qed
  have nul: "(?m @ [NUL]) ! unat (hp_index ?p) = ex_ch x \<Longrightarrow> ex_ch x \<noteq> NUL \<Longrightarrow> unat (hp_index ?p) < length ?m"
    using i by (cases "unat (hp_index ?p) = length ?m") (auto simp: nth_append)
  show ?thesis
    using i sp adv sw nul inv
    by (auto simp: step_req_method_def Let_def fail_good split: option.splits)
qed

lemma parse_url_char_dead: "parse_url_char s c = s_dead \<or> parse_url_char s c \<in> set url_mark_states"
  by (cases s) (simp_all add: parse_url_char_def url_mark_states_def)

lemma url_state_ok:
  assumes "s \<in> set url_mark_states"
  shows "state_ok s p" "mark_of s = Some M_url" "s \<noteq> s_chunk_size_start"
  using assms by (auto simp: url_mark_states_def state_ok_def mark_of_def chunk_states_def)

lemma url_char_or_fail_good:
  assumes "core e k x" "marks_in (Some M_url) (ex_marks x)" "ex_pos x < length (env_data e)"
  shows "good e b (url_char_or_fail x)"
proof (cases "parse_url_char (ex_state x) (ex_ch x) = s_dead")
  case True
  then show ?thesis using assms by (simp add: url_char_or_fail_def Let_def fail_good)
next
  case False
  then have "parse_url_char (ex_state x) (ex_ch x) \<in> set url_mark_states" using parse_url_char_dead by metis
  from url_state_ok[OF this] show ?thesis
    using assms False by (simp add: url_char_or_fail_def Let_def ex_inv_def core_def)
qed

lemma step_req_spaces_before_url_good:
  assumes "ex_inv e 1 x" "ex_state x = s_req_spaces_before_url"
  shows "good e b (step_req_spaces_before_url x)"
proof -
  have "marks_in (Some M_url) (ex_marks (MARK M_url x))"
    using ex_invD[OF assms] by (intro marks_in_simps(3)) simp
  moreover have "core e 0 (MARK M_url x)" "core e 0 (UPDATE_STATE s_req_server_start (MARK M_url x))"
    using assms(2) ex_invD[OF assms] url_state_ok(1)[of s_req_server_start]
    by (auto intro!: coreI simp: url_mark_states_def)
  ultimately show ?thesis
    using assms by (auto simp: step_req_spaces_before_url_def Let_def inv_shift[OF assms(1)] intro!: url_char_or_fail_good)
qed

lemma url_inv_core:
  assumes "ex_inv e k x" "ex_state x \<in> set url_mark_states"
  shows "core e 0 x" "marks_in (Some M_url) (ex_marks x)" "ex_pos x < length (env_data e)"
  using assms url_state_ok[OF assms(2)] by (simp_all add: ex_inv_def core_def)

lemma step_req_schema_good:
  assumes "ex_inv e 1 x" "ex_state x \<in> set url_mark_states"
  shows "good e b (step_req_schema x)"
  using url_char_or_fail_good[OF url_inv_core[OF assms]] assms(1) by (simp add: step_req_schema_def fail_good)

lemma step_req_http_good:
  assumes "ex_inv e 1 x"
  shows "ex_state x = s_req_http_start \<Longrightarrow> good e b (step_req_http_start x)"
    "ex_state x = s_req_http_end \<Longrightarrow> good e b (step_req_http_end x)"
    "ex_state x = s_req_line_almost_done \<Longrightarrow> good e b (step_req_line_almost_done x)"
    "ex_state x = s_header_almost_done \<Longrightarrow> good e b (step_header_almost_done x)"
  using assms inv_shift[OF assms, of 0] inv_plain[OF assms]
  by (auto simp: step_req_http_start_def step_req_http_end_def step_req_line_almost_done_def
      step_header_almost_done_def fail_good plain_mark)

end
