(* ===== verification/HttpSafety.thy ===== *)
theory HttpSafety
  imports HttpInvariant
begin

text \<open>
  The invariant through the header, body and chunk states, the dispatch and the loops. The last
  lemma, \<open>execute_good\<close>, is the safety of a whole call for every client: it returns, no
  assertion fails and nothing outside the buffer is read, and the returned count has its meaning.
\<close>

section \<open>Header lines\<close>

lemma step_header_field_start_good:
  assumes "ex_inv e k x" "ex_state x = s_header_field_start"
  shows "good e (rank s_header_field_start) (step_header_field_start x)"
proof -
  have "ex_inv e 0 (upd_hp (\<lambda>p. p\<lparr>hp_index := 0, hp_header_state := h\<rparr>)
      (UPDATE_STATE s_header_field (MARK M_header_field x)))" if "h \<in> field_states" for h
    using assms(2) ex_invD[OF assms] marks_in_simps(3)[of x M_header_field] that
    by (intro ex_invI) simp_all
  moreover have "rank s_headers_almost_done < rank s_header_field_start" by (simp add: rank_def)
  ultimately show ?thesis
    using assms inv_plain[OF assms(1)]
    by (auto simp: step_header_field_start_def Let_def fail_good field_states_def plain_not_chunk_start)
qed

lemma COUNT_good:
  assumes "ex_inv e 0 x" "ex_state x \<noteq> s_chunk_size_start"
  shows "good e b (COUNT_HEADER_SIZE e v x)"
proof -
  have "ex_pos x \<le> length (env_data e)" using assms(1) by simp
  then show ?thesis
  proof (cases rule: COUNT_cases[where v = v])
    case ok
    then show ?thesis using assms by (simp add: ex_inv_def core_def)
  next
    case (over n q)
    then show ?thesis by simp
  qed
qed

lemma COUNT_then_good:
  assumes "ex_inv e 0 x" "ex_state x \<noteq> s_chunk_size_start"
    and k: "\<And>n. ex_inv e 0 (x\<lparr>ex_nread := n\<rparr>) \<Longrightarrow> good e b (k (x\<lparr>ex_nread := n\<rparr>))"
  shows "good e b (andthen (COUNT_HEADER_SIZE e v x) k)"
proof -
  have "ex_pos x \<le> length (env_data e)" using assms(1) by simp
  then show ?thesis
  proof (cases rule: COUNT_cases[where v = v])
    case ok
    moreover have "ex_inv e 0 (x\<lparr>ex_nread := ex_nread x + of_nat v\<rparr>)"
      using ok(2) assms by (simp add: ex_inv_def core_def)
    ultimately show ?thesis using k by simp
  next
    case (over n q)
    then show ?thesis by simp
  qed
qed

lemma match_char_in: "bad \<in> A \<Longrightarrow> stay \<in> A \<Longrightarrow> matched \<in> A \<Longrightarrow> match_char w i c bad stay matched \<in> A"
  by (simp add: match_char_def)

lemma field_char_ok:
  assumes "hp_header_state p \<in> field_states" "hp_header_state p \<noteq> h_general"
  shows "\<exists>q. field_char ch p = Some q \<and> hp_header_state q \<in> field_states \<and>
    hp_errno q = hp_errno p \<and> hp_nread q = hp_nread p"
proof -
  have m: "match_char w i c h_general stay matched \<in> field_states"
    if "stay \<in> field_states" "matched \<in> field_states" for w i c stay matched
    using that by (intro match_char_in) (simp_all add: field_states_def)
  have f: "h_general \<in> field_states" "h_CO \<in> field_states" "h_CON \<in> field_states" "h_connection \<in> field_states"
    "h_content_length \<in> field_states" "h_transfer_encoding \<in> field_states" "h_upgrade \<in> field_states"
    "h_matching_connection \<in> field_states" "h_matching_content_length \<in> field_states"
    "h_matching_proxy_connection \<in> field_states" "h_matching_transfer_encoding \<in> field_states"
    "h_matching_upgrade \<in> field_states"
    by (simp_all add: field_states_def)
  show ?thesis
    using assms(2) assms(1)[unfolded field_states_def]
    by (cases "hp_header_state p") (simp_all add: field_char_def Let_def m f)
qed

text \<open>The loop over a name keeps everything but the position and the matcher.\<close>

definition field_inv :: "'d env \<Rightarrow> 'd exec \<Rightarrow> bool" where
  "field_inv e x \<longleftrightarrow> core e 0 x \<and> ex_state x = s_header_field \<and> marks_in (Some M_header_field) (ex_marks x) \<and>
     ex_pos x \<le> length (env_data e)"

text \<open>The scan looks ahead within its limit only, and the limit is within the buffer.\<close>

lemma scan_limit_le: "p \<le> length (env_data e) \<Longrightarrow> scan_limit e p \<le> length (env_data e)"
  by (auto simp: scan_limit_def)

lemma field_skip_defined:
  "p < length (env_data e) \<Longrightarrow> pe \<le> length (env_data e) \<Longrightarrow> \<exists>q. field_skip e pe p = Some q \<and> q < length (env_data e)"
proof (induction e pe p rule: field_skip.induct)
  case (1 e pe p)
  show ?case
  proof (cases "p + 1 < pe")
    case True
    then have b: "byte_at e (p + 1) = Some (env_data e ! (p + 1))" using "1.prems"(2) by (simp add: byte_at_def)
    show ?thesis
      using "1.IH"[OF True b] "1.prems" True b by (subst field_skip.simps) auto
  qed (use 1 in \<open>simp add: field_skip.simps[of e pe p]\<close>)
qed

text \<open>What follows the loops over names and values.\<close>

context parser_client
begin

lemma data_step_good:
  assumes e: "env_settings e = settings" and core: "core e 0 x" and pos: "ex_pos x < length (env_data e)"
    and m: "marks_in (Some m) (ex_marks x)" and s: "ex_state x \<noteq> s_chunk_size_start"
  shows "good e b (CALLBACK_DATA e m x)"
    and "rank (ex_state x) < b \<Longrightarrow> good e b (andthen (CALLBACK_DATA_NOADVANCE e m x) Again)"
proof -
  have andthen_Next: "andthen r Next = r" for r :: "'d outcome" by (cases r) (simp_all add: andthen_def)
  show "good e b (CALLBACK_DATA e m x)"
    using data_good[OF e core pos m, of "ex_pos x + 1" "ex_pos x" b Next] pos s
    by (simp add: CALLBACK_DATA_def andthen_Next)
  show "good e b (andthen (CALLBACK_DATA_NOADVANCE e m x) Again)" if "rank (ex_state x) < b"
    unfolding CALLBACK_DATA_NOADVANCE_def
  proof (rule data_good[OF e core pos m])
    fix y assume "quiet (x\<lparr>ex_marks := (ex_marks x)(m := None)\<rparr>) y" "ex_inv e 0 y"
    then show "good e b (Again y)" using that s quietD(1) by fastforce
  qed (use pos s in auto)
qed

lemma field_end_good:
  assumes e: "env_settings e = settings" "env_data e \<noteq> []" and x: "field_inv e x"
  shows "good e b (field_end e start x)"
proof (cases "ex_pos x = length (env_data e)")
  case True
  then have "ex_inv e 0 (x\<lparr>ex_pos := ex_pos x - 1\<rparr>)"
    using x e(2) by (auto simp: field_inv_def ex_inv_def core_def)
  then show ?thesis
    using True x COUNT_good[of e "x\<lparr>ex_pos := ex_pos x - 1\<rparr>"] by (simp add: field_end_def Let_def field_inv_def)
next
  case False
  have inv: "ex_inv e 0 x" and s: "ex_state x = s_header_field"
    using x False by (simp_all add: field_inv_def ex_inv_def)
  have "good e b (CALLBACK_DATA e M_header_field (UPDATE_STATE s_header_value_discard_ws (x\<lparr>ex_nread := n\<rparr>)))"
    if "ex_inv e 0 (x\<lparr>ex_nread := n\<rparr>)" for n
    using ex_invD[OF that, of s_header_field] s
    by (intro data_step_good e coreI) simp_all
  then show ?thesis
    unfolding field_end_def using False inv s
    by (auto intro!: COUNT_then_good fail_good)
qed

lemma field_loop_good:
  assumes "env_settings e = settings" "env_data e \<noteq> []"
  shows "field_inv e x \<Longrightarrow> good e b (field_loop e start x)"
  using assms
proof (induction e start x rule: field_loop.induct)
  case (1 e start x)
  show ?case
  proof (cases "ex_pos x = length (env_data e)")
    case True
    then show ?thesis using field_end_good "1.prems" by (subst field_loop.simps) simp
  next
    case inside: False
    then have True: "ex_pos x < length (env_data e)" using "1.prems"(1) by (simp add: field_inv_def)
    then have b: "byte_at e (ex_pos x) = Some (env_data e ! ex_pos x)" by (simp add: byte_at_def)
    let ?ch = "env_data e ! ex_pos x"
    let ?y = "x\<lparr>ex_ch := ?ch\<rparr>"
    have y: "field_inv e ?y" using "1.prems"(1) by (auto simp: field_inv_def core_def)
    consider "TOKEN ?ch = NUL" | "TOKEN ?ch \<noteq> NUL" "hp_header_state (ex_hp x) = h_general"
      | "TOKEN ?ch \<noteq> NUL" "hp_header_state (ex_hp x) \<noteq> h_general" by blast
    then show ?thesis
    proof cases
      case 1
      then show ?thesis
        using inside b field_end_good[OF _ _ y] "1.prems" by (subst field_loop.simps) (simp add: Let_def)
    next
      case 2
      obtain q where q: "field_skip e (scan_limit e (ex_pos x)) (ex_pos x) = Some q" "q < length (env_data e)"
        using field_skip_defined[OF True scan_limit_le] True less_imp_le by blast
      have "field_inv e (?y\<lparr>ex_pos := Suc q\<rparr>)"
        using y q(2) field_skip_ge[OF q(1)] by (auto simp: field_inv_def core_def)
      then show ?thesis
        using "1.IH"(1)[OF inside b refl] 2 inside b q "1.prems" by (subst field_loop.simps) (simp add: Let_def)
    next
      case 3
      have "hp_header_state (ex_hp x) \<in> field_states" using y by (auto simp: field_inv_def core_def)
      from field_char_ok[OF this 3(2), of ?ch]
      obtain q where q: "field_char ?ch (ex_hp x) = Some q" "hp_header_state q \<in> field_states"
        "hp_errno q = hp_errno (ex_hp x)" "hp_nread q = hp_nread (ex_hp x)" by blast
      have "field_inv e (?y\<lparr>ex_hp := q, ex_pos := Suc (ex_pos x)\<rparr>)"
        using y q True by (auto simp: field_inv_def core_def)
      then show ?thesis
        using "1.IH"(2)[OF inside b refl] 3 q inside b "1.prems" by (subst field_loop.simps) (simp add: Let_def)
    qed
  qed
qed

lemma step_header_field_good:
  assumes "env_settings e = settings" "ex_inv e k x" "ex_state x = s_header_field"
  shows "good e b (step_header_field e x)"
proof -
  have "env_data e \<noteq> []" using assms(2) by (auto simp: ex_inv_def)
  moreover have "field_inv e x" using ex_invD[OF assms(2,3)] assms(3) by (auto simp: field_inv_def intro!: coreI)
  ultimately show ?thesis unfolding step_header_field_def using assms(1) by (intro field_loop_good)
qed

end

section \<open>Header values\<close>

abbreviation unfinished :: "header_state \<Rightarrow> bool" where
  "unfinished h \<equiv> h = h_connection \<or> h = h_transfer_encoding"

lemma flag_frame [simp]:
  "hp_errno (set_flag g p) = hp_errno p" "hp_nread (set_flag g p) = hp_nread p"
  "hp_header_state (set_flag g p) = hp_header_state p" "hp_content_length (set_flag g p) = hp_content_length p"
  "hp_upgrade (set_flag g p) = hp_upgrade p" "hp_index (set_flag g p) = hp_index p"
  "hp_method (set_flag g p) = hp_method p" "hp_state (set_flag g p) = hp_state p"
  by (simp_all add: set_flag_def)

lemma connection_flag_frame [simp]:
  "hp_errno (connection_flag h p) = hp_errno p" "hp_nread (connection_flag h p) = hp_nread p"
  "hp_header_state (connection_flag h p) = hp_header_state p"
  by (simp_all add: connection_flag_def)

lemma finish_header_frame [simp]:
  "hp_errno (finish_header p) = hp_errno p" "hp_nread (finish_header p) = hp_nread p"
  by (simp_all add: finish_header_def)

text \<open>The parser and value state that one character leads to.\<close>

definition value_keeps :: "'d http_parser \<Rightarrow> 'd value_step \<Rightarrow> bool" where
  "value_keeps p r \<longleftrightarrow>
     (case r of
        Value_next h q \<Rightarrow> \<not> unfinished h \<and> hp_errno q = hp_errno p \<and> hp_nread q = hp_nread p \<and>
          hp_header_state q = hp_header_state p
      | Value_fail h \<Rightarrow> True
      | Value_abort \<Rightarrow> False)"

lemma match_char_finished:
  "\<not> unfinished bad \<Longrightarrow> \<not> unfinished stay \<Longrightarrow> \<not> unfinished matched \<Longrightarrow>
   \<not> unfinished (match_char w i c bad stay matched)"
  by (simp add: match_char_def)

lemma value_char_keeps: "\<not> unfinished h \<Longrightarrow> value_keeps p (value_char h ch p)"
  using match_char_finished[where stay = h]
  by (cases h)
     (simp_all add: value_char_def value_keeps_def Let_def content_length_digit_def connection_token_end_def)

definition value_inv :: "'d env \<Rightarrow> 'd exec \<Rightarrow> bool" where
  "value_inv e x \<longleftrightarrow> core e 0 x \<and> ex_state x = s_header_value \<and> marks_in (Some M_header_value) (ex_marks x) \<and>
     ex_pos x \<le> length (env_data e)"

lemma value_end_good:
  assumes core: "core e 0 x" and pos: "ex_pos x \<le> length (env_data e)" "env_data e \<noteq> []" and h: "\<not> unfinished h"
    and s: "ex_state x = s_header_value \<and> marks_in (Some M_header_value) (ex_marks x) \<or>
      ex_state x = s_header_almost_done \<and> marks_in None (ex_marks x)"
  shows "good e b (value_end e start h x)"
proof -
  let ?y = "upd_hp (\<lambda>p. p\<lparr>hp_header_state := h\<rparr>) x"
  let ?z = "if ex_pos ?y = length (env_data e) then ?y\<lparr>ex_pos := ex_pos ?y - 1\<rparr> else ?y"
  have "state_ok (ex_state ?z) (ex_hp ?z)" using s h by auto
  moreover have "marks_in (mark_of (ex_state ?z)) (ex_marks ?z)" using s by auto
  ultimately have "ex_inv e 0 ?z"
    using core pos s by (intro ex_invI) (auto simp: core_def diff_less intro: le_neq_trans)
  moreover have "ex_state ?z \<noteq> s_chunk_size_start" using s by auto
  ultimately show ?thesis unfolding value_end_def Let_def by (rule COUNT_good)
qed

lemma value_skip_defined:
  "p \<le> pe \<Longrightarrow> pe \<le> length (env_data e) \<Longrightarrow> env_data e \<noteq> [] \<Longrightarrow>
   \<exists>q b. value_skip e pe p = Some (q, b) \<and> q < length (env_data e)"
proof (induction e pe p rule: value_skip.induct)
  case (1 e pe p)
  show ?case
  proof (cases "p = pe")
    case True
    moreover have "0 < length (env_data e)" using "1.prems"(3) by simp
    ultimately show ?thesis using "1.prems" by (subst value_skip.simps) auto
  next
    case False
    then have p: "p < length (env_data e)" using "1.prems" by simp
    then have b: "byte_at e p = Some (env_data e ! p)" by (simp add: byte_at_def)
    show ?thesis
      using "1.IH"[OF False b] "1.prems" False b p by (subst value_skip.simps) auto
  qed
qed

context parser_client
begin

lemma value_cr_good:
  assumes e: "env_settings e = settings" and x: "value_inv e x" "ex_pos x < length (env_data e)" and h: "\<not> unfinished h"
  shows "good e b (value_cr e start h x)"
  unfolding value_cr_def CALLBACK_DATA_def
proof (rule data_good[OF e])
  let ?x = "upd_hp (\<lambda>p. p\<lparr>hp_header_state := h\<rparr>) (UPDATE_STATE s_header_almost_done x)"
  show "core e 0 ?x" using x by (auto simp: value_inv_def core_def)
  show "marks_in (Some M_header_value) (ex_marks ?x)" using x by (simp add: value_inv_def)
  fix y assume q: "quiet (?x\<lparr>ex_marks := (ex_marks ?x)(M_header_value := None)\<rparr>) y" and y: "ex_inv e 0 y"
  have s: "ex_state y = s_header_almost_done" using quietD(1)[OF q] by simp
  then show "good e b (value_end e start h y)"
    using y h by (intro value_end_good) (auto simp: ex_inv_def)
qed (use x in auto)

lemma value_lf_good:
  assumes e: "env_settings e = settings" and x: "value_inv e x" "ex_pos x < length (env_data e)" and h: "\<not> unfinished h"
  shows "good e (rank s_header_value) (value_lf e start h x)"
proof -
  let ?x = "UPDATE_STATE s_header_almost_done x"
  have p: "ex_pos ?x \<le> length (env_data e)" using x by simp
  then show ?thesis
  proof (cases rule: COUNT_cases[where v = "ex_pos x - start"])
    case ok
    let ?y = "upd_hp (\<lambda>p. p\<lparr>hp_header_state := h\<rparr>) (?x\<lparr>ex_nread := ex_nread ?x + of_nat (ex_pos x - start)\<rparr>)"
    have "core e 0 ?y" using x ok(2) by (auto simp: value_inv_def core_def)
    then have "good e (rank s_header_value) (andthen (CALLBACK_DATA_NOADVANCE e M_header_value ?y) Again)"
      using x by (intro data_step_good(2)[OF e]) (simp_all add: value_inv_def rank_def)
    then show ?thesis using ok(1) by (simp add: value_lf_def)
  next
    case (over n q)
    then show ?thesis by (simp add: value_lf_def)
  qed
qed

lemma value_loop_good:
  assumes "env_settings e = settings" "env_data e \<noteq> []"
  shows "value_inv e x \<Longrightarrow> \<not> unfinished h \<Longrightarrow> good e (rank s_header_value) (value_loop e start h x)"
  using assms
proof (induction e start h x rule: value_loop.induct)
  case (1 e start h x)
  show ?case
  proof (cases "ex_pos x = length (env_data e)")
    case True
    have "good e (rank s_header_value) (value_end e start h x)"
      using "1.prems" by (intro value_end_good) (simp_all add: value_inv_def)
    then show ?thesis using True by (subst value_loop.simps) simp
  next
    case inside: False
    then have True: "ex_pos x < length (env_data e)" using "1.prems"(1) by (simp add: value_inv_def)
    then have b: "byte_at e (ex_pos x) = Some (env_data e ! ex_pos x)" by (simp add: byte_at_def)
    let ?ch = "env_data e ! ex_pos x"
    let ?y = "x\<lparr>ex_ch := ?ch\<rparr>"
    have y: "value_inv e ?y" "ex_pos ?y < length (env_data e)"
      using "1.prems"(1) True by (auto simp: value_inv_def core_def)
    note unf = value_loop.simps[of e start h x]
    consider "?ch = CR" | "?ch = LF" | "?ch \<noteq> CR" "?ch \<noteq> LF" "\<not> value_char_ok e ?ch"
      | "?ch \<noteq> CR" "?ch \<noteq> LF" "value_char_ok e ?ch" "h = h_general"
      | "?ch \<noteq> CR" "?ch \<noteq> LF" "value_char_ok e ?ch" "h \<noteq> h_general" by blast
    then show ?thesis
    proof cases
      case 1
      then show ?thesis
        using inside b value_cr_good[OF "1.prems"(3) y "1.prems"(2)] unf by (simp add: Let_def)
    next
      case 2
      then show ?thesis
        using inside b value_lf_good[OF "1.prems"(3) y "1.prems"(2)] unf by (simp add: Let_def)
    next
      case 3
      then show ?thesis using inside b True unf by (simp add: Let_def fail_good)
    next
      case 4
      have "ex_pos x \<le> scan_limit e (ex_pos x)" by (simp add: scan_limit_def)
      then obtain q bad where q: "value_skip e (scan_limit e (ex_pos x)) (ex_pos x) = Some (q, bad)"
        "q < length (env_data e)"
        using value_skip_defined[OF _ scan_limit_le] True "1.prems"(4) less_imp_le by metis
      have "value_inv e (?y\<lparr>ex_pos := Suc q\<rparr>)"
        using y q(2) value_skip_ge[OF True 4(1,2) q(1)] by (auto simp: value_inv_def core_def)
      then show ?thesis
        using "1.IH"(1)[OF inside b refl refl] 4 inside b q "1.prems" unf
        by (simp add: Let_def fail_good)
    next
      case 5
      have k: "value_keeps (ex_hp x) (value_char h ?ch (ex_hp x))" by (rule value_char_keeps[OF "1.prems"(2)])
      show ?thesis
      proof (cases "value_char h ?ch (ex_hp x)")
        case (Value_next h' q)
        have "value_inv e (?y\<lparr>ex_hp := q, ex_pos := Suc (ex_pos x)\<rparr>)"
          using y k Value_next True by (auto simp: value_inv_def core_def value_keeps_def)
        then show ?thesis
          using "1.IH"(2)[OF inside b refl refl _ _ _ _ , of h' q] 5 inside b "1.prems" unf k Value_next
          by (simp add: Let_def value_keeps_def)
      next
        case (Value_fail h')
        then show ?thesis using 5 inside b True unf by (simp add: Let_def fail_good)
      next
        case Value_abort
        then show ?thesis using k by (simp add: value_keeps_def)
      qed
    qed
  qed
qed

lemma step_header_value_good:
  assumes "env_settings e = settings" "ex_inv e k x" "ex_state x = s_header_value"
  shows "good e (rank s_header_value) (step_header_value e x)"
proof -
  have "env_data e \<noteq> []" using assms(2) by (auto simp: ex_inv_def)
  moreover have "value_inv e x" "\<not> unfinished (hp_header_state (ex_hp x))"
    using ex_invD[OF assms(2,3)] assms(3) by (auto simp: value_inv_def intro!: coreI)
  ultimately show ?thesis unfolding step_header_value_def using assms(1) by (intro value_loop_good)
qed

end

lemma step_header_value_start_good:
  assumes "ex_inv e k x" "plain (ex_state x)"
  shows "good e b (step_header_value_start x)"
proof -
  let ?y = "upd_hp (\<lambda>p. p\<lparr>hp_index := 0\<rparr>) (UPDATE_STATE s_header_value (MARK M_header_value x))"
  have m: "marks_in (Some M_header_value) (ex_marks (MARK M_header_value x))"
    using ex_invD[OF assms(1) refl] assms(2) by (intro marks_in_simps(3)) simp
  have "ex_inv e 0 (?y\<lparr>ex_hp := q\<rparr>)" if "value_start_state (ex_ch x) (ex_hp ?y) = Inr q" for q
  proof -
    have "\<not> unfinished (hp_header_state q) \<and> hp_errno q = hp_errno (ex_hp x) \<and> hp_nread q = hp_nread (ex_hp x)"
      using that by (cases "hp_header_state (ex_hp x)") (auto simp: value_start_state_def Let_def split: if_splits)
    then show ?thesis using ex_invD[OF assms(1) refl] m by (intro ex_invI) simp_all
  qed
  moreover have "err \<noteq> HPE_OK \<and> err \<noteq> HPE_PAUSED" if "value_start_state (ex_ch x) (ex_hp ?y) = Inl err" for err
    using that by (cases "hp_header_state (ex_hp x)") (auto simp: value_start_state_def Let_def split: if_splits)
  ultimately show ?thesis
    using assms(1) unfolding step_header_value_start_def Let_def
    by (auto intro!: fail_good split: sum.splits)
qed

lemma step_header_value_discard_ws_good:
  assumes "ex_inv e 1 x" "ex_state x = s_header_value_discard_ws"
  shows "good e b (step_header_value_discard_ws x)"
  using assms inv_plain[OF assms(1)] inv_shift[OF assms(1), of 0] step_header_value_start_good[OF assms(1)]
  by (simp add: step_header_value_discard_ws_def)

lemma step_header_value_lws_good:
  assumes "ex_inv e 1 x" "ex_state x = s_header_value_lws"
  shows "good e (rank s_header_value_lws) (step_header_value_lws x)"
proof -
  have "rank s_header_value_start < rank s_header_value_lws" "rank s_header_field_start < rank s_header_value_lws"
    by (simp_all add: rank_def)
  then show ?thesis
    using assms inv_to_plain[OF assms(1)] inv_plain[OF assms(1)] inv_hp[OF assms(1)]
    by (auto simp: step_header_value_lws_def plain_not_chunk_start)
qed

section \<open>Bodies and chunks\<close>

lemma unat_to_read:
  assumes "length (env_data e) < 2 ^ 64"
  shows "unat (to_read e x) = min (unat (hp_content_length (ex_hp x))) (length (env_data e) - ex_pos x)"
proof -
  have "unat (of_nat (length (env_data e) - ex_pos x) :: u64) = length (env_data e) - ex_pos x"
    using assms by (simp add: unat_of_nat)
  then show ?thesis by (auto simp: to_read_def min_def word_le_nat_alt)
qed

lemma consume_body_props:
  assumes len: "length (env_data e) < 2 ^ 64" and pos: "ex_pos x < length (env_data e)"
    and cl: "hp_content_length (ex_hp x) \<noteq> 0" "hp_content_length (ex_hp x) \<noteq> ULLONG_MAX"
  shows "ex_pos x \<le> ex_pos (consume_body e x)" "ex_pos (consume_body e x) < length (env_data e)"
    "hp_content_length (ex_hp (consume_body e x)) \<noteq> ULLONG_MAX"
proof -
  let ?c = "hp_content_length (ex_hp x)"
  have n: "unat (to_read e x) = min (unat ?c) (length (env_data e) - ex_pos x)" by (rule unat_to_read[OF len])
  have c: "0 < unat ?c" using cl(1) by (simp add: unat_gt_0)
  show "ex_pos x \<le> ex_pos (consume_body e x)" "ex_pos (consume_body e x) < length (env_data e)"
    using n c pos by (auto simp: consume_body_def Let_def)
  have "to_read e x \<le> ?c" by (simp add: to_read_def)
  then have "?c - to_read e x \<le> ?c" by (rule word_sub_le)
  then have "?c - to_read e x \<noteq> ULLONG_MAX"
    using cl(2) unfolding ULLONG_MAX_def by (metis word_order.extremum_unique)
  then show "hp_content_length (ex_hp (consume_body e x)) \<noteq> ULLONG_MAX" by (simp add: consume_body_def Let_def)
qed

lemma consume_body_frame [simp]:
  "ex_state (consume_body e x) = ex_state x" "ex_nread (consume_body e x) = ex_nread x"
  "ex_marks (consume_body e x) = ex_marks (MARK M_body x)" "hp_errno (ex_hp (consume_body e x)) = hp_errno (ex_hp x)"
  "hp_nread (ex_hp (consume_body e x)) = hp_nread (ex_hp x)"
  "has_flag g (ex_hp (consume_body e x)) = has_flag g (ex_hp x)"
  "hp_upgrade (ex_hp (consume_body e x)) = hp_upgrade (ex_hp x)"
  by (simp_all add: consume_body_def Let_def has_flag_def)

lemma consume_body_marks [simp]:
  assumes "marks_before e x" "ex_pos x < length (env_data e)" "ex_pos x \<le> ex_pos (consume_body e x)"
  shows "marks_before e (consume_body e x)"
proof -
  let ?y = "upd_hp (\<lambda>p. p\<lparr>hp_content_length := hp_content_length p - to_read e x\<rparr>) (MARK M_body x)"
  have "marks_before e (?y\<lparr>ex_pos := ex_pos (consume_body e x)\<rparr>)"
    using assms by (intro marks_before_steps(3)) simp_all
  moreover have "?y\<lparr>ex_pos := ex_pos (consume_body e x)\<rparr> = consume_body e x"
    by (simp add: consume_body_def Let_def)
  ultimately show ?thesis by simp
qed

lemma step_body_identity_eof_good:
  assumes "ex_inv e k x" "ex_state x = s_body_identity_eof"
  shows "good e b (step_body_identity_eof e x)"
proof -
  have "env_data e \<noteq> []" using ex_invD[OF assms] by auto
  then show ?thesis
    using assms(2) ex_invD[OF assms] marks_in_simps(2)[of M_body x]
    by (auto simp: step_body_identity_eof_def intro!: ex_invI)
qed

lemma unhex_range: "unhex_val c = - 1 \<or> 0 \<le> unhex_val c \<and> unhex_val c \<le> 15"
  using unhex_val_eq[of c] by (auto simp: IS_NUM_iff in_range_def ord_of_def split: if_splits)

lemma unat_ULLONG_MAX: "unat ULLONG_MAX = 2 ^ 64 - 1"
  by code_simp

text \<open>The conservative guard keeps the next value below the sentinel.\<close>

lemma guarded_digit:
  fixes t :: u64
  assumes "\<not> (ULLONG_MAX - of_nat b) div of_nat b < t" "d < b" "0 < b" "b \<le> 16"
  shows "unat (t * of_nat b + of_nat d) = unat t * b + d" "unat t * b + d < 2 ^ 64 - 1"
proof -
  have b: "unat (of_nat b :: u64) = b" using assms(4) by (simp add: unat_of_nat)
  note unat_ULLONG_MAX
  then have "unat ((ULLONG_MAX - of_nat b) div of_nat b :: u64) = (2 ^ 64 - 1 - b) div b"
    using b assms(4) by (simp add: unat_div unat_sub word_le_nat_alt)
  then have "unat t \<le> (2 ^ 64 - 1 - b) div b"
    using assms(1) by (simp add: word_less_nat_alt not_less)
  then have "unat t * b \<le> 2 ^ 64 - 1 - b"
    using assms(3) by (metis less_eq_div_iff_mult_less_eq)
  moreover have big: "(2 :: nat) ^ 64 - 1 = 18446744073709551615" by simp
  ultimately show *: "unat t * b + d < 2 ^ 64 - 1" using assms(2,4) unfolding big by linarith
  have d: "unat (of_nat d :: u64) = d" using assms(2,4) by (simp add: unat_of_nat)
  show "unat (t * of_nat b + of_nat d) = unat t * b + d"
    using * b d by (simp add: unat_word_ariths)
qed

lemma step_chunk_size_start_good:
  assumes "ex_inv e 1 x" "ex_state x = s_chunk_size_start"
  shows "good e b (step_chunk_size_start x)"
proof -
  have f: "has_flag F_CHUNKED (ex_hp x)" "ex_nread x = 1" using ex_invD[OF assms] by simp_all
  let ?v = "unhex_val (ex_ch x)"
  have "(word_of_int ?v :: u64) \<noteq> ULLONG_MAX" if "?v \<noteq> - 1"
  proof -
    have "word_of_int ?v = (of_nat (nat ?v) :: u64)" "nat ?v \<le> 15"
      using unhex_range[of "ex_ch x"] that by auto
    then have "unat (word_of_int ?v :: u64) \<le> 15" by (simp only: unat_of_nat) simp
    then show ?thesis using unat_ULLONG_MAX by auto
  qed
  then have "ex_inv e 0 (UPDATE_STATE s_chunk_size (upd_hp (\<lambda>p. p\<lparr>hp_content_length := word_of_int ?v\<rparr>) x))"
    if "?v \<noteq> - 1"
    using ex_invD[OF assms] f that by (intro ex_invI) (simp_all add: has_flag_def)
  then show ?thesis using f assms(1) by (simp add: step_chunk_size_start_def Let_def fail_good)
qed

lemma step_chunk_size_good:
  assumes "ex_inv e 1 x" "ex_state x = s_chunk_size"
  shows "good e b (step_chunk_size x)"
proof -
  let ?v = "unhex_val (ex_ch x)" and ?c = "hp_content_length (ex_hp x)"
  have f: "has_flag F_CHUNKED (ex_hp x)" "?c \<noteq> ULLONG_MAX" using ex_invD[OF assms] by simp_all
  have s: "ex_inv e 0 (UPDATE_STATE s_chunk_size_almost_done x)" "ex_inv e 0 (UPDATE_STATE s_chunk_parameters x)"
    using ex_invD[OF assms] f by (auto intro!: ex_invI)
  have "ex_inv e 0 (upd_hp (\<lambda>p. p\<lparr>hp_content_length := ?c * 16 + word_of_int ?v\<rparr>) x)"
    if "?v \<noteq> - 1" "\<not> (ULLONG_MAX - 16) div 16 < ?c"
  proof -
    have v: "word_of_int ?v = (of_nat (nat ?v) :: u64)" "nat ?v < 16"
      using unhex_range[of "ex_ch x"] that(1) by auto
    have "unat (?c * 16 + word_of_int ?v) < 2 ^ 64 - 1"
      using guarded_digit[of 16 ?c "nat ?v"] that(2) v by simp
    then have "?c * 16 + word_of_int ?v \<noteq> ULLONG_MAX" using unat_ULLONG_MAX by auto
    then show ?thesis using ex_invD[OF assms] f assms(2) by (intro ex_invI) (simp_all add: has_flag_def)
  qed
  then show ?thesis using f s assms(1) by (auto simp: step_chunk_size_def Let_def fail_good)
qed

lemma step_chunk_parameters_good:
  assumes "ex_inv e 1 x" "ex_state x = s_chunk_parameters"
  shows "good e b (step_chunk_parameters x)"
proof -
  have "ex_inv e 0 (UPDATE_STATE s_chunk_size_almost_done x)"
    using ex_invD[OF assms] by (auto intro!: ex_invI)
  then show ?thesis
    using ex_invD[OF assms] assms(2) inv_shift[OF assms(1), of 0] by (simp add: step_chunk_parameters_def)
qed

lemma step_chunk_data_good:
  assumes inv: "ex_inv e 1 x" "ex_state x = s_chunk_data" and len: "length (env_data e) < 2 ^ 64"
  shows "good e b (step_chunk_data e x)"
proof -
  note d = ex_invD[OF inv]
  have f: "has_flag F_CHUNKED (ex_hp x)" "hp_content_length (ex_hp x) \<noteq> 0" "hp_content_length (ex_hp x) \<noteq> ULLONG_MAX"
    using d by simp_all
  note c = consume_body_props[OF len d(7) f(2,3)]
  have m: "marks_in (Some M_body) (ex_marks (MARK M_body x))" using d(6) by (intro marks_in_simps(2)) simp
  have "ex_inv e 0 (consume_body e x)" if "hp_content_length (ex_hp (consume_body e x)) \<noteq> 0"
    using d f c m that inv(2) by (intro ex_invI) simp_all
  moreover have "ex_inv e 0 (UPDATE_STATE s_chunk_data_almost_done (consume_body e x))"
    if "hp_content_length (ex_hp (consume_body e x)) = 0"
    using d f c m that by (intro ex_invI) simp_all
  ultimately show ?thesis using f by (simp add: step_chunk_data_def Let_def)
qed

section \<open>States with callbacks\<close>

lemma NEW_MESSAGE_plain [simp]: "plain (NEW_MESSAGE p)"
  by (simp add: NEW_MESSAGE_def start_state_def)

lemma andthen_Next: "andthen r Next = r"
  by (cases r) (simp_all add: andthen_def)

lemma first_method_ok: "first_method c = Some m \<Longrightarrow> 1 \<le> length (method_string m)"
proof -
  have "list_all (\<lambda>m. 1 \<le> length (method_string m)) http_methods" by code_simp
  moreover have "m \<in> set http_methods" by (cases m) (simp_all add: http_methods_def)
  ultimately show ?thesis by (auto simp: list_all_iff)
qed

context parser_client
begin

abbreviation env_ok :: "'d env \<Rightarrow> bool" where
  "env_ok e \<equiv> env_settings e = settings \<and> length (env_data e) < 2 ^ 64"

lemma notify_simple_good:
  assumes e: "env_ok e" and x: "ex_inv e 0 x" and s: "ex_state x \<noteq> s_chunk_size_start \<or> hp_nread (ex_hp x) = 0"
  shows "good e b (notify_message_begin e x)" "good e b (notify_message_complete e x)"
    "good e b (notify_chunk_header e x)"
    "er \<le> length (env_data e) \<Longrightarrow> good e b (notify_chunk_complete e er x)"
proof -
  have p: "ex_pos x + 1 \<le> length (env_data e)" using x by (simp add: ex_inv_def)
  have g: "good e b (CALLBACK_NOTIFY cb err er x)" if "cb \<in> {on_message_begin settings,
      on_headers_complete settings, on_message_complete settings, on_chunk_header settings, on_chunk_complete settings}"
      "err \<noteq> HPE_OK" "er \<le> length (env_data e)" for cb err er
    using notify_good[OF that(1) x that(2,3), of b Next] s by (auto simp: andthen_Next)
  show "good e b (notify_message_begin e x)" "good e b (notify_message_complete e x)"
    "good e b (notify_chunk_header e x)"
    "er \<le> length (env_data e) \<Longrightarrow> good e b (notify_chunk_complete e er x)"
    using e p by (simp_all add: notify_message_begin_def notify_message_complete_def notify_chunk_header_def
        notify_chunk_complete_def g)
qed

lemma notify_complete_then_good:
  assumes e: "env_ok e" and x: "ex_inv e 0 x" "ex_state x \<noteq> s_chunk_size_start"
    and k: "\<And>y. quiet x y \<Longrightarrow> ex_inv e 0 y \<Longrightarrow> good e b (k y)"
  shows "good e b (andthen (notify_message_complete e x) k)"
    "er \<le> length (env_data e) \<Longrightarrow> good e b (andthen (notify_chunk_complete e er x) k)"
proof -
  have p: "ex_pos x + 1 \<le> length (env_data e)" using x by (simp add: ex_inv_def)
  show "good e b (andthen (notify_message_complete e x) k)"
    unfolding notify_message_complete_def using e x p k by (intro notify_good) auto
  show "good e b (andthen (notify_chunk_complete e er x) k)" if "er \<le> length (env_data e)"
    unfolding notify_chunk_complete_def using e x that k by (intro notify_good) auto
qed

lemma step_start_good:
  assumes e: "env_ok e" and x: "ex_inv e k x"
  shows "ex_state x = s_start_req_or_res \<Longrightarrow> good e (rank s_start_req_or_res) (step_start_req_or_res e x)"
    "ex_state x = s_start_res \<Longrightarrow> good e b (step_start_res e x)"
    "ex_state x = s_start_req \<Longrightarrow> good e b (step_start_req e x)"
proof -
  note r = reset_message_simps[OF x]
  note h = inv_hp[of e 0 "reset_message x", OF r(1)]
  have plain: "ex_inv e 0 (UPDATE_STATE s (reset_message x))" if "plain (ex_state x)" "plain s" for s
    using inv_plain[OF r(1)[OF that(1)]] r(2)[OF that(1)] that by simp
  show "good e (rank s_start_req_or_res) (step_start_req_or_res e x)" if s: "ex_state x = s_start_req_or_res"
  proof -
    have "ex_inv e 0 (UPDATE_STATE s_start_req (upd_hp (\<lambda>p. p\<lparr>hp_type := HTTP_REQUEST\<rparr>) (reset_message x)))"
      using r h s by (intro inv_to_plain) simp_all
    then show ?thesis
      using s inv_shift[OF x, of 0] notify_simple_good(1)[OF e plain[of s_res_or_resp_H]]
      by (simp add: step_start_req_or_res_def Let_def rank_def)
  qed
  show "good e b (step_start_res e x)" if s: "ex_state x = s_start_res"
    using s x inv_shift[OF x, of 0] notify_simple_good(1)[OF e plain[of s_res_H]]
    by (simp add: step_start_res_def Let_def fail_good r(3))
  show "good e b (step_start_req e x)" if s: "ex_state x = s_start_req"
  proof -
    let ?z = "upd_hp (\<lambda>p. p\<lparr>hp_method := HTTP_DELETE, hp_index := 1\<rparr>) (reset_message x)"
    have "ex_inv e 0 (UPDATE_STATE s_req_method (upd_hp (\<lambda>p. p\<lparr>hp_method := m\<rparr>) ?z))"
      if "first_method (ex_ch x) = Some m" for m
      using first_method_ok[OF that] ex_invD[OF r(1) refl] r(2) s by (intro ex_invI) simp_all
    then have "good e b (notify_message_begin e (UPDATE_STATE s_req_method (upd_hp (\<lambda>p. p\<lparr>hp_method := m\<rparr>) ?z)))"
      if "first_method (ex_ch x) = Some m" for m
      using notify_simple_good(1)[OF e] that by simp
    then show ?thesis
      using s x inv_shift[OF x, of 0]
      by (auto simp: step_start_req_def Let_def fail_good r(3) split: option.splits)
  qed
qed

lemma step_res_status_good:
  assumes e: "env_ok e" and x: "ex_inv e k x" "ex_state x = s_res_status"
  shows "good e b (step_res_status e x)"
proof -
  note d = ex_invD[OF x]
  have "good e b (CALLBACK_DATA e M_status (UPDATE_STATE s x))" if "plain s" for s
    using d e that plain_not_chunk_start[OF that] by (intro data_step_good coreI) simp_all
  then show ?thesis using x inv_shift[OF x(1), of 0] by (simp add: step_res_status_def)
qed

lemma step_req_url_good:
  assumes e: "env_ok e" and x: "ex_inv e k x" "ex_state x \<in> set url_mark_states"
  shows "good e b (step_req_url e x)"
proof -
  note d = ex_invD[OF x(1) refl]
  have m: "marks_in (Some M_url) (ex_marks x)" using url_inv_core[OF x] by simp
  have cb: "good e b (CALLBACK_DATA e M_url (UPDATE_STATE s y))"
    if "plain s" "hp_errno (ex_hp y) = HPE_OK" "hp_nread (ex_hp y) \<le> env_max e" "ex_nread y = ex_nread x"
      "ex_pos y = ex_pos x" "ex_marks y = ex_marks x" for s y
    using d e m that plain_not_chunk_start[OF that(1)] marks_before_cong[of y x e]
    by (intro data_step_good coreI) simp_all
  have "good e b (CALLBACK_DATA e M_url (UPDATE_STATE s_req_http_start x))"
    "\<And>s. plain s \<Longrightarrow> good e b (CALLBACK_DATA e M_url
       (UPDATE_STATE s (upd_hp (\<lambda>p. p\<lparr>hp_major := 0, hp_minor := 9\<rparr>) x)))"
    using d by (simp_all add: cb)
  then show ?thesis
    using url_char_or_fail_good[OF url_inv_core[OF x]] by (simp add: step_req_url_def)
qed

lemma step_header_value_discard_lws_good:
  assumes e: "env_ok e" and x: "ex_inv e k x" "ex_state x = s_header_value_discard_lws"
  shows "good e (rank s_header_value_discard_lws) (step_header_value_discard_lws e x)"
proof -
  let ?y = "UPDATE_STATE s_header_field_start (MARK M_header_value (upd_hp finish_header x))"
  note d = ex_invD[OF x]
  have "marks_in (Some M_header_value) (ex_marks ?y)"
    using d marks_in_simps(3)[of "upd_hp finish_header x" M_header_value] by simp
  moreover have "core e 0 ?y" using d by (intro coreI) simp_all
  ultimately have "good e (rank s_header_value_discard_lws) (andthen (CALLBACK_DATA_NOADVANCE e M_header_value ?y) Again)"
    using d e by (intro data_step_good) (simp_all add: rank_def)
  then show ?thesis
    using x inv_plain[OF x(1)] by (simp add: step_header_value_discard_lws_def fail_good)
qed

lemma RETURN_good:
  assumes "ex_inv e 0 x" "n \<le> length (env_data e)" "hp_upgrade (ex_hp x)"
  shows "good e b (RETURN n x)"
  using ex_invD[OF assms(1) refl] assms(2,3) by (auto simp: RETURN_def ret_ok_def parser_inv_def state_ok_cong)

lemma step_message_done_good:
  assumes e: "env_ok e" and x: "ex_inv e k x" "ex_state x = s_message_done"
  shows "good e b (step_message_done e x)"
  unfolding step_message_done_def
proof (rule notify_complete_then_good(1)[OF e])
  show "ex_inv e 0 (UPDATE_STATE (NEW_MESSAGE (ex_hp x)) x)" using x inv_plain[OF x(1)] by simp
  fix y assume "ex_inv e 0 y"
  moreover from this have "Suc (ex_pos y) \<le> length (env_data e)" by (simp add: Suc_le_eq)
  ultimately show "good e b (if hp_upgrade (ex_hp y) then RETURN (ex_pos y + 1) y else Next y)"
    by (simp add: RETURN_good)
qed (simp add: plain_not_chunk_start)

lemma step_body_identity_good:
  assumes e: "env_ok e" and x: "ex_inv e k x" "ex_state x = s_body_identity"
  shows "good e (rank s_body_identity) (step_body_identity e x)"
proof -
  note d = ex_invD[OF x]
  have f: "hp_content_length (ex_hp x) \<noteq> 0" "hp_content_length (ex_hp x) \<noteq> ULLONG_MAX" using d by simp_all
  have len: "length (env_data e) < 2 ^ 64" using e by simp
  note c = consume_body_props[OF len d(7) f]
  let ?y = "consume_body e x"
  have m: "marks_in (Some M_body) (ex_marks (MARK M_body x))" using d(6) by (intro marks_in_simps(2)) simp
  have "ex_inv e 0 ?y" if "hp_content_length (ex_hp ?y) \<noteq> 0"
    using d f c m that x(2) by (intro ex_invI) simp_all
  moreover have "good e (rank s_body_identity)
     (andthen (CALLBACK_DATA_ER e M_body (ex_pos ?y + 1) (ex_pos ?y) (UPDATE_STATE s_message_done ?y)) Again)"
  proof (rule data_good)
    show "core e 0 (UPDATE_STATE s_message_done ?y)" using d c by (intro coreI) simp_all
    fix y assume "quiet (UPDATE_STATE s_message_done ?y\<lparr>ex_marks := (ex_marks (UPDATE_STATE s_message_done ?y))(M_body := None)\<rparr>) y"
      "ex_inv e 0 y"
    then show "good e (rank s_body_identity) (Again y)"
      using quietD(1) by (fastforce simp: rank_def)
  qed (use e c m in simp_all)
  ultimately show ?thesis using f by (simp add: step_body_identity_def Let_def)
qed

lemma step_headers_done_good:
  assumes e: "env_ok e" and x: "ex_inv e k x" "ex_state x = s_headers_done"
  shows "good e b (step_headers_done e x)"
  unfolding step_headers_done_def
proof (rule STRICT_CHECK_good)
  show "ex_pos x \<le> length (env_data e)" using x by simp
  note d = ex_invD[OF x]
  define y where "y = upd_hp (\<lambda>p. p\<lparr>hp_nread := 0\<rparr>) (x\<lparr>ex_nread := 0\<rparr>)"
  have hp: "hp_errno (ex_hp y) = HPE_OK" "ex_nread y = 0" "hp_nread (ex_hp y) = 0" "marks_in None (ex_marks y)"
    "ex_pos y < length (env_data e)" "ex_state y = s_headers_done" "marks_before e y"
    using d x(2) by (simp_all add: y_def)
  have inv: "ex_inv e 0 (UPDATE_STATE s y)" if "state_ok s (ex_hp y)" for s
    using hp marks_in_simps(1)[OF hp(4)] that by (intro ex_invI) simp_all
  let ?c = "UPDATE_STATE (NEW_MESSAGE (ex_hp y)) y"
  have n: "NEW_MESSAGE (ex_hp y) \<noteq> s_chunk_size_start" by (simp add: plain_not_chunk_start)
  have complete: "good e b (notify_message_complete e ?c)"
    by (rule notify_simple_good(2)[OF e inv]) (simp_all add: n)
  have upgrade: "good e b (andthen (notify_message_complete e ?c) (\<lambda>z. RETURN (ex_pos z + 1) z))"
    if "hp_upgrade (ex_hp y)"
  proof (rule notify_complete_then_good(1)[OF e inv])
    fix z assume q: "quiet ?c z" and z: "ex_inv e 0 z"
    have "hp_upgrade (ex_hp z)" using quietD(6)[OF q] that by simp
    moreover have "ex_pos z + 1 \<le> length (env_data e)" using quietD(3)[OF q] hp(5) by simp
    ultimately show "good e b (RETURN (ex_pos z + 1) z)" using z by (intro RETURN_good)
  qed (simp_all add: n)
  show "good e b (let y = upd_hp (\<lambda>p. p\<lparr>hp_nread := 0\<rparr>) (x\<lparr>ex_nread := 0\<rparr>); p = ex_hp y;
      hasBody = has_flag F_CHUNKED p \<or> 0 < hp_content_length p \<and> hp_content_length p \<noteq> ULLONG_MAX;
      complete = notify_message_complete e (UPDATE_STATE (NEW_MESSAGE p) y)
    in if hp_upgrade p \<and> (hp_method p = HTTP_CONNECT \<or> has_flag F_SKIPBODY p \<or> \<not> hasBody)
       then andthen complete (\<lambda>z. RETURN (ex_pos z + 1) z)
       else if has_flag F_SKIPBODY p then complete
       else if has_flag F_CHUNKED p then Next (UPDATE_STATE s_chunk_size_start y)
       else if hp_content_length p = 0 then complete
       else if hp_content_length p \<noteq> ULLONG_MAX then Next (UPDATE_STATE s_body_identity y)
       else if \<not> http_message_needs_eof p then complete
       else Next (UPDATE_STATE s_body_identity_eof y))"
    unfolding y_def[symmetric] Let_def using complete upgrade inv by simp
qed

lemma headers_complete_good:
  assumes e: "env_ok e" and y: "ex_inv e 0 y" "ex_state y = s_headers_done" and b: "rank s_headers_done < b"
    and q: "q = (ex_hp y)\<lparr>hp_data := d, hp_errno := err\<rparr>"
    and g: "\<And>p. hp_errno (g p) = hp_errno p" "\<And>p. hp_nread (g p) = hp_nread p"
  shows "good e b (let z = upd_hp g (y\<lparr>ex_hp := q\<rparr>) in
     if hp_errno (ex_hp z) \<noteq> HPE_OK then RETURN (ex_pos z) z else Again z)"
proof -
  note d = ex_invD[OF y]
  let ?z = "upd_hp g (y\<lparr>ex_hp := q\<rparr>)"
  have "ex_inv e 0 ?z" if "err = HPE_OK" using d q g that y(2) by (intro ex_invI) simp_all
  moreover have "good e b (RETURN (ex_pos ?z) ?z)" if "err \<noteq> HPE_OK"
    using d q g that y(2) by (simp add: RETURN_def ret_ok_def parser_inv_def)
  ultimately show ?thesis using b y(2) g q by (simp add: Let_def)
qed

end

text \<open>Between two rounds: the invariant, except that the position may be the end of the buffer.\<close>

definition loop_inv :: "'d env \<Rightarrow> 'd exec \<Rightarrow> bool" where
  "loop_inv e x \<longleftrightarrow> core e 0 x \<and> marks_in (mark_of (ex_state x)) (ex_marks x) \<and> ex_pos x \<le> length (env_data e)"

context parser_client
begin

lemma step_headers_almost_done_good:
  assumes e: "env_ok e" and x: "ex_inv e k x" "ex_state x = s_headers_almost_done"
  shows "good e (rank s_headers_almost_done) (step_headers_almost_done e x)"
  unfolding step_headers_almost_done_def
proof (rule STRICT_CHECK_good)
  let ?b = "rank s_headers_almost_done"
  show pos: "ex_pos x \<le> length (env_data e)" using x by simp
  note d = ex_invD[OF x]
  have r: "rank s_message_done < ?b" "rank s_headers_done < ?b" by (simp_all add: rank_def)
  have fin: "ex_inv e 0 (UPDATE_STATE s_message_done x)" using inv_plain[OF x(1)] x(2) by simp
  have trailing: "good e ?b (andthen (notify_chunk_complete e (ex_pos x) (UPDATE_STATE s_message_done x)) Again)"
  proof (rule notify_complete_then_good(2)[OF e fin])
    fix y assume "quiet (UPDATE_STATE s_message_done x) y" "ex_inv e 0 y"
    then show "good e ?b (Again y)" using quietD(1) r by fastforce
  qed (use pos in simp_all)
  define u where "u = (\<lambda>p :: 'd http_parser. p\<lparr>hp_upgrade :=
      (if has_flag F_UPGRADE p \<and> has_flag F_CONNECTION_UPGRADE p
       then hp_type p = HTTP_REQUEST \<or> hp_status_code p = 101 else hp_method p = HTTP_CONNECT)\<rparr>)"
  define y where "y = upd_hp u (UPDATE_STATE s_headers_done x)"
  have y: "ex_inv e 0 y" "ex_state y = s_headers_done"
    using d unfolding y_def by (auto simp: u_def intro!: ex_invI)
  define check where "check = (\<lambda>z :: 'd exec. if hp_errno (ex_hp z) \<noteq> HPE_OK then RETURN (ex_pos z) z else Again z)"
  have chk: "good e ?b (check (upd_hp g (y\<lparr>ex_hp := q\<rparr>)))"
    if "q = (ex_hp y)\<lparr>hp_data := dd, hp_errno := err\<rparr>" "\<And>p. hp_errno (g p) = hp_errno p" "\<And>p. hp_nread (g p) = hp_nread p"
    for q g dd err
    using headers_complete_good[OF e y r(2) that(1), of g] that(2,3) by (simp add: check_def Let_def)
  have none: "good e ?b (check y)" using y r ex_invD(1)[OF y] by (simp add: check_def)
  have cb: "good e ?b (case f (ex_hp y) of (rc, q) \<Rightarrow> let z = y\<lparr>ex_hp := q\<rparr> in
       if rc = 0 then check z
       else if rc = 2 then check (upd_hp (\<lambda>p. set_flag F_SKIPBODY (p\<lparr>hp_upgrade := True\<rparr>)) z)
       else if rc = 1 then check (upd_hp (set_flag F_SKIPBODY) z)
       else RETURN (ex_pos z) (SET_ERRNO HPE_CB_headers_complete z))"
    if f: "on_headers_complete (env_settings e) = Some f" for f
  proof -
    have "keeps_parser f" using cb_keeps[of "Some f" f] f e by simp
    then obtain dd err where q: "f (ex_hp y) = (fst (f (ex_hp y)), (ex_hp y)\<lparr>hp_data := dd, hp_errno := err\<rparr>)"
      by (rule keeps_parserE)
    have "good e ?b (check (y\<lparr>ex_hp := (ex_hp y)\<lparr>hp_data := dd, hp_errno := err\<rparr>\<rparr>))"
      using chk[OF refl, of id] by (simp add: upd_hp_def)
    then show ?thesis
      using ex_invD[OF y] by (subst q) (simp add: Let_def chk RETURN_def SET_ERRNO_def ret_ok_def parser_inv_def)
  qed
  show "good e ?b
     (if has_flag F_TRAILING (ex_hp x)
       then andthen (notify_chunk_complete e (ex_pos x) (UPDATE_STATE s_message_done x)) Again
       else if has_flag F_CHUNKED (ex_hp x) \<and> has_flag F_CONTENTLENGTH (ex_hp x)
       then fail HPE_UNEXPECTED_CONTENT_LENGTH x
       else
         let y = upd_hp (\<lambda>p. p\<lparr>hp_upgrade :=
                   (if has_flag F_UPGRADE p \<and> has_flag F_CONNECTION_UPGRADE p
                    then hp_type p = HTTP_REQUEST \<or> hp_status_code p = 101
                    else hp_method p = HTTP_CONNECT)\<rparr>) (UPDATE_STATE s_headers_done x);
             check = (\<lambda>z. if hp_errno (ex_hp z) \<noteq> HPE_OK then RETURN (ex_pos z) z else Again z)
         in case on_headers_complete (env_settings e) of
              None \<Rightarrow> check y
            | Some f \<Rightarrow>
                (case f (ex_hp y) of
                   (rc, q) \<Rightarrow>
                     let z = y\<lparr>ex_hp := q\<rparr> in
                     if rc = 0 then check z
                     else if rc = 2 then check (upd_hp (\<lambda>p. set_flag F_SKIPBODY (p\<lparr>hp_upgrade := True\<rparr>)) z)
                     else if rc = 1 then check (upd_hp (set_flag F_SKIPBODY) z)
                     else RETURN (ex_pos z) (SET_ERRNO HPE_CB_headers_complete z)))"
    unfolding u_def[symmetric] y_def[symmetric] check_def[symmetric] Let_def
    using trailing none cb pos by (auto simp: fail_good Let_def split: option.splits)
qed

lemma step_chunk_size_almost_done_good:
  assumes e: "env_ok e" and x: "ex_inv e k x" "ex_state x = s_chunk_size_almost_done"
  shows "good e b (step_chunk_size_almost_done e x)"
proof -
  note d = ex_invD[OF x]
  define y where "y = upd_hp (\<lambda>p. p\<lparr>hp_nread := 0\<rparr>) (x\<lparr>ex_nread := 0\<rparr>)"
  have f: "has_flag F_CHUNKED (ex_hp x)" using d by simp
  have "ex_inv e 0 (UPDATE_STATE s_header_field_start (upd_hp (set_flag F_TRAILING) y))"
    using d by (intro ex_invI) (simp_all add: y_def)
  moreover have "ex_inv e 0 (UPDATE_STATE s_chunk_data y)" if "hp_content_length (ex_hp y) \<noteq> 0"
    using d that marks_in_simps(1)[of "ex_marks x"] by (intro ex_invI) (simp_all add: y_def has_flag_def)
  ultimately have "good e b (notify_chunk_header e (if hp_content_length (ex_hp y) = 0
            then UPDATE_STATE s_header_field_start (upd_hp (set_flag F_TRAILING) y)
            else UPDATE_STATE s_chunk_data y))"
    using notify_simple_good(3)[OF e] by simp
  then show ?thesis
    using f x(1) unfolding step_chunk_size_almost_done_def y_def by (simp add: Let_def STRICT_CHECK_good)
qed

lemma step_chunk_data_end_good:
  assumes e: "env_ok e" and x: "ex_inv e k x"
  shows "ex_state x = s_chunk_data_almost_done \<Longrightarrow> good e b (step_chunk_data_almost_done e x)"
    "ex_state x = s_chunk_data_done \<Longrightarrow> good e b (step_chunk_data_done e x)"
proof -
  show "good e b (step_chunk_data_almost_done e x)" if s: "ex_state x = s_chunk_data_almost_done"
  proof -
    note d = ex_invD[OF x s]
    have "good e b (CALLBACK_DATA e M_body (UPDATE_STATE s_chunk_data_done x))"
      using d e by (intro data_step_good coreI) simp_all
    then show ?thesis using d x by (simp add: step_chunk_data_almost_done_def STRICT_CHECK_good)
  qed
  show "good e b (step_chunk_data_done e x)" if s: "ex_state x = s_chunk_data_done"
  proof -
    note d = ex_invD[OF x s]
    define y where "y = upd_hp (\<lambda>p. p\<lparr>hp_nread := 0\<rparr>) (x\<lparr>ex_nread := 0\<rparr>)"
    have "ex_inv e 0 (UPDATE_STATE s_chunk_size_start y)"
      using d by (intro ex_invI) (simp_all add: y_def has_flag_def)
    then have "good e b (notify_chunk_complete e (ex_pos x + 1) (UPDATE_STATE s_chunk_size_start y))"
      using notify_simple_good(4)[OF e] d(7) by (simp add: y_def)
    then show ?thesis
      using d x unfolding step_chunk_data_done_def y_def by (simp add: Let_def STRICT_CHECK_good)
  qed
qed

section \<open>The switch and the loops\<close>

lemma exec_switch_good:
  assumes e: "env_ok e" and x: "ex_inv e 1 x"
  shows "good e (rank (ex_state x)) (exec_switch e x)"
proof -
  have s: "env_settings e = settings" and len: "length (env_data e) < 2 ^ 64" using e by simp_all
  have url: "ex_state x \<in> set url_mark_states \<Longrightarrow> ex_state x = t \<Longrightarrow> t \<in> set url_mark_states" for t by simp
  note rules = step_dead_good[OF x] step_start_good[OF e x] step_res_or_resp_H_good[OF x] step_expect_good[OF x]
    step_version_char_good[OF x] step_http_version_good[OF x] step_res_first_status_code_good[OF x]
    step_res_status_code_good[OF x] step_res_status_start_good[OF x] step_res_status_good[OF e x]
    step_req_method_good[OF x] step_req_spaces_before_url_good[OF x] step_req_schema_good[OF x]
    step_req_url_good[OF e x] step_req_http_good[OF x] step_header_field_start_good[OF x]
    step_header_field_good[OF s x] step_header_value_discard_ws_good[OF x] step_header_value_start_good[OF x]
    step_header_value_good[OF s x] step_header_value_lws_good[OF x] step_header_value_discard_lws_good[OF e x]
    step_headers_almost_done_good[OF e x] step_headers_done_good[OF e x] step_body_identity_good[OF e x]
    step_body_identity_eof_good[OF x] step_message_done_good[OF e x] step_chunk_size_start_good[OF x]
    step_chunk_size_good[OF x] step_chunk_parameters_good[OF x] step_chunk_size_almost_done_good[OF e x]
    step_chunk_data_good[OF x _ len] step_chunk_data_end_good[OF e x]
  have us: "s_req_schema \<in> set url_mark_states" "s_req_schema_slash \<in> set url_mark_states"
    "s_req_schema_slash_slash \<in> set url_mark_states" "s_req_server_start \<in> set url_mark_states"
    "s_req_server \<in> set url_mark_states" "s_req_server_with_at \<in> set url_mark_states"
    "s_req_path \<in> set url_mark_states" "s_req_query_string_start \<in> set url_mark_states"
    "s_req_query_string \<in> set url_mark_states" "s_req_fragment_start \<in> set url_mark_states"
    "s_req_fragment \<in> set url_mark_states"
    by (simp_all add: url_mark_states_def)
  show ?thesis
    by (cases "ex_state x") (simp_all add: exec_switch_def rules us)
qed

lemma reexecute_good:
  "env_ok e \<Longrightarrow> ex_inv e 1 x \<Longrightarrow> rank (ex_state x) < n \<Longrightarrow> good e 0 (reexecute e n x)"
proof (induction n arbitrary: x)
  case 0
  then show ?case by simp
next
  case (Suc n)
  have g: "good e (rank (ex_state x)) (exec_switch e x)" by (rule exec_switch_good[OF Suc.prems(1,2)])
  show ?case
  proof (cases "exec_switch e x")
    case (Again y)
    then have "ex_inv e 1 y" "rank (ex_state y) < n" using g Suc.prems(3) inv_shift[of e 0 y 1] by auto
    then show ?thesis using Again Suc.IH[OF Suc.prems(1)] by simp
  qed (use g in \<open>auto simp: good_def\<close>)
qed

lemma rank_fuel: "rank s < 8"
  by (simp add: rank_def)

lemma exec_round_good:
  assumes e: "env_ok e" and x: "loop_inv e x" "ex_pos x < length (env_data e)"
  shows "good e 0 (exec_round e x)"
proof -
  let ?y = "x\<lparr>ex_ch := env_data e ! ex_pos x\<rparr>"
  have y: "core e 0 ?y" "marks_in (mark_of (ex_state ?y)) (ex_marks ?y)" "ex_pos ?y < length (env_data e)"
    using x by (simp_all add: loop_inv_def core_def)
  have b: "byte_at e (ex_pos x) = Some (env_data e ! ex_pos x)" using x(2) by (simp add: byte_at_def)
  show ?thesis
  proof (cases "PARSING_HEADER (ex_state x)")
    case True
    have "ex_pos ?y \<le> length (env_data e)" using y by simp
    then show ?thesis
    proof (cases rule: COUNT_cases[where v = 1])
      case ok
      let ?z = "?y\<lparr>ex_nread := ex_nread ?y + of_nat 1\<rparr>"
      have "ex_inv e 1 ?z" using y ok(2) by (auto simp: ex_inv_def core_def)
      then have "good e 0 (reexecute e reexecute_fuel ?z)" using e rank_fuel by (intro reexecute_good) auto
      then show ?thesis using True ok(1) by (simp add: exec_round_def Let_def b)
    next
      case (over n q)
      then show ?thesis using True by (simp add: exec_round_def Let_def b)
    qed
  next
    case False
    then have "ex_state x \<noteq> s_chunk_size_start" by (auto simp: PARSING_HEADER_def body_states_def)
    then have "ex_inv e 1 ?y" using y by (simp add: ex_inv_def core_def)
    then have "good e 0 (reexecute e reexecute_fuel ?y)" using e rank_fuel by (intro reexecute_good) auto
    then show ?thesis using False by (simp add: exec_round_def Let_def b)
  qed
qed

end

section \<open>Progress\<close>

text \<open>No state moves the position back; this holds for arbitrary callbacks.\<close>

definition ahead :: "nat \<Rightarrow> 'd outcome \<Rightarrow> bool" where
  "ahead p r \<longleftrightarrow> (case r of Next y \<Rightarrow> p \<le> ex_pos y | Again y \<Rightarrow> p \<le> ex_pos y | _ \<Rightarrow> True)"

lemma ahead_simps [simp]:
  "ahead p (Next y) \<longleftrightarrow> p \<le> ex_pos y" "ahead p (Again y) \<longleftrightarrow> p \<le> ex_pos y" "ahead p (Ret n q)"
  "ahead p Abort" "ahead p Diverge"
  by (simp_all add: ahead_def)

lemma ahead_fail [simp]: "ahead p (fail err x)"
  by (simp add: fail_def goto_error_def RETURN_def Let_def)

lemma ahead_RETURN [simp]: "ahead p (RETURN n x)"
  by (simp add: RETURN_def)

lemma ahead_STRICT [simp]: "ahead p k \<Longrightarrow> ahead p (STRICT_CHECK c k x)"
  by (simp add: STRICT_CHECK_def)

lemma ahead_andthen [simp]:
  "ahead p r \<Longrightarrow> (\<And>y. p \<le> ex_pos y \<Longrightarrow> ahead p (k y)) \<Longrightarrow> ahead p (andthen r k)"
  by (cases r) (simp_all add: andthen_def)

lemma ahead_COUNT [simp]: "p \<le> ex_pos x \<Longrightarrow> ahead p (COUNT_HEADER_SIZE e v x)"
  by (simp add: COUNT_HEADER_SIZE_def Let_def)

lemma ex_pos_SET_ERRNO [simp]: "ex_pos (SET_ERRNO err x) = ex_pos x"
  by (simp add: SET_ERRNO_def)

lemma ahead_NOTIFY [simp]: "p \<le> ex_pos x \<Longrightarrow> ahead p (CALLBACK_NOTIFY cb err er x)"
  by (auto simp: CALLBACK_NOTIFY_def Let_def split: option.splits prod.splits)

lemma ahead_DATA [simp]: "p \<le> ex_pos x \<Longrightarrow> ahead p (CALLBACK_DATA_ER e m fin er x)"
  by (auto simp: CALLBACK_DATA_ER_def Let_def split: option.splits prod.splits)

lemma ahead_callbacks [simp]:
  assumes "p \<le> ex_pos x"
  shows "ahead p (CALLBACK_DATA e m x)" "ahead p (CALLBACK_DATA_NOADVANCE e m x)"
    "ahead p (notify_message_begin e x)" "ahead p (notify_message_complete e x)"
    "ahead p (notify_chunk_header e x)" "ahead p (notify_chunk_complete e er x)"
  using assms by (simp_all add: CALLBACK_DATA_def CALLBACK_DATA_NOADVANCE_def notify_message_begin_def
      notify_message_complete_def notify_chunk_header_def notify_chunk_complete_def)

lemma ahead_url_char [simp]: "p \<le> ex_pos x \<Longrightarrow> ahead p (url_char_or_fail x)"
  by (simp add: url_char_or_fail_def Let_def)

lemma ahead_field_end:
  "p \<le> ex_pos x \<Longrightarrow> p < length (env_data e) \<Longrightarrow> ahead p (field_end e start x)"
  by (auto simp: field_end_def Let_def)

lemma ahead_field_loop:
  "p \<le> ex_pos x \<Longrightarrow> p < length (env_data e) \<Longrightarrow> ahead p (field_loop e start x)"
proof (induction e start x rule: field_loop.induct)
  case (1 e start x)
  have "p \<le> Suc q" if "field_skip e (scan_limit e (ex_pos x)) (ex_pos x) = Some q" for q
    using "1.prems"(1) field_skip_ge[OF that] by simp
  then show ?case
    using 1 by (subst field_loop.simps) (auto simp: Let_def ahead_field_end split: option.splits)
qed

lemma ahead_value_end:
  "p \<le> ex_pos x \<Longrightarrow> p < length (env_data e) \<Longrightarrow> ahead p (value_end e start h x)"
  by (auto simp: value_end_def Let_def)

lemma ahead_value_loop:
  "p \<le> ex_pos x \<Longrightarrow> p < length (env_data e) \<Longrightarrow> ahead p (value_loop e start h x)"
proof (induction e start h x rule: value_loop.induct)
  case (1 e start h x)
  show ?case
  proof (cases "ex_pos x < length (env_data e)")
    case False
    then show ?thesis using 1 by (subst value_loop.simps) (simp add: ahead_value_end byte_at_def)
  next
    case True
    then have b: "ex_pos x \<noteq> length (env_data e)" "byte_at e (ex_pos x) = Some (env_data e ! ex_pos x)"
      by (simp_all add: byte_at_def)
    let ?ch = "env_data e ! ex_pos x"
    note unf = value_loop.simps[of e start h x]
    consider "?ch = CR" | "?ch = LF" | "?ch \<noteq> CR" "?ch \<noteq> LF" "\<not> value_char_ok e ?ch"
      | "?ch \<noteq> CR" "?ch \<noteq> LF" "value_char_ok e ?ch" "h = h_general"
      | "?ch \<noteq> CR" "?ch \<noteq> LF" "value_char_ok e ?ch" "h \<noteq> h_general" by blast
    then show ?thesis
    proof cases
      case 4
      have "p \<le> Suc (fst r)" if "value_skip e (scan_limit e (ex_pos x)) (ex_pos x) = Some r" for r
        using value_skip_ge[OF True 4(1,2) that] "1.prems"(1) by linarith
      then show ?thesis
        using "1.IH"(1)[OF b refl refl] 4 b "1.prems" unf by (auto simp: Let_def split: option.splits)
    next
      case 5
      then show ?thesis
        using "1.IH"(2)[OF b refl refl] b "1.prems" unf
        by (simp add: Let_def split: value_step.splits)
    qed (use b "1.prems" unf in \<open>simp_all add: Let_def value_cr_def value_lf_def ahead_value_end\<close>)
  qed
qed

lemma ahead_consume_body:
  assumes "length (env_data e) < 2 ^ 64" "ex_pos x < length (env_data e)" "hp_content_length (ex_hp x) \<noteq> 0"
  shows "ex_pos x \<le> ex_pos (consume_body e x)"
proof -
  have "0 < unat (hp_content_length (ex_hp x))" using assms(3) by (simp add: unat_gt_0)
  then show ?thesis using unat_to_read[OF assms(1), of x] assms(2) by (auto simp: consume_body_def Let_def)
qed

lemma ahead_value_start [simp]: "p \<le> ex_pos x \<Longrightarrow> ahead p (step_header_value_start x)"
  by (simp add: step_header_value_start_def Let_def split: sum.splits)

lemmas step_defs_simple =
  step_dead_def step_start_req_or_res_def step_res_or_resp_H_def step_start_res_def step_expect_def
  step_version_char_def step_http_major_def step_http_minor_def step_res_first_status_code_def
  step_res_status_code_def step_res_status_start_def step_res_status_def step_start_req_def step_req_method_def
  step_req_spaces_before_url_def step_req_schema_def step_req_url_def step_req_http_start_def
  step_req_http_end_def step_req_line_almost_done_def step_header_field_start_def
  step_header_value_discard_ws_def step_header_almost_done_def step_header_value_lws_def
  step_header_value_discard_lws_def step_headers_done_def step_body_identity_eof_def step_message_done_def
  step_chunk_size_start_def step_chunk_size_def step_chunk_parameters_def step_chunk_size_almost_done_def
  step_chunk_data_almost_done_def step_chunk_data_done_def reset_message_def

lemma ahead_headers_almost_done: "ahead (ex_pos x) (step_headers_almost_done e x)"
  by (simp add: step_headers_almost_done_def Let_def split: option.splits prod.splits)

lemma ahead_exec_switch:
  assumes "length (env_data e) < 2 ^ 64" "ex_pos x < length (env_data e)"
  shows "ahead (ex_pos x) (exec_switch e x)"
proof -
  note body = ahead_consume_body[OF assms]
  have "ahead (ex_pos x) (step_body_identity e x)" "ahead (ex_pos x) (step_chunk_data e x)"
    using body by (auto simp: step_body_identity_def step_chunk_data_def Let_def)
  moreover have "ahead (ex_pos x) (step_header_field e x)" "ahead (ex_pos x) (step_header_value e x)"
    using assms(2) by (simp_all add: step_header_field_def step_header_value_def ahead_field_loop ahead_value_loop)
  moreover note ahead_headers_almost_done[of x e]
  moreover have "ex_pos x \<le> length (env_data e) - 1" using assms(2) by simp
  ultimately show ?thesis
    by (cases "ex_state x") (simp_all add: exec_switch_def step_defs_simple Let_def split: option.splits)
qed

section \<open>The end of the buffer\<close>

definition fin_ok :: "'d env \<Rightarrow> 'd outcome \<Rightarrow> bool" where
  "fin_ok e r \<longleftrightarrow>
     (case r of Next y \<Rightarrow> loop_inv e y \<and> ex_pos y = length (env_data e) | Ret n q \<Rightarrow> ret_ok e n q | _ \<Rightarrow> False)"

lemma marks_at_most_one:
  assumes "marks_in a ms"
  shows "length (filter (\<lambda>m. ms m \<noteq> None) all_marks) \<le> 1"
proof -
  have "ms m = None" if "a \<noteq> Some m" for m using assms that by (auto simp: marks_in_def)
  then show ?thesis
  proof (cases a)
    case (Some m)
    then show ?thesis using \<open>\<And>m. a \<noteq> Some m \<Longrightarrow> ms m = None\<close> by (cases m) (simp_all add: all_marks_def)
  qed (simp add: all_marks_def)
qed

lemma ahead_reexecute:
  assumes "length (env_data e) < 2 ^ 64"
  shows "(\<And>y b. ex_inv e 1 y \<Longrightarrow> good e (rank (ex_state y)) (exec_switch e y)) \<Longrightarrow> ex_inv e 1 x \<Longrightarrow>
    ahead (ex_pos x) (reexecute e n x)"
proof (induction n arbitrary: x)
  case 0
  then show ?case by simp
next
  case (Suc n)
  have g: "good e (rank (ex_state x)) (exec_switch e x)" using Suc.prems by blast
  have a: "ahead (ex_pos x) (exec_switch e x)" using ahead_exec_switch[OF assms] Suc.prems(2) by simp
  show ?case
  proof (cases "exec_switch e x")
    case (Again y)
    then have "ex_inv e 1 y" "ex_pos x \<le> ex_pos y" using g a inv_shift[of e 0 y 1] by auto
    then show ?thesis
      using Again Suc.IH[OF Suc.prems(1), of y] by (cases "reexecute e n y") auto
  qed (use a in auto)
qed

context parser_client
begin

lemma exec_round_ahead:
  assumes e: "env_ok e" and x: "loop_inv e x" "ex_pos x < length (env_data e)"
  shows "ahead (ex_pos x) (exec_round e x)"
proof -
  let ?y = "x\<lparr>ex_ch := env_data e ! ex_pos x\<rparr>"
  have re: "ahead (ex_pos z) (reexecute e n z)" if "ex_inv e 1 z" for z n
    using ahead_reexecute[of e z n] exec_switch_good[OF e] e that by blast
  have y: "core e 0 ?y" "marks_in (mark_of (ex_state ?y)) (ex_marks ?y)" "ex_pos ?y < length (env_data e)"
    using x by (simp_all add: loop_inv_def core_def)
  have b: "byte_at e (ex_pos x) = Some (env_data e ! ex_pos x)" using x(2) by (simp add: byte_at_def)
  show ?thesis
  proof (cases "PARSING_HEADER (ex_state x)")
    case True
    have "ex_pos ?y \<le> length (env_data e)" using y by simp
    then show ?thesis
    proof (cases rule: COUNT_cases[where v = 1])
      case ok
      have "ex_inv e 1 (?y\<lparr>ex_nread := ex_nread ?y + of_nat 1\<rparr>)" using y ok(2) by (auto simp: ex_inv_def core_def)
      from re[OF this] show ?thesis using True ok(1) by (simp add: exec_round_def Let_def b)
    next
      case (over n q)
      then show ?thesis using True by (simp add: exec_round_def Let_def b)
    qed
  next
    case False
    then have "ex_state x \<noteq> s_chunk_size_start" by (auto simp: PARSING_HEADER_def body_states_def)
    then have "ex_inv e 1 ?y" using y by (simp add: ex_inv_def core_def)
    from re[OF this] show ?thesis using False by (simp add: exec_round_def Let_def b)
  qed
qed

lemma finish_one:
  assumes e: "env_ok e" and x: "loop_inv e x" "ex_pos x = length (env_data e)"
  shows "fin_ok e (CALLBACK_DATA_NOADVANCE e m x)"
proof -
  have core: "core e 0 x" and ok: "hp_errno (ex_hp x) = HPE_OK" and mb: "marks_before e x"
    using x by (simp_all add: loop_inv_def core_def)
  note NOTIFY = DATA_NOTIFY[OF mb eq_refl order_refl, OF x(2), of m]
  show ?thesis
  proof (cases "ex_marks x m")
    case None
    then show ?thesis
      using ok x by (simp add: CALLBACK_DATA_NOADVANCE_def NOTIFY CALLBACK_NOTIFY_def fin_ok_def)
  next
    case (Some a)
    have m: "mark_of (ex_state x) = Some m" using x Some by (auto simp: loop_inv_def marks_in_def)
    then have z: "hp_nread (ex_hp x) = 0 \<or> ex_state x \<noteq> s_chunk_size_start" by auto
    define cb where "cb = map_option (\<lambda>f. f (take (ex_pos x - a) (drop a (env_data e)))) (data_cb (env_settings e) m)"
    have "\<forall>f. cb = Some f \<longrightarrow> keeps_parser f"
      using settings_ok e unfolding settings_ok_def cb_def by auto
    then show ?thesis using data_cb_errno_not_ok[of m] ok
    proof (cases rule: NOTIFY_cases[where cb = cb and err = "data_cb_errno m" and x = x and er = "ex_pos x"])
      case (Next y)
      have "core e 0 (y\<lparr>ex_marks := (ex_marks y)(m := None)\<rparr>)"
        using core quietD(7)[OF Next(2), of e 0] by (simp add: core_def)
      moreover have "marks_in (mark_of (ex_state y)) ((ex_marks y)(m := None))"
        using x quietD(1,5)[OF Next(2)] by (auto simp: loop_inv_def marks_in_def)
      ultimately show ?thesis
        using Next Some x(2) quietD(3)[OF Next(2)]
        by (simp add: CALLBACK_DATA_NOADVANCE_def NOTIFY cb_def fin_ok_def loop_inv_def)
    next
      case (Ret d err' n)
      then show ?thesis
        using callback_ret_ok[OF core z, of "ex_pos x"] Some x(2)
        by (simp add: CALLBACK_DATA_NOADVANCE_def NOTIFY cb_def fin_ok_def)
    qed
  qed
qed

lemma exec_finish_good:
  assumes e: "env_ok e" and x: "loop_inv e x" "ex_pos x = length (env_data e)"
  shows "\<exists>n q. exec_finish e x = Ret n q \<and> ret_ok e n q"
proof -
  have step: "fin_ok e r \<Longrightarrow> fin_ok e (andthen r (CALLBACK_DATA_NOADVANCE e m))" for r m
    using finish_one[OF e] by (cases r) (auto simp: fin_ok_def)
  have "fin_ok e r \<Longrightarrow> fin_ok e (fold (\<lambda>m r. andthen r (CALLBACK_DATA_NOADVANCE e m)) ms r)" for ms r
    by (induction ms arbitrary: r) (simp_all add: step)
  then have fin: "fin_ok e (fold (\<lambda>m r. andthen r (CALLBACK_DATA_NOADVANCE e m)) all_marks (Next x))" (is "fin_ok e ?r")
    using x by (simp add: fin_ok_def)
  have "\<not> length (filter (\<lambda>m. ex_marks x m \<noteq> None) all_marks) > 1"
    using marks_at_most_one x(1) unfolding loop_inv_def by (metis not_less)
  then have eq: "exec_finish e x = andthen ?r (RETURN (length (env_data e)))" by (simp add: exec_finish_def)
  show ?thesis
  proof (cases ?r)
    case (Next y)
    have "loop_inv e y" using fin Next by (simp add: fin_ok_def)
    then have "ret_ok e (length (env_data e)) ((ex_hp y)\<lparr>hp_nread := ex_nread y, hp_state := ex_state y\<rparr>)"
      by (auto simp: ret_ok_def parser_inv_def loop_inv_def core_def state_ok_cong)
    then show ?thesis by (simp add: eq Next RETURN_def)
  qed (use fin eq in \<open>auto simp: fin_ok_def\<close>)
qed

lemma exec_loop_good:
  assumes e: "env_ok e"
  shows "loop_inv e x \<Longrightarrow> length (env_data e) - ex_pos x < n \<Longrightarrow> \<exists>m q. exec_loop e n x = Ret m q \<and> ret_ok e m q"
proof (induction n arbitrary: x)
  case 0
  then show ?case by simp
next
  case (Suc n)
  show ?case
  proof (cases "ex_pos x = length (env_data e)")
    case True
    then show ?thesis using exec_finish_good[OF e Suc.prems(1)] by simp
  next
    case False
    then have p: "ex_pos x < length (env_data e)" using Suc.prems(1) by (simp add: loop_inv_def)
    have g: "good e 0 (exec_round e x)" by (rule exec_round_good[OF e Suc.prems(1) p])
    have a: "ahead (ex_pos x) (exec_round e x)" by (rule exec_round_ahead[OF e Suc.prems(1) p])
    show ?thesis
    proof (cases "exec_round e x")
      case (Next y)
      then have y: "ex_inv e 0 y" "ex_pos x \<le> ex_pos y" using g a by simp_all
      have "loop_inv e (y\<lparr>ex_pos := Suc (ex_pos y)\<rparr>)"
        using y(1) by (auto simp: loop_inv_def ex_inv_def core_def)
      moreover have "length (env_data e) - Suc (ex_pos y) < n" using y Suc.prems(2) ex_invD(7)[OF y(1) refl] by linarith
      ultimately show ?thesis using Suc.IH Next False by simp
    qed (use g False in \<open>auto simp: good_def\<close>)
  qed
qed

lemma exec_eof_good:
  assumes e: "env_ok e" and x: "hp_errno p = HPE_OK" "parser_inv (env_max e) p"
  shows "\<exists>n q. exec_eof e (exec_init p) = Ret n q \<and> n \<le> 1 \<and> parser_inv (env_max e) q"
proof -
  let ?x = "exec_init p"
  have i: "ex_hp ?x = p" "ex_state ?x = hp_state p" "ex_nread ?x = hp_nread p" by (simp_all add: exec_init_def)
  show ?thesis
  proof (cases "hp_state p = s_body_identity_eof")
    case True
    have "\<forall>f. on_message_complete (env_settings e) = Some f \<longrightarrow> keeps_parser f"
      using cb_keeps[of "on_message_complete settings"] e by auto
    moreover have "HPE_CB_message_complete \<noteq> HPE_OK" "hp_errno (ex_hp ?x) = HPE_OK" using x i by simp_all
    ultimately show ?thesis
    proof (cases rule: NOTIFY_cases[where cb = "on_message_complete (env_settings e)"
          and err = HPE_CB_message_complete and x = ?x and er = "ex_pos ?x"])
      case (Next y)
      have "parser_inv (env_max e) (ex_hp y)"
        using Next(2) x True i by (auto simp: quiet_def parser_inv_def state_ok_cong)
      then show ?thesis using Next True i by (simp add: exec_eof_def)
    qed (use x True i in \<open>auto simp: exec_eof_def parser_inv_def exec_init_def state_ok_cong\<close>)
  next
    case False
    then show ?thesis using x i by (auto simp: exec_eof_def SET_ERRNO_def parser_inv_def upd_hp_def)
  qed
qed

lemma execute_good:
  assumes len: "length buf < 2 ^ 64" and p: "parser_inv mx p"
  shows "\<exists>n q. http_parser_execute mx p settings buf = Ret n q \<and> parser_inv mx q \<and>
    n \<le> max 1 (length buf) \<and>
    (buf \<noteq> [] \<longrightarrow> n \<le> length buf \<and> (hp_errno q = HPE_OK \<longrightarrow> n = length buf \<or> hp_upgrade q))"
proof (cases "hp_errno p = HPE_OK")
  case False
  then show ?thesis using p by (simp add: http_parser_execute_def)
next
  case True
  let ?e = "make_env mx settings p buf"
  have e: "env_ok ?e" "env_max ?e = mx" "env_data ?e = buf" using len by (simp_all add: make_env_def)
  show ?thesis
  proof (cases "buf = []")
    case Nil: True
    then show ?thesis
      using exec_eof_good[OF e(1) True] p e True by (auto simp: http_parser_execute_def)
  next
    case False
    have "marks_in (mark_of (hp_state p)) (initial_marks (hp_state p))"
      by (auto simp: marks_in_def initial_marks_def mark_of_def url_mark_states_def split: if_splits)
    moreover have "marks_before ?e (exec_init p)"
      using False e by (auto simp: marks_before_def exec_init_def initial_marks_def split: if_splits)
    ultimately have "loop_inv ?e (exec_init p)"
      using p True e by (auto simp: loop_inv_def core_def exec_init_def parser_inv_def)
    moreover have "length (env_data ?e) - ex_pos (exec_init p) < Suc (length buf)" using e by simp
    ultimately obtain n q where "exec_loop ?e (Suc (length buf)) (exec_init p) = Ret n q" "ret_ok ?e n q"
      using exec_loop_good[OF e(1)] by blast
    then show ?thesis using True False e by (auto simp: http_parser_execute_def ret_ok_def simp del: exec_loop.simps)
  qed
qed

end

end
