(* ===== verification/HttpReach.thy ===== *)
theory HttpReach
  imports HttpSafety
begin

text \<open>
  What a caller of the message parser can rely on, over every sequence of calls. The parsers that
  initialisation, calls with arbitrary buffers, pausing and resuming lead to are the inductive
  predicate \<open>reachable\<close>; its invariant carries the safety lemma over to whole histories. The
  theory also shows that a body of known length is delivered unchanged however it is fragmented.
\<close>

section \<open>Histories\<close>

inductive reachable :: "u32 \<Rightarrow> 'd http_parser_settings \<Rightarrow> 'd http_parser \<Rightarrow> bool"
  for mx :: u32 and settings :: "'d http_parser_settings" where
  reach_init: "reachable mx settings (http_parser_init t d)"
| reach_execute: "reachable mx settings p \<Longrightarrow> length buf < 2 ^ 64 \<Longrightarrow>
    http_parser_execute mx p settings buf = Ret n q \<Longrightarrow> reachable mx settings q"
| reach_pause: "reachable mx settings p \<Longrightarrow> http_parser_pause b p = Some q \<Longrightarrow> reachable mx settings q"

lemma init_inv: "parser_inv mx (http_parser_init t d)"
  by (cases t) (simp_all add: parser_inv_def http_parser_init_def)

lemma pause_inv: "parser_inv mx p \<Longrightarrow> http_parser_pause b p = Some q \<Longrightarrow> parser_inv mx q"
  by (auto simp: http_parser_pause_def parser_inv_def state_ok_cong split: if_splits)

context parser_client
begin

lemma reachable_inv: "reachable mx settings p \<Longrightarrow> parser_inv mx p"
proof (induction rule: reachable.induct)
  case (reach_execute p buf n q)
  then show ?case using execute_good[of buf mx p] by auto
qed (simp_all add: init_inv pause_inv)

end

lemma settings_init_ok: "settings_ok (http_parser_settings_init :: 'd http_parser_settings)"
proof -
  have "data_cb (http_parser_settings_init :: 'd http_parser_settings) m = None" for m :: mark
    by (cases m) (simp_all add: http_parser_settings_init_def data_cb_def)
  then show ?thesis unfolding settings_ok_def by (simp add: http_parser_settings_init_def)
qed

interpretation no_callbacks: parser_client http_parser_settings_init
  by unfold_locales (rule settings_init_ok)

lemma keeps_parserI:
  assumes "\<And>q. snd (f q) = q\<lparr>hp_data := g q\<rparr>"
  shows "keeps_parser f"
proof -
  have "q\<lparr>hp_data := g q\<rparr> = q\<lparr>hp_data := g q, hp_errno := hp_errno q\<rparr>" for q by (cases q) simp
  then show ?thesis unfolding keeps_parser_def using assms by metis
qed

section \<open>Safety of every call\<close>

text \<open>
  C2: The message parser is safe on every input. For callbacks that only use the data pointer and the
  error code, after any history of calls, pauses and resumes, a call on any buffer returns: the
  loops end, no assertion fails, and no byte outside the buffer is read, neither by the parser (each of its reads
  goes through \<open>byte_at\<close>, and a read outside the buffer would abort the call) nor by handing it to a data
  callback. It never claims to have
  consumed more than the buffer (an empty buffer may return 1 to signal a premature end), and when
  it reports no error it has consumed the whole buffer unless the connection was upgraded.
\<close>

theorem execute_safe:
  assumes "settings_ok settings" "reachable mx settings p" "length buf < 2 ^ 64"
  shows "\<exists>n q. http_parser_execute mx p settings buf = Ret n q \<and> n \<le> max 1 (length buf) \<and>
    (buf \<noteq> [] \<longrightarrow> n \<le> length buf \<and> (hp_errno q = HPE_OK \<longrightarrow> n = length buf \<or> hp_upgrade q))"
proof -
  have "parser_client settings" by (rule parser_client.intro[OF assms(1)])
  from parser_client.execute_good[OF this assms(3) parser_client.reachable_inv[OF this assms(2)]]
  show ?thesis by blast
qed

text \<open>
  C15: In every reachable parser that is not in error, the header counter is within the limit, the
  chunk states are entered only under chunked encoding, a body is read only with a length that is
  neither zero nor the no-length sentinel, and the method automaton stays inside its method string.
\<close>

theorem reachable_framing:
  assumes "settings_ok settings" "reachable mx settings p" "hp_errno p = HPE_OK"
  shows "hp_nread p \<le> mx \<and>
    (hp_state p \<in> chunk_states \<longrightarrow> has_flag F_CHUNKED p) \<and>
    (hp_state p \<in> {s_body_identity, s_chunk_data} \<longrightarrow>
       hp_content_length p \<noteq> 0 \<and> hp_content_length p \<noteq> ULLONG_MAX) \<and>
    (hp_state p = s_req_method \<longrightarrow> unat (hp_index p) \<le> length (method_string (hp_method p)))"
proof -
  have "parser_client settings" by (rule parser_client.intro[OF assms(1)])
  then have "parser_inv mx p" using parser_client.reachable_inv assms(2) by blast
  then show ?thesis using assms(3) unfolding parser_inv_def state_ok_def by blast
qed

text \<open>
  An error is final: a parser that reports an error other than a pause ignores every further
  buffer, and it cannot be resumed.
\<close>

theorem error_is_final:
  assumes "hp_errno p \<noteq> HPE_OK"
  shows "http_parser_execute mx p settings buf = Ret 0 p \<and>
    (hp_errno p \<noteq> HPE_PAUSED \<longrightarrow> http_parser_pause b p = None)"
  using assms by (simp add: http_parser_execute_def http_parser_pause_def)

section \<open>Bodies of known length\<close>

text \<open>Feeding one buffer after the other; \<open>None\<close> as soon as a call does not consume its buffer.\<close>

fun feed :: "u32 \<Rightarrow> 'd http_parser_settings \<Rightarrow> 'd http_parser \<Rightarrow> string list \<Rightarrow> 'd http_parser option" where
  "feed mx settings p [] = Some p"
| "feed mx settings p (buf # bufs) =
     (case http_parser_execute mx p settings buf of
        Ret n q \<Rightarrow> if n = length buf \<and> hp_errno q = HPE_OK then feed mx settings q bufs else None
      | _ \<Rightarrow> None)"

text \<open>A client whose body callback adds the bytes to its data with the function \<open>add\<close>.\<close>

definition add_body :: "(string \<Rightarrow> 'd \<Rightarrow> 'd) \<Rightarrow> 'd http_data_cb" where
  "add_body add t p = (0, p\<lparr>hp_data := add t (hp_data p)\<rparr>)"

definition collects_body :: "(string \<Rightarrow> 'd \<Rightarrow> 'd) \<Rightarrow> 'd http_parser_settings \<Rightarrow> bool" where
  "collects_body add s \<longleftrightarrow> on_body s = Some (add_body add)"

lemma body_round:
  assumes s: "collects_body add settings" and p: "hp_state p = s_body_identity" "hp_errno p = HPE_OK"
    and buf: "buf \<noteq> []" "length buf < unat (hp_content_length p)" and cl: "hp_content_length p \<noteq> ULLONG_MAX"
  shows "http_parser_execute mx p settings buf =
    Ret (length buf) (p\<lparr>hp_content_length := hp_content_length p - of_nat (length buf), hp_data := add buf (hp_data p)\<rparr>)"
proof -
  let ?e = "make_env mx settings p buf" and ?x = "exec_init p"
  have cb: "on_body settings = Some (add_body add)" using s by (simp add: collects_body_def)
  have len: "length buf < 2 ^ 64" using buf(2) unsigned_less[of "hp_content_length p", where 'a = nat] by simp
  have l: "unat (of_nat (length buf) :: u64) = length buf" using len by (simp add: unat_of_nat)
  have e: "env_data ?e = buf" "env_settings ?e = settings" by (simp_all add: make_env_def)
  let ?xc = "?x\<lparr>ex_ch := buf ! 0\<rparr>"
  have tr: "to_read ?e ?xc = of_nat (length buf)"
    using buf(2) l e p by (auto simp: to_read_def exec_init_def min_def word_le_nat_alt)
  have ne: "hp_content_length p - of_nat (length buf) \<noteq> 0" using buf(2) l by auto
  have c0: "hp_content_length p \<noteq> 0" using buf(2) by auto
  let ?y = "consume_body ?e ?xc"
  have y: "?y = (MARK M_body ?xc)\<lparr>ex_hp := p\<lparr>hp_content_length := hp_content_length p - of_nat (length buf)\<rparr>,
      ex_pos := length buf - 1\<rparr>"
    using tr l by (simp add: consume_body_def Let_def upd_hp_def MARK_def exec_init_def)
  have sw: "exec_switch ?e ?xc = Next ?y"
    using p c0 cl ne y by (simp add: exec_switch_def exec_init_def step_body_identity_def Let_def)
  have r: "exec_round ?e ?x = Next ?y"
    using sw p e buf(1)
    by (simp add: exec_round_def byte_at_def Let_def PARSING_HEADER_def body_states_def exec_init_def numeral_eq_Suc)
  obtain k where k: "length buf = Suc k" using buf(1) by (cases buf) auto
  have marks: "initial_marks s_body_identity = (\<lambda>_. None)"
    by (rule ext) (simp add: initial_marks_def url_mark_states_def)
  let ?z = "?y\<lparr>ex_pos := length buf\<rparr>"
  have z: "ex_marks ?z = (\<lambda>_. None)(M_body := Some 0)" "ex_hp ?z = p\<lparr>hp_content_length := hp_content_length p - of_nat (length buf)\<rparr>"
    "ex_pos ?z = length buf" "ex_state ?z = s_body_identity" "ex_nread ?z = hp_nread p"
    using p unfolding y by (simp_all add: MARK_def exec_init_def marks)
  have "ex_pos ?x = 0" "ex_pos ?y = k" unfolding y using k by (simp_all add: exec_init_def)
  then have "exec_loop ?e (Suc (length buf)) ?x = exec_finish ?e ?z"
    using r k e by simp
  also have "\<dots> = Ret (length buf) (p\<lparr>hp_content_length := hp_content_length p - of_nat (length buf), hp_data := add buf (hp_data p)\<rparr>)"
    using z cb p e
    by (simp add: exec_finish_def all_marks_def CALLBACK_DATA_NOADVANCE_def CALLBACK_DATA_ER_def data_cb_def
        add_body_def Let_def UPDATE_STATE_def RETURN_def)
  finally show ?thesis using p buf by (simp add: http_parser_execute_def del: exec_loop.simps)
qed


text \<open>A client whose completion callback changes its data with the function \<open>g\<close>.\<close>

definition notes_complete :: "('d \<Rightarrow> 'd) \<Rightarrow> 'd http_parser_settings \<Rightarrow> bool" where
  "notes_complete g s \<longleftrightarrow> on_message_complete s = Some (\<lambda>q. (0, q\<lparr>hp_data := g (hp_data q)\<rparr>))"

text \<open>The buffer that completes the body: the body callback, then the completion callback.\<close>

lemma body_last:
  assumes s: "collects_body add settings" "notes_complete g settings"
    and p: "hp_state p = s_body_identity" "hp_errno p = HPE_OK"
    and buf: "buf \<noteq> []" "length buf = unat (hp_content_length p)" and cl: "hp_content_length p \<noteq> ULLONG_MAX"
  shows "\<exists>q. http_parser_execute mx p settings buf = Ret (length buf) q \<and> hp_errno q = HPE_OK \<and>
    hp_content_length q = 0 \<and> hp_state q = NEW_MESSAGE q \<and> hp_data q = g (add buf (hp_data p))"
proof -
  let ?e = "make_env mx settings p buf" and ?x = "exec_init p"
  have cb: "on_body settings = Some (add_body add)"
    "on_message_complete settings = Some (\<lambda>q. (0, q\<lparr>hp_data := g (hp_data q)\<rparr>))"
    using s by (simp_all add: collects_body_def notes_complete_def)
  have l: "of_nat (length buf) = hp_content_length p" using buf(2) by simp
  have e: "env_data ?e = buf" "env_settings ?e = settings" by (simp_all add: make_env_def)
  have marks: "initial_marks s_body_identity = (\<lambda>_. None)"
    by (rule ext) (simp add: initial_marks_def url_mark_states_def)
  have c0: "hp_content_length p \<noteq> 0" using buf by auto
  obtain k where k: "length buf = Suc k" using buf(1) by (cases buf) auto
  let ?xc = "?x\<lparr>ex_ch := buf ! 0\<rparr>"
  let ?q = "p\<lparr>hp_content_length := 0, hp_state := s_message_done, hp_data := add buf (hp_data p)\<rparr>"
  let ?n = "NEW_MESSAGE ?q"
  let ?r = "?q\<lparr>hp_state := ?n, hp_data := g (add buf (hp_data p))\<rparr>"
  have "to_read ?e ?xc = hp_content_length p" using l e by (simp add: to_read_def exec_init_def)
  moreover have "unat (hp_content_length p) - 1 = k" using buf(2) k by simp
  ultimately have y: "consume_body ?e ?xc =
      (MARK M_body ?xc)\<lparr>ex_hp := p\<lparr>hp_content_length := 0\<rparr>, ex_pos := k\<rparr>"
    by (simp add: consume_body_def Let_def upd_hp_def MARK_def exec_init_def)
  let ?z = "?xc\<lparr>ex_hp := ?q, ex_state := s_message_done, ex_pos := k\<rparr>"
  have sw: "exec_switch ?e ?xc = Again ?z"
    using p c0 cl y cb(1) e k
    by (simp add: exec_switch_def exec_init_def step_body_identity_def Let_def CALLBACK_DATA_ER_def data_cb_def
        add_body_def MARK_def marks UPDATE_STATE_def fun_upd_idem)
  have don: "exec_switch ?e ?z =
      (let y = ?z\<lparr>ex_hp := ?r, ex_state := ?n\<rparr> in if hp_upgrade p then RETURN (Suc k) y else Next y)"
    using p cb(2) e
    by (simp add: exec_switch_def step_message_done_def notify_message_complete_def CALLBACK_NOTIFY_def
        Let_def UPDATE_STATE_def exec_init_def)
  have r: "exec_round ?e ?x =
      (let y = ?z\<lparr>ex_hp := ?r, ex_state := ?n\<rparr> in if hp_upgrade p then RETURN (Suc k) y else Next y)"
    using sw don p e buf(1)
    by (simp add: exec_round_def byte_at_def Let_def PARSING_HEADER_def body_states_def exec_init_def
        numeral_eq_Suc RETURN_def)
  have "exec_loop ?e (Suc (length buf)) ?x = Ret (length buf) (?r\<lparr>hp_nread := hp_nread p\<rparr>)"
    using r k e p marks
    by (simp add: Let_def RETURN_def exec_finish_def all_marks_def CALLBACK_DATA_NOADVANCE_def
        CALLBACK_DATA_ER_def exec_init_def)
  then have "http_parser_execute mx p settings buf = Ret (length buf) (?r\<lparr>hp_nread := hp_nread p\<rparr>)"
    using p buf by (simp add: http_parser_execute_def del: exec_loop.simps)
  then show ?thesis
    using p by (intro exI[of _ "?r\<lparr>hp_nread := hp_nread p\<rparr>"])
      (simp add: NEW_MESSAGE_def http_should_keep_alive_def http_message_needs_eof_def start_state_def has_flag_def)
qed

lemma feed_append:
  "feed mx settings p (bufs @ bufs') = Option.bind (feed mx settings p bufs) (\<lambda>q. feed mx settings q bufs')"
  by (induction bufs arbitrary: p) (simp_all split: outcome.splits)

lemma feed_body:
  assumes "collects_body add settings" "hp_state p = s_body_identity" "hp_errno p = HPE_OK"
    "hp_content_length p \<noteq> ULLONG_MAX" "[] \<notin> set bufs" "length (concat bufs) < unat (hp_content_length p)"
  shows "\<exists>q. feed mx settings p bufs = Some q \<and> hp_state q = s_body_identity \<and> hp_errno q = HPE_OK \<and>
    hp_content_length q \<noteq> ULLONG_MAX \<and> hp_data q = fold add bufs (hp_data p) \<and>
    unat (hp_content_length q) = unat (hp_content_length p) - length (concat bufs)"
  using assms
proof (induction bufs arbitrary: p)
  case Nil
  then show ?case by simp
next
  case (Cons buf bufs)
  let ?q = "p\<lparr>hp_content_length := hp_content_length p - of_nat (length buf), hp_data := add buf (hp_data p)\<rparr>"
  have buf: "buf \<noteq> []" "length buf < unat (hp_content_length p)" using Cons.prems(5,6) by auto
  have l: "unat (of_nat (length buf) :: u64) = length buf"
    using buf(2) unsigned_less[of "hp_content_length p", where 'a = nat] by (simp add: unat_of_nat)
  have c: "unat (hp_content_length ?q) = unat (hp_content_length p) - length buf"
    using buf(2) l by (simp add: unat_sub word_le_nat_alt)
  have "hp_content_length ?q \<noteq> ULLONG_MAX"
    using c unat_ULLONG_MAX buf(1) unsigned_less[of "hp_content_length p", where 'a = nat] by (cases buf) auto
  then have "\<exists>q. feed mx settings ?q bufs = Some q \<and> hp_state q = s_body_identity \<and> hp_errno q = HPE_OK \<and>
      hp_content_length q \<noteq> ULLONG_MAX \<and> hp_data q = fold add bufs (hp_data ?q) \<and>
      unat (hp_content_length q) = unat (hp_content_length ?q) - length (concat bufs)"
    using Cons.prems c by (intro Cons.IH) auto
  moreover have "feed mx settings p (buf # bufs) = feed mx settings ?q bufs"
    using body_round[OF Cons.prems(1-3) buf Cons.prems(4), of mx] Cons.prems(3) by simp
  ultimately show ?case using c by auto
qed

lemma feed_whole_body:
  assumes s: "collects_body add settings" "notes_complete g settings"
    and p: "hp_state p = s_body_identity" "hp_errno p = HPE_OK" "hp_content_length p \<noteq> ULLONG_MAX"
    and bufs: "[] \<notin> set bufs" "bufs \<noteq> []" "length (concat bufs) = unat (hp_content_length p)"
  shows "\<exists>q. feed mx settings p bufs = Some q \<and> hp_errno q = HPE_OK \<and> hp_content_length q = 0 \<and>
    hp_state q = NEW_MESSAGE q \<and> hp_data q = g (fold add bufs (hp_data p))"
proof -
  obtain init buf where b: "bufs = init @ [buf]" using bufs(2) by (metis rev_exhaust)
  have "[] \<notin> set init" "buf \<noteq> []" using bufs(1) b by auto
  moreover from this(2) have "length (concat init) < unat (hp_content_length p)"
    using bufs(3) b by (cases buf) auto
  ultimately have ne: "[] \<notin> set init" "buf \<noteq> []" "length (concat init) < unat (hp_content_length p)" by blast+
  obtain r where r: "feed mx settings p init = Some r" "hp_state r = s_body_identity" "hp_errno r = HPE_OK"
    "hp_content_length r \<noteq> ULLONG_MAX" "hp_data r = fold add init (hp_data p)"
    "unat (hp_content_length r) = unat (hp_content_length p) - length (concat init)"
    using feed_body[OF s(1) p ne(1,3)] by blast
  have "length buf = unat (hp_content_length r)" using r(6) bufs(3) b by simp
  from body_last[OF s r(2,3) ne(2) this r(4), of mx] show ?thesis
    using r(1,5) unfolding b feed_append by auto
qed

section \<open>Concrete calls\<close>

text \<open>The proved meaning of the tables evaluates faster than the tables.\<close>

declare TOKEN_eq [code] IS_URL_CHAR_iff [code] unhex_val_eq [code]

definition example_settings :: "string http_parser_settings" where
  "example_settings = http_parser_settings_init\<lparr>on_body := Some (add_body (\<lambda>t d. d @ t))\<rparr>"

lemma example_settings_ok: "settings_ok example_settings"
proof -
  have "keeps_parser (add_body (\<lambda>t d. d @ t) t)" for t :: string
    by (rule keeps_parserI[where g = "\<lambda>q. hp_data q @ t"]) (simp add: add_body_def)
  moreover have "data_cb example_settings m = (if m = M_body then Some (add_body (\<lambda>t d. d @ t)) else None)" for m
    by (cases m) (simp_all add: example_settings_def http_parser_settings_init_def data_cb_def)
  ultimately show ?thesis
    unfolding settings_ok_def by (simp add: example_settings_def http_parser_settings_init_def)
qed

definition example_request :: string where
  "example_request = ''PUT /k HTTP/1.1'' @ [CR, LF] @ ''Content-Length: 12'' @ [CR, LF, CR, LF] @ ''hello''"

definition ret_satisfies :: "(nat \<Rightarrow> 'd http_parser \<Rightarrow> bool) \<Rightarrow> 'd outcome \<Rightarrow> bool" where
  "ret_satisfies P r \<longleftrightarrow> (case r of Ret n q \<Rightarrow> P n q | _ \<Rightarrow> False)"

lemma ret_satisfiesE: "ret_satisfies P r \<Longrightarrow> (\<And>n q. r = Ret n q \<Longrightarrow> P n q \<Longrightarrow> Q) \<Longrightarrow> Q"
  by (cases r) (auto simp: ret_satisfies_def)

abbreviation example_parser :: "string http_parser" where
  "example_parser \<equiv> http_parser_init HTTP_REQUEST []"

lemma example_run:
  "ret_satisfies (\<lambda>n q. n = 44 \<and> hp_errno q = HPE_OK \<and> hp_state q = s_body_identity \<and>
      hp_method q = HTTP_PUT \<and> hp_data q = ''hello'' \<and> unat (hp_content_length q) = 7 \<and>
      hp_content_length q \<noteq> ULLONG_MAX)
    (http_parser_execute HTTP_MAX_HEADER_SIZE example_parser example_settings example_request)"
  by code_simp

theorem execute_safe_witness:
  "\<exists>n q. http_parser_execute HTTP_MAX_HEADER_SIZE example_parser example_settings example_request = Ret n q \<and>
     n \<le> 44 \<and> (hp_errno q = HPE_OK \<longrightarrow> n = 44 \<or> hp_upgrade q)"
proof -
  have len: "length example_request = 44" by (simp add: example_request_def)
  have "settings_ok example_settings" "reachable HTTP_MAX_HEADER_SIZE example_settings example_parser"
    by (rule example_settings_ok, rule reach_init)
  moreover have "length example_request < 2 ^ 64" "example_request \<noteq> []" using len by auto
  ultimately show ?thesis
    using execute_safe[of example_settings HTTP_MAX_HEADER_SIZE example_parser example_request] len by auto
qed

theorem reachable_framing_witness:
  "\<exists>n q. http_parser_execute HTTP_MAX_HEADER_SIZE example_parser example_settings example_request = Ret n q \<and>
     hp_nread q \<le> HTTP_MAX_HEADER_SIZE \<and> hp_content_length q \<noteq> 0"
proof -
  obtain n q where q: "http_parser_execute HTTP_MAX_HEADER_SIZE example_parser example_settings example_request = Ret n q"
      "hp_errno q = HPE_OK" "hp_state q = s_body_identity"
    using example_run by (rule ret_satisfiesE) blast
  have "length example_request < 2 ^ 64" by (simp add: example_request_def)
  then have "reachable HTTP_MAX_HEADER_SIZE example_settings q" using reach_execute[OF reach_init _ q(1)] by blast
  from reachable_framing[OF example_settings_ok this q(2)] q(1,3) show ?thesis by blast
qed

theorem error_is_final_witness:
  "http_parser_execute 80 (example_parser\<lparr>hp_errno := HPE_STRICT\<rparr>) example_settings ''x'' =
     Ret 0 (example_parser\<lparr>hp_errno := HPE_STRICT\<rparr>) \<and>
   http_parser_pause False (example_parser\<lparr>hp_errno := HPE_STRICT\<rparr>) = None"
  using error_is_final[of "example_parser\<lparr>hp_errno := HPE_STRICT\<rparr>" 80 example_settings "''x''" False] by simp

end
