(* ===== verification/HttpNames.thy ===== *)
theory HttpNames
  imports HttpReach
begin

text \<open>
  Which header names the message parser interprets. The automaton over field names, with the skips
  of its scanning loop, is shown to agree with a comparison of the whole name in lower case.
\<close>

section \<open>Header names\<close>

text \<open>
  The reference: a name is compared, in lower case, with the five names the parser interprets. The
  automaton has seen a non-empty prefix of a name when it stands in \<open>name_state\<close> of it.
\<close>

definition name_state :: "string \<Rightarrow> header_state" where
  "name_state w =
     (if w = CONNECTION \<or> w = PROXY_CONNECTION then h_connection
      else if w = CONTENT_LENGTH then h_content_length
      else if w = TRANSFER_ENCODING then h_transfer_encoding
      else if w = UPGRADE then h_upgrade
      else if w = ''c'' then h_C
      else if w = ''co'' then h_CO
      else if w = ''con'' then h_CON
      else if prefix w CONNECTION then h_matching_connection
      else if prefix w PROXY_CONNECTION then h_matching_proxy_connection
      else if prefix w CONTENT_LENGTH then h_matching_content_length
      else if prefix w TRANSFER_ENCODING then h_matching_transfer_encoding
      else if prefix w UPGRADE then h_matching_upgrade
      else h_general)"

text \<open>One character of a name, with the case \<open>h_general\<close> that the loop skips over.\<close>

definition name_char :: "char \<Rightarrow> 'd http_parser \<Rightarrow> 'd http_parser option" where
  "name_char ch p = (if hp_header_state p = h_general then Some p else field_char ch p)"

fun name_chars :: "string \<Rightarrow> 'd http_parser \<Rightarrow> 'd http_parser option" where
  "name_chars [] p = Some p"
| "name_chars (c # cs) p = Option.bind (name_char c p) (name_chars cs)"

lemmas name_words = CONNECTION_def PROXY_CONNECTION_def CONTENT_LENGTH_def TRANSFER_ENCODING_def UPGRADE_def

text \<open>The longest name has 17 characters, so the 7-bit index does not wrap while it counts.\<close>

definition name_inv :: "string \<Rightarrow> 'd http_parser \<Rightarrow> bool" where
  "name_inv w p \<longleftrightarrow> w \<noteq> [] \<and> hp_header_state p = name_state w \<and>
     (name_state w \<notin> {h_general, h_connection, h_content_length, h_transfer_encoding, h_upgrade} \<longrightarrow>
        unat (hp_index p) = length w - 1)"

definition starts_of :: "string \<Rightarrow> string list" where
  "starts_of w = map (\<lambda>n. take n w) [1..<length w + 1]"

definition partial_names :: "string list" where
  "partial_names = concat (map starts_of
     [CONNECTION, PROXY_CONNECTION, CONTENT_LENGTH, TRANSFER_ENCODING, UPGRADE])"

lemma partial_names_iff:
  "w \<in> set partial_names \<longleftrightarrow> w \<noteq> [] \<and> (prefix w CONNECTION \<or> prefix w PROXY_CONNECTION \<or> prefix w CONTENT_LENGTH \<or>
     prefix w TRANSFER_ENCODING \<or> prefix w UPGRADE)"
proof -
  have "w \<in> set (starts_of v) \<longleftrightarrow> w \<noteq> [] \<and> prefix w v" for v :: string
  proof
    assume "w \<in> set (starts_of v)"
    then show "w \<noteq> [] \<and> prefix w v" by (auto simp: starts_of_def take_is_prefix)
  next
    assume "w \<noteq> [] \<and> prefix w v"
    then have "w = take (length w) v" "length w \<in> {1..<length v + 1}"
      by (auto simp: prefix_def Suc_le_eq)
    then show "w \<in> set (starts_of v)" unfolding starts_of_def by (metis image_eqI set_map set_upt)
  qed
  then show ?thesis unfolding partial_names_def by auto
qed

lemma name_state_general: "w \<noteq> [] \<Longrightarrow> name_state w = h_general \<longleftrightarrow> w \<notin> set partial_names"
proof -
  assume "w \<noteq> []"
  moreover have "''c'' \<in> set partial_names" "''co'' \<in> set partial_names" "''con'' \<in> set partial_names"
    by code_simp+
  ultimately show ?thesis
    unfolding partial_names_iff name_state_def by auto
qed

text \<open>The transitions as a function of the header state, the position and the lower-case character.\<close>

definition word_next :: "string \<Rightarrow> nat \<Rightarrow> char \<Rightarrow> header_state \<Rightarrow> header_state \<Rightarrow> header_state" where
  "word_next w i c stay matched =
     (if i < length w \<and> c = w ! i then if i = length w - 1 then matched else stay else h_general)"

definition field_next :: "header_state \<Rightarrow> nat \<Rightarrow> char \<Rightarrow> header_state" where
  "field_next h i c =
     (case h of
        h_C \<Rightarrow> if c = CHR ''o'' then h_CO else h_general
      | h_CO \<Rightarrow> if c = CHR ''n'' then h_CON else h_general
      | h_CON \<Rightarrow> if c = CHR ''n'' then h_matching_connection
                 else if c = CHR ''t'' then h_matching_content_length else h_general
      | h_matching_connection \<Rightarrow> word_next CONNECTION i c h h_connection
      | h_matching_proxy_connection \<Rightarrow> word_next PROXY_CONNECTION i c h h_connection
      | h_matching_content_length \<Rightarrow> word_next CONTENT_LENGTH i c h h_content_length
      | h_matching_transfer_encoding \<Rightarrow> word_next TRANSFER_ENCODING i c h h_transfer_encoding
      | h_matching_upgrade \<Rightarrow> word_next UPGRADE i c h h_upgrade
      | _ \<Rightarrow> h_general)"

lemma match_char_word_next:
  "c \<noteq> NUL \<Longrightarrow> match_char w i c h_general stay matched = word_next w (unat i) c stay matched"
  by (auto simp: match_char_def word_next_def nth_append)

abbreviation finished_names :: "header_state set" where
  "finished_names \<equiv> {h_general, h_connection, h_content_length, h_transfer_encoding, h_upgrade}"

lemma field_char_next:
  assumes "hp_header_state p \<in> field_states" "TOKEN ch \<noteq> NUL"
  shows "\<exists>q. name_char ch p = Some q \<and>
    hp_header_state q = field_next (hp_header_state p) (unat (hp_index p + 1)) (TOKEN ch) \<and>
    (hp_header_state p \<notin> finished_names \<longrightarrow> hp_index q = hp_index p + 1)"
proof -
  have "ch \<noteq> SP" using assms(2) by (auto simp: TOKEN_eq is_token_def ord_of_def)
  then show ?thesis
    using assms(1)[unfolded field_states_def] match_char_word_next[OF assms(2)]
    by (cases "hp_header_state p") (simp_all add: name_char_def field_char_def field_next_def Let_def)
qed

definition names_agree :: "string \<Rightarrow> bool" where
  "names_agree v \<longleftrightarrow> list_all (\<lambda>w. \<forall>c. field_next (name_state w) (length w) c = name_state (w @ [c])) (starts_of v)"

lemmas name_table = names_agree_def starts_of_def name_words upt_rec numeral_eq_Suc name_state_def field_next_def
  word_next_def

lemma names_agree_connection: "names_agree CONNECTION"
  by (simp add: name_table)

lemma names_agree_proxy_connection: "names_agree PROXY_CONNECTION"
  by (simp add: name_table)

lemma names_agree_content_length: "names_agree CONTENT_LENGTH"
  by (simp add: name_table)

lemma names_agree_transfer_encoding: "names_agree TRANSFER_ENCODING"
  by (simp add: name_table)

lemma names_agree_upgrade: "names_agree UPGRADE"
  by (simp add: name_table)

lemma field_next_name:
  assumes "w \<noteq> []"
  shows "field_next (name_state w) (length w) c = name_state (w @ [c])"
proof (cases "w \<in> set partial_names")
  case True
  then show ?thesis
    using names_agree_connection names_agree_proxy_connection names_agree_content_length
      names_agree_transfer_encoding names_agree_upgrade
    by (auto simp: partial_names_def names_agree_def list_all_iff)
next
  case False
  then have "w @ [c] \<notin> set partial_names" unfolding partial_names_iff using assms append_prefixD by blast
  then show ?thesis
    using False assms name_state_general[of w] name_state_general[of "w @ [c]"] by (simp add: field_next_def)
qed

lemma name_state_in: "name_state w \<in> field_states"
  by (simp add: name_state_def field_states_def)

lemma partial_name_short: "w \<noteq> [] \<Longrightarrow> name_state w \<noteq> h_general \<Longrightarrow> length w \<le> 17"
proof -
  have "list_all (\<lambda>w. length w \<le> 17) partial_names" by code_simp
  then show "w \<noteq> [] \<Longrightarrow> name_state w \<noteq> h_general \<Longrightarrow> length w \<le> 17"
    using name_state_general[of w] by (auto simp: list_all_iff)
qed

lemma name_char_inv:
  assumes inv: "name_inv w p" and t: "TOKEN ch \<noteq> NUL"
  shows "\<exists>q. name_char ch p = Some q \<and> name_inv (w @ [TOKEN ch]) q"
proof -
  let ?c = "TOKEN ch" and ?h = "name_state w"
  have w: "w \<noteq> []" "hp_header_state p = ?h" using inv by (simp_all add: name_inv_def)
  then obtain q where q: "name_char ch p = Some q" "hp_header_state q = field_next ?h (unat (hp_index p + 1)) ?c"
      "?h \<notin> finished_names \<longrightarrow> hp_index q = hp_index p + 1"
    using field_char_next[OF _ t, of p] name_state_in[of w] by auto
  show ?thesis
  proof (cases "?h \<in> finished_names")
    case True
    then have "field_next ?h i ?c = h_general" for i by (auto simp: field_next_def)
    then have "hp_header_state q = name_state (w @ [?c])" "name_state (w @ [?c]) = h_general"
      using q(2) field_next_name[OF w(1), of ?c] by metis+
    then show ?thesis using q(1) by (simp add: name_inv_def)
  next
    case False
    then have i: "unat (hp_index p) = length w - 1" using inv by (simp add: name_inv_def)
    have "length w \<le> 17" using partial_name_short[OF w(1)] False by auto
    then have "unat (hp_index p + 1) = length w" using i w(1) by (subst index_suc) (auto simp: Suc_diff_le)
    then have "hp_header_state q = name_state (w @ [?c])" "unat (hp_index q) = length (w @ [?c]) - 1"
      using q(2,3) False field_next_name[OF w(1), of ?c] by auto
    then show ?thesis using q(1) by (simp add: name_inv_def)
  qed
qed

lemma name_chars_inv:
  "name_inv w p \<Longrightarrow> list_all is_token cs \<Longrightarrow>
   \<exists>q. name_chars cs p = Some q \<and> name_inv (w @ map TOKEN cs) q"
proof (induction cs arbitrary: w p)
  case (Cons c cs)
  then have "TOKEN c \<noteq> NUL" by (simp add: TOKEN_iff)
  from name_char_inv[OF Cons.prems(1) this]
  obtain q where "name_char c p = Some q" "name_inv (w @ [TOKEN c]) q" by blast
  then show ?case using Cons.IH[of "w @ [TOKEN c]" q] Cons.prems(2) by simp
qed auto


text \<open>The loop over a name, with its skips, computes \<open>name_chars\<close> and stops at the first character after it.\<close>

lemma name_chars_general: "hp_header_state p = h_general \<Longrightarrow> name_chars cs p = Some p"
  by (induction cs) (simp_all add: name_char_def)

lemma drop_byte_at:
  assumes "drop p (env_data e) = c # cs"
  shows "byte_at e p = Some c" "drop (Suc p) (env_data e) = cs" "p < length (env_data e)"
proof -
  show p: "p < length (env_data e)" using assms by (metis drop_all list.distinct(1) not_le)
  then show "byte_at e p = Some c" using assms by (simp add: byte_at_def) (metis hd_drop_conv_nth list.sel(1))
  show "drop (Suc p) (env_data e) = cs" using assms by (metis drop_Suc list.sel(3) tl_drop)
qed

lemma field_skip_tokens:
  assumes "drop p (env_data e) = c # cs @ d # rest" "list_all is_token cs" "\<not> is_token d"
  shows "\<exists>j \<le> length cs. field_skip e pe p = Some (p + j)"
  using assms
proof (induction cs arbitrary: c p)
  case Nil
  then have "byte_at e (p + 1) = Some d" using drop_byte_at[of p e c] drop_byte_at[of "Suc p" e d] by simp
  then show ?case using Nil.prems(3) TOKEN_iff[of d] by (subst field_skip.simps) auto
next
  case (Cons c' cs)
  have d: "drop (p + 1) (env_data e) = c' # cs @ d # rest" using drop_byte_at(2)[of p e c] Cons.prems(1) by simp
  have b: "byte_at e (p + 1) = Some c'" using drop_byte_at(1)[OF d] .
  have t: "TOKEN c' \<noteq> NUL" using Cons.prems(2) TOKEN_iff[of c'] by auto
  obtain j where "j \<le> length cs" "field_skip e pe (p + 1) = Some (p + 1 + j)"
    using Cons.IH[OF d] Cons.prems(2,3) by auto
  then show ?case using b t by (subst field_skip.simps) (auto intro: exI[of _ "Suc j"])
qed

lemma field_loop_names:
  assumes "drop (ex_pos x) (env_data e) = cs @ d # rest" "list_all is_token cs" "\<not> is_token d"
    and "name_chars cs (ex_hp x) = Some q"
  shows "field_loop e start x =
    field_end e start (x\<lparr>ex_hp := q, ex_pos := ex_pos x + length cs, ex_ch := d\<rparr>)"
  using assms
proof (induction e start x arbitrary: cs rule: field_loop.induct)
  case (1 e start x)
  have lt: "ex_pos x < length (env_data e)"
    using "1.prems"(1) by (metis append_is_Nil_conv drop_all list.distinct(1) not_le)
  then have b: "ex_pos x \<noteq> length (env_data e)" "byte_at e (ex_pos x) = Some (env_data e ! ex_pos x)"
    by (simp_all add: byte_at_def)
  note unf = field_loop.simps[of e start x]
  have upd: "x\<lparr>ex_hp := ex_hp x, ex_ch := b\<rparr> = x\<lparr>ex_ch := b\<rparr>" for b by (cases x) simp
  show ?case
  proof (cases cs)
    case Nil
    then have "env_data e ! ex_pos x = d" using "1.prems"(1) lt by (metis append_Nil hd_drop_conv_nth list.sel(1))
    then show ?thesis using Nil b unf "1.prems"(3,4) TOKEN_iff[of d] upd[of d] by (auto simp: Let_def)
  next
    case (Cons c cs')
    have ch: "env_data e ! ex_pos x = c" using "1.prems"(1) lt Cons by (metis append_Cons hd_drop_conv_nth list.sel(1))
    have t: "TOKEN c \<noteq> NUL" using "1.prems"(2) Cons by (simp add: TOKEN_iff)
    let ?y = "x\<lparr>ex_ch := c\<rparr>"
    show ?thesis
    proof (cases "hp_header_state (ex_hp x) = h_general")
      case True
      then have q: "q = ex_hp x" using "1.prems"(4) name_chars_general[OF True, of cs] by simp
      obtain j where j: "j \<le> length cs'" "field_skip e (scan_limit e (ex_pos x)) (ex_pos x) = Some (ex_pos x + j)"
        using field_skip_tokens[of "ex_pos x" e c cs' d rest "scan_limit e (ex_pos x)"] "1.prems"(1-3) Cons by auto
      let ?z = "?y\<lparr>ex_pos := Suc (ex_pos x + j)\<rparr>"
      have "drop (ex_pos ?z) (env_data e) = drop (Suc j) (drop (ex_pos x) (env_data e))" by (simp add: add.commute)
      then have d: "drop (ex_pos ?z) (env_data e) = drop j cs' @ d # rest"
        using "1.prems"(1) Cons j(1) by simp
      have l: "list_all is_token (drop j cs')" using "1.prems"(2) Cons by (auto simp: list_all_iff dest: in_set_dropD)
      have n: "name_chars (drop j cs') (ex_hp ?z) = Some q" using name_chars_general[of "ex_hp ?z"] True q by simp
      have "field_loop e start x = field_loop e start ?z"
        using True b unf ch t j by (simp add: Let_def)
      also have "\<dots> = field_end e start (?z\<lparr>ex_hp := q, ex_pos := ex_pos ?z + length (drop j cs'), ex_ch := d\<rparr>)"
        using "1.IH"(1)[OF b refl, where x2a = "ex_pos x + j" and cs = "drop j cs'"] d l n ch t True j "1.prems"(3) by simp
      finally show ?thesis using q j Cons by simp
    next
      case False
      obtain p where p: "field_char c (ex_hp x) = Some p" "name_chars cs' p = Some q"
        using "1.prems"(4) Cons False by (auto simp: name_char_def Option.bind_eq_Some_conv)
      let ?z = "?y\<lparr>ex_hp := p, ex_pos := Suc (ex_pos x)\<rparr>"
      have d: "drop (ex_pos ?z) (env_data e) = cs' @ d # rest"
        using "1.prems"(1) Cons by (simp add: drop_Suc drop_tl[symmetric]) (metis list.sel(3) append_Cons tl_drop)
      have "field_loop e start x = field_loop e start ?z"
        using False b unf ch t p by (simp add: Let_def)
      also have "\<dots> = field_end e start (?z\<lparr>ex_hp := q, ex_pos := ex_pos ?z + length cs', ex_ch := d\<rparr>)"
        using "1.IH"(2)[OF b refl, where x2a = p and cs = cs'] d "1.prems"(2,3) Cons ch t False p by simp
      finally show ?thesis using Cons by simp
    qed
  qed
qed


lemma names_distinct: "distinct [CONNECTION, PROXY_CONNECTION, CONTENT_LENGTH, TRANSFER_ENCODING, UPGRADE]"
  by (simp add: name_words)

text \<open>
  C27: The parser interprets a header exactly by its name: after any name made of token characters and
  a colon, the name state is one of the four interpreted ones if and only if the name, in
  lower case, is connection or proxy-connection, content-length, transfer-encoding or upgrade.
  The scan stops at the colon, wherever the name lies in the buffer and however long it is.
\<close>

theorem header_names:
  assumes "env_data e = pre @ name @ CHR '':'' # rest" "name \<noteq> []" "list_all is_token name"
    and "ex_pos x = length pre" "ex_ch x = hd name"
  shows "\<exists>y z. step_header_field_start x = Next y \<and>
    step_header_field e (y\<lparr>ex_pos := Suc (ex_pos y)\<rparr>) = field_end e (Suc (length pre)) z \<and>
    ex_pos z = length pre + length name \<and> ex_ch z = CHR '':'' \<and>
    (hp_header_state (ex_hp z) = h_connection \<longleftrightarrow> map lower_case name \<in> {CONNECTION, PROXY_CONNECTION}) \<and>
    (hp_header_state (ex_hp z) = h_content_length \<longleftrightarrow> map lower_case name = CONTENT_LENGTH) \<and>
    (hp_header_state (ex_hp z) = h_transfer_encoding \<longleftrightarrow> map lower_case name = TRANSFER_ENCODING) \<and>
    (hp_header_state (ex_hp z) = h_upgrade \<longleftrightarrow> map lower_case name = UPGRADE)"
proof -
  obtain c cs where name: "name = c # cs" using assms(2) by (cases name) auto
  have t: "is_token c" "list_all is_token cs" using assms(3) name by simp_all
  have tok: "map TOKEN name = map lower_case name" using assms(3) by (auto simp: TOKEN_eq list_all_iff)
  have "\<not> is_token CR" "\<not> is_token LF" by (simp_all add: is_token_def ord_of_def)
  then have not_crlf: "c \<noteq> CR" "c \<noteq> LF" using t(1) by metis+
  define y where "y = upd_hp (\<lambda>p. p\<lparr>hp_index := 0, hp_header_state := name_state [TOKEN c]\<rparr>)
      (UPDATE_STATE s_header_field (MARK M_header_field x))"
  have h: "name_state [k] = (if k = CHR ''c'' then h_C else if k = CHR ''p'' then h_matching_proxy_connection
      else if k = CHR ''t'' then h_matching_transfer_encoding else if k = CHR ''u'' then h_matching_upgrade
      else h_general)" for k
    by (simp add: name_state_def name_words)
  have y: "step_header_field_start x = Next y"
    using assms(5) name not_crlf t(1) TOKEN_iff[of c] unfolding y_def h
    by (simp add: step_header_field_start_def Let_def)
  have "name_inv [TOKEN c] (ex_hp y)" by (simp add: y_def name_inv_def)
  from name_chars_inv[OF this t(2)]
  obtain q where q: "name_chars cs (ex_hp y) = Some q" "name_inv (map TOKEN name) q" using name by auto
  let ?x = "y\<lparr>ex_pos := Suc (ex_pos y)\<rparr>"
  let ?z = "?x\<lparr>ex_hp := q, ex_pos := ex_pos ?x + length cs, ex_ch := CHR '':''\<rparr>"
  have pos: "ex_pos ?x = Suc (length pre)" using assms(4) by (simp add: y_def)
  have d: "drop (ex_pos ?x) (env_data e) = cs @ CHR '':'' # rest" using assms(1) name pos by simp
  have c: "\<not> is_token (CHR '':'')" by (simp add: is_token_def)
  have n: "name_chars cs (ex_hp ?x) = Some q" using q(1) by simp
  have "step_header_field e ?x = field_end e (Suc (length pre)) ?z"
    using field_loop_names[OF d t(2) c n] unfolding step_header_field_def pos .
  moreover have "hp_header_state q = name_state (map lower_case name)" using q(2) tok by (simp add: name_inv_def)
  moreover have "name_state w = h_connection \<longleftrightarrow> w \<in> {CONNECTION, PROXY_CONNECTION}"
    "name_state w = h_content_length \<longleftrightarrow> w = CONTENT_LENGTH"
    "name_state w = h_transfer_encoding \<longleftrightarrow> w = TRANSFER_ENCODING" "name_state w = h_upgrade \<longleftrightarrow> w = UPGRADE" for w
    using names_distinct by (auto simp: name_state_def)
  ultimately show ?thesis using y pos name by (intro exI[of _ y] exI[of _ ?z]) simp
qed

theorem header_names_witness:
  "\<exists>y z. step_header_field_start ((exec_init example_parser)\<lparr>ex_ch := CHR ''C''\<rparr>) = Next y \<and>
    step_header_field (make_env 80 example_settings example_parser ''ConTENT-length: 1'')
      (y\<lparr>ex_pos := Suc (ex_pos y)\<rparr>) =
      field_end (make_env 80 example_settings example_parser ''ConTENT-length: 1'') 1 z \<and>
    hp_header_state (ex_hp z) = h_content_length"
proof -
  have "list_all is_token ''ConTENT-length''" by (simp add: is_token_def ord_of_def)
  moreover have "map lower_case ''ConTENT-length'' = CONTENT_LENGTH" by code_simp
  ultimately show ?thesis
    using header_names[of "make_env 80 example_settings example_parser ''ConTENT-length: 1''" "[]" "''ConTENT-length''"
        "'' 1''" "(exec_init example_parser)\<lparr>ex_ch := CHR ''C''\<rparr>"]
    by (auto simp: make_env_def exec_init_def)
qed

end
