(* ===== verification/HttpSyntax.thy ===== *)
theory HttpSyntax
  imports HttpReach
begin

text \<open>
  What the automata of the message parser recognise: request methods, the five header names it
  interprets, decimal content lengths and hexadecimal chunk sizes. Each is related to a reference
  that does not mention the automaton.
\<close>

section \<open>Methods\<close>

text \<open>The method state over a whole word, as the calls go through it.\<close>

fun method_chars :: "string \<Rightarrow> 'd exec \<Rightarrow> 'd exec option" where
  "method_chars [] x = Some x"
| "method_chars (c # cs) x =
     (if ex_state x = s_req_method
      then case step_req_method (x\<lparr>ex_ch := c\<rparr>) of Next y \<Rightarrow> method_chars cs y | _ \<Rightarrow> None
      else None)"

definition method_inv :: "string \<Rightarrow> 'd exec \<Rightarrow> bool" where
  "method_inv w x \<longleftrightarrow>
     (if ex_state x = s_req_method
      then prefix w (method_string (hp_method (ex_hp x))) \<and> unat (hp_index (ex_hp x)) = length w
      else w = method_string (hp_method (ex_hp x)) @ [SP])"

lemma method_switch_prefix:
  "list_all (\<lambda>((m, i, c), m'). take (Suc i) (method_string m') = take i (method_string m) @ [c] \<and>
     i < length (method_string m)) method_switch"
  by code_simp

lemma step_req_method_inv:
  assumes inv: "method_inv w x" and s: "ex_state x = s_req_method" and n: "step_req_method (x\<lparr>ex_ch := c\<rparr>) = Next y"
  shows "method_inv (w @ [c]) y"
proof -
  let ?p = "ex_hp x"
  let ?i = "unat (hp_index ?p)" and ?m = "method_string (hp_method ?p)"
  have w: "prefix w ?m" "?i = length w" using inv s by (simp_all add: method_inv_def)
  have le: "?i \<le> length ?m" using prefix_length_le[OF w(1)] w(2) by simp
  then have suc: "unat (hp_index ?p + 1) = Suc ?i"
    using method_string_short[of "hp_method ?p"] by (intro index_suc) simp
  have n': "c \<noteq> NUL" using n by (auto simp: step_req_method_def Let_def fail_eq split: if_splits)
  consider (sp) "c = SP" "(?m @ [NUL]) ! ?i = NUL"
    | (match) "\<not> (c = SP \<and> (?m @ [NUL]) ! ?i = NUL)" "c = (?m @ [NUL]) ! ?i"
    | (switch) m where "c \<noteq> (?m @ [NUL]) ! ?i" "map_of method_switch (hp_method ?p, ?i, c) = Some m"
        "\<not> (c = SP \<and> (?m @ [NUL]) ! ?i = NUL)"
    using n le by (auto simp: step_req_method_def Let_def fail_eq split: if_splits option.splits)
  then show ?thesis
  proof cases
    case sp
    have "?i = length ?m"
    proof (rule ccontr)
      assume "?i \<noteq> length ?m"
      then have "?i < length ?m" using le by simp
      then show False using sp(2) method_string_no_NUL[of "hp_method ?p"] nth_mem[of ?i ?m] by (simp add: nth_append)
    qed
    then have "w = ?m" using w by (auto simp: prefix_def)
    moreover have "y = upd_hp (\<lambda>p. p\<lparr>hp_index := hp_index p + 1\<rparr>) (UPDATE_STATE s_req_spaces_before_url (x\<lparr>ex_ch := c\<rparr>))"
      using n sp n' le by (simp add: step_req_method_def Let_def)
    ultimately show ?thesis using sp by (simp add: method_inv_def)
  next
    case match
    have lt: "?i < length ?m" using match(2) n' le by (cases "?i = length ?m") (auto simp: nth_append)
    have "step_req_method (x\<lparr>ex_ch := c\<rparr>) = Next (upd_hp (\<lambda>p. p\<lparr>hp_index := hp_index p + 1\<rparr>) (x\<lparr>ex_ch := c\<rparr>))"
      using match n' le by (auto simp: step_req_method_def Let_def)
    then have y: "y = upd_hp (\<lambda>p. p\<lparr>hp_index := hp_index p + 1\<rparr>) (x\<lparr>ex_ch := c\<rparr>)" using n by simp
    have "c = ?m ! length w" using match(2) lt w(2) by (simp add: nth_append)
    then have "prefix (w @ [c]) ?m" using append_one_prefix[OF w(1)] lt w(2) by simp
    then show ?thesis using w s suc by (simp add: y method_inv_def)
  next
    case (switch m)
    have tab: "take (Suc ?i) (method_string m) = take ?i ?m @ [c]" "?i < length ?m"
      using method_switch_prefix map_of_SomeD[OF switch(2)] by (auto simp: list_all_iff)
    have "step_req_method (x\<lparr>ex_ch := c\<rparr>) = Next (upd_hp (\<lambda>p. p\<lparr>hp_index := hp_index p + 1\<rparr>)
        (upd_hp (\<lambda>p. p\<lparr>hp_method := m\<rparr>) (x\<lparr>ex_ch := c\<rparr>)))"
      using switch n n' le by (auto simp: step_req_method_def Let_def fail_eq split: if_splits)
    then have y: "y = upd_hp (\<lambda>p. p\<lparr>hp_index := hp_index p + 1\<rparr>)
        (upd_hp (\<lambda>p. p\<lparr>hp_method := m\<rparr>) (x\<lparr>ex_ch := c\<rparr>))" using n by simp
    have "take ?i ?m = w" using w by (auto simp: prefix_def)
    then have "prefix (w @ [c]) (method_string m)" using tab(1) by (metis take_is_prefix)
    then show ?thesis using w s suc by (simp add: y method_inv_def)
  qed
qed

lemma method_chars_inv: "method_chars cs x = Some y \<Longrightarrow> method_inv w x \<Longrightarrow> method_inv (w @ cs) y"
proof (induction cs x arbitrary: w rule: method_chars.induct)
  case (2 c cs x)
  then obtain z where s: "ex_state x = s_req_method" and z: "step_req_method (x\<lparr>ex_ch := c\<rparr>) = Next z"
      "method_chars cs z = Some y"
    by (auto split: if_splits outcome.splits)
  have "method_inv (w @ [c]) z" by (rule step_req_method_inv[OF 2(3) s z(1)])
  from "2.IH"[OF s z(1) z(2) this] show ?case by simp
qed simp

lemma first_method_prefix: "first_method c = Some m \<Longrightarrow> take 1 (method_string m) = [c]"
proof -
  have "list_all (\<lambda>c. case first_method c of None \<Rightarrow> True | Some m \<Rightarrow> take 1 (method_string m) = [c]) all_chars"
    by code_simp
  then have "case first_method c of None \<Rightarrow> True | Some m \<Rightarrow> take 1 (method_string m) = [c]"
    by (rule all_charsD)
  then show "first_method c = Some m \<Longrightarrow> take 1 (method_string m) = [c]" by simp
qed

text \<open>The state in which the first letter leaves the parser.\<close>

definition method_start :: "char \<Rightarrow> 'd exec \<Rightarrow> 'd exec option" where
  "method_start c x =
     (case step_start_req \<lparr>env_settings = http_parser_settings_init, env_data = [], env_max = 0, env_lenient = False\<rparr>
             (x\<lparr>ex_ch := c, ex_state := s_start_req\<rparr>) of Next y \<Rightarrow> Some y | _ \<Rightarrow> None)"

definition accepts_method :: "string \<Rightarrow> 'd exec \<Rightarrow> http_method option" where
  "accepts_method w x =
     (case w of [] \<Rightarrow> None
      | c # cs \<Rightarrow>
          (case method_start c x of None \<Rightarrow> None
           | Some y \<Rightarrow>
               (case method_chars cs y of None \<Rightarrow> None
                | Some z \<Rightarrow> if ex_state z = s_req_spaces_before_url then Some (hp_method (ex_hp z)) else None)))"

lemma method_start_inv:
  assumes "method_start c x = Some y" "c \<noteq> CR" "c \<noteq> LF"
  shows "method_inv [c] y"
proof -
  obtain m where m: "first_method c = Some m" and y: "ex_state y = s_req_method"
      "hp_method (ex_hp y) = m" "hp_index (ex_hp y) = 1"
    using assms
    by (auto simp: method_start_def step_start_req_def Let_def fail_eq notify_message_begin_def CALLBACK_NOTIFY_def
        http_parser_settings_init_def split: if_splits option.splits outcome.splits)
  then show ?thesis using take_is_prefix[of 1 "method_string m"] first_method_prefix[OF m] by (simp add: method_inv_def)
qed


text \<open>For the converse the guesses are followed without the parser around them.\<close>

fun guess_method :: "http_method \<Rightarrow> nat \<Rightarrow> string \<Rightarrow> http_method option" where
  "guess_method m i [] = (if i = length (method_string m) then Some m else None)"
| "guess_method m i (c # cs) =
     (if c = SP \<or> c = NUL \<or> i \<ge> length (method_string m) then None
      else if c = method_string m ! i then guess_method m (Suc i) cs
      else if in_range (CHR ''A'') (CHR ''Z'') c \<or> c = CHR ''-''
      then case map_of method_switch (m, i, c) of None \<Rightarrow> None | Some m' \<Rightarrow> guess_method m' (Suc i) cs
      else None)"

definition guessing :: "http_method \<Rightarrow> nat \<Rightarrow> 'd exec \<Rightarrow> bool" where
  "guessing m i x \<longleftrightarrow> ex_state x = s_req_method \<and> hp_method (ex_hp x) = m \<and> unat (hp_index (ex_hp x)) = i"

lemma guess_method_chars:
  assumes "guess_method m i cs = Some m'" "guessing m i x"
  shows "\<exists>z. method_chars (cs @ [SP]) x = Some z \<and> ex_state z = s_req_spaces_before_url \<and> hp_method (ex_hp z) = m'"
  using assms
proof (induction m i cs arbitrary: x rule: guess_method.induct)
  case (1 m i)
  then show ?case
    by (auto simp: guessing_def step_req_method_def Let_def split: if_splits)
next
  case (2 m i c cs)
  let ?x = "x\<lparr>ex_ch := c\<rparr>"
  have c: "c \<noteq> SP" "c \<noteq> NUL" "i < length (method_string m)" using "2.prems"(1) by (auto split: if_splits)
  have i: "unat (hp_index (ex_hp x) + 1) = Suc i"
    using c(3) method_string_short[of m] "2.prems"(2) index_suc[of "hp_index (ex_hp x)"] by (simp add: guessing_def)
  show ?case
  proof (cases "c = method_string m ! i")
    case True
    let ?y = "upd_hp (\<lambda>p. p\<lparr>hp_index := hp_index p + 1\<rparr>) ?x"
    have "step_req_method ?x = Next ?y"
      using c True "2.prems"(2) by (simp add: step_req_method_def Let_def guessing_def nth_append)
    moreover have "guessing m (Suc i) ?y" using "2.prems"(2) i by (simp add: guessing_def)
    ultimately show ?thesis
      using "2.IH"(1)[of ?y] c True "2.prems" by (simp add: guessing_def)
  next
    case False
    then obtain m1 where m1: "map_of method_switch (m, i, c) = Some m1" "guess_method m1 (Suc i) cs = Some m'"
        "in_range (CHR ''A'') (CHR ''Z'') c \<or> c = CHR ''-''"
      using "2.prems"(1) c by (auto split: if_splits option.splits)
    let ?y = "upd_hp (\<lambda>p. p\<lparr>hp_index := hp_index p + 1\<rparr>) (upd_hp (\<lambda>p. p\<lparr>hp_method := m1\<rparr>) ?x)"
    have "step_req_method ?x = Next ?y"
      using c False "2.prems"(2) m1 by (simp add: step_req_method_def Let_def guessing_def nth_append)
    moreover have "guessing m1 (Suc i) ?y" using "2.prems"(2) i by (simp add: guessing_def)
    ultimately show ?thesis
      using "2.IH"(2)[OF _ False m1(3) m1(1) m1(2), of ?y] c "2.prems"(2) by (simp add: guessing_def)
  qed
qed

lemma all_methods_guessed:
  "case method_string m of [] \<Rightarrow> False
     | c # cs \<Rightarrow> IS_ALPHA c \<and> c \<noteq> CR \<and> c \<noteq> LF \<and> Option.bind (first_method c) (\<lambda>m0. guess_method m0 1 cs) = Some m"
proof -
  have "list_all (\<lambda>m. case method_string m of [] \<Rightarrow> False
     | c # cs \<Rightarrow> IS_ALPHA c \<and> c \<noteq> CR \<and> c \<noteq> LF \<and> Option.bind (first_method c) (\<lambda>m0. guess_method m0 1 cs) = Some m)
     http_methods" by code_simp
  moreover have "m \<in> set http_methods" by (cases m) (simp_all add: http_methods_def)
  ultimately show ?thesis by (auto simp: list_all_iff)
qed

text \<open>
  The method automaton recognises exactly the 34 methods: a word followed through the method state
  is accepted if and only if it is the name of a method and a space, and then the parser has
  stored that method.
\<close>

theorem method_recognition:
  assumes "w \<noteq> []" "hd w \<noteq> CR" "hd w \<noteq> LF" "hp_errno (ex_hp x) = HPE_OK"
  shows "accepts_method w x = Some m \<longleftrightarrow> w = method_string m @ [SP]"
proof
  assume "accepts_method w x = Some m"
  then obtain c cs y z where w: "w = c # cs" and y: "method_start c x = Some y" "method_chars cs y = Some z"
    and z: "ex_state z = s_req_spaces_before_url" "hp_method (ex_hp z) = m"
    by (auto simp: accepts_method_def split: list.splits option.splits if_splits)
  have "method_inv [c] y" using method_start_inv[OF y(1)] assms w by simp
  from method_chars_inv[OF y(2) this] have "method_inv w z" using w by simp
  then show "w = method_string m @ [SP]" using z by (simp add: method_inv_def)
next
  assume w: "w = method_string m @ [SP]"
  obtain c cs m0 where c: "method_string m = c # cs" "IS_ALPHA c" "c \<noteq> CR" "c \<noteq> LF"
    and m0: "first_method c = Some m0" "guess_method m0 1 cs = Some m"
    using all_methods_guessed[of m] by (cases "method_string m") (auto simp: Option.bind_eq_Some_conv)
  let ?y = "UPDATE_STATE s_req_method (upd_hp (\<lambda>p. p\<lparr>hp_method := m0\<rparr>)
      (upd_hp (\<lambda>p. p\<lparr>hp_method := HTTP_DELETE, hp_index := 1\<rparr>)
        (reset_message (x\<lparr>ex_ch := c, ex_state := s_start_req\<rparr>))))"
  have y: "method_start c x = Some ?y" "guessing m0 1 ?y"
    using c m0(1) assms(4) by (simp_all add: method_start_def step_start_req_def Let_def notify_message_begin_def
        CALLBACK_NOTIFY_def http_parser_settings_init_def guessing_def reset_message_def)
  from guess_method_chars[OF m0(2) y(2)] show "accepts_method w x = Some m"
    using w c(1) y(1) by (auto simp: accepts_method_def)
qed


theorem method_recognition_witness:
  "accepts_method ''PROPPATCH '' (exec_init example_parser) = Some HTTP_PROPPATCH"
  using method_recognition[of "''PROPPATCH ''" "exec_init example_parser" HTTP_PROPPATCH]
  by (simp add: method_string_def method_strings_def exec_init_def http_parser_init_def)

section \<open>Numbers\<close>

abbreviation content_length_limit :: nat where
  "content_length_limit \<equiv> 18446744073709551610"

lemma content_length_step:
  assumes "IS_NUM c"
  shows "value_char h_content_length_num c p =
    (if unat (hp_content_length p) * 10 + digit_val c < content_length_limit
     then Value_next h_content_length_num (p\<lparr>hp_content_length := hp_content_length p * 10 + of_nat (digit_val c)\<rparr>)
     else Value_fail h_content_length_num)"
proof -
  have d: "digit_val c \<le> 9" "c \<noteq> SP" using assms by (auto simp: IS_NUM_iff digit_val_def ord_of_def)
  have q: "unat ((ULLONG_MAX - 10) div 10 :: u64) = 1844674407370955160" by code_simp
  have "(ULLONG_MAX - 10) div 10 < hp_content_length p \<longleftrightarrow> 1844674407370955160 < unat (hp_content_length p)"
    unfolding word_less_nat_alt q by (rule refl)
  then show ?thesis
    using d assms by (auto simp: value_char_def content_length_digit_def Let_def)
qed

text \<open>The value loop over the digits of a content length, up to the carriage return.\<close>

lemma IS_NUM_header_char:
  assumes "IS_NUM c"
  shows "value_char_ok e c" "c \<noteq> CR" "c \<noteq> LF" "c \<noteq> SP" "c \<noteq> TAB"
  using assms by (auto simp: value_char_ok_def IS_HEADER_CHAR_def IS_NUM_iff ord_of_def)

lemma value_loop_digits:
  assumes "drop (ex_pos x) (env_data e) = cs @ CR # rest" "list_all IS_NUM cs"
    "unat (hp_content_length (ex_hp x)) < content_length_limit"
  shows "let v = dec_value (unat (hp_content_length (ex_hp x))) cs in
    if v < content_length_limit
    then value_loop e start h_content_length_num x = value_cr e start h_content_length_num
      (x\<lparr>ex_hp := (ex_hp x)\<lparr>hp_content_length := of_nat v\<rparr>, ex_pos := ex_pos x + length cs, ex_ch := CR\<rparr>)
    else \<exists>z. value_loop e start h_content_length_num x = fail HPE_INVALID_CONTENT_LENGTH z"
  using assms
proof (induction cs arbitrary: x)
  case Nil
  then have "ex_pos x < length (env_data e)" "env_data e ! ex_pos x = CR"
    by (metis append_Nil drop_all list.distinct(1) not_le, metis append_Nil hd_drop_conv_nth drop_all list.distinct(1) list.sel(1) not_le)
  then have "value_loop e start h_content_length_num x = value_cr e start h_content_length_num (x\<lparr>ex_ch := CR\<rparr>)"
    by (subst value_loop.simps) (simp add: byte_at_def)
  then show ?case using Nil.prems(3) by simp
next
  case (Cons c cs)
  have lt: "ex_pos x < length (env_data e)" using Cons.prems(1) by (metis append_Cons drop_all list.distinct(1) not_le)
  have ch: "env_data e ! ex_pos x = c" using Cons.prems(1) lt by (metis append_Cons hd_drop_conv_nth list.sel(1))
  have c: "IS_NUM c" using Cons.prems(2) by simp
  have d: "digit_val c < 10" using c by (auto simp: IS_NUM_iff digit_val_def)
  let ?t = "hp_content_length (ex_hp x)"
  let ?n = "unat ?t * 10 + digit_val c"
  note unf = value_loop.simps[of e start h_content_length_num x]
  note nc = IS_NUM_header_char(1)[OF c, of e] IS_NUM_header_char(2-)[OF c]
  show ?case
  proof (cases "?n < content_length_limit")
    case True
    let ?q = "(ex_hp x)\<lparr>hp_content_length := ?t * 10 + of_nat (digit_val c)\<rparr>"
    let ?y = "x\<lparr>ex_ch := c, ex_hp := ?q, ex_pos := Suc (ex_pos x)\<rparr>"
    have u: "unat (hp_content_length (ex_hp ?y)) = ?n" using True d by (simp add: unat_word_ariths unat_of_nat)
    have "value_loop e start h_content_length_num x = value_loop e start h_content_length_num ?y"
      using unf lt ch True content_length_step[OF c, of "ex_hp x"] nc
      by (simp add: byte_at_def Let_def)
    moreover have "drop (ex_pos ?y) (env_data e) = cs @ CR # rest"
      using Cons.prems(1) by (simp add: drop_Suc drop_tl[symmetric]) (metis list.sel(3) append_Cons tl_drop)
    ultimately show ?thesis using Cons.IH[of ?y] Cons.prems(2) u True by (simp add: Let_def)
  next
    case False
    then have "\<not> dec_value ?n cs < content_length_limit" using dec_value_ge[of ?n cs] by linarith
    moreover have "\<exists>z. value_loop e start h_content_length_num x = fail HPE_INVALID_CONTENT_LENGTH z"
      using unf lt ch False content_length_step[OF c, of "ex_hp x"] nc
      by (simp add: byte_at_def Let_def) blast
    ultimately show ?thesis by (simp add: Let_def)
  qed
qed

text \<open>A header value callback that accepts every value and changes the client's data only.\<close>

definition accepts_values :: "'d http_parser_settings \<Rightarrow> bool" where
  "accepts_values s \<longleftrightarrow> (\<forall>f t q. on_header_value s = Some f \<longrightarrow> (\<exists>d. f t q = (0, q\<lparr>hp_data := d\<rparr>)))"

lemma value_cr_accepted:
  assumes s: "accepts_values (env_settings e)" and ok: "hp_errno (ex_hp x) = HPE_OK"
    and m: "ex_marks x = (\<lambda>_. None)(M_header_value := Some b)" "b \<le> ex_pos x" "ex_pos x < length (env_data e)"
    and n: "ex_nread x + of_nat (ex_pos x - start) \<le> env_max e"
  shows "\<exists>d t. value_cr e start h x = Next (x\<lparr>ex_hp := (ex_hp x)\<lparr>hp_header_state := h, hp_state := t, hp_data := d\<rparr>,
      ex_state := s_header_almost_done, ex_nread := ex_nread x + of_nat (ex_pos x - start), ex_marks := (\<lambda>_. None)\<rparr>)"
proof -
  let ?p = "(ex_hp x)\<lparr>hp_header_state := h\<rparr>"
  let ?x = "x\<lparr>ex_state := s_header_almost_done, ex_hp := ?p\<rparr>"
  have "\<exists>d t. CALLBACK_DATA e M_header_value ?x = Next (?x\<lparr>ex_hp := ?p\<lparr>hp_state := t, hp_data := d\<rparr>, ex_marks := (\<lambda>_. None)\<rparr>)"
  proof (cases "on_header_value (env_settings e)")
    case None
    then show ?thesis
      using ok m by (intro exI[of _ "hp_data (ex_hp x)"] exI[of _ "hp_state (ex_hp x)"])
        (simp add: CALLBACK_DATA_def CALLBACK_DATA_ER_def data_cb_def fun_upd_idem)
  next
    case (Some f)
    obtain d where "f (take (ex_pos x - b) (drop b (env_data e))) (?p\<lparr>hp_state := s_header_almost_done\<rparr>) =
        (0, ?p\<lparr>hp_state := s_header_almost_done, hp_data := d\<rparr>)"
      using s Some unfolding accepts_values_def by blast
    then show ?thesis
      using Some ok m by (intro exI[of _ d] exI[of _ s_header_almost_done])
        (simp add: CALLBACK_DATA_def CALLBACK_DATA_ER_def data_cb_def UPDATE_STATE_def fun_upd_idem)
  qed
  then obtain d t where cb: "CALLBACK_DATA e M_header_value ?x =
      Next (?x\<lparr>ex_hp := ?p\<lparr>hp_state := t, hp_data := d\<rparr>, ex_marks := (\<lambda>_. None)\<rparr>)" by blast
  have "\<not> env_max e < ex_nread x + of_nat (ex_pos x - start)" using n by simp
  then show ?thesis
    using cb m by (intro exI[of _ d] exI[of _ t])
      (simp add: value_cr_def value_end_def upd_hp_def UPDATE_STATE_def COUNT_HEADER_SIZE_def Let_def)
qed

lemma exec_finish_no_marks:
  "ex_marks x = (\<lambda>_. None) \<Longrightarrow> hp_errno (ex_hp x) = HPE_OK \<Longrightarrow> exec_finish e x = RETURN (length (env_data e)) x"
  by (simp add: exec_finish_def all_marks_def CALLBACK_DATA_NOADVANCE_def CALLBACK_DATA_ER_def)

lemma has_flag_set: "g \<noteq> 0 \<Longrightarrow> has_flag g (set_flag g p)"
  by (simp add: has_flag_def set_flag_def bit.conj_disj_distrib2)

lemma exec_round_byte:
  assumes "byte_at e (ex_pos x) = Some c" "PARSING_HEADER (ex_state x)" "ex_nread x + 1 \<le> env_max e"
    and "\<And>y. exec_switch e (x\<lparr>ex_ch := c, ex_nread := ex_nread x + 1\<rparr>) \<noteq> Again y"
  shows "exec_round e x = exec_switch e (x\<lparr>ex_ch := c, ex_nread := ex_nread x + 1\<rparr>)"
proof -
  let ?y = "x\<lparr>ex_ch := c, ex_nread := ex_nread x + 1\<rparr>"
  have "reexecute e (Suc k) ?y = exec_switch e ?y" for k
    using assms(4) by (cases "exec_switch e ?y") auto
  from this[of 7] have r: "reexecute e 8 ?y = exec_switch e ?y" by (simp add: eval_nat_numeral)
  have "\<not> env_max e < ex_nread x + 1" using assms(3) by (simp add: not_less)
  then have "COUNT_HEADER_SIZE e 1 (x\<lparr>ex_ch := c\<rparr>) = Next ?y" by (simp add: COUNT_HEADER_SIZE_def Let_def)
  then show ?thesis using r assms(1,2) by (simp add: exec_round_def Let_def)
qed

text \<open>
  C32: A content length made of digits is accepted if and only if it is the first of its message and
  its decimal value is below 18446744073709551610; the 64-bit arithmetic never wraps. The statement is
  about a call of \<open>http_parser_execute\<close> on the value and its carriage return, after the name and its
  colon, within the limit on the header size and with a value callback that reports no error: the call
  stores exactly that value and the flag that a content length has been seen; with the flag already
  set the value is refused as unexpected, and a larger value is refused as invalid.
\<close>

theorem content_length_exact:
  assumes ds: "list_all IS_NUM ds" "ds \<noteq> []"
    and p: "hp_state p = s_header_value_discard_ws" "hp_header_state p = h_content_length" "hp_errno p = HPE_OK"
    and mx: "unat (hp_nread p) + length ds + 1 \<le> unat mx" and s: "accepts_values settings"
  shows "\<exists>n q. http_parser_execute mx p settings (ds @ [CR]) = Ret n q \<and>
    (if has_flag F_CONTENTLENGTH p then hp_errno q = HPE_UNEXPECTED_CONTENT_LENGTH
     else if dec_value 0 ds < content_length_limit
     then hp_errno q = HPE_OK \<and> n = length ds + 1 \<and> hp_state q = s_header_almost_done \<and>
       unat (hp_content_length q) = dec_value 0 ds \<and> has_flag F_CONTENTLENGTH q
     else hp_errno q = HPE_INVALID_CONTENT_LENGTH)"
proof -
  obtain c cs where ds': "ds = c # cs" using ds(2) by (cases ds) auto
  let ?e = "make_env mx settings p (ds @ [CR])" and ?x = "exec_init p"
  have e: "env_data ?e = c # cs @ [CR]" "env_settings ?e = settings" "env_max ?e = mx"
    by (simp_all add: make_env_def ds')
  have c: "IS_NUM c" "list_all IS_NUM cs" using ds(1) ds' by simp_all
  note nc = IS_NUM_header_char(2-)[OF c(1)]
  have dv: "digit_val c < 10" using c(1) by (auto simp: IS_NUM_iff digit_val_def)
  have marks: "initial_marks s_header_value_discard_ws = (\<lambda>_. None)"
    by (rule ext) (simp add: initial_marks_def url_mark_states_def)
  have n: "hp_nread p + of_nat k \<le> mx" if "k \<le> length ds + 1" for k
  proof -
    have "unat (hp_nread p + of_nat k) = (unat (hp_nread p) + k) mod 2 ^ 32"
      by (simp add: unat_word_ariths unat_of_nat mod_add_right_eq)
    then have "unat (hp_nread p + of_nat k) \<le> unat (hp_nread p) + k" by simp
    then show ?thesis using mx that by (simp add: word_le_nat_alt)
  qed
  let ?x1 = "?x\<lparr>ex_ch := c, ex_nread := hp_nread p + 1\<rparr>"
  have sw: "exec_switch ?e ?x1 = step_header_value_start ?x1"
    using p nc by (simp add: exec_switch_def exec_init_def step_header_value_discard_ws_def)
  have r1: "exec_round ?e ?x = step_header_value_start ?x1" if "\<And>y. step_header_value_start ?x1 \<noteq> Again y"
    using exec_round_byte[of ?e ?x c] sw that n[of 1] p e
    by (simp add: byte_at_def exec_init_def PARSING_HEADER_def body_states_def)
  show ?thesis
  proof (cases "has_flag F_CONTENTLENGTH p")
    case True
    let ?y = "upd_hp (\<lambda>p. p\<lparr>hp_index := 0\<rparr>) (UPDATE_STATE s_header_value (MARK M_header_value ?x1))"
    have "step_header_value_start ?x1 = fail HPE_UNEXPECTED_CONTENT_LENGTH ?y"
      using True p c(1)
      by (simp add: step_header_value_start_def value_start_state_def Let_def exec_init_def has_flag_def)
    then have "exec_round ?e ?x = fail HPE_UNEXPECTED_CONTENT_LENGTH ?y" using r1 by (simp add: fail_eq)
    then show ?thesis
      using True p e by (simp add: http_parser_execute_def fail_eq exec_init_def)
  next
    case False
    let ?q = "(set_flag F_CONTENTLENGTH (p\<lparr>hp_index := 0\<rparr>))\<lparr>hp_content_length := of_nat (digit_val c),
        hp_header_state := h_content_length_num\<rparr>"
    let ?x2 = "?x1\<lparr>ex_hp := ?q, ex_state := s_header_value, ex_marks := (\<lambda>_. None)(M_header_value := Some 0)\<rparr>"
    have "step_header_value_start ?x1 = Next ?x2"
      using False p c(1) marks
      by (simp add: step_header_value_start_def value_start_state_def Let_def exec_init_def has_flag_def
          MARK_def upd_hp_def UPDATE_STATE_def set_flag_def)
    then have round1: "exec_round ?e ?x = Next ?x2" using r1 by simp
    let ?x3 = "?x2\<lparr>ex_pos := 1, ex_ch := (cs @ [CR]) ! 0, ex_nread := hp_nread p + 2\<rparr>"
    let ?loop = "value_loop ?e 1 h_content_length_num ?x3"
    have sw2: "exec_switch ?e ?x3 = ?loop" by (simp add: exec_switch_def step_header_value_def)
    have n2: "hp_nread p + 2 \<le> mx" "hp_nread p + 2 + of_nat (length cs) \<le> mx"
      using n[of 2] n[of "length cs + 2"] ds' by (simp_all add: ac_simps)
    have b2: "byte_at ?e 1 = Some ((cs @ [CR]) ! 0)" using e by (simp add: byte_at_def)
    have r2: "exec_round ?e (?x2\<lparr>ex_pos := 1\<rparr>) = ?loop" if "\<And>y. ?loop \<noteq> Again y"
      using exec_round_byte[of ?e "?x2\<lparr>ex_pos := 1\<rparr>" "(cs @ [CR]) ! 0"] b2 sw2 that n2(1) e
      by (simp add: PARSING_HEADER_def body_states_def add.assoc)
    have loop: "exec_loop ?e (Suc (length (ds @ [CR]))) ?x =
        andthen ?loop (\<lambda>y. exec_loop ?e (Suc (length cs)) (y\<lparr>ex_pos := Suc (ex_pos y)\<rparr>))"
      if "\<And>y. ?loop \<noteq> Again y"
      using round1 r2[OF that] e ds' by (simp add: exec_init_def)
    have u: "unat (hp_content_length (ex_hp ?x3)) = digit_val c" using dv by (simp add: unat_of_nat)
    have dv0: "digit_val c < content_length_limit" "dec_value (digit_val c) cs = dec_value 0 ds" using dv ds' by simp_all
    have "drop (ex_pos ?x3) (env_data ?e) = cs @ CR # []" using e by simp
    from value_loop_digits[OF this c(2), of 1, unfolded u Let_def dv0(2), OF dv0(1)]
    have vl: "if dec_value 0 ds < content_length_limit
      then ?loop = value_cr ?e 1 h_content_length_num (?x3\<lparr>ex_hp := (ex_hp ?x3)\<lparr>hp_content_length := of_nat (dec_value 0 ds)\<rparr>,
          ex_pos := ex_pos ?x3 + length cs, ex_ch := CR\<rparr>)
      else \<exists>z. ?loop = fail HPE_INVALID_CONTENT_LENGTH z" .
    show ?thesis
    proof (cases "dec_value 0 ds < content_length_limit")
      case True
      let ?x4 = "?x3\<lparr>ex_hp := (ex_hp ?x3)\<lparr>hp_content_length := of_nat (dec_value 0 ds)\<rparr>, ex_pos := ex_pos ?x3 + length cs,
          ex_ch := CR\<rparr>"
      obtain d t where "?loop = Next (?x4\<lparr>ex_hp := (ex_hp ?x4)\<lparr>hp_header_state := h_content_length_num, hp_state := t, hp_data := d\<rparr>,
          ex_state := s_header_almost_done, ex_nread := ex_nread ?x4 + of_nat (ex_pos ?x4 - 1), ex_marks := (\<lambda>_. None)\<rparr>)"
        using value_cr_accepted[of ?e ?x4 0 1 h_content_length_num] vl True s p(3) e n2(2) by auto
      then have l: "?loop = Next (?x4\<lparr>ex_hp := (ex_hp ?x4)\<lparr>hp_header_state := h_content_length_num, hp_state := t, hp_data := d\<rparr>,
          ex_state := s_header_almost_done, ex_nread := ex_nread ?x4 + of_nat (ex_pos ?x4 - 1), ex_marks := (\<lambda>_. None)\<rparr>)"
        (is "_ = Next ?x5") .
      let ?x6 = "?x5\<lparr>ex_pos := Suc (ex_pos ?x5)\<rparr>"
      have "exec_loop ?e (Suc (length (ds @ [CR]))) ?x = exec_loop ?e (Suc (length cs)) ?x6"
        using loop[unfolded l] by simp
      also have "\<dots> = exec_finish ?e ?x6" using e by simp
      also have "\<dots> = RETURN (length ds + 1) ?x6" using p(3) e ds' by (subst exec_finish_no_marks) simp_all
      finally have "http_parser_execute mx p settings (ds @ [CR]) = RETURN (length ds + 1) ?x6"
        using p(3) by (simp add: http_parser_execute_def del: exec_loop.simps)
      moreover have "unat (of_nat (dec_value 0 ds) :: u64) = dec_value 0 ds" using True by (simp add: unat_of_nat)
      moreover have "has_flag F_CONTENTLENGTH (set_flag F_CONTENTLENGTH (p\<lparr>hp_index := 0\<rparr>))"
        by (rule has_flag_set) (simp add: F_CONTENTLENGTH_def)
      ultimately show ?thesis using False True p(3) by (simp add: RETURN_def has_flag_def)
    next
      case over: False
      then obtain z where "?loop = fail HPE_INVALID_CONTENT_LENGTH z" using vl by auto
      then show ?thesis
        using loop False over p by (simp add: http_parser_execute_def fail_eq del: exec_loop.simps)
    qed
  qed
qed

theorem content_length_exact_witness:
  "\<exists>n q. http_parser_execute 80 (example_parser\<lparr>hp_state := s_header_value_discard_ws, hp_header_state := h_content_length\<rparr>)
       example_settings (''1024'' @ [CR]) = Ret n q \<and> hp_errno q = HPE_OK \<and> n = 5 \<and> unat (hp_content_length q) = 1024 \<and>
     (\<exists>m r. http_parser_execute 80 (example_parser\<lparr>hp_state := s_header_value_discard_ws, hp_header_state := h_content_length,
         hp_flags := F_CONTENTLENGTH\<rparr>) example_settings (''1024'' @ [CR]) = Ret m r \<and>
       hp_errno r = HPE_UNEXPECTED_CONTENT_LENGTH)"
proof -
  have d: "list_all IS_NUM ''1024''" "''1024'' \<noteq> []" "dec_value 0 ''1024'' = 1024"
    by (simp_all add: IS_NUM_def in_range_def ord_of_def digit_val_def)
  have s: "accepts_values example_settings"
    by (simp add: accepts_values_def example_settings_def http_parser_settings_init_def)
  let ?p = "example_parser\<lparr>hp_state := s_header_value_discard_ws, hp_header_state := h_content_length\<rparr>"
  let ?q = "example_parser\<lparr>hp_state := s_header_value_discard_ws, hp_header_state := h_content_length, hp_flags := F_CONTENTLENGTH\<rparr>"
  have f: "\<not> has_flag F_CONTENTLENGTH ?p" "has_flag F_CONTENTLENGTH ?q"
    by (simp_all add: has_flag_def http_parser_init_def F_CONTENTLENGTH_def)
  have p: "hp_state ?p = s_header_value_discard_ws" "hp_header_state ?p = h_content_length" "hp_errno ?p = HPE_OK"
    "unat (hp_nread ?p) + length ''1024'' + 1 \<le> unat (80 :: u32)"
    "hp_state ?q = s_header_value_discard_ws" "hp_header_state ?q = h_content_length" "hp_errno ?q = HPE_OK"
    "unat (hp_nread ?q) + length ''1024'' + 1 \<le> unat (80 :: u32)"
    by (simp_all add: http_parser_init_def)
  note a = content_length_exact[OF d(1,2) p(1-4) s] and b = content_length_exact[OF d(1,2) p(5-8) s]
  have l: "length ''1024'' + 1 = 5" "(1024 :: nat) < content_length_limit" by simp_all
  from a[unfolded d(3) l(1) if_not_P[OF f(1)] if_P[OF l(2)]] obtain n q where n: "http_parser_execute 80 ?p example_settings (''1024'' @ [CR]) = Ret n q"
    "hp_errno q = HPE_OK" "n = 5" "unat (hp_content_length q) = 1024"
    by blast
  from b[unfolded if_P[OF f(2)]] obtain m r where m: "http_parser_execute 80 ?q example_settings (''1024'' @ [CR]) = Ret m r"
    "hp_errno r = HPE_UNEXPECTED_CONTENT_LENGTH"
    by blast
  show ?thesis by (intro exI conjI) (rule n m)+
qed

section \<open>Chunk sizes\<close>

fun chunk_size_chars :: "string \<Rightarrow> 'd exec \<Rightarrow> 'd exec option" where
  "chunk_size_chars [] x = Some x"
| "chunk_size_chars (c # cs) x =
     (case (if ex_state x = s_chunk_size_start then step_chunk_size_start (x\<lparr>ex_ch := c\<rparr>)
            else if ex_state x = s_chunk_size then step_chunk_size (x\<lparr>ex_ch := c\<rparr>) else Abort) of
        Next y \<Rightarrow> chunk_size_chars cs y | _ \<Rightarrow> None)"

definition hex_digit_val :: "char \<Rightarrow> nat" where
  "hex_digit_val c = (if IS_NUM c then ord_of c - 48 else ord_of (LOWER c) - 87)"

primrec hex_value :: "nat \<Rightarrow> string \<Rightarrow> nat" where
  "hex_value v [] = v"
| "hex_value v (c # cs) = hex_value (v * 16 + hex_digit_val c) cs"

abbreviation chunk_size_limit :: nat where
  "chunk_size_limit \<equiv> 18446744073709551600"

lemma hex_value_ge: "v \<le> hex_value v cs"
proof (induction cs arbitrary: v)
  case (Cons c cs)
  show ?case using Cons.IH[of "v * 16 + hex_digit_val c"] by simp
qed simp

lemma IS_HEX_unhex: "IS_HEX c \<Longrightarrow> unhex_val c = int (hex_digit_val c) \<and> hex_digit_val c \<le> 15 \<and> c \<noteq> CR"
proof -
  have "list_all (\<lambda>c. IS_HEX c \<longrightarrow> unhex_val c = int (hex_digit_val c) \<and> hex_digit_val c \<le> 15 \<and> c \<noteq> CR) all_chars"
    by code_simp
  then show "IS_HEX c \<Longrightarrow> unhex_val c = int (hex_digit_val c) \<and> hex_digit_val c \<le> 15 \<and> c \<noteq> CR"
    using all_charsD[of "\<lambda>c. IS_HEX c \<longrightarrow> unhex_val c = int (hex_digit_val c) \<and> hex_digit_val c \<le> 15 \<and> c \<noteq> CR" c]
    by blast
qed

lemma step_chunk_size_hex:
  assumes "IS_HEX (ex_ch x)" "has_flag F_CHUNKED (ex_hp x)"
  shows "step_chunk_size x =
    (if unat (hp_content_length (ex_hp x)) * 16 + hex_digit_val (ex_ch x) < chunk_size_limit
     then Next (upd_hp (\<lambda>p. p\<lparr>hp_content_length := hp_content_length p * 16 + of_nat (hex_digit_val (ex_ch x))\<rparr>) x)
     else fail HPE_INVALID_CONTENT_LENGTH x)"
proof -
  note h = IS_HEX_unhex[OF assms(1)]
  have q: "unat ((ULLONG_MAX - 16) div 16 :: u64) = 1152921504606846974" by code_simp
  have "(ULLONG_MAX - 16) div 16 < hp_content_length (ex_hp x) \<longleftrightarrow>
      1152921504606846974 < unat (hp_content_length (ex_hp x))"
    unfolding word_less_nat_alt q by (rule refl)
  then show ?thesis
    using h assms by (auto simp: step_chunk_size_def Let_def upd_hp_def)
qed

lemma chunk_size_rest:
  assumes "list_all IS_HEX ds" "ex_state x = s_chunk_size" "has_flag F_CHUNKED (ex_hp x)"
    "unat (hp_content_length (ex_hp x)) < chunk_size_limit"
  shows "map_option (\<lambda>y. unat (hp_content_length (ex_hp y))) (chunk_size_chars ds x) =
    (if hex_value (unat (hp_content_length (ex_hp x))) ds < chunk_size_limit
     then Some (hex_value (unat (hp_content_length (ex_hp x))) ds) else None)"
  using assms
proof (induction ds arbitrary: x)
  case Nil
  then show ?case by simp
next
  case (Cons c ds)
  let ?t = "hp_content_length (ex_hp x)"
  let ?n = "unat ?t * 16 + hex_digit_val c"
  have d: "hex_digit_val c \<le> 15" using Cons.prems(1) IS_HEX_unhex[of c] by simp
  have f: "has_flag F_CHUNKED (ex_hp (x\<lparr>ex_ch := c\<rparr>))" using Cons.prems(3) by simp
  show ?case
  proof (cases "?n < chunk_size_limit")
    case True
    let ?y = "upd_hp (\<lambda>p. p\<lparr>hp_content_length := hp_content_length p * 16 + of_nat (hex_digit_val c)\<rparr>) (x\<lparr>ex_ch := c\<rparr>)"
    have u: "unat (hp_content_length (ex_hp ?y)) = ?n"
      using True d by (simp add: unat_word_ariths unat_of_nat)
    have "chunk_size_chars (c # ds) x = chunk_size_chars ds ?y"
      using True Cons.prems(1,2) f by (simp add: step_chunk_size_hex)
    moreover have "has_flag F_CHUNKED (ex_hp ?y)" using Cons.prems(3) by (simp add: has_flag_def)
    ultimately show ?thesis using Cons.IH[of ?y] Cons.prems(1,2) u True by simp
  next
    case False
    then have "\<not> hex_value ?n ds < chunk_size_limit" using hex_value_ge[of ?n ds] by linarith
    then show ?thesis using False Cons.prems(1,2) f by (simp add: step_chunk_size_hex fail_eq)
  qed
qed

text \<open>
  A chunk size written in hexadecimal digits is accepted if and only if its value is below
  18446744073709551600, and then the parser expects exactly that many bytes; the 64-bit arithmetic
  never wraps.
\<close>

theorem chunk_size_exact:
  assumes "list_all IS_HEX ds" "ds \<noteq> []" "ex_state x = s_chunk_size_start" "ex_nread x = 1"
    "has_flag F_CHUNKED (ex_hp x)"
  shows "map_option (\<lambda>y. unat (hp_content_length (ex_hp y))) (chunk_size_chars ds x) =
    (if hex_value 0 ds < chunk_size_limit then Some (hex_value 0 ds) else None)"
proof -
  obtain c cs where ds: "ds = c # cs" using assms(2) by (cases ds) auto
  have h: "unhex_val c = int (hex_digit_val c)" "hex_digit_val c \<le> 15" using IS_HEX_unhex[of c] assms(1) ds by simp_all
  let ?y = "UPDATE_STATE s_chunk_size (upd_hp (\<lambda>p. p\<lparr>hp_content_length := of_nat (hex_digit_val c)\<rparr>) (x\<lparr>ex_ch := c\<rparr>))"
  have u: "unat (hp_content_length (ex_hp ?y)) = hex_digit_val c" using h(2) by (simp add: unat_of_nat)
  have "chunk_size_chars ds x = chunk_size_chars cs ?y"
    using assms ds h by (simp add: step_chunk_size_start_def Let_def)
  moreover have "has_flag F_CHUNKED (ex_hp ?y)" using assms(5) by (simp add: has_flag_def)
  ultimately show ?thesis using chunk_size_rest[of cs ?y] assms(1) ds u h(2) by simp
qed

theorem chunk_size_exact_witness:
  "map_option (\<lambda>y. unat (hp_content_length (ex_hp y))) (chunk_size_chars ''1aF''
      ((exec_init (example_parser\<lparr>hp_state := s_chunk_size_start, hp_flags := F_CHUNKED\<rparr>))\<lparr>ex_nread := 1\<rparr>)) = Some 431"
  using chunk_size_exact[of "''1aF''"
      "(exec_init (example_parser\<lparr>hp_state := s_chunk_size_start, hp_flags := F_CHUNKED\<rparr>))\<lparr>ex_nread := 1\<rparr>"]
  by (simp add: exec_init_def has_flag_def F_CHUNKED_def IS_HEX_def IS_NUM_def in_range_def LOWER_def ord_of_def
      hex_digit_val_def)

text \<open>
  A byte above 127 passes for the hexadecimal digit zero: the table of hexadecimal digits has 256
  entries of which the source writes 128, and the others are zero rather than minus one. Such a byte
  as a whole chunk size therefore ends the body like the last chunk.
\<close>

theorem chunk_size_high_byte:
  assumes "128 \<le> ord_of c" "ex_state x = s_chunk_size_start" "ex_nread x = 1" "has_flag F_CHUNKED (ex_hp x)"
  shows "map_option (\<lambda>y. hp_content_length (ex_hp y)) (chunk_size_chars [c] x) = Some 0"
  using assms unhex_val_eq[of c] by (simp add: step_chunk_size_start_def Let_def)

theorem chunk_size_high_byte_witness:
  "map_option (\<lambda>y. hp_content_length (ex_hp y)) (chunk_size_chars [CHR 0xE9]
      ((exec_init (example_parser\<lparr>hp_state := s_chunk_size_start, hp_flags := F_CHUNKED\<rparr>))\<lparr>ex_nread := 1\<rparr>)) = Some 0"
  using chunk_size_high_byte[of "CHR 0xE9"
      "(exec_init (example_parser\<lparr>hp_state := s_chunk_size_start, hp_flags := F_CHUNKED\<rparr>))\<lparr>ex_nread := 1\<rparr>"]
  by (simp add: exec_init_def has_flag_def F_CHUNKED_def ord_of_def)

end
