(* ===== verification/SocketStream.thy ===== *)
theory SocketStream
  imports ByteArrayIO "HOL-Library.Sublist"
begin

text \<open>
  Streams: the loops of \<open>stream.cc\<close> that read or write a fixed number of bytes through the virtual
  \<open>read\<close> and \<open>write\<close>, and \<open>streams/socket_stream.cc\<close> with the part of \<open>socket.cc\<close> that it uses. What the
  operating system does to a connection is part of the socket: the segments that arrive and the
  results of the calls that send.
\<close>

section \<open>Sockets\<close>

text \<open>
  A receiving call returns the front of the next segment, as much as the buffer takes, or fails with the
  given code; when there is nothing left the peer has closed. A sending call takes at most the next entry
  of \<open>sk_sends\<close>, an entry that is not positive is its result, and with no entries left it takes everything.
\<close>

datatype 'b segment = Data "'b list" | Fail nat

record 'b socket =
  sk_open :: bool
  sk_isConnected :: bool
  sk_in :: "'b segment list"
  sk_sends :: "int list"
  sk_out :: "'b list"

definition Socket_close :: "'b socket \<Rightarrow> 'b socket" where
  "Socket_close s =
     (if \<not> sk_isConnected s \<and> \<not> sk_open s then s else s\<lparr>sk_isConnected := False, sk_open := False\<rparr>)"

definition Socket_recv :: "nat \<Rightarrow> 'b socket \<Rightarrow> int \<times> 'b list \<times> 'b socket" where
  "Socket_recv n s =
     (if sk_isConnected s
      then case sk_in s of
             [] \<Rightarrow> (0, [], s)
           | Fail e # rest \<Rightarrow> (- int e, [], s\<lparr>sk_in := rest\<rparr>)
           | Data bs # rest \<Rightarrow>
               (int (min n (length bs)), take n bs,
                s\<lparr>sk_in := (if n < length bs then Data (drop n bs) # rest else rest)\<rparr>)
      else (- 1, [], s))"

definition Socket_send :: "'b list \<Rightarrow> 'b socket \<Rightarrow> int \<times> 'b socket" where
  "Socket_send bs s =
     (if sk_isConnected s
      then case sk_sends s of
             [] \<Rightarrow> (int (length bs), s\<lparr>sk_out := sk_out s @ bs\<rparr>)
           | r # rs \<Rightarrow>
               if r \<le> 0 then (r, s\<lparr>sk_sends := rs\<rparr>)
               else (min r (int (length bs)), s\<lparr>sk_sends := rs, sk_out := sk_out s @ take (nat r) bs\<rparr>)
      else (- 1, s))"

section \<open>Fixed sizes\<close>

text \<open>
  \<open>Stream::readFixSize\<close> and \<open>Stream::writeFixSize\<close> over any \<open>read\<close> and \<open>write\<close>: a read returns its result, the bytes and
  the new state.
\<close>

function readFixSize_loop ::
    "(nat \<Rightarrow> 'e \<Rightarrow> int \<times> 'b list \<times> 'e) \<Rightarrow> int \<Rightarrow> int \<Rightarrow> 'b list \<Rightarrow> 'e \<Rightarrow> int \<times> 'b list \<times> 'e" where
  "readFixSize_loop rd len left acc e =
     (if left > 0
      then case rd (nat left) e of
             (r, bs, e1) \<Rightarrow> if r \<le> 0 then (r, acc, e1) else readFixSize_loop rd len (left - r) (acc @ bs) e1
      else (len, acc, e))"
  by pat_completeness auto
termination
  by (relation "measure (\<lambda>(rd, len, left, acc, e). nat left)") auto

declare readFixSize_loop.simps [simp del]

definition readFixSize :: "(nat \<Rightarrow> 'e \<Rightarrow> int \<times> 'b list \<times> 'e) \<Rightarrow> nat \<Rightarrow> 'e \<Rightarrow> int \<times> 'b list \<times> 'e" where
  "readFixSize rd len e = readFixSize_loop rd (int len) (int len) [] e"

function writeFixSize_loop ::
    "('b list \<Rightarrow> 'e \<Rightarrow> int \<times> 'e) \<Rightarrow> int \<Rightarrow> int \<Rightarrow> 'b list \<Rightarrow> 'e \<Rightarrow> int \<times> 'e" where
  "writeFixSize_loop wr len left buf e =
     (if left > 0
      then case wr buf e of
             (r, e1) \<Rightarrow> if r \<le> 0 then (r, e1) else writeFixSize_loop wr len (left - r) (drop (nat r) buf) e1
      else (len, e))"
  by pat_completeness auto
termination
  by (relation "measure (\<lambda>(wr, len, left, buf, e). nat left)") auto

declare writeFixSize_loop.simps [simp del]

definition writeFixSize :: "('b list \<Rightarrow> 'e \<Rightarrow> int \<times> 'e) \<Rightarrow> 'b list \<Rightarrow> 'e \<Rightarrow> int \<times> 'e" where
  "writeFixSize wr buf e = writeFixSize_loop wr (int (length buf)) (int (length buf)) buf e"

section \<open>Socket streams\<close>

definition SocketStream_read :: "nat \<Rightarrow> 'b socket \<Rightarrow> int \<times> 'b list \<times> 'b socket" where
  "SocketStream_read n s = (if \<not> sk_isConnected s then (- 1, [], s) else Socket_recv n s)"

definition SocketStream_write :: "'b list \<Rightarrow> 'b socket \<Rightarrow> int \<times> 'b socket" where
  "SocketStream_write bs s = (if \<not> sk_isConnected s then (- 1, s) else Socket_send bs s)"

definition SocketStream_close :: "'b socket \<Rightarrow> 'b socket" where
  "SocketStream_close s = Socket_close s"

text \<open>The bytes that are still to arrive and a measure of the segments.\<close>

fun segment_bytes :: "'b segment \<Rightarrow> 'b list" where
  "segment_bytes (Data bs) = bs"
| "segment_bytes (Fail e) = []"

definition to_come :: "'b socket \<Rightarrow> 'b list" where
  "to_come s = concat (map segment_bytes (sk_in s))"

definition in_size :: "'b socket \<Rightarrow> nat" where
  "in_size s = length (to_come s) + length (sk_in s)"

lemma SocketStream_read_progress:
  assumes "SocketStream_read n s = (r, bs, s')" "0 < r"
  shows "in_size s' < in_size s" "to_come s = bs @ to_come s'" "r = int (length bs)" "length bs \<le> n"
    "sk_isConnected s'" "sk_out s' = sk_out s" "sk_sends s' = sk_sends s" "sk_open s' = sk_open s"
  using assms by (auto simp: SocketStream_read_def Socket_recv_def in_size_def to_come_def
      split: if_splits list.splits segment.splits)

lemma SocketStream_read_keeps:
  assumes "SocketStream_read n s = (r, bs, s')"
  shows "sk_out s' = sk_out s" "sk_sends s' = sk_sends s" "r \<le> int n"
  using assms by (auto simp: SocketStream_read_def Socket_recv_def split: if_splits list.splits segment.splits)

lemma SocketStream_write_effect:
  assumes "SocketStream_write bs s = (r, s')"
  shows "0 < r \<Longrightarrow> r \<le> int (length bs) \<and> sk_out s' = sk_out s @ take (nat r) bs"
    and "r \<le> 0 \<Longrightarrow> bs \<noteq> [] \<Longrightarrow> sk_out s' = sk_out s"
  using assms by (auto simp: SocketStream_write_def Socket_send_def min_def split: if_splits list.splits)

section \<open>The contract of streams\<close>

locale stream_reader =
  fixes rd :: "nat \<Rightarrow> 'e \<Rightarrow> int \<times> 'b list \<times> 'e" and source :: "'e \<Rightarrow> 'b list"
  assumes read_some: "rd n e = (r, bs, e') \<Longrightarrow> 0 < r \<Longrightarrow> source e = bs @ source e' \<and> r = int (length bs) \<and> length bs \<le> n"
begin

lemma readFixSize_loop_ok:
  "readFixSize_loop rd len left acc e = (r, out, e') \<Longrightarrow> 0 \<le> left \<Longrightarrow> 0 < len \<Longrightarrow>
   \<exists>bs. out = acc @ bs \<and> (if 0 < r then r = len \<and> int (length bs) = left \<and> source e = bs @ source e'
     else int (length bs) < left \<and> prefix bs (source e))"
proof (induction "nat left" arbitrary: left acc e rule: less_induct)
  case less
  show ?case
  proof (cases "left > 0")
    case False
    then show ?thesis using less.prems by (simp add: readFixSize_loop.simps)
  next
    case True
    obtain q bs e1 where q: "rd (nat left) e = (q, bs, e1)" by (cases "rd (nat left) e") auto
    show ?thesis
    proof (cases "q \<le> 0")
      case True
      then show ?thesis using less.prems \<open>left > 0\<close> q by (simp add: readFixSize_loop.simps)
    next
      case False
      then have s: "source e = bs @ source e1" "q = int (length bs)" "length bs \<le> nat left"
        using read_some[OF q] by simp_all
      have l: "readFixSize_loop rd len (left - q) (acc @ bs) e1 = (r, out, e')"
        using less.prems(1) \<open>left > 0\<close> q False by (simp add: readFixSize_loop.simps[of rd len left])
      have "nat (left - q) < nat left" "0 \<le> left - q" using False s(2,3) True by auto
      from less.hyps[OF this(1) l this(2) less.prems(3)] show ?thesis
        using s by (force split: if_splits)
    qed
  qed
qed

lemma readFixSize_ok:
  assumes "readFixSize rd len e = (r, out, e')" "0 < len"
  shows "if 0 < r then r = int len \<and> length out = len \<and> source e = out @ source e'
    else length out < len \<and> prefix out (source e)"
  using readFixSize_loop_ok[OF assms(1)[unfolded readFixSize_def]] assms(2) by auto

end

interpretation socket_reader: stream_reader SocketStream_read to_come
  by unfold_locales (simp add: SocketStream_read_progress)

locale stream_writer =
  fixes wr :: "'b list \<Rightarrow> 'e \<Rightarrow> int \<times> 'e" and sink :: "'e \<Rightarrow> 'b list"
  assumes write_some: "wr bs e = (r, e') \<Longrightarrow> 0 < r \<Longrightarrow> r \<le> int (length bs) \<and> sink e' = sink e @ take (nat r) bs"
    and write_none: "wr bs e = (r, e') \<Longrightarrow> r \<le> 0 \<Longrightarrow> bs \<noteq> [] \<Longrightarrow> sink e' = sink e"
begin

lemma writeFixSize_loop_ok:
  "writeFixSize_loop wr len (int (length buf)) buf e = (r, e') \<Longrightarrow> 0 < len \<Longrightarrow>
   if 0 < r then r = len \<and> sink e' = sink e @ buf else \<exists>k < length buf. sink e' = sink e @ take k buf"
proof (induction "length buf" arbitrary: buf e rule: less_induct)
  case less
  show ?case
  proof (cases "buf = []")
    case True
    then show ?thesis using less.prems by (simp add: writeFixSize_loop.simps)
  next
    case False
    obtain q e1 where q: "wr buf e = (q, e1)" by (cases "wr buf e") auto
    show ?thesis
    proof (cases "q \<le> 0")
      case True
      then have "r = q" "e' = e1" using less.prems(1) False q by (simp_all add: writeFixSize_loop.simps)
      then show ?thesis using True write_none[OF q True False] False by auto
    next
      case f: False
      then have s: "q \<le> int (length buf)" "sink e1 = sink e @ take (nat q) buf" using write_some[OF q] by simp_all
      have len: "int (length buf) - q = int (length (drop (nat q) buf))" using s(1) f by simp
      have l: "writeFixSize_loop wr len (int (length (drop (nat q) buf))) (drop (nat q) buf) e1 = (r, e')"
        using less.prems(1) False q f unfolding len[symmetric] writeFixSize_loop.simps[of wr len "int (length buf)"] by simp
      have "length (drop (nat q) buf) < length buf" using f False by simp
      note ih = less.hyps[OF this l less.prems(2)]
      show ?thesis
      proof (cases "0 < r")
        case True
        then show ?thesis using ih s(2) by simp
      next
        case r: False
        then obtain k where k: "k < length (drop (nat q) buf)" "sink e' = sink e1 @ take k (drop (nat q) buf)"
          using ih by auto
        have "sink e' = sink e @ take (nat q + k) buf" using k(2) s(2) by (simp add: take_add)
        moreover have "nat q + k < length buf" using k(1) by simp
        ultimately show ?thesis using r by auto
      qed
    qed
  qed
qed

lemma writeFixSize_ok:
  assumes "writeFixSize wr buf e = (r, e')" "buf \<noteq> []"
  shows "if 0 < r then r = int (length buf) \<and> sink e' = sink e @ buf
    else \<exists>k < length buf. sink e' = sink e @ take k buf"
  using writeFixSize_loop_ok[OF assms(1)[unfolded writeFixSize_def]] assms(2) by simp

end

interpretation socket_writer: stream_writer SocketStream_write sk_out
  by unfold_locales (auto dest: SocketStream_write_effect)

section \<open>Reading and writing byte arrays\<close>

text \<open>What \<open>recvmsg\<close> does with the buffers: it fills them in order.\<close>

fun scatter :: "iovec list \<Rightarrow> byte list \<Rightarrow> byte list list \<Rightarrow> byte list list" where
  "scatter [] bs nodes = nodes"
| "scatter ((i, off, len) # vs) bs nodes =
     scatter vs (drop len bs) (nodes[i := overwrite off (take len bs) (nodes ! i)])"

definition iovs_len :: "iovec list \<Rightarrow> nat" where
  "iovs_len vs = sum_list (map (\<lambda>(i, off, len). len) vs)"

definition SocketStream_read_ba ::
    "nat \<Rightarrow> bytearray \<Rightarrow> byte socket \<Rightarrow> (int \<times> bytearray \<times> byte socket) res" where
  "SocketStream_read_ba len ba s =
     (if \<not> sk_isConnected s then Inr (- 1, ba, s)
      else bindr (getWriteBuffers len ba) (\<lambda>(n, iovs, ba1).
        case Socket_recv (iovs_len iovs) s of
          (rt, bs, s1) \<Rightarrow>
            let ba2 = ba1\<lparr>m_root := scatter iovs bs (m_root ba1)\<rparr>
            in if rt > 0 then bindr (setPosition (m_position ba2 + nat rt) ba2) (\<lambda>ba3. Inr (rt, ba3, s1))
               else Inr (rt, ba2, s1)))"

definition SocketStream_write_ba ::
    "nat \<Rightarrow> bytearray \<Rightarrow> byte socket \<Rightarrow> (int \<times> bytearray \<times> byte socket) res" where
  "SocketStream_write_ba len ba s =
     (if \<not> sk_isConnected s then Inr (- 1, ba, s)
      else bindr (getReadBuffers len ba) (\<lambda>(n, iovs).
        case Socket_send (iov_bytes (m_root ba) iovs) s of
          (rt, s1) \<Rightarrow>
            if rt > 0 then bindr (setPosition (m_position ba + nat rt) ba) (\<lambda>ba1. Inr (rt, ba1, s1))
            else Inr (rt, ba, s1)))"

lemma iov_range_lengths: "length (concat (map (iov_range b) vs)) = iovs_len vs"
  by (induction vs) (auto simp: iovs_len_def iov_range_def)

lemma upt_Cons_split:
  assumes "[a..<a + l] @ xs = [p..<p + n]" "0 < l"
  shows "p = a" "l \<le> n" "xs = [a + l..<p + n]"
proof -
  have n: "0 < n" using assms by (cases n) auto
  have "hd ([a..<a + l] @ xs) = a" using assms(2) by (simp add: hd_append)
  then show p: "p = a" using assms(1) n by simp
  have "l + length xs = n" using arg_cong[OF assms(1), of length] by simp
  then show l: "l \<le> n" by simp
  have "drop l ([a..<a + l] @ xs) = drop l [p..<p + n]" using assms(1) by simp
  then show "xs = [a + l..<p + n]" using p by simp
qed

lemma scatter_overwrites:
  "blocks_ok b nodes \<Longrightarrow> list_all (iov_ok b nodes) vs \<Longrightarrow> concat (map (iov_range b) vs) = [p..<p + n] \<Longrightarrow>
   length bs \<le> n \<Longrightarrow> p + n \<le> length (concat nodes) \<Longrightarrow>
   blocks_ok b (scatter vs bs nodes) \<and> length (scatter vs bs nodes) = length nodes \<and>
   concat (scatter vs bs nodes) = overwrite p bs (concat nodes)"
proof (induction vs arbitrary: bs nodes p n)
  case Nil
  have "length [p..<p + n] = 0" using Nil(3)[symmetric] by auto
  then have "n = 0" by simp
  then show ?case using Nil by simp
next
  case (Cons v vs)
  obtain i off l where v: "v = (i, off, l)" by (cases v)
  have ok: "i < length nodes" "off + l \<le> b" "0 < l" using Cons.prems(2) by (simp_all add: v iov_ok_def)
  have "[i * b + off..<i * b + off + l] @ concat (map (iov_range b) vs) = [p..<p + n]"
    using Cons.prems(3) by (simp add: v iov_range_def[of b "(i, off, l)"])
  note sp = upt_Cons_split[OF this ok(3)]
  let ?nodes = "nodes[i := overwrite off (take l bs) (nodes ! i)]"
  have fit: "off + length (take l bs) \<le> b" using ok(2) by simp
  have len_i: "length (nodes ! i) = b" using blocks_okD(2)[OF Cons.prems(1) ok(1)] .
  have bok: "blocks_ok b ?nodes" using Cons.prems(1) fit len_i by (intro blocks_ok_update) simp_all
  have cat: "concat ?nodes = overwrite p (take l bs) (concat nodes)"
    using concat_update_overwrite[OF Cons.prems(1) ok(1) fit] sp(1) by simp
  have vs: "list_all (iov_ok b ?nodes) vs" using Cons.prems(2) by (simp add: list_all_iff iov_ok_def)
  have rng: "concat (map (iov_range b) vs) = [p + l..<(p + l) + (n - l)]" using sp by (simp add: add.assoc)
  have "length (drop l bs) \<le> n - l" using Cons.prems(4) by simp
  moreover have "p + l + (n - l) \<le> length (concat ?nodes)" using Cons.prems(4,5) sp(2) unfolding cat by simp
  ultimately have ih: "blocks_ok b (scatter vs (drop l bs) ?nodes)"
      "length (scatter vs (drop l bs) ?nodes) = length nodes"
      "concat (scatter vs (drop l bs) ?nodes) = overwrite (p + l) (drop l bs) (concat ?nodes)"
    using Cons.IH[OF bok vs rng, of "drop l bs"] by simp_all
  have "overwrite (p + l) (drop l bs) (overwrite p (take l bs) (concat nodes)) = overwrite p bs (concat nodes)"
  proof (cases "l \<le> length bs")
    case True
    then show ?thesis using overwrite_overwrite_adjacent[of p "take l bs" "drop l bs" "concat nodes"] Cons.prems(4,5) by simp
  qed simp
  then show ?case using ih unfolding cat by (simp add: v)
qed

lemma spec_write_position: "snd (spec_write bs c) = snd c + length bs"
  by (simp add: spec_write_def)

lemma take_overwrite_size:
  assumes "p \<le> n" "p + length bs \<le> length xs" "n \<le> length xs"
  shows "take (max n (p + length bs)) (overwrite p bs xs) = overwrite p bs (take n xs)"
proof (cases "p + length bs \<le> n")
  case True
  then have "overwrite p bs xs = overwrite p bs (take n xs) @ drop n xs"
    using overwrite_append_left[of p bs "take n xs" "drop n xs"] assms(3) by simp
  then show ?thesis using True assms by (simp add: max_def)
next
  case False
  then show ?thesis using assms by (simp add: overwrite_def max_def)
qed

lemma getWriteBuffers_baseSize: "ba_inv s \<Longrightarrow> getWriteBuffers len s = Inr (n, vs, s') \<Longrightarrow> m_baseSize s' = m_baseSize s \<and> m_position s' = m_position s"
  using addCapacity_ok[of s len] by (auto simp: getWriteBuffers_def bindr_def split: if_splits sum.splits)

lemma ba_inv_root:
  "ba_inv s \<Longrightarrow> blocks_ok (m_baseSize s) nodes \<Longrightarrow> length nodes = length (m_root s) \<Longrightarrow> ba_inv (s\<lparr>m_root := nodes\<rparr>)"
  by (auto simp: ba_inv_def cur_at_def)

lemma read_ba_spec:
  assumes inv: "ba_inv ba" and con: "sk_isConnected s"
  shows "\<exists>rt bs ba' s'. SocketStream_read_ba len ba s = Inr (rt, ba', s') \<and> SocketStream_read len s = (rt, bs, s') \<and>
    ba_inv ba' \<and> ba_abs ba' = (if 0 < rt then spec_write bs (ba_abs ba) else ba_abs ba)"
proof -
  obtain vs ba1 where w: "getWriteBuffers len ba = Inr (len, vs, ba1)" "ba_inv ba1" "ba_abs ba1 = ba_abs ba"
      "m_position ba + len \<le> m_capacity ba1" "list_all (iov_ok (m_baseSize ba) (m_root ba1)) vs"
      "concat (map (iov_range (m_baseSize ba)) vs) = [m_position ba..<m_position ba + len]"
    using getWriteBuffers_ok[OF inv] by blast
  have base: "m_baseSize ba1 = m_baseSize ba" "m_position ba1 = m_position ba"
    using getWriteBuffers_baseSize[OF inv w(1)] by simp_all
  note D = ba_invD[OF w(2)]
  have vl: "iovs_len vs = len" using arg_cong[OF w(6), of length] unfolding iov_range_lengths by simp
  obtain rt bs s' where r: "Socket_recv len s = (rt, bs, s')" by (cases "Socket_recv len s") auto
  then have r': "SocketStream_read len s = (rt, bs, s')" using con by (simp add: SocketStream_read_def)
  have bs: "length bs \<le> len" "0 < rt \<Longrightarrow> rt = int (length bs)" "\<not> 0 < rt \<Longrightarrow> bs = []"
    using r con by (auto simp: Socket_recv_def split: list.splits segment.splits)
  let ?ba2 = "ba1\<lparr>m_root := scatter vs bs (m_root ba1)\<rparr>"
  have sc: "blocks_ok (m_baseSize ba) (scatter vs bs (m_root ba1))" "length (scatter vs bs (m_root ba1)) = length (m_root ba1)"
      "concat (scatter vs bs (m_root ba1)) = overwrite (m_position ba) bs (concat (m_root ba1))"
    using scatter_overwrites[OF _ w(5,6) bs(1)] D(2,3) base(1) w(4) by simp_all
  have inv2: "ba_inv ?ba2" using ba_inv_root[OF w(2), of "scatter vs bs (m_root ba1)"] sc(1,2) base(1) by simp
  have cap: "m_capacity ?ba2 = m_capacity ba1" by simp
  have eq: "SocketStream_read_ba len ba s = (if rt > 0 then bindr (setPosition (m_position ba + nat rt) ?ba2) (\<lambda>ba3. Inr (rt, ba3, s'))
      else Inr (rt, ?ba2, s'))"
    using con w(1) r vl base(2) by (simp add: SocketStream_read_ba_def Let_def)
  show ?thesis
  proof (cases "0 < rt")
    case True
    obtain ba3 where b3: "setPosition (m_position ba + nat rt) ?ba2 = Inr ba3" "ba_inv ba3"
        "m_position ba3 = m_position ba + nat rt" "m_size ba3 = max (m_size ba1) (m_position ba + nat rt)"
        "m_root ba3 = scatter vs bs (m_root ba1)"
      using setPosition_ok[OF inv2, of "m_position ba + nat rt"] bs(1,2) True w(4) by auto
    have "take (m_size ba3) (concat (m_root ba3)) = overwrite (m_position ba) bs (take (m_size ba1) (concat (m_root ba1)))"
      unfolding b3(4,5) sc(3) using take_overwrite_size[of "m_position ba" "m_size ba1" bs "concat (m_root ba1)"]
        D(3,5,6) base(2) bs(1,2) True w(4) by simp
    then have "ba_abs ba3 = spec_write bs (ba_abs ba1)"
      using bs(2) True b3(3) base(2) by (simp add: ba_abs_def spec_write_def)
    then show ?thesis using True eq b3(1,2) r' w(3) by simp
  next
    case False
    then have "ba_abs ?ba2 = ba_abs ba1" using sc(3) bs(3) by (simp add: ba_abs_def)
    then show ?thesis using False eq inv2 r' w(3) by simp
  qed
qed

lemma write_ba_spec:
  assumes inv: "ba_inv ba" and con: "sk_isConnected s"
  shows "\<exists>rt ba' s'. SocketStream_write_ba len ba s = Inr (rt, ba', s') \<and>
    SocketStream_write (take len (drop (snd (ba_abs ba)) (fst (ba_abs ba)))) s = (rt, s') \<and>
    ba_inv ba' \<and> ba_abs ba' = (fst (ba_abs ba), snd (ba_abs ba) + nat rt)"
proof -
  let ?bs = "take len (drop (snd (ba_abs ba)) (fst (ba_abs ba)))"
  obtain vs where v: "getReadBuffers len ba = Inr (min len (getReadSize ba), vs)" "iov_bytes (m_root ba) vs = ?bs"
    using getReadBuffers_ok[OF inv] by blast
  note D = ba_invD[OF inv]
  obtain rt s' where r: "Socket_send ?bs s = (rt, s')" by (cases "Socket_send ?bs s")
  then have r': "SocketStream_write ?bs s = (rt, s')" using con by (simp add: SocketStream_write_def)
  have eq: "SocketStream_write_ba len ba s =
      (if rt > 0 then bindr (setPosition (m_position ba + nat rt) ba) (\<lambda>ba1. Inr (rt, ba1, s')) else Inr (rt, ba, s'))"
    using con v r by (simp add: SocketStream_write_ba_def)
  show ?thesis
  proof (cases "0 < rt")
    case True
    have "rt \<le> int (length ?bs)" using SocketStream_write_effect(1)[OF r' True] by (rule conjunct1)
    then have "nat rt \<le> length ?bs" by (simp only: nat_le_iff)
    also have "\<dots> \<le> m_size ba - m_position ba" using D(9,10) by simp
    finally have "m_position ba + nat rt \<le> m_size ba" using D(5) by linarith
    then obtain ba1 where "setPosition (m_position ba + nat rt) ba = Inr ba1" "ba_inv ba1"
        "ba_abs ba1 = (fst (ba_abs ba), m_position ba + nat rt)"
      using setPosition_refines[OF inv] by blast
    then show ?thesis using True eq r' D(10) by simp
  next
    case False
    then show ?thesis using eq r' inv by (simp add: prod_eq_iff)
  qed
qed

text \<open>
  Reading into a byte array through the scatter buffers is the same as receiving the bytes and writing them at the
  position, and writing from one is the same as sending the pending bytes and advancing by as many as were taken: on a
  connected socket neither faults, the array stays well formed, and its contents change only where bytes were received.\<close>

theorem stream_bytearray:
  assumes "ba_inv ba" "sk_isConnected s"
  shows "(\<exists>rt bs ba' s'. SocketStream_read_ba len ba s = Inr (rt, ba', s') \<and> SocketStream_read len s = (rt, bs, s') \<and>
      ba_inv ba' \<and> ba_abs ba' = (if 0 < rt then spec_write bs (ba_abs ba) else ba_abs ba)) \<and>
    (\<exists>rt ba' s'. SocketStream_write_ba len ba s = Inr (rt, ba', s') \<and>
      SocketStream_write (take len (drop (snd (ba_abs ba)) (fst (ba_abs ba)))) s = (rt, s') \<and>
      ba_inv ba' \<and> ba_abs ba' = (fst (ba_abs ba), snd (ba_abs ba) + nat rt))"
  using read_ba_spec[OF assms] write_ba_spec[OF assms] by blast

definition sample_socket :: "'b list \<Rightarrow> 'b list \<Rightarrow> 'b socket" where
  "sample_socket xs ys = \<lparr>sk_open = True, sk_isConnected = True, sk_in = [Data xs, Data ys], sk_sends = [2, 1], sk_out = []\<rparr>"

theorem stream_bytearray_witness:
  "\<exists>ba' s'. SocketStream_read_ba 5 (ByteArray_new 2) (sample_socket [7, 8, 9] [1]) = Inr (3, ba', s') \<and>
     ba_abs ba' = ([7, 8, 9], 3)"
proof -
  have r: "SocketStream_read 5 (sample_socket [7, 8, 9 :: byte] [1]) =
      (3, [7, 8, 9], (sample_socket [7, 8, 9] [1])\<lparr>sk_in := [Data [1]]\<rparr>)"
    by (simp add: SocketStream_read_def Socket_recv_def sample_socket_def)
  have "ba_abs (ByteArray_new 2) = ([], 0)" by (simp add: ba_abs_def ByteArray_new_def)
  then show ?thesis
    using stream_bytearray[OF ba_inv_new[of 2], of "sample_socket [7, 8, 9] [1]" 5, THEN conjunct1]
    unfolding r by (auto simp: sample_socket_def spec_write_def overwrite_def)
qed

text \<open>
  Reading and writing of a fixed number of bytes on a socket, however the bytes arrive and however many each call
  takes: a positive result is the full length, and then exactly the next bytes of the connection were read, or
  exactly the given bytes were sent; otherwise fewer were, and they are a beginning of what was asked for.\<close>

theorem fixed_size_transfer:
  assumes "0 < len" "buf \<noteq> []"
  shows "(case readFixSize SocketStream_read len s of (r, out, s') \<Rightarrow>
      if 0 < r then r = int len \<and> length out = len \<and> to_come s = out @ to_come s'
      else length out < len \<and> prefix out (to_come s)) \<and>
    (case writeFixSize SocketStream_write buf s of (r, s') \<Rightarrow>
      if 0 < r then r = int (length buf) \<and> sk_out s' = sk_out s @ buf
      else \<exists>k < length buf. sk_out s' = sk_out s @ take k buf)"
  using socket_reader.readFixSize_ok[of len s] socket_writer.writeFixSize_ok[of buf s] assms
  by (auto split: prod.splits)

theorem fixed_size_transfer_witness:
  "fst (readFixSize SocketStream_read 4 (sample_socket ''abc'' ''de'')) = 4 \<and>
   (case readFixSize SocketStream_read 4 (sample_socket ''abc'' ''de'') of (r, out, s') \<Rightarrow>
      length out = 4 \<and> ''abcde'' = out @ to_come s')"
proof -
  have "fst (readFixSize SocketStream_read 4 (sample_socket ''abc'' ''de'')) = 4" by code_simp
  then show ?thesis
    using fixed_size_transfer[of 4 "''x''" "sample_socket ''abc'' ''de''", THEN conjunct1]
    by (auto simp: to_come_def sample_socket_def split: prod.splits)
qed

end
