(* ===== verification/StreamFix.thy ===== *)
theory StreamFix
  imports SocketStream
begin

text \<open>
  The versions of \<open>Stream::readFixSize\<close> and \<open>Stream::writeFixSize\<close> for byte arrays (\<open>stream.cc\<close>) over a socket stream, and the life of the stream object
  (\<open>streams/socket_stream.cc\<close>), which may or may not own its socket.
\<close>

section \<open>The stream object\<close>

record 'b SocketStream =
  ss_socket :: "'b socket option"
  ss_owner :: bool

definition SocketStream_new :: "'b socket option \<Rightarrow> bool \<Rightarrow> 'b SocketStream" where
  "SocketStream_new sock owner = \<lparr>ss_socket = sock, ss_owner = owner\<rparr>"

definition SocketStream_isConnected :: "'b SocketStream \<Rightarrow> bool" where
  "SocketStream_isConnected st = (case ss_socket st of None \<Rightarrow> False | Some s \<Rightarrow> sk_isConnected s)"

text \<open>What is left of the socket when the stream is destroyed.\<close>

definition SocketStream_delete :: "'b SocketStream \<Rightarrow> 'b socket option" where
  "SocketStream_delete st = (if ss_owner st then map_option Socket_close (ss_socket st) else ss_socket st)"

section \<open>Fixed sizes through a byte array\<close>

function readFixSize_ba_loop :: "int \<Rightarrow> int \<Rightarrow> bytearray \<Rightarrow> byte socket \<Rightarrow> (int \<times> bytearray \<times> byte socket) res" where
  "readFixSize_ba_loop len left ba s =
     (if left > 0
      then case SocketStream_read_ba (nat left) ba s of
             Inl e \<Rightarrow> Inl e
           | Inr (r, ba1, s1) \<Rightarrow> if r \<le> 0 then Inr (r, ba1, s1) else readFixSize_ba_loop len (left - r) ba1 s1
      else Inr (len, ba, s))"
  by pat_completeness auto
termination
  by (relation "measure (\<lambda>(len, left, ba, s). nat left)") auto

declare readFixSize_ba_loop.simps [simp del]

definition readFixSize_ba :: "nat \<Rightarrow> bytearray \<Rightarrow> byte socket \<Rightarrow> (int \<times> bytearray \<times> byte socket) res" where
  "readFixSize_ba len ba s = readFixSize_ba_loop (int len) (int len) ba s"

function writeFixSize_ba_loop :: "int \<Rightarrow> int \<Rightarrow> bytearray \<Rightarrow> byte socket \<Rightarrow> (int \<times> bytearray \<times> byte socket) res" where
  "writeFixSize_ba_loop len left ba s =
     (if left > 0
      then case SocketStream_write_ba (nat left) ba s of
             Inl e \<Rightarrow> Inl e
           | Inr (r, ba1, s1) \<Rightarrow> if r \<le> 0 then Inr (r, ba1, s1) else writeFixSize_ba_loop len (left - r) ba1 s1
      else Inr (len, ba, s))"
  by pat_completeness auto
termination
  by (relation "measure (\<lambda>(len, left, ba, s). nat left)") auto

declare writeFixSize_ba_loop.simps [simp del]

definition writeFixSize_ba :: "nat \<Rightarrow> bytearray \<Rightarrow> byte socket \<Rightarrow> (int \<times> bytearray \<times> byte socket) res" where
  "writeFixSize_ba len ba s = writeFixSize_ba_loop (int len) (int len) ba s"

section \<open>The loops agree with those for buffers\<close>

lemma spec_write_Nil [simp]: "spec_write [] c = c"
  by (simp add: spec_write_def)

lemma ba_abs_cursor: "ba_inv ba \<Longrightarrow> snd (ba_abs ba) \<le> length (fst (ba_abs ba))"
  using ba_invD(5,9,10)[of ba] by simp

text \<open>One round, on any socket.\<close>

lemma read_ba_round:
  assumes "ba_inv ba"
  shows "\<exists>rt bs ba' s'. SocketStream_read_ba len ba s = Inr (rt, ba', s') \<and> SocketStream_read len s = (rt, bs, s') \<and>
    ba_inv ba' \<and> ba_abs ba' = (if 0 < rt then spec_write bs (ba_abs ba) else ba_abs ba)"
proof (cases "sk_isConnected s")
  case False
  then show ?thesis using assms by (simp add: SocketStream_read_ba_def SocketStream_read_def)
qed (rule read_ba_spec[OF assms])

lemma write_ba_round:
  assumes "ba_inv ba"
  shows "\<exists>rt ba' s'. SocketStream_write_ba len ba s = Inr (rt, ba', s') \<and>
    SocketStream_write (take len (drop (snd (ba_abs ba)) (fst (ba_abs ba)))) s = (rt, s') \<and>
    ba_inv ba' \<and> ba_abs ba' = (fst (ba_abs ba), snd (ba_abs ba) + nat rt)"
proof (cases "sk_isConnected s")
  case False
  then show ?thesis using assms by (simp add: SocketStream_write_ba_def SocketStream_write_def)
qed (rule write_ba_spec[OF assms])

lemma readFixSize_ba_loop_eq:
  "ba_inv ba \<Longrightarrow> \<exists>r bs ba' s'. readFixSize_ba_loop len left ba s = Inr (r, ba', s') \<and>
     readFixSize_loop SocketStream_read len left acc s = (r, acc @ bs, s') \<and> ba_inv ba' \<and> ba_abs ba' = spec_write bs (ba_abs ba)"
proof (induction "nat left" arbitrary: left ba s acc rule: less_induct)
  case less
  show ?case
  proof (cases "left > 0")
    case False
    then show ?thesis using less.prems by (simp add: readFixSize_ba_loop.simps readFixSize_loop.simps)
  next
    case left: True
    obtain q bs1 ba1 s1 where q: "SocketStream_read_ba (nat left) ba s = Inr (q, ba1, s1)" "SocketStream_read (nat left) s = (q, bs1, s1)"
        "ba_inv ba1" "ba_abs ba1 = (if 0 < q then spec_write bs1 (ba_abs ba) else ba_abs ba)"
      using read_ba_round[OF less.prems] by blast
    show ?thesis
    proof (cases "q \<le> 0")
      case True
      then show ?thesis using left q by (simp add: readFixSize_ba_loop.simps readFixSize_loop.simps)
    next
      case False
      then have "nat (left - q) < nat left" using left by simp
      from less.hyps[OF this q(3), of s1 "acc @ bs1"] obtain r bs ba' s' where
        ih: "readFixSize_ba_loop len (left - q) ba1 s1 = Inr (r, ba', s')"
          "readFixSize_loop SocketStream_read len (left - q) (acc @ bs1) s1 = (r, acc @ bs1 @ bs, s')"
          "ba_inv ba'" "ba_abs ba' = spec_write bs (ba_abs ba1)" by auto
      have "ba_abs ba' = spec_write (bs1 @ bs) (ba_abs ba)"
        using ih(4) q(4) False spec_write_append[OF ba_abs_cursor[OF less.prems]] by simp
      then show ?thesis using ih(1-3) left False q(1,2)
        by (simp add: readFixSize_ba_loop.simps[of len left] readFixSize_loop.simps[of _ len left])
    qed
  qed
qed

lemma writeFixSize_ba_loop_eq:
  "ba_inv ba \<Longrightarrow> \<exists>r ba' s'. writeFixSize_ba_loop len left ba s = Inr (r, ba', s') \<and>
     writeFixSize_loop SocketStream_write len left (take (nat left) (drop (snd (ba_abs ba)) (fst (ba_abs ba)))) s = (r, s') \<and>
     ba_inv ba' \<and> fst (ba_abs ba') = fst (ba_abs ba) \<and> length (sk_out s) \<le> length (sk_out s') \<and>
     snd (ba_abs ba') = snd (ba_abs ba) + (length (sk_out s') - length (sk_out s))"
proof (induction "nat left" arbitrary: left ba s rule: less_induct)
  case less
  show ?case
  proof (cases "left > 0")
    case False
    then show ?thesis using less.prems by (simp add: writeFixSize_ba_loop.simps writeFixSize_loop.simps)
  next
    case left: True
    let ?bs = "take (nat left) (drop (snd (ba_abs ba)) (fst (ba_abs ba)))"
    obtain q ba1 s1 where q: "SocketStream_write_ba (nat left) ba s = Inr (q, ba1, s1)" "SocketStream_write ?bs s = (q, s1)"
        "ba_inv ba1" "ba_abs ba1 = (fst (ba_abs ba), snd (ba_abs ba) + nat q)"
      using write_ba_round[OF less.prems] by blast
    show ?thesis
    proof (cases "q \<le> 0")
      case True
      have "sk_out s1 = sk_out s" using q(2) True by (auto simp: SocketStream_write_def Socket_send_def split: if_splits list.splits)
      then show ?thesis using True left q by (simp add: writeFixSize_ba_loop.simps writeFixSize_loop.simps)
    next
      case False
      then have "nat (left - q) < nat left" using left by simp
      from less.hyps[OF this q(3), of s1] obtain r ba' s' where
        ih: "writeFixSize_ba_loop len (left - q) ba1 s1 = Inr (r, ba', s')"
          "writeFixSize_loop SocketStream_write len (left - q) (take (nat (left - q)) (drop (snd (ba_abs ba1)) (fst (ba_abs ba1)))) s1 = (r, s')"
          "ba_inv ba'" "fst (ba_abs ba') = fst (ba_abs ba1)" "length (sk_out s1) \<le> length (sk_out s')"
          "snd (ba_abs ba') = snd (ba_abs ba1) + (length (sk_out s') - length (sk_out s1))" by blast
      have rest: "take (nat (left - q)) (drop (snd (ba_abs ba1)) (fst (ba_abs ba1))) = drop (nat q) ?bs"
        using q(4) False nat_diff_distrib[of q left] nat_diff_distrib'[of left q] left by (simp add: drop_take add.commute)
      have e: "q \<le> int (length ?bs) \<and> sk_out s1 = sk_out s @ take (nat q) ?bs" using SocketStream_write_effect(1)[OF q(2)] False by simp
      then have n: "nat q \<le> length ?bs" by linarith
      have out: "length (sk_out s1) = length (sk_out s) + nat q"
        unfolding conjunct2[OF e] length_append length_take[of "nat q"] using n by simp
      have "writeFixSize_ba_loop len left ba s = Inr (r, ba', s')"
        using ih(1) left False q(1) by (simp add: writeFixSize_ba_loop.simps[of len left])
      moreover have "writeFixSize_loop SocketStream_write len left ?bs s = (r, s')"
        using ih(2)[unfolded rest] left False q(2) by (simp add: writeFixSize_loop.simps[of _ len left])
      ultimately show ?thesis using ih(3-6) q(4) out by simp
    qed
  qed
qed

text \<open>
  C35: Transferring a fixed number of bytes through a byte array is the same as through a buffer, on any socket and however the bytes arrive: the
  loops end without a fault and with the same result; what a buffer would have received is written at the position, and what is sent are the
  pending bytes from the position, which advances by exactly the number of bytes sent while the contents stay.\<close>

theorem fixed_size_bytearray:
  assumes "ba_inv ba"
  shows "(\<exists>r bs ba' s'. readFixSize_ba len ba s = Inr (r, ba', s') \<and> readFixSize SocketStream_read len s = (r, bs, s') \<and>
      ba_inv ba' \<and> ba_abs ba' = spec_write bs (ba_abs ba)) \<and>
    (len \<le> length (fst (ba_abs ba)) - snd (ba_abs ba) \<longrightarrow>
      (\<exists>r ba' s'. writeFixSize_ba len ba s = Inr (r, ba', s') \<and>
        writeFixSize SocketStream_write (take len (drop (snd (ba_abs ba)) (fst (ba_abs ba)))) s = (r, s') \<and> ba_inv ba' \<and>
        ba_abs ba' = (fst (ba_abs ba), snd (ba_abs ba) + (length (sk_out s') - length (sk_out s)))))"
proof (intro conjI impI)
  show "\<exists>r bs ba' s'. readFixSize_ba len ba s = Inr (r, ba', s') \<and> readFixSize SocketStream_read len s = (r, bs, s') \<and>
      ba_inv ba' \<and> ba_abs ba' = spec_write bs (ba_abs ba)"
    using readFixSize_ba_loop_eq[OF assms, of "int len" "int len" s "[]"] by (simp add: readFixSize_ba_def readFixSize_def)
next
  let ?bs = "take len (drop (snd (ba_abs ba)) (fst (ba_abs ba)))"
  assume "len \<le> length (fst (ba_abs ba)) - snd (ba_abs ba)"
  then have l: "length ?bs = len" by simp
  from writeFixSize_ba_loop_eq[OF assms, of "int len" "int len" s]
  show "\<exists>r ba' s'. writeFixSize_ba len ba s = Inr (r, ba', s') \<and> writeFixSize SocketStream_write ?bs s = (r, s') \<and> ba_inv ba' \<and>
      ba_abs ba' = (fst (ba_abs ba), snd (ba_abs ba) + (length (sk_out s') - length (sk_out s)))"
    unfolding writeFixSize_ba_def writeFixSize_def l by (auto simp: prod_eq_iff)
qed

theorem fixed_size_bytearray_witness:
  "\<exists>ba' s'. readFixSize_ba 4 (ByteArray_new 2) (sample_socket [7, 8, 9] [1, 2]) = Inr (4, ba', s') \<and> ba_abs ba' = ([7, 8, 9, 1], 4)"
proof -
  have r: "readFixSize SocketStream_read 4 (sample_socket [7, 8, 9 :: byte] [1, 2]) =
      (4, [7, 8, 9, 1], (sample_socket [7, 8, 9] [1, 2])\<lparr>sk_in := [Data [2]]\<rparr>)"
    by (simp add: readFixSize_def readFixSize_loop.simps SocketStream_read_def Socket_recv_def sample_socket_def)
  have "ba_abs (ByteArray_new 2) = ([], 0)" by (simp add: ba_abs_def ByteArray_new_def)
  then show ?thesis
    using fixed_size_bytearray[OF ba_inv_new[of 2], THEN conjunct1, of 4 "sample_socket [7, 8, 9] [1, 2]"]
    unfolding r by (auto simp: spec_write_def overwrite_def)
qed

text \<open>
  Asked for more than is pending, the loop sends what there is and then sends nothing: unless the connection fails, its result is zero, as if the
  peer had closed.
\<close>

lemma write_more_than_pending:
  assumes "ba_inv ba" "snd (ba_abs ba) = length (fst (ba_abs ba))" "0 < len" "sk_isConnected s" "sk_sends s = []"
  shows "\<exists>ba'. writeFixSize_ba len ba s = Inr (0, ba', s)"
proof -
  from writeFixSize_ba_loop_eq[OF assms(1), of "int len" "int len" s] obtain r ba' s' where
    w: "writeFixSize_ba len ba s = Inr (r, ba', s')" "writeFixSize_loop SocketStream_write (int len) (int len) [] s = (r, s')"
    using assms(2) by (auto simp: writeFixSize_ba_def)
  have "r = 0" "s' = s" using w(2) assms(3-5) by (auto simp: writeFixSize_loop.simps SocketStream_write_def Socket_send_def)
  then show ?thesis using w(1) by blast
qed

lemma stream_owner:
  "SocketStream_delete (SocketStream_new (Some s) True) = Some s' \<Longrightarrow> \<not> sk_open s' \<and> \<not> sk_isConnected s'"
  "SocketStream_delete (SocketStream_new sock False) = sock"
  by (auto simp: SocketStream_delete_def SocketStream_new_def Socket_close_def split: if_splits)

end
