(* ===== verification/StringUtil.thy ===== *)
theory StringUtil
  imports HttpChars
begin

text \<open>
  The string functions of \<open>util.cc\<close>: URL encoding and decoding, trimming, letter case and
  the splitting of path names. The encoder and the decoder keep the source's lazily created result:
  \<open>None\<close> stands for the null pointer that means that the input is still unchanged.
\<close>

section \<open>Tables\<close>

definition uri_chars :: "nat list" where
  "uri_chars =
     [0, 0, 0, 0, 0, 0, 0, 0,   0, 0, 0, 0, 0, 0, 0, 0] @
     [0, 0, 0, 0, 0, 0, 0, 0,   0, 0, 0, 0, 0, 0, 0, 0] @
     [0, 0, 0, 0, 0, 0, 0, 0,   0, 0, 0, 0, 0, 1, 1, 0] @
     [1, 1, 1, 1, 1, 1, 1, 1,   1, 1, 0, 0, 0, 1, 0, 0] @
     [0, 1, 1, 1, 1, 1, 1, 1,   1, 1, 1, 1, 1, 1, 1, 1] @
     [1, 1, 1, 1, 1, 1, 1, 1,   1, 1, 1, 0, 0, 0, 0, 1] @
     [0, 1, 1, 1, 1, 1, 1, 1,   1, 1, 1, 1, 1, 1, 1, 1] @
     [1, 1, 1, 1, 1, 1, 1, 1,   1, 1, 1, 0, 0, 0, 1, 0] @
     replicate 128 0"

definition xdigit_chars :: "nat list" where
  "xdigit_chars =
     replicate 48 0 @
     [0, 1, 2, 3, 4, 5, 6, 7, 8, 9, 0, 0, 0, 0, 0, 0] @
     [0, 10, 11, 12, 13, 14, 15, 0, 0, 0, 0, 0, 0, 0, 0, 0] @
     replicate 16 0 @
     [0, 10, 11, 12, 13, 14, 15, 0, 0, 0, 0, 0, 0, 0, 0, 0] @
     replicate 144 0"

definition CHAR_IS_UNRESERVED :: "char \<Rightarrow> bool" where
  "CHAR_IS_UNRESERVED c \<longleftrightarrow> uri_chars ! ord_of c \<noteq> 0"

definition hexdigits :: string where
  "hexdigits = ''0123456789ABCDEF''"

text \<open>\<open>isxdigit\<close> of the C library, in the C locale.\<close>

definition isxdigit :: "char \<Rightarrow> bool" where
  "isxdigit c \<longleftrightarrow> in_range (CHR ''0'') (CHR ''9'') c \<or> in_range (CHR ''a'') (CHR ''f'') c \<or>
     in_range (CHR ''A'') (CHR ''F'') c"

section \<open>URL encoding\<close>

definition append_to :: "string option \<Rightarrow> string \<Rightarrow> string \<Rightarrow> string option" where
  "append_to ss before t = Some ((case ss of None \<Rightarrow> before | Some s \<Rightarrow> s) @ t)"

text \<open>\<open>before\<close> is the part of the input already passed, reversed.\<close>

fun encode_loop :: "bool \<Rightarrow> string \<Rightarrow> string \<Rightarrow> string option \<Rightarrow> string option" where
  "encode_loop space_as_plus before [] ss = ss"
| "encode_loop space_as_plus before (c # cs) ss =
     encode_loop space_as_plus (c # before) cs
       (if \<not> CHAR_IS_UNRESERVED c
        then if c = SP \<and> space_as_plus then append_to ss (rev before) ''+''
             else append_to ss (rev before) [CHR ''%'', hexdigits ! (ord_of c div 16), hexdigits ! (ord_of c mod 16)]
        else map_option (\<lambda>s. s @ [c]) ss)"

definition UrlEncode :: "string \<Rightarrow> bool \<Rightarrow> string" where
  "UrlEncode str space_as_plus = (case encode_loop space_as_plus [] str None of None \<Rightarrow> str | Some s \<Rightarrow> s)"

section \<open>URL decoding\<close>

definition xdigit_val :: "char \<Rightarrow> nat" where
  "xdigit_val c = xdigit_chars ! ord_of c"

fun decode_loop :: "bool \<Rightarrow> string \<Rightarrow> string \<Rightarrow> string option \<Rightarrow> string option" where
  "decode_loop space_as_plus before [] ss = ss"
| "decode_loop space_as_plus before (c # cs) ss =
     (if c = CHR ''+'' \<and> space_as_plus
      then decode_loop space_as_plus (c # before) cs (append_to ss (rev before) [SP])
      else case cs of
        a # b # rest \<Rightarrow>
          if c = CHR ''%'' \<and> isxdigit a \<and> isxdigit b
          then decode_loop space_as_plus (b # a # c # before) rest
                 (append_to ss (rev before) [char_of (xdigit_val a * 16 OR xdigit_val b)])
          else decode_loop space_as_plus (c # before) cs (map_option (\<lambda>s. s @ [c]) ss)
      | _ \<Rightarrow> decode_loop space_as_plus (c # before) cs (map_option (\<lambda>s. s @ [c]) ss))"

definition UrlDecode :: "string \<Rightarrow> bool \<Rightarrow> string" where
  "UrlDecode str space_as_plus = (case decode_loop space_as_plus [] str None of None \<Rightarrow> str | Some s \<Rightarrow> s)"

section \<open>Trimming\<close>

text \<open>\<open>std::string::npos\<close> is \<open>None\<close>.\<close>

fun find_first_not_of :: "string \<Rightarrow> string \<Rightarrow> nat option" where
  "find_first_not_of [] delimit = None"
| "find_first_not_of (c # cs) delimit =
     (if c \<in> set delimit then map_option Suc (find_first_not_of cs delimit) else Some 0)"

definition find_last_not_of :: "string \<Rightarrow> string \<Rightarrow> nat option" where
  "find_last_not_of s delimit = map_option (\<lambda>i. length s - 1 - i) (find_first_not_of (rev s) delimit)"

definition substr :: "string \<Rightarrow> nat \<Rightarrow> nat \<Rightarrow> string" where
  "substr s i n = take n (drop i s)"

definition Trim :: "string \<Rightarrow> string \<Rightarrow> string" where
  "Trim str delimit =
     (case find_first_not_of str delimit of
        None \<Rightarrow> []
      | Some b \<Rightarrow> (case find_last_not_of str delimit of None \<Rightarrow> [] | Some e \<Rightarrow> substr str b (e - b + 1)))"

definition TrimLeft :: "string \<Rightarrow> string \<Rightarrow> string" where
  "TrimLeft str delimit = (case find_first_not_of str delimit of None \<Rightarrow> [] | Some b \<Rightarrow> drop b str)"

definition TrimRight :: "string \<Rightarrow> string \<Rightarrow> string" where
  "TrimRight str delimit = (case find_last_not_of str delimit of None \<Rightarrow> [] | Some e \<Rightarrow> substr str 0 e)"

definition default_delimit :: string where
  "default_delimit = [SP, TAB, CR, LF]"

section \<open>Letter case\<close>

definition tolower :: "char \<Rightarrow> char" where
  "tolower c = (if in_range (CHR ''A'') (CHR ''Z'') c then char_of (ord_of c + 32) else c)"

definition toupper :: "char \<Rightarrow> char" where
  "toupper c = (if in_range (CHR ''a'') (CHR ''z'') c then char_of (ord_of c - 32) else c)"

definition ToUpper :: "string \<Rightarrow> string" where
  "ToUpper name = map toupper name"

definition ToLower :: "string \<Rightarrow> string" where
  "ToLower name = map tolower name"

section \<open>Path names\<close>

fun rfind :: "char \<Rightarrow> string \<Rightarrow> nat option" where
  "rfind c [] = None"
| "rfind c (x # xs) =
     (case rfind c xs of Some i \<Rightarrow> Some (Suc i) | None \<Rightarrow> if x = c then Some 0 else None)"

definition Dirname :: "string \<Rightarrow> string" where
  "Dirname filename =
     (if filename = [] then ''.''
      else case rfind (CHR ''/'') filename of
             Some p \<Rightarrow> if p = 0 then ''/'' else substr filename 0 p
           | None \<Rightarrow> ''.'')"

definition Basename :: "string \<Rightarrow> string" where
  "Basename filename =
     (if filename = [] then filename
      else case rfind (CHR ''/'') filename of None \<Rightarrow> filename | Some p \<Rightarrow> drop (p + 1) filename)"

section \<open>Encoding and decoding are inverse\<close>

definition result_of :: "string \<Rightarrow> string option \<Rightarrow> string" where
  "result_of unchanged ss = (case ss of None \<Rightarrow> unchanged | Some s \<Rightarrow> s)"

lemma result_of_simps [simp]:
  "result_of u None = u" "result_of u (Some s) = s"
  "result_of u (append_to ss before t) = result_of before ss @ t"
  by (simp_all add: result_of_def append_to_def)

lemma result_of_copy: "result_of (u @ [c]) (map_option (\<lambda>s. s @ [c]) ss) = result_of u ss @ [c]"
  by (cases ss) simp_all

text \<open>What one character becomes, without the lazy result.\<close>

definition encode_char :: "bool \<Rightarrow> char \<Rightarrow> string" where
  "encode_char sp c =
     (if CHAR_IS_UNRESERVED c then [c]
      else if c = SP \<and> sp then ''+''
      else [CHR ''%'', hexdigits ! (ord_of c div 16), hexdigits ! (ord_of c mod 16)])"

lemma encode_loop_eq:
  "result_of (rev before @ cs) (encode_loop sp before cs ss) =
   result_of (rev before) ss @ concat (map (encode_char sp) cs)"
proof (induction cs arbitrary: before ss)
  case (Cons c cs)
  then show ?case
    using result_of_copy[of "rev before" c ss] Cons.IH[of "c # before"] by (simp add: encode_char_def)
qed simp

lemma UrlEncode_eq: "UrlEncode str sp = concat (map (encode_char sp) str)"
  using encode_loop_eq[where sp = sp and before = "[]" and cs = str and ss = None]
  by (simp add: UrlEncode_def result_of_def)

fun decode_chars :: "bool \<Rightarrow> string \<Rightarrow> string" where
  "decode_chars sp [] = []"
| "decode_chars sp (c # cs) =
     (if c = CHR ''+'' \<and> sp then SP # decode_chars sp cs
      else case cs of
        a # b # rest \<Rightarrow>
          if c = CHR ''%'' \<and> isxdigit a \<and> isxdigit b
          then char_of (xdigit_val a * 16 OR xdigit_val b) # decode_chars sp rest
          else c # decode_chars sp cs
      | _ \<Rightarrow> c # decode_chars sp cs)"

declare decode_loop.simps(2) [simp del] decode_chars.simps(2) [simp del]

lemma decode_hex:
  "isxdigit a \<Longrightarrow> isxdigit b \<Longrightarrow>
   decode_chars sp (CHR ''%'' # a # b # r) = char_of (xdigit_val a * 16 OR xdigit_val b) # decode_chars sp r"
  "isxdigit a \<Longrightarrow> isxdigit b \<Longrightarrow>
   decode_loop sp before (CHR ''%'' # a # b # r) ss =
   decode_loop sp (b # a # CHR ''%'' # before) r (append_to ss (rev before) [char_of (xdigit_val a * 16 OR xdigit_val b)])"
  by (simp_all add: decode_loop.simps(2)[of sp before "CHR ''%''"] decode_chars.simps(2)[of sp "CHR ''%''"])

lemma decode_loop_eq:
  "result_of (rev before @ cs) (decode_loop sp before cs ss) = result_of (rev before) ss @ decode_chars sp cs"
proof (induction cs arbitrary: before ss rule: length_induct)
  case (1 cs)
  have IH: "result_of (rev b @ xs) (decode_loop sp b xs s) = result_of (rev b) s @ decode_chars sp xs"
    if "length xs < length cs" for b xs s using 1 that by blast
  show ?case
  proof (cases cs)
    case (Cons c rest)
    have copy: "result_of (rev before @ [c]) (map_option (\<lambda>s. s @ [c]) ss) = result_of (rev before) ss @ [c]"
      by (rule result_of_copy)
    note one = IH[of rest "c # before"]
    show ?thesis
    proof (cases "\<exists>a b r. rest = a # b # r \<and> c = CHR ''%'' \<and> isxdigit a \<and> isxdigit b")
      case True
      then obtain a b r where "rest = a # b # r" "c = CHR ''%''" "isxdigit a" "isxdigit b" by blast
      then show ?thesis using IH[of r "b # a # c # before"] Cons by (simp add: decode_hex)
    next
      case False
      then have "decode_loop sp before cs ss =
          decode_loop sp (c # before) rest (if c = CHR ''+'' \<and> sp then append_to ss (rev before) [SP]
            else map_option (\<lambda>s. s @ [c]) ss)"
        "decode_chars sp cs = (if c = CHR ''+'' \<and> sp then SP else c) # decode_chars sp rest"
        unfolding Cons decode_loop.simps(2)[of sp before c rest ss] decode_chars.simps(2)[of sp c rest]
        by (auto split: list.split)
      then show ?thesis using one copy Cons by simp
    qed
  qed simp
qed

lemma UrlDecode_eq: "UrlDecode str sp = decode_chars sp str"
  using decode_loop_eq[where sp = sp and before = "[]" and cs = str and ss = None]
  by (simp add: UrlDecode_def result_of_def)

lemma isxdigit_hexdigits: "n < 16 \<Longrightarrow> isxdigit (hexdigits ! n)"
proof -
  have "\<forall>n \<in> set [0..<16]. isxdigit (hexdigits ! n)" by code_simp
  then show "n < 16 \<Longrightarrow> isxdigit (hexdigits ! n)" by simp
qed

lemma xdigit_val_hexdigits: "n < 16 \<Longrightarrow> xdigit_val (hexdigits ! n) = n"
proof -
  have "\<forall>n \<in> set [0..<16]. xdigit_val (hexdigits ! n) = n" by code_simp
  then show "n < 16 \<Longrightarrow> xdigit_val (hexdigits ! n) = n" by simp
qed

lemma or_hex: "a < 16 \<Longrightarrow> b < 16 \<Longrightarrow> a * 16 OR b = a * 16 + (b :: nat)"
proof -
  have "\<forall>a \<in> set [0..<16]. \<forall>b \<in> set [0..<16]. a * 16 OR b = a * 16 + (b :: nat)" by code_simp
  then show "a < 16 \<Longrightarrow> b < 16 \<Longrightarrow> a * 16 OR b = a * 16 + (b :: nat)" by simp
qed

lemma decode_chars_hex:
  "m < 16 \<Longrightarrow> n < 16 \<Longrightarrow>
   decode_chars sp (CHR ''%'' # hexdigits ! m # hexdigits ! n # rest) = char_of (m * 16 + n) # decode_chars sp rest"
  by (simp add: decode_hex isxdigit_hexdigits xdigit_val_hexdigits or_hex)

lemma decode_chars_plain:
  "c \<noteq> CHR ''%'' \<Longrightarrow> c \<noteq> CHR ''+'' \<Longrightarrow> decode_chars sp (c # rest) = c # decode_chars sp rest"
  by (simp add: decode_chars.simps(2)[of sp c rest] split: list.split)

lemma decode_encode_char:
  "decode_chars sp (encode_char sp c @ rest) = c # decode_chars sp rest"
proof -
  have "\<not> CHAR_IS_UNRESERVED (CHR ''+'')" "\<not> CHAR_IS_UNRESERVED (CHR ''%'')" by code_simp+
  then have plain: "decode_chars sp (c # rest) = c # decode_chars sp rest" if "CHAR_IS_UNRESERVED c"
    using that by (intro decode_chars_plain) auto
  have ord: "ord_of c div 16 < 16" "ord_of c mod 16 < 16" using ord_of_less[of c] by simp_all
  have "char_of (ord_of c div 16 * 16 + ord_of c mod 16) = c" by (simp add: ord_of_def)
  then show ?thesis
    using plain decode_chars_hex[OF ord] by (simp add: encode_char_def decode_chars.simps(2)[of True "CHR ''+''"])
qed

lemma decode_encode: "UrlDecode (UrlEncode str sp) sp = str"
proof -
  have "decode_chars sp (concat (map (encode_char sp) str)) = str"
    by (induction str) (simp_all add: decode_encode_char)
  then show ?thesis by (simp add: UrlDecode_eq UrlEncode_eq)
qed

text \<open>
  C31: \<open>UrlDecode\<close> gives back every string, of any bytes, that \<open>UrlEncode\<close> encoded with the
  same choice of the plus sign for the space.\<close>

theorem url_roundtrip: "UrlDecode (UrlEncode str sp) sp = str"
  by (rule decode_encode)

text \<open>The characters listed in the comment before \<open>UrlEncode\<close>.\<close>

definition unreserved :: "char \<Rightarrow> bool" where
  "unreserved c \<longleftrightarrow> in_range (CHR ''0'') (CHR ''9'') c \<or> in_range (CHR ''A'') (CHR ''Z'') c \<or>
     in_range (CHR ''a'') (CHR ''z'') c \<or> c \<in> set ''-._~''"

lemma CHAR_IS_UNRESERVED_iff: "CHAR_IS_UNRESERVED c \<longleftrightarrow> unreserved c \<or> c = CHR ''=''"
proof -
  have "list_all2 (\<lambda>c v. v \<noteq> 0 \<longleftrightarrow> unreserved c \<or> c = CHR ''='') all_chars uri_chars" by code_simp
  then show ?thesis unfolding CHAR_IS_UNRESERVED_def by (rule table_lookup)
qed

text \<open>What the encoder writes: only unreserved characters, the equals sign, the plus sign and percent escapes.\<close>

lemma UrlEncode_chars:
  assumes "c \<in> set (UrlEncode str sp)"
  shows "CHAR_IS_UNRESERVED c \<or> c = CHR ''+'' \<or> c = CHR ''%''"
proof -
  have hex: "CHAR_IS_UNRESERVED (hexdigits ! n)" if "n < 16" for n
  proof -
    have "\<forall>n \<in> set [0..<16]. CHAR_IS_UNRESERVED (hexdigits ! n)" by code_simp
    then show ?thesis using that by simp
  qed
  from assms obtain d where "c \<in> set (encode_char sp d)" by (auto simp: UrlEncode_eq)
  then show ?thesis using ord_of_less[of d] by (auto simp: encode_char_def hex split: if_splits)
qed

text \<open>
  the text \<open>UrlEncode\<close> writes never has an ampersand, a hash sign or a space in it, so an
  encoded value can stand in a query string.\<close>

theorem UrlEncode_query_safe:
  "set (UrlEncode str sp) \<inter> set ''&# ;/?'' = {}"
proof -
  have "list_all (\<lambda>c. \<not> CHAR_IS_UNRESERVED c) ''&# ;/?''" by code_simp
  then show ?thesis using UrlEncode_chars[of _ str sp] by (fastforce simp: list_all_iff)
qed

section \<open>Trimming\<close>

lemma find_first_not_of_eq:
  "find_first_not_of s d =
   (if set s \<subseteq> set d then None else Some (length (takeWhile (\<lambda>c. c \<in> set d) s)))"
  by (induction s) auto

lemma takeWhile_take: "takeWhile P (take n xs) = take n (takeWhile P xs)"
proof (induction xs arbitrary: n)
  case (Cons x xs)
  then show ?case by (cases n) simp_all
qed simp

definition strip_left :: "string \<Rightarrow> string \<Rightarrow> string" where
  "strip_left d s = dropWhile (\<lambda>c. c \<in> set d) s"

definition strip_right :: "string \<Rightarrow> string \<Rightarrow> string" where
  "strip_right d s = rev (dropWhile (\<lambda>c. c \<in> set d) (rev s))"

lemma strip_left_Nil: "strip_left d s = [] \<longleftrightarrow> set s \<subseteq> set d"
  by (auto simp: strip_left_def)

lemma strip_right_Nil: "strip_right d s = [] \<longleftrightarrow> set s \<subseteq> set d"
  by (auto simp: strip_right_def)

lemma strip_left_drop: "strip_left d s = drop (length (takeWhile (\<lambda>c. c \<in> set d) s)) s"
  by (simp add: strip_left_def dropWhile_eq_drop)

lemma strip_right_take: "strip_right d s = take (length s - length (takeWhile (\<lambda>c. c \<in> set d) (rev s))) s"
  by (simp add: strip_right_def dropWhile_eq_drop rev_drop)

lemma find_last_not_of_eq:
  "find_last_not_of s d = (if set s \<subseteq> set d then None else Some (length (strip_right d s) - 1))"
  by (simp add: find_last_not_of_def find_first_not_of_eq strip_right_take)

lemma TrimLeft_eq: "TrimLeft s d = strip_left d s"
  using strip_left_Nil[of d s] by (auto simp: TrimLeft_def find_first_not_of_eq strip_left_drop)

lemma strip_right_prefix: "take (length (strip_right d s)) s = strip_right d s"
  by (simp add: strip_right_take)

lemma TrimRight_eq: "TrimRight s d = butlast (strip_right d s)"
proof -
  have "take (length (strip_right d s) - 1) s = butlast (strip_right d s)"
    using strip_right_prefix[of d s] by (metis butlast_conv_take diff_le_self min.absorb1 take_take)
  then show ?thesis using strip_right_Nil[of d s] by (auto simp: TrimRight_def find_last_not_of_eq substr_def)
qed

lemma strip_left_before_end:
  assumes "\<not> set s \<subseteq> set d"
  shows "length (takeWhile (\<lambda>c. c \<in> set d) s) < length (strip_right d s)"
proof (rule ccontr)
  let ?b = "length (takeWhile (\<lambda>c. c \<in> set d) s)" and ?t = "takeWhile (\<lambda>c. c \<in> set d) (rev s)"
  assume "\<not> ?thesis"
  then have ge: "length s - length ?t \<le> ?b" by (simp add: strip_right_take)
  have b: "?b < length s" using assms strip_left_Nil[of d s] by (simp add: strip_left_drop not_le)
  then have "s ! ?b \<notin> set d" using nth_length_takeWhile by blast
  moreover have "s ! ?b = rev s ! (length s - 1 - ?b)" using b by (simp add: rev_nth)
  moreover have "rev s ! (length s - 1 - ?b) \<in> set d"
  proof -
    have "length s - 1 - ?b < length ?t" using ge b length_takeWhile_le[of _ "rev s"] by auto
    then have "?t ! (length s - 1 - ?b) \<in> set d" using nth_mem set_takeWhileD by fast
    then show ?thesis using \<open>length s - 1 - ?b < length ?t\<close> by (simp add: takeWhile_nth)
  qed
  ultimately show False by simp
qed

text \<open>
  \<open>Trim\<close> removes the delimiters at both ends and nothing else, \<open>TrimLeft\<close> those at the
  left end, but \<open>TrimRight\<close> removes the delimiters at the right end and then one
  character more, the last one it should keep.\<close>

theorem trim_functions:
  "Trim s d = strip_left d (strip_right d s)"
  "TrimLeft s d = strip_left d s"
  "TrimRight s d = butlast (strip_right d s)"
proof -
  show "Trim s d = strip_left d (strip_right d s)"
  proof (cases "set s \<subseteq> set d")
    case True
    then have "strip_right d s = []" by (simp add: strip_right_Nil)
    then show ?thesis using True by (simp add: Trim_def find_first_not_of_eq strip_left_def)
  next
    case False
    let ?b = "length (takeWhile (\<lambda>c. c \<in> set d) s)" and ?n = "length (strip_right d s)"
    note lt = strip_left_before_end[OF False]
    have "takeWhile (\<lambda>c. c \<in> set d) (strip_right d s) = takeWhile (\<lambda>c. c \<in> set d) s"
      using lt strip_right_prefix[of d s] by (metis less_imp_le_nat take_all takeWhile_take)
    then have "strip_left d (strip_right d s) = drop ?b (strip_right d s)" by (simp add: strip_left_drop)
    also have "\<dots> = take (?n - ?b) (drop ?b s)" using strip_right_prefix[of d s] by (metis drop_take)
    also have "?n - ?b = ?n - 1 - ?b + 1" using lt by simp
    finally show ?thesis
      using False by (simp add: Trim_def find_first_not_of_eq find_last_not_of_eq substr_def)
  qed
qed (rule TrimLeft_eq TrimRight_eq)+

section \<open>Paths\<close>

lemma rfind_None: "rfind c xs = None \<longleftrightarrow> c \<notin> set xs"
  by (induction xs) (auto split: option.split)

lemma rfind_Some:
  "rfind c xs = Some i \<Longrightarrow> i < length xs \<and> xs = take i xs @ c # drop (Suc i) xs \<and> c \<notin> set (drop (Suc i) xs)"
  by (induction xs arbitrary: i) (auto split: option.splits if_splits simp: rfind_None)

lemma rfind_last:
  assumes "c \<notin> set base"
  shows "rfind c (dir @ c # base) = Some (length dir)"
proof -
  have "rfind c (c # base) = Some 0" using assms rfind_None[of c base] by simp
  then show ?thesis by (induction dir) simp_all
qed

text \<open>
  \<open>Dirname\<close> and \<open>Basename\<close> cut a path at its last slash. A path without a slash is its own
  base name in the directory \<open>.\<close>, a path whose only slash is the first character is in the root
  directory, and every other path is the directory, a slash and the base name.\<close>

theorem dirname_basename:
  assumes "CHR ''/'' \<notin> set base"
  shows "Dirname base = ''.'' \<and> Basename base = base"
    and "Dirname (CHR ''/'' # base) = ''/'' \<and> Basename (CHR ''/'' # base) = base"
    and "Dirname (d # dir @ CHR ''/'' # base) = d # dir \<and> Basename (d # dir @ CHR ''/'' # base) = base"
proof -
  show "Dirname base = ''.'' \<and> Basename base = base"
    using assms rfind_None[of "CHR ''/''" base] by (simp add: Dirname_def Basename_def)
  show "Dirname (CHR ''/'' # base) = ''/'' \<and> Basename (CHR ''/'' # base) = base"
    using rfind_last[OF assms, of "[]"] by (simp add: Dirname_def Basename_def)
  show "Dirname (d # dir @ CHR ''/'' # base) = d # dir \<and> Basename (d # dir @ CHR ''/'' # base) = base"
    using rfind_last[OF assms, of "d # dir"] by (simp add: Dirname_def Basename_def substr_def)
qed

theorem dirname_basename_witness:
  "CHR ''/'' \<notin> set ''tls.conf'' \<and> Dirname ''etc/tls.conf'' = ''etc'' \<and> Basename ''etc/tls.conf'' = ''tls.conf''"
  using dirname_basename(3)[of "''tls.conf''" "CHR ''e''" "''tc''"] by simp

end
