(* ===== verification/OrderedMap.thy ===== *)
theory OrderedMap
  imports Prelude
begin

text \<open>
  \<open>std::map\<close> and \<open>std::set\<close> as the sources use them: an ordered container is the list of its
  elements in the order of its comparator. The operations take the comparator, compare
  keys only through it and never test them for equality, as the library does. The locale
  \<open>ordered_keys\<close> states what the standard asks of a comparator, a strict weak order,
  and gives the laws of the operations against the abstract view of a container as a partial
  function on keys.
\<close>

section \<open>Operations\<close>

type_synonym ('k, 'v) omap = "('k \<times> 'v) list"
type_synonym 'k comparator = "'k \<Rightarrow> 'k \<Rightarrow> bool"

fun map_find :: "'k comparator \<Rightarrow> 'k \<Rightarrow> ('k, 'v) omap \<Rightarrow> 'v option" where
  "map_find lt k [] = None"
| "map_find lt k ((k', v) # m) =
     (if lt k' k then map_find lt k m else if lt k k' then None else Some v)"

text \<open>\<open>m[k] = v\<close>: the key that is already there stays.\<close>

fun map_assign :: "'k comparator \<Rightarrow> 'k \<Rightarrow> 'v \<Rightarrow> ('k, 'v) omap \<Rightarrow> ('k, 'v) omap" where
  "map_assign lt k v [] = [(k, v)]"
| "map_assign lt k v ((k', v') # m) =
     (if lt k' k then (k', v') # map_assign lt k v m
      else if lt k k' then (k, v) # (k', v') # m
      else (k', v) # m)"

text \<open>\<open>m.insert(make_pair(k, v))\<close>: no effect when the key is there.\<close>

fun map_insert :: "'k comparator \<Rightarrow> 'k \<Rightarrow> 'v \<Rightarrow> ('k, 'v) omap \<Rightarrow> ('k, 'v) omap" where
  "map_insert lt k v [] = [(k, v)]"
| "map_insert lt k v ((k', v') # m) =
     (if lt k' k then (k', v') # map_insert lt k v m
      else if lt k k' then (k, v) # (k', v') # m
      else (k', v') # m)"

fun map_erase :: "'k comparator \<Rightarrow> 'k \<Rightarrow> ('k, 'v) omap \<Rightarrow> ('k, 'v) omap" where
  "map_erase lt k [] = []"
| "map_erase lt k ((k', v') # m) =
     (if lt k' k then (k', v') # map_erase lt k m
      else if lt k k' then (k', v') # m
      else m)"

fun map_sorted :: "'k comparator \<Rightarrow> ('k, 'v) omap \<Rightarrow> bool" where
  "map_sorted lt [] = True"
| "map_sorted lt ((k, v) # m) \<longleftrightarrow> (\<forall>e \<in> set m. lt k (fst e)) \<and> map_sorted lt m"

section \<open>Laws\<close>

lemma omap_induct [case_names Nil Cons]:
  "P [] \<Longrightarrow> (\<And>k v m. P m \<Longrightarrow> P ((k, v) # m)) \<Longrightarrow> P m"
  by (induction m) (auto simp: split_paired_all)

lemma omap_cases [case_names Nil Cons]:
  "(m = [] \<Longrightarrow> P) \<Longrightarrow> (\<And>k v m'. m = (k, v) # m' \<Longrightarrow> P) \<Longrightarrow> P"
  by (cases m) auto

locale ordered_keys =
  fixes lt :: "'k comparator"
  assumes irrefl: "\<not> lt k k"
    and trans: "lt k1 k2 \<Longrightarrow> lt k2 k3 \<Longrightarrow> lt k1 k3"
    and incomparable_trans:
      "\<not> lt k1 k2 \<Longrightarrow> \<not> lt k2 k1 \<Longrightarrow> \<not> lt k2 k3 \<Longrightarrow> \<not> lt k3 k2 \<Longrightarrow> \<not> lt k1 k3"
begin

definition same :: "'k \<Rightarrow> 'k \<Rightarrow> bool" where
  "same k k' \<longleftrightarrow> \<not> lt k k' \<and> \<not> lt k' k"

lemma same_refl [simp]: "same k k"
  by (simp add: same_def irrefl)

lemma same_sym: "same k k' \<longleftrightarrow> same k' k"
  by (auto simp: same_def)

lemma same_trans: "same k1 k2 \<Longrightarrow> same k2 k3 \<Longrightarrow> same k1 k3"
  unfolding same_def using incomparable_trans by blast

lemma asym: "lt k k' \<Longrightarrow> \<not> lt k' k"
  using irrefl trans by blast

lemma less_same:
  assumes "same k k'"
  shows "lt k j \<longleftrightarrow> lt k' j" "lt j k \<longleftrightarrow> lt j k'"
  using assms incomparable_trans irrefl trans unfolding same_def by metis+

lemma find_above: "\<forall>e \<in> set m. lt k (fst e) \<Longrightarrow> map_find lt k m = None"
  by (cases m rule: omap_cases) (auto dest: asym)

lemma find_cong: "same k k' \<Longrightarrow> map_find lt k m = map_find lt k' m"
  by (induction m rule: omap_induct) (auto simp: less_same)

lemma find_Some_mem: "map_find lt k m = Some v \<Longrightarrow> \<exists>k'. (k', v) \<in> set m \<and> same k k'"
  by (induction m rule: omap_induct) (auto simp: same_def split: if_splits)

lemma find_mem: "map_sorted lt m \<Longrightarrow> (k, v) \<in> set m \<Longrightarrow> map_find lt k m = Some v"
  by (induction m rule: omap_induct) (auto simp: irrefl dest: asym)

subsection \<open>Assignment\<close>

lemma keys_assign: "fst ` set (map_assign lt k v m) \<subseteq> insert k (fst ` set m)"
  by (induction m rule: omap_induct) auto

lemma keys_insert: "fst ` set (map_insert lt k v m) \<subseteq> insert k (fst ` set m)"
  by (induction m rule: omap_induct) auto

lemma set_erase: "set (map_erase lt k m) \<subseteq> set m"
  by (induction m rule: omap_induct) auto

lemma sorted_assign: "map_sorted lt m \<Longrightarrow> map_sorted lt (map_assign lt k v m)"
proof (induction m rule: omap_induct)
  case (Cons k' v' m)
  have "lt k' (fst e)" if "e \<in> set (map_assign lt k v m)" "lt k' k" for e
  proof -
    have "fst e \<in> insert k (fst ` set m)" using keys_assign[of k v m] that(1) by blast
    then show ?thesis using that(2) Cons.prems by auto
  qed
  then show ?case using Cons by (auto intro: trans)
qed simp

lemma sorted_insert: "map_sorted lt m \<Longrightarrow> map_sorted lt (map_insert lt k v m)"
proof (induction m rule: omap_induct)
  case (Cons k' v' m)
  have "lt k' (fst e)" if "e \<in> set (map_insert lt k v m)" "lt k' k" for e
  proof -
    have "fst e \<in> insert k (fst ` set m)" using keys_insert[of k v m] that(1) by blast
    then show ?thesis using that(2) Cons.prems by auto
  qed
  then show ?case using Cons by (auto intro: trans)
qed simp

lemma sorted_erase: "map_sorted lt m \<Longrightarrow> map_sorted lt (map_erase lt k m)"
proof (induction m rule: omap_induct)
  case (Cons k' v' m)
  then show ?case using set_erase[of k m] by auto
qed simp

lemma order_cases:
  obtains (less) "lt k j" "\<not> lt j k" "\<not> same k j" | (greater) "lt j k" "\<not> lt k j" "\<not> same k j"
    | (same) "same k j" "\<not> lt k j" "\<not> lt j k"
  using asym unfolding same_def by blast

lemma find_assign:
  "map_sorted lt m \<Longrightarrow> map_find lt j (map_assign lt k v m) = (if same k j then Some v else map_find lt j m)"
proof (induction m rule: omap_induct)
  case Nil
  then show ?case by (auto simp: same_def)
next
  case (Cons k' v' m)
  have IH: "map_find lt j (map_assign lt k v m) = (if same k j then Some v else map_find lt j m)"
    using Cons by simp
  show ?case
  proof (cases rule: order_cases[of k k'])
    case less
    then show ?thesis using trans[of j k k'] asym[of j k'] by (auto simp: same_def)
  next
    case greater
    then show ?thesis using IH less_same[of k j k'] by (auto simp: same_def)
  next
    case same
    then show ?thesis using less_same[OF same(1), of j] by (auto simp: same_def)
  qed
qed

lemma find_insert:
  "map_sorted lt m \<Longrightarrow>
   map_find lt j (map_insert lt k v m) = (if same k j \<and> map_find lt k m = None then Some v else map_find lt j m)"
proof (induction m rule: omap_induct)
  case Nil
  then show ?case by (auto simp: same_def)
next
  case (Cons k' v' m)
  have IH: "map_find lt j (map_insert lt k v m) = (if same k j \<and> map_find lt k m = None then Some v else map_find lt j m)"
    using Cons by simp
  show ?case
  proof (cases rule: order_cases[of k k'])
    case less
    then show ?thesis using trans[of j k k'] asym[of j k'] by (auto simp: same_def)
  next
    case greater
    then show ?thesis using IH less_same[of k j k'] by (auto simp: same_def)
  next
    case same
    then show ?thesis by simp
  qed
qed

lemma find_erase:
  "map_sorted lt m \<Longrightarrow> map_find lt j (map_erase lt k m) = (if same k j then None else map_find lt j m)"
proof (induction m rule: omap_induct)
  case (Cons k' v' m)
  have IH: "map_find lt j (map_erase lt k m) = (if same k j then None else map_find lt j m)"
    using Cons by simp
  have above: "map_find lt j m = None" if "same k' j \<or> lt j k'"
  proof (rule find_above, rule ballI)
    fix e
    assume "e \<in> set m"
    then have "lt k' (fst e)" using Cons.prems by simp
    then show "lt j (fst e)" using less_same(1)[of k' j "fst e"] trans[of j k' "fst e"] that by blast
  qed
  show ?case
  proof (cases rule: order_cases[of k k'])
    case less
    then show ?thesis using less_same[of k j k'] by (auto simp: same_def)
  next
    case greater
    then show ?thesis using IH less_same[of k j k'] by (auto simp: same_def)
  next
    case same
    then show ?thesis using less_same[OF same(1), of j] above by (auto simp: same_def)
  qed
qed simp

lemmas laws = sorted_assign sorted_insert sorted_erase find_assign find_insert find_erase

end

text \<open>A comparator that compares the images of the keys under some function into a linear order.\<close>

lemma ordered_keys_measure: "ordered_keys (\<lambda>k j. f k < (f j :: 'a :: linorder))"
  by unfold_locales auto

end
