(* ===== verification/HttpMessage.thy ===== *)
theory HttpMessage
  imports StringUtil OrderedMap
begin

text \<open>
  The HTTP messages of \<open>http.h\<close> and \<open>http.cc\<close>: the request and response classes as records,
  their methods as functions on them, the lazy parsing of query, form and cookie parameters,
  and the text form of a message. \<open>boost::lexical_cast\<close> and \<open>Time2Str\<close> (local time and
  \<open>strftime\<close>) are parameters.
\<close>

section \<open>C strings\<close>

text \<open>What a C function sees of a \<open>std::string\<close> through \<open>c_str\<close>: the characters before the first NUL.\<close>

definition c_str :: "string \<Rightarrow> string" where
  "c_str s = takeWhile (\<lambda>c. c \<noteq> NUL) s"

fun strcasecmp :: "string \<Rightarrow> string \<Rightarrow> int" where
  "strcasecmp [] [] = 0"
| "strcasecmp [] (d # t) = - int (ord_of (tolower d))"
| "strcasecmp (c # s) [] = int (ord_of (tolower c))"
| "strcasecmp (c # s) (d # t) =
     (if tolower c = tolower d then strcasecmp s t else int (ord_of (tolower c)) - int (ord_of (tolower d)))"

definition strcasestr :: "string \<Rightarrow> string \<Rightarrow> bool" where
  "strcasestr haystack needle =
     list_ex (\<lambda>t. prefix (map tolower needle) (map tolower t)) (suffixes haystack)"

fun dec_string :: "nat \<Rightarrow> string" where
  "dec_string n =
     (if n < 10 then [char_of (48 + n)] else dec_string (n div 10) @ [char_of (48 + n mod 10)])"

declare dec_string.simps [simp del]

section \<open>Methods and status codes\<close>

type_synonym HttpMethod = nat
type_synonym HttpStatus = nat

definition INVALID_METHOD :: HttpMethod where
  "INVALID_METHOD = Suc (method_num HTTP_SOURCE)"

definition GET :: HttpMethod where
  "GET = method_num HTTP_GET"

definition s_method_string :: "string list" where
  "s_method_string = method_strings"

fun find_method :: "(string \<Rightarrow> bool) \<Rightarrow> (nat \<times> string) list \<Rightarrow> HttpMethod" where
  "find_method matches [] = INVALID_METHOD"
| "find_method matches ((num, str) # rest) = (if matches str then num else find_method matches rest)"

definition HTTP_METHOD_MAP :: "(nat \<times> string) list" where
  "HTTP_METHOD_MAP = map (\<lambda>m. (method_num m, method_string m)) http_methods"

definition StringToHttpMethod :: "string \<Rightarrow> HttpMethod" where
  "StringToHttpMethod m = find_method (\<lambda>str. str = c_str m) HTTP_METHOD_MAP"

definition CharsToHttpMethod :: "string \<Rightarrow> HttpMethod" where
  "CharsToHttpMethod m = find_method (\<lambda>str. prefix str (c_str m)) HTTP_METHOD_MAP"

definition HttpMethodToString :: "HttpMethod \<Rightarrow> string" where
  "HttpMethodToString m =
     (if m \<ge> length s_method_string then ''<unknown>'' else s_method_string ! m)"

definition HttpStatusToString :: "HttpStatus \<Rightarrow> string" where
  "HttpStatusToString s = (case map_of http_status_map s of Some msg \<Rightarrow> msg | None \<Rightarrow> ''<unknown>'')"

section \<open>Maps of headers and parameters\<close>

definition CaseInsensitiveLess :: "string \<Rightarrow> string \<Rightarrow> bool" where
  "CaseInsensitiveLess lhs rhs \<longleftrightarrow> strcasecmp (c_str lhs) (c_str rhs) < 0"

type_synonym MapType = "(string, string) omap"

definition mt_find :: "string \<Rightarrow> MapType \<Rightarrow> string option" where
  "mt_find = map_find CaseInsensitiveLess"

definition mt_assign :: "string \<Rightarrow> string \<Rightarrow> MapType \<Rightarrow> MapType" where
  "mt_assign = map_assign CaseInsensitiveLess"

definition mt_insert :: "string \<Rightarrow> string \<Rightarrow> MapType \<Rightarrow> MapType" where
  "mt_insert = map_insert CaseInsensitiveLess"

definition mt_erase :: "string \<Rightarrow> MapType \<Rightarrow> MapType" where
  "mt_erase = map_erase CaseInsensitiveLess"

definition get_or :: "MapType \<Rightarrow> string \<Rightarrow> string \<Rightarrow> string" where
  "get_or m key defl = (case mt_find key m of None \<Rightarrow> defl | Some v \<Rightarrow> v)"

text \<open>The pointer argument \<open>val\<close> of the \<open>has\<close> functions: \<open>None\<close> is the null pointer.\<close>

definition has_key :: "MapType \<Rightarrow> string \<Rightarrow> string option \<Rightarrow> bool \<times> string option" where
  "has_key m key val =
     (case mt_find key m of None \<Rightarrow> (False, val) | Some v \<Rightarrow> (True, map_option (\<lambda>_. v) val))"

text \<open>\<open>lexical_cast\<close> gives \<open>None\<close> when it throws.\<close>

definition checkGetAs :: "(string \<Rightarrow> 'a option) \<Rightarrow> MapType \<Rightarrow> string \<Rightarrow> 'a \<Rightarrow> bool \<times> 'a" where
  "checkGetAs lexical_cast m key defl =
     (case mt_find key m of
        None \<Rightarrow> (False, defl)
      | Some s \<Rightarrow> (case lexical_cast s of Some v \<Rightarrow> (True, v) | None \<Rightarrow> (False, defl)))"

definition getAs :: "(string \<Rightarrow> 'a option) \<Rightarrow> MapType \<Rightarrow> string \<Rightarrow> 'a \<Rightarrow> 'a" where
  "getAs lexical_cast m key defl =
     (case mt_find key m of
        None \<Rightarrow> defl
      | Some s \<Rightarrow> (case lexical_cast s of Some v \<Rightarrow> v | None \<Rightarrow> defl))"

section \<open>Requests\<close>

record HttpRequest =
  rq_method :: HttpMethod
  rq_version :: byte
  rq_close :: bool
  rq_websocket :: bool
  rq_parserParamFlag :: byte
  rq_url :: string
  rq_path :: string
  rq_query :: string
  rq_fragment :: string
  rq_body :: string
  rq_headers :: MapType
  rq_params :: MapType
  rq_cookies :: MapType

definition HttpRequest_new :: "byte \<Rightarrow> bool \<Rightarrow> HttpRequest" where
  "HttpRequest_new version close =
     \<lparr>rq_method = GET, rq_version = version, rq_close = close, rq_websocket = False,
      rq_parserParamFlag = 0, rq_url = [], rq_path = ''/'', rq_query = [], rq_fragment = [],
      rq_body = [], rq_headers = [], rq_params = [], rq_cookies = []\<rparr>"

definition HttpRequest_setMethod :: "HttpMethod \<Rightarrow> HttpRequest \<Rightarrow> HttpRequest" where
  "HttpRequest_setMethod v r = r\<lparr>rq_method := v\<rparr>"

definition HttpRequest_setVersion :: "byte \<Rightarrow> HttpRequest \<Rightarrow> HttpRequest" where
  "HttpRequest_setVersion v r = r\<lparr>rq_version := v\<rparr>"

definition HttpRequest_setPath :: "string \<Rightarrow> HttpRequest \<Rightarrow> HttpRequest" where
  "HttpRequest_setPath v r = r\<lparr>rq_path := v\<rparr>"

definition HttpRequest_setQuery :: "string \<Rightarrow> HttpRequest \<Rightarrow> HttpRequest" where
  "HttpRequest_setQuery v r = r\<lparr>rq_query := v\<rparr>"

definition HttpRequest_setFragment :: "string \<Rightarrow> HttpRequest \<Rightarrow> HttpRequest" where
  "HttpRequest_setFragment v r = r\<lparr>rq_fragment := v\<rparr>"

definition HttpRequest_setBody :: "string \<Rightarrow> HttpRequest \<Rightarrow> HttpRequest" where
  "HttpRequest_setBody v r = r\<lparr>rq_body := v\<rparr>"

definition HttpRequest_appendBody :: "string \<Rightarrow> HttpRequest \<Rightarrow> HttpRequest" where
  "HttpRequest_appendBody v r = r\<lparr>rq_body := rq_body r @ v\<rparr>"

definition HttpRequest_setClose :: "bool \<Rightarrow> HttpRequest \<Rightarrow> HttpRequest" where
  "HttpRequest_setClose v r = r\<lparr>rq_close := v\<rparr>"

definition HttpRequest_setWebsocket :: "bool \<Rightarrow> HttpRequest \<Rightarrow> HttpRequest" where
  "HttpRequest_setWebsocket v r = r\<lparr>rq_websocket := v\<rparr>"

definition HttpRequest_setHeaders :: "MapType \<Rightarrow> HttpRequest \<Rightarrow> HttpRequest" where
  "HttpRequest_setHeaders v r = r\<lparr>rq_headers := v\<rparr>"

definition HttpRequest_setParams :: "MapType \<Rightarrow> HttpRequest \<Rightarrow> HttpRequest" where
  "HttpRequest_setParams v r = r\<lparr>rq_params := v\<rparr>"

definition HttpRequest_setCookies :: "MapType \<Rightarrow> HttpRequest \<Rightarrow> HttpRequest" where
  "HttpRequest_setCookies v r = r\<lparr>rq_cookies := v\<rparr>"

definition HttpRequest_getHeader :: "HttpRequest \<Rightarrow> string \<Rightarrow> string \<Rightarrow> string" where
  "HttpRequest_getHeader r key defl = get_or (rq_headers r) key defl"

definition HttpRequest_setHeader :: "string \<Rightarrow> string \<Rightarrow> HttpRequest \<Rightarrow> HttpRequest" where
  "HttpRequest_setHeader key val r = r\<lparr>rq_headers := mt_assign key val (rq_headers r)\<rparr>"

definition HttpRequest_setParam :: "string \<Rightarrow> string \<Rightarrow> HttpRequest \<Rightarrow> HttpRequest" where
  "HttpRequest_setParam key val r = r\<lparr>rq_params := mt_assign key val (rq_params r)\<rparr>"

definition HttpRequest_setCookie :: "string \<Rightarrow> string \<Rightarrow> HttpRequest \<Rightarrow> HttpRequest" where
  "HttpRequest_setCookie key val r = r\<lparr>rq_cookies := mt_assign key val (rq_cookies r)\<rparr>"

definition HttpRequest_delHeader :: "string \<Rightarrow> HttpRequest \<Rightarrow> HttpRequest" where
  "HttpRequest_delHeader key r = r\<lparr>rq_headers := mt_erase key (rq_headers r)\<rparr>"

definition HttpRequest_delParam :: "string \<Rightarrow> HttpRequest \<Rightarrow> HttpRequest" where
  "HttpRequest_delParam key r = r\<lparr>rq_params := mt_erase key (rq_params r)\<rparr>"

definition HttpRequest_delCookie :: "string \<Rightarrow> HttpRequest \<Rightarrow> HttpRequest" where
  "HttpRequest_delCookie key r = r\<lparr>rq_cookies := mt_erase key (rq_cookies r)\<rparr>"

definition HttpRequest_hasHeader :: "HttpRequest \<Rightarrow> string \<Rightarrow> string option \<Rightarrow> bool \<times> string option" where
  "HttpRequest_hasHeader r key val = has_key (rq_headers r) key val"

subsection \<open>Lazy parsing of parameters\<close>

text \<open>\<open>str.find(c, pos)\<close>.\<close>

fun find_char :: "char \<Rightarrow> string \<Rightarrow> nat option" where
  "find_char c [] = None"
| "find_char c (x # xs) = (if x = c then Some 0 else map_option Suc (find_char c xs))"

definition find_from :: "char \<Rightarrow> string \<Rightarrow> nat \<Rightarrow> nat option" where
  "find_from c str pos = map_option (\<lambda>i. pos + i) (find_char c (drop pos str))"

lemma find_char_less: "find_char c xs = Some i \<Longrightarrow> i < length xs"
  by (induction xs arbitrary: i) (auto split: if_splits)

lemma find_from_bounds: "find_from c str pos = Some i \<Longrightarrow> pos \<le> i \<and> i < length str"
  by (auto simp: find_from_def dest: find_char_less)

text \<open>The macro \<open>PARSE_PARAM\<close>: \<open>pos\<close> is its loop variable.\<close>

function PARSE_PARAM :: "string \<Rightarrow> char \<Rightarrow> (string \<Rightarrow> string) \<Rightarrow> nat \<Rightarrow> MapType \<Rightarrow> MapType" where
  "PARSE_PARAM str flag trim pos m =
     (case find_from (CHR ''='') str pos of
        None \<Rightarrow> m
      | Some key \<Rightarrow>
          (case find_from flag str key of
             None \<Rightarrow>
               mt_insert (UrlDecode (trim (substr str pos (key - pos))) True)
                 (UrlDecode (drop (key + 1) str) True) m
           | Some p \<Rightarrow>
               PARSE_PARAM str flag trim (p + 1)
                 (mt_insert (UrlDecode (trim (substr str pos (key - pos))) True)
                    (UrlDecode (substr str (key + 1) (size_sub (size_sub p key) 1)) True) m)))"
  by pat_completeness auto
termination
  by (relation "measure (\<lambda>(str, flag, trim, pos, m). length str - pos)")
    (auto dest!: find_from_bounds)

declare PARSE_PARAM.simps [simp del]

definition HttpRequest_initQueryParam :: "HttpRequest \<Rightarrow> HttpRequest" where
  "HttpRequest_initQueryParam r =
     (if rq_parserParamFlag r AND 1 \<noteq> 0 then r
      else r\<lparr>rq_params := PARSE_PARAM (rq_query r) (CHR ''&'') (\<lambda>s. s) 0 (rq_params r),
             rq_parserParamFlag := rq_parserParamFlag r OR 1\<rparr>)"

definition HttpRequest_initBodyParam :: "HttpRequest \<Rightarrow> HttpRequest" where
  "HttpRequest_initBodyParam r =
     (if rq_parserParamFlag r AND 2 \<noteq> 0 then r
      else if \<not> strcasestr (c_str (HttpRequest_getHeader r ''content-type'' [])) ''application/x-www-form-urlencoded''
      then r\<lparr>rq_parserParamFlag := rq_parserParamFlag r OR 2\<rparr>
      else r\<lparr>rq_params := PARSE_PARAM (rq_body r) (CHR ''&'') (\<lambda>s. s) 0 (rq_params r),
             rq_parserParamFlag := rq_parserParamFlag r OR 2\<rparr>)"

definition HttpRequest_initCookies :: "HttpRequest \<Rightarrow> HttpRequest" where
  "HttpRequest_initCookies r =
     (if rq_parserParamFlag r AND 4 \<noteq> 0 then r
      else let cookie = HttpRequest_getHeader r ''cookie'' []
           in if cookie = [] then r\<lparr>rq_parserParamFlag := rq_parserParamFlag r OR 4\<rparr>
              else r\<lparr>rq_cookies := PARSE_PARAM cookie (CHR '';'') (\<lambda>s. Trim s default_delimit) 0 (rq_cookies r),
                     rq_parserParamFlag := rq_parserParamFlag r OR 4\<rparr>)"

text \<open>The accessors that parse on first use return the changed request beside their result.\<close>

definition HttpRequest_initParams :: "HttpRequest \<Rightarrow> HttpRequest" where
  "HttpRequest_initParams r = HttpRequest_initBodyParam (HttpRequest_initQueryParam r)"

definition HttpRequest_getParam :: "HttpRequest \<Rightarrow> string \<Rightarrow> string \<Rightarrow> string \<times> HttpRequest" where
  "HttpRequest_getParam r key defl =
     (let r' = HttpRequest_initParams r in (get_or (rq_params r') key defl, r'))"

definition HttpRequest_getCookie :: "HttpRequest \<Rightarrow> string \<Rightarrow> string \<Rightarrow> string \<times> HttpRequest" where
  "HttpRequest_getCookie r key defl =
     (let r' = HttpRequest_initCookies r in (get_or (rq_cookies r') key defl, r'))"

definition HttpRequest_hasParam ::
    "HttpRequest \<Rightarrow> string \<Rightarrow> string option \<Rightarrow> (bool \<times> string option) \<times> HttpRequest" where
  "HttpRequest_hasParam r key val =
     (let r' = HttpRequest_initParams r in (has_key (rq_params r') key val, r'))"

definition HttpRequest_hasCookie ::
    "HttpRequest \<Rightarrow> string \<Rightarrow> string option \<Rightarrow> (bool \<times> string option) \<times> HttpRequest" where
  "HttpRequest_hasCookie r key val =
     (let r' = HttpRequest_initCookies r in (has_key (rq_cookies r') key val, r'))"

definition HttpRequest_checkGetHeaderAs ::
    "(string \<Rightarrow> 'a option) \<Rightarrow> HttpRequest \<Rightarrow> string \<Rightarrow> 'a \<Rightarrow> bool \<times> 'a" where
  "HttpRequest_checkGetHeaderAs lexical_cast r key defl = checkGetAs lexical_cast (rq_headers r) key defl"

definition HttpRequest_getHeaderAs :: "(string \<Rightarrow> 'a option) \<Rightarrow> HttpRequest \<Rightarrow> string \<Rightarrow> 'a \<Rightarrow> 'a" where
  "HttpRequest_getHeaderAs lexical_cast r key defl = getAs lexical_cast (rq_headers r) key defl"

definition HttpRequest_checkGetParamAs ::
    "(string \<Rightarrow> 'a option) \<Rightarrow> HttpRequest \<Rightarrow> string \<Rightarrow> 'a \<Rightarrow> (bool \<times> 'a) \<times> HttpRequest" where
  "HttpRequest_checkGetParamAs lexical_cast r key defl =
     (let r' = HttpRequest_initParams r in (checkGetAs lexical_cast (rq_params r') key defl, r'))"

definition HttpRequest_getParamAs ::
    "(string \<Rightarrow> 'a option) \<Rightarrow> HttpRequest \<Rightarrow> string \<Rightarrow> 'a \<Rightarrow> 'a \<times> HttpRequest" where
  "HttpRequest_getParamAs lexical_cast r key defl =
     (let r' = HttpRequest_initParams r in (getAs lexical_cast (rq_params r') key defl, r'))"

definition HttpRequest_checkGetCookieAs ::
    "(string \<Rightarrow> 'a option) \<Rightarrow> HttpRequest \<Rightarrow> string \<Rightarrow> 'a \<Rightarrow> (bool \<times> 'a) \<times> HttpRequest" where
  "HttpRequest_checkGetCookieAs lexical_cast r key defl =
     (let r' = HttpRequest_initCookies r in (checkGetAs lexical_cast (rq_cookies r') key defl, r'))"

definition HttpRequest_getCookieAs ::
    "(string \<Rightarrow> 'a option) \<Rightarrow> HttpRequest \<Rightarrow> string \<Rightarrow> 'a \<Rightarrow> 'a \<times> HttpRequest" where
  "HttpRequest_getCookieAs lexical_cast r key defl =
     (let r' = HttpRequest_initCookies r in (getAs lexical_cast (rq_cookies r') key defl, r'))"

definition HttpRequest_init :: "HttpRequest \<Rightarrow> HttpRequest" where
  "HttpRequest_init r =
     (let conn = HttpRequest_getHeader r ''connection'' []
      in if conn \<noteq> [] then r\<lparr>rq_close := strcasecmp (c_str conn) ''keep-alive'' \<noteq> 0\<rparr> else r)"

subsection \<open>Text form\<close>

definition CRLF :: string where "CRLF = [CR, LF]"

definition version_string :: "byte \<Rightarrow> string" where
  "version_string v = dec_string (unat (drop_bit 4 v)) @ ''.'' @ dec_string (unat (v AND 15))"

definition header_line :: "string \<times> string \<Rightarrow> string" where
  "header_line e = fst e @ '': '' @ snd e @ CRLF"

definition connection_line :: "bool \<Rightarrow> string" where
  "connection_line close = ''connection: '' @ (if close then ''close'' else ''keep-alive'') @ CRLF"

text \<open>The entries of the header map that the loop of \<open>dump\<close> writes.\<close>

definition HttpRequest_dumped_headers :: "HttpRequest \<Rightarrow> MapType" where
  "HttpRequest_dumped_headers r =
     filter (\<lambda>e. \<not> (\<not> rq_websocket r \<and> strcasecmp (c_str (fst e)) ''connection'' = 0) \<and>
                \<not> (rq_body r \<noteq> [] \<and> strcasecmp (c_str (fst e)) ''content-length'' = 0)) (rq_headers r)"

definition body_part :: "string \<Rightarrow> string" where
  "body_part body =
     (if body \<noteq> [] then ''content-length: '' @ dec_string (length body) @ CRLF @ CRLF @ body else CRLF)"

definition HttpRequest_dump :: "HttpRequest \<Rightarrow> string" where
  "HttpRequest_dump r =
     HttpMethodToString (rq_method r) @ '' '' @ rq_path r @
     (if rq_query r = [] then [] else ''?'') @ rq_query r @
     (if rq_fragment r = [] then [] else ''#'') @ rq_fragment r @
     '' HTTP/'' @ version_string (rq_version r) @ CRLF @
     (if \<not> rq_websocket r then connection_line (rq_close r) else []) @
     concat (map header_line (HttpRequest_dumped_headers r)) @
     body_part (rq_body r)"

section \<open>Responses\<close>

record HttpResponse =
  rs_status :: HttpStatus
  rs_version :: byte
  rs_close :: bool
  rs_websocket :: bool
  rs_body :: string
  rs_reason :: string
  rs_headers :: MapType
  rs_cookies :: "string list"

definition HttpResponse_new :: "byte \<Rightarrow> bool \<Rightarrow> HttpResponse" where
  "HttpResponse_new version close =
     \<lparr>rs_status = 200, rs_version = version, rs_close = close, rs_websocket = False, rs_body = [],
      rs_reason = [], rs_headers = [], rs_cookies = []\<rparr>"

definition HttpRequest_createResponse :: "HttpRequest \<Rightarrow> HttpResponse" where
  "HttpRequest_createResponse r = HttpResponse_new (rq_version r) (rq_close r)"

definition HttpResponse_setStatus :: "HttpStatus \<Rightarrow> HttpResponse \<Rightarrow> HttpResponse" where
  "HttpResponse_setStatus v r = r\<lparr>rs_status := v\<rparr>"

definition HttpResponse_setVersion :: "byte \<Rightarrow> HttpResponse \<Rightarrow> HttpResponse" where
  "HttpResponse_setVersion v r = r\<lparr>rs_version := v\<rparr>"

definition HttpResponse_setBody :: "string \<Rightarrow> HttpResponse \<Rightarrow> HttpResponse" where
  "HttpResponse_setBody v r = r\<lparr>rs_body := v\<rparr>"

definition HttpResponse_appendBody :: "string \<Rightarrow> HttpResponse \<Rightarrow> HttpResponse" where
  "HttpResponse_appendBody v r = r\<lparr>rs_body := rs_body r @ v\<rparr>"

definition HttpResponse_setReason :: "string \<Rightarrow> HttpResponse \<Rightarrow> HttpResponse" where
  "HttpResponse_setReason v r = r\<lparr>rs_reason := v\<rparr>"

definition HttpResponse_setHeaders :: "MapType \<Rightarrow> HttpResponse \<Rightarrow> HttpResponse" where
  "HttpResponse_setHeaders v r = r\<lparr>rs_headers := v\<rparr>"

definition HttpResponse_setClose :: "bool \<Rightarrow> HttpResponse \<Rightarrow> HttpResponse" where
  "HttpResponse_setClose v r = r\<lparr>rs_close := v\<rparr>"

definition HttpResponse_setWebsocket :: "bool \<Rightarrow> HttpResponse \<Rightarrow> HttpResponse" where
  "HttpResponse_setWebsocket v r = r\<lparr>rs_websocket := v\<rparr>"

definition HttpResponse_getHeader :: "HttpResponse \<Rightarrow> string \<Rightarrow> string \<Rightarrow> string" where
  "HttpResponse_getHeader r key defl = get_or (rs_headers r) key defl"

definition HttpResponse_setHeader :: "string \<Rightarrow> string \<Rightarrow> HttpResponse \<Rightarrow> HttpResponse" where
  "HttpResponse_setHeader key val r = r\<lparr>rs_headers := mt_assign key val (rs_headers r)\<rparr>"

definition HttpResponse_delHeader :: "string \<Rightarrow> HttpResponse \<Rightarrow> HttpResponse" where
  "HttpResponse_delHeader key r = r\<lparr>rs_headers := mt_erase key (rs_headers r)\<rparr>"

definition HttpResponse_checkGetHeaderAs ::
    "(string \<Rightarrow> 'a option) \<Rightarrow> HttpResponse \<Rightarrow> string \<Rightarrow> 'a \<Rightarrow> bool \<times> 'a" where
  "HttpResponse_checkGetHeaderAs lexical_cast r key defl = checkGetAs lexical_cast (rs_headers r) key defl"

definition HttpResponse_getHeaderAs :: "(string \<Rightarrow> 'a option) \<Rightarrow> HttpResponse \<Rightarrow> string \<Rightarrow> 'a \<Rightarrow> 'a" where
  "HttpResponse_getHeaderAs lexical_cast r key defl = getAs lexical_cast (rs_headers r) key defl"

definition HttpResponse_setRedirect :: "string \<Rightarrow> HttpResponse \<Rightarrow> HttpResponse" where
  "HttpResponse_setRedirect uri r = HttpResponse_setHeader ''Location'' uri (r\<lparr>rs_status := 302\<rparr>)"

definition HttpResponse_setCookie ::
    "(int \<Rightarrow> string \<Rightarrow> string) \<Rightarrow> string \<Rightarrow> string \<Rightarrow> int \<Rightarrow> string \<Rightarrow> string \<Rightarrow> bool \<Rightarrow> HttpResponse \<Rightarrow> HttpResponse" where
  "HttpResponse_setCookie Time2Str key val expired path domain secure r =
     r\<lparr>rs_cookies := rs_cookies r @
        [key @ ''='' @ val @
         (if expired > 0 then '';expires='' @ Time2Str expired ''%a, %d %b %Y %H:%M:%S'' @ '' GMT'' else []) @
         (if domain \<noteq> [] then '';domain='' @ domain else []) @
         (if path \<noteq> [] then '';path='' @ path else []) @
         (if secure then '';secure'' else [])]\<rparr>"

definition HttpResponse_dumped_headers :: "HttpResponse \<Rightarrow> MapType" where
  "HttpResponse_dumped_headers r =
     filter (\<lambda>e. \<not> (\<not> rs_websocket r \<and> strcasecmp (c_str (fst e)) ''connection'' = 0)) (rs_headers r)"

definition HttpResponse_dump :: "HttpResponse \<Rightarrow> string" where
  "HttpResponse_dump r =
     ''HTTP/'' @ version_string (rs_version r) @ '' '' @ dec_string (rs_status r) @ '' '' @
     (if rs_reason r = [] then HttpStatusToString (rs_status r) else rs_reason r) @ CRLF @
     concat (map header_line (HttpResponse_dumped_headers r)) @
     concat (map (\<lambda>c. ''Set-Cookie: '' @ c @ CRLF) (rs_cookies r)) @
     (if \<not> rs_websocket r then connection_line (rs_close r) else []) @
     body_part (rs_body r)"

end
