(* ===== verification/HttpMessageLaws.thy ===== *)
theory HttpMessageLaws
  imports HttpMessage
begin

text \<open>
  The laws of the HTTP message classes: the header and parameter maps compare keys as C strings
  without letter case, every operation keeps them ordered, an encoded query string is parsed back
  to the parameters it was made of, and what the text form of a message contains.
\<close>

section \<open>Case-insensitive keys\<close>

definition lkey :: "string \<Rightarrow> nat list" where
  "lkey s = map (\<lambda>c. ord_of (tolower c)) (c_str s)"

lemma tolower_pos: "c \<noteq> NUL \<Longrightarrow> 0 < ord_of (tolower c)"
proof -
  have "list_all (\<lambda>c. c = NUL \<or> 0 < ord_of (tolower c)) all_chars" by code_simp
  then show "c \<noteq> NUL \<Longrightarrow> 0 < ord_of (tolower c)"
    using all_charsD[of "\<lambda>c. c = NUL \<or> 0 < ord_of (tolower c)" c] by blast
qed

lemma strcasecmp_sign:
  "NUL \<notin> set s \<Longrightarrow> NUL \<notin> set t \<Longrightarrow>
   (strcasecmp s t < 0) = ord_class.lexordp (map (\<lambda>c. ord_of (tolower c)) s) (map (\<lambda>c. ord_of (tolower c)) t) \<and>
   (strcasecmp s t = 0) = (map (\<lambda>c. ord_of (tolower c)) s = map (\<lambda>c. ord_of (tolower c)) t)"
proof (induction s t rule: strcasecmp.induct)
  case (2 d t)
  then show ?case using tolower_pos[of d] by auto
next
  case (3 c s)
  then show ?case using tolower_pos[of c] by auto
next
  case (4 c s d t)
  then show ?case
    by (cases rule: linorder_cases[of "ord_of (tolower c)" "ord_of (tolower d)"]) (auto simp: ord_of_inj)
qed simp

lemma NUL_not_in_c_str [simp]: "NUL \<notin> set (c_str s)"
  by (auto simp: c_str_def dest: set_takeWhileD)

lemma CaseInsensitiveLess_iff: "CaseInsensitiveLess s t \<longleftrightarrow> ord_class.lexordp (lkey s) (lkey t)"
  by (simp add: CaseInsensitiveLess_def lkey_def strcasecmp_sign)

lemma strcasecmp_zero: "strcasecmp (c_str s) (c_str t) = 0 \<longleftrightarrow> lkey s = lkey t"
  by (simp add: lkey_def strcasecmp_sign)

interpretation ci: ordered_keys CaseInsensitiveLess
proof
  fix k k1 k2 k3 :: string
  show "\<not> CaseInsensitiveLess k k" by (simp add: CaseInsensitiveLess_iff lexordp_irreflexive')
  show "CaseInsensitiveLess k1 k2 \<Longrightarrow> CaseInsensitiveLess k2 k3 \<Longrightarrow> CaseInsensitiveLess k1 k3"
    unfolding CaseInsensitiveLess_iff by (rule lexordp_trans)
  show "\<not> CaseInsensitiveLess k1 k2 \<Longrightarrow> \<not> CaseInsensitiveLess k2 k1 \<Longrightarrow>
    \<not> CaseInsensitiveLess k2 k3 \<Longrightarrow> \<not> CaseInsensitiveLess k3 k2 \<Longrightarrow> \<not> CaseInsensitiveLess k1 k3"
    unfolding CaseInsensitiveLess_iff using lexordp_linear by (metis lexordp_irreflexive')
qed

lemma ci_same: "ci.same k j \<longleftrightarrow> lkey k = lkey j"
  unfolding ci.same_def CaseInsensitiveLess_iff using lexordp_linear lexordp_irreflexive' by metis

definition mt_ok :: "MapType \<Rightarrow> bool" where
  "mt_ok m = map_sorted CaseInsensitiveLess m"

lemma mt_laws:
  "mt_ok []"
  "mt_ok m \<Longrightarrow> mt_ok (mt_assign k v m)"
  "mt_ok m \<Longrightarrow> mt_ok (mt_insert k v m)"
  "mt_ok m \<Longrightarrow> mt_ok (mt_erase k m)"
  "mt_ok m \<Longrightarrow> mt_find j (mt_assign k v m) = (if lkey k = lkey j then Some v else mt_find j m)"
  "mt_ok m \<Longrightarrow> mt_find j (mt_insert k v m) =
     (if lkey k = lkey j \<and> mt_find k m = None then Some v else mt_find j m)"
  "mt_ok m \<Longrightarrow> mt_find j (mt_erase k m) = (if lkey k = lkey j then None else mt_find j m)"
  "mt_find j [] = None"
  by (simp_all add: mt_ok_def mt_find_def mt_assign_def mt_insert_def mt_erase_def ci.laws ci_same)

lemma mt_find_cong: "lkey k = lkey j \<Longrightarrow> mt_find k m = mt_find j m"
  unfolding mt_find_def by (rule ci.find_cong) (simp add: ci_same)

section \<open>Parsing of parameters\<close>

lemma find_char_first: "c \<notin> set xs \<Longrightarrow> find_char c (xs @ c # ys) = Some (length xs)"
  by (induction xs) auto

lemma find_char_None: "find_char c xs = None \<longleftrightarrow> c \<notin> set xs"
  by (induction xs) auto

lemma find_from_first: "c \<notin> set xs \<Longrightarrow> find_from c (pre @ xs @ c # ys) (length pre) = Some (length pre + length xs)"
  by (simp add: find_from_def find_char_first)

lemma find_from_None: "c \<notin> set xs \<Longrightarrow> find_from c (pre @ xs) (length pre) = None"
  by (simp add: find_from_def find_char_None)

lemma PARSE_PARAM_end: "CHR ''='' \<notin> set s \<Longrightarrow> PARSE_PARAM (pre @ s) flag trim (length pre) m = m"
  by (simp add: PARSE_PARAM.simps[of "pre @ s"] find_from_None)

lemma PARSE_PARAM_last:
  assumes "CHR ''='' \<notin> set k" "flag \<notin> set v" "flag \<noteq> CHR ''=''"
  shows "PARSE_PARAM (pre @ k @ CHR ''='' # v) flag trim (length pre) m =
     mt_insert (UrlDecode (trim k) True) (UrlDecode v True) m"
proof -
  have "find_from flag (pre @ k @ CHR ''='' # v) (length pre + length k) = None"
    using find_from_None[of flag "CHR ''='' # v" "pre @ k"] assms by simp
  then show ?thesis
    using assms find_from_first[of "CHR ''=''" k pre v]
    by (simp add: PARSE_PARAM.simps[of "pre @ k @ CHR ''='' # v"] substr_def)
qed

lemma PARSE_PARAM_step:
  assumes "CHR ''='' \<notin> set k" "flag \<notin> set v" "flag \<noteq> CHR ''=''"
  shows "PARSE_PARAM (pre @ k @ CHR ''='' # v @ flag # s) flag trim (length pre) m =
     PARSE_PARAM ((pre @ k @ CHR ''='' # v @ [flag]) @ s) flag trim (length (pre @ k @ CHR ''='' # v @ [flag]))
       (mt_insert (UrlDecode (trim k) True) (UrlDecode v True) m)"
proof -
  let ?str = "pre @ k @ CHR ''='' # v @ flag # s"
  have 1: "find_from (CHR ''='') ?str (length pre) = Some (length pre + length k)"
    using find_from_first[of "CHR ''=''" k pre] assms by simp
  have 2: "find_from flag ?str (length pre + length k) = Some (length pre + length k + Suc (length v))"
    using find_from_first[of flag "CHR ''='' # v" "pre @ k" s] assms by simp
  show ?thesis
    by (subst PARSE_PARAM.simps) (simp add: 1 2 substr_def add.assoc)
qed

text \<open>The query string of a list of parameters, as a client writes it.\<close>

fun query_string :: "(string \<times> string) list \<Rightarrow> string" where
  "query_string [] = []"
| "query_string [(k, v)] = UrlEncode k True @ CHR ''='' # UrlEncode v True"
| "query_string ((k, v) # ps) = UrlEncode k True @ CHR ''='' # UrlEncode v True @ CHR ''&'' # query_string ps"

lemma UrlEncode_eq_sign:
  assumes "CHR ''='' \<notin> set k"
  shows "CHR ''='' \<notin> set (UrlEncode k sp)"
proof -
  have "\<forall>n \<in> set [0..<16]. hexdigits ! n \<noteq> CHR ''=''" by code_simp
  then have hex: "hexdigits ! n \<noteq> CHR ''=''" if "n < 16" for n using that by simp
  have "CHR ''='' \<notin> set (encode_char sp c)" if "c \<noteq> CHR ''=''" for c
  proof -
    have "ord_of c div 16 < 16" "ord_of c mod 16 < 16" using ord_of_less[of c] by simp_all
    then have "hexdigits ! (ord_of c div 16) \<noteq> CHR ''=''" "hexdigits ! (ord_of c mod 16) \<noteq> CHR ''=''"
      using hex by blast+
    then show ?thesis using that by (simp add: encode_char_def)
  qed
  note plain = this
  show ?thesis
  proof
    assume "CHR ''='' \<in> set (UrlEncode k sp)"
    then obtain c where "c \<in> set k" "CHR ''='' \<in> set (encode_char sp c)" by (auto simp: UrlEncode_eq)
    then show False using plain assms by metis
  qed
qed

lemma UrlEncode_amp: "CHR ''&'' \<notin> set (UrlEncode v sp)"
proof -
  have "\<not> CHAR_IS_UNRESERVED (CHR ''&'')" by code_simp
  then show ?thesis using UrlEncode_chars[of "CHR ''&''" v sp] by auto
qed

lemma UrlDecode_UrlEncode [simp]: "UrlDecode (UrlEncode s sp) sp = s"
  by (rule decode_encode)

lemma PARSE_PARAM_query_string:
  "\<forall>(k, v) \<in> set ps. CHR ''='' \<notin> set k \<Longrightarrow>
   PARSE_PARAM (pre @ query_string ps) (CHR ''&'') (\<lambda>s. s) (length pre) m = fold (\<lambda>(k, v). mt_insert k v) ps m"
proof (induction ps arbitrary: pre m rule: query_string.induct)
  case 1
  then show ?case using PARSE_PARAM_end[of "[]"] by simp
next
  case (2 k v)
  then show ?case by (simp add: PARSE_PARAM_last UrlEncode_eq_sign UrlEncode_amp)
next
  case (3 k v p ps)
  let ?pre = "pre @ UrlEncode k True @ CHR ''='' # UrlEncode v True @ ''&''"
  have "PARSE_PARAM (pre @ query_string ((k, v) # p # ps)) (CHR ''&'') (\<lambda>s. s) (length pre) m =
      PARSE_PARAM (?pre @ query_string (p # ps)) (CHR ''&'') (\<lambda>s. s) (length ?pre) (mt_insert k v m)"
    using 3(2) by (simp add: PARSE_PARAM_step UrlEncode_eq_sign UrlEncode_amp)
  also have "\<dots> = fold (\<lambda>(k, v). mt_insert k v) (p # ps) (mt_insert k v m)"
    using 3(2) by (intro 3(1)) auto
  finally show ?case by simp
qed

section \<open>Requests\<close>

text \<open>The type invariant of a request: its maps are ordered by their comparator.\<close>

definition request_ok :: "HttpRequest \<Rightarrow> bool" where
  "request_ok r \<longleftrightarrow> mt_ok (rq_headers r) \<and> mt_ok (rq_params r) \<and> mt_ok (rq_cookies r)"

lemma PARSE_PARAM_ok: "mt_ok m \<Longrightarrow> mt_ok (PARSE_PARAM str flag trim pos m)"
proof (induction str flag trim pos m rule: PARSE_PARAM.induct)
  case (1 str flag trim pos m)
  show ?case
    by (subst PARSE_PARAM.simps)
      (use 1 in \<open>auto simp: mt_laws split: option.split\<close>)
qed

lemma initQueryParam_ok: "request_ok r \<Longrightarrow> request_ok (HttpRequest_initQueryParam r)"
  by (simp add: request_ok_def HttpRequest_initQueryParam_def PARSE_PARAM_ok)

lemma initBodyParam_ok: "request_ok r \<Longrightarrow> request_ok (HttpRequest_initBodyParam r)"
  by (simp add: request_ok_def HttpRequest_initBodyParam_def PARSE_PARAM_ok)

lemma initParams_ok: "request_ok r \<Longrightarrow> request_ok (HttpRequest_initParams r)"
  by (simp add: HttpRequest_initParams_def initBodyParam_ok initQueryParam_ok)

lemma initCookies_ok: "request_ok r \<Longrightarrow> request_ok (HttpRequest_initCookies r)"
  by (simp add: request_ok_def HttpRequest_initCookies_def PARSE_PARAM_ok Let_def)

text \<open>One call of a method of the request class that can change the request.\<close>

datatype request_op =
    SetHeader string string | SetParam string string | SetCookie string string
  | DelHeader string | DelParam string | DelCookie string
  | GetParam string string | GetCookie string string | HasParam string "string option" | HasCookie string "string option"
  | SetMethod HttpMethod | SetVersion byte | SetPath string | SetQuery string | SetFragment string
  | SetBody string | AppendBody string | SetClose bool | SetWebsocket bool | InitReq

primrec request_step :: "request_op \<Rightarrow> HttpRequest \<Rightarrow> HttpRequest" where
  "request_step (SetHeader k v) r = HttpRequest_setHeader k v r"
| "request_step (SetParam k v) r = HttpRequest_setParam k v r"
| "request_step (SetCookie k v) r = HttpRequest_setCookie k v r"
| "request_step (DelHeader k) r = HttpRequest_delHeader k r"
| "request_step (DelParam k) r = HttpRequest_delParam k r"
| "request_step (DelCookie k) r = HttpRequest_delCookie k r"
| "request_step (GetParam k d) r = snd (HttpRequest_getParam r k d)"
| "request_step (GetCookie k d) r = snd (HttpRequest_getCookie r k d)"
| "request_step (HasParam k v) r = snd (HttpRequest_hasParam r k v)"
| "request_step (HasCookie k v) r = snd (HttpRequest_hasCookie r k v)"
| "request_step (SetMethod v) r = HttpRequest_setMethod v r"
| "request_step (SetVersion v) r = HttpRequest_setVersion v r"
| "request_step (SetPath v) r = HttpRequest_setPath v r"
| "request_step (SetQuery v) r = HttpRequest_setQuery v r"
| "request_step (SetFragment v) r = HttpRequest_setFragment v r"
| "request_step (SetBody v) r = HttpRequest_setBody v r"
| "request_step (AppendBody v) r = HttpRequest_appendBody v r"
| "request_step (SetClose v) r = HttpRequest_setClose v r"
| "request_step (SetWebsocket v) r = HttpRequest_setWebsocket v r"
| "request_step InitReq r = HttpRequest_init r"

lemmas request_setters =
  HttpRequest_setHeader_def HttpRequest_setParam_def HttpRequest_setCookie_def HttpRequest_delHeader_def
  HttpRequest_delParam_def HttpRequest_delCookie_def HttpRequest_setMethod_def HttpRequest_setVersion_def
  HttpRequest_setPath_def HttpRequest_setQuery_def HttpRequest_setFragment_def HttpRequest_setBody_def
  HttpRequest_appendBody_def HttpRequest_setClose_def HttpRequest_setWebsocket_def HttpRequest_init_def

lemmas request_getters =
  HttpRequest_getParam_def HttpRequest_getCookie_def HttpRequest_hasParam_def HttpRequest_hasCookie_def

lemma request_step_ok: "request_ok r \<Longrightarrow> request_ok (request_step oper r)"
proof (cases oper)
  case InitReq
  then show "request_ok r \<Longrightarrow> ?thesis" by (simp add: HttpRequest_init_def Let_def request_ok_def)
qed (simp_all add: request_setters request_getters initParams_ok initCookies_ok Let_def,
     simp_all add: request_ok_def mt_laws)

lemma request_new_ok: "request_ok (HttpRequest_new v c)"
  by (simp add: request_ok_def HttpRequest_new_def mt_laws)

lemma request_steps_ok: "request_ok r \<Longrightarrow> request_ok (fold request_step ops r)"
  by (induction ops arbitrary: r) (simp_all add: request_step_ok)

definition run_request :: "byte \<Rightarrow> bool \<Rightarrow> request_op list \<Rightarrow> HttpRequest" where
  "run_request v c ops = fold request_step ops (HttpRequest_new v c)"

lemma run_request_ok: "request_ok (run_request v c ops)"
  unfolding run_request_def by (intro request_steps_ok request_new_ok)

lemma request_headers_parts:
  "request_ok (run_request v c ops)"
  "HttpRequest_getHeader (HttpRequest_setHeader k x (run_request v c ops)) j d =
     (if lkey k = lkey j then x else HttpRequest_getHeader (run_request v c ops) j d)"
  "HttpRequest_getHeader (HttpRequest_delHeader k (run_request v c ops)) j d =
     (if lkey k = lkey j then d else HttpRequest_getHeader (run_request v c ops) j d)"
  using run_request_ok[of v c ops]
  by (simp_all add: HttpRequest_getHeader_def HttpRequest_setHeader_def HttpRequest_delHeader_def
      get_or_def mt_laws request_ok_def)

text \<open>
  After any sequence of calls on a new request, its maps are ordered, and a header is found
  exactly under the names that differ from the one it was set with in letter case only (as C strings):
  setting a header replaces the value under every such name, deleting it removes all of them, and no
  other header changes.\<close>

theorem request_headers:
  "(request_ok (run_request v c ops)) \<and>
    (HttpRequest_getHeader (HttpRequest_setHeader k x (run_request v c ops)) j d =
     (if lkey k = lkey j then x else HttpRequest_getHeader (run_request v c ops) j d)) \<and>
    (HttpRequest_getHeader (HttpRequest_delHeader k (run_request v c ops)) j d =
     (if lkey k = lkey j then d else HttpRequest_getHeader (run_request v c ops) j d))"
  using request_headers_parts by blast

subsection \<open>Query parameters\<close>

lemma find_fold_insert:
  "mt_ok m \<Longrightarrow> mt_find j (fold (\<lambda>(k, v). mt_insert k v) ps m) =
     (case mt_find j m of Some v \<Rightarrow> Some v | None \<Rightarrow> map_option snd (find (\<lambda>p. lkey (fst p) = lkey j) ps))"
proof (induction ps arbitrary: m)
  case (Cons p ps)
  obtain k v where p: "p = (k, v)" by (cases p)
  have "mt_find k m = mt_find j m" if "lkey k = lkey j" using that by (rule mt_find_cong)
  then show ?case using Cons p by (auto simp: mt_laws split: option.split)
qed (simp split: option.split)



lemma flag_bits:
  "(f OR 1) AND 1 \<noteq> (0 :: byte)" "(f OR 2) AND 2 \<noteq> (0 :: byte)" "(f OR 4) AND 4 \<noteq> (0 :: byte)"
  "(f OR 2) AND 1 = (f AND 1 :: byte)" "(f OR 1) AND 2 = (f AND 2 :: byte)"
  by (simp_all add: bit.conj_disj_distrib2)

lemma init_idem:
  "HttpRequest_initQueryParam (HttpRequest_initQueryParam r) = HttpRequest_initQueryParam r"
  "HttpRequest_initBodyParam (HttpRequest_initBodyParam r) = HttpRequest_initBodyParam r"
  "HttpRequest_initCookies (HttpRequest_initCookies r) = HttpRequest_initCookies r"
  "HttpRequest_initQueryParam (HttpRequest_initBodyParam (HttpRequest_initQueryParam r)) =
   HttpRequest_initBodyParam (HttpRequest_initQueryParam r)"
  by (simp_all add: HttpRequest_initQueryParam_def HttpRequest_initBodyParam_def HttpRequest_initCookies_def
      Let_def flag_bits)

text \<open>
  Query, form and cookie parameters are parsed at most once: a second call of an accessor
  that parses on first use returns what the first returned and changes nothing.\<close>

theorem lazy_parsing_once:
  "HttpRequest_getParam (snd (HttpRequest_getParam r key defl)) key defl = HttpRequest_getParam r key defl"
  "HttpRequest_hasParam (snd (HttpRequest_hasParam r key val)) key val = HttpRequest_hasParam r key val"
  "HttpRequest_getCookie (snd (HttpRequest_getCookie r key defl)) key defl = HttpRequest_getCookie r key defl"
  "HttpRequest_hasCookie (snd (HttpRequest_hasCookie r key val)) key val = HttpRequest_hasCookie r key val"
  by (simp_all add: request_getters Let_def HttpRequest_initParams_def init_idem)

text \<open>
  \<open>delParam\<close> and \<open>setQuery\<close> do not take the lazy parsing into account. A parameter deleted
  before the query string is parsed comes back with the first access, and a query string set after the first
  access is never parsed.\<close>

lemma parse_one_param: "PARSE_PARAM ''a=1'' (CHR ''&'') (\<lambda>s. s) 0 [] = [(''a'', ''1'')]"
proof -
  have "UrlDecode ''a'' True = ''a''" "UrlDecode ''1'' True = ''1''" by code_simp+
  then show ?thesis using PARSE_PARAM_last[of "''a''" "CHR ''&''" "''1''" "[]" "\<lambda>s. s" "[]"] by (simp add: mt_insert_def)
qed

theorem delete_before_parse:
  "fst (HttpRequest_getParam (HttpRequest_delParam ''a'' (HttpRequest_setQuery ''a=1'' (HttpRequest_new v c))) ''a'' []) = ''1''"
  "fst (HttpRequest_getParam (HttpRequest_setQuery ''a=1'' (snd (HttpRequest_getParam (HttpRequest_new v c) ''a'' []))) ''a'' []) = []"
proof -
  have find: "mt_find ''a'' [(''a'', ''1'')] = Some ''1''" by code_simp
  have nil: "mt_erase ''a'' [] = []" "mt_find k [] = None" for k
    by (simp_all add: mt_erase_def mt_find_def)
  have form: "\<not> strcasestr [] ''application/x-www-form-urlencoded''" by code_simp
  have empty: "PARSE_PARAM [] (CHR ''&'') (\<lambda>s. s) 0 [] = []" using PARSE_PARAM_end[of "[]" "[]"] by simp
  note defs = HttpRequest_getParam_def HttpRequest_initParams_def HttpRequest_initBodyParam_def
    HttpRequest_initQueryParam_def HttpRequest_setQuery_def HttpRequest_delParam_def HttpRequest_new_def
    HttpRequest_getHeader_def get_or_def c_str_def Let_def
  show "fst (HttpRequest_getParam (HttpRequest_delParam ''a'' (HttpRequest_setQuery ''a=1'' (HttpRequest_new v c))) ''a'' []) = ''1''"
    by (simp add: defs find nil form parse_one_param)
  show "fst (HttpRequest_getParam (HttpRequest_setQuery ''a=1'' (snd (HttpRequest_getParam (HttpRequest_new v c) ''a'' []))) ''a'' []) = []"
    by (simp add: defs find nil form empty)
qed

section \<open>Methods\<close>

lemma prefix_before_space:
  "SP \<notin> set str \<Longrightarrow> prefix str (name @ SP # rest) \<longleftrightarrow> prefix str name"
proof (induction str arbitrary: name)
  case (Cons x str)
  then show ?case by (cases name) auto
qed simp

lemma find_method_cong:
  "(\<And>str. str \<in> snd ` set tab \<Longrightarrow> p str = q str) \<Longrightarrow> find_method p tab = find_method q tab"
proof (induction tab)
  case (Cons e tab)
  then show ?case by (cases e) auto
qed simp

text \<open>
  The names of the methods are read back: \<open>StringToHttpMethod\<close> maps the name of every method to
  its number, and \<open>CharsToHttpMethod\<close> does so for every text that starts with a method
  name and a space.\<close>

theorem method_names:
  assumes "m < INVALID_METHOD"
  shows "StringToHttpMethod (HttpMethodToString m) = m"
    and "CharsToHttpMethod (HttpMethodToString m @ '' '' @ rest) = m"
proof -
  have "INVALID_METHOD = 34" by code_simp
  then have m: "m \<in> set [0..<34]" using assms by simp
  have "\<forall>m \<in> set [0..<34]. StringToHttpMethod (HttpMethodToString m) = m" by code_simp
  then show "StringToHttpMethod (HttpMethodToString m) = m" using m by blast
  let ?name = "HttpMethodToString m"
  have "\<forall>m \<in> set [0..<34]. find_method (\<lambda>str. prefix str (HttpMethodToString m)) HTTP_METHOD_MAP = m"
    by code_simp
  then have first: "find_method (\<lambda>str. prefix str ?name) HTTP_METHOD_MAP = m" using m by blast
  have "\<forall>m \<in> set [0..<34]. NUL \<notin> set (HttpMethodToString m)" by code_simp
  then have "NUL \<notin> set ?name" using m by blast
  then have c: "c_str (?name @ '' '' @ rest) = ?name @ SP # c_str rest"
    by (auto simp: c_str_def takeWhile_append)
  have "list_all (\<lambda>str. SP \<notin> set str) (map snd HTTP_METHOD_MAP)" by code_simp
  then have "\<forall>str \<in> snd ` set HTTP_METHOD_MAP. SP \<notin> set str" by (simp add: list_all_iff)
  then have "find_method (\<lambda>str. prefix str (?name @ SP # c_str rest)) HTTP_METHOD_MAP =
      find_method (\<lambda>str. prefix str ?name) HTTP_METHOD_MAP"
    by (intro find_method_cong prefix_before_space) blast
  then show "CharsToHttpMethod (?name @ '' '' @ rest) = m"
    unfolding CharsToHttpMethod_def c using first by simp
qed

theorem method_names_witness: "CharsToHttpMethod (HttpMethodToString 1 @ '' '' @ ''/index.html'') = 1"
  by (rule method_names(2)) code_simp

section \<open>Text form\<close>

definition named :: "string \<Rightarrow> string \<times> string \<Rightarrow> bool" where
  "named name e \<longleftrightarrow> lkey (fst e) = lkey name"

lemma strcasecmp_lit:
  "strcasecmp (c_str s) ''connection'' = 0 \<longleftrightarrow> lkey s = lkey ''connection''"
  "strcasecmp (c_str s) ''content-length'' = 0 \<longleftrightarrow> lkey s = lkey ''content-length''"
  using strcasecmp_zero[of s "''connection''"] strcasecmp_zero[of s "''content-length''"] by (simp_all add: c_str_def)

text \<open>The shape of a message: the start line, header lines, an empty line, the body.\<close>

definition message_text :: "string \<Rightarrow> (string \<times> string) list \<Rightarrow> string \<Rightarrow> string" where
  "message_text start hs body = start @ CRLF @ concat (map header_line hs) @ CRLF @ body"

definition connection_header :: "bool \<Rightarrow> bool \<Rightarrow> (string \<times> string) list" where
  "connection_header websocket close =
     (if websocket then [] else [(''connection'', if close then ''close'' else ''keep-alive'')])"

definition length_header :: "string \<Rightarrow> (string \<times> string) list" where
  "length_header body = (if body = [] then [] else [(''content-length'', dec_string (length body))])"

definition count_named :: "string \<Rightarrow> (string \<times> string) list \<Rightarrow> nat" where
  "count_named name hs = length (filter (named name) hs)"

lemma header_lines:
  "concat (map header_line (connection_header websocket close)) = (if \<not> websocket then connection_line close else [])"
  "body_part body = concat (map header_line (length_header body)) @ CRLF @ body"
  by (simp_all add: connection_header_def length_header_def header_line_def connection_line_def body_part_def)

lemma keys_differ:
  "lkey ''connection'' \<noteq> lkey ''content-length''" "lkey ''Set-Cookie'' \<noteq> lkey ''content-length''"
  "lkey ''Set-Cookie'' \<noteq> lkey ''connection''"
  by code_simp+

lemma count_named_simps [simp]:
  "count_named n [] = 0"
  "count_named n (e # hs) = (if lkey (fst e) = lkey n then Suc (count_named n hs) else count_named n hs)"
  "count_named n (hs @ hs') = count_named n hs + count_named n hs'"
  by (simp_all add: count_named_def named_def)

lemma count_named_0: "(\<And>e. e \<in> set hs \<Longrightarrow> lkey (fst e) \<noteq> lkey n) \<Longrightarrow> count_named n hs = 0"
  by (induction hs) auto

text \<open>
  The text of a request that is not a websocket request has one connection header, and if it has
  a body one content length header, whose value is the length of the body, whatever headers were set.
  All other headers are written as they are.\<close>

theorem request_text:
  assumes "\<not> rq_websocket r" "rq_body r \<noteq> []"
  shows "\<exists>start hs.
    HttpRequest_dump r = message_text start hs (rq_body r) \<and>
    count_named ''connection'' hs = 1 \<and> count_named ''content-length'' hs = 1 \<and>
    (''content-length'', dec_string (length (rq_body r))) \<in> set hs \<and>
    (\<forall>e. lkey (fst e) \<noteq> lkey ''connection'' \<and> lkey (fst e) \<noteq> lkey ''content-length'' \<longrightarrow>
       e \<in> set hs \<longleftrightarrow> e \<in> set (rq_headers r))"
proof -
  let ?hs = "connection_header False (rq_close r) @ HttpRequest_dumped_headers r @ length_header (rq_body r)"
  let ?start = "HttpMethodToString (rq_method r) @ '' '' @ rq_path r @
     (if rq_query r = [] then [] else ''?'') @ rq_query r @
     (if rq_fragment r = [] then [] else ''#'') @ rq_fragment r @ '' HTTP/'' @ version_string (rq_version r)"
  have dumped: "set (HttpRequest_dumped_headers r) =
      {e \<in> set (rq_headers r). lkey (fst e) \<noteq> lkey ''connection'' \<and> lkey (fst e) \<noteq> lkey ''content-length''}"
    using assms by (auto simp: HttpRequest_dumped_headers_def strcasecmp_lit)
  have "HttpRequest_dump r = message_text ?start ?hs (rq_body r)"
    using assms by (simp add: HttpRequest_dump_def message_text_def header_lines)
  moreover have "count_named ''connection'' (HttpRequest_dumped_headers r) = 0"
    "count_named ''content-length'' (HttpRequest_dumped_headers r) = 0"
    by (rule count_named_0; simp add: dumped)+
  ultimately show ?thesis
    using assms keys_differ dumped
    by (intro exI[of _ ?start] exI[of _ ?hs]) (auto simp: connection_header_def length_header_def)
qed

theorem request_text_witness:
  "\<exists>start hs. HttpRequest_dump (HttpRequest_setBody ''hi'' (HttpRequest_setHeader ''Content-Length'' ''7'' (HttpRequest_new 0x11 True))) =
     message_text start hs ''hi'' \<and> count_named ''content-length'' hs = 1"
  using request_text[of "HttpRequest_setBody ''hi'' (HttpRequest_setHeader ''Content-Length'' ''7'' (HttpRequest_new 0x11 True))"]
  by (auto simp: request_setters HttpRequest_new_def)

text \<open>
  The text of a response has one connection header as well, but a content length header that was set
  by the application is not replaced: a response with a body then carries two.\<close>

theorem response_text:
  assumes "\<not> rs_websocket r" "rs_body r \<noteq> []"
  shows "\<exists>start hs.
    HttpResponse_dump r = message_text start hs (rs_body r) \<and>
    count_named ''connection'' hs = 1 \<and>
    count_named ''content-length'' hs = 1 + count_named ''content-length'' (rs_headers r)"
proof -
  let ?ck = "map (\<lambda>c. (''Set-Cookie'', c)) (rs_cookies r)"
  let ?hs = "HttpResponse_dumped_headers r @ ?ck @ connection_header False (rs_close r) @ length_header (rs_body r)"
  let ?start = "''HTTP/'' @ version_string (rs_version r) @ '' '' @ dec_string (rs_status r) @ '' '' @
     (if rs_reason r = [] then HttpStatusToString (rs_status r) else rs_reason r)"
  have "HttpResponse_dump r = message_text ?start ?hs (rs_body r)"
    using assms by (simp add: HttpResponse_dump_def message_text_def header_lines) (simp add: header_line_def comp_def)
  moreover have "count_named ''connection'' (HttpResponse_dumped_headers r) = 0"
    using assms by (intro count_named_0) (simp add: HttpResponse_dumped_headers_def strcasecmp_lit)
  moreover have "count_named ''content-length'' (HttpResponse_dumped_headers r) = count_named ''content-length'' (rs_headers r)"
    using keys_differ(1)
    by (auto simp: count_named_def HttpResponse_dumped_headers_def strcasecmp_lit named_def
        intro!: arg_cong[where f = length] filter_cong)
  moreover have "count_named n ?ck = 0" if "lkey ''Set-Cookie'' \<noteq> lkey n" for n
    using that by (intro count_named_0) auto
  ultimately show ?thesis
    using assms keys_differ
    by (intro exI[of _ ?start] exI[of _ ?hs]) (auto simp: connection_header_def length_header_def)
qed

theorem response_text_witness:
  "\<exists>start hs. HttpResponse_dump (HttpResponse_setBody ''hi'' (HttpResponse_setHeader ''Content-Length'' ''2'' (HttpResponse_new 0x11 True))) =
     message_text start hs ''hi'' \<and> count_named ''content-length'' hs = 2"
proof -
  have "lkey ''Content-Length'' = lkey ''content-length''" by code_simp
  then show ?thesis
    using response_text[of "HttpResponse_setBody ''hi'' (HttpResponse_setHeader ''Content-Length'' ''2'' (HttpResponse_new 0x11 True))"]
    by (auto simp: HttpResponse_setBody_def HttpResponse_setHeader_def HttpResponse_new_def mt_assign_def
        numeral_2_eq_2 simp del: One_nat_def)
qed

end
