(* ===== verification/HttpMsgParser.thy ===== *)
theory HttpMsgParser
  imports HttpReach HttpMessageLaws
begin

text \<open>
  The request and response parsers of \<open>sylar/http/http_parser.cc\<close>: the callbacks that build a
  message from what the parser of \<open>http-parser\<close> reports, the two settings tables and the two
  \<open>execute\<close> methods. A parser object is the C parser whose data pointer leads back to the other
  members, so the members are the data of the C parser. Logging is left out.
\<close>

section \<open>Request parser\<close>

record request_sink =
  rp_data :: HttpRequest
  rp_error :: http_errno
  rp_finished :: bool
  rp_field :: string

type_synonym HttpRequestParser = "request_sink http_parser"

definition on_sink :: "('d \<Rightarrow> 'd) \<Rightarrow> 'd http_parser \<Rightarrow> 'd http_parser" where
  "on_sink f p = p\<lparr>hp_data := f (hp_data p)\<rparr>"

definition request_data :: "(HttpRequest \<Rightarrow> HttpRequest) \<Rightarrow> HttpRequestParser \<Rightarrow> HttpRequestParser" where
  "request_data f = on_sink (\<lambda>d. d\<lparr>rp_data := f (rp_data d)\<rparr>)"

definition message_version :: "'d http_parser \<Rightarrow> byte" where
  "message_version p = ucast (push_bit 4 (hp_major p) OR hp_minor p)"

definition on_request_message_begin_cb :: "request_sink http_cb" where
  "on_request_message_begin_cb p = (0, p)"

definition on_request_headers_complete_cb :: "request_sink http_cb" where
  "on_request_headers_complete_cb p =
     (0, request_data (HttpRequest_setMethod (method_num (hp_method p)))
           (request_data (HttpRequest_setVersion (message_version p)) p))"

definition on_request_message_complete_cb :: "request_sink http_cb" where
  "on_request_message_complete_cb p = (0, on_sink (\<lambda>d. d\<lparr>rp_finished := True\<rparr>) p)"

definition on_request_chunk_header_cb :: "request_sink http_cb" where
  "on_request_chunk_header_cb p = (0, p)"

definition on_request_chunk_complete_cb :: "request_sink http_cb" where
  "on_request_chunk_complete_cb p = (0, p)"

definition set_if_field ::
    "http_parser_url \<Rightarrow> string \<Rightarrow> url_field \<Rightarrow> (string \<Rightarrow> HttpRequest \<Rightarrow> HttpRequest) \<Rightarrow> HttpRequest \<Rightarrow> HttpRequest" where
  "set_if_field u buf f setter r = (if has_field u f then setter (run_text buf u f) r else r)"

text \<open>
  A failed assertion of the URL parser would end the process; it does not occur, see
  \<open>parse_url_bounds\<close>.
\<close>

definition on_request_url_cb :: "request_sink http_data_cb" where
  "on_request_url_cb buf p =
     (case http_parser_parse_url buf False http_parser_url_init of
        Url_ok u \<Rightarrow>
          (0, request_data
                (set_if_field u buf UF_FRAGMENT HttpRequest_setFragment \<circ>
                 set_if_field u buf UF_QUERY HttpRequest_setQuery \<circ>
                 set_if_field u buf UF_PATH HttpRequest_setPath) p)
      | _ \<Rightarrow> (1, p))"

definition on_request_header_field_cb :: "request_sink http_data_cb" where
  "on_request_header_field_cb buf p = (0, on_sink (\<lambda>d. d\<lparr>rp_field := buf\<rparr>) p)"

definition on_request_header_value_cb :: "request_sink http_data_cb" where
  "on_request_header_value_cb buf p =
     (0, request_data (HttpRequest_setHeader (rp_field (hp_data p)) buf) p)"

definition on_request_status_cb :: "request_sink http_data_cb" where
  "on_request_status_cb buf p = (0, p)"

definition on_request_body_cb :: "request_sink http_data_cb" where
  "on_request_body_cb buf p = (0, request_data (HttpRequest_appendBody buf) p)"

definition s_request_settings :: "request_sink http_parser_settings" where
  "s_request_settings =
     \<lparr>on_message_begin = Some on_request_message_begin_cb, on_url = Some on_request_url_cb,
      on_status = Some on_request_status_cb, on_header_field = Some on_request_header_field_cb,
      on_header_value = Some on_request_header_value_cb,
      on_headers_complete = Some on_request_headers_complete_cb, on_body = Some on_request_body_cb,
      on_message_complete = Some on_request_message_complete_cb,
      on_chunk_header = Some on_request_chunk_header_cb,
      on_chunk_complete = Some on_request_chunk_complete_cb\<rparr>"

definition HttpRequestParser_new :: HttpRequestParser where
  "HttpRequestParser_new =
     http_parser_init HTTP_REQUEST
       \<lparr>rp_data = HttpRequest_new 0x11 True, rp_error = HPE_OK, rp_finished = False, rp_field = []\<rparr>"

text \<open>
  A call of \<open>execute\<close> returns the number of bytes parsed, the contents of the caller's buffer after
  the call and the parser. \<open>None\<close> is a call that does not return.
\<close>

type_synonym 'd exec_result = "(nat \<times> string \<times> 'd http_parser) option"

definition keep_rest :: "nat \<Rightarrow> string \<Rightarrow> string" where
  "keep_rest nparsed buf = (if nparsed < length buf then overwrite 0 (drop nparsed buf) buf else buf)"

definition HttpRequestParser_execute :: "HttpRequestParser \<Rightarrow> string \<Rightarrow> request_sink exec_result" where
  "HttpRequestParser_execute p buf =
     (case http_parser_execute HTTP_MAX_HEADER_SIZE p s_request_settings buf of
        Ret nparsed q \<Rightarrow>
          Some (if hp_upgrade q
                then (nparsed, buf, on_sink (\<lambda>d. d\<lparr>rp_error := HPE_UNKNOWN\<rparr>) q)
                else if hp_errno q \<noteq> HPE_OK
                then (nparsed, buf, on_sink (\<lambda>d. d\<lparr>rp_error := hp_errno q\<rparr>) q)
                else (nparsed, keep_rest nparsed buf, q))
      | _ \<Rightarrow> None)"

section \<open>Response parser\<close>

record response_sink =
  pp_data :: HttpResponse
  pp_error :: http_errno
  pp_finished :: bool
  pp_field :: string

type_synonym HttpResponseParser = "response_sink http_parser"

definition response_data :: "(HttpResponse \<Rightarrow> HttpResponse) \<Rightarrow> HttpResponseParser \<Rightarrow> HttpResponseParser" where
  "response_data f = on_sink (\<lambda>d. d\<lparr>pp_data := f (pp_data d)\<rparr>)"

definition on_response_message_begin_cb :: "response_sink http_cb" where
  "on_response_message_begin_cb p = (0, p)"

definition on_response_headers_complete_cb :: "response_sink http_cb" where
  "on_response_headers_complete_cb p =
     (0, response_data (HttpResponse_setStatus (unat (hp_status_code p)))
           (response_data (HttpResponse_setVersion (message_version p)) p))"

definition on_response_message_complete_cb :: "response_sink http_cb" where
  "on_response_message_complete_cb p = (0, on_sink (\<lambda>d. d\<lparr>pp_finished := True\<rparr>) p)"

definition on_response_chunk_header_cb :: "response_sink http_cb" where
  "on_response_chunk_header_cb p = (0, p)"

definition on_response_chunk_complete_cb :: "response_sink http_cb" where
  "on_response_chunk_complete_cb p = (0, p)"

definition on_response_url_cb :: "response_sink http_data_cb" where
  "on_response_url_cb buf p = (0, p)"

definition on_response_header_field_cb :: "response_sink http_data_cb" where
  "on_response_header_field_cb buf p = (0, on_sink (\<lambda>d. d\<lparr>pp_field := buf\<rparr>) p)"

definition on_response_header_value_cb :: "response_sink http_data_cb" where
  "on_response_header_value_cb buf p =
     (0, response_data (HttpResponse_setHeader (pp_field (hp_data p)) buf) p)"

definition on_response_status_cb :: "response_sink http_data_cb" where
  "on_response_status_cb buf p = (0, response_data (HttpResponse_setStatus (unat (hp_status_code p))) p)"

definition on_response_body_cb :: "response_sink http_data_cb" where
  "on_response_body_cb buf p = (0, response_data (HttpResponse_appendBody buf) p)"

definition s_response_settings :: "response_sink http_parser_settings" where
  "s_response_settings =
     \<lparr>on_message_begin = Some on_response_message_begin_cb, on_url = Some on_response_url_cb,
      on_status = Some on_response_status_cb, on_header_field = Some on_response_header_field_cb,
      on_header_value = Some on_response_header_value_cb,
      on_headers_complete = Some on_response_headers_complete_cb, on_body = Some on_response_body_cb,
      on_message_complete = Some on_response_message_complete_cb,
      on_chunk_header = Some on_response_chunk_header_cb,
      on_chunk_complete = Some on_response_chunk_complete_cb\<rparr>"

definition HttpResponseParser_new :: HttpResponseParser where
  "HttpResponseParser_new =
     http_parser_init HTTP_RESPONSE
       \<lparr>pp_data = HttpResponse_new 0x11 True, pp_error = HPE_OK, pp_finished = False, pp_field = []\<rparr>"

definition HttpResponseParser_execute :: "HttpResponseParser \<Rightarrow> string \<Rightarrow> response_sink exec_result" where
  "HttpResponseParser_execute p buf =
     (case http_parser_execute HTTP_MAX_HEADER_SIZE p s_response_settings buf of
        Ret nparsed q \<Rightarrow>
          Some (if hp_errno q \<noteq> HPE_OK
                then (nparsed, buf, on_sink (\<lambda>d. d\<lparr>pp_error := hp_errno q\<rparr>) q)
                else (nparsed, keep_rest nparsed buf, q))
      | _ \<Rightarrow> None)"

section \<open>The callbacks meet the contract of the C parser\<close>

lemma on_sink_keeps: "(\<And>q. \<exists>f. snd (cb q) = on_sink f q) \<Longrightarrow> keeps_parser cb"
proof -
  assume "\<And>q. \<exists>f. snd (cb q) = on_sink f q"
  then obtain f where "\<And>q. snd (cb q) = on_sink (f q) q" by metis
  then show "keeps_parser cb"
    by (intro keeps_parserI[where g = "\<lambda>q. f q (hp_data q)"]) (simp add: on_sink_def)
qed

lemma on_sink_id: "q = on_sink (\<lambda>d. d) q"
  by (simp add: on_sink_def)

lemma on_sink_comp: "on_sink f (on_sink g q) = on_sink (f \<circ> g) q"
  by (simp add: on_sink_def)

lemma request_settings_ok: "settings_ok s_request_settings"
proof -
  note cbs = on_request_message_begin_cb_def on_request_headers_complete_cb_def on_request_message_complete_cb_def
    on_request_chunk_header_cb_def on_request_chunk_complete_cb_def on_request_url_cb_def
    on_request_header_field_cb_def on_request_header_value_cb_def on_request_status_cb_def on_request_body_cb_def
  have "keeps_parser on_request_message_begin_cb" "keeps_parser on_request_headers_complete_cb"
    "keeps_parser on_request_message_complete_cb" "keeps_parser on_request_chunk_header_cb"
    "keeps_parser on_request_chunk_complete_cb"
    by (rule on_sink_keeps; simp add: cbs request_data_def on_sink_comp; (rule exI, rule refl | rule exI, rule on_sink_id))+
  moreover have "keeps_parser (on_request_url_cb t)" "keeps_parser (on_request_header_field_cb t)"
    "keeps_parser (on_request_header_value_cb t)" "keeps_parser (on_request_status_cb t)"
    "keeps_parser (on_request_body_cb t)" for t
    by (rule on_sink_keeps; simp add: cbs request_data_def split: url_result.split;
        (blast intro: on_sink_id | rule exI, rule refl | rule exI, rule on_sink_id))+
  moreover have "data_cb s_request_settings m =
      Some (case m of M_header_field \<Rightarrow> on_request_header_field_cb | M_header_value \<Rightarrow> on_request_header_value_cb
        | M_url \<Rightarrow> on_request_url_cb | M_body \<Rightarrow> on_request_body_cb | M_status \<Rightarrow> on_request_status_cb)" for m
    by (cases m) (simp_all add: s_request_settings_def data_cb_def)
  ultimately show ?thesis
    unfolding settings_ok_def by (auto simp: s_request_settings_def split: mark.split)
qed

lemma response_settings_ok: "settings_ok s_response_settings"
proof -
  note cbs = on_response_message_begin_cb_def on_response_headers_complete_cb_def on_response_message_complete_cb_def
    on_response_chunk_header_cb_def on_response_chunk_complete_cb_def on_response_url_cb_def
    on_response_header_field_cb_def on_response_header_value_cb_def on_response_status_cb_def on_response_body_cb_def
  have "keeps_parser on_response_message_begin_cb" "keeps_parser on_response_headers_complete_cb"
    "keeps_parser on_response_message_complete_cb" "keeps_parser on_response_chunk_header_cb"
    "keeps_parser on_response_chunk_complete_cb"
    by (rule on_sink_keeps; simp add: cbs response_data_def on_sink_comp; (rule exI, rule refl | rule exI, rule on_sink_id))+
  moreover have "keeps_parser (on_response_url_cb t)" "keeps_parser (on_response_header_field_cb t)"
    "keeps_parser (on_response_header_value_cb t)" "keeps_parser (on_response_status_cb t)"
    "keeps_parser (on_response_body_cb t)" for t
    by (rule on_sink_keeps; simp add: cbs response_data_def; (rule exI, rule refl | rule exI, rule on_sink_id))+
  moreover have "data_cb s_response_settings m =
      Some (case m of M_header_field \<Rightarrow> on_response_header_field_cb | M_header_value \<Rightarrow> on_response_header_value_cb
        | M_url \<Rightarrow> on_response_url_cb | M_body \<Rightarrow> on_response_body_cb | M_status \<Rightarrow> on_response_status_cb)" for m
    by (cases m) (simp_all add: s_response_settings_def data_cb_def)
  ultimately show ?thesis
    unfolding settings_ok_def by (auto simp: s_response_settings_def split: mark.split)
qed

interpretation request_client: parser_client s_request_settings
  by unfold_locales (rule request_settings_ok)

interpretation response_client: parser_client s_response_settings
  by unfold_locales (rule response_settings_ok)

lemma on_sink_inv [simp]: "parser_inv mx (on_sink f p) = parser_inv mx p"
  by (simp add: parser_inv_def on_sink_def state_ok_cong)

lemma on_sink_simps [simp]:
  "hp_errno (on_sink f p) = hp_errno p" "hp_upgrade (on_sink f p) = hp_upgrade p"
  "hp_data (on_sink f p) = f (hp_data p)" "hp_state (on_sink f p) = hp_state p"
  "hp_content_length (on_sink f p) = hp_content_length p"
  by (simp_all add: on_sink_def)

section \<open>Every call returns\<close>

text \<open>The parsers that a sequence of calls of \<open>execute\<close> leads to.\<close>

inductive request_run :: "HttpRequestParser \<Rightarrow> bool" where
  run_new: "request_run HttpRequestParser_new"
| run_execute: "request_run p \<Longrightarrow> length buf < 2 ^ 64 \<Longrightarrow>
    HttpRequestParser_execute p buf = Some (n, buf', q) \<Longrightarrow> request_run q"

lemma request_execute_good:
  assumes p: "parser_inv HTTP_MAX_HEADER_SIZE p" and len: "length buf < 2 ^ 64"
  shows "\<exists>n buf' q. HttpRequestParser_execute p buf = Some (n, buf', q) \<and>
    parser_inv HTTP_MAX_HEADER_SIZE q \<and>
    (buf \<noteq> [] \<longrightarrow> n \<le> length buf \<and> buf' = buf \<and>
       (hp_errno q = HPE_OK \<and> \<not> hp_upgrade q \<longrightarrow> n = length buf))"
proof -
  from request_client.execute_good[OF len p] obtain n q where
    q: "http_parser_execute HTTP_MAX_HEADER_SIZE p s_request_settings buf = Ret n q"
      "parser_inv HTTP_MAX_HEADER_SIZE q"
      "buf \<noteq> [] \<longrightarrow> n \<le> length buf \<and> (hp_errno q = HPE_OK \<longrightarrow> n = length buf \<or> hp_upgrade q)"
    by blast
  then show ?thesis by (auto simp: HttpRequestParser_execute_def keep_rest_def)
qed

lemma request_run_inv: "request_run p \<Longrightarrow> parser_inv HTTP_MAX_HEADER_SIZE p"
proof (induction rule: request_run.induct)
  case run_new
  then show ?case by (simp add: HttpRequestParser_new_def init_inv)
next
  case (run_execute p buf n buf' q)
  then show ?case using request_execute_good[of p buf] by auto
qed

text \<open>
  C14: Whatever bytes a client sends and however they are cut into buffers, each call of
  \<open>HttpRequestParser::execute\<close> returns: the callbacks meet the contract of the C parser, so
  no loop runs forever, no assertion fails and nothing outside the buffer is read. A call
  that reports neither an error nor an upgrade has consumed the whole buffer, so the rest that
  the method would move to the front of the buffer is always empty.\<close>

theorem request_parser_safe:
  assumes "request_run p" "buf \<noteq> []" "length buf < 2 ^ 64"
  shows "\<exists>n buf' q. HttpRequestParser_execute p buf = Some (n, buf', q) \<and> n \<le> length buf \<and> buf' = buf \<and>
    (hp_errno q = HPE_OK \<and> \<not> hp_upgrade q \<longrightarrow> n = length buf)"
  using request_execute_good[OF request_run_inv[OF assms(1)] assms(3)] assms(2) by auto

theorem request_parser_safe_witness:
  "\<exists>n buf' q. HttpRequestParser_execute HttpRequestParser_new ''GET / HTTP/1.1'' = Some (n, buf', q) \<and> n \<le> 14"
  using request_parser_safe[OF run_new, of "''GET / HTTP/1.1''"] by auto

section \<open>Bodies\<close>

lemma request_collects_body:
  "collects_body (\<lambda>t d. d\<lparr>rp_data := HttpRequest_appendBody t (rp_data d)\<rparr>) s_request_settings"
proof -
  have "on_request_body_cb = add_body (\<lambda>t d. d\<lparr>rp_data := HttpRequest_appendBody t (rp_data d)\<rparr>)"
    by (intro ext) (simp add: on_request_body_cb_def add_body_def request_data_def on_sink_def)
  then show ?thesis by (simp add: collects_body_def s_request_settings_def)
qed

lemma fold_append_body:
  "fold (\<lambda>t d. d\<lparr>rp_data := HttpRequest_appendBody t (rp_data d)\<rparr>) bufs d =
   d\<lparr>rp_data := (rp_data d)\<lparr>rq_body := rq_body (rp_data d) @ concat bufs\<rparr>\<rparr>"
proof (induction bufs arbitrary: d)
  case Nil
  then show ?case by simp
next
  case (Cons t bufs)
  then show ?case by (simp add: HttpRequest_appendBody_def)
qed

lemma request_notes_complete: "notes_complete (\<lambda>d. d\<lparr>rp_finished := True\<rparr>) s_request_settings"
  unfolding notes_complete_def s_request_settings_def
  by (simp add: on_request_message_complete_cb_def on_sink_def fun_eq_iff)

text \<open>
  C13: A request body of known length is collected unchanged and completed at exactly its announced
  length. The bytes after the headers may be cut into any non-empty buffers, up to the
  announced length: every call consumes its buffer without error, the body of the request grows by exactly
  these bytes in order, nothing else of the request changes, and the remaining length is what was
  announced less what was fed. While bytes are missing the parser stays in the body and the request is not
  finished by these calls; the buffer with the last byte finishes the request and takes the parser to the
  state for the next message (or to the dead state, when the connection is not kept alive).\<close>

theorem body_fragments:
  assumes "hp_state p = s_body_identity" "hp_errno p = HPE_OK"
    "hp_content_length p \<noteq> 0" "hp_content_length p \<noteq> ULLONG_MAX"
    "[] \<notin> set bufs" "length (concat bufs) \<le> unat (hp_content_length p)"
  shows "\<exists>q. feed HTTP_MAX_HEADER_SIZE s_request_settings p bufs = Some q \<and> hp_errno q = HPE_OK \<and>
    unat (hp_content_length q) = unat (hp_content_length p) - length (concat bufs) \<and>
    (let d = (hp_data p)\<lparr>rp_data := (rp_data (hp_data p))\<lparr>rq_body := rq_body (rp_data (hp_data p)) @ concat bufs\<rparr>\<rparr>
     in if length (concat bufs) < unat (hp_content_length p)
        then hp_state q = s_body_identity \<and> hp_data q = d
        else hp_state q = NEW_MESSAGE q \<and> hp_data q = d\<lparr>rp_finished := True\<rparr>)"
proof (cases "length (concat bufs) < unat (hp_content_length p)")
  case True
  then show ?thesis
    using feed_body[OF request_collects_body assms(1,2,4,5), of HTTP_MAX_HEADER_SIZE]
    by (auto simp: fold_append_body)
next
  case False
  moreover have "0 < unat (hp_content_length p)" using assms(3) by (simp add: unat_gt_0)
  ultimately have "bufs \<noteq> []" "length (concat bufs) = unat (hp_content_length p)" using assms(6) by auto
  from feed_whole_body[OF request_collects_body request_notes_complete assms(1,2,4,5) this, of HTTP_MAX_HEADER_SIZE]
  show ?thesis using \<open>length (concat bufs) = unat (hp_content_length p)\<close> by (auto simp: fold_append_body)
qed

theorem body_fragments_witness:
  "\<exists>q. feed HTTP_MAX_HEADER_SIZE s_request_settings
         (HttpRequestParser_new\<lparr>hp_state := s_body_identity, hp_content_length := 7\<rparr>) [''ab'', ''cdefg''] = Some q \<and>
     rq_body (rp_data (hp_data q)) = ''abcdefg'' \<and> rp_finished (hp_data q) \<and> hp_content_length q = 0"
proof -
  have "(7 :: u64) \<noteq> ULLONG_MAX" by code_simp
  then show ?thesis
    using body_fragments[of "HttpRequestParser_new\<lparr>hp_state := s_body_identity, hp_content_length := 7\<rparr>" "[''ab'', ''cdefg'']"]
    by (auto simp: HttpRequestParser_new_def http_parser_init_def HttpRequest_new_def Let_def unsigned_eq_0_iff simp del: feed.simps)
qed

section \<open>Concrete messages\<close>

fun request_feed :: "string list \<Rightarrow> HttpRequestParser \<Rightarrow> HttpRequestParser option" where
  "request_feed [] p = Some p"
| "request_feed (buf # bufs) p =
     (case HttpRequestParser_execute p buf of Some (n, buf', q) \<Rightarrow> request_feed bufs q | None \<Rightarrow> None)"

definition parsed_request :: "string list \<Rightarrow> (bool \<times> http_errno \<times> HttpRequest) option" where
  "parsed_request bufs =
     map_option (\<lambda>p. (rp_finished (hp_data p), rp_error (hp_data p), rp_data (hp_data p)))
       (request_feed bufs HttpRequestParser_new)"

definition parsed_response :: "string \<Rightarrow> (bool \<times> http_errno \<times> HttpResponse) option" where
  "parsed_response buf =
     map_option (\<lambda>(n, buf', p). (pp_finished (hp_data p), pp_error (hp_data p), pp_data (hp_data p)))
       (HttpResponseParser_execute HttpResponseParser_new buf)"

definition sample_request :: HttpRequest where
  "sample_request =
     HttpRequest_setBody ''hello'' (HttpRequest_setHeader ''Host'' ''h'' (HttpRequest_setQuery ''a=1''
       (HttpRequest_setPath ''/p'' (HttpRequest_setMethod 3 (HttpRequest_new 0x11 True)))))"

text \<open>The text of a request is parsed back to its method, path, query, headers and body.\<close>

lemma sample_request_parsed:
  "parsed_request [HttpRequest_dump sample_request] =
     Some (True, HPE_OK,
       HttpRequest_setHeader ''connection'' ''close'' (HttpRequest_setHeader ''content-length'' ''5'' sample_request))"
  by code_simp

definition header_seen :: "string list \<Rightarrow> string \<Rightarrow> string option" where
  "header_seen bufs key = Option.bind (parsed_request bufs) (\<lambda>(fin, err, r). mt_find key (rq_headers r))"

lemma fragments_misparsed_parts:
  "header_seen [''GET / HTTP/1.1'' @ CRLF @ ''Host: abc'' @ CRLF @ CRLF] ''Host'' = Some ''abc''"
  "header_seen [''GET / HTTP/1.1'' @ CRLF @ ''Ho'', ''st: abc'' @ CRLF @ CRLF] ''Host'' = None"
  "header_seen [''GET / HTTP/1.1'' @ CRLF @ ''Host: a'', ''bc'' @ CRLF @ CRLF] ''Host'' = Some ''bc''"
  "map_option (\<lambda>(fin, err, r). (err, rq_path r)) (parsed_request [''GET /a/b HTTP/1.1'' @ CRLF @ CRLF]) = Some (HPE_OK, ''/a/b'')"
  "map_option (\<lambda>(fin, err, r). (err, rq_path r)) (parsed_request [''GET /a'', ''/b HTTP/1.1'' @ CRLF @ CRLF]) = Some (HPE_OK, ''/b'')"
  "map_option (\<lambda>(fin, err, r). err) (parsed_request [''GET /a/'', ''b HTTP/1.1'' @ CRLF @ CRLF]) = Some HPE_CB_url"
  by code_simp+

text \<open>
  The callbacks take every fragment for a whole. A buffer boundary inside a header name leaves a header
  whose name is the second fragment, a boundary inside a header value keeps only the second
  fragment, a boundary inside the path either keeps only the last part or, when the rest does not look like a
  URL of its own, makes the parser reject a request that it accepts in one piece.\<close>

theorem fragments_misparsed:
  "(header_seen [''GET / HTTP/1.1'' @ CRLF @ ''Host: abc'' @ CRLF @ CRLF] ''Host'' = Some ''abc'') \<and>
    (header_seen [''GET / HTTP/1.1'' @ CRLF @ ''Ho'', ''st: abc'' @ CRLF @ CRLF] ''Host'' = None) \<and>
    (header_seen [''GET / HTTP/1.1'' @ CRLF @ ''Host: a'', ''bc'' @ CRLF @ CRLF] ''Host'' = Some ''bc'') \<and>
    (map_option (\<lambda>(fin, err, r). (err, rq_path r)) (parsed_request [''GET /a/b HTTP/1.1'' @ CRLF @ CRLF]) = Some (HPE_OK, ''/a/b'')) \<and>
    (map_option (\<lambda>(fin, err, r). (err, rq_path r)) (parsed_request [''GET /a'', ''/b HTTP/1.1'' @ CRLF @ CRLF]) = Some (HPE_OK, ''/b'')) \<and>
    (map_option (\<lambda>(fin, err, r). err) (parsed_request [''GET /a/'', ''b HTTP/1.1'' @ CRLF @ CRLF]) = Some HPE_CB_url)"
  using fragments_misparsed_parts by blast

text \<open>
  The request parser does not stop at the end of a message: when a buffer holds two requests one after
  the other, both go into the same request object, which then has the path of the second, the query string of
  the first and the two bodies one after the other.\<close>

theorem pipelined_requests_merge:
  "map_option (\<lambda>(fin, err, r). (fin, err, rq_path r, rq_query r, rq_body r))
     (parsed_request [''PUT /a?x=1 HTTP/1.1'' @ CRLF @ ''Content-Length: 2'' @ CRLF @ CRLF @ ''hi'' @
                      ''PUT /b HTTP/1.1'' @ CRLF @ ''Content-Length: 3'' @ CRLF @ CRLF @ ''abc'']) =
   Some (True, HPE_OK, ''/b'', ''x=1'', ''hiabc'')"
  by code_simp

text \<open>
  A response on which the application has set a content length, with a body, is written in a form that
  the response parser of the same library rejects.\<close>

theorem response_rejected:
  "map_option (\<lambda>(fin, err, r). err)
     (parsed_response (HttpResponse_dump (HttpResponse_setBody ''hi'' (HttpResponse_new 0x11 True)))) = Some HPE_OK"
  "map_option (\<lambda>(fin, err, r). err)
     (parsed_response (HttpResponse_dump (HttpResponse_setBody ''hi''
        (HttpResponse_setHeader ''Content-Length'' ''2'' (HttpResponse_new 0x11 True))))) =
   Some HPE_UNEXPECTED_CONTENT_LENGTH"
  by code_simp+

end
