(* ===== verification/Servlet.thy ===== *)
theory Servlet
  imports HttpMessage
begin

text \<open>
  Servlets and their dispatcher, \<open>http/servlet.h\<close> and \<open>http/servlet.cc\<close>. An application servlet is the
  function that its \<open>handle\<close> computes on the request and the response; it has no access to the connection
  here. The pattern test \<open>fnmatch\<close> of the C library is an argument.
\<close>

section \<open>Servlets\<close>

type_synonym handler = "HttpRequest \<Rightarrow> HttpResponse \<Rightarrow> int \<times> HttpRequest \<times> HttpResponse"

datatype servlet = FunctionServlet handler | NotFoundServlet string | UserServlet string handler

definition NotFoundServlet_new :: "string \<Rightarrow> servlet" where
  "NotFoundServlet_new name =
     NotFoundServlet (''<html><head><title>404 Not Found'' @
       ''</title></head><body><center><h1>404 Not Found</h1></center>'' @
       ''<hr><center>'' @ name @ ''</center></body></html>'')"

definition NOT_FOUND :: HttpStatus where "NOT_FOUND = 404"

fun Servlet_handle :: "servlet \<Rightarrow> handler" where
  "Servlet_handle (FunctionServlet cb) req rsp = cb req rsp"
| "Servlet_handle (UserServlet name f) req rsp = f req rsp"
| "Servlet_handle (NotFoundServlet content) req rsp =
     (0, req, HttpResponse_setBody content (HttpResponse_setHeader ''Content-Type'' ''text/html''
        (HttpResponse_setHeader ''Server'' ''sylar/1.0.0'' (HttpResponse_setStatus NOT_FOUND rsp))))"

fun Servlet_getName :: "servlet \<Rightarrow> string" where
  "Servlet_getName (FunctionServlet cb) = ''FunctionServlet''"
| "Servlet_getName (NotFoundServlet content) = ''NotFoundServlet''"
| "Servlet_getName (UserServlet name f) = name"

text \<open>A creator of a class \<open>T\<close> has the name of the class and the object that \<open>new T\<close> makes.\<close>

datatype IServletCreator = HoldServletCreator servlet | ServletCreator string servlet

fun Creator_get :: "IServletCreator \<Rightarrow> servlet" where
  "Creator_get (HoldServletCreator slt) = slt"
| "Creator_get (ServletCreator name slt) = slt"

fun Creator_getName :: "IServletCreator \<Rightarrow> string" where
  "Creator_getName (HoldServletCreator slt) = Servlet_getName slt"
| "Creator_getName (ServletCreator name slt) = name"

section \<open>Dispatcher\<close>

record ServletDispatch =
  sd_datas :: "string \<rightharpoonup> IServletCreator"
  sd_globs :: "(string \<times> IServletCreator) list"
  sd_default :: "servlet option"

definition ServletDispatch_new :: ServletDispatch where
  "ServletDispatch_new = \<lparr>sd_datas = Map.empty, sd_globs = [], sd_default = Some (NotFoundServlet_new ''sylar/1.0'')\<rparr>"

definition addServletCreator :: "string \<Rightarrow> IServletCreator \<Rightarrow> ServletDispatch \<Rightarrow> ServletDispatch" where
  "addServletCreator uri c d = d\<lparr>sd_datas := (sd_datas d)(uri \<mapsto> c)\<rparr>"

definition addServlet :: "string \<Rightarrow> servlet \<Rightarrow> ServletDispatch \<Rightarrow> ServletDispatch" where
  "addServlet uri slt d = d\<lparr>sd_datas := (sd_datas d)(uri \<mapsto> HoldServletCreator slt)\<rparr>"

definition addServlet_cb :: "string \<Rightarrow> handler \<Rightarrow> ServletDispatch \<Rightarrow> ServletDispatch" where
  "addServlet_cb uri cb d = d\<lparr>sd_datas := (sd_datas d)(uri \<mapsto> HoldServletCreator (FunctionServlet cb))\<rparr>"

text \<open>The loop that erases the first entry with the pattern.\<close>

fun erase_first :: "string \<Rightarrow> (string \<times> 'c) list \<Rightarrow> (string \<times> 'c) list" where
  "erase_first uri [] = []"
| "erase_first uri ((k, c) # gs) = (if k = uri then gs else (k, c) # erase_first uri gs)"

definition addGlobServletCreator :: "string \<Rightarrow> IServletCreator \<Rightarrow> ServletDispatch \<Rightarrow> ServletDispatch" where
  "addGlobServletCreator uri c d = d\<lparr>sd_globs := erase_first uri (sd_globs d) @ [(uri, c)]\<rparr>"

definition addGlobServlet :: "string \<Rightarrow> servlet \<Rightarrow> ServletDispatch \<Rightarrow> ServletDispatch" where
  "addGlobServlet uri slt d = d\<lparr>sd_globs := erase_first uri (sd_globs d) @ [(uri, HoldServletCreator slt)]\<rparr>"

definition addGlobServlet_cb :: "string \<Rightarrow> handler \<Rightarrow> ServletDispatch \<Rightarrow> ServletDispatch" where
  "addGlobServlet_cb uri cb d = addGlobServlet uri (FunctionServlet cb) d"

definition delServlet :: "string \<Rightarrow> ServletDispatch \<Rightarrow> ServletDispatch" where
  "delServlet uri d = d\<lparr>sd_datas := (sd_datas d)(uri := None)\<rparr>"

definition delGlobServlet :: "string \<Rightarrow> ServletDispatch \<Rightarrow> ServletDispatch" where
  "delGlobServlet uri d = d\<lparr>sd_globs := erase_first uri (sd_globs d)\<rparr>"

definition setDefault :: "servlet option \<Rightarrow> ServletDispatch \<Rightarrow> ServletDispatch" where
  "setDefault v d = d\<lparr>sd_default := v\<rparr>"

definition getServlet :: "string \<Rightarrow> ServletDispatch \<Rightarrow> servlet option" where
  "getServlet uri d = (case sd_datas d uri of None \<Rightarrow> None | Some c \<Rightarrow> Some (Creator_get c))"

fun first_glob :: "(string \<Rightarrow> bool) \<Rightarrow> (string \<times> IServletCreator) list \<Rightarrow> servlet option" where
  "first_glob test [] = None"
| "first_glob test ((k, c) # gs) = (if test k then Some (Creator_get c) else first_glob test gs)"

definition getGlobServlet :: "string \<Rightarrow> ServletDispatch \<Rightarrow> servlet option" where
  "getGlobServlet uri d = first_glob (\<lambda>k. k = uri) (sd_globs d)"

definition getMatchedServlet :: "(string \<Rightarrow> string \<Rightarrow> bool) \<Rightarrow> string \<Rightarrow> ServletDispatch \<Rightarrow> servlet option" where
  "getMatchedServlet fnmatch uri d =
     (case sd_datas d uri of
        Some c \<Rightarrow> Some (Creator_get c)
      | None \<Rightarrow> (case first_glob (\<lambda>k. fnmatch (c_str k) (c_str uri)) (sd_globs d) of
                  Some slt \<Rightarrow> Some slt
                | None \<Rightarrow> sd_default d))"

definition ServletDispatch_handle :: "(string \<Rightarrow> string \<Rightarrow> bool) \<Rightarrow> ServletDispatch \<Rightarrow> handler" where
  "ServletDispatch_handle fnmatch d req rsp =
     (case getMatchedServlet fnmatch (rq_path req) d of
        Some slt \<Rightarrow> (case Servlet_handle slt req rsp of (r, req1, rsp1) \<Rightarrow> (0, req1, rsp1))
      | None \<Rightarrow> (0, req, rsp))"

definition listAllServletCreator :: "ServletDispatch \<Rightarrow> (string \<rightharpoonup> IServletCreator) \<Rightarrow> (string \<rightharpoonup> IServletCreator)" where
  "listAllServletCreator d infos = infos ++ sd_datas d"

definition listAllGlobServletCreator :: "ServletDispatch \<Rightarrow> (string \<rightharpoonup> IServletCreator) \<Rightarrow> (string \<rightharpoonup> IServletCreator)" where
  "listAllGlobServletCreator d infos = foldl (\<lambda>m (k, c). m(k \<mapsto> c)) infos (sd_globs d)"

section \<open>Registered patterns\<close>

inductive dispatch_run :: "ServletDispatch \<Rightarrow> bool" where
  dr_new: "dispatch_run ServletDispatch_new"
| dr_add: "dispatch_run d \<Longrightarrow> dispatch_run (addServlet uri slt d)"
| dr_add_cb: "dispatch_run d \<Longrightarrow> dispatch_run (addServlet_cb uri cb d)"
| dr_add_creator: "dispatch_run d \<Longrightarrow> dispatch_run (addServletCreator uri c d)"
| dr_glob: "dispatch_run d \<Longrightarrow> dispatch_run (addGlobServlet uri slt d)"
| dr_glob_cb: "dispatch_run d \<Longrightarrow> dispatch_run (addGlobServlet_cb uri cb d)"
| dr_glob_creator: "dispatch_run d \<Longrightarrow> dispatch_run (addGlobServletCreator uri c d)"
| dr_del: "dispatch_run d \<Longrightarrow> dispatch_run (delServlet uri d)"
| dr_del_glob: "dispatch_run d \<Longrightarrow> dispatch_run (delGlobServlet uri d)"
| dr_default: "dispatch_run d \<Longrightarrow> dispatch_run (setDefault v d)"

lemma erase_first_filter: "distinct (map fst gs) \<Longrightarrow> erase_first uri gs = filter (\<lambda>g. fst g \<noteq> uri) gs"
proof (induction uri gs rule: erase_first.induct)
  case (2 uri k c gs)
  show ?case
  proof (cases "k = uri")
    case True
    then have "\<forall>g \<in> set gs. fst g \<noteq> uri" using "2.prems" by force
    then show ?thesis using True by simp
  next
    case False
    then show ?thesis using 2 by simp
  qed
qed simp

lemma distinct_erase: "distinct (map fst gs) \<Longrightarrow> distinct (map fst (erase_first uri gs)) \<and> uri \<notin> fst ` set (erase_first uri gs)"
  by (auto simp: erase_first_filter distinct_map_filter)

lemma dispatch_run_distinct: "dispatch_run d \<Longrightarrow> distinct (map fst (sd_globs d))"
  by (induction rule: dispatch_run.induct)
    (auto simp: ServletDispatch_new_def addServlet_def addServlet_cb_def addServletCreator_def addGlobServlet_def
      addGlobServlet_cb_def addGlobServletCreator_def delServlet_def delGlobServlet_def setDefault_def dest: distinct_erase)

lemma first_glob_append:
  "first_glob test (gs @ hs) = (case first_glob test gs of Some slt \<Rightarrow> Some slt | None \<Rightarrow> first_glob test hs)"
  by (induction test gs rule: first_glob.induct) auto

lemma first_glob_None: "first_glob test gs = None \<longleftrightarrow> (\<forall>k \<in> fst ` set gs. \<not> test k)"
  by (induction test gs rule: first_glob.induct) auto

lemma first_glob_filter:
  "uri' \<noteq> uri \<Longrightarrow> first_glob (\<lambda>k. k = uri') (filter (\<lambda>g. fst g \<noteq> uri) gs) = first_glob (\<lambda>k. k = uri') gs"
  by (induction "\<lambda>k. k = uri'" gs rule: first_glob.induct) auto

text \<open>
  The registry of patterns after any sequence of registrations and removals: each pattern is registered at most once,
  so a removed pattern is gone, a registered one gives the last servlet registered for it, and the others
  are not affected. A registration, also of a known pattern, puts the pattern behind all others.\<close>

theorem glob_registry:
  assumes "dispatch_run d"
  shows "getGlobServlet uri (delGlobServlet uri d) = None \<and>
    getGlobServlet uri (addGlobServlet uri slt d) = Some slt \<and>
    (uri' \<noteq> uri \<longrightarrow> getGlobServlet uri' (delGlobServlet uri d) = getGlobServlet uri' d \<and>
       getGlobServlet uri' (addGlobServlet uri slt d) = getGlobServlet uri' d) \<and>
    fst (last (sd_globs (addGlobServlet uri slt d))) = uri"
proof -
  note dist = dispatch_run_distinct[OF assms]
  have none: "first_glob (\<lambda>k. k = uri) (erase_first uri (sd_globs d)) = None"
    using distinct_erase[OF dist, of uri] by (auto simp: first_glob_None)
  moreover have "uri' \<noteq> uri \<Longrightarrow> first_glob (\<lambda>k. k = uri') (erase_first uri (sd_globs d)) = first_glob (\<lambda>k. k = uri') (sd_globs d)"
    by (simp add: erase_first_filter[OF dist] first_glob_filter)
  ultimately show ?thesis
    by (auto simp: getGlobServlet_def delGlobServlet_def addGlobServlet_def first_glob_append split: option.splits)
qed

theorem glob_registry_witness:
  "getGlobServlet ''/a/*'' (delGlobServlet ''/a/*'' (addGlobServlet ''/a/*'' (NotFoundServlet ''x'') ServletDispatch_new)) = None"
  using glob_registry[OF dr_glob[OF dr_new]] by blast


end
