(* ===== verification/HttpSession.thy ===== *)
theory HttpSession
  imports HttpMsgParser SocketStream Servlet
begin

text \<open>
  The two ends of an HTTP connection: \<open>HttpSession\<close> of \<open>http/http_session.cc\<close> that receives requests and sends
  responses, the sending and receiving of \<open>HttpConnection\<close> in \<open>http/http_connection.cc\<close>, and the loop of
  \<open>HttpServer::handleClient\<close> in \<open>http/http_server.cc\<close> that serves a client. The size of the buffer is a
  configuration variable and an argument here.
\<close>

section \<open>Receiving a message\<close>

lemma SocketStream_read_smaller: "(r, bs, s') = SocketStream_read n s \<Longrightarrow> \<not> r \<le> 0 \<Longrightarrow> in_size s' < in_size s"
  using SocketStream_read_progress(1)[of n s r bs s'] by simp

text \<open>
  The loop that \<open>recvRequest\<close> and \<open>recvResponse\<close> share: read behind the bytes left in the buffer, parse, keep the rest. \<open>exec\<close> is the
  parser's \<open>execute\<close>. The outcome is the parser when the message is finished, no parser when the connection was
  closed, and \<open>None\<close> when a call of the parser does not return.
\<close>

function recv_loop ::
    "('p \<Rightarrow> string \<Rightarrow> (nat \<times> string \<times> 'p) option) \<Rightarrow> ('p \<Rightarrow> bool) \<Rightarrow> ('p \<Rightarrow> bool) \<Rightarrow> nat \<Rightarrow> 'p \<Rightarrow> string \<Rightarrow> char socket \<Rightarrow>
     ('p option \<times> char socket) option" where
  "recv_loop exec hasError isFinished buff_size p rest s =
     (case SocketStream_read (buff_size - length rest) s of
        (r, bs, s1) \<Rightarrow>
          if r \<le> 0 then Some (None, SocketStream_close s1)
          else (case exec p (rest @ bs) of
                  None \<Rightarrow> None
                | Some (nparse, data, q) \<Rightarrow>
                    if hasError q then Some (None, SocketStream_close s1)
                    else let offset = length (rest @ bs) - nparse
                         in if offset = buff_size then Some (None, SocketStream_close s1)
                            else if isFinished q then Some (Some q, s1)
                            else recv_loop exec hasError isFinished buff_size q (take offset data) s1))"
  by pat_completeness auto
termination
  by (relation "measure (\<lambda>(exec, hasError, isFinished, buff_size, p, rest, s). in_size s)")
    (auto intro: SocketStream_read_smaller)

declare recv_loop.simps [simp del]

definition request_failed :: "HttpRequestParser \<Rightarrow> bool" where
  "request_failed p \<longleftrightarrow> rp_error (hp_data p) \<noteq> HPE_OK"

definition request_finished :: "HttpRequestParser \<Rightarrow> bool" where
  "request_finished p \<longleftrightarrow> rp_finished (hp_data p)"

definition recvRequest :: "nat \<Rightarrow> char socket \<Rightarrow> (HttpRequest option \<times> char socket) option" where
  "recvRequest buff_size s =
     (case recv_loop HttpRequestParser_execute request_failed request_finished buff_size HttpRequestParser_new [] s of
        None \<Rightarrow> None
      | Some (None, s1) \<Rightarrow> Some (None, s1)
      | Some (Some p, s1) \<Rightarrow> Some (Some (HttpRequest_init (rp_data (hp_data p))), s1))"

definition sendResponse :: "HttpResponse \<Rightarrow> char socket \<Rightarrow> int \<times> char socket" where
  "sendResponse rsp s = writeFixSize SocketStream_write (HttpResponse_dump rsp) s"

definition response_failed :: "HttpResponseParser \<Rightarrow> bool" where
  "response_failed p \<longleftrightarrow> pp_error (hp_data p) \<noteq> HPE_OK"

definition response_finished :: "HttpResponseParser \<Rightarrow> bool" where
  "response_finished p \<longleftrightarrow> pp_finished (hp_data p)"

definition recvResponse :: "nat \<Rightarrow> char socket \<Rightarrow> (HttpResponse option \<times> char socket) option" where
  "recvResponse buff_size s =
     (case recv_loop HttpResponseParser_execute response_failed response_finished buff_size HttpResponseParser_new [] s of
        None \<Rightarrow> None
      | Some (None, s1) \<Rightarrow> Some (None, s1)
      | Some (Some p, s1) \<Rightarrow> Some (Some (pp_data (hp_data p)), s1))"

definition sendRequest :: "HttpRequest \<Rightarrow> char socket \<Rightarrow> int \<times> char socket" where
  "sendRequest req s = writeFixSize SocketStream_write (HttpRequest_dump req) s"

section \<open>The loop returns\<close>

lemma close_disconnects [simp]: "\<not> sk_isConnected (SocketStream_close s)"
  by (simp add: SocketStream_close_def Socket_close_def)

lemma close_keeps [simp]: "sk_out (SocketStream_close s) = sk_out s" "to_come (SocketStream_close s) = to_come s"
  "in_size (SocketStream_close s) = in_size s" "sk_in (SocketStream_close s) = sk_in s"
  by (simp_all add: SocketStream_close_def Socket_close_def to_come_def in_size_def)

lemma recv_loop_consumes:
  "recv_loop exec hasError isFinished buff_size p rest s = Some (Some q, s') \<Longrightarrow> in_size s' < in_size s"
proof (induction exec hasError isFinished buff_size p rest s rule: recv_loop.induct)
  case (1 exec hasError isFinished buff_size p rest s)
  obtain r bs s1 where r: "SocketStream_read (buff_size - length rest) s = (r, bs, s1)"
    by (cases "SocketStream_read (buff_size - length rest) s") auto
  have pos: "0 < r" using 1(2) r by (subst (asm) recv_loop.simps) (auto split: if_splits)
  note lt = SocketStream_read_progress(1)[OF r pos]
  obtain n data t where e: "exec p (rest @ bs) = Some (n, data, t)"
    using 1(2) r pos by (subst (asm) recv_loop.simps) (auto split: option.splits)
  show ?case
  proof (cases "isFinished t")
    case True
    then have "s' = s1" using 1(2) r pos e by (subst (asm) recv_loop.simps) (auto simp: Let_def split: if_splits)
    then show ?thesis using lt by simp
  next
    case False
    then have l: "\<not> hasError t" "length (rest @ bs) - n \<noteq> buff_size"
      "recv_loop exec hasError isFinished buff_size t (take (length (rest @ bs) - n) data) s1 = Some (Some q, s')"
      using 1(2) r pos e by (subst (asm) recv_loop.simps, auto simp: Let_def split: if_splits)+
    show ?thesis using 1(1)[OF r[symmetric] refl _ e refl refl l(1) refl l(2) False l(3)] lt pos by simp
  qed
qed

lemma recv_loop_out: "recv_loop exec hasError isFinished buff_size p rest s = Some (res, s') \<Longrightarrow> sk_out s' = sk_out s"
proof (induction "in_size s" arbitrary: p rest s rule: less_induct)
  case less
  obtain r bs s1 where r: "SocketStream_read (buff_size - length rest) s = (r, bs, s1)"
    by (cases "SocketStream_read (buff_size - length rest) s") auto
  note out = SocketStream_read_keeps(1)[OF r]
  show ?case
  proof (cases "r \<le> 0")
    case True
    then show ?thesis using less.prems r out by (subst (asm) recv_loop.simps) auto
  next
    case False
    then have lt: "in_size s1 < in_size s" using SocketStream_read_progress(1)[OF r] by simp
    show ?thesis using less.prems r out False less.hyps[OF lt]
      by (subst (asm) recv_loop.simps) (auto simp: Let_def split: option.splits if_splits)
  qed
qed

locale message_parser =
  fixes exec :: "'p \<Rightarrow> string \<Rightarrow> (nat \<times> string \<times> 'p) option" and inv :: "'p \<Rightarrow> bool"
  assumes exec_returns: "inv p \<Longrightarrow> buf \<noteq> [] \<Longrightarrow> length buf < 2 ^ 31 \<Longrightarrow>
    \<exists>n data q. exec p buf = Some (n, data, q) \<and> inv q \<and> n \<le> length buf \<and> length data = length buf"
begin

lemma recv_loop_returns:
  "inv p \<Longrightarrow> length rest \<le> buff_size \<Longrightarrow> buff_size < 2 ^ 31 \<Longrightarrow>
   \<exists>res s'. recv_loop exec hasError isFinished buff_size p rest s = Some (res, s') \<and>
     (res = None \<longrightarrow> \<not> sk_isConnected s') \<and> (\<forall>q. res = Some q \<longrightarrow> inv q \<and> isFinished q \<and> \<not> hasError q)"
proof (induction "in_size s" arbitrary: p rest s rule: less_induct)
  case less
  obtain r bs s1 where r: "SocketStream_read (buff_size - length rest) s = (r, bs, s1)"
    by (cases "SocketStream_read (buff_size - length rest) s") auto
  show ?case
  proof (cases "r \<le> 0")
    case True
    then show ?thesis using r by (subst recv_loop.simps) simp
  next
    case False
    then have pos: "0 < r" by simp
    note pr = SocketStream_read_progress[OF r pos]
    have len: "length (rest @ bs) \<le> buff_size" "rest @ bs \<noteq> []" using pr(3,4) less.prems(2) pos by auto
    obtain n data q where e: "exec p (rest @ bs) = Some (n, data, q)" "inv q" "n \<le> length (rest @ bs)" "length data = length (rest @ bs)"
      using exec_returns[OF less.prems(1) len(2)] len(1) less.prems(3) by auto
    let ?off = "length (rest @ bs) - n"
    have "length (take ?off data) \<le> buff_size" using e(4) len(1) by simp
    note ih = less.hyps[OF pr(1) e(2) this less.prems(3)]
    show ?thesis using r False e(1,2) ih by (subst recv_loop.simps) (auto simp: Let_def)
  qed
qed

end

lemma response_execute_good:
  assumes "parser_inv HTTP_MAX_HEADER_SIZE p" "buf \<noteq> []" "length buf < 2 ^ 31"
  shows "\<exists>n data q. HttpResponseParser_execute p buf = Some (n, data, q) \<and> parser_inv HTTP_MAX_HEADER_SIZE q \<and>
    n \<le> length buf \<and> length data = length buf"
proof -
  have len: "length buf < 2 ^ 64" using assms(3) by (rule order_less_trans) simp
  from response_client.execute_good[OF len assms(1)] obtain n q where
    q: "http_parser_execute HTTP_MAX_HEADER_SIZE p s_response_settings buf = Ret n q"
      "parser_inv HTTP_MAX_HEADER_SIZE q" "n \<le> length buf"
    using assms(2) by blast
  then show ?thesis by (auto simp: HttpResponseParser_execute_def keep_rest_def)
qed

interpretation request_receiver: message_parser HttpRequestParser_execute "parser_inv HTTP_MAX_HEADER_SIZE"
proof
  fix p :: HttpRequestParser and buf :: string
  assume p: "parser_inv HTTP_MAX_HEADER_SIZE p" "buf \<noteq> []" "length buf < 2 ^ 31"
  have "length buf < 2 ^ 64" using p(3) by (rule order_less_trans) simp
  then show "\<exists>n data q. HttpRequestParser_execute p buf = Some (n, data, q) \<and> parser_inv HTTP_MAX_HEADER_SIZE q \<and>
      n \<le> length buf \<and> length data = length buf"
    using request_execute_good[OF p(1)] p(2) by blast
qed

interpretation response_receiver: message_parser HttpResponseParser_execute "parser_inv HTTP_MAX_HEADER_SIZE"
  by unfold_locales (rule response_execute_good)

section \<open>What is received\<close>

text \<open>The request that parsing these buffers one after the other gives.\<close>

definition received :: "nat \<Rightarrow> string list \<Rightarrow> HttpRequest \<Rightarrow> bool" where
  "received buff_size bufs req \<longleftrightarrow> (\<forall>b \<in> set bufs. b \<noteq> [] \<and> length b \<le> buff_size) \<and>
     (\<exists>p. request_feed bufs HttpRequestParser_new = Some p \<and> request_finished p \<and> \<not> request_failed p \<and>
        req = HttpRequest_init (rp_data (hp_data p)))"

lemma request_execute_clean:
  assumes "parser_inv HTTP_MAX_HEADER_SIZE p" "buf \<noteq> []" "length buf < 2 ^ 64"
    and "HttpRequestParser_execute p buf = Some (n, data, q)" "\<not> request_failed q"
  shows "n = length buf"
proof -
  have "hp_errno q = HPE_OK \<and> \<not> hp_upgrade q"
    using assms(4,5) by (auto simp: HttpRequestParser_execute_def request_failed_def split: outcome.splits if_splits)
  then show ?thesis using request_execute_good[OF assms(1,3)] assms(2,4) by auto
qed

lemma request_loop_received:
  "parser_inv HTTP_MAX_HEADER_SIZE p \<Longrightarrow> buff_size < 2 ^ 31 \<Longrightarrow>
   recv_loop HttpRequestParser_execute request_failed request_finished buff_size p [] s = Some (Some q, s') \<Longrightarrow>
   \<exists>bufs. (\<forall>b \<in> set bufs. b \<noteq> [] \<and> length b \<le> buff_size) \<and> request_feed bufs p = Some q \<and>
     to_come s = concat bufs @ to_come s' \<and> sk_out s' = sk_out s \<and> sk_sends s' = sk_sends s \<and> sk_isConnected s'"
proof (induction "in_size s" arbitrary: p s rule: less_induct)
  case less
  obtain r bs s1 where r: "SocketStream_read buff_size s = (r, bs, s1)"
    by (cases "SocketStream_read buff_size s") auto
  have pos: "0 < r" using less.prems(3) r by (subst (asm) recv_loop.simps) (auto split: if_splits)
  note pr = SocketStream_read_progress[OF r pos]
  have bs: "bs \<noteq> []" "length bs \<le> buff_size" "length bs < 2 ^ 64" using pr(3,4) pos less.prems(2) by auto
  obtain n data t where e: "HttpRequestParser_execute p bs = Some (n, data, t)" "parser_inv HTTP_MAX_HEADER_SIZE t"
    using request_execute_good[OF less.prems(1) bs(3)] by auto
  have ok: "\<not> request_failed t" using less.prems(3) r pos e(1) by (subst (asm) recv_loop.simps) (auto split: if_splits)
  have n: "n = length bs" by (rule request_execute_clean[OF less.prems(1) bs(1,3) e(1) ok])
  show ?case
  proof (cases "request_finished t")
    case True
    then have "t = q" "s' = s1" using less.prems(3) r pos e(1) ok n
      by (subst (asm) recv_loop.simps, auto simp: Let_def split: if_splits)+
    then show ?thesis using e(1) bs pr by (intro exI[of _ "[bs]"]) simp
  next
    case False
    then have l: "recv_loop HttpRequestParser_execute request_failed request_finished buff_size t [] s1 = Some (Some q, s')"
      using less.prems(3) r pos e(1) ok n by (subst (asm) recv_loop.simps) (auto simp: Let_def split: if_splits)
    from less.hyps[OF pr(1) e(2) less.prems(2) l] obtain bufs where
      b: "\<forall>b \<in> set bufs. b \<noteq> [] \<and> length b \<le> buff_size" "request_feed bufs t = Some q"
        "to_come s1 = concat bufs @ to_come s'" "sk_out s' = sk_out s1" "sk_sends s' = sk_sends s1" "sk_isConnected s'" by blast
    then show ?thesis using e(1) bs pr by (intro exI[of _ "bs # bufs"]) simp
  qed
qed

lemma new_parser_inv: "parser_inv HTTP_MAX_HEADER_SIZE HttpRequestParser_new"
  by (simp add: HttpRequestParser_new_def init_inv)

lemma recvRequest_spec:
  assumes "buff_size < 2 ^ 31"
  shows "\<exists>res s'. recvRequest buff_size s = Some (res, s') \<and>
    (case res of
       None \<Rightarrow> \<not> sk_isConnected s'
     | Some req \<Rightarrow> \<exists>bufs. received buff_size bufs req \<and> to_come s = concat bufs @ to_come s' \<and>
         sk_out s' = sk_out s \<and> sk_sends s' = sk_sends s \<and> sk_isConnected s')"
proof -
  obtain res s' where l: "recv_loop HttpRequestParser_execute request_failed request_finished buff_size HttpRequestParser_new [] s = Some (res, s')"
      "res = None \<longrightarrow> \<not> sk_isConnected s'" "\<forall>q. res = Some q \<longrightarrow> request_finished q \<and> \<not> request_failed q"
    using request_receiver.recv_loop_returns[OF new_parser_inv _ assms, of "[]" request_failed request_finished s] by auto
  show ?thesis
  proof (cases res)
    case None
    then show ?thesis using l by (simp add: recvRequest_def)
  next
    case (Some q)
    obtain bufs where "\<forall>b \<in> set bufs. b \<noteq> [] \<and> length b \<le> buff_size" "request_feed bufs HttpRequestParser_new = Some q"
      "to_come s = concat bufs @ to_come s'" "sk_out s' = sk_out s" "sk_sends s' = sk_sends s" "sk_isConnected s'"
      using request_loop_received[OF new_parser_inv assms] l(1) Some by blast
    moreover have "received buff_size bufs (HttpRequest_init (rp_data (hp_data q)))"
      using calculation(1,2) l(3) Some by (auto simp: received_def)
    ultimately show ?thesis using l(1) Some by (auto simp: recvRequest_def)
  qed
qed

text \<open>
  C7: \<open>HttpSession::recvRequest\<close> returns for every way in which bytes arrive, fail to arrive or stop. When it gives a
  request, this is the request that the parser builds from the reads, in order, each no longer than the buffer, and
  nothing of the connection beyond these reads is consumed. When it gives none, the connection is closed.\<close>

theorem recvRequest_exact:
  assumes "buff_size < 2 ^ 31"
  shows "\<exists>res s'. recvRequest buff_size s = Some (res, s') \<and>
    (case res of
       None \<Rightarrow> \<not> sk_isConnected s'
     | Some req \<Rightarrow> \<exists>bufs. received buff_size bufs req \<and> to_come s = concat bufs @ to_come s' \<and> sk_isConnected s')"
  using recvRequest_spec[OF assms, of s] by (auto split: option.splits)

definition client :: "char segment list \<Rightarrow> char socket" where
  "client segs = \<lparr>sk_open = True, sk_isConnected = True, sk_in = segs, sk_sends = [], sk_out = []\<rparr>"

theorem recvRequest_exact_witness:
  "\<exists>res s'. recvRequest 4096 (client [Data ''GET / HTTP/1.1'', Fail 11]) = Some (res, s') \<and>
     (res = None \<longrightarrow> \<not> sk_isConnected s')"
  using recvRequest_exact[of 4096 "client [Data ''GET / HTTP/1.1'', Fail 11]"] by (auto split: option.splits)

text \<open>
  Receiving a response returns as well. A response whose length is only given by the end of the connection is never
  received: the loop takes the end of the stream for a failure and does not tell the parser.
\<close>

theorem recvResponse_returns:
  assumes "buff_size < 2 ^ 31"
  shows "\<exists>res s'. recvResponse buff_size s = Some (res, s') \<and> (res = None \<longrightarrow> \<not> sk_isConnected s')"
proof -
  have "parser_inv HTTP_MAX_HEADER_SIZE HttpResponseParser_new" by (simp add: HttpResponseParser_new_def init_inv)
  from response_receiver.recv_loop_returns[OF this _ assms, of "[]" response_failed response_finished s]
  show ?thesis by (auto simp: recvResponse_def split: option.splits)
qed

theorem response_until_close_lost:
  "map_option fst (recvResponse 4096 (client [Data (''HTTP/1.0 200 OK'' @ CRLF @ CRLF @ ''hello'')])) = Some None \<and>
   map_option (map_option rs_body \<circ> fst) (recvResponse 4096
     (client [Data (''HTTP/1.0 200 OK'' @ CRLF @ ''Content-Length: 5'' @ CRLF @ CRLF @ ''hello'')])) = Some (Some ''hello'')"
  by code_simp

section \<open>Serving a client\<close>

record HttpServer =
  hs_isKeepalive :: bool
  hs_name :: string
  hs_dispatch :: ServletDispatch

definition HttpServer_new :: "bool \<Rightarrow> string \<Rightarrow> HttpServer" where
  "HttpServer_new keepalive name = \<lparr>hs_isKeepalive = keepalive, hs_name = name, hs_dispatch = ServletDispatch_new\<rparr>"

definition HttpServer_setName :: "string \<Rightarrow> HttpServer \<Rightarrow> HttpServer" where
  "HttpServer_setName v srv = srv\<lparr>hs_name := v, hs_dispatch := setDefault (Some (NotFoundServlet_new v)) (hs_dispatch srv)\<rparr>"

text \<open>The request and the response after the servlet has run.\<close>

definition respond :: "(string \<Rightarrow> string \<Rightarrow> bool) \<Rightarrow> HttpServer \<Rightarrow> HttpRequest \<Rightarrow> HttpRequest \<times> HttpResponse" where
  "respond fnmatch srv req =
     snd (ServletDispatch_handle fnmatch (hs_dispatch srv) req
       (HttpResponse_setHeader ''Server'' (hs_name srv)
         (HttpResponse_new (rq_version req) (rq_close req \<or> \<not> hs_isKeepalive srv))))"

lemma SocketStream_write_in: "SocketStream_write bs s = (r, s1) \<Longrightarrow> sk_in s1 = sk_in s"
  by (auto simp: SocketStream_write_def Socket_send_def split: if_splits list.splits)

lemma write_loop_in: "sk_in (snd (writeFixSize_loop SocketStream_write len left buf s)) = sk_in s"
proof (induction "nat left" arbitrary: left buf s rule: less_induct)
  case less
  obtain r s1 where r: "SocketStream_write buf s = (r, s1)" by (cases "SocketStream_write buf s")
  show ?case
  proof (cases "0 < left \<and> 0 < r")
    case True
    then show ?thesis using less[of "left - r" "drop (nat r) buf" s1] r SocketStream_write_in[OF r]
      by (subst writeFixSize_loop.simps) simp
  next
    case False
    then show ?thesis using r SocketStream_write_in[OF r] by (subst writeFixSize_loop.simps) auto
  qed
qed

lemma sendResponse_in: "sk_in (snd (sendResponse rsp s)) = sk_in s"
  by (simp add: sendResponse_def writeFixSize_def write_loop_in)

lemma recvRequest_smaller: "recvRequest buff_size s = Some (Some req, s') \<Longrightarrow> in_size s' < in_size s"
  by (auto simp: recvRequest_def dest: recv_loop_consumes split: option.splits)

function handleClient_loop ::
    "(string \<Rightarrow> string \<Rightarrow> bool) \<Rightarrow> nat \<Rightarrow> HttpServer \<Rightarrow> char socket \<Rightarrow> char socket option" where
  "handleClient_loop fnmatch buff_size srv s =
     (case recvRequest buff_size s of
        None \<Rightarrow> None
      | Some (None, s1) \<Rightarrow> Some s1
      | Some (Some req, s1) \<Rightarrow>
          let (req1, rsp) = respond fnmatch srv req;
              s2 = snd (sendResponse rsp s1)
          in if \<not> hs_isKeepalive srv \<or> rq_close req1 then Some s2
             else handleClient_loop fnmatch buff_size srv s2)"
  by pat_completeness auto
termination
proof (relation "measure (\<lambda>(fnmatch, buff_size, srv, s). in_size s)", goal_cases)
  case (2 fnmatch buff_size srv s x a b aa xa xb y xc)
  then have "in_size xc = in_size b" using sendResponse_in[of y b] by (simp add: in_size_def to_come_def)
  then show ?case using 2 recvRequest_smaller[of buff_size s aa b] by simp
qed simp

declare handleClient_loop.simps [simp del]

definition handleClient :: "(string \<Rightarrow> string \<Rightarrow> bool) \<Rightarrow> nat \<Rightarrow> HttpServer \<Rightarrow> char socket \<Rightarrow> char socket option" where
  "handleClient fnmatch buff_size srv s = map_option SocketStream_close (handleClient_loop fnmatch buff_size srv s)"

lemma sendResponse_all:
  assumes "sk_sends s = []" "sk_isConnected s"
  shows "sendResponse rsp s = (int (length (HttpResponse_dump rsp)), s\<lparr>sk_out := sk_out s @ HttpResponse_dump rsp\<rparr>)"
proof -
  have "HttpResponse_dump rsp \<noteq> []" by (simp add: HttpResponse_dump_def)
  then show ?thesis using assms
    by (simp add: sendResponse_def writeFixSize_def writeFixSize_loop.simps SocketStream_write_def Socket_send_def)
qed

definition keeps_serving :: "(string \<Rightarrow> string \<Rightarrow> bool) \<Rightarrow> HttpServer \<Rightarrow> HttpRequest \<Rightarrow> bool" where
  "keeps_serving fnmatch srv req \<longleftrightarrow> hs_isKeepalive srv \<and> \<not> rq_close (fst (respond fnmatch srv req))"

definition answer :: "(string \<Rightarrow> string \<Rightarrow> bool) \<Rightarrow> HttpServer \<Rightarrow> HttpRequest \<Rightarrow> string" where
  "answer fnmatch srv req = HttpResponse_dump (snd (respond fnmatch srv req))"

lemma handleClient_loop_step:
  assumes "recvRequest buff_size s = Some (Some req, s1)" "sk_sends s1 = []" "sk_isConnected s1"
  shows "handleClient_loop fnmatch buff_size srv s =
    (let s2 = s1\<lparr>sk_out := sk_out s1 @ answer fnmatch srv req\<rparr>
     in if keeps_serving fnmatch srv req then handleClient_loop fnmatch buff_size srv s2 else Some s2)"
  using assms sendResponse_all[OF assms(2,3)]
  by (subst handleClient_loop.simps) (auto simp: Let_def keeps_serving_def answer_def split: prod.splits)

lemma handleClient_loop_answers:
  "buff_size < 2 ^ 31 \<Longrightarrow> sk_sends s = [] \<Longrightarrow>
   \<exists>s' served. handleClient_loop fnmatch buff_size srv s = Some s' \<and>
     (\<forall>(bufs, req) \<in> set served. received buff_size bufs req) \<and>
     prefix (concat (map (concat \<circ> fst) served)) (to_come s) \<and>
     sk_out s' = sk_out s @ concat (map (answer fnmatch srv \<circ> snd) served) \<and>
     (\<forall>x \<in> set (butlast served). keeps_serving fnmatch srv (snd x))"
proof (induction "in_size s" arbitrary: s rule: less_induct)
  case less
  obtain res s1 where r: "recvRequest buff_size s = Some (res, s1)"
      "\<And>req. res = Some req \<Longrightarrow> \<exists>bufs. received buff_size bufs req \<and> to_come s = concat bufs @ to_come s1 \<and>
         sk_out s1 = sk_out s \<and> sk_sends s1 = sk_sends s \<and> sk_isConnected s1"
    using recvRequest_spec[OF less.prems(1), of s] by (auto split: option.splits)
  show ?case
  proof (cases res)
    case None
    have "sk_out s1 = sk_out s"
      using r(1) by (auto simp: recvRequest_def dest: recv_loop_out split: option.splits prod.splits)
    then show ?thesis using r(1) None by (intro exI[of _ s1] exI[of _ "[]"]) (simp add: handleClient_loop.simps)
  next
    case (Some req)
    obtain bufs where b: "received buff_size bufs req" "to_come s = concat bufs @ to_come s1"
        "sk_out s1 = sk_out s" "sk_sends s1 = []" "sk_isConnected s1"
      using r(2)[OF Some] less.prems(2) by auto
    let ?s2 = "s1\<lparr>sk_out := sk_out s1 @ answer fnmatch srv req\<rparr>"
    note step = handleClient_loop_step[OF r(1)[unfolded Some] b(4,5), of fnmatch srv, unfolded Let_def]
    show ?thesis
    proof (cases "keeps_serving fnmatch srv req")
      case False
      then show ?thesis using step b
        by (intro exI[of _ ?s2] exI[of _ "[(bufs, req)]"]) simp
    next
      case True
      have "in_size ?s2 < in_size s"
        using recvRequest_smaller[OF r(1)[unfolded Some]] by (simp add: in_size_def to_come_def)
      from less.hyps[OF this less.prems(1)] b(4) obtain s' served where ih:
        "handleClient_loop fnmatch buff_size srv ?s2 = Some s'" "\<forall>(bufs, req) \<in> set served. received buff_size bufs req"
        "prefix (concat (map (concat \<circ> fst) served)) (to_come ?s2)"
        "sk_out s' = sk_out ?s2 @ concat (map (answer fnmatch srv \<circ> snd) served)"
        "\<forall>x \<in> set (butlast served). keeps_serving fnmatch srv (snd x)"
        by auto
      have "to_come ?s2 = to_come s1" by (simp add: to_come_def)
      then show ?thesis using step True ih b
        by (intro exI[of _ s'] exI[of _ "(bufs, req) # served"]) auto
    qed
  qed
qed



text \<open>
  Two clients of a server without servlets: a request of an unknown path is answered with status 404; and of two requests
  sent in one segment, the server sees one that mixes both.
\<close>

lemma server_examples:
  "map_option (take 22 \<circ> sk_out) (handleClient (=) 4096 (HttpServer_new True ''tiny'')
     (client [Data (''GET /x HTTP/1.1'' @ CRLF @ CRLF)])) = Some ''HTTP/1.1 404 Not Found''"
  "map_option (\<lambda>(res, s). (map_option rq_path res, to_come s)) (recvRequest 4096
     (client [Data (''GET /x HTTP/1.1'' @ CRLF @ CRLF @ ''GET /y HTTP/1.1'' @ CRLF @ CRLF)])) = Some (Some ''/y'', [])"
  by code_simp+

end
