(* ===== verification/Uri.thy ===== *)
theory Uri
  imports HttpUrl HttpMessage
begin

text \<open>
  URIs, \<open>uri.h\<close> and \<open>uri.cc\<close>: the components that the URL parser finds, default ports and the text form. Name resolution in
  \<open>createAddress\<close> is a call of the system and its result an argument.
\<close>

section \<open>Components\<close>

datatype stoi_error = Invalid_argument | Too_large

record Uri =
  ur_scheme :: string
  ur_userinfo :: string
  ur_host :: string
  ur_path :: string
  ur_query :: string
  ur_fragment :: string
  ur_port :: int

definition Uri_new :: Uri where
  "Uri_new = \<lparr>ur_scheme = [], ur_userinfo = [], ur_host = [], ur_path = [], ur_query = [], ur_fragment = [], ur_port = 0\<rparr>"

definition is_space :: "char \<Rightarrow> bool" where
  "is_space c \<longleftrightarrow> ord_of c = 32 \<or> 9 \<le> ord_of c \<and> ord_of c \<le> 13"

text \<open>\<open>std::stoi\<close>: blanks, a sign, then the longest run of digits.\<close>

definition stoi :: "string \<Rightarrow> stoi_error + int" where
  "stoi str =
     (let t = dropWhile is_space str;
          neg = (t \<noteq> [] \<and> hd t = CHR ''-'');
          d = takeWhile IS_NUM (if t \<noteq> [] \<and> (hd t = CHR ''-'' \<or> hd t = CHR ''+'') then tl t else t);
          v = (if neg then - int (dec_value 0 d) else int (dec_value 0 d))
      in if d = [] then Inl Invalid_argument
         else if v < - 2147483648 \<or> 2147483647 < v then Inl Too_large
         else Inr v)"

definition component :: "http_parser_url \<Rightarrow> string \<Rightarrow> url_field \<Rightarrow> string" where
  "component u str f = (if has_field u f then run_text str u f else [])"

definition default_port :: "string \<Rightarrow> int" where
  "default_port scheme = (if scheme = ''http'' \<or> scheme = ''ws'' then 80 else if scheme = ''https'' then 443 else 0)"

text \<open>\<open>None\<close> is the null pointer for a string that is not a URL; an exception of \<open>stoi\<close> is on the left.\<close>

definition Uri_Create :: "string \<Rightarrow> stoi_error + Uri option" where
  "Uri_Create urlstr =
     (case http_parser_parse_url urlstr False http_parser_url_init of
        Url_ok u \<Rightarrow>
          (let scheme = component u urlstr UF_SCHEMA;
               uri = \<lparr>ur_scheme = scheme, ur_userinfo = component u urlstr UF_USERINFO, ur_host = component u urlstr UF_HOST,
                      ur_path = component u urlstr UF_PATH, ur_query = component u urlstr UF_QUERY,
                      ur_fragment = component u urlstr UF_FRAGMENT, ur_port = default_port scheme\<rparr>
           in if has_field u UF_PORT
              then (case stoi (run_text urlstr u UF_PORT) of Inl e \<Rightarrow> Inl e | Inr v \<Rightarrow> Inr (Some (uri\<lparr>ur_port := v\<rparr>)))
              else Inr (Some uri))
      | _ \<Rightarrow> Inr None)"

definition Uri_getPort :: "Uri \<Rightarrow> int" where
  "Uri_getPort uri =
     (if ur_port uri \<noteq> 0 then ur_port uri
      else if ur_scheme uri = ''http'' \<or> ur_scheme uri = ''ws'' then 80
      else if ur_scheme uri = ''https'' \<or> ur_scheme uri = ''wss'' then 443
      else ur_port uri)"

definition Uri_getPath :: "Uri \<Rightarrow> string" where
  "Uri_getPath uri = (if ur_path uri = [] then ''/'' else ur_path uri)"

definition Uri_isDefaultPort :: "Uri \<Rightarrow> bool" where
  "Uri_isDefaultPort uri \<longleftrightarrow>
     (if ur_scheme uri = ''http'' \<or> ur_scheme uri = ''ws'' then ur_port uri = 80
      else if ur_scheme uri = ''https'' then ur_port uri = 443
      else False)"

definition int_string :: "int \<Rightarrow> string" where
  "int_string v = (if v < 0 then ''-'' @ dec_string (nat (- v)) else dec_string (nat v))"

definition Uri_toString :: "Uri \<Rightarrow> string" where
  "Uri_toString uri =
     ur_scheme uri @ ''://'' @ ur_userinfo uri @ (if ur_userinfo uri = [] then [] else ''@'') @
     ur_host uri @ (if Uri_isDefaultPort uri then [] else '':'' @ int_string (ur_port uri)) @
     Uri_getPath uri @ (if ur_query uri = [] then [] else ''?'') @ ur_query uri @
     (if ur_fragment uri = [] then [] else ''#'') @ ur_fragment uri"

text \<open>The address, when \<open>LookupAnyIPAddress\<close> finds one: its port is set.\<close>

definition Uri_createAddress :: "'a option \<Rightarrow> Uri \<Rightarrow> ('a \<times> int) option" where
  "Uri_createAddress found uri = map_option (\<lambda>a. (a, Uri_getPort uri)) found"

section \<open>Creation\<close>

lemma IS_NUM_plain: "IS_NUM c \<Longrightarrow> \<not> is_space c \<and> c \<noteq> CHR ''-'' \<and> c \<noteq> CHR ''+''"
  by (auto simp: IS_NUM_def is_space_def ord_of_def in_range_def)

lemma stoi_digits:
  assumes "list_all IS_NUM ds" "ds \<noteq> []" "dec_value 0 ds \<le> 65535"
  shows "stoi ds = Inr (int (dec_value 0 ds))"
proof -
  obtain c cs where ds: "ds = c # cs" using assms(2) by (cases ds) auto
  then have c: "\<not> is_space c" "c \<noteq> CHR ''-''" "c \<noteq> CHR ''+''" using assms(1) IS_NUM_plain by auto
  have t: "takeWhile IS_NUM ds = ds" using assms(1) by (auto simp: list_all_iff takeWhile_eq_all_conv)
  have "dropWhile is_space ds = ds" using ds c(1) by simp
  then show ?thesis unfolding stoi_def Let_def using t ds c assms(3) by simp
qed

text \<open>
  On a string shorter than 64 KiB \<open>Uri::Create\<close> never throws: it gives no URI exactly when the URL parser rejects the
  string, and otherwise one whose components are those that the parser reports and whose port is the number written in the
  string, or without one the default of \<open>http\<close>, \<open>ws\<close> or \<open>https\<close>, or zero.\<close>

theorem uri_create:
  assumes "length str \<le> 65535"
  shows "case http_parser_parse_url str False http_parser_url_init of
      Url_ok u \<Rightarrow> \<exists>uri. Uri_Create str = Inr (Some uri) \<and> ur_host uri = component u str UF_HOST \<and> ur_path uri = component u str UF_PATH \<and>
        ur_query uri = component u str UF_QUERY \<and> ur_scheme uri = component u str UF_SCHEMA \<and>
        ur_userinfo uri = component u str UF_USERINFO \<and> ur_fragment uri = component u str UF_FRAGMENT \<and>
        ur_port uri = (if has_field u UF_PORT then int (dec_value 0 (run_text str u UF_PORT)) else default_port (ur_scheme uri)) \<and>
        0 \<le> ur_port uri \<and> ur_port uri \<le> 65535
    | _ \<Rightarrow> Uri_Create str = Inr None"
proof (cases "http_parser_parse_url str False http_parser_url_init")
  case (Url_ok u)
  have d: "0 \<le> default_port s \<and> default_port s \<le> 65535" for s by (simp add: default_port_def)
  have p: "has_field u UF_PORT \<Longrightarrow> stoi (run_text str u UF_PORT) = Inr (int (dec_value 0 (run_text str u UF_PORT))) \<and>
      dec_value 0 (run_text str u UF_PORT) \<le> 65535"
    using parse_url_port_value[OF Url_ok assms] stoi_digits[of "run_text str u UF_PORT"] by auto
  show ?thesis
  proof (cases "has_field u UF_PORT")
    case True
    then show ?thesis using p[OF True] by (simp add: Url_ok Uri_Create_def Let_def)
  next
    case False
    then show ?thesis using d by (simp add: Url_ok Uri_Create_def Let_def)
  qed
qed (simp_all add: Uri_Create_def)

lemma uri_example_parses:
  "url_succeeds (\<lambda>u. has_field u UF_PORT \<and> run_text ''http://a.cn:81/x'' u UF_PORT = ''81'')
     (http_parser_parse_url ''http://a.cn:81/x'' False http_parser_url_init)"
  by code_simp

theorem uri_create_witness: "\<exists>uri. Uri_Create ''http://a.cn:81/x'' = Inr (Some uri) \<and> ur_port uri = 81"
proof -
  obtain u where u: "http_parser_parse_url ''http://a.cn:81/x'' False http_parser_url_init = Url_ok u" "has_field u UF_PORT"
    "run_text ''http://a.cn:81/x'' u UF_PORT = ''81''"
    using uri_example_parses by (auto elim!: url_succeedsE)
  have len: "length ''http://a.cn:81/x'' \<le> 65535" by simp
  have "dec_value 0 ''81'' = 81" by code_simp
  then show ?thesis using uri_create[OF len] unfolding u(1) url_result.case using u(2,3) by auto
qed

text \<open>
  The text form: a URI with all components is printed as it was read. A scheme without default port in the text form, such as
  \<open>wss\<close>, is printed with the port zero, and the brackets of an address literal are lost.
\<close>

definition reprinted :: "string \<Rightarrow> string option" where
  "reprinted str = (case Uri_Create str of Inr (Some uri) \<Rightarrow> Some (Uri_toString uri) | _ \<Rightarrow> None)"

lemma uri_text_examples:
  "reprinted ''http://u@a.cn:8042/over/there?name=ferret#nose'' = Some ''http://u@a.cn:8042/over/there?name=ferret#nose''"
  "reprinted ''https://a.cn/x'' = Some ''https://a.cn/x''"
  "reprinted ''https://a.cn'' = Some ''https://a.cn/''"
  "reprinted ''wss://a.cn/x'' = Some ''wss://a.cn:0/x''"
  "reprinted ''http://[::1]:8080/x'' = Some ''http://::1:8080/x''"
  by code_simp+

end
