(* ===== verification/HttpClient.thy ===== *)
theory HttpClient
  imports HttpSession Uri
begin

text \<open>
  The HTTP client of \<open>http/http_connection.h\<close> and \<open>http/http_connection.cc\<close>: building a request from a URI, sending it and
  receiving the response on a new connection, and the pool of connections. Name resolution and connecting are calls of the
  system: their outcome is an argument. The texts that describe errors are left out.
\<close>

section \<open>Results\<close>

datatype HttpError =
  Result_OK | INVALID_URL | INVALID_HOST | CONNECT_FAIL | SEND_CLOSE_BY_PEER | SEND_SOCKET_ERROR | TIMEOUT |
  CREATE_SOCKET_ERROR | POOL_GET_CONNECTION | POOL_INVALID_CONNECTION

record HttpResult =
  hr_result :: HttpError
  hr_response :: "HttpResponse option"

definition failure :: "HttpError \<Rightarrow> HttpResult" where
  "failure e = \<lparr>hr_result = e, hr_response = None\<rparr>"

datatype dialled = No_address | No_socket | No_connect | Connected "char socket"

section \<open>Building a request\<close>

definition POST :: HttpMethod where "POST = method_num HTTP_POST"

text \<open>The loop over the headers, which are ordered by name.\<close>

definition add_header :: "string \<times> string \<Rightarrow> bool \<times> HttpRequest \<Rightarrow> bool \<times> HttpRequest" where
  "add_header i x =
     (case (i, x) of ((k, v), (has_host, req)) \<Rightarrow>
        if strcasecmp (c_str k) ''connection'' = 0
        then (has_host, if strcasecmp (c_str v) ''keep-alive'' = 0 then HttpRequest_setClose False req else req)
        else (if \<not> has_host \<and> strcasecmp (c_str k) ''host'' = 0 then v \<noteq> [] else has_host, HttpRequest_setHeader k v req))"

definition add_headers :: "(string \<times> string) list \<Rightarrow> HttpRequest \<Rightarrow> bool \<times> HttpRequest" where
  "add_headers headers req = fold add_header headers (False, req)"

definition uri_request :: "HttpMethod \<Rightarrow> Uri \<Rightarrow> (string \<times> string) list \<Rightarrow> string \<Rightarrow> HttpRequest" where
  "uri_request mth uri headers body =
     (let req = HttpRequest_setMethod mth (HttpRequest_setFragment (ur_fragment uri)
            (HttpRequest_setQuery (ur_query uri) (HttpRequest_setPath (Uri_getPath uri) (HttpRequest_new 0x11 True))));
          (has_host, req1) = add_headers headers req;
          req2 = (if has_host then req1 else HttpRequest_setHeader ''Host'' (ur_host uri) req1)
      in HttpRequest_setBody body req2)"

section \<open>One exchange\<close>

definition exchange :: "nat \<Rightarrow> HttpRequest \<Rightarrow> char socket \<Rightarrow> (HttpResult \<times> char socket) option" where
  "exchange buff_size req s =
     (case sendRequest req s of
        (rt, s1) \<Rightarrow>
          if rt = 0 then Some (failure SEND_CLOSE_BY_PEER, s1)
          else if rt < 0 then Some (failure SEND_SOCKET_ERROR, s1)
          else (case recvResponse buff_size s1 of
                  None \<Rightarrow> None
                | Some (None, s2) \<Rightarrow> Some (failure TIMEOUT, s2)
                | Some (Some rsp, s2) \<Rightarrow> Some (\<lparr>hr_result = Result_OK, hr_response = Some rsp\<rparr>, s2)))"

definition DoRequest_req :: "dialled \<Rightarrow> nat \<Rightarrow> HttpRequest \<Rightarrow> HttpResult option" where
  "DoRequest_req d buff_size req =
     (case d of
        No_address \<Rightarrow> Some (failure INVALID_HOST)
      | No_socket \<Rightarrow> Some (failure CREATE_SOCKET_ERROR)
      | No_connect \<Rightarrow> Some (failure CONNECT_FAIL)
      | Connected s \<Rightarrow> map_option fst (exchange buff_size req s))"

definition DoRequest_uri ::
    "(Uri \<Rightarrow> dialled) \<Rightarrow> nat \<Rightarrow> HttpMethod \<Rightarrow> Uri \<Rightarrow> (string \<times> string) list \<Rightarrow> string \<Rightarrow> HttpResult option" where
  "DoRequest_uri dial buff_size mth uri headers body =
     DoRequest_req (dial uri) buff_size (uri_request mth uri headers body)"

text \<open>The variants that take a string; an exception of \<open>Uri::Create\<close> leaves the call.\<close>

definition DoRequest ::
    "(Uri \<Rightarrow> dialled) \<Rightarrow> nat \<Rightarrow> HttpMethod \<Rightarrow> string \<Rightarrow> (string \<times> string) list \<Rightarrow> string \<Rightarrow> (stoi_error + HttpResult) option" where
  "DoRequest dial buff_size mth url headers body =
     (case Uri_Create url of
        Inl e \<Rightarrow> Some (Inl e)
      | Inr None \<Rightarrow> Some (Inr (failure INVALID_URL))
      | Inr (Some uri) \<Rightarrow> map_option Inr (DoRequest_uri dial buff_size mth uri headers body))"

definition DoGet :: "(Uri \<Rightarrow> dialled) \<Rightarrow> nat \<Rightarrow> string \<Rightarrow> (string \<times> string) list \<Rightarrow> string \<Rightarrow> (stoi_error + HttpResult) option" where
  "DoGet dial buff_size url headers body = DoRequest dial buff_size GET url headers body"

definition DoPost :: "(Uri \<Rightarrow> dialled) \<Rightarrow> nat \<Rightarrow> string \<Rightarrow> (string \<times> string) list \<Rightarrow> string \<Rightarrow> (stoi_error + HttpResult) option" where
  "DoPost dial buff_size url headers body = DoRequest dial buff_size POST url headers body"

section \<open>Pool of connections\<close>

record HttpConnection =
  cn_sock :: "char socket"
  cn_createTime :: u64
  cn_request :: u64

definition HttpConnection_new :: "char socket \<Rightarrow> HttpConnection" where
  "HttpConnection_new s = \<lparr>cn_sock = s, cn_createTime = 0, cn_request = 0\<rparr>"

record HttpConnectionPool =
  cp_host :: string
  cp_vhost :: string
  cp_port :: u32
  cp_maxSize :: u32
  cp_maxAliveTime :: u32
  cp_maxRequest :: u32
  cp_conns :: "HttpConnection list"
  cp_total :: int

definition HttpConnectionPool_new :: "string \<Rightarrow> string \<Rightarrow> u32 \<Rightarrow> u32 \<Rightarrow> u32 \<Rightarrow> u32 \<Rightarrow> HttpConnectionPool" where
  "HttpConnectionPool_new host vhost pt max_size max_alive_time max_request =
     \<lparr>cp_host = host, cp_vhost = vhost, cp_port = pt, cp_maxSize = max_size, cp_maxAliveTime = max_alive_time,
      cp_maxRequest = max_request, cp_conns = [], cp_total = 0\<rparr>"

text \<open>Popping until a connection passes both tests: how many were dropped, the connection, the rest.\<close>

fun pop_valid :: "u64 \<Rightarrow> u32 \<Rightarrow> HttpConnection list \<Rightarrow> nat \<times> HttpConnection option \<times> HttpConnection list" where
  "pop_valid now alive [] = (0, None, [])"
| "pop_valid now alive (c # cs) =
     (if \<not> sk_isConnected (cn_sock c) \<or> cn_createTime c + ucast alive > now
      then (case pop_valid now alive cs of (n, r) \<Rightarrow> (Suc n, r))
      else (0, Some c, cs))"

definition getConnection :: "u64 \<Rightarrow> dialled \<Rightarrow> HttpConnectionPool \<Rightarrow> HttpConnection option \<times> HttpConnectionPool" where
  "getConnection now d pool =
     (case pop_valid now (cp_maxAliveTime pool) (cp_conns pool) of
        (dropped, found, rest) \<Rightarrow>
          let pool1 = pool\<lparr>cp_conns := rest, cp_total := cp_total pool - int dropped\<rparr>
          in case found of
               Some c \<Rightarrow> (Some c, pool1)
             | None \<Rightarrow>
                 (case d of
                    Connected s \<Rightarrow> (Some (HttpConnection_new s), pool1\<lparr>cp_total := cp_total pool1 + 1\<rparr>)
                  | _ \<Rightarrow> (None, pool1)))"

definition ReleasePtr :: "u64 \<Rightarrow> HttpConnection \<Rightarrow> HttpConnectionPool \<Rightarrow> HttpConnectionPool" where
  "ReleasePtr now c0 pool =
     (let c = c0\<lparr>cn_request := cn_request c0 + 1\<rparr>
      in if \<not> sk_isConnected (cn_sock c) \<or> cn_createTime c + ucast (cp_maxAliveTime pool) \<ge> now \<or>
            cn_request c \<ge> ucast (cp_maxRequest pool)
         then pool\<lparr>cp_total := cp_total pool - 1\<rparr>
         else pool\<lparr>cp_conns := cp_conns pool @ [c]\<rparr>)"

definition pool_request :: "HttpMethod \<Rightarrow> string \<Rightarrow> (string \<times> string) list \<Rightarrow> string \<Rightarrow> HttpConnectionPool \<Rightarrow> HttpRequest" where
  "pool_request mth url headers body pool =
     (let req = HttpRequest_setMethod mth (HttpRequest_setPath url (HttpRequest_new 0x11 True));
          (has_host, req1) = add_headers headers req;
          req2 = (if has_host then req1
                  else HttpRequest_setHeader ''Host'' (if cp_vhost pool = [] then cp_host pool else cp_vhost pool) req1)
      in HttpRequest_setBody body req2)"

text \<open>The path, query and fragment of a URI as one string.\<close>

definition uri_target :: "Uri \<Rightarrow> string" where
  "uri_target uri = Uri_getPath uri @ (if ur_query uri = [] then [] else ''?'') @ ur_query uri @
     (if ur_fragment uri = [] then [] else ''#'') @ ur_fragment uri"

text \<open>The connection goes back to the pool when the call returns; \<open>now\<close> and \<open>later\<close> are the times of the two events.\<close>

definition pool_doRequest_req ::
    "u64 \<Rightarrow> u64 \<Rightarrow> dialled \<Rightarrow> nat \<Rightarrow> HttpRequest \<Rightarrow> HttpConnectionPool \<Rightarrow> (HttpResult \<times> HttpConnectionPool) option" where
  "pool_doRequest_req now later d buff_size req pool =
     (case getConnection now d pool of
        (None, pool1) \<Rightarrow> Some (failure POOL_GET_CONNECTION, pool1)
      | (Some c, pool1) \<Rightarrow>
          map_option (\<lambda>(res, s). (res, ReleasePtr later (c\<lparr>cn_sock := s\<rparr>) pool1)) (exchange buff_size req (cn_sock c)))"

definition pool_doRequest ::
    "u64 \<Rightarrow> u64 \<Rightarrow> dialled \<Rightarrow> nat \<Rightarrow> HttpMethod \<Rightarrow> string \<Rightarrow> (string \<times> string) list \<Rightarrow> string \<Rightarrow> HttpConnectionPool \<Rightarrow>
     (HttpResult \<times> HttpConnectionPool) option" where
  "pool_doRequest now later d buff_size mth url headers body pool =
     pool_doRequest_req now later d buff_size (pool_request mth url headers body pool) pool"

section \<open>Requests\<close>

lemma add_header_cases:
  "add_header (k, v) (b, req) =
     (if lkey k = lkey ''connection'' then (b, if strcasecmp (c_str v) ''keep-alive'' = 0 then HttpRequest_setClose False req else req)
      else (if \<not> b \<and> lkey k = lkey ''host'' then v \<noteq> [] else b, HttpRequest_setHeader k v req))"
proof -
  have "c_str ''connection'' = ''connection''" "c_str ''host'' = ''host''" by code_simp+
  then show ?thesis
    using strcasecmp_zero[of k "''connection''"] strcasecmp_zero[of k "''host''"] by (simp add: add_header_def)
qed

definition names_host :: "(string \<times> string) list \<Rightarrow> bool" where
  "names_host headers \<longleftrightarrow> (\<exists>(k, v) \<in> set headers. lkey k = lkey ''host'' \<and> v \<noteq> [])"

lemma host_not_connection: "lkey ''host'' \<noteq> lkey ''connection''" "lkey ''Host'' = lkey ''host''"
  by code_simp+

definition asks_keep_alive :: "(string \<times> string) list \<Rightarrow> bool" where
  "asks_keep_alive headers \<longleftrightarrow> (\<exists>(k, v) \<in> set headers. lkey k = lkey ''connection'' \<and> strcasecmp (c_str v) ''keep-alive'' = 0)"

lemma add_header_effect:
  assumes ok: "mt_ok (rq_headers req)" and step: "add_header (k, v) (b, req) = (b1, req1)"
  shows "mt_ok (rq_headers req1)" "mt_find ''connection'' (rq_headers req1) = mt_find ''connection'' (rq_headers req)"
    "rq_close req1 = (rq_close req \<and> \<not> (lkey k = lkey ''connection'' \<and> strcasecmp (c_str v) ''keep-alive'' = 0))"
    "rq_path req1 = rq_path req \<and> rq_query req1 = rq_query req \<and> rq_method req1 = rq_method req \<and> rq_fragment req1 = rq_fragment req"
    "b1 = (b \<or> lkey k = lkey ''host'' \<and> v \<noteq> [])"
  using step[unfolded add_header_cases] ok host_not_connection(1)
  by (auto simp: HttpRequest_setHeader_def HttpRequest_setClose_def mt_laws split: if_splits)

lemma fold_headers:
  "mt_ok (rq_headers req) \<Longrightarrow> fold add_header headers (b, req) = (b', req') \<Longrightarrow>
   b' = (b \<or> names_host headers) \<and> mt_ok (rq_headers req') \<and>
   mt_find ''connection'' (rq_headers req') = mt_find ''connection'' (rq_headers req) \<and>
   rq_close req' = (rq_close req \<and> \<not> asks_keep_alive headers) \<and>
   rq_path req' = rq_path req \<and> rq_query req' = rq_query req \<and> rq_method req' = rq_method req \<and> rq_fragment req' = rq_fragment req"
proof (induction headers arbitrary: b req)
  case Nil
  then show ?case by (simp add: names_host_def asks_keep_alive_def)
next
  case (Cons e headers)
  obtain k v where e: "e = (k, v)" by (cases e)
  obtain b1 req1 where step: "add_header (k, v) (b, req) = (b1, req1)" by (cases "add_header (k, v) (b, req)")
  note one = add_header_effect[OF Cons.prems(1) step]
  have names: "names_host (e # headers) = (lkey k = lkey ''host'' \<and> v \<noteq> [] \<or> names_host headers)" by (simp add: names_host_def e)
  have keep: "asks_keep_alive (e # headers) = (lkey k = lkey ''connection'' \<and> strcasecmp (c_str v) ''keep-alive'' = 0 \<or> asks_keep_alive headers)"
    by (simp add: asks_keep_alive_def e)
  have "fold add_header headers (b1, req1) = (b', req')" using Cons.prems(2) step by (simp add: e)
  note ih = Cons.IH[OF one(1) this]
  show ?case unfolding names keep using ih one(2-5) by simp
qed

lemma uri_request_fields:
  assumes "req = uri_request mth uri headers body"
  shows "rq_path req = Uri_getPath uri \<and> rq_query req = ur_query uri \<and> rq_method req = mth \<and> rq_body req = body"
    "rq_close req = (\<not> asks_keep_alive headers)" "mt_find ''connection'' (rq_headers req) = None"
    "\<not> names_host headers \<Longrightarrow> HttpRequest_getHeader req ''host'' d = ur_host uri"
proof -
  let ?req = "HttpRequest_setMethod mth (HttpRequest_setFragment (ur_fragment uri)
      (HttpRequest_setQuery (ur_query uri) (HttpRequest_setPath (Uri_getPath uri) (HttpRequest_new 0x11 True))))"
  note defs = HttpRequest_setMethod_def HttpRequest_setFragment_def HttpRequest_setQuery_def HttpRequest_setPath_def HttpRequest_new_def
    HttpRequest_setBody_def HttpRequest_setHeader_def
  have ok: "mt_ok (rq_headers ?req)" by (simp add: defs mt_laws)
  obtain b' req' where f: "fold add_header headers (False, ?req) = (b', req')" by (cases "fold add_header headers (False, ?req)")
  have F: "b' = names_host headers" "mt_ok (rq_headers req')" "mt_find ''connection'' (rq_headers req') = mt_find ''connection'' (rq_headers ?req)"
      "rq_close req' = (rq_close ?req \<and> \<not> asks_keep_alive headers)"
      "rq_path req' = rq_path ?req \<and> rq_query req' = rq_query ?req \<and> rq_method req' = rq_method ?req"
    using fold_headers[OF ok f] by blast+
  have req: "req = HttpRequest_setBody body (if b' then req' else HttpRequest_setHeader ''Host'' (ur_host uri) req')"
    using assms f by (simp add: uri_request_def add_headers_def Let_def)
  show "rq_path req = Uri_getPath uri \<and> rq_query req = ur_query uri \<and> rq_method req = mth \<and> rq_body req = body"
    using F(5) by (simp add: req defs)
  show "rq_close req = (\<not> asks_keep_alive headers)" using F(4) by (simp add: req defs)
  show "mt_find ''connection'' (rq_headers req) = None"
    using F(2,3) host_not_connection by (simp add: req defs mt_laws)
  show "HttpRequest_getHeader req ''host'' d = ur_host uri" if "\<not> names_host headers"
    using that F(1,2) host_not_connection(2) by (simp add: req HttpRequest_getHeader_def get_or_def defs mt_laws)
qed

text \<open>
  The request that the client builds from a URI has the URI's path and query, the given method and body, the URI's host as
  \<open>Host\<close> header unless the caller names a host, no stored \<open>Connection\<close> header, and keeps the connection open
  exactly when the caller asks for it.\<close>

theorem client_request:
  "let req = uri_request mth uri headers body in
     rq_path req = Uri_getPath uri \<and> rq_query req = ur_query uri \<and> rq_method req = mth \<and> rq_body req = body \<and>
     (rq_close req \<longleftrightarrow> \<not> asks_keep_alive headers) \<and> mt_find ''connection'' (rq_headers req) = None \<and>
     (names_host headers \<or> HttpRequest_getHeader req ''host'' d = ur_host uri)"
  unfolding Let_def using uri_request_fields(1-3)[where mth = mth and uri = uri and headers = headers and body = body, OF refl]
    uri_request_fields(4)[where mth = mth and uri = uri and headers = headers and body = body and d = d, OF refl] by blast

section \<open>Use of the pool\<close>

text \<open>A pool together with the connections that are in use.\<close>

inductive pool_use :: "u32 \<Rightarrow> u32 \<Rightarrow> HttpConnectionPool \<Rightarrow> HttpConnection list \<Rightarrow> bool" for alive maxreq where
  pu_new: "pool_use alive maxreq (HttpConnectionPool_new host vhost pt max_size alive maxreq) []"
| pu_get: "pool_use alive maxreq pool out \<Longrightarrow> getConnection now d pool = (Some c, pool') \<Longrightarrow> pool_use alive maxreq pool' (out @ [c])"
| pu_none: "pool_use alive maxreq pool out \<Longrightarrow> getConnection now d pool = (None, pool') \<Longrightarrow> pool_use alive maxreq pool' out"
| pu_release: "pool_use alive maxreq pool (us @ c # vs) \<Longrightarrow> pool_use alive maxreq (ReleasePtr now (c\<lparr>cn_sock := s\<rparr>) pool) (us @ vs)"

definition pool_ok :: "u32 \<Rightarrow> u32 \<Rightarrow> HttpConnectionPool \<Rightarrow> HttpConnection list \<Rightarrow> bool" where
  "pool_ok alive maxreq pool out \<longleftrightarrow> cp_total pool = int (length (cp_conns pool) + length out) \<and>
     (\<forall>c \<in> set (cp_conns pool). sk_isConnected (cn_sock c) \<and> cn_createTime c = 0 \<and> cn_request c < ucast maxreq) \<and>
     (\<forall>c \<in> set out. cn_createTime c = 0) \<and> cp_maxAliveTime pool = alive \<and> cp_maxRequest pool = maxreq"

lemma pop_valid_parts:
  "pop_valid now alive cs = (n, found, rest) \<Longrightarrow>
   n + length rest + (case found of None \<Rightarrow> 0 | Some c \<Rightarrow> 1) = length cs \<and> set rest \<subseteq> set cs \<and>
   (\<forall>c. found = Some c \<longrightarrow> c \<in> set cs) \<and> (found = None \<longrightarrow> rest = [])"
proof (induction cs arbitrary: n)
  case (Cons c cs)
  show ?case
  proof (cases "\<not> sk_isConnected (cn_sock c) \<or> cn_createTime c + ucast alive > now")
    case True
    obtain m where "pop_valid now alive cs = (m, found, rest)" "n = Suc m"
      using Cons.prems True by (cases "pop_valid now alive cs") auto
    then show ?thesis using Cons.IH[of m] by auto
  next
    case False
    then show ?thesis using Cons.prems by auto
  qed
qed auto

lemma getConnection_ok:
  assumes ok: "pool_ok alive maxreq pool out" and g: "getConnection now d pool = (r, pool')"
  shows "pool_ok alive maxreq pool' (case r of None \<Rightarrow> out | Some c \<Rightarrow> out @ [c])"
proof -
  obtain n found rest where p: "pop_valid now (cp_maxAliveTime pool) (cp_conns pool) = (n, found, rest)"
    by (cases "pop_valid now (cp_maxAliveTime pool) (cp_conns pool)") auto
  note P = pop_valid_parts[OF p]
  let ?pool1 = "pool\<lparr>cp_conns := rest, cp_total := cp_total pool - int n\<rparr>"
  show ?thesis
  proof (cases found)
    case (Some c)
    then have "r = Some c" "pool' = ?pool1" using g p by (simp_all add: getConnection_def)
    then show ?thesis using ok P Some by (auto simp: pool_ok_def)
  next
    case None
    then consider s where "d = Connected s" "r = Some (HttpConnection_new s)" "pool' = ?pool1\<lparr>cp_total := cp_total ?pool1 + 1\<rparr>"
      | "r = None" "pool' = ?pool1"
      using g p by (cases d) (simp_all add: getConnection_def)
    then show ?thesis
    proof cases
      case 1
      then show ?thesis using ok P None by (auto simp: pool_ok_def HttpConnection_new_def)
    next
      case 2
      then show ?thesis using ok P None by (auto simp: pool_ok_def)
    qed
  qed
qed

lemma pool_use_ok: "pool_use alive maxreq pool out \<Longrightarrow> pool_ok alive maxreq pool out"
proof (induction rule: pool_use.induct)
  case (pu_new host vhost pt max_size)
  then show ?case by (simp add: pool_ok_def HttpConnectionPool_new_def)
next
  case (pu_get pool out now d c pool')
  then show ?case using getConnection_ok[OF pu_get.IH pu_get(2)] by simp
next
  case (pu_none pool out now d pool')
  then show ?case using getConnection_ok[OF pu_none.IH pu_none(2)] by simp
next
  case (pu_release pool us c vs now s)
  then show ?case by (auto simp: pool_ok_def ReleasePtr_def Let_def)
qed

text \<open>
  In any use of the pool the counter is the number of connections in the pool and in use, and every connection in the pool is
  connected and has served fewer requests than the limit.\<close>

theorem pool_accounting:
  assumes "pool_use alive maxreq pool out"
  shows "cp_total pool = int (length (cp_conns pool) + length out) \<and>
    (\<forall>c \<in> set (cp_conns pool). sk_isConnected (cn_sock c) \<and> cn_request c < ucast maxreq)"
  using pool_use_ok[OF assms] by (auto simp: pool_ok_def)

definition pool_example :: HttpConnectionPool where
  "pool_example = ReleasePtr 5000000000 (HttpConnection_new (client [])) (snd (getConnection 5000000000 (Connected (client []))
     (HttpConnectionPool_new ''a.cn'' [] 80 10 1000 5)))"

lemma pool_example_use: "pool_use 1000 5 pool_example []"
proof -
  let ?c = "HttpConnection_new (client [])"
  have "getConnection 5000000000 (Connected (client [])) (HttpConnectionPool_new ''a.cn'' [] 80 10 1000 5) =
      (Some ?c, snd (getConnection 5000000000 (Connected (client [])) (HttpConnectionPool_new ''a.cn'' [] 80 10 1000 5)))"
    by (simp add: getConnection_def HttpConnectionPool_new_def)
  from pu_get[OF pu_new this] have "pool_use 1000 5 (snd (getConnection 5000000000 (Connected (client []))
      (HttpConnectionPool_new ''a.cn'' [] 80 10 1000 5))) ([] @ ?c # [])" by simp
  from pu_release[OF this, of 5000000000 "client []"] show ?thesis by (simp add: pool_example_def HttpConnection_new_def)
qed

theorem pool_accounting_witness: "cp_total pool_example = int (length (cp_conns pool_example))"
  using pool_accounting[OF pool_example_use] by simp

text \<open>
  The age of a connection is never considered: the time of creation is not set, so with a clock that counts from 1970 the tests, which are also
  the wrong way round, never hold, and the first pooled connection is handed out however old it is.
\<close>

theorem pool_ignores_age:
  assumes "pool_use alive maxreq pool out" "cp_conns pool = c # cs" "4294967296 \<le> now"
  shows "getConnection now d pool = (Some c, pool\<lparr>cp_conns := cs, cp_total := cp_total pool - int 0\<rparr>)"
proof -
  have c: "sk_isConnected (cn_sock c)" "cn_createTime c = 0"
    using pool_use_ok[OF assms(1)] assms(2) by (simp_all add: pool_ok_def)
  have "(ucast (cp_maxAliveTime pool) :: u64) < 4294967296"
  proof -
    have lt: "uint (cp_maxAliveTime pool) < 4294967296" using uint_lt2p[of "cp_maxAliveTime pool"] by simp
    then have "take_bit 64 (uint (cp_maxAliveTime pool)) = uint (cp_maxAliveTime pool)" by (simp add: take_bit_int_eq_self_iff)
    then show ?thesis using lt by (simp add: word_less_def unsigned_ucast_eq)
  qed
  then have "\<not> ucast (cp_maxAliveTime pool) > now" using assms(3) by simp
  then show ?thesis using c assms(2) by (simp add: getConnection_def)
qed

end
