(* ===== verification/PoolClient.thy ===== *)
theory PoolClient
  imports HttpClient
begin

text \<open>
  The entry points of \<open>HttpConnectionPool\<close> (\<open>http/http_connection.cc\<close>) and what a sequence of requests does to the pool. The parts, the taking and the
  releasing of connections and one exchange, are in the theory of the client.
\<close>

section \<open>Entry points\<close>

text \<open>The arguments that all entry points share: the times of taking and releasing, the outcome of dialling and the size of the buffer.\<close>

record pool_env =
  pe_now :: u64
  pe_later :: u64
  pe_dialled :: dialled
  pe_buffer :: nat

type_synonym pool_result = "(HttpResult \<times> HttpConnectionPool) option"

definition pool_doRequest_url :: "pool_env \<Rightarrow> HttpMethod \<Rightarrow> string \<Rightarrow> (string \<times> string) list \<Rightarrow> string \<Rightarrow> HttpConnectionPool \<Rightarrow> pool_result" where
  "pool_doRequest_url env = pool_doRequest (pe_now env) (pe_later env) (pe_dialled env) (pe_buffer env)"

definition pool_doRequest_uri :: "pool_env \<Rightarrow> HttpMethod \<Rightarrow> Uri \<Rightarrow> (string \<times> string) list \<Rightarrow> string \<Rightarrow> HttpConnectionPool \<Rightarrow> pool_result" where
  "pool_doRequest_uri env mth uri headers body pool = pool_doRequest_url env mth (uri_target uri) headers body pool"

definition pool_doGet :: "pool_env \<Rightarrow> string \<Rightarrow> (string \<times> string) list \<Rightarrow> string \<Rightarrow> HttpConnectionPool \<Rightarrow> pool_result" where
  "pool_doGet env url headers body pool = pool_doRequest_url env GET url headers body pool"

definition pool_doGet_uri :: "pool_env \<Rightarrow> Uri \<Rightarrow> (string \<times> string) list \<Rightarrow> string \<Rightarrow> HttpConnectionPool \<Rightarrow> pool_result" where
  "pool_doGet_uri env uri headers body pool = pool_doGet env (uri_target uri) headers body pool"

definition pool_doPost :: "pool_env \<Rightarrow> string \<Rightarrow> (string \<times> string) list \<Rightarrow> string \<Rightarrow> HttpConnectionPool \<Rightarrow> pool_result" where
  "pool_doPost env url headers body pool = pool_doRequest_url env POST url headers body pool"

definition pool_doPost_uri :: "pool_env \<Rightarrow> Uri \<Rightarrow> (string \<times> string) list \<Rightarrow> string \<Rightarrow> HttpConnectionPool \<Rightarrow> pool_result" where
  "pool_doPost_uri env uri headers body pool = pool_doPost env (uri_target uri) headers body pool"

section \<open>A sequence of requests\<close>

fun pool_requests :: "(pool_env \<times> HttpRequest) list \<Rightarrow> HttpConnectionPool \<Rightarrow> (HttpResult list \<times> HttpConnectionPool) option" where
  "pool_requests [] pool = Some ([], pool)"
| "pool_requests ((env, req) # rest) pool =
     (case pool_doRequest_req (pe_now env) (pe_later env) (pe_dialled env) (pe_buffer env) req pool of
        None \<Rightarrow> None
      | Some (res, pool1) \<Rightarrow> map_option (\<lambda>(rs, pool2). (res # rs, pool2)) (pool_requests rest pool1))"

lemma exchange_returns: "n < 2 ^ 31 \<Longrightarrow> \<exists>res s'. exchange n req s = Some (res, s')"
proof -
  assume n: "n < 2 ^ 31"
  obtain rt s1 where s: "sendRequest req s = (rt, s1)" by (cases "sendRequest req s")
  obtain rsp s2 where "recvResponse n s1 = Some (rsp, s2)" using recvResponse_returns[OF n] by blast
  then show ?thesis using s by (cases rsp) (auto simp: exchange_def)
qed

text \<open>At most one connection is pooled by a single caller.\<close>

lemma get_leaves_fewer:
  assumes "getConnection now d pool = (r, pool')" "length (cp_conns pool) \<le> 1"
  shows "cp_conns pool' = []"
proof -
  obtain n found rest where p: "pop_valid now (cp_maxAliveTime pool) (cp_conns pool) = (n, found, rest)"
    by (cases "pop_valid now (cp_maxAliveTime pool) (cp_conns pool)") auto
  have n: "found \<noteq> None \<Longrightarrow> n + length rest + 1 = length (cp_conns pool)" using pop_valid_parts[OF p] by auto
  have "length rest = 0"
  proof (cases found)
    case None
    then show ?thesis using pop_valid_parts[OF p] by simp
  next
    case (Some c)
    then have "n + length rest + 1 \<le> 1" using n assms(2) by simp
    then show ?thesis by linarith
  qed
  then have "rest = []" by simp
  then show ?thesis using assms(1) p by (auto simp: getConnection_def Let_def split: option.splits dialled.splits)
qed

lemma release_adds_one: "length (cp_conns (ReleasePtr now c pool)) \<le> Suc (length (cp_conns pool))"
  by (simp add: ReleasePtr_def Let_def)

lemma request_keeps_pool:
  assumes "pool_use alive maxreq pool []" "length (cp_conns pool) \<le> 1" "n < 2 ^ 31"
  shows "\<exists>res pool'. pool_doRequest_req now later d n req pool = Some (res, pool') \<and> pool_use alive maxreq pool' [] \<and> length (cp_conns pool') \<le> 1"
proof -
  obtain r pool1 where g: "getConnection now d pool = (r, pool1)" by (cases "getConnection now d pool")
  have e: "cp_conns pool1 = []" by (rule get_leaves_fewer[OF g assms(2)])
  show ?thesis
  proof (cases r)
    case None
    then show ?thesis using g e pu_none[OF assms(1)] by (simp add: pool_doRequest_req_def)
  next
    case (Some c)
    obtain res s where x: "exchange n req (cn_sock c) = Some (res, s)" using exchange_returns[OF assms(3)] by blast
    have u: "pool_use alive maxreq pool1 ([] @ c # [])" using pu_get[OF assms(1)] g Some by simp
    have "pool_use alive maxreq (ReleasePtr later (c\<lparr>cn_sock := s\<rparr>) pool1) []" using pu_release[OF u] by simp
    moreover have "length (cp_conns (ReleasePtr later (c\<lparr>cn_sock := s\<rparr>) pool1)) \<le> 1"
      using release_adds_one[of later "c\<lparr>cn_sock := s\<rparr>" pool1] e by simp
    ultimately show ?thesis using g Some x by (simp add: pool_doRequest_req_def)
  qed
qed

lemma requests_keep_pool:
  "pool_use alive maxreq pool [] \<Longrightarrow> length (cp_conns pool) \<le> 1 \<Longrightarrow> \<forall>x \<in> set steps. pe_buffer (fst x) < 2 ^ 31 \<Longrightarrow>
   \<exists>rs pool'. pool_requests steps pool = Some (rs, pool') \<and> length rs = length steps \<and> pool_use alive maxreq pool' [] \<and> length (cp_conns pool') \<le> 1"
proof (induction steps arbitrary: pool)
  case (Cons x steps)
  obtain env req where x: "x = (env, req)" by (cases x)
  obtain res pool1 where p: "pool_doRequest_req (pe_now env) (pe_later env) (pe_dialled env) (pe_buffer env) req pool = Some (res, pool1)"
      "pool_use alive maxreq pool1 []" "length (cp_conns pool1) \<le> 1"
    using request_keeps_pool[OF Cons.prems(1,2)] Cons.prems(3) x by fastforce
  obtain rs pool2 where "pool_requests steps pool1 = Some (rs, pool2)" "length rs = length steps" "pool_use alive maxreq pool2 []"
      "length (cp_conns pool2) \<le> 1" using Cons.IH[OF p(2,3)] Cons.prems(3) by auto
  then show ?case using p(1) x by simp
qed auto

text \<open>
  C37: A caller that makes its requests one after the other through a new pool gets a result for each, whatever the connections deliver, and in the
  end the pool holds at most one connection, which is connected and below the limit of requests, and its counter is the number of connections.\<close>

theorem sequential_requests:
  assumes "\<forall>x \<in> set steps. pe_buffer (fst x) < 2 ^ 31"
  shows "\<exists>rs pool. pool_requests steps (HttpConnectionPool_new host vhost pt max_size alive maxreq) = Some (rs, pool) \<and>
    length rs = length steps \<and> length (cp_conns pool) \<le> 1 \<and> cp_total pool = int (length (cp_conns pool)) \<and>
    (\<forall>c \<in> set (cp_conns pool). sk_isConnected (cn_sock c) \<and> cn_request c < ucast maxreq)"
proof -
  have "length (cp_conns (HttpConnectionPool_new host vhost pt max_size alive maxreq)) \<le> 1" by (simp add: HttpConnectionPool_new_def)
  from requests_keep_pool[OF pu_new this assms] obtain rs pool where
    r: "pool_requests steps (HttpConnectionPool_new host vhost pt max_size alive maxreq) = Some (rs, pool)" "length rs = length steps"
      "pool_use alive maxreq pool []" "length (cp_conns pool) \<le> 1" by blast
  then show ?thesis using pool_use_ok[OF r(3)] by (auto simp: pool_ok_def)
qed

definition offline :: pool_env where
  "offline = \<lparr>pe_now = 5000000000, pe_later = 5000000001, pe_dialled = No_connect, pe_buffer = 4096\<rparr>"

theorem sequential_requests_witness:
  "\<exists>rs pool. pool_requests [(offline, HttpRequest_new 0x11 True), (offline, HttpRequest_new 0x11 True)]
     (HttpConnectionPool_new ''a.cn'' [] 80 10 1000 5) = Some (rs, pool) \<and> length rs = 2 \<and> length (cp_conns pool) \<le> 1"
proof -
  have "\<forall>x \<in> set [(offline, HttpRequest_new 0x11 True), (offline, HttpRequest_new 0x11 True)]. pe_buffer (fst x) < 2 ^ 31"
    by (simp add: offline_def)
  from sequential_requests[OF this, of "''a.cn''" "[]" 80 10 1000 5] show ?thesis by fastforce
qed

section \<open>Where the pool goes wrong\<close>

text \<open>
  When sending fails the connection is not closed. The connection goes back to the pool after a part of a request, and the next request follows this
  part on the same connection: here the peer gets the first five bytes of one request and then another.
\<close>

definition shaky :: pool_env where
  "shaky = \<lparr>pe_now = 5000000000, pe_later = 5000000001,
     pe_dialled = Connected \<lparr>sk_open = True, sk_isConnected = True, sk_in = [], sk_sends = [5, 0], sk_out = []\<rparr>, pe_buffer = 4096\<rparr>"

lemma partial_request_pooled:
  "map_option (\<lambda>(res, pool). (hr_result res, map (\<lambda>c. (sk_isConnected (cn_sock c), sk_out (cn_sock c))) (cp_conns pool)))
     (pool_doGet shaky ''/first'' [] [] (HttpConnectionPool_new ''a.cn'' [] 80 10 1000 5)) = Some (SEND_CLOSE_BY_PEER, [(True, ''GET /'')])"
  by code_simp

text \<open>The pool takes the whole target of a URI as the path, with the fragment, which should not be sent.\<close>

lemma uri_requests_use_target:
  "pool_doGet_uri env uri headers body pool = pool_doRequest_uri env GET uri headers body pool"
  "pool_doPost_uri env uri headers body pool = pool_doRequest_uri env POST uri headers body pool"
  by (simp_all add: pool_doGet_uri_def pool_doPost_uri_def pool_doGet_def pool_doPost_def pool_doRequest_uri_def)

end
