(* ===== verification/FileSystem.thy ===== *)
theory FileSystem
  imports StringUtil "HOL-Library.Word"
begin

text \<open>
  The file operations of \<open>FSUtil\<close> in \<open>util.cc\<close>: listing a directory tree, removing, moving and linking, making directories, and opening
  files. A directory is a tree of entries as \<open>readdir\<close> delivers them; which system calls the operating system refuses is an argument.
\<close>

unbundle bit_operations_syntax

section \<open>Directory trees\<close>

datatype ftype = REG | LNK | FIFO | CHR_DEV | BLK_DEV | SOCK

text \<open>
  A directory has a flag whether \<open>opendir\<close> opens it, and its entries; \<open>.\<close> and \<open>..\<close> may be among them, and what they lead to is not visited. A symbolic
  link is an entry of its own: \<open>lstat\<close> and \<open>d_type\<close> do not follow it.
\<close>

datatype node = Leaf ftype | Dir bool "(string \<times> node) list"

definition is_dot :: "string \<Rightarrow> bool" where
  "is_dot n \<longleftrightarrow> n = ''.'' \<or> n = ''..''"

definition child :: "string \<Rightarrow> string \<Rightarrow> string" where
  "child path n = path @ ''/'' @ n"

text \<open>The file type bits of \<open>st_mode\<close>.\<close>

definition S_IFDIR :: "16 word" where
  "S_IFDIR = 0x4000"

fun st_mode :: "node \<Rightarrow> 16 word" where
  "st_mode (Leaf REG) = 0x8000"
| "st_mode (Leaf LNK) = 0xA000"
| "st_mode (Leaf FIFO) = 0x1000"
| "st_mode (Leaf CHR_DEV) = 0x2000"
| "st_mode (Leaf BLK_DEV) = 0x6000"
| "st_mode (Leaf SOCK) = 0xC000"
| "st_mode (Dir _ _) = S_IFDIR"

section \<open>Listing\<close>

definition has_subfix :: "string \<Rightarrow> string \<Rightarrow> bool" where
  "has_subfix subfix filename \<longleftrightarrow>
     subfix = [] \<or> \<not> length filename < length subfix \<and> drop (length filename - length subfix) filename = subfix"

fun ListAllFile :: "string \<Rightarrow> string \<Rightarrow> node \<Rightarrow> string list"
  and list_entries :: "string \<Rightarrow> string \<Rightarrow> (string \<times> node) list \<Rightarrow> string list"
  and list_entry :: "string \<Rightarrow> string \<Rightarrow> string \<Rightarrow> node \<Rightarrow> string list" where
  "ListAllFile subfix path (Leaf _) = []"
| "ListAllFile subfix path (Dir readable es) = (if readable then list_entries subfix path es else [])"
| "list_entries subfix path [] = []"
| "list_entries subfix path ((n, nd) # es) = list_entry subfix path n nd @ list_entries subfix path es"
| "list_entry subfix path n (Dir r es) = (if is_dot n then [] else ListAllFile subfix (child path n) (Dir r es))"
| "list_entry subfix path n (Leaf t) = (if t = REG \<and> has_subfix subfix n then [child path n] else [])"

text \<open>The regular files below a directory that can be reached through directories that can be opened.\<close>

inductive file_below :: "string \<Rightarrow> node \<Rightarrow> string \<Rightarrow> string \<Rightarrow> bool" where
  fb_here: "(n, Leaf REG) \<in> set es \<Longrightarrow> file_below path (Dir True es) n (child path n)"
| fb_below: "(d, Dir r ds) \<in> set es \<Longrightarrow> \<not> is_dot d \<Longrightarrow> file_below (child path d) (Dir r ds) n full \<Longrightarrow>
    file_below path (Dir True es) n full"

inductive_cases file_below_LeafE: "file_below path (Leaf t) n full"
inductive_cases file_below_DirE: "file_below path (Dir r es) n full"

lemma has_subfix_iff: "has_subfix subfix n \<longleftrightarrow> (\<exists>pre. n = pre @ subfix)"
proof
  assume h: "has_subfix subfix n"
  have "n = take (length n - length subfix) n @ drop (length n - length subfix) n" by simp
  also have "drop (length n - length subfix) n = subfix" using h by (cases "subfix = []") (simp_all add: has_subfix_def)
  finally show "\<exists>pre. n = pre @ subfix" ..
qed (auto simp: has_subfix_def)

lemma list_below:
  "full \<in> set (ListAllFile subfix path nd) \<Longrightarrow> \<exists>n. file_below path nd n full \<and> has_subfix subfix n"
  "full \<in> set (list_entries subfix path es) \<Longrightarrow> \<exists>n. file_below path (Dir True es) n full \<and> has_subfix subfix n"
  "full \<in> set (list_entry subfix path m nd) \<Longrightarrow> (m, nd) \<in> set es' \<Longrightarrow> \<exists>n. file_below path (Dir True es') n full \<and> has_subfix subfix n"
proof (induction subfix path nd and subfix path es and subfix path m nd arbitrary: full and full and full es'
    rule: ListAllFile_list_entries_list_entry.induct)
  case (4 subfix path n nd es)
  have more: "file_below path (Dir True ((n, nd) # es)) k f" if "file_below path (Dir True es) k f" for k f
    using that by (rule file_below_DirE) (auto intro: file_below.intros)
  from "4.prems" consider "full \<in> set (list_entry subfix path n nd)" | "full \<in> set (list_entries subfix path es)" by auto
  then show ?case using "4.IH"(1)[of full "(n, nd) # es"] "4.IH"(2)[of full] more by cases auto
next
  case (5 subfix path n r es)
  then obtain k where "file_below (child path n) (Dir r es) k full" "has_subfix subfix k" "\<not> is_dot n" by (auto split: if_splits)
  then show ?case using fb_below[OF "5.prems"(2)] by blast
qed (auto split: if_splits intro: fb_here)

lemma below_list: "file_below path nd n full \<Longrightarrow> has_subfix subfix n \<Longrightarrow> full \<in> set (ListAllFile subfix path nd)"
proof (induction rule: file_below.induct)
  case (fb_here n es path)
  then show ?case by (induction es) auto
next
  case (fb_below d r ds es path n full)
  from fb_below.hyps(1) have "full \<in> set (list_entries subfix path es)"
    using fb_below.hyps(2) fb_below.IH[OF fb_below.prems] by (induction es) auto
  then show ?case by simp
qed

text \<open>
  \<open>ListAllFile\<close> lists exactly the regular files below a path whose name ends in the given suffix, with their paths, as far as the directories on
  the way can be opened; links, devices and sockets are not listed.\<close>

theorem list_exact:
  "set (ListAllFile subfix path nd) = {full. \<exists>n. file_below path nd n full \<and> (\<exists>pre. n = pre @ subfix)}"
  unfolding has_subfix_iff[symmetric] using list_below(1) below_list by blast

section \<open>Removing\<close>

text \<open>
  \<open>can p\<close> tells whether \<open>unlink\<close> or \<open>rmdir\<close> may remove the entry \<open>p\<close>; \<open>rmdir\<close> also needs the directory to be empty. A removed entry is \<open>None\<close>, and every
  function returns its result with what is left.
\<close>

definition Unlink :: "(string \<Rightarrow> bool) \<Rightarrow> bool \<Rightarrow> string \<Rightarrow> node option \<Rightarrow> bool \<times> node option" where
  "Unlink can exist filename nd =
     (if \<not> exist \<and> nd = None then (True, None)
      else case nd of Some (Leaf t) \<Rightarrow> if can filename then (True, None) else (False, nd) | _ \<Rightarrow> (False, nd))"

definition rmdir :: "(string \<Rightarrow> bool) \<Rightarrow> string \<Rightarrow> (string \<times> node) list \<Rightarrow> bool" where
  "rmdir can path es \<longleftrightarrow> can path \<and> list_all (\<lambda>(n, _). is_dot n) es"

fun Rm :: "(string \<Rightarrow> bool) \<Rightarrow> string \<Rightarrow> node \<Rightarrow> bool \<times> node option"
  and rm_entries :: "(string \<Rightarrow> bool) \<Rightarrow> string \<Rightarrow> bool \<Rightarrow> (string \<times> node) list \<Rightarrow> bool \<times> (string \<times> node) list" where
  "Rm can path (Leaf t) =
     (if st_mode (Leaf t) AND S_IFDIR = 0 then Unlink can False path (Some (Leaf t)) else (False, Some (Leaf t)))"
| "Rm can path (Dir readable es) =
     (if \<not> readable then (False, Some (Dir readable es))
      else let (ret, left) = rm_entries can path True es
           in if rmdir can path left then (ret, None) else (False, Some (Dir readable left)))"
| "rm_entries can path ret [] = (ret, [])"
| "rm_entries can path ret ((n, nd) # es) =
     (if is_dot n then let (ret2, left) = rm_entries can path ret es in (ret2, (n, nd) # left)
      else let (r, nd2) = Rm can (child path n) nd; (ret2, left) = rm_entries can path r es
           in (ret2, (case nd2 of None \<Rightarrow> [] | Some x \<Rightarrow> [(n, x)]) @ left))"

definition Rm_path :: "(string \<Rightarrow> bool) \<Rightarrow> string \<Rightarrow> node option \<Rightarrow> bool \<times> node option" where
  "Rm_path can path nd = (case nd of None \<Rightarrow> (True, None) | Some x \<Rightarrow> Rm can path x)"

text \<open>\<open>rename_ok\<close> and \<open>symlink_ok\<close> are the outcomes of the system calls; \<open>rename\<close> needs its source to exist.\<close>

definition Mv :: "(string \<Rightarrow> bool) \<Rightarrow> bool \<Rightarrow> node option \<Rightarrow> string \<Rightarrow> node option \<Rightarrow> bool \<times> node option \<times> node option" where
  "Mv can rename_ok from to at_to =
     (case Rm_path can to at_to of
        (False, left) \<Rightarrow> (False, from, left)
      | (True, left) \<Rightarrow> if rename_ok \<and> from \<noteq> None then (True, None, from) else (False, from, left))"

definition Symlink :: "(string \<Rightarrow> bool) \<Rightarrow> bool \<Rightarrow> string \<Rightarrow> node option \<Rightarrow> bool \<times> node option" where
  "Symlink can symlink_ok to at_to =
     (case Rm_path can to at_to of
        (False, left) \<Rightarrow> (False, left) | (True, left) \<Rightarrow> if symlink_ok then (True, Some (Leaf LNK)) else (False, left))"

text \<open>When a tree can be removed: every directory opens, every entry may be removed, and no entry is a socket or a block device.\<close>

fun removable :: "(string \<Rightarrow> bool) \<Rightarrow> string \<Rightarrow> node \<Rightarrow> bool"
  and all_removable :: "(string \<Rightarrow> bool) \<Rightarrow> string \<Rightarrow> (string \<times> node) list \<Rightarrow> bool" where
  "removable can path (Leaf t) \<longleftrightarrow> can path \<and> t \<notin> {SOCK, BLK_DEV}"
| "removable can path (Dir readable es) \<longleftrightarrow> readable \<and> can path \<and> all_removable can path es"
| "all_removable can path [] \<longleftrightarrow> True"
| "all_removable can path ((n, nd) # es) \<longleftrightarrow> (is_dot n \<or> removable can (child path n) nd) \<and> all_removable can path es"

lemma leaf_mode: "st_mode (Leaf t) AND S_IFDIR = 0 \<longleftrightarrow> t \<notin> {SOCK, BLK_DEV}"
  by (cases t) (simp_all add: S_IFDIR_def)

definition keeps_dots :: "(string \<times> node) list \<Rightarrow> bool" where
  "keeps_dots es \<longleftrightarrow> list_all (\<lambda>(n, _). is_dot n) es"

lemma rm_removes:
  "Rm can path nd = (r, left) \<Longrightarrow> (r \<longleftrightarrow> removable can path nd) \<and> (left = None \<longleftrightarrow> removable can path nd)"
  "rm_entries can path r0 es = (r, ls) \<Longrightarrow>
     (keeps_dots ls \<longleftrightarrow> all_removable can path es) \<and> (all_removable can path es \<longrightarrow> r \<or> \<not> r0)"
proof (induction can path nd and can path r0 es arbitrary: r left and r ls rule: Rm_rm_entries.induct)
  case (1 can path t)
  then show ?case by (auto simp: leaf_mode Unlink_def split: if_splits)
next
  case (2 can path readable es)
  show ?case
  proof (cases readable)
    case True
    obtain ret ls where e: "rm_entries can path True es = (ret, ls)" by fastforce
    show ?thesis using "2.IH"[OF _ e] "2.prems" True e by (auto simp: rmdir_def keeps_dots_def split: if_splits)
  qed (use "2.prems" in auto)
next
  case (3 can path ret)
  then show ?case by (simp add: keeps_dots_def)
next
  case (4 can path ret n nd es)
  show ?case
  proof (cases "is_dot n")
    case True
    obtain r2 l2 where e: "rm_entries can path ret es = (r2, l2)" by fastforce
    show ?thesis using "4.IH"(1)[OF True e] "4.prems" True e by (auto simp: keeps_dots_def)
  next
    case False
    obtain r1 n1 where d: "Rm can (child path n) nd = (r1, n1)" by fastforce
    obtain r2 l2 where e: "rm_entries can path r1 es = (r2, l2)" by fastforce
    have "rm_entries can path ret ((n, nd) # es) = (r2, (case n1 of None \<Rightarrow> [] | Some x \<Rightarrow> [(n, x)]) @ l2)"
      using False d e by simp
    then show ?thesis using "4.IH"(2)[OF False d] "4.IH"(3)[OF False d[symmetric] refl e] "4.prems" False
      by (cases n1) (auto simp: keeps_dots_def)
  qed
qed

text \<open>
  \<open>Rm\<close> returns true exactly when nothing is left at the path, although the loop keeps only the result of the last entry; and it succeeds exactly
  when every directory below opens, the system lets every entry go, and no entry is a socket or a block device, whose mode has the bit of a
  directory.\<close>

theorem rm_exact:
  "(fst (Rm_path can path nd) \<longleftrightarrow> snd (Rm_path can path nd) = None) \<and>
   (fst (Rm_path can path nd) \<longleftrightarrow> (case nd of None \<Rightarrow> True | Some x \<Rightarrow> removable can path x))"
proof (cases nd)
  case (Some x)
  obtain r left where "Rm can path x = (r, left)" by fastforce
  then show ?thesis using rm_removes(1)[of can path x r left] Some by (simp add: Rm_path_def)
qed (simp add: Rm_path_def)

lemma socket_not_removed: "Rm (\<lambda>_. True) path (Leaf SOCK) = (False, Some (Leaf SOCK))"
  by (simp add: S_IFDIR_def)

text \<open>Moving from a path where nothing is deletes the target all the same.\<close>

lemma mv_missing_source: "removable can to x \<Longrightarrow> Mv can rename_ok None to (Some x) = (False, None, None)"
  using rm_removes(1)[of can to x] by (cases "Rm can to x") (auto simp: Mv_def Rm_path_def)

section \<open>Making directories\<close>

text \<open>
  The paths that exist are a set, for \<open>lstat\<close> and \<open>access\<close> alike (no dangling links on the way); \<open>may\<close> tells where \<open>mkdir\<close> succeeds. \<open>Mkdir\<close> cuts the path at each slash after its first character. For the empty
  path it searches for a slash behind the end of the string: \<open>None\<close>.
\<close>

definition mkdir1 :: "(string \<Rightarrow> bool) \<Rightarrow> string set \<Rightarrow> string \<Rightarrow> bool \<times> string set" where
  "mkdir1 may ex p = (if p \<in> ex then (True, ex) else if may p then (True, insert p ex) else (False, ex))"

fun slashes_from :: "nat \<Rightarrow> string \<Rightarrow> nat list" where
  "slashes_from i [] = []"
| "slashes_from i (c # cs) = (if c = CHR ''/'' then [i] else []) @ slashes_from (Suc i) cs"

definition cuts :: "string \<Rightarrow> string list" where
  "cuts p = map (\<lambda>i. take i p) (slashes_from 1 (drop 1 p))"

fun mkdirs :: "(string \<Rightarrow> bool) \<Rightarrow> string set \<Rightarrow> string list \<Rightarrow> bool \<times> string set" where
  "mkdirs may ex [] = (True, ex)"
| "mkdirs may ex (p # ps) = (case mkdir1 may ex p of (False, ex2) \<Rightarrow> (False, ex2) | (True, ex2) \<Rightarrow> mkdirs may ex2 ps)"

definition Mkdir :: "(string \<Rightarrow> bool) \<Rightarrow> string set \<Rightarrow> string \<Rightarrow> (bool \<times> string set) option" where
  "Mkdir may ex dirname =
     (if dirname \<in> ex then Some (True, ex)
      else if dirname = [] then None
      else Some (mkdirs may ex (cuts dirname @ [dirname])))"

text \<open>\<open>opens\<close> tells whether the stream opens, given the paths that exist.\<close>

definition OpenForWrite :: "(string \<Rightarrow> bool) \<Rightarrow> (string set \<Rightarrow> bool) \<Rightarrow> string set \<Rightarrow> string \<Rightarrow> (bool \<times> string set) option" where
  "OpenForWrite may opens ex filename =
     (if opens ex then Some (True, ex) else map_option (\<lambda>(_, ex2). (opens ex2, ex2)) (Mkdir may ex (Dirname filename)))"

text \<open>Opening for reading makes nothing.\<close>

definition OpenForRead :: "(string set \<Rightarrow> bool) \<Rightarrow> string set \<Rightarrow> bool \<times> string set" where
  "OpenForRead opens ex = (opens ex, ex)"

lemma mkdirs_ok:
  "mkdirs may ex ps = (ok, ex2) \<Longrightarrow>
     ex \<subseteq> ex2 \<and> ex2 \<subseteq> ex \<union> set ps \<and> (ok \<longrightarrow> ex2 = ex \<union> set ps) \<and> (ok \<longleftrightarrow> (\<forall>p \<in> set ps. p \<in> ex \<or> may p))"
proof (induction ps arbitrary: ex)
  case (Cons p ps)
  consider "p \<in> ex" | "p \<notin> ex" "may p" | "p \<notin> ex" "\<not> may p" by blast
  then show ?case
  proof cases
    case 1
    then show ?thesis using Cons by (auto simp: mkdir1_def)
  next
    case 2
    then show ?thesis using Cons.IH[of "insert p ex"] Cons.prems by (auto simp: mkdir1_def)
  qed (use Cons.prems in \<open>auto simp: mkdir1_def\<close>)
qed auto

lemma set_slashes: "set (slashes_from i cs) = {j. i \<le> j \<and> j < i + length cs \<and> cs ! (j - i) = CHR ''/''}"
proof (induction cs arbitrary: i)
  case (Cons c cs)
  have "set (slashes_from i (c # cs)) = (if c = CHR ''/'' then {i} else {}) \<union> {j. Suc i \<le> j \<and> j < Suc i + length cs \<and> cs ! (j - Suc i) = CHR ''/''}"
    by (simp add: Cons.IH)
  also have "\<dots> = {j. i \<le> j \<and> j < i + length (c # cs) \<and> (c # cs) ! (j - i) = CHR ''/''}" (is "?l = ?r")
  proof (rule set_eqI)
    fix j
    show "j \<in> ?l \<longleftrightarrow> j \<in> ?r" by (cases "j = i") (auto simp: nth_Cons')
  qed
  finally show ?case .
qed simp

lemma set_cuts: "set (cuts p) = {take i p |i. 0 < i \<and> i < length p \<and> p ! i = CHR ''/''}"
proof -
  have "set (slashes_from 1 (drop 1 p)) = {i. 0 < i \<and> i < length p \<and> p ! i = CHR ''/''}"
    by (cases p) (auto simp: set_slashes nth_Cons')
  then show ?thesis by (auto simp: cuts_def)
qed

lemma Dirname_nonempty: "Dirname f \<noteq> []"
proof (cases "rfind (CHR ''/'') f")
  case (Some p)
  then show ?thesis by (cases f) (auto simp: Dirname_def substr_def)
qed (simp add: Dirname_def)

text \<open>The empty path is the one that is searched behind its end.\<close>

lemma mkdir_empty_path: "Mkdir may ex d = None \<longleftrightarrow> d = [] \<and> [] \<notin> ex"
  by (auto simp: Mkdir_def)

text \<open>
  \<open>Mkdir\<close> on a nonempty path makes the path and every part of it that ends before a slash, and nothing else; it succeeds exactly when the system
  lets it make those that are missing. Opening a file for writing never searches behind the end of a path, and opens the file
  whenever the missing directories can be made and the system opens files whose directory exists.\<close>

theorem mkdir_exact:
  "(d \<noteq> [] \<longrightarrow> (\<exists>ok ex2. Mkdir may ex d = Some (ok, ex2) \<and> ex \<subseteq> ex2 \<and>
      (ok \<longrightarrow> d \<in> ex \<and> ex2 = ex \<or> ex2 = ex \<union> {d} \<union> {take i d |i. 0 < i \<and> i < length d \<and> d ! i = CHR ''/''}) \<and>
      (ok \<longleftrightarrow> d \<in> ex \<or> (\<forall>p \<in> {d} \<union> {take i d |i. 0 < i \<and> i < length d \<and> d ! i = CHR ''/''}. p \<in> ex \<or> may p)))) \<and>
   OpenForWrite may opens ex f \<noteq> None \<and>
   ((\<forall>p. may p) \<and> (\<forall>e. Dirname f \<in> e \<longrightarrow> opens e) \<longrightarrow> (\<exists>ex2. OpenForWrite may opens ex f = Some (True, ex2)))"
proof (intro conjI impI)
  let ?need = "\<lambda>d. {d} \<union> {take i d |i. 0 < i \<and> i < length d \<and> d ! i = CHR ''/''}"
  have main: "\<exists>ok ex2. Mkdir may ex d = Some (ok, ex2) \<and> ex \<subseteq> ex2 \<and> (ok \<longrightarrow> d \<in> ex \<and> ex2 = ex \<or> ex2 = ex \<union> {d} \<union> {take i d |i. 0 < i \<and> i < length d \<and> d ! i = CHR ''/''}) \<and>
      (ok \<longleftrightarrow> d \<in> ex \<or> (\<forall>p \<in> ?need d. p \<in> ex \<or> may p))" if d: "d \<noteq> []" for d
  proof (cases "d \<in> ex")
    case False
    obtain ok ex2 where e: "mkdirs may ex (cuts d @ [d]) = (ok, ex2)" by fastforce
    have s: "set (cuts d @ [d]) = ?need d" by (simp add: set_cuts Un_commute)
    from mkdirs_ok[OF e, unfolded s] show ?thesis using d False e by (auto simp: Mkdir_def Un_assoc)
  qed (auto simp: Mkdir_def)
  then show "d \<noteq> [] \<Longrightarrow> \<exists>ok ex2. Mkdir may ex d = Some (ok, ex2) \<and> ex \<subseteq> ex2 \<and>
      (ok \<longrightarrow> d \<in> ex \<and> ex2 = ex \<or> ex2 = ex \<union> {d} \<union> {take i d |i. 0 < i \<and> i < length d \<and> d ! i = CHR ''/''}) \<and>
      (ok \<longleftrightarrow> d \<in> ex \<or> (\<forall>p \<in> ?need d. p \<in> ex \<or> may p))" .
  from main[OF Dirname_nonempty] obtain ok ex2 where m: "Mkdir may ex (Dirname f) = Some (ok, ex2)"
    "ok \<longrightarrow> Dirname f \<in> ex \<and> ex2 = ex \<or> ex2 = ex \<union> {Dirname f} \<union> {take i (Dirname f) |i. 0 < i \<and> i < length (Dirname f) \<and> Dirname f ! i = CHR ''/''}"
    "ok \<longleftrightarrow> Dirname f \<in> ex \<or> (\<forall>p \<in> ?need (Dirname f). p \<in> ex \<or> may p)" by blast
  show "OpenForWrite may opens ex f \<noteq> None" using m(1) by (auto simp: OpenForWrite_def)
  assume a: "(\<forall>p. may p) \<and> (\<forall>e. Dirname f \<in> e \<longrightarrow> opens e)"
  then have "ok" using m(3) by simp
  then have "Dirname f \<in> ex2" using m(2) by blast
  then show "\<exists>ex2. OpenForWrite may opens ex f = Some (True, ex2)" using a m(1) by (simp add: OpenForWrite_def)
qed

theorem mkdir_exact_witness:
  "\<exists>ex2. OpenForWrite (\<lambda>_. True) (\<lambda>e. ''/var/log'' \<in> e) {''/var''} ''/var/log/a.txt'' = Some (True, ex2)"
proof -
  have "Dirname ''/var/log/a.txt'' = ''/var/log''" by code_simp
  then show ?thesis
    using mkdir_exact[where d = "''/var''" and f = "''/var/log/a.txt''" and may = "\<lambda>_. True" and opens = "\<lambda>e. ''/var/log'' \<in> e" and ex = "{''/var''}"]
    by simp
qed

end
