(* ===== verification/TypeUtil.thy ===== *)
theory TypeUtil
  imports Uri FileSystem
begin

text \<open>
  The number conversions of \<open>TypeUtil\<close> in \<open>util.cc\<close>, with the functions of the C library they rest on, and the use of them on a file that holds
  a process number. \<open>long\<close> has 64 bits.
\<close>

section \<open>Numbers of the C library\<close>

text \<open>The sign and the digits that \<open>strtol\<close> and \<open>strtoull\<close> find in base ten: blanks are skipped, then a sign is taken.\<close>

definition number_parts :: "string \<Rightarrow> bool \<times> string" where
  "number_parts str =
     (let t = dropWhile is_space str
      in (t \<noteq> [] \<and> hd t = CHR ''-'',
          takeWhile IS_NUM (if t \<noteq> [] \<and> (hd t = CHR ''-'' \<or> hd t = CHR ''+'') then tl t else t)))"

text \<open>\<open>strtoull\<close> gives the largest value when the digits overflow, and negates in the unsigned type otherwise.\<close>

definition strtoull :: "string \<Rightarrow> u64" where
  "strtoull str =
     (case number_parts str of (neg, d) \<Rightarrow>
        if 2 ^ 64 \<le> dec_value 0 d then - 1 else if neg then - of_nat (dec_value 0 d) else of_nat (dec_value 0 d))"

definition strtol :: "string \<Rightarrow> int" where
  "strtol str =
     (case number_parts str of (neg, d) \<Rightarrow>
        if neg then max (- (2 ^ 63)) (- int (dec_value 0 d)) else min (2 ^ 63 - 1) (int (dec_value 0 d)))"

text \<open>\<open>atoi\<close> is \<open>strtol\<close> converted to \<open>int\<close>.\<close>

definition atoi :: "string \<Rightarrow> int" where
  "atoi str = sint (word_of_int (strtol str) :: u32)"

section \<open>Conversions\<close>

text \<open>The result of \<open>Atoi\<close> is an \<open>int64_t\<close>; \<open>None\<close> is the null pointer of the versions for C strings.\<close>

definition TypeUtil_ToChar :: "string \<Rightarrow> byte" where
  "TypeUtil_ToChar str = (if str = [] then 0 else of_char (hd str))"

definition TypeUtil_Atoi :: "string \<Rightarrow> int" where
  "TypeUtil_Atoi str = (if str = [] then 0 else sint (strtoull str))"

text \<open>The empty C string starts with its terminating zero.\<close>

definition TypeUtil_ToChar_c :: "string option \<Rightarrow> byte" where
  "TypeUtil_ToChar_c str = (case str of None \<Rightarrow> 0 | Some s \<Rightarrow> if s = [] then 0 else of_char (hd s))"

definition TypeUtil_Atoi_c :: "string option \<Rightarrow> int" where
  "TypeUtil_Atoi_c str = (case str of None \<Rightarrow> 0 | Some s \<Rightarrow> sint (strtoull s))"

section \<open>Process files\<close>

text \<open>
  \<open>exists\<close> is the outcome of \<open>lstat\<close>, \<open>content\<close> the text of the file if it can be opened, \<open>kill0\<close> tells for which processes \<open>kill(pid, 0)\<close> succeeds.
  \<open>getline\<close> fails on an empty file.
\<close>

definition IsRunningPidfile :: "bool \<Rightarrow> string option \<Rightarrow> (int \<Rightarrow> bool) \<Rightarrow> bool" where
  "IsRunningPidfile exists content kill0 =
     (if \<not> exists then False
      else case content of
             None \<Rightarrow> False
           | Some text0 \<Rightarrow>
               if text0 = [] then False
               else let line = takeWhile (\<lambda>c. c \<noteq> CHR 0x0A) text0
                    in if line = [] then False
                       else let pid = atoi line in if pid \<le> 1 then False else kill0 pid)"

definition Realpath :: "bool \<Rightarrow> string option \<Rightarrow> string \<Rightarrow> bool \<times> string" where
  "Realpath exists resolved rpath =
     (if \<not> exists then (False, rpath) else case resolved of None \<Rightarrow> (False, rpath) | Some p \<Rightarrow> (True, p))"

section \<open>Printed numbers are read back\<close>

lemma dec_value_append: "dec_value v (xs @ ys) = dec_value (dec_value v xs) ys"
  by (induction xs arbitrary: v) simp_all

lemma dec_string_digits: "list_all IS_NUM (dec_string n) \<and> dec_string n \<noteq> [] \<and> dec_value 0 (dec_string n) = n"
proof (induction n rule: dec_string.induct)
  case (1 n)
  have digit: "IS_NUM (char_of (48 + d)) \<and> digit_val (char_of (48 + d)) = d" if "d < 10" for d :: nat
    using that by (simp add: IS_NUM_iff ord_of_def digit_val_def)
  show ?case
  proof (cases "n < 10")
    case True
    then show ?thesis using digit[of n] by (subst (1 2 3) dec_string.simps) simp
  next
    case False
    have "n mod 10 < 10" by simp
    then show ?thesis using digit[of "n mod 10"] 1[OF False] False
      by (subst (1 2 3) dec_string.simps) (simp add: dec_value_append)
  qed
qed

lemma digits_parts:
  assumes "list_all IS_NUM d" "d \<noteq> []" "rest = [] \<or> \<not> IS_NUM (hd rest)"
  shows "number_parts (d @ rest) = (False, d)" "number_parts (CHR ''-'' # d @ rest) = (True, d)"
proof -
  obtain c cs where d: "d = c # cs" using assms(2) by (cases d) auto
  then have c: "\<not> is_space c" "c \<noteq> CHR ''-''" "c \<noteq> CHR ''+''" using assms(1) IS_NUM_plain by auto
  have t: "takeWhile IS_NUM (d @ rest) = d"
    using assms(1,3) by (cases rest) (auto simp: list_all_iff takeWhile_append)
  show "number_parts (d @ rest) = (False, d)" using c t d by (simp add: number_parts_def)
  show "number_parts (CHR ''-'' # d @ rest) = (True, d)" using t by (simp add: number_parts_def is_space_def ord_of_def)
qed

lemma int_string_parts:
  assumes "rest = [] \<or> \<not> IS_NUM (hd rest)"
  shows "number_parts (int_string v @ rest) = (v < 0, dec_string (nat (abs v)))"
  using digits_parts[of "dec_string (nat (abs v))" rest] dec_string_digits[of "nat (abs v)"] assms by (auto simp: int_string_def)

lemma sint_in_range: "- (2 ^ 63) \<le> v \<Longrightarrow> v < 2 ^ 63 \<Longrightarrow> sint (word_of_int v :: u64) = v"
  by (simp add: signed_take_bit_int_eq_self sint_sbintrunc')

text \<open>
  \<open>Atoi\<close> reads every printed 64-bit number back, whatever other text follows it. A number that only fits without a sign comes out negative, and
  every larger one is \<open>- 1\<close>; an empty string is zero.\<close>

theorem atoi_reads_back:
  assumes "rest = [] \<or> \<not> IS_NUM (hd rest)"
  shows "(- (2 ^ 63) \<le> v \<and> v < 2 ^ 63 \<longrightarrow> TypeUtil_Atoi (int_string v @ rest) = v) \<and>
    (2 ^ 63 \<le> v \<and> v < 2 ^ 64 \<longrightarrow> TypeUtil_Atoi (int_string v @ rest) = v - 2 ^ 64) \<and>
    (2 ^ 64 \<le> v \<longrightarrow> TypeUtil_Atoi (int_string v @ rest) = - 1) \<and> TypeUtil_Atoi [] = 0"
proof -
  have ne: "int_string v @ rest \<noteq> []" using dec_string_digits[of "nat (abs v)"] by (auto simp: int_string_def)
  have val: "strtoull (int_string v @ rest) = (if 2 ^ 64 \<le> abs v then - 1 else word_of_int v)"
    using int_string_parts[OF assms, of v] dec_string_digits[of "nat (abs v)"]
    by (auto simp: strtoull_def nat_le_iff le_nat_iff of_nat_nat)
  have "sint (word_of_int v :: u64) = v - 2 ^ 64" if "2 ^ 63 \<le> v" "v < 2 ^ 64"
  proof -
    have eq: "word_of_int (v - 2 ^ 64) = (word_of_int v :: u64)" by simp
    have "sint (word_of_int (v - 2 ^ 64) :: u64) = v - 2 ^ 64" using that by (intro sint_in_range) simp_all
    then show ?thesis unfolding eq .
  qed
  then show ?thesis using ne val sint_in_range[of v] by (auto simp: TypeUtil_Atoi_def)
qed

theorem atoi_reads_back_witness:
  "TypeUtil_Atoi (int_string (- 42) @ '' ms'') = - 42 \<and> TypeUtil_Atoi (int_string (2 ^ 63)) = - (2 ^ 63)"
proof -
  have "\<not> IS_NUM (hd '' ms'')" by code_simp
  then show ?thesis using atoi_reads_back[of "'' ms''" "- 42"] atoi_reads_back[of "[]" "2 ^ 63"] by simp
qed

text \<open>A process file that holds a printed number is asked about this process; the numbers of \<open>init\<close> and below are refused.\<close>

lemma pidfile_asks:
  assumes "0 \<le> pid" "pid < 2 ^ 31" "rest = [] \<or> hd rest = CHR 0x0A"
  shows "IsRunningPidfile True (Some (int_string pid @ rest)) kill0 \<longleftrightarrow> 1 < pid \<and> kill0 pid"
proof -
  have digits: "list_all IS_NUM (int_string pid)" "int_string pid \<noteq> []"
    using assms(1) dec_string_digits[of "nat pid"] by (simp_all add: int_string_def)
  then have line: "takeWhile (\<lambda>c. c \<noteq> CHR 0x0A) (int_string pid @ rest) = int_string pid"
    using assms(3) by (cases rest) (auto simp: list_all_iff takeWhile_append IS_NUM_iff ord_of_def)
  have "atoi (int_string pid) = pid"
    using int_string_parts[of "[]" pid] dec_string_digits[of "nat pid"] assms(1,2)
    by (simp add: atoi_def strtol_def signed_take_bit_int_eq_self sint_sbintrunc')
  then show ?thesis using line digits(2) by (auto simp: IsRunningPidfile_def Let_def)
qed

end
