(* ===== verification/Locks.thy ===== *)
theory Locks
  imports Main
begin

text \<open>
  Locks and threads, \<open>mutex.h\<close>, \<open>mutex.cc\<close>, \<open>thread.h\<close> and \<open>thread.cc\<close>: the scoped guards over a mutex, the lock by atomic exchange as a step
  relation between threads, and the start of a thread, whose constructor waits until the new thread has announced itself. The
  functions of the pthread library only pass on.
\<close>

section \<open>Guards\<close>

text \<open>
  A guard has its flag; the mutex is what it calls. \<open>acquire\<close> is \<open>lock\<close>, \<open>rdlock\<close> or \<open>wrlock\<close> of the mutex and may block, \<open>release\<close> is \<open>unlock\<close>.
\<close>

record 'm guard =
  gd_mutex :: 'm
  gd_locked :: bool

definition guard_new :: "('m \<Rightarrow> 'm option) \<Rightarrow> 'm \<Rightarrow> 'm guard option" where
  "guard_new acquire m = map_option (\<lambda>m1. \<lparr>gd_mutex = m1, gd_locked = True\<rparr>) (acquire m)"

definition guard_lock :: "('m \<Rightarrow> 'm option) \<Rightarrow> 'm guard \<Rightarrow> 'm guard option" where
  "guard_lock acquire g =
     (if \<not> gd_locked g then map_option (\<lambda>m1. \<lparr>gd_mutex = m1, gd_locked = True\<rparr>) (acquire (gd_mutex g)) else Some g)"

definition guard_unlock :: "('m \<Rightarrow> 'm) \<Rightarrow> 'm guard \<Rightarrow> 'm guard" where
  "guard_unlock release g = (if gd_locked g then \<lparr>gd_mutex = release (gd_mutex g), gd_locked = False\<rparr> else g)"

definition guard_delete :: "('m \<Rightarrow> 'm) \<Rightarrow> 'm guard \<Rightarrow> 'm" where
  "guard_delete release g = gd_mutex (guard_unlock release g)"

text \<open>The life of a guard: made on a mutex that the caller does not hold, then locked and unlocked in any order.\<close>

inductive guard_use :: "('m \<Rightarrow> 'm option) \<Rightarrow> ('m \<Rightarrow> 'm) \<Rightarrow> ('m \<Rightarrow> bool) \<Rightarrow> 'm guard \<Rightarrow> bool" for acquire release held where
  use_new: "\<not> held m \<Longrightarrow> guard_new acquire m = Some g \<Longrightarrow> guard_use acquire release held g"
| use_lock: "guard_use acquire release held g \<Longrightarrow> guard_lock acquire g = Some g' \<Longrightarrow> guard_use acquire release held g'"
| use_unlock: "guard_use acquire release held g \<Longrightarrow> guard_use acquire release held (guard_unlock release g)"

text \<open>
  What guards rely on: a mutex is held or not by the caller; acquiring takes it, releasing gives it back. A guard holds the mutex exactly while
  its flag says so, and has given it back when it is gone.
\<close>

locale lockable =
  fixes acquire :: "'m \<Rightarrow> 'm option" and release :: "'m \<Rightarrow> 'm" and held :: "'m \<Rightarrow> bool"
  assumes acquire_held: "\<not> held m \<Longrightarrow> acquire m = Some m' \<Longrightarrow> held m'"
    and release_free: "held m \<Longrightarrow> \<not> held (release m)"
begin

lemma use_flag: "guard_use acquire release held g \<Longrightarrow> held (gd_mutex g) \<longleftrightarrow> gd_locked g"
proof (induction rule: guard_use.induct)
  case (use_new m g)
  then show ?case using acquire_held by (auto simp: guard_new_def)
next
  case (use_lock g g')
  then show ?case using acquire_held by (auto simp: guard_lock_def split: if_splits)
next
  case (use_unlock g)
  then show ?case using release_free by (auto simp: guard_unlock_def)
qed

lemma use_delete: "guard_use acquire release held g \<Longrightarrow> \<not> held (guard_delete release g)"
  using use_flag[of g] release_free by (auto simp: guard_delete_def guard_unlock_def)

end

section \<open>The lock by atomic exchange\<close>

text \<open>
  One \<open>CASLock\<close> and the threads that use it. \<open>lock\<close> repeats the atomic exchange until it finds the flag clear, one exchange per step; \<open>unlock\<close>
  clears the flag.
\<close>

datatype cas_phase = Outside | Spinning | Inside

record cas =
  cas_flag :: bool
  cas_at :: "nat \<Rightarrow> cas_phase"

definition CASLock_new :: cas where
  "CASLock_new = \<lparr>cas_flag = False, cas_at = (\<lambda>_. Outside)\<rparr>"

definition test_and_set :: "nat \<Rightarrow> cas \<Rightarrow> cas" where
  "test_and_set t c = \<lparr>cas_flag = True, cas_at = (cas_at c)(t := (if cas_flag c then Spinning else Inside))\<rparr>"

definition CASLock_unlock :: "nat \<Rightarrow> cas \<Rightarrow> cas" where
  "CASLock_unlock t c = \<lparr>cas_flag = False, cas_at = (cas_at c)(t := Outside)\<rparr>"

inductive cas_step :: "cas \<Rightarrow> cas \<Rightarrow> bool" where
  cs_try: "cas_at c t \<noteq> Inside \<Longrightarrow> cas_step c (test_and_set t c)"
| cs_unlock: "cas_at c t = Inside \<Longrightarrow> cas_step c (CASLock_unlock t c)"

inductive cas_reach :: "cas \<Rightarrow> bool" where
  cr_new: "cas_reach CASLock_new"
| cr_step: "cas_reach c \<Longrightarrow> cas_step c d \<Longrightarrow> cas_reach d"

inductive_cases cas_stepE: "cas_step c d"

lemma cas_inv: "cas_reach c \<Longrightarrow> (cas_flag c \<longleftrightarrow> (\<exists>t. cas_at c t = Inside)) \<and> (\<forall>t u. cas_at c t = Inside \<longrightarrow> cas_at c u = Inside \<longrightarrow> t = u)"
proof (induction rule: cas_reach.induct)
  case (cr_step c d)
  from cr_step.hyps(2) show ?case
  proof (rule cas_stepE)
    fix t assume t: "d = test_and_set t c" "cas_at c t \<noteq> Inside"
    show ?thesis
    proof (cases "cas_flag c")
      case True
      then show ?thesis using t cr_step.IH by (auto simp: test_and_set_def)
    next
      case False
      then have "cas_at c u \<noteq> Inside" for u using cr_step.IH by blast
      then show ?thesis using t False by (auto simp: test_and_set_def)
    qed
  next
    fix t assume t: "d = CASLock_unlock t c" "cas_at c t = Inside"
    have "cas_at d u \<noteq> Inside" for u
    proof (cases "u = t")
      case False
      then have "cas_at c u \<noteq> Inside" using cr_step.IH t(2) by blast
      then show ?thesis using False t(1) by (simp add: CASLock_unlock_def)
    qed (simp add: t(1) CASLock_unlock_def)
    then show ?thesis using t(1) by (simp add: CASLock_unlock_def)
  qed
qed (simp add: CASLock_new_def)

text \<open>
  C24: The lock by atomic exchange excludes: in every reachable state at most one thread is between \<open>lock\<close> and \<open>unlock\<close>, the flag is set exactly
  when one is, and from every state with a free lock any thread that tries enters with its next exchange.\<close>

theorem cas_exclusion:
  assumes "cas_reach c"
  shows "(cas_at c t = Inside \<longrightarrow> cas_at c u = Inside \<longrightarrow> t = u) \<and> (cas_flag c \<longleftrightarrow> (\<exists>t. cas_at c t = Inside)) \<and>
    ((\<nexists>v. cas_at c v = Inside) \<longrightarrow> cas_at (test_and_set t c) t = Inside)"
proof (intro conjI impI)
  show "t = u" if "cas_at c t = Inside" "cas_at c u = Inside" using cas_inv[OF assms] that by blast
  show flag: "cas_flag c \<longleftrightarrow> (\<exists>t. cas_at c t = Inside)" using cas_inv[OF assms] by simp
  show "cas_at (test_and_set t c) t = Inside" if "\<nexists>v. cas_at c v = Inside" using flag that by (simp add: test_and_set_def)
qed

theorem cas_exclusion_witness:
  "cas_reach (test_and_set 2 (test_and_set 1 CASLock_new)) \<and> cas_flag (test_and_set 2 (test_and_set 1 CASLock_new)) \<and>
   (\<exists>t. cas_at (test_and_set 2 (test_and_set 1 CASLock_new)) t = Inside)"
proof -
  have one: "cas_reach (test_and_set 1 CASLock_new)" by (rule cr_step[OF cr_new], rule cs_try) (simp add: CASLock_new_def)
  have "cas_reach (test_and_set 2 (test_and_set 1 CASLock_new))"
    by (rule cr_step[OF one], rule cs_try) (simp add: CASLock_new_def test_and_set_def)
  from cas_exclusion[OF this, of 1 1] this show ?thesis by (auto simp: test_and_set_def CASLock_new_def)
qed

text \<open>A guard over this lock, for thread \<open>t\<close>: acquiring returns when an exchange finds the flag clear, and blocks otherwise.\<close>

definition CASLock_lock :: "nat \<Rightarrow> cas \<Rightarrow> cas option" where
  "CASLock_lock t c = (if cas_flag c then None else Some (test_and_set t c))"

interpretation cas_guard: lockable "CASLock_lock t" "CASLock_unlock t" "\<lambda>c. cas_at c t = Inside" for t
  by unfold_locales (auto simp: CASLock_lock_def test_and_set_def CASLock_unlock_def split: if_splits)

text \<open>
  A scoped guard holds its lock exactly while its flag says so, whatever sequence of \<open>lock\<close> and \<open>unlock\<close> it is used with, and leaves the lock
  released when it is destroyed.\<close>

theorem guard_balanced:
  assumes "guard_use (CASLock_lock t) (CASLock_unlock t) (\<lambda>c. cas_at c t = Inside) g"
  shows "(cas_at (gd_mutex g) t = Inside \<longleftrightarrow> gd_locked g) \<and> cas_at (guard_delete (CASLock_unlock t) g) t \<noteq> Inside"
  using cas_guard.use_flag[OF assms] cas_guard.use_delete[OF assms] by simp

theorem guard_balanced_witness:
  "\<exists>g. guard_new (CASLock_lock 1) CASLock_new = Some g \<and> gd_locked g \<and> cas_at (guard_delete (CASLock_unlock 1) g) 1 \<noteq> Inside"
proof -
  obtain g where g: "guard_new (CASLock_lock 1) CASLock_new = Some g" by (simp add: guard_new_def CASLock_lock_def CASLock_new_def)
  have "guard_use (CASLock_lock 1) (CASLock_unlock 1) (\<lambda>c. cas_at c 1 = Inside) g" by (rule use_new[OF _ g]) (simp add: CASLock_new_def)
  from guard_balanced[OF this] show ?thesis using g by (auto simp: guard_new_def CASLock_lock_def CASLock_new_def test_and_set_def)
qed

section \<open>Threads\<close>

text \<open>
  A thread object with its semaphore, the thread that runs the constructor and the new thread. The steps are the calls that the two interleave at:
  \<open>pthread_create\<close>, the preparation in \<open>run\<close>, \<open>notify\<close>, \<open>wait\<close>, the callback, \<open>join\<close> and the destructor. Of the new thread's own variables
  the model has the pointer \<open>t_thread\<close>, its name, the name at the operating system and the local callback of \<open>run\<close>.
\<close>

datatype starter = Constructing | Waiting | Constructed | Deleted | Failed

datatype runner = Not_started | Preparing | Announcing | Running | Returned

record 'cb thread =
  th_id :: int
  th_handle :: bool
  th_cb :: "'cb option"
  th_name :: string
  th_semaphore :: nat
  th_starter :: starter
  th_runner :: runner
  th_this :: bool
  th_threadName :: string
  th_osName :: string
  th_run_cb :: "'cb option"
  th_detached :: bool

definition Thread_new :: "'cb \<Rightarrow> string \<Rightarrow> 'cb thread" where
  "Thread_new cb name =
     \<lparr>th_id = -1, th_handle = False, th_cb = Some cb, th_name = (if name = [] then ''UNKNOW'' else name), th_semaphore = 0,
      th_starter = Constructing, th_runner = Not_started, th_this = False, th_threadName = ''UNKNOW'', th_osName = [], th_run_cb = None,
      th_detached = False\<rparr>"

definition Thread_create :: "bool \<Rightarrow> 'cb thread \<Rightarrow> 'cb thread" where
  "Thread_create ok th =
     (if ok then th\<lparr>th_handle := True, th_starter := Waiting, th_runner := Preparing\<rparr> else th\<lparr>th_starter := Failed\<rparr>)"

text \<open>\<open>run\<close> up to \<open>notify\<close>; \<open>tid\<close> is what \<open>GetThreadId\<close> returns.\<close>

definition Thread_run_prepare :: "nat \<Rightarrow> 'cb thread \<Rightarrow> 'cb thread" where
  "Thread_run_prepare tid th =
     th\<lparr>th_this := True, th_threadName := th_name th, th_id := int tid, th_osName := take 15 (th_name th),
        th_run_cb := th_cb th, th_cb := None, th_runner := Announcing\<rparr>"

definition Semaphore_notify :: "nat \<Rightarrow> nat" where
  "Semaphore_notify n = Suc n"

definition Semaphore_wait :: "nat \<Rightarrow> nat option" where
  "Semaphore_wait n = (if n = 0 then None else Some (n - 1))"

definition Thread_run_notify :: "'cb thread \<Rightarrow> 'cb thread" where
  "Thread_run_notify th = th\<lparr>th_semaphore := Semaphore_notify (th_semaphore th), th_runner := Running\<rparr>"

definition Thread_wait :: "'cb thread \<Rightarrow> 'cb thread option" where
  "Thread_wait th = map_option (\<lambda>n. th\<lparr>th_semaphore := n, th_starter := Constructed\<rparr>) (Semaphore_wait (th_semaphore th))"

definition Thread_run_cb :: "'cb thread \<Rightarrow> 'cb thread" where
  "Thread_run_cb th = th\<lparr>th_runner := Returned\<rparr>"

text \<open>
  \<open>join\<close> blocks while the thread runs, as \<open>pthread_join\<close> does; with an error of \<open>pthread_join\<close> (\<open>ok\<close> false) it throws and the object stays as it is.
\<close>

definition Thread_join :: "bool \<Rightarrow> 'cb thread \<Rightarrow> ('cb thread + 'cb thread) option" where
  "Thread_join ok th =
     (if \<not> th_handle th then Some (Inr th)
      else if \<not> ok then Some (Inl th)
      else if th_runner th = Returned then Some (Inr (th\<lparr>th_handle := False\<rparr>)) else None)"

definition Thread_delete :: "'cb thread \<Rightarrow> 'cb thread" where
  "Thread_delete th = th\<lparr>th_detached := th_handle th, th_starter := Deleted\<rparr>"

definition Thread_SetName :: "string \<Rightarrow> 'cb thread \<Rightarrow> 'cb thread" where
  "Thread_SetName name th =
     (if name = [] then th else (if th_this th then th\<lparr>th_name := name\<rparr> else th)\<lparr>th_threadName := name\<rparr>)"

inductive thread_step :: "'cb thread \<Rightarrow> 'cb thread \<Rightarrow> bool" where
  ts_create: "th_starter th = Constructing \<Longrightarrow> thread_step th (Thread_create ok th)"
| ts_prepare: "th_runner th = Preparing \<Longrightarrow> thread_step th (Thread_run_prepare tid th)"
| ts_notify: "th_runner th = Announcing \<Longrightarrow> thread_step th (Thread_run_notify th)"
| ts_wait: "th_starter th = Waiting \<Longrightarrow> Thread_wait th = Some th' \<Longrightarrow> thread_step th th'"
| ts_name: "th_runner th = Running \<Longrightarrow> th_starter th \<noteq> Deleted \<Longrightarrow> thread_step th (Thread_SetName nm th)"
| ts_cb: "th_runner th = Running \<Longrightarrow> thread_step th (Thread_run_cb th)"
| ts_join: "th_starter th = Constructed \<Longrightarrow> Thread_join ok th = Some (Inr th') \<Longrightarrow> thread_step th th'"
| ts_delete: "th_starter th = Constructed \<Longrightarrow> thread_step th (Thread_delete th)"

inductive thread_reach :: "'cb \<Rightarrow> string \<Rightarrow> 'cb thread \<Rightarrow> bool" for cb name where
  tr_new: "thread_reach cb name (Thread_new cb name)"
| tr_step: "thread_reach cb name th \<Longrightarrow> thread_step th th' \<Longrightarrow> thread_reach cb name th'"

definition thread_inv :: "'cb \<Rightarrow> 'cb thread \<Rightarrow> bool" where
  "thread_inv cb th \<longleftrightarrow>
     (th_starter th \<in> {Constructing, Failed} \<longleftrightarrow> th_runner th = Not_started) \<and>
     (th_runner th \<in> {Not_started, Preparing} \<longrightarrow> th_cb th = Some cb \<and> th_semaphore th = 0 \<and> th_starter th \<notin> {Constructed, Deleted}) \<and>
     (th_runner th = Announcing \<longrightarrow> th_semaphore th = 0 \<and> th_starter th = Waiting) \<and>
     (th_runner th \<in> {Announcing, Running, Returned} \<longrightarrow> th_id th \<ge> 0 \<and> th_this th \<and> th_cb th = None \<and> th_run_cb th = Some cb) \<and>
     (th_runner th \<in> {Running, Returned} \<longrightarrow> th_semaphore th = (if th_starter th = Waiting then 1 else 0)) \<and>
     (th_starter th \<in> {Waiting, Constructed, Deleted} \<and> \<not> th_handle th \<longrightarrow> th_runner th = Returned)"

lemmas thread_ops = Thread_create_def Thread_run_prepare_def Thread_run_notify_def Thread_wait_def Thread_run_cb_def Thread_join_def
  Thread_delete_def Thread_SetName_def Semaphore_notify_def Semaphore_wait_def

lemma thread_step_inv: "thread_step th th' \<Longrightarrow> thread_inv cb th \<Longrightarrow> thread_inv cb th'"
proof (induction rule: thread_step.induct)
  case (ts_create th ok)
  then show ?case by (cases ok) (simp_all add: thread_inv_def thread_ops)
next
  case (ts_prepare th tid)
  then show ?case by (cases "th_starter th") (simp_all add: thread_inv_def thread_ops)
next
  case (ts_notify th)
  then show ?case by (auto simp: thread_inv_def thread_ops)
next
  case (ts_wait th th')
  then show ?case by (cases "th_runner th") (auto simp: thread_inv_def thread_ops split: if_splits)
next
  case (ts_name th nm)
  then show ?case by (simp add: thread_inv_def thread_ops)
next
  case (ts_cb th)
  then show ?case by (simp add: thread_inv_def thread_ops)
next
  case (ts_join th ok th')
  then show ?case by (cases "th_runner th") (auto simp: thread_inv_def thread_ops split: if_splits)
next
  case (ts_delete th)
  then show ?case by (cases "th_runner th") (simp_all add: thread_inv_def thread_ops)
qed

lemma thread_reach_inv: "thread_reach cb name th \<Longrightarrow> thread_inv cb th"
proof (induction rule: thread_reach.induct)
  case tr_new
  show ?case by (simp add: thread_inv_def Thread_new_def)
qed (rule thread_step_inv)

text \<open>
  C25: When the constructor of a thread has returned, the new thread has stored its number and taken the callback over, in every interleaving; a
  \<open>join\<close> that returns without throwing returns after the callback has returned; and a constructor that still waits finds the semaphore set, or the
  new thread has a step left that leads to it, so that it never waits for ever.\<close>

theorem thread_start:
  assumes "thread_reach cb name th"
  shows "(th_starter th = Constructed \<longrightarrow> th_id th \<noteq> -1 \<and> th_run_cb th = Some cb) \<and>
    (th_starter th = Constructed \<and> Thread_join ok th = Some (Inr th') \<longrightarrow> th_runner th = Returned) \<and>
    (th_starter th = Waiting \<longrightarrow> Thread_wait th \<noteq> None \<or> th_runner th \<in> {Preparing, Announcing})"
proof (intro conjI impI)
  have inv: "thread_inv cb th" by (rule thread_reach_inv[OF assms])
  show "th_id th \<noteq> -1" "th_run_cb th = Some cb" if "th_starter th = Constructed"
    using inv that by (cases "th_runner th"; simp add: thread_inv_def)+
  show "th_runner th = Returned" if "th_starter th = Constructed \<and> Thread_join ok th = Some (Inr th')"
    using inv that by (auto simp: thread_inv_def Thread_join_def split: if_splits)
  show "Thread_wait th \<noteq> None \<or> th_runner th \<in> {Preparing, Announcing}" if "th_starter th = Waiting"
    using inv that by (cases "th_runner th") (auto simp: thread_inv_def thread_ops)
qed

theorem thread_start_witness:
  "\<exists>th. Thread_wait (Thread_run_notify (Thread_run_prepare 7 (Thread_create True (Thread_new (1 :: nat) ''worker'')))) = Some th \<and>
     thread_reach 1 ''worker'' th \<and> th_run_cb th = Some 1"
proof -
  let ?a = "Thread_create True (Thread_new (1 :: nat) ''worker'')"
  have a: "thread_reach 1 ''worker'' ?a" by (rule tr_step[OF tr_new], rule ts_create) (simp add: Thread_new_def)
  have b: "thread_reach 1 ''worker'' (Thread_run_prepare 7 ?a)" by (rule tr_step[OF a], rule ts_prepare) (simp add: Thread_create_def)
  have c: "thread_reach 1 ''worker'' (Thread_run_notify (Thread_run_prepare 7 ?a))"
    by (rule tr_step[OF b], rule ts_notify) (simp add: Thread_run_prepare_def)
  obtain th where th: "Thread_wait (Thread_run_notify (Thread_run_prepare 7 ?a)) = Some th" by (simp add: thread_ops)
  have d: "thread_reach 1 ''worker'' th" by (rule tr_step[OF c], rule ts_wait[OF _ th]) (simp add: thread_ops)
  have "th_starter th = Constructed" using th by (auto simp: thread_ops split: if_splits)
  then show ?thesis using thread_start[OF d] th d by auto
qed

end
