(* ===== verification/Fiber.thy ===== *)
theory Fiber
  imports Prelude
begin

text \<open>
  The fibers of \<open>fiber.h\<close> and \<open>fiber.cc\<close> on one thread. A fiber is an object at an address; the
  thread-local variables name the current fiber, the main fiber of the thread and the fiber of
  the scheduler. A context is modelled by the fiber whose execution continues when it is loaded:
  \<open>swapcontext\<close> stores the fiber on the processor in one context and continues the fiber stored in
  the other. A failed assertion ends the process, \<open>None\<close>. \<open>getcontext\<close> and \<open>swapcontext\<close>
  themselves do not fail. The stack is the flag that one was allocated.
\<close>

section \<open>State\<close>

datatype FiberState = Fiber_READY | Fiber_RUNNING | Fiber_TERM

record 'cb Fiber =
  f_id :: u64
  f_stacksize :: u32
  f_state :: FiberState
  f_ctx :: nat
  f_stack :: bool
  f_cb :: "'cb option"
  f_runInSchedule :: bool

record 'cb machine =
  fibers :: "nat \<Rightarrow> 'cb Fiber option"
  s_fiber_id :: u64
  s_fiber_count :: u64
  t_fiber :: "nat option"
  t_threadFiber :: "nat option"
  t_scheduler_fiber :: "nat option"
  cpu :: nat

definition upd_fiber :: "nat \<Rightarrow> ('cb Fiber \<Rightarrow> 'cb Fiber) \<Rightarrow> 'cb machine \<Rightarrow> 'cb machine" where
  "upd_fiber a f w = w\<lparr>fibers := (fibers w)(a := map_option f (fibers w a))\<rparr>"

definition the_fiber :: "'cb machine \<Rightarrow> nat \<Rightarrow> 'cb Fiber" where
  "the_fiber w a = the (fibers w a)"

definition SYLAR_ASSERT :: "bool \<Rightarrow> 'w \<Rightarrow> 'w option" where
  "SYLAR_ASSERT b w = (if b then Some w else None)"

definition SetThis :: "nat option \<Rightarrow> 'cb machine \<Rightarrow> 'cb machine" where
  "SetThis f w = w\<lparr>t_fiber := f\<rparr>"

text \<open>\<open>swapcontext(&from->m_ctx, &to->m_ctx)\<close>.\<close>

definition swapcontext :: "nat \<Rightarrow> nat \<Rightarrow> 'cb machine \<Rightarrow> 'cb machine" where
  "swapcontext from to w =
     (let next_fiber = f_ctx (the_fiber w to)
      in (upd_fiber from (\<lambda>f. f\<lparr>f_ctx := cpu w\<rparr>) w)\<lparr>cpu := next_fiber\<rparr>)"

section \<open>Operations\<close>

text \<open>The private constructor of a main fiber; \<open>a\<close> is the address of the new object.\<close>

definition Fiber_main :: "nat \<Rightarrow> 'cb machine \<Rightarrow> 'cb machine" where
  "Fiber_main a w =
     (SetThis (Some a) w)
       \<lparr>fibers := (fibers w)(a \<mapsto>
          \<lparr>f_id = s_fiber_id w, f_stacksize = 0, f_state = Fiber_RUNNING, f_ctx = a, f_stack = False,
           f_cb = None, f_runInSchedule = False\<rparr>),
        s_fiber_count := s_fiber_count w + 1, s_fiber_id := s_fiber_id w + 1\<rparr>"

definition Fiber_new ::
    "nat \<Rightarrow> u32 \<Rightarrow> 'cb \<Rightarrow> u32 \<Rightarrow> bool \<Rightarrow> 'cb machine \<Rightarrow> 'cb machine" where
  "Fiber_new a default_stack_size cb stacksize run_in_scheduler w =
     w\<lparr>fibers := (fibers w)(a \<mapsto>
          \<lparr>f_id = s_fiber_id w, f_stacksize = (if stacksize \<noteq> 0 then stacksize else default_stack_size),
           f_state = Fiber_READY, f_ctx = a, f_stack = True, f_cb = Some cb, f_runInSchedule = run_in_scheduler\<rparr>),
       s_fiber_count := s_fiber_count w + 1, s_fiber_id := s_fiber_id w + 1\<rparr>"

definition Fiber_delete :: "nat \<Rightarrow> 'cb machine \<Rightarrow> 'cb machine option" where
  "Fiber_delete a w =
     (let f = the_fiber w a; w' = w\<lparr>s_fiber_count := s_fiber_count w - 1\<rparr>
      in if f_stack f
         then Option.bind (SYLAR_ASSERT (f_state f = Fiber_TERM) w') (\<lambda>w. Some (w\<lparr>fibers := (fibers w)(a := None)\<rparr>))
         else Option.bind (SYLAR_ASSERT (f_cb f = None) w') (\<lambda>w.
              Option.bind (SYLAR_ASSERT (f_state f = Fiber_RUNNING) w) (\<lambda>w.
              Some ((if t_fiber w = Some a then SetThis None w else w)\<lparr>fibers := (fibers w)(a := None)\<rparr>))))"

definition Fiber_reset :: "nat \<Rightarrow> 'cb \<Rightarrow> 'cb machine \<Rightarrow> 'cb machine option" where
  "Fiber_reset a cb w =
     Option.bind (SYLAR_ASSERT (f_stack (the_fiber w a)) w) (\<lambda>w.
     Option.bind (SYLAR_ASSERT (f_state (the_fiber w a) = Fiber_TERM) w) (\<lambda>w.
     Some (upd_fiber a (\<lambda>f. f\<lparr>f_cb := Some cb, f_ctx := a, f_state := Fiber_READY\<rparr>) w)))"

text \<open>The fiber that a fiber exchanges the processor with.\<close>

definition partner :: "nat \<Rightarrow> 'cb machine \<Rightarrow> nat" where
  "partner a w = the (if f_runInSchedule (the_fiber w a) then t_scheduler_fiber w else t_threadFiber w)"

definition yield :: "nat \<Rightarrow> 'cb machine \<Rightarrow> 'cb machine option" where
  "yield a w =
     Option.bind (SYLAR_ASSERT (f_state (the_fiber w a) = Fiber_RUNNING \<or> f_state (the_fiber w a) = Fiber_TERM) w) (\<lambda>w.
       let w1 = SetThis (t_threadFiber w) w;
           w2 = (if f_state (the_fiber w1 a) \<noteq> Fiber_TERM then upd_fiber a (\<lambda>f. f\<lparr>f_state := Fiber_READY\<rparr>) w1 else w1)
       in Some (swapcontext a (partner a w2) w2))"

definition resume :: "nat \<Rightarrow> 'cb machine \<Rightarrow> 'cb machine option" where
  "resume a w =
     Option.bind (SYLAR_ASSERT (f_state (the_fiber w a) \<noteq> Fiber_RUNNING \<and> f_state (the_fiber w a) \<noteq> Fiber_TERM) w) (\<lambda>w.
       let w1 = upd_fiber a (\<lambda>f. f\<lparr>f_state := Fiber_RUNNING\<rparr>) (SetThis (Some a) w)
       in Some (swapcontext (partner a w1) a w1))"

text \<open>\<open>a\<close> is where a main fiber is allocated when the thread has none yet.\<close>

definition GetThis :: "nat \<Rightarrow> 'cb machine \<Rightarrow> nat \<times> 'cb machine" where
  "GetThis a w =
     (case t_fiber w of
        Some f \<Rightarrow> (f, w)
      | None \<Rightarrow> (a, (Fiber_main a w)\<lparr>t_threadFiber := Some a\<rparr>))"

definition TotalFibers :: "'cb machine \<Rightarrow> u64" where
  "TotalFibers w = s_fiber_count w"

text \<open>The end of \<open>MainFunc\<close>, after the callback of the current fiber has returned.\<close>

definition MainFunc_end :: "nat \<Rightarrow> 'cb machine \<Rightarrow> 'cb machine option" where
  "MainFunc_end cur w = yield cur (upd_fiber cur (\<lambda>f. f\<lparr>f_cb := None, f_state := Fiber_TERM\<rparr>) w)"

definition GetFiberId :: "'cb machine \<Rightarrow> u64" where
  "GetFiberId w = (case t_fiber w of Some f \<Rightarrow> f_id (the_fiber w f) | None \<Rightarrow> 0)"

section \<open>A worker thread\<close>

text \<open>
  A thread whose main fiber is also the fiber of its scheduler, as in every thread that
  \<open>Scheduler::start\<close> creates. The main fiber resumes ready fibers, a resumed fiber yields or ends, and
  finished fibers are reset or destroyed; fibers may be created at any time.
\<close>

definition worker_start :: "nat \<Rightarrow> 'cb machine" where
  "worker_start M =
     (Fiber_main M \<lparr>fibers = (\<lambda>_. None), s_fiber_id = 0, s_fiber_count = 0, t_fiber = None, t_threadFiber = None,
        t_scheduler_fiber = None, cpu = M\<rparr>)\<lparr>t_threadFiber := Some M, t_scheduler_fiber := Some M\<rparr>"

inductive worker :: "nat \<Rightarrow> 'cb machine \<Rightarrow> bool" for M :: nat where
  w_start: "worker M (worker_start M)"
| w_new: "worker M w \<Longrightarrow> fibers w a = None \<Longrightarrow> worker M (Fiber_new a d cb sz sched w)"
| w_resume: "worker M w \<Longrightarrow> cpu w = M \<Longrightarrow> a \<noteq> M \<Longrightarrow> fibers w a \<noteq> None \<Longrightarrow>
    resume a w = Some w' \<Longrightarrow> worker M w'"
| w_yield: "worker M w \<Longrightarrow> cpu w = a \<Longrightarrow> a \<noteq> M \<Longrightarrow> yield a w = Some w' \<Longrightarrow> worker M w'"
| w_end: "worker M w \<Longrightarrow> cpu w = a \<Longrightarrow> a \<noteq> M \<Longrightarrow> MainFunc_end a w = Some w' \<Longrightarrow> worker M w'"
| w_reset: "worker M w \<Longrightarrow> a \<noteq> M \<Longrightarrow> fibers w a \<noteq> None \<Longrightarrow> Fiber_reset a cb w = Some w' \<Longrightarrow> worker M w'"
| w_delete: "worker M w \<Longrightarrow> a \<noteq> M \<Longrightarrow> fibers w a \<noteq> None \<Longrightarrow> Fiber_delete a w = Some w' \<Longrightarrow> worker M w'"

definition fiber_ok :: "nat \<Rightarrow> nat \<Rightarrow> nat \<Rightarrow> 'cb Fiber \<Rightarrow> bool" where
  "fiber_ok M c a f \<longleftrightarrow> f_ctx f = a \<and>
     (if a = M then \<not> f_stack f \<and> f_state f = Fiber_RUNNING \<and> f_cb f = None
      else f_stack f \<and> (f_state f = Fiber_RUNNING \<longleftrightarrow> a = c) \<and> (f_cb f = None \<longleftrightarrow> f_state f = Fiber_TERM))"

definition worker_inv :: "nat \<Rightarrow> 'cb machine \<Rightarrow> bool" where
  "worker_inv M w \<longleftrightarrow> t_threadFiber w = Some M \<and> t_scheduler_fiber w = Some M \<and>
     t_fiber w = Some (cpu w) \<and> fibers w M \<noteq> None \<and> fibers w (cpu w) \<noteq> None \<and>
     (\<forall>a f. fibers w a = Some f \<longrightarrow> fiber_ok M (cpu w) a f)"

lemma the_fiber_Some: "fibers w a = Some f \<Longrightarrow> the_fiber w a = f"
  by (simp add: the_fiber_def)

lemma partner_worker: "worker_inv M w \<Longrightarrow> partner a w = M"
  by (simp add: worker_inv_def partner_def)

lemmas fiber_ops = SYLAR_ASSERT_def SetThis_def swapcontext_def upd_fiber_def the_fiber_def partner_def Let_def

lemma resume_worker:
  assumes "worker_inv M w" "cpu w = M" "a \<noteq> M" "fibers w a = Some f" "f_state f = Fiber_READY"
  shows "\<exists>w'. resume a w = Some w' \<and> worker_inv M w' \<and> cpu w' = a"
proof -
  have "fiber_ok M M a f" "\<exists>g. fibers w M = Some g \<and> fiber_ok M M M g"
    using assms by (auto simp: worker_inv_def)
  then show ?thesis
    using assms by (auto simp: resume_def fiber_ops worker_inv_def fiber_ok_def split: if_splits)
qed

lemma yield_worker:
  assumes "worker_inv M w" "cpu w = a" "a \<noteq> M"
  shows "\<exists>w'. yield a w = Some w' \<and> worker_inv M w' \<and> cpu w' = M"
proof -
  obtain f g where fg: "fibers w a = Some f" "fibers w M = Some g" using assms by (auto simp: worker_inv_def)
  then have "fiber_ok M a a f" "fiber_ok M a M g" using assms by (auto simp: worker_inv_def)
  then show ?thesis
    using assms fg by (auto simp: yield_def fiber_ops worker_inv_def fiber_ok_def split: if_splits)
qed

lemma end_worker:
  assumes "worker_inv M w" "cpu w = a" "a \<noteq> M"
  shows "\<exists>w'. MainFunc_end a w = Some w' \<and> worker_inv M w' \<and> cpu w' = M"
proof -
  obtain f g where fg: "fibers w a = Some f" "fibers w M = Some g" using assms by (auto simp: worker_inv_def)
  then have "fiber_ok M a a f" "fiber_ok M a M g" using assms by (auto simp: worker_inv_def)
  then show ?thesis
    using assms fg by (auto simp: MainFunc_end_def yield_def fiber_ops worker_inv_def fiber_ok_def split: if_splits)
qed

lemma worker_inv_fiber:
  assumes "worker_inv M w" "fibers w a = Some f"
  shows "fiber_ok M (cpu w) a f"
  using assms by (simp add: worker_inv_def)

lemma worker_inv_put:
  assumes "worker_inv M w" "fiber_ok M (cpu w) a f" "c = cpu w" "t = t_fiber w"
  shows "worker_inv M (w\<lparr>fibers := (fibers w)(a \<mapsto> f)\<rparr>)"
  using assms unfolding worker_inv_def by auto

lemma reset_worker:
  assumes w: "worker_inv M w" "a \<noteq> M" "fibers w a \<noteq> None" and r: "Fiber_reset a cb w = Some w'"
  shows "worker_inv M w'"
proof -
  obtain f where f: "fibers w a = Some f" using w(3) by blast
  note ok = worker_inv_fiber[OF w(1) f]
  have r': "f_state f = Fiber_TERM" "w' = w\<lparr>fibers := (fibers w)(a \<mapsto> f\<lparr>f_cb := Some cb, f_ctx := a, f_state := Fiber_READY\<rparr>)\<rparr>"
    using r f by (auto simp: Fiber_reset_def fiber_ops split: if_splits)
  have "fiber_ok M (cpu w) a (f\<lparr>f_cb := Some cb, f_ctx := a, f_state := Fiber_READY\<rparr>)"
    using ok w(2) r'(1) by (simp add: fiber_ok_def)
  then show ?thesis unfolding r'(2) by (intro worker_inv_put[OF w(1)]) auto
qed

lemma delete_worker:
  assumes w: "worker_inv M w" "a \<noteq> M" "fibers w a \<noteq> None" and r: "Fiber_delete a w = Some w'"
  shows "worker_inv M w'"
proof -
  obtain f where f: "fibers w a = Some f" using w(3) by blast
  note ok = worker_inv_fiber[OF w(1) f]
  have r': "f_state f = Fiber_TERM" "w' = w\<lparr>s_fiber_count := s_fiber_count w - 1, fibers := (fibers w)(a := None)\<rparr>"
    using r f ok w(2) by (auto simp: Fiber_delete_def fiber_ops fiber_ok_def split: if_splits)
  have "a \<noteq> cpu w" using ok w(2) r'(1) by (auto simp: fiber_ok_def)
  then show ?thesis using w unfolding r'(2) worker_inv_def by auto
qed

lemma new_worker:
  assumes "worker_inv M w" "fibers w a = None"
  shows "worker_inv M (Fiber_new a d cb sz sched w)"
proof -
  have "a \<noteq> M" "a \<noteq> cpu w" using assms by (auto simp: worker_inv_def)
  then show ?thesis using assms by (auto simp: Fiber_new_def worker_inv_def fiber_ok_def)
qed

lemma worker_reach: "worker M w \<Longrightarrow> worker_inv M w"
proof (induction rule: worker.induct)
  case w_start
  then show ?case by (simp add: worker_start_def Fiber_main_def SetThis_def worker_inv_def fiber_ok_def)
next
  case (w_resume w a w')
  then obtain f where f: "fibers w a = Some f" by blast
  have "f_state f = Fiber_READY"
    using w_resume(5) f by (cases "f_state f") (auto simp: resume_def SYLAR_ASSERT_def the_fiber_def)
  then show ?case using resume_worker[OF w_resume.IH w_resume(2,3) f] w_resume(5) by auto
next
  case (w_yield w a w')
  then show ?case using yield_worker by fastforce
next
  case (w_end w a w')
  then show ?case using end_worker by fastforce
qed (auto intro: new_worker reset_worker delete_worker)

lemma fiber_invariant_parts:
  assumes "worker M w"
  shows "t_fiber w = Some (cpu w)"
    and "fibers w a = Some f \<Longrightarrow> f_ctx f = a \<and> (f_state f = Fiber_RUNNING \<longleftrightarrow> a = M \<or> a = cpu w)"
    and "fibers w a = Some f \<Longrightarrow> a \<noteq> M \<Longrightarrow> f_cb f = None \<longleftrightarrow> f_state f = Fiber_TERM"
  using worker_reach[OF assms] by (auto simp: worker_inv_def fiber_ok_def split: if_splits)



lemma fiber_transfer_parts:
  assumes "worker M w" "a \<noteq> M" "fibers w a = Some f"
  shows "cpu w = M \<Longrightarrow> f_state f = Fiber_READY \<Longrightarrow> \<exists>w'. resume a w = Some w' \<and> cpu w' = a \<and> worker M w'"
    and "cpu w = a \<Longrightarrow> \<exists>w'. yield a w = Some w' \<and> cpu w' = M \<and> f_state (the_fiber w' a) = Fiber_READY"
    and "cpu w = a \<Longrightarrow> \<exists>w'. MainFunc_end a w = Some w' \<and> cpu w' = M \<and> f_state (the_fiber w' a) = Fiber_TERM \<and>
      resume a w' = None"
proof -
  note inv = worker_reach[OF assms(1)]
  show "cpu w = M \<Longrightarrow> f_state f = Fiber_READY \<Longrightarrow> \<exists>w'. resume a w = Some w' \<and> cpu w' = a \<and> worker M w'"
    using resume_worker[OF inv _ assms(2,3)] w_resume[OF assms(1) _ assms(2)] assms(3) by fastforce
  have f: "cpu w = a \<Longrightarrow> f_state f = Fiber_RUNNING" using worker_inv_fiber[OF inv assms(3)] assms(2) by (simp add: fiber_ok_def)
  show "cpu w = a \<Longrightarrow> \<exists>w'. yield a w = Some w' \<and> cpu w' = M \<and> f_state (the_fiber w' a) = Fiber_READY"
    using yield_worker[OF inv _ assms(2)] f assms(3) by (auto simp: yield_def fiber_ops)
  show "cpu w = a \<Longrightarrow> \<exists>w'. MainFunc_end a w = Some w' \<and> cpu w' = M \<and> f_state (the_fiber w' a) = Fiber_TERM \<and>
      resume a w' = None"
    using end_worker[OF inv _ assms(2)] assms(3) by (auto simp: MainFunc_end_def yield_def resume_def fiber_ops)
qed

text \<open>
  Control transfer on a worker thread. No assertion fails when the main fiber resumes a ready fiber or a
  running fiber yields or ends; the processor goes to the resumed fiber and from it back to the main
  fiber; a yielded fiber can be resumed again, a finished one cannot.\<close>

theorem fiber_transfer:
  assumes "worker M w" "a \<noteq> M" "fibers w a = Some f"
  shows "(cpu w = M \<longrightarrow> f_state f = Fiber_READY \<longrightarrow> (\<exists>w'. resume a w = Some w' \<and> cpu w' = a \<and> worker M w')) \<and>
    (cpu w = a \<longrightarrow> (\<exists>w'. yield a w = Some w' \<and> cpu w' = M \<and> f_state (the_fiber w' a) = Fiber_READY)) \<and>
    (cpu w = a \<longrightarrow> (\<exists>w'. MainFunc_end a w = Some w' \<and> cpu w' = M \<and> f_state (the_fiber w' a) = Fiber_TERM \<and>
      resume a w' = None))"
  using fiber_transfer_parts(1)[OF assms] fiber_transfer_parts(2)[OF assms] fiber_transfer_parts(3)[OF assms] by blast

theorem fiber_transfer_witness:
  "\<exists>w'. resume 2 (Fiber_new 2 9 (5 :: nat) 0 True (worker_start 1)) = Some w' \<and> cpu w' = 2 \<and> worker 1 w'"
  using fiber_transfer[OF w_new[OF w_start, of 1 2 9 5 0 True], of 2, THEN conjunct1]
  by (simp add: worker_start_def Fiber_main_def SetThis_def Fiber_new_def)

section \<open>Where the discipline is needed\<close>

text \<open>
  A scheduled fiber must not resume another one. If it does, the context of the scheduler's fiber is
  overwritten with its own: after the inner fiber has yielded back, the yield of the outer fiber
  continues the outer fiber itself and the scheduler never runs again.\<close>

theorem nested_resume_loses_scheduler:
  assumes "worker M w" "cpu w = c" "c \<noteq> M" "b \<noteq> M" "b \<noteq> c"
    and "fibers w b = Some g" "f_state g = Fiber_READY"
  shows "\<exists>w1 w2 w3. resume b w = Some w1 \<and> cpu w1 = b \<and> yield b w1 = Some w2 \<and> cpu w2 = c \<and>
    yield c w2 = Some w3 \<and> cpu w3 = c"
proof -
  note inv = worker_reach[OF assms(1)]
  obtain f m where fm: "fibers w c = Some f" "fibers w M = Some m" using inv assms(2) by (auto simp: worker_inv_def)
  have ok: "fiber_ok M c c f" "fiber_ok M c M m" "fiber_ok M c b g"
    using worker_inv_fiber[OF inv] fm assms(2,6) by auto
  have t: "t_threadFiber w = Some M" "t_scheduler_fiber w = Some M" using inv by (auto simp: worker_inv_def)
  show ?thesis
    using assms(2-) fm ok t by (auto simp: resume_def yield_def fiber_ops fiber_ok_def)
qed

theorem nested_resume_loses_scheduler_witness:
  "\<exists>w w1 w2 w3 :: nat machine. cpu w = 2 \<and> resume 3 w = Some w1 \<and> yield 3 w1 = Some w2 \<and> yield 2 w2 = Some w3 \<and> cpu w3 = 2"
proof -
  let ?w = "Fiber_new 3 9 (6 :: nat) 0 True (Fiber_new 2 9 5 0 True (worker_start 1))"
  have run: "worker 1 ?w" by (intro w_new w_start) (simp_all add: worker_start_def Fiber_main_def SetThis_def Fiber_new_def)
  obtain w where w: "resume 2 ?w = Some w" "cpu w = 2" "\<exists>g. fibers w 3 = Some g \<and> f_state g = Fiber_READY"
    by (simp add: resume_def fiber_ops worker_start_def Fiber_main_def Fiber_new_def)
  have "worker 1 w"
    by (rule w_resume[OF run _ _ _ w(1)]) (simp_all add: worker_start_def Fiber_main_def SetThis_def Fiber_new_def)
  then show ?thesis using nested_resume_loses_scheduler[of 1 w 2 3] w(2,3) by fastforce
qed

text \<open>
  On the thread that created the scheduler with \<open>use_caller\<close> the fiber of the scheduler is not the main
  fiber of the thread. When a scheduled fiber yields there, the scheduler's fiber continues, but the
  current fiber is set to the main fiber of the thread.
\<close>

lemma caller_thread_current_fiber:
  assumes "t_threadFiber w = Some M" "t_scheduler_fiber w = Some S" "M \<noteq> S" "cpu w = a" "a \<noteq> S"
    and "fibers w a = Some f" "f_state f = Fiber_RUNNING" "f_runInSchedule f"
    and "fibers w S = Some s" "f_ctx s = S"
  shows "\<exists>w'. yield a w = Some w' \<and> cpu w' = S \<and> t_fiber w' = Some M"
  using assms by (auto simp: yield_def fiber_ops)

end
