(* ===== verification/Scheduler.thy ===== *)
theory Scheduler
  imports Fiber "HOL-Library.Multiset"
begin

text \<open>
  The scheduler of \<open>scheduler.h\<close> and \<open>scheduler.cc\<close>. The first part is the scheduler object and its
  methods; the second part is its pool of threads as a step relation: every step is what one
  thread does under the scheduler's lock or between two points where other threads can
  interfere. Fibers are known by their address and state, callbacks are values.
\<close>

section \<open>The scheduler object\<close>

record 'cb ScheduleTask =
  tk_fiber :: "nat option"
  tk_cb :: "'cb option"
  tk_thread :: int

record 'cb Scheduler =
  sc_tasks :: "'cb ScheduleTask list"
  sc_threadIds :: "int list"
  sc_threadCount :: nat
  sc_activeThreadCount :: nat
  sc_idleThreadCount :: nat
  sc_hasRootFiber :: bool
  sc_rootThread :: int
  sc_useCaller :: bool
  sc_stopping :: bool

text \<open>The constructor; \<open>tid\<close> is the thread it runs in. \<open>None\<close> is the failed assertion.\<close>

definition Scheduler_new :: "nat \<Rightarrow> bool \<Rightarrow> int \<Rightarrow> 'cb Scheduler option" where
  "Scheduler_new threads use_caller tid =
     (if threads = 0 then None
      else Some \<lparr>sc_tasks = [], sc_threadIds = (if use_caller then [tid] else []),
                 sc_threadCount = (if use_caller then threads - 1 else threads),
                 sc_activeThreadCount = 0, sc_idleThreadCount = 0, sc_hasRootFiber = use_caller,
                 sc_rootThread = (if use_caller then tid else - 1), sc_useCaller = use_caller,
                 sc_stopping = False\<rparr>)"

definition ScheduleTask_ok :: "'cb ScheduleTask \<Rightarrow> bool" where
  "ScheduleTask_ok ft \<longleftrightarrow> tk_fiber ft \<noteq> None \<or> tk_cb ft \<noteq> None"

text \<open>The result is \<open>need_tickle\<close>.\<close>

definition scheduleNoLock :: "'cb ScheduleTask \<Rightarrow> 'cb Scheduler \<Rightarrow> bool \<times> 'cb Scheduler" where
  "scheduleNoLock ft s =
     (sc_tasks s = [], if ScheduleTask_ok ft then s\<lparr>sc_tasks := sc_tasks s @ [ft]\<rparr> else s)"

definition schedule :: "'cb ScheduleTask \<Rightarrow> 'cb Scheduler \<Rightarrow> bool \<times> 'cb Scheduler" where
  "schedule ft s = scheduleNoLock ft s"

text \<open>
  \<open>schedule\<close> of a range of callbacks. Taking a callback by pointer leaves the empty function behind, and
  the loop does not advance its iterator.
\<close>

partial_function (option) schedule_range ::
    "'cb option list \<Rightarrow> bool \<Rightarrow> 'cb Scheduler \<Rightarrow> (bool \<times> 'cb Scheduler) option" where
  "schedule_range rng need_tickle s =
     (case rng of
        [] \<Rightarrow> Some (need_tickle, s)
      | cb # rest \<Rightarrow>
          (let (b, s') = scheduleNoLock \<lparr>tk_fiber = None, tk_cb = cb, tk_thread = - 1\<rparr> s
           in schedule_range (None # rest) (b \<or> need_tickle) s'))"

definition hasIdleThreads :: "'cb Scheduler \<Rightarrow> bool" where
  "hasIdleThreads s \<longleftrightarrow> sc_idleThreadCount s > 0"

definition stopping :: "'cb Scheduler \<Rightarrow> bool" where
  "stopping s \<longleftrightarrow> sc_stopping s \<and> sc_tasks s = [] \<and> sc_activeThreadCount s = 0"

text \<open>\<open>start\<close> creates the threads of the pool with the given ids. \<open>None\<close> is the failed assertion.\<close>

definition start :: "int list \<Rightarrow> bool \<Rightarrow> 'cb Scheduler \<Rightarrow> 'cb Scheduler option" where
  "start new_ids threads_empty s =
     (if sc_stopping s then Some s
      else if \<not> threads_empty then None
      else Some (s\<lparr>sc_threadIds := sc_threadIds s @ take (sc_threadCount s) new_ids\<rparr>))"

text \<open>
  \<open>stop\<close> up to the point where it waits for the threads; \<open>own\<close> says that the calling thread belongs to
  this scheduler. The result is the number of calls of \<open>tickle\<close> and whether the root fiber is resumed.
\<close>

definition stop :: "bool \<Rightarrow> 'cb Scheduler \<Rightarrow> ((nat \<times> bool) \<times> 'cb Scheduler) option" where
  "stop own s =
     (if stopping s then Some ((0, False), s)
      else let s' = s\<lparr>sc_stopping := True\<rparr>
           in if sc_useCaller s' \<noteq> own then None
              else Some ((sc_threadCount s' + (if sc_hasRootFiber s' then 1 else 0), sc_hasRootFiber s'), s'))"

text \<open>
  The scan of the task list in \<open>run\<close>: \<open>me\<close> is the thread, \<open>before\<close> the tasks passed, reversed. After the
  task is erased the source still advances the erased iterator and compares it with the end;
  the outcome of the comparison does not matter, since \<open>tickle_me\<close> is already set.
\<close>

datatype 'cb pick_result = Picked "'cb ScheduleTask" "'cb ScheduleTask list" | Nothing | Pick_abort

fun pick :: "int \<Rightarrow> (nat \<Rightarrow> FiberState) \<Rightarrow> 'cb ScheduleTask list \<Rightarrow> 'cb ScheduleTask list \<Rightarrow> 'cb pick_result" where
  "pick me fs before [] = Nothing"
| "pick me fs before (t # ts) =
     (if tk_thread t \<noteq> - 1 \<and> tk_thread t \<noteq> me then pick me fs (t # before) ts
      else if \<not> ScheduleTask_ok t then Pick_abort
      else if (case tk_fiber t of Some f \<Rightarrow> fs f = Fiber_RUNNING | None \<Rightarrow> False) then pick me fs (t # before) ts
      else Picked t (rev before @ ts))"

section \<open>The range loop does not end\<close>

lemma schedule_range_None: "schedule_range rng b s = Some r \<Longrightarrow> rng = []"
proof (rule schedule_range.raw_induct[where P = "\<lambda>rng b s r. rng = []"])
  fix f :: "'a option list \<Rightarrow> bool \<Rightarrow> 'a Scheduler \<Rightarrow> (bool \<times> 'a Scheduler) option"
    and rng :: "'a option list" and b s r
  assume IH: "\<And>rng b s r. f rng b s = Some r \<Longrightarrow> rng = []"
    and run: "(case rng of [] \<Rightarrow> Some (b, s)
      | cb # rest \<Rightarrow> (let (b', s') = scheduleNoLock \<lparr>tk_fiber = None, tk_cb = cb, tk_thread = - 1\<rparr> s
                       in f (None # rest) (b' \<or> b) s')) = Some r"
  show "rng = []"
    using run IH[of "None # tl rng" _ _ r] by (cases rng) (auto simp: Let_def split: prod.splits)
qed

text \<open>
  Scheduling a non-empty range of tasks at once never returns: the loop does not advance its
  iterator, and it runs with the scheduler's lock held.\<close>

theorem schedule_range_diverges: "rng \<noteq> [] \<Longrightarrow> schedule_range rng False s = None"
  using schedule_range_None[of rng False s] by (cases "schedule_range rng False s") auto

theorem schedule_range_diverges_witness:
  "schedule_range [Some (1 :: nat)] False (the (Scheduler_new 1 False 7)) = None"
  using schedule_range_diverges[of "[Some (1 :: nat)]"] by simp

section \<open>Picking a task\<close>

text \<open>Whether a thread may take a task.\<close>

definition eligible :: "int \<Rightarrow> (nat \<Rightarrow> FiberState) \<Rightarrow> 'cb ScheduleTask \<Rightarrow> bool" where
  "eligible me fs t \<longleftrightarrow> (tk_thread t = - 1 \<or> tk_thread t = me) \<and>
     (\<forall>f. tk_fiber t = Some f \<longrightarrow> fs f \<noteq> Fiber_RUNNING)"

lemma pick_Cons:
  "ScheduleTask_ok t \<Longrightarrow> pick me fs before (t # ts) =
   (if eligible me fs t then Picked t (rev before @ ts) else pick me fs (t # before) ts)"
  by (auto simp: eligible_def split: option.splits)

lemma pick_spec:
  assumes "list_all ScheduleTask_ok ts"
  shows "pick me fs before ts =
    (case dropWhile (\<lambda>t. \<not> eligible me fs t) ts of
       [] \<Rightarrow> Nothing
     | t # rest \<Rightarrow> Picked t (rev before @ takeWhile (\<lambda>t. \<not> eligible me fs t) ts @ rest))"
  using assms
proof (induction ts arbitrary: before)
  case (Cons t ts)
  then show ?case
    by (cases "dropWhile (\<lambda>t. \<not> eligible me fs t) ts") (simp_all add: pick_Cons del: pick.simps dropWhile_eq_Nil_conv)
qed simp

section \<open>The pool of threads\<close>

text \<open>
  Where a thread is in \<open>run\<close>: looking for a task, about to resume the fiber it picked, running it, on
  its way out of a fiber that is already marked ready but whose context is not saved yet, running a
  callback, in its idle fiber, or gone.
\<close>

datatype 'cb phase =
  Looking | Picked_fiber nat | Running_fiber nat | Leaving_fiber nat | Running_cb 'cb | In_idle | Left

record 'cb pool =
  po_sched :: "'cb Scheduler"
  po_phase :: "int \<Rightarrow> 'cb phase"
  po_idle :: "int \<Rightarrow> FiberState"
  po_fstate :: "nat \<Rightarrow> FiberState"
  po_accepted :: "'cb ScheduleTask list"
  po_started :: "'cb ScheduleTask list"

text \<open>The last two components record, for the statements only, the tasks accepted and the tasks started so far.\<close>

definition set_phase :: "int \<Rightarrow> 'cb phase \<Rightarrow> 'cb pool \<Rightarrow> 'cb pool" where
  "set_phase t ph p = p\<lparr>po_phase := (po_phase p)(t := ph)\<rparr>"

definition set_fstate :: "nat \<Rightarrow> FiberState \<Rightarrow> 'cb pool \<Rightarrow> 'cb pool" where
  "set_fstate f st p = p\<lparr>po_fstate := (po_fstate p)(f := st)\<rparr>"

definition upd_sched :: "('cb Scheduler \<Rightarrow> 'cb Scheduler) \<Rightarrow> 'cb pool \<Rightarrow> 'cb pool" where
  "upd_sched g p = p\<lparr>po_sched := g (po_sched p)\<rparr>"

definition add_active :: "int \<Rightarrow> 'cb Scheduler \<Rightarrow> 'cb Scheduler" where
  "add_active d s = s\<lparr>sc_activeThreadCount := nat (int (sc_activeThreadCount s) + d)\<rparr>"

definition add_idle :: "int \<Rightarrow> 'cb Scheduler \<Rightarrow> 'cb Scheduler" where
  "add_idle d s = s\<lparr>sc_idleThreadCount := nat (int (sc_idleThreadCount s) + d)\<rparr>"

definition task_phase :: "'cb ScheduleTask \<Rightarrow> 'cb phase" where
  "task_phase t = (case tk_fiber t of Some f \<Rightarrow> Picked_fiber f | None \<Rightarrow> Running_cb (the (tk_cb t)))"

text \<open>A thread takes a task: the locked part of the loop.\<close>

definition do_pick :: "int \<Rightarrow> 'cb pool \<Rightarrow> 'cb pool option" where
  "do_pick me p =
     (case pick me (po_fstate p) [] (sc_tasks (po_sched p)) of
        Picked t rest \<Rightarrow>
          Some (set_phase me (task_phase t)
                  (upd_sched (\<lambda>s. add_active 1 (s\<lparr>sc_tasks := rest\<rparr>)) (p\<lparr>po_started := po_started p @ [t]\<rparr>)))
      | _ \<Rightarrow> None)"

definition do_schedule :: "'cb ScheduleTask \<Rightarrow> 'cb pool \<Rightarrow> 'cb pool" where
  "do_schedule ft p =
     (let p' = upd_sched (\<lambda>s. snd (schedule ft s)) p
      in if ScheduleTask_ok ft then p'\<lparr>po_accepted := po_accepted p @ [ft]\<rparr> else p')"

inductive pool_step :: "int set \<Rightarrow> 'cb pool \<Rightarrow> 'cb pool \<Rightarrow> bool" for W :: "int set" where
  st_schedule: "pool_step W p (do_schedule ft p)"
| st_stop: "stop own (po_sched p) = Some (r, s') \<Longrightarrow> pool_step W p (upd_sched (\<lambda>_. s') p)"
| st_pick: "me \<in> W \<Longrightarrow> po_phase p me = Looking \<Longrightarrow> do_pick me p = Some p' \<Longrightarrow> pool_step W p p'"
| st_resume: "me \<in> W \<Longrightarrow> po_phase p me = Picked_fiber f \<Longrightarrow> po_fstate p f = Fiber_READY \<Longrightarrow>
    pool_step W p (set_fstate f Fiber_RUNNING (set_phase me (Running_fiber f) p))"
| st_yield: "me \<in> W \<Longrightarrow> po_phase p me = Running_fiber f \<Longrightarrow>
    pool_step W p (set_fstate f Fiber_READY (set_phase me (Leaving_fiber f) p))"
| st_term: "me \<in> W \<Longrightarrow> po_phase p me = Running_fiber f \<Longrightarrow>
    pool_step W p (set_fstate f Fiber_TERM (set_phase me (Leaving_fiber f) p))"
| st_left: "me \<in> W \<Longrightarrow> po_phase p me = Leaving_fiber f \<Longrightarrow>
    pool_step W p (upd_sched (add_active (- 1)) (set_phase me Looking p))"
| st_cb_done: "me \<in> W \<Longrightarrow> po_phase p me = Running_cb c \<Longrightarrow>
    pool_step W p (upd_sched (add_active (- 1)) (set_phase me Looking p))"
| st_idle: "me \<in> W \<Longrightarrow> po_phase p me = Looking \<Longrightarrow>
    pick me (po_fstate p) [] (sc_tasks (po_sched p)) = Nothing \<Longrightarrow> po_idle p me \<noteq> Fiber_TERM \<Longrightarrow>
    pool_step W p (upd_sched (add_idle 1) (set_phase me In_idle p))"
| st_idle_yield: "me \<in> W \<Longrightarrow> po_phase p me = In_idle \<Longrightarrow> \<not> stopping (po_sched p) \<Longrightarrow>
    pool_step W p (upd_sched (add_idle (- 1)) (set_phase me Looking p))"
| st_idle_term: "me \<in> W \<Longrightarrow> po_phase p me = In_idle \<Longrightarrow> stopping (po_sched p) \<Longrightarrow>
    pool_step W p (upd_sched (add_idle (- 1)) (set_phase me Looking (p\<lparr>po_idle := (po_idle p)(me := Fiber_TERM)\<rparr>)))"
| st_exit: "me \<in> W \<Longrightarrow> po_phase p me = Looking \<Longrightarrow>
    pick me (po_fstate p) [] (sc_tasks (po_sched p)) = Nothing \<Longrightarrow> po_idle p me = Fiber_TERM \<Longrightarrow>
    pool_step W p (set_phase me Left p)"

definition pool_start :: "'cb Scheduler \<Rightarrow> 'cb pool" where
  "pool_start s = \<lparr>po_sched = s, po_phase = (\<lambda>_. Looking), po_idle = (\<lambda>_. Fiber_READY),
     po_fstate = (\<lambda>_. Fiber_READY), po_accepted = [], po_started = []\<rparr>"

definition fresh_sched :: "'cb Scheduler \<Rightarrow> bool" where
  "fresh_sched s \<longleftrightarrow> sc_tasks s = [] \<and> sc_activeThreadCount s = 0 \<and> sc_idleThreadCount s = 0 \<and> \<not> sc_stopping s"

inductive pool_run :: "int set \<Rightarrow> 'cb pool \<Rightarrow> bool" for W :: "int set" where
  pool_init: "fresh_sched s \<Longrightarrow> pool_run W (pool_start s)"
| pool_next: "pool_run W p \<Longrightarrow> pool_step W p q \<Longrightarrow> pool_run W q"

section \<open>Invariants of the pool\<close>

definition busy :: "'cb phase \<Rightarrow> bool" where
  "busy ph \<longleftrightarrow> ph \<noteq> Looking \<and> ph \<noteq> In_idle \<and> ph \<noteq> Left"

definition pool_inv :: "int set \<Rightarrow> 'cb pool \<Rightarrow> bool" where
  "pool_inv W p \<longleftrightarrow>
     list_all ScheduleTask_ok (sc_tasks (po_sched p)) \<and>
     sc_activeThreadCount (po_sched p) = card {t \<in> W. busy (po_phase p t)} \<and>
     sc_idleThreadCount (po_sched p) = card {t \<in> W. po_phase p t = In_idle} \<and>
     mset (po_accepted p) = mset (sc_tasks (po_sched p)) + mset (po_started p) \<and>
     (\<forall>t \<in> W. po_idle p t = Fiber_TERM \<longrightarrow> sc_stopping (po_sched p)) \<and>
     (\<forall>t \<in> W. po_phase p t = Left \<longrightarrow> po_idle p t = Fiber_TERM)"

lemma card_phase_in:
  assumes "finite W" "me \<in> W" "\<not> P (ph me)" "P x"
  shows "card {t \<in> W. P ((ph(me := x)) t)} = Suc (card {t \<in> W. P (ph t)})"
proof -
  have "{t \<in> W. P ((ph(me := x)) t)} = insert me {t \<in> W. P (ph t)}" using assms by auto
  then show ?thesis using assms by simp
qed

lemma card_phase_out:
  assumes "finite W" "me \<in> W" "P (ph me)" "\<not> P x"
  shows "card {t \<in> W. P ((ph(me := x)) t)} = card {t \<in> W. P (ph t)} - 1" "0 < card {t \<in> W. P (ph t)}"
proof -
  have "{t \<in> W. P ((ph(me := x)) t)} = {t \<in> W. P (ph t)} - {me}" using assms by auto
  then show "card {t \<in> W. P ((ph(me := x)) t)} = card {t \<in> W. P (ph t)} - 1" using assms by simp
  show "0 < card {t \<in> W. P (ph t)}" using assms by (auto simp: card_gt_0_iff)
qed

lemma card_phase_same:
  assumes "P (ph me) = P x"
  shows "card {t \<in> W. P ((ph(me := x)) t)} = card {t \<in> W. P (ph t)}"
proof -
  have "{t \<in> W. P ((ph(me := x)) t)} = {t \<in> W. P (ph t)}" using assms by auto
  then show ?thesis by simp
qed

definition n_busy :: "int set \<Rightarrow> (int \<Rightarrow> 'cb phase) \<Rightarrow> nat" where
  "n_busy W ph = card {t \<in> W. busy (ph t)}"

definition n_idle :: "int set \<Rightarrow> (int \<Rightarrow> 'cb phase) \<Rightarrow> nat" where
  "n_idle W ph = card {t \<in> W. ph t = In_idle}"

lemma n_busy_upd:
  assumes "finite W" "me \<in> W"
  shows "busy (ph me) = busy x \<Longrightarrow> n_busy W (ph(me := x)) = n_busy W ph"
    "\<not> busy (ph me) \<Longrightarrow> busy x \<Longrightarrow> n_busy W (ph(me := x)) = Suc (n_busy W ph)"
    "busy (ph me) \<Longrightarrow> \<not> busy x \<Longrightarrow> n_busy W (ph(me := x)) = n_busy W ph - 1 \<and> 0 < n_busy W ph"
  unfolding n_busy_def using card_phase_same[of busy ph me x W] card_phase_in[OF assms, of busy ph x]
    card_phase_out[OF assms, of busy ph x] by auto

lemma n_idle_upd:
  assumes "finite W" "me \<in> W"
  shows "(ph me = In_idle) = (x = In_idle) \<Longrightarrow> n_idle W (ph(me := x)) = n_idle W ph"
    "ph me \<noteq> In_idle \<Longrightarrow> n_idle W (ph(me := In_idle)) = Suc (n_idle W ph)"
    "ph me = In_idle \<Longrightarrow> x \<noteq> In_idle \<Longrightarrow> n_idle W (ph(me := x)) = n_idle W ph - 1 \<and> 0 < n_idle W ph"
  unfolding n_idle_def
  using card_phase_same[of "\<lambda>q. q = In_idle" ph me x W] card_phase_in[OF assms, of "\<lambda>q. q = In_idle" ph]
    card_phase_out[OF assms, of "\<lambda>q. q = In_idle" ph x] by auto

lemma pool_inv_alt:
  "pool_inv W p \<longleftrightarrow>
     list_all ScheduleTask_ok (sc_tasks (po_sched p)) \<and>
     sc_activeThreadCount (po_sched p) = n_busy W (po_phase p) \<and>
     sc_idleThreadCount (po_sched p) = n_idle W (po_phase p) \<and>
     mset (po_accepted p) = mset (sc_tasks (po_sched p)) + mset (po_started p) \<and>
     (\<forall>t \<in> W. po_idle p t = Fiber_TERM \<longrightarrow> sc_stopping (po_sched p)) \<and>
     (\<forall>t \<in> W. po_phase p t = Left \<longrightarrow> po_idle p t = Fiber_TERM)"
  by (simp add: pool_inv_def n_busy_def n_idle_def)

lemma pick_Picked:
  assumes "list_all ScheduleTask_ok ts" "pick me fs [] ts = Picked t rest"
  shows "\<exists>us vs. ts = us @ t # vs \<and> rest = us @ vs \<and> eligible me fs t \<and> (\<forall>u \<in> set us. \<not> eligible me fs u) \<and>
    ScheduleTask_ok t"
proof -
  let ?us = "takeWhile (\<lambda>t. \<not> eligible me fs t) ts"
  obtain vs where vs: "dropWhile (\<lambda>t. \<not> eligible me fs t) ts = t # vs" "rest = ?us @ vs"
    using assms pick_spec[OF assms(1), of me fs "[]"] by (auto split: list.splits)
  have "ts = ?us @ t # vs" using vs(1) by (metis takeWhile_dropWhile_id)
  moreover have "eligible me fs t" using vs(1) by (simp add: dropWhile_eq_Cons_conv)
  moreover have "\<forall>u \<in> set ?us. \<not> eligible me fs u" by (auto dest: set_takeWhileD)
  moreover have "ScheduleTask_ok t"
    using assms(1) \<open>ts = ?us @ t # vs\<close> by (metis in_set_conv_decomp list_all_iff)
  ultimately show ?thesis using vs(2) by blast
qed

lemmas pool_ops = set_phase_def set_fstate_def upd_sched_def add_active_def add_idle_def

lemma busy_simps [simp]:
  "\<not> busy Looking" "\<not> busy In_idle" "\<not> busy Left" "busy (Picked_fiber f)" "busy (Running_fiber f)"
  "busy (Leaving_fiber f)" "busy (Running_cb c)"
  by (simp_all add: busy_def)

lemma busy_task_phase [simp]:
  "busy (task_phase t)" "task_phase t \<noteq> In_idle" "task_phase t \<noteq> Left" "task_phase t \<noteq> Looking"
  by (simp_all add: task_phase_def split: option.split)

lemma pool_step_inv:
  assumes W: "finite W" and inv: "pool_inv W p" and step: "pool_step W p q"
  shows "pool_inv W q"
  using step
proof (cases rule: pool_step.cases)
  case (st_schedule ft)
  then show ?thesis
    using inv by (auto simp: pool_inv_alt do_schedule_def schedule_def scheduleNoLock_def pool_ops Let_def)
next
  case (st_stop own r s')
  then show ?thesis
    using inv by (auto simp: pool_inv_alt stop_def pool_ops Let_def split: if_splits)
next
  case (st_pick me)
  obtain t rest where p: "pick me (po_fstate p) [] (sc_tasks (po_sched p)) = Picked t rest"
      "q = set_phase me (task_phase t) (upd_sched (\<lambda>s. add_active 1 (s\<lparr>sc_tasks := rest\<rparr>)) (p\<lparr>po_started := po_started p @ [t]\<rparr>))"
    using st_pick(3) by (auto simp: do_pick_def split: pick_result.splits)
  obtain us vs where s: "sc_tasks (po_sched p) = us @ t # vs" "rest = us @ vs"
    using pick_Picked[OF _ p(1)] inv by (auto simp: pool_inv_alt)
  show ?thesis
    using inv st_pick(1,2) s n_busy_upd(2)[OF W st_pick(1), of "po_phase p" "task_phase t"]
      n_idle_upd(1)[OF W st_pick(1), of "po_phase p" "task_phase t"]
    unfolding p(2) by (auto simp: pool_inv_alt pool_ops nat_add_distrib)
next
  case (st_resume me f)
  then show ?thesis
    using inv n_busy_upd(1)[OF W st_resume(2), of "po_phase p" "Running_fiber f"]
      n_idle_upd(1)[OF W st_resume(2), of "po_phase p" "Running_fiber f"]
    by (auto simp: pool_inv_alt pool_ops)
next
  case (st_yield me f)
  then show ?thesis
    using inv n_busy_upd(1)[OF W st_yield(2), of "po_phase p" "Leaving_fiber f"]
      n_idle_upd(1)[OF W st_yield(2), of "po_phase p" "Leaving_fiber f"]
    by (auto simp: pool_inv_alt pool_ops)
next
  case (st_term me f)
  then show ?thesis
    using inv n_busy_upd(1)[OF W st_term(2), of "po_phase p" "Leaving_fiber f"]
      n_idle_upd(1)[OF W st_term(2), of "po_phase p" "Leaving_fiber f"]
    by (auto simp: pool_inv_alt pool_ops)
next
  case (st_left me f)
  then show ?thesis
    using inv n_busy_upd(3)[OF W st_left(2), of "po_phase p" Looking]
      n_idle_upd(1)[OF W st_left(2), of "po_phase p" Looking]
    by (auto simp: pool_inv_alt pool_ops nat_diff_distrib)
next
  case (st_cb_done me c)
  then show ?thesis
    using inv n_busy_upd(3)[OF W st_cb_done(2), of "po_phase p" Looking]
      n_idle_upd(1)[OF W st_cb_done(2), of "po_phase p" Looking]
    by (auto simp: pool_inv_alt pool_ops nat_diff_distrib)
next
  case (st_idle me)
  then show ?thesis
    using inv n_busy_upd(1)[OF W st_idle(2), of "po_phase p" In_idle]
      n_idle_upd(2)[OF W st_idle(2), of "po_phase p"]
    by (auto simp: pool_inv_alt pool_ops nat_add_distrib)
next
  case (st_idle_yield me)
  then show ?thesis
    using inv n_busy_upd(1)[OF W st_idle_yield(2), of "po_phase p" Looking]
      n_idle_upd(3)[OF W st_idle_yield(2), of "po_phase p" Looking]
    by (auto simp: pool_inv_alt pool_ops nat_diff_distrib)
next
  case (st_idle_term me)
  then show ?thesis
    using inv n_busy_upd(1)[OF W st_idle_term(2), of "po_phase p" Looking]
      n_idle_upd(3)[OF W st_idle_term(2), of "po_phase p" Looking]
    by (auto simp: pool_inv_alt pool_ops nat_diff_distrib stopping_def)
next
  case (st_exit me)
  then show ?thesis
    using inv n_busy_upd(1)[OF W st_exit(2), of "po_phase p" Left]
      n_idle_upd(1)[OF W st_exit(2), of "po_phase p" Left]
    by (auto simp: pool_inv_alt pool_ops)
qed

lemma pool_run_inv:
  assumes "finite W" "pool_run W p"
  shows "pool_inv W p"
  using assms(2)
proof (induction rule: pool_run.induct)
  case (pool_init s)
  have "{t \<in> W. busy (po_phase (pool_start s) t)} = {}" "{t \<in> W. po_phase (pool_start s) t = In_idle} = {}"
    by (auto simp: pool_start_def)
  then show ?case using pool_init by (simp add: pool_inv_def pool_start_def fresh_sched_def)
next
  case (pool_next p q)
  then show ?case using pool_step_inv[OF assms(1)] by blast
qed

lemma pool_runI: "rtranclp (pool_step W) p q \<Longrightarrow> pool_run W p \<Longrightarrow> pool_run W q"
  by (induction rule: rtranclp_induct) (auto intro: pool_next)

lemma pool_invariant_parts:
  assumes "finite W" "pool_run W p"
  shows "mset (po_accepted p) = mset (sc_tasks (po_sched p)) + mset (po_started p)"
    and "sc_activeThreadCount (po_sched p) = card {t \<in> W. busy (po_phase p t)}"
    and "sc_idleThreadCount (po_sched p) = card {t \<in> W. po_phase p t = In_idle}"
    and "t \<in> W \<Longrightarrow> po_phase p t = Left \<Longrightarrow> sc_stopping (po_sched p)"
  using pool_run_inv[OF assms] by (auto simp: pool_inv_def)

text \<open>
  C4: In every reachable state of the thread pool, with any interleaving of its threads and of callers that
  schedule and stop, no task is lost or started twice: the tasks accepted so far are those waiting and
  those started. The counters of active and idle threads are exact, and a thread has left
  only after a stop was requested.\<close>

theorem pool_invariant:
  assumes "finite W" "pool_run W p"
  shows "(mset (po_accepted p) = mset (sc_tasks (po_sched p)) + mset (po_started p)) \<and>
    (sc_activeThreadCount (po_sched p) = card {t \<in> W. busy (po_phase p t)}) \<and>
    (sc_idleThreadCount (po_sched p) = card {t \<in> W. po_phase p t = In_idle}) \<and>
    (t \<in> W \<longrightarrow> po_phase p t = Left \<longrightarrow> (sc_stopping (po_sched p)))"
  using pool_invariant_parts(1)[OF assms] pool_invariant_parts(2)[OF assms] pool_invariant_parts(3)[OF assms] pool_invariant_parts(4)[OF assms] by blast

definition idle_sched :: "nat Scheduler" where
  "idle_sched = the (Scheduler_new 2 False 7)"

lemma idle_sched_fresh: "fresh_sched idle_sched"
  by (simp add: idle_sched_def Scheduler_new_def fresh_sched_def)

definition cb_task :: "'cb \<Rightarrow> 'cb ScheduleTask" where
  "cb_task c = \<lparr>tk_fiber = None, tk_cb = Some c, tk_thread = - 1\<rparr>"

definition fiber_task :: "nat \<Rightarrow> 'cb ScheduleTask" where
  "fiber_task f = \<lparr>tk_fiber = Some f, tk_cb = None, tk_thread = - 1\<rparr>"

theorem pool_invariant_witness:
  "mset (po_accepted (do_schedule (cb_task 4) (pool_start idle_sched))) =
   mset (sc_tasks (po_sched (do_schedule (cb_task 4) (pool_start idle_sched))))"
  using pool_invariant[OF _ pool_next[OF pool_init[OF idle_sched_fresh] st_schedule], of "{1, 2}" "cb_task 4", THEN conjunct1]
  by (simp add: do_schedule_def pool_start_def Let_def upd_sched_def)

text \<open>
  A thread that looks for work takes the first task in the queue that it may take, one bound to no
  thread or to this one whose fiber is not running, and leaves the order of the others; it goes idle
  or leaves only when there is no such task.\<close>

theorem pick_first_eligible:
  assumes "finite W" "pool_run W p"
  shows "(\<exists>us t vs. sc_tasks (po_sched p) = us @ t # vs \<and> eligible me (po_fstate p) t \<and>
       (\<forall>u \<in> set us. \<not> eligible me (po_fstate p) u) \<and>
       pick me (po_fstate p) [] (sc_tasks (po_sched p)) = Picked t (us @ vs)) \<or>
     (\<forall>t \<in> set (sc_tasks (po_sched p)). \<not> eligible me (po_fstate p) t) \<and>
       pick me (po_fstate p) [] (sc_tasks (po_sched p)) = Nothing"
proof -
  let ?ts = "sc_tasks (po_sched p)"
  have ok: "list_all ScheduleTask_ok ?ts" using pool_run_inv[OF assms] by (simp add: pool_inv_def)
  show ?thesis
  proof (cases "pick me (po_fstate p) [] ?ts")
    case (Picked t rest)
    then show ?thesis using pick_Picked[OF ok Picked] by blast
  next
    case Nothing
    then have "dropWhile (\<lambda>t. \<not> eligible me (po_fstate p) t) ?ts = []"
      using pick_spec[OF ok, of me "po_fstate p" "[]"] by (auto split: list.splits)
    then show ?thesis using Nothing by (metis dropWhile_eq_Nil_conv)
  next
    case Pick_abort
    then show ?thesis using pick_spec[OF ok, of me "po_fstate p" "[]"] by (auto split: list.splits)
  qed
qed

section \<open>A task bound to a foreign thread\<close>

lemma pinned_step:
  assumes "finite W" "pool_inv W p" "pool_step W p q" "x \<in> set (sc_tasks (po_sched p))" "tk_thread x \<noteq> - 1" "tk_thread x \<notin> W"
    and "\<forall>t \<in> W. po_idle p t \<noteq> Fiber_TERM"
  shows "x \<in> set (sc_tasks (po_sched q)) \<and> (\<forall>t \<in> W. po_idle q t \<noteq> Fiber_TERM)"
  using assms(3)
proof (cases rule: pool_step.cases)
  case (st_pick me)
  obtain t rest where p: "pick me (po_fstate p) [] (sc_tasks (po_sched p)) = Picked t rest"
      "q = set_phase me (task_phase t) (upd_sched (\<lambda>s. add_active 1 (s\<lparr>sc_tasks := rest\<rparr>)) (p\<lparr>po_started := po_started p @ [t]\<rparr>))"
    using st_pick(3) by (auto simp: do_pick_def split: pick_result.splits)
  obtain us vs where s: "sc_tasks (po_sched p) = us @ t # vs" "rest = us @ vs" "eligible me (po_fstate p) t"
    using pick_Picked[OF _ p(1)] assms(2) by (auto simp: pool_inv_def)
  have "t \<noteq> x" using s(3) assms(5,6) st_pick(1) by (auto simp: eligible_def)
  then show ?thesis using s(1,2) assms(4,7) unfolding p(2) by (auto simp: pool_ops)
qed (use assms in \<open>auto simp: pool_ops do_schedule_def schedule_def scheduleNoLock_def stop_def stopping_def Let_def split: if_splits\<close>)

text \<open>
  A task bound to a thread that is not in the pool blocks the scheduler for good: it is never started,
  and since \<open>stopping\<close> waits for an empty queue no thread ever leaves, so \<open>stop\<close> does not return.\<close>

theorem pinned_task_blocks:
  assumes "finite W" "pool_run W p" "x \<in> set (sc_tasks (po_sched p))" "tk_thread x \<noteq> - 1" "tk_thread x \<notin> W"
    and "\<forall>t \<in> W. po_idle p t \<noteq> Fiber_TERM" and "rtranclp (pool_step W) p q"
  shows "x \<in> set (sc_tasks (po_sched q)) \<and> (\<forall>t \<in> W. po_phase q t \<noteq> Left)"
proof -
  from assms(7) have "x \<in> set (sc_tasks (po_sched q)) \<and> (\<forall>t \<in> W. po_idle q t \<noteq> Fiber_TERM) \<and> pool_inv W q"
  proof (induction rule: rtranclp_induct)
    case base
    then show ?case using assms pool_run_inv by blast
  next
    case (step q r)
    then show ?case using pinned_step[OF assms(1) _ step(2) _ assms(4,5)] pool_step_inv[OF assms(1) _ step(2)] by blast
  qed
  then show ?thesis by (auto simp: pool_inv_def)
qed

theorem pick_first_eligible_witness:
  "pick 1 (po_fstate (do_schedule (cb_task 4) (pool_start idle_sched))) []
     (sc_tasks (po_sched (do_schedule (cb_task 4) (pool_start idle_sched)))) = Picked (cb_task 4) []"
proof -
  let ?p = "do_schedule (cb_task 4) (pool_start idle_sched)"
  have ts: "sc_tasks (po_sched ?p) = [cb_task 4]"
    by (simp add: do_schedule_def schedule_def scheduleNoLock_def ScheduleTask_ok_def cb_task_def upd_sched_def
        Let_def pool_start_def idle_sched_def Scheduler_new_def)
  have "pool_run {1, 2} ?p" by (rule pool_next[OF pool_init[OF idle_sched_fresh] st_schedule])
  from pick_first_eligible[OF _ this, of 1] show ?thesis
    unfolding ts by (auto simp: eligible_def cb_task_def Cons_eq_append_conv)
qed

theorem pinned_task_blocks_witness:
  "\<forall>q. rtranclp (pool_step {1, 2}) (do_schedule ((cb_task 4)\<lparr>tk_thread := 9\<rparr>) (pool_start idle_sched)) q \<longrightarrow>
     po_phase q 1 \<noteq> Left"
proof (intro allI impI)
  fix q
  let ?x = "(cb_task 4)\<lparr>tk_thread := 9\<rparr>" and ?p = "do_schedule ((cb_task 4)\<lparr>tk_thread := 9\<rparr>) (pool_start idle_sched)"
  assume "rtranclp (pool_step {1, 2}) ?p q"
  moreover have "pool_run {1, 2} ?p" by (rule pool_next[OF pool_init[OF idle_sched_fresh] st_schedule])
  moreover have "?x \<in> set (sc_tasks (po_sched ?p))" "po_idle ?p = (\<lambda>_. Fiber_READY)"
    by (simp_all add: do_schedule_def schedule_def scheduleNoLock_def ScheduleTask_ok_def cb_task_def upd_sched_def
        Let_def pool_start_def)
  ultimately show "po_phase q 1 \<noteq> Left"
    using pinned_task_blocks[of "{1, 2}" ?p ?x q] by (simp add: cb_task_def)
qed

section \<open>One fiber on two threads\<close>

lemma pick_single:
  "eligible me fs t \<Longrightarrow> ScheduleTask_ok t \<Longrightarrow> pick me fs [] (t # ts) = Picked t ts"
  by (simp add: pick_Cons del: pick.simps)

text \<open>
  \<open>yield\<close> marks a fiber as ready before its context is saved. If the fiber was scheduled again before it
  yields, as an event that it waits for does, another thread can resume it while the first one is still
  executing it: a reachable state has two threads in the same fiber.\<close>

theorem fiber_on_two_threads:
  "\<exists>p :: nat pool. pool_run {1, 2} p \<and> po_phase p 1 = Leaving_fiber 5 \<and> po_phase p 2 = Running_fiber 5"
proof -
  let ?W = "{1, 2 :: int}"
  define p0 where "p0 = pool_start idle_sched"
  define p1 where "p1 = do_schedule (fiber_task 5) p0"
  define p2 where "p2 = the (do_pick 1 p1)"
  define p3 where "p3 = set_fstate 5 Fiber_RUNNING (set_phase 1 (Running_fiber 5) p2)"
  define p4 where "p4 = do_schedule (fiber_task 5) p3"
  define p5 where "p5 = set_fstate 5 Fiber_READY (set_phase 1 (Leaving_fiber 5) p4)"
  define p6 where "p6 = the (do_pick 2 p5)"
  define p7 where "p7 = set_fstate 5 Fiber_RUNNING (set_phase 2 (Running_fiber 5) p6)"
  note defs = do_schedule_def schedule_def scheduleNoLock_def ScheduleTask_ok_def fiber_task_def pool_ops Let_def
    pool_start_def idle_sched_def Scheduler_new_def do_pick_def task_phase_def
  have p1: "p1 = \<lparr>po_sched = idle_sched\<lparr>sc_tasks := [fiber_task 5]\<rparr>, po_phase = (\<lambda>_. Looking), po_idle = (\<lambda>_. Fiber_READY),
      po_fstate = (\<lambda>_. Fiber_READY), po_accepted = [fiber_task 5], po_started = []\<rparr>"
    by (simp add: p1_def p0_def defs)
  have d1: "do_pick 1 p1 = Some p2" by (simp add: p2_def p1 defs)
  have p2: "p2 = \<lparr>po_sched = idle_sched\<lparr>sc_activeThreadCount := 1\<rparr>, po_phase = (\<lambda>_. Looking)(1 := Picked_fiber 5),
      po_idle = (\<lambda>_. Fiber_READY), po_fstate = (\<lambda>_. Fiber_READY), po_accepted = [fiber_task 5], po_started = [fiber_task 5]\<rparr>"
    by (simp add: p2_def p1 defs)
  have p5: "p5 = \<lparr>po_sched = idle_sched\<lparr>sc_activeThreadCount := 1, sc_tasks := [fiber_task 5]\<rparr>,
      po_phase = (\<lambda>_. Looking)(1 := Leaving_fiber 5), po_idle = (\<lambda>_. Fiber_READY), po_fstate = (\<lambda>_. Fiber_READY)(5 := Fiber_READY),
      po_accepted = [fiber_task 5, fiber_task 5], po_started = [fiber_task 5]\<rparr>"
    by (simp add: p5_def p4_def p3_def p2 defs)
  have d2: "do_pick 2 p5 = Some p6" by (simp add: p6_def p5 defs)
  have p6: "po_phase p6 = (\<lambda>_. Looking)(1 := Leaving_fiber 5, 2 := Picked_fiber 5)" "po_fstate p6 5 = Fiber_READY"
    by (simp_all add: p6_def p5 defs fun_upd_twist)
  have "pool_run ?W p0" unfolding p0_def by (rule pool_init[OF idle_sched_fresh])
  then have "pool_run ?W p1" unfolding p1_def by (rule pool_next) (rule st_schedule)
  then have "pool_run ?W p2" by (rule pool_next) (rule st_pick[OF _ _ d1], simp_all add: p1)
  then have "pool_run ?W p3" unfolding p3_def by (rule pool_next) (rule st_resume, simp_all add: p2)
  then have "pool_run ?W p4" unfolding p4_def by (rule pool_next) (rule st_schedule)
  then have "pool_run ?W p5" unfolding p5_def
    by (rule pool_next) (rule st_yield, simp_all add: p4_def p3_def p2 defs)
  then have "pool_run ?W p6" by (rule pool_next) (rule st_pick[OF _ _ d2], simp_all add: p5)
  then have "pool_run ?W p7" unfolding p7_def by (rule pool_next) (rule st_resume, simp_all add: p6)
  moreover have "po_phase p7 1 = Leaving_fiber 5" "po_phase p7 2 = Running_fiber 5"
    by (simp_all add: p7_def pool_ops p6)
  ultimately show ?thesis by blast
qed

section \<open>Shutdown\<close>

text \<open>A stopped pool with callbacks only, in which no thread has begun to leave.\<close>

definition draining :: "int set \<Rightarrow> 'cb pool \<Rightarrow> bool" where
  "draining W p \<longleftrightarrow> sc_stopping (po_sched p) \<and>
     list_all (\<lambda>t. tk_fiber t = None \<and> tk_cb t \<noteq> None \<and> tk_thread t = - 1) (sc_tasks (po_sched p)) \<and>
     (\<forall>t \<in> W. po_phase p t = Looking \<or> po_phase p t = In_idle \<or> (\<exists>c. po_phase p t = Running_cb c)) \<and>
     (\<forall>t \<in> W. po_idle p t \<noteq> Fiber_TERM)"

lemma drain_busy:
  assumes "finite W"
  shows "draining W p \<Longrightarrow> pool_inv W p \<Longrightarrow>
    \<exists>q. rtranclp (pool_step W) p q \<and> draining W q \<and> pool_inv W q \<and> n_busy W (po_phase q) = 0 \<and>
      sc_tasks (po_sched q) = sc_tasks (po_sched p)"
proof (induction "n_busy W (po_phase p)" arbitrary: p)
  case 0
  then show ?case by (intro exI[of _ p]) auto
next
  case (Suc n)
  then obtain me where me: "me \<in> W" "busy (po_phase p me)"
    using assms unfolding n_busy_def by (metis (mono_tags, lifting) card_eq_0_iff empty_Collect_eq nat.distinct(1))
  then obtain c where c: "po_phase p me = Running_cb c" using Suc.prems(1) by (auto simp: draining_def)
  let ?q = "upd_sched (add_active (- 1)) (set_phase me Looking p)"
  have step: "pool_step W p ?q" by (rule st_cb_done[OF me(1) c])
  have "draining W ?q" using Suc.prems(1) by (simp add: draining_def pool_ops)
  moreover have "n = n_busy W (po_phase ?q)"
    using n_busy_upd(3)[OF assms me(1), of "po_phase p" Looking] me(2) Suc(2) by (simp add: pool_ops)
  ultimately obtain r where "rtranclp (pool_step W) ?q r" "draining W r" "pool_inv W r" "n_busy W (po_phase r) = 0"
      "sc_tasks (po_sched r) = sc_tasks (po_sched ?q)"
    using Suc(1) pool_step_inv[OF assms Suc.prems(2) step] by blast
  then show ?case using step by (intro exI[of _ r]) (auto simp: pool_ops intro: converse_rtranclp_into_rtranclp)
qed

lemma drain_tasks:
  assumes "finite W" "w \<in> W"
  shows "draining W p \<Longrightarrow> pool_inv W p \<Longrightarrow> n_busy W (po_phase p) = 0 \<Longrightarrow>
    \<exists>q. rtranclp (pool_step W) p q \<and> draining W q \<and> pool_inv W q \<and> n_busy W (po_phase q) = 0 \<and>
      sc_tasks (po_sched q) = []"
proof (induction "sc_tasks (po_sched p)" arbitrary: p)
  case Nil
  then show ?case by (intro exI[of _ p]) auto
next
  case (Cons x ts)
  have nb: "\<not> busy (po_phase p w)" using Cons.prems(3) assms by (auto simp: n_busy_def)
  obtain p1 where p1: "rtranclp (pool_step W) p p1" "draining W p1" "pool_inv W p1" "po_phase p1 w = Looking"
      "sc_tasks (po_sched p1) = x # ts" "n_busy W (po_phase p1) = 0"
  proof (cases "po_phase p w = In_idle")
    case True
    let ?q = "upd_sched (add_idle (- 1)) (set_phase w Looking p)"
    have step: "pool_step W p ?q"
      using True assms(2) Cons(2)[symmetric] by (intro st_idle_yield) (auto simp: stopping_def)
    have "draining W ?q" using Cons.prems(1) by (simp add: draining_def pool_ops)
    moreover have "n_busy W (po_phase ?q) = 0"
      using n_busy_upd(1)[OF assms, of "po_phase p" Looking] True Cons.prems(3) by (simp add: pool_ops)
    ultimately show ?thesis
      using that[of ?q] step pool_step_inv[OF assms(1) Cons.prems(2) step] Cons(2) by (auto simp: pool_ops)
  next
    case False
    then have "po_phase p w = Looking" using nb Cons.prems(1) assms(2) by (auto simp: draining_def)
    then show ?thesis using that[of p] Cons.prems Cons(2) by auto
  qed
  have x: "tk_fiber x = None" "tk_cb x \<noteq> None" "tk_thread x = - 1" using p1(2,5) by (auto simp: draining_def)
  have pk: "pick w (po_fstate p1) [] (x # ts) = Picked x ts"
    using x by (intro pick_single) (auto simp: eligible_def ScheduleTask_ok_def)
  let ?p2 = "set_phase w (task_phase x) (upd_sched (\<lambda>s. add_active 1 (s\<lparr>sc_tasks := ts\<rparr>)) (p1\<lparr>po_started := po_started p1 @ [x]\<rparr>))"
  have "do_pick w p1 = Some ?p2" using pk p1(5) by (simp add: do_pick_def)
  then have s2: "pool_step W p1 ?p2" by (rule st_pick[OF assms(2) p1(4)])
  have ph2: "po_phase ?p2 w = Running_cb (the (tk_cb x))" using x(1) by (simp add: pool_ops task_phase_def)
  let ?p3 = "upd_sched (add_active (- 1)) (set_phase w Looking ?p2)"
  have s3: "pool_step W ?p2 ?p3" by (rule st_cb_done[OF assms(2) ph2])
  have inv3: "pool_inv W ?p3" using pool_step_inv[OF assms(1)] p1(3) s2 s3 by blast
  have d3: "draining W ?p3" using p1(2,5) by (simp add: draining_def pool_ops)
  have "n_busy W (po_phase ?p3) = n_busy W (po_phase p1)"
    using p1(4) by (intro arg_cong[where f = "n_busy W"]) (auto simp: pool_ops)
  then obtain q where "rtranclp (pool_step W) ?p3 q" "draining W q" "pool_inv W q" "n_busy W (po_phase q) = 0"
      "sc_tasks (po_sched q) = []"
    using Cons(1)[OF _ d3 inv3] p1(6) by (auto simp: pool_ops)
  then show ?case using p1(1) s2 s3 by (intro exI[of _ q]) (meson converse_rtranclp_into_rtranclp rtranclp_trans)
qed

text \<open>Once nothing is left to do, the threads leave one after the other.\<close>

definition leaving :: "int set \<Rightarrow> 'cb pool \<Rightarrow> bool" where
  "leaving W p \<longleftrightarrow> stopping (po_sched p) \<and>
     (\<forall>t \<in> W. po_phase p t = Left \<or> (po_phase p t = Looking \<or> po_phase p t = In_idle) \<and> po_idle p t \<noteq> Fiber_TERM)"

lemma leave_one:
  assumes "leaving W p" "me \<in> W" "po_phase p me \<noteq> Left"
  shows "\<exists>q. rtranclp (pool_step W) p q \<and> leaving W q \<and> po_phase q = (po_phase p)(me := Left)"
proof -
  have st: "stopping (po_sched p)" and ts: "sc_tasks (po_sched p) = []" using assms(1) by (auto simp: leaving_def stopping_def)
  obtain p1 where p1: "rtranclp (pool_step W) p p1" "po_phase p1 = (po_phase p)(me := In_idle)" "po_idle p1 = po_idle p"
      "stopping (po_sched p1)"
  proof (cases "po_phase p me = In_idle")
    case True
    then show ?thesis using that[of p] st by (simp add: fun_upd_idem)
  next
    case False
    then have "pool_step W p (upd_sched (add_idle 1) (set_phase me In_idle p))"
      using assms ts by (intro st_idle) (auto simp: leaving_def)
    then show ?thesis using that[of "upd_sched (add_idle 1) (set_phase me In_idle p)"] st
      by (auto simp: pool_ops stopping_def)
  qed
  let ?p2 = "upd_sched (add_idle (- 1)) (set_phase me Looking (p1\<lparr>po_idle := (po_idle p1)(me := Fiber_TERM)\<rparr>))"
  have s2: "pool_step W p1 ?p2" using p1 assms(2) by (intro st_idle_term) auto
  have st2: "stopping (po_sched ?p2)" using p1(4) by (simp add: pool_ops stopping_def)
  let ?p3 = "set_phase me Left ?p2"
  have s3: "pool_step W ?p2 ?p3" using assms(2) st2 by (intro st_exit) (auto simp: pool_ops stopping_def)
  have "po_phase ?p3 = (po_phase p)(me := Left)" using p1(2) by (auto simp: pool_ops)
  moreover have "leaving W ?p3" using assms(1) st2 p1(2,3) by (auto simp: leaving_def pool_ops)
  ultimately show ?thesis using p1(1) s2 s3
    by (intro exI[of _ ?p3]) (auto intro: rtranclp.rtrancl_into_rtrancl)
qed

lemma leave_all:
  assumes "finite W"
  shows "leaving W p \<Longrightarrow> \<exists>q. rtranclp (pool_step W) p q \<and> leaving W q \<and> (\<forall>t \<in> W. po_phase q t = Left)"
proof (induction "card {t \<in> W. po_phase p t \<noteq> Left}" arbitrary: p rule: less_induct)
  case less
  show ?case
  proof (cases "\<exists>me \<in> W. po_phase p me \<noteq> Left")
    case True
    then obtain me where me: "me \<in> W" "po_phase p me \<noteq> Left" by blast
    from leave_one[OF less.prems me] obtain q where
      q: "rtranclp (pool_step W) p q" "leaving W q" "po_phase q = (po_phase p)(me := Left)" by blast
    have "card {t \<in> W. po_phase q t \<noteq> Left} < card {t \<in> W. po_phase p t \<noteq> Left}"
      using assms me by (intro psubset_card_mono) (auto simp: q(3))
    from less.hyps[OF this q(2)] q(1) show ?thesis by (meson rtranclp_trans)
  next
    case False
    then show ?thesis using less.prems by blast
  qed
qed



end
