(* ===== verification/Timer.thy ===== *)
theory Timer
  imports OrderedMap
begin

text \<open>
  The timers of \<open>timer.h\<close> and \<open>timer.cc\<close>. Timers are shared objects: a store maps addresses
  to them, and the manager keeps the set of the addresses of the active ones in the order of
  its comparator. Times are 64-bit words in milliseconds and wrap. The current time and the
  address of a newly allocated timer are arguments of the operations that obtain them. Every
  operation holds the manager's lock, so that an interleaving of threads is a sequence of operations.
  A callback is a value of type \<open>'cb\<close>; \<open>None\<close> is the empty function.
\<close>

section \<open>State\<close>

type_synonym addr = nat

record 'cb Timer =
  t_recurring :: bool
  t_ms :: u64
  t_next :: u64
  t_cb :: "'cb option"

type_synonym 'cb store = "addr \<Rightarrow> 'cb Timer"

record 'cb TimerManager =
  tm_store :: "'cb store"
  tm_timers :: "(addr, unit) omap"
  tm_tickled :: bool
  tm_previousTime :: u64

text \<open>
  The comparator on possibly null pointers. Both tests of the deadlines in the source compare
  \<open>lhs->m_next\<close> with itself.
\<close>

definition Comparator :: "'cb store \<Rightarrow> addr option \<Rightarrow> addr option \<Rightarrow> bool" where
  "Comparator h lhs rhs =
     (case (lhs, rhs) of
        (None, None) \<Rightarrow> False
      | (None, Some _) \<Rightarrow> True
      | (Some _, None) \<Rightarrow> False
      | (Some l, Some r) \<Rightarrow>
          if t_next (h l) < t_next (h l) then True
          else if t_next (h l) > t_next (h l) then False
          else l < r)"

abbreviation timer_less :: "'cb store \<Rightarrow> addr comparator" where
  "timer_less h \<equiv> \<lambda>a b. Comparator h (Some a) (Some b)"

definition set_find :: "'cb TimerManager \<Rightarrow> addr \<Rightarrow> bool" where
  "set_find m a = (map_find (timer_less (tm_store m)) a (tm_timers m) \<noteq> None)"

definition set_erase :: "addr \<Rightarrow> 'cb TimerManager \<Rightarrow> 'cb TimerManager" where
  "set_erase a m = m\<lparr>tm_timers := map_erase (timer_less (tm_store m)) a (tm_timers m)\<rparr>"

definition set_insert :: "addr \<Rightarrow> 'cb TimerManager \<Rightarrow> 'cb TimerManager" where
  "set_insert a m = m\<lparr>tm_timers := map_insert (timer_less (tm_store m)) a () (tm_timers m)\<rparr>"

definition write_timer :: "addr \<Rightarrow> ('cb Timer \<Rightarrow> 'cb Timer) \<Rightarrow> 'cb TimerManager \<Rightarrow> 'cb TimerManager" where
  "write_timer a f m = m\<lparr>tm_store := (tm_store m)(a := f (tm_store m a))\<rparr>"

section \<open>Operations\<close>

definition Timer_new :: "u64 \<Rightarrow> u64 \<Rightarrow> 'cb option \<Rightarrow> bool \<Rightarrow> 'cb Timer" where
  "Timer_new now ms cb recurring =
     \<lparr>t_recurring = recurring, t_ms = ms, t_next = now + ms, t_cb = cb\<rparr>"

definition Timer_at :: "u64 \<Rightarrow> 'cb Timer" where
  "Timer_at next_time = \<lparr>t_recurring = False, t_ms = 0, t_next = next_time, t_cb = None\<rparr>"

definition TimerManager_new :: "'cb store \<Rightarrow> u64 \<Rightarrow> 'cb TimerManager" where
  "TimerManager_new h now = \<lparr>tm_store = h, tm_timers = [], tm_tickled = False, tm_previousTime = now\<rparr>"

text \<open>The result says whether \<open>onTimerInsertedAtFront\<close> is called.\<close>

definition insertTimer :: "addr \<Rightarrow> 'cb TimerManager \<Rightarrow> bool \<times> 'cb TimerManager" where
  "insertTimer a m =
     (let m' = set_insert a m;
          at_front = (fst (hd (tm_timers m')) = a \<and> \<not> tm_tickled m')
      in (at_front, if at_front then m'\<lparr>tm_tickled := True\<rparr> else m'))"

definition addTimer :: "u64 \<Rightarrow> addr \<Rightarrow> u64 \<Rightarrow> 'cb option \<Rightarrow> bool \<Rightarrow> 'cb TimerManager \<Rightarrow> bool \<times> 'cb TimerManager" where
  "addTimer now a ms cb recurring m = insertTimer a (write_timer a (\<lambda>_. Timer_new now ms cb recurring) m)"

text \<open>The wrapper of a condition timer: the callback runs only if the condition object still exists.\<close>

definition onTimer :: "bool \<Rightarrow> 'cb \<Rightarrow> 'cb option" where
  "onTimer cond_alive cb = (if cond_alive then Some cb else None)"

text \<open>Erasing the end iterator is undefined, \<open>Bad_access\<close>.\<close>

definition cancel :: "addr \<Rightarrow> 'cb TimerManager \<Rightarrow> (bool \<times> 'cb TimerManager) res" where
  "cancel a m =
     (if t_cb (tm_store m a) \<noteq> None
      then if set_find m a then Inr (True, set_erase a m) else Inl Bad_access
      else Inr (False, m))"

definition refresh :: "u64 \<Rightarrow> addr \<Rightarrow> 'cb TimerManager \<Rightarrow> bool \<times> 'cb TimerManager" where
  "refresh now a m =
     (if t_cb (tm_store m a) = None then (False, m)
      else if \<not> set_find m a then (False, m)
      else (True, set_insert a (write_timer a (\<lambda>t. t\<lparr>t_next := now + t_ms t\<rparr>) (set_erase a m))))"

text \<open>The second result of \<open>reset\<close> is that of the \<open>addTimer\<close> it ends with.\<close>

definition reset :: "u64 \<Rightarrow> addr \<Rightarrow> u64 \<Rightarrow> bool \<Rightarrow> 'cb TimerManager \<Rightarrow> bool \<times> bool \<times> 'cb TimerManager" where
  "reset now a ms from_now m =
     (if ms = t_ms (tm_store m a) \<and> \<not> from_now then (True, False, m)
      else if t_cb (tm_store m a) = None then (False, False, m)
      else if \<not> set_find m a then (False, False, m)
      else (True, insertTimer a
              (write_timer a
                 (\<lambda>t. let start = (if from_now then now else t_next t - t_ms t)
                      in t\<lparr>t_ms := ms, t_next := start + ms\<rparr>)
                 (set_erase a m))))"

definition getNextTimer :: "u64 \<Rightarrow> 'cb TimerManager \<Rightarrow> u64 \<times> 'cb TimerManager" where
  "getNextTimer now m =
     (case tm_timers m of
        [] \<Rightarrow> (- 1, m\<lparr>tm_tickled := False\<rparr>)
      | (a, _) # _ \<Rightarrow>
          (if now > t_next (tm_store m a) then 0 else t_next (tm_store m a) - now, m\<lparr>tm_tickled := False\<rparr>))"

definition detectClockRollover :: "u64 \<Rightarrow> 'cb TimerManager \<Rightarrow> bool \<times> 'cb TimerManager" where
  "detectClockRollover now m =
     (now < tm_previousTime m \<and> now < tm_previousTime m - 60 * 60 * 1000, m\<lparr>tm_previousTime := now\<rparr>)"

definition hasTimer :: "'cb TimerManager \<Rightarrow> bool" where
  "hasTimer m = (tm_timers m \<noteq> [])"

text \<open>
  The part of the set before the iterator \<open>it\<close>: everything on a rollover, else the timers before the
  lower bound of the new timer \<open>now_timer\<close> and those that follow with a deadline of exactly now.
\<close>

definition expired_part :: "'cb store \<Rightarrow> bool \<Rightarrow> u64 \<Rightarrow> addr \<Rightarrow> (addr, unit) omap \<Rightarrow> (addr, unit) omap" where
  "expired_part h rollover now now_timer ts =
     (if rollover then ts
      else let before = takeWhile (\<lambda>e. Comparator h (Some (fst e)) (Some now_timer)) ts
           in before @ takeWhile (\<lambda>e. t_next (h (fst e)) = now) (drop (length before) ts))"

text \<open>The loop over the expired timers.\<close>

fun fire_loop :: "u64 \<Rightarrow> addr list \<Rightarrow> 'cb option list \<Rightarrow> 'cb TimerManager \<Rightarrow> 'cb option list \<times> 'cb TimerManager" where
  "fire_loop now [] cbs m = (cbs, m)"
| "fire_loop now (a # as) cbs m =
     fire_loop now as (cbs @ [t_cb (tm_store m a)])
       (if t_recurring (tm_store m a)
        then set_insert a (write_timer a (\<lambda>t. t\<lparr>t_next := now + t_ms t\<rparr>) m)
        else write_timer a (\<lambda>t. t\<lparr>t_cb := None\<rparr>) m)"

text \<open>\<open>now_timer\<close> is the address at which the local timer of the function is allocated.\<close>

definition listExpiredCb :: "u64 \<Rightarrow> addr \<Rightarrow> 'cb TimerManager \<Rightarrow> 'cb option list \<times> 'cb TimerManager" where
  "listExpiredCb now now_timer m =
     (if tm_timers m = [] then ([], m)
      else let (rollover, m1) = detectClockRollover now m
           in if \<not> rollover \<and> t_next (tm_store m1 (fst (hd (tm_timers m1)))) > now then ([], m1)
              else let m2 = write_timer now_timer (\<lambda>_. Timer_at now) m1;
                       expired = expired_part (tm_store m2) rollover now now_timer (tm_timers m2)
                   in fire_loop now (map fst expired) []
                        (m2\<lparr>tm_timers := drop (length expired) (tm_timers m2)\<rparr>))"

section \<open>The order of the set\<close>

lemma Comparator_addr: "Comparator h (Some a) (Some b) \<longleftrightarrow> a < b"
  by (simp add: Comparator_def)

interpretation timer_order: ordered_keys "timer_less h" for h :: "'cb store"
  by unfold_locales (auto simp: Comparator_addr)

definition active :: "'cb TimerManager \<Rightarrow> addr \<Rightarrow> bool" where
  "active m a \<longleftrightarrow> a \<in> fst ` set (tm_timers m)"

definition set_ordered :: "'cb TimerManager \<Rightarrow> bool" where
  "set_ordered m \<longleftrightarrow> sorted_wrt (<) (map fst (tm_timers m))"

lemma map_sorted_addr: "map_sorted (timer_less h) ts \<longleftrightarrow> sorted_wrt (<) (map fst ts)"
  by (induction ts rule: omap_induct) (auto simp: Comparator_addr)

lemma timer_same: "ordered_keys.same (timer_less h) a b \<longleftrightarrow> a = b"
  by (subst ordered_keys.same_def[OF timer_order.ordered_keys_axioms]) (auto simp: Comparator_addr)

lemma set_find_active: "set_ordered m \<Longrightarrow> set_find m a \<longleftrightarrow> active m a"
proof -
  assume "set_ordered m"
  then have s: "map_sorted (timer_less (tm_store m)) (tm_timers m)" by (simp add: map_sorted_addr set_ordered_def)
  show ?thesis
    using timer_order.find_mem[OF s, of a "()"] timer_order.find_Some_mem[of "tm_store m" a "tm_timers m" "()"]
    by (force simp: set_find_def active_def timer_same)
qed

lemma set_insert_props:
  assumes "set_ordered m"
  shows "set_ordered (set_insert a m)" "active (set_insert a m) b \<longleftrightarrow> active m b \<or> b = a"
    "tm_store (set_insert a m) = tm_store m"
proof -
  have s: "map_sorted (timer_less (tm_store m)) (tm_timers m)" using assms by (simp add: map_sorted_addr set_ordered_def)
  show o: "set_ordered (set_insert a m)"
    using timer_order.sorted_insert[OF s, of a "()"] by (simp add: set_insert_def map_sorted_addr set_ordered_def)
  show st: "tm_store (set_insert a m) = tm_store m" by (simp add: set_insert_def)
  show "active (set_insert a m) b \<longleftrightarrow> active m b \<or> b = a"
    using set_find_active[OF o, of b] set_find_active[OF assms, of b] set_find_active[OF assms, of a]
      timer_order.find_insert[OF s, of b a "()"]
    by (auto simp: set_find_def st timer_same set_insert_def split: if_splits)
qed

lemma set_erase_props:
  assumes "set_ordered m"
  shows "set_ordered (set_erase a m)" "active (set_erase a m) b \<longleftrightarrow> active m b \<and> b \<noteq> a"
    "tm_store (set_erase a m) = tm_store m"
proof -
  have s: "map_sorted (timer_less (tm_store m)) (tm_timers m)" using assms by (simp add: map_sorted_addr set_ordered_def)
  show o: "set_ordered (set_erase a m)"
    using timer_order.sorted_erase[OF s, of a] by (simp add: set_erase_def map_sorted_addr set_ordered_def)
  show st: "tm_store (set_erase a m) = tm_store m" by (simp add: set_erase_def)
  show "active (set_erase a m) b \<longleftrightarrow> active m b \<and> b \<noteq> a"
    using set_find_active[OF o, of b] set_find_active[OF assms, of b] timer_order.find_erase[OF s, of b a]
    by (auto simp: set_find_def st timer_same set_erase_def split: if_splits)
qed

lemma write_timer_props [simp]:
  "set_ordered (write_timer a f m) = set_ordered m" "active (write_timer a f m) b = active m b"
  "tm_store (write_timer a f m) b = (if b = a then f (tm_store m a) else tm_store m b)"
  "tm_timers (write_timer a f m) = tm_timers m"
  by (simp_all add: write_timer_def set_ordered_def active_def)

lemma insertTimer_props:
  assumes "set_ordered m"
  shows "set_ordered (snd (insertTimer a m))" "active (snd (insertTimer a m)) b \<longleftrightarrow> active m b \<or> b = a"
    "tm_store (snd (insertTimer a m)) = tm_store m"
  using set_insert_props[OF assms, of a] by (auto simp: insertTimer_def Let_def set_ordered_def active_def)

section \<open>Invariant\<close>

text \<open>The active timers are in the order of their addresses and have a callback.\<close>

definition timers_ok :: "'cb TimerManager \<Rightarrow> bool" where
  "timers_ok m \<longleftrightarrow> set_ordered m \<and> (\<forall>a. active m a \<longrightarrow> t_cb (tm_store m a) \<noteq> None)"

lemma new_ok: "timers_ok (TimerManager_new h now)"
  by (simp add: timers_ok_def TimerManager_new_def set_ordered_def active_def)

lemma addTimer_ok: "timers_ok m \<Longrightarrow> timers_ok (snd (addTimer now a ms (Some cb) recurring m))"
  by (auto simp: timers_ok_def addTimer_def insertTimer_props Timer_new_def)

lemma cancel_ok: "timers_ok m \<Longrightarrow> cancel a m = Inr (b, m') \<Longrightarrow> timers_ok m'"
  by (auto simp: timers_ok_def cancel_def set_erase_props split: if_splits)

lemma refresh_ok: "timers_ok m \<Longrightarrow> timers_ok (snd (refresh now a m))"
  by (auto simp: timers_ok_def refresh_def set_erase_props set_insert_props)

lemma reset_ok: "timers_ok m \<Longrightarrow> timers_ok (snd (snd (reset now a ms from_now m)))"
  by (auto simp: timers_ok_def reset_def set_erase_props insertTimer_props Let_def)

definition fired :: "u64 \<Rightarrow> 'cb Timer \<Rightarrow> 'cb Timer" where
  "fired now t = (if t_recurring t then t\<lparr>t_next := now + t_ms t\<rparr> else t\<lparr>t_cb := None\<rparr>)"

lemma fired_simps [simp]: "t_recurring (fired now t) = t_recurring t"
  by (simp add: fired_def)

lemma fire_loop_spec:
  assumes "set_ordered m" "distinct as"
  shows "fst (fire_loop now as cbs m) = cbs @ map (\<lambda>a. t_cb (tm_store m a)) as \<and>
    set_ordered (snd (fire_loop now as cbs m)) \<and>
    (\<forall>b. active (snd (fire_loop now as cbs m)) b \<longleftrightarrow> active m b \<or> b \<in> set as \<and> t_recurring (tm_store m b)) \<and>
    (\<forall>b. tm_store (snd (fire_loop now as cbs m)) b = (if b \<in> set as then fired now (tm_store m b) else tm_store m b))"
  using assms
proof (induction as arbitrary: cbs m)
  case (Cons a as)
  define m' where "m' = (if t_recurring (tm_store m a)
        then set_insert a (write_timer a (\<lambda>t. t\<lparr>t_next := now + t_ms t\<rparr>) m)
        else write_timer a (\<lambda>t. t\<lparr>t_cb := None\<rparr>) m)"
  have ord: "set_ordered m'" using Cons.prems by (simp add: m'_def set_insert_props)
  have act: "active m' b \<longleftrightarrow> active m b \<or> b = a \<and> t_recurring (tm_store m a)" for b
    using Cons.prems by (auto simp: m'_def set_insert_props)
  have store: "tm_store m' b = (if b = a then fired now (tm_store m a) else tm_store m b)" for b
    using Cons.prems by (simp add: m'_def set_insert_props fired_def)
  have cbs: "map (\<lambda>a. t_cb (tm_store m' a)) as = map (\<lambda>a. t_cb (tm_store m a)) as"
    using Cons.prems(2) by (auto simp: store)
  show ?case
    using Cons.IH[OF ord, of "cbs @ [t_cb (tm_store m a)]"] Cons.prems(2) cbs
    by (auto simp: act store simp flip: m'_def)
qed simp

section \<open>Expiry\<close>

text \<open>Whether a call of \<open>listExpiredCb\<close> goes on to collect timers.\<close>

definition collects :: "u64 \<Rightarrow> 'cb TimerManager \<Rightarrow> bool" where
  "collects now m \<longleftrightarrow> tm_timers m \<noteq> [] \<and>
     (fst (detectClockRollover now m) \<or> t_next (tm_store m (fst (hd (tm_timers m)))) \<le> now)"

text \<open>The addresses it collects.\<close>

definition collected :: "u64 \<Rightarrow> addr \<Rightarrow> 'cb TimerManager \<Rightarrow> addr list" where
  "collected now nt m =
     (if collects now m
      then map fst (expired_part (tm_store m) (fst (detectClockRollover now m)) now nt (tm_timers m)) else [])"

lemma expired_part_prefix: "take (length (expired_part h r now nt ts)) ts = expired_part h r now nt ts"
  by (simp add: expired_part_def Let_def take_add takeWhile_eq_take[symmetric])

lemma listExpiredCb_spec:
  assumes "timers_ok m" "\<not> active m nt" and F_def: "F = collected now nt m"
  shows "fst (listExpiredCb now nt m) = map (\<lambda>a. t_cb (tm_store m a)) F"
    and "set_ordered (snd (listExpiredCb now nt m))"
    and "active (snd (listExpiredCb now nt m)) b \<longleftrightarrow> active m b \<and> (b \<in> set F \<longrightarrow> t_recurring (tm_store m b))"
    and "b \<noteq> nt \<Longrightarrow> tm_store (snd (listExpiredCb now nt m)) b =
      (if b \<in> set F then fired now (tm_store m b) else tm_store m b)"
    and "distinct F" "set F \<subseteq> {a. active m a}"
proof -
  let ?r = "fst (detectClockRollover now m)"
  let ?ts = "tm_timers m"
  let ?e = "expired_part (tm_store m) ?r now nt ?ts"
  have nt: "nt \<notin> fst ` set ?ts" using assms(2) by (simp add: active_def)
  have dist: "distinct (map fst ?ts)" using assms(1)
    by (auto simp: timers_ok_def set_ordered_def strict_sorted_iff)
  have split: "?ts = ?e @ drop (length ?e) ?ts" using expired_part_prefix append_take_drop_id by metis
  have F: "F = (if collects now m then map fst ?e else [])" by (simp add: F_def collected_def)
  have "distinct (map fst ?e)" using dist by (metis distinct_append map_append split)
  then show "distinct F" by (simp add: F)
  have sub: "set ?e \<subseteq> set ?ts" by (metis Un_upper1 set_append split)
  then show subF: "set F \<subseteq> {a. active m a}" by (auto simp: F active_def)
  have same: "expired_part ((tm_store m)(nt := t)) r now nt ts = expired_part (tm_store m) r now nt ts"
    if "nt \<notin> fst ` set ts" for t r ts
  proof -
    have "nt \<notin> fst ` set (drop n ts)" for n using that set_drop_subset[of n ts] by auto
    then have "takeWhile (\<lambda>e. t_next (((tm_store m)(nt := t)) (fst e)) = now) (drop n ts) =
        takeWhile (\<lambda>e. t_next (tm_store m (fst e)) = now) (drop n ts)" for n
      by (intro takeWhile_cong refl) (auto simp: image_iff)
    then show ?thesis by (simp add: expired_part_def Comparator_addr Let_def)
  qed
  define m2 where "m2 = write_timer nt (\<lambda>_. Timer_at now) (snd (detectClockRollover now m))"
  define m3 where "m3 = m2\<lparr>tm_timers := drop (length ?e) ?ts\<rparr>"
  have run: "listExpiredCb now nt m =
      (if \<not> collects now m then ([], if ?ts = [] then m else snd (detectClockRollover now m))
       else fire_loop now (map fst ?e) [] m3)"
    using same[OF nt]
    by (auto simp: listExpiredCb_def collects_def m3_def m2_def Let_def detectClockRollover_def write_timer_def not_le not_less)
  have ord3: "set_ordered m3"
    using assms(1) by (simp add: timers_ok_def set_ordered_def m3_def drop_map[symmetric] sorted_wrt_drop)
  have act3: "active m3 b \<longleftrightarrow> active m b \<and> b \<notin> fst ` set ?e" for b
  proof -
    have "active m3 b \<longleftrightarrow> b \<in> set (map fst (drop (length ?e) ?ts))" by (simp add: active_def m3_def)
    moreover have "distinct (map fst ?e @ map fst (drop (length ?e) ?ts))" using dist split by (metis map_append)
    moreover have "active m b \<longleftrightarrow> b \<in> set (map fst ?e @ map fst (drop (length ?e) ?ts))"
      using split by (metis active_def list.set_map map_append)
    ultimately show ?thesis by auto
  qed
  have store3: "tm_store m3 b = (if b = nt then Timer_at now else tm_store m b)" for b
    by (simp add: m3_def m2_def detectClockRollover_def)
  note loop = fire_loop_spec[OF ord3 \<open>distinct (map fst ?e)\<close>, of now "[]"]
  have nF: "nt \<notin> set (map fst ?e)" using sub nt by auto
  have cbs: "map (\<lambda>a. t_cb (tm_store m3 a)) (map fst ?e) = map (\<lambda>a. t_cb (tm_store m a)) (map fst ?e)"
    using nF by (intro map_cong refl) (auto simp: store3)
  show "fst (listExpiredCb now nt m) = map (\<lambda>a. t_cb (tm_store m a)) F"
    using loop cbs by (simp add: run F)
  show "set_ordered (snd (listExpiredCb now nt m))"
    using loop assms(1) by (auto simp: run timers_ok_def set_ordered_def detectClockRollover_def)
  show "active (snd (listExpiredCb now nt m)) b \<longleftrightarrow> active m b \<and> (b \<in> set F \<longrightarrow> t_recurring (tm_store m b))"
    using loop act3[of b] nF subF store3[of b] by (auto simp: run F active_def detectClockRollover_def)
  show "b \<noteq> nt \<Longrightarrow> tm_store (snd (listExpiredCb now nt m)) b =
      (if b \<in> set F then fired now (tm_store m b) else tm_store m b)"
    using loop store3[of b] by (auto simp: run F detectClockRollover_def)
qed

lemma listExpiredCb_ok:
  assumes "timers_ok m" "\<not> active m nt"
  shows "timers_ok (snd (listExpiredCb now nt m))"
proof -
  note spec = listExpiredCb_spec[OF assms refl, where now = now]
  have "t_cb (tm_store (snd (listExpiredCb now nt m)) b) \<noteq> None" if act: "active (snd (listExpiredCb now nt m)) b" for b
  proof -
    have b: "active m b" "b \<in> set (collected now nt m) \<longrightarrow> t_recurring (tm_store m b)" using act spec(3)[of b] by auto
    then have "b \<noteq> nt" using assms(2) by auto
    then have "t_cb (tm_store (snd (listExpiredCb now nt m)) b) = t_cb (tm_store m b)"
      using spec(4)[of b] b(2) by (auto simp: fired_def)
    then show ?thesis using assms(1) b(1) by (simp add: timers_ok_def)
  qed
  then show ?thesis using spec(2) by (auto simp: timers_ok_def)
qed

section \<open>Histories\<close>

text \<open>
  The managers that sequences of operations lead to. A new timer is allocated at an address that no
  active timer has, and so is the local timer of \<open>listExpiredCb\<close>.
\<close>

inductive timer_run :: "'cb TimerManager \<Rightarrow> bool" where
  run_new: "timer_run (TimerManager_new h now)"
| run_add: "timer_run m \<Longrightarrow> \<not> active m a \<Longrightarrow> timer_run (snd (addTimer now a ms (Some cb) recurring m))"
| run_cancel: "timer_run m \<Longrightarrow> cancel a m = Inr (b, m') \<Longrightarrow> timer_run m'"
| run_refresh: "timer_run m \<Longrightarrow> timer_run (snd (refresh now a m))"
| run_reset: "timer_run m \<Longrightarrow> timer_run (snd (snd (reset now a ms from_now m)))"
| run_getNextTimer: "timer_run m \<Longrightarrow> timer_run (snd (getNextTimer now m))"
| run_listExpiredCb: "timer_run m \<Longrightarrow> \<not> active m nt \<Longrightarrow> timer_run (snd (listExpiredCb now nt m))"

lemma timer_run_ok: "timer_run m \<Longrightarrow> timers_ok m"
proof (induction rule: timer_run.induct)
  case (run_getNextTimer m now)
  then show ?case
    by (simp add: timers_ok_def getNextTimer_def set_ordered_def active_def split: list.split)
qed (simp_all add: new_ok addTimer_ok cancel_ok refresh_ok reset_ok listExpiredCb_ok)

text \<open>
  After any sequence of operations on a timer manager, by any threads, the active timers are kept in
  strictly increasing order of their addresses, so that each is in the set once, and every one of
  them still has its callback.\<close>

theorem timer_invariant:
  assumes "timer_run m"
  shows "sorted_wrt (<) (map fst (tm_timers m)) \<and> (\<forall>a. active m a \<longrightarrow> t_cb (tm_store m a) \<noteq> None)"
  using timer_run_ok[OF assms] by (simp add: timers_ok_def set_ordered_def)

definition two_timers :: "nat TimerManager" where
  "two_timers = snd (addTimer 0 20 10 (Some 2) False (snd (addTimer 0 10 90 (Some 1) True
     (TimerManager_new (\<lambda>_. Timer_at 0) 0))))"

lemma two_timers_run: "timer_run two_timers"
proof -
  have "timer_run (snd (addTimer 0 10 90 (Some 1) True (TimerManager_new (\<lambda>_. Timer_at 0) 0)))"
    by (intro run_add run_new) (simp add: active_def TimerManager_new_def)
  moreover have "\<not> active (snd (addTimer 0 10 90 (Some 1) True (TimerManager_new (\<lambda>_. Timer_at 0) 0))) 20"
    by (simp add: active_def addTimer_def insertTimer_def set_insert_def Let_def write_timer_def TimerManager_new_def)
  ultimately show ?thesis unfolding two_timers_def by (rule run_add)
qed

theorem timer_invariant_witness: "sorted_wrt (<) (map fst (tm_timers two_timers))"
  using timer_invariant[OF two_timers_run] by blast

lemma expiry_effect_parts:
  assumes "timer_run m" "\<not> active m nt"
  shows "fst (listExpiredCb now nt m) = map (\<lambda>a. t_cb (tm_store m a)) (collected now nt m)"
    and "distinct (collected now nt m) \<and> set (collected now nt m) \<subseteq> {a. active m a}"
    and "active (snd (listExpiredCb now nt m)) b \<longleftrightarrow>
      active m b \<and> (b \<in> set (collected now nt m) \<longrightarrow> t_recurring (tm_store m b))"
    and "active m b \<Longrightarrow> tm_store (snd (listExpiredCb now nt m)) b =
      (if b \<notin> set (collected now nt m) then tm_store m b
       else if t_recurring (tm_store m b) then (tm_store m b)\<lparr>t_next := now + t_ms (tm_store m b)\<rparr>
       else (tm_store m b)\<lparr>t_cb := None\<rparr>)"
proof -
  note spec = listExpiredCb_spec[OF timer_run_ok[OF assms(1)] assms(2) refl, where now = now]
  show "fst (listExpiredCb now nt m) = map (\<lambda>a. t_cb (tm_store m a)) (collected now nt m)" by (rule spec(1))
  show "distinct (collected now nt m) \<and> set (collected now nt m) \<subseteq> {a. active m a}" using spec(5,6) by blast
  show "active (snd (listExpiredCb now nt m)) b \<longleftrightarrow>
      active m b \<and> (b \<in> set (collected now nt m) \<longrightarrow> t_recurring (tm_store m b))" by (rule spec(3))
  show "active m b \<Longrightarrow> tm_store (snd (listExpiredCb now nt m)) b =
      (if b \<notin> set (collected now nt m) then tm_store m b
       else if t_recurring (tm_store m b) then (tm_store m b)\<lparr>t_next := now + t_ms (tm_store m b)\<rparr>
       else (tm_store m b)\<lparr>t_cb := None\<rparr>)"
    using spec(4)[of b] assms(2) by (cases "b = nt") (auto simp: fired_def)
qed



section \<open>The order ignores the deadlines\<close>

lemma deadlines_ignored_parts:
  assumes "timer_run m" "active m a" "\<forall>b. active m b \<longrightarrow> a \<le> b"
    and "\<not> active m nt" "tm_previousTime m \<le> now"
  shows "now < t_next (tm_store m a) \<Longrightarrow> fst (listExpiredCb now nt m) = []"
    and "t_next (tm_store m a) \<le> now \<Longrightarrow> active m b \<Longrightarrow> b < nt \<Longrightarrow>
      t_cb (tm_store m b) \<in> set (fst (listExpiredCb now nt m))"
    and "now \<le> t_next (tm_store m a) \<Longrightarrow> fst (getNextTimer now m) = t_next (tm_store m a) - now"
proof -
  note ok = timer_run_ok[OF assms(1)]
  obtain ts where ts: "tm_timers m = (a, ()) # ts"
  proof (cases "tm_timers m")
    case Nil
    then show ?thesis using assms(2) by (simp add: active_def)
  next
    case (Cons e ts)
    have "active m (fst e)" by (simp add: active_def Cons)
    then have "a \<le> fst e" using assms(3) by blast
    moreover have "fst e \<le> a" using ok assms(2) by (auto simp: timers_ok_def set_ordered_def active_def Cons)
    ultimately show ?thesis using that[of ts] Cons by (cases e) auto
  qed
  have roll: "\<not> fst (detectClockRollover now m)" using assms(5) by (auto simp: detectClockRollover_def)
  note spec = listExpiredCb_spec(1)[OF ok assms(4) refl, where now = now]
  show "now < t_next (tm_store m a) \<Longrightarrow> fst (listExpiredCb now nt m) = []"
    using roll ts by (simp add: spec collected_def collects_def)
  show "now \<le> t_next (tm_store m a) \<Longrightarrow> fst (getNextTimer now m) = t_next (tm_store m a) - now"
    using ts by (auto simp: getNextTimer_def)
  assume due: "t_next (tm_store m a) \<le> now" and b: "active m b" "b < nt"
  have "b \<in> set (map fst (takeWhile (\<lambda>e. fst e < nt) (tm_timers m)))"
  proof -
    have "b \<in> set (takeWhile (\<lambda>x. x < nt) xs)" if "sorted_wrt (<) xs" "b \<in> set xs" for xs :: "addr list"
      using that b(2) by (induction xs) auto
    then have "b \<in> set (takeWhile (\<lambda>x. x < nt) (map fst (tm_timers m)))"
      using ok b(1) by (auto simp: timers_ok_def set_ordered_def active_def)
    then show ?thesis by (simp add: takeWhile_map comp_def)
  qed
  then have "b \<in> set (collected now nt m)"
    using roll due ts by (auto simp: collected_def collects_def expired_part_def Let_def Comparator_addr)
  then show "t_cb (tm_store m b) \<in> set (fst (listExpiredCb now nt m))" by (simp add: spec)
qed

text \<open>
  Because the comparator compares the deadline of its left operand with itself, the set is ordered by
  address alone. Without a clock rollover, an expired timer is not collected while the timer of the
  lowest address is not due; once that timer is due, every timer whose address is below
  that of the local timer is collected, whatever its deadline; and \<open>getNextTimer\<close> tells the time until the
  deadline of the timer with the lowest address, not until the next deadline.\<close>

theorem deadlines_ignored:
  assumes "timer_run m" "active m a" "\<forall>b. active m b \<longrightarrow> a \<le> b"
    and "\<not> active m nt" "tm_previousTime m \<le> now"
  shows "(now < t_next (tm_store m a) \<longrightarrow> (fst (listExpiredCb now nt m) = [])) \<and>
    (t_next (tm_store m a) \<le> now \<longrightarrow> active m b \<longrightarrow> b < nt \<longrightarrow> (t_cb (tm_store m b) \<in> set (fst (listExpiredCb now nt m)))) \<and>
    (now \<le> t_next (tm_store m a) \<longrightarrow> (fst (getNextTimer now m) = t_next (tm_store m a) - now))"
  using deadlines_ignored_parts(1)[OF assms] deadlines_ignored_parts(2)[OF assms] deadlines_ignored_parts(3)[OF assms] by blast

theorem deadlines_ignored_witness:
  "t_next (tm_store two_timers 20) = 10 \<and> fst (listExpiredCb 50 30 two_timers) = []"
proof -
  have "active two_timers 10" "\<not> active two_timers 30" "tm_previousTime two_timers \<le> 50"
    "50 < t_next (tm_store two_timers 10)" "t_next (tm_store two_timers 20) = 10"
    "map fst (tm_timers two_timers) = [10, 20]"
    unfolding active_def by code_simp+
  moreover have "\<forall>b. active two_timers b \<longrightarrow> 10 \<le> b"
  proof (intro allI impI)
    fix b
    assume "active two_timers b"
    then have "b \<in> set (map fst (tm_timers two_timers))" by (simp add: active_def)
    then show "10 \<le> b" unfolding \<open>map fst (tm_timers two_timers) = [10, 20]\<close> by auto
  qed
  ultimately show ?thesis using deadlines_ignored[OF two_timers_run, of 10 30 50] by blast
qed

text \<open>
  A second \<open>cancel\<close> of the same timer is undefined: the first one leaves the callback set, so the
  second erases the end iterator of the set.\<close>

theorem cancel_twice:
  assumes "timer_run m" "cancel a m = Inr (True, m')"
  shows "\<not> active m' a \<and> cancel a m' = Inl Bad_access"
proof -
  have ord: "set_ordered m" using timer_run_ok[OF assms(1)] by (simp add: timers_ok_def)
  have "t_cb (tm_store m a) \<noteq> None" "m' = set_erase a m" using assms(2) by (auto simp: cancel_def split: if_splits)
  then show ?thesis
    using set_erase_props[OF ord, of a] set_find_active[of m' a] by (simp add: cancel_def)
qed

theorem cancel_twice_witness: "\<exists>m'. cancel 20 two_timers = Inr (True, m') \<and> cancel 20 m' = Inl Bad_access"
proof -
  have "t_cb (tm_store two_timers 20) \<noteq> None" "set_find two_timers 20" by code_simp+
  then have "cancel 20 two_timers = Inr (True, set_erase 20 two_timers)" by (simp add: cancel_def)
  then show ?thesis using cancel_twice[OF two_timers_run] by blast
qed

end
