(* ===== verification/IOManager.thy ===== *)
theory IOManager
  imports Scheduler Timer
begin

text \<open>
  The event manager of \<open>iomanager.h\<close> and \<open>iomanager.cc\<close>: the contexts of the file descriptors, adding,
  deleting, cancelling and triggering of events, and the idle loop around \<open>epoll_wait\<close>. The system
  calls are the operating system's: the result of \<open>epoll_ctl\<close>, the events that \<open>epoll_wait\<close> reports and
  the calling thread's scheduler and fiber are arguments. A scheduled task is recorded together with the
  scheduler it goes to.
\<close>

section \<open>State\<close>

datatype io_fault = Assert_failed | Null_pointer | Out_of_bounds

type_synonym 'a io = "io_fault + 'a"

definition bindi :: "'a io \<Rightarrow> ('a \<Rightarrow> 'b io) \<Rightarrow> 'b io" where
  "bindi m f = (case m of Inl e \<Rightarrow> Inl e | Inr x \<Rightarrow> f x)"

lemma bindi_simps [simp]: "bindi (Inl e) f = Inl e" "bindi (Inr x) f = f x"
  by (simp_all add: bindi_def)

lemma bindi_Inr [success_iff]: "bindi m f = Inr y \<longleftrightarrow> (\<exists>x. m = Inr x \<and> f x = Inr y)"
  by (cases m) auto

definition check :: "bool \<Rightarrow> io_fault \<Rightarrow> unit io" where
  "check b e = (if b then Inr () else Inl e)"

type_synonym event = u32

definition EV_NONE :: event where "EV_NONE = 0"
definition EV_READ :: event where "EV_READ = 1"
definition EV_WRITE :: event where "EV_WRITE = 4"

record 'cb EventContext =
  ec_scheduler :: "nat option"
  ec_fiber :: "nat option"
  ec_cb :: "'cb option"

definition empty_context :: "'cb EventContext" where
  "empty_context = \<lparr>ec_scheduler = None, ec_fiber = None, ec_cb = None\<rparr>"

record 'cb FdContext =
  fc_read :: "'cb EventContext"
  fc_write :: "'cb EventContext"
  fc_fd :: nat
  fc_events :: event

record 'cb IOManager =
  io_contexts :: "'cb FdContext list"
  io_pending :: u64
  io_scheduled :: "(nat \<times> 'cb ScheduleTask) list"

section \<open>Contexts\<close>

definition new_context :: "nat \<Rightarrow> 'cb FdContext" where
  "new_context i = \<lparr>fc_read = empty_context, fc_write = empty_context, fc_fd = i, fc_events = EV_NONE\<rparr>"

text \<open>
  \<open>m_fdContexts.resize(size)\<close> also shrinks the vector. New entries get a context; all entries that were
  there have one already.
\<close>

definition contextResize :: "nat \<Rightarrow> 'cb IOManager \<Rightarrow> 'cb IOManager" where
  "contextResize n m = m\<lparr>io_contexts := take n (io_contexts m) @ map new_context [length (io_contexts m)..<n]\<rparr>"

definition getEventContext :: "event \<Rightarrow> 'cb FdContext \<Rightarrow> 'cb EventContext io" where
  "getEventContext ev c =
     (if ev = EV_READ then Inr (fc_read c) else if ev = EV_WRITE then Inr (fc_write c) else Inl Assert_failed)"

definition setEventContext :: "event \<Rightarrow> 'cb EventContext \<Rightarrow> 'cb FdContext \<Rightarrow> 'cb FdContext" where
  "setEventContext ev x c = (if ev = EV_READ then c\<lparr>fc_read := x\<rparr> else c\<lparr>fc_write := x\<rparr>)"

definition resetEventContext :: "event \<Rightarrow> 'cb FdContext \<Rightarrow> 'cb FdContext" where
  "resetEventContext ev c = setEventContext ev empty_context c"

definition put_context :: "nat \<Rightarrow> 'cb FdContext \<Rightarrow> 'cb IOManager \<Rightarrow> 'cb IOManager" where
  "put_context fd c m = m\<lparr>io_contexts := (io_contexts m)[fd := c]\<rparr>"

definition triggerEvent :: "nat \<Rightarrow> event \<Rightarrow> 'cb IOManager \<Rightarrow> 'cb IOManager io" where
  "triggerEvent fd ev m =
     (let c = io_contexts m ! fd
      in bindi (check (fc_events c AND ev \<noteq> 0) Assert_failed) (\<lambda>_.
         let c1 = c\<lparr>fc_events := fc_events c AND NOT ev\<rparr>
         in bindi (getEventContext ev c1) (\<lambda>x.
            bindi (check (ec_scheduler x \<noteq> None) Null_pointer) (\<lambda>_.
            let task = \<lparr>tk_fiber = (if ec_cb x \<noteq> None then None else ec_fiber x), tk_cb = ec_cb x, tk_thread = - 1\<rparr>
            in Inr (put_context fd (resetEventContext ev c1)
                  (m\<lparr>io_scheduled := io_scheduled m @ [(the (ec_scheduler x), task)]\<rparr>))))))"

section \<open>Operations\<close>

text \<open>
  \<open>rt\<close> is the result of \<open>epoll_ctl\<close>, \<open>sched\<close> the scheduler of the calling thread, \<open>fiber\<close> and \<open>fstate\<close> its
  current fiber and that fiber's state. The descriptor is a natural number; the source does not check for
  negative ones.
\<close>

definition addEvent ::
    "int \<Rightarrow> nat option \<Rightarrow> nat \<Rightarrow> FiberState \<Rightarrow> nat \<Rightarrow> event \<Rightarrow> 'cb option \<Rightarrow> 'cb IOManager \<Rightarrow> (int \<times> 'cb IOManager) io" where
  "addEvent rt sched fiber fstate fd ev cb m0 =
     (let m = (if length (io_contexts m0) > fd then m0 else contextResize (fd * 3 div 2) m0)
      in bindi (check (fd < length (io_contexts m)) Out_of_bounds) (\<lambda>_.
         let c = io_contexts m ! fd
         in bindi (check (fc_events c AND ev = 0) Assert_failed) (\<lambda>_.
            if rt \<noteq> 0 then Inr (- 1, m)
            else let c1 = c\<lparr>fc_events := fc_events c OR ev\<rparr>
                 in bindi (getEventContext ev c1) (\<lambda>x.
                    bindi (check (ec_scheduler x = None \<and> ec_fiber x = None \<and> ec_cb x = None) Assert_failed) (\<lambda>_.
                    bindi (check (cb \<noteq> None \<or> fstate = Fiber_RUNNING) Assert_failed) (\<lambda>_.
                    let x1 = \<lparr>ec_scheduler = sched, ec_fiber = (if cb \<noteq> None then None else Some fiber), ec_cb = cb\<rparr>
                    in Inr (0, put_context fd (setEventContext ev x1 c1) (m\<lparr>io_pending := io_pending m + 1\<rparr>))))))))"

text \<open>\<open>delEvent\<close> computes the remaining events for \<open>epoll_ctl\<close> but does not store them.\<close>

definition delEvent :: "int \<Rightarrow> nat \<Rightarrow> event \<Rightarrow> 'cb IOManager \<Rightarrow> (bool \<times> 'cb IOManager) io" where
  "delEvent rt fd ev m =
     (if length (io_contexts m) \<le> fd then Inr (False, m)
      else let c = io_contexts m ! fd
           in if fc_events c AND ev = 0 then Inr (False, m)
              else if rt \<noteq> 0 then Inr (False, m)
              else bindi (getEventContext ev c) (\<lambda>_.
                   Inr (True, put_context fd (resetEventContext ev c) (m\<lparr>io_pending := io_pending m - 1\<rparr>))))"

definition cancelEvent :: "int \<Rightarrow> nat \<Rightarrow> event \<Rightarrow> 'cb IOManager \<Rightarrow> (bool \<times> 'cb IOManager) io" where
  "cancelEvent rt fd ev m =
     (if length (io_contexts m) \<le> fd then Inr (False, m)
      else let c = io_contexts m ! fd
           in if fc_events c AND ev = 0 then Inr (False, m)
              else if rt \<noteq> 0 then Inr (False, m)
              else bindi (triggerEvent fd ev m) (\<lambda>m1. Inr (True, m1\<lparr>io_pending := io_pending m1 - 1\<rparr>)))"

text \<open>\<open>if (...) { triggerEvent(ev); --m_pendingEventCount; }\<close>.\<close>

definition trigger_if :: "bool \<Rightarrow> nat \<Rightarrow> event \<Rightarrow> 'cb IOManager \<Rightarrow> 'cb IOManager io" where
  "trigger_if b fd ev m =
     (if b then bindi (triggerEvent fd ev m) (\<lambda>m1. Inr (m1\<lparr>io_pending := io_pending m1 - 1\<rparr>)) else Inr m)"

definition cancelAll :: "int \<Rightarrow> nat \<Rightarrow> 'cb IOManager \<Rightarrow> (bool \<times> 'cb IOManager) io" where
  "cancelAll rt fd m =
     (if length (io_contexts m) \<le> fd then Inr (False, m)
      else if fc_events (io_contexts m ! fd) = 0 then Inr (False, m)
      else if rt \<noteq> 0 then Inr (False, m)
      else bindi (trigger_if (fc_events (io_contexts m ! fd) AND EV_READ \<noteq> 0) fd EV_READ m) (\<lambda>m1.
           bindi (trigger_if (fc_events (io_contexts m1 ! fd) AND EV_WRITE \<noteq> 0) fd EV_WRITE m1) (\<lambda>m2.
           bindi (check (fc_events (io_contexts m2 ! fd) = 0) Assert_failed) (\<lambda>_. Inr (True, m2)))))"

section \<open>The idle loop\<close>

definition EPOLLIN :: u32 where "EPOLLIN = 1"
definition EPOLLOUT :: u32 where "EPOLLOUT = 4"
definition EPOLLERR :: u32 where "EPOLLERR = 8"
definition EPOLLHUP :: u32 where "EPOLLHUP = 16"

definition MAX_TIMEOUT :: int where "MAX_TIMEOUT = 5000"

text \<open>The timeout handed to \<open>epoll_wait\<close>: the casts to \<open>int\<close> keep the low 32 bits.\<close>

definition wait_timeout :: "u64 \<Rightarrow> int" where
  "wait_timeout next_timeout =
     (let t = (if next_timeout \<noteq> - 1 then word_of_int (min (sint (ucast next_timeout :: u32)) MAX_TIMEOUT)
               else word_of_int MAX_TIMEOUT :: u64)
      in sint (ucast t :: u32))"

definition real_events :: "u32 \<Rightarrow> event \<Rightarrow> event" where
  "real_events reported events =
     (let r = (if reported AND (EPOLLERR OR EPOLLHUP) \<noteq> 0 then reported OR ((EPOLLIN OR EPOLLOUT) AND events) else reported)
      in (if r AND EPOLLIN \<noteq> 0 then EV_READ else EV_NONE) OR (if r AND EPOLLOUT \<noteq> 0 then EV_WRITE else EV_NONE))"

text \<open>The handling of one reported event that is not the tickle pipe.\<close>

definition handle_event :: "int \<Rightarrow> nat \<Rightarrow> u32 \<Rightarrow> 'cb IOManager \<Rightarrow> 'cb IOManager io" where
  "handle_event rt2 fd reported m =
     (let real = real_events reported (fc_events (io_contexts m ! fd))
      in if fc_events (io_contexts m ! fd) AND real = EV_NONE then Inr m
         else if rt2 \<noteq> 0 then Inr m
         else bindi (trigger_if (real AND EV_READ \<noteq> 0) fd EV_READ m) (\<lambda>m1.
              trigger_if (real AND EV_WRITE \<noteq> 0) fd EV_WRITE m1))"

text \<open>
  One round of the loop after \<open>epoll_wait\<close> returned: the callbacks \<open>cbs\<close> of the expired timers are scheduled on
  this scheduler, then the reported events are handled in order. A report of the tickle pipe is \<open>None\<close>; the
  result of \<open>epoll_ctl\<close> belongs to each other report.
\<close>

fun handle_events :: "(nat \<times> u32 \<times> int) option list \<Rightarrow> 'cb IOManager \<Rightarrow> 'cb IOManager io" where
  "handle_events [] m = Inr m"
| "handle_events (None # rs) m = handle_events rs m"
| "handle_events (Some (fd, reported, rt2) # rs) m = bindi (handle_event rt2 fd reported m) (handle_events rs)"

definition idle_round :: "nat \<Rightarrow> 'cb list \<Rightarrow> (nat \<times> u32 \<times> int) option list \<Rightarrow> 'cb IOManager \<Rightarrow> 'cb IOManager io" where
  "idle_round self cbs reports m =
     handle_events reports (m\<lparr>io_scheduled := io_scheduled m @
       map (\<lambda>cb. (self, \<lparr>tk_fiber = None, tk_cb = Some cb, tk_thread = - 1\<rparr>)) cbs\<rparr>)"

text \<open>The decision to leave the idle loop, with the result of \<open>getNextTimer\<close>.\<close>

definition IOManager_stopping :: "u64 \<Rightarrow> 'cb IOManager \<Rightarrow> 'cb Scheduler \<Rightarrow> bool" where
  "IOManager_stopping timeout m s \<longleftrightarrow> timeout = - 1 \<and> io_pending m = 0 \<and> stopping s"

text \<open>Whether \<open>tickle\<close> writes to the pipe.\<close>

definition IOManager_tickle :: "'cb Scheduler \<Rightarrow> bool" where
  "IOManager_tickle s = hasIdleThreads s"

definition IOManager_new :: "'cb IOManager" where
  "IOManager_new = contextResize 32 \<lparr>io_contexts = [], io_pending = 0, io_scheduled = []\<rparr>"

section \<open>Invariant\<close>

text \<open>A registered event has a scheduler and either a callback or a fiber, an unregistered one has an empty context.\<close>

definition waiting_ok :: "'cb EventContext \<Rightarrow> bool \<Rightarrow> bool" where
  "waiting_ok x registered \<longleftrightarrow>
     (if registered then ec_scheduler x \<noteq> None \<and> (ec_cb x = None \<longleftrightarrow> ec_fiber x \<noteq> None) else x = empty_context)"

definition context_ok :: "'cb FdContext \<Rightarrow> bool" where
  "context_ok c \<longleftrightarrow> fc_events c \<in> {0, 1, 4, 5} \<and>
     waiting_ok (fc_read c) (fc_events c AND EV_READ \<noteq> 0) \<and> waiting_ok (fc_write c) (fc_events c AND EV_WRITE \<noteq> 0)"

definition n_events :: "'cb FdContext \<Rightarrow> nat" where
  "n_events c = (if fc_events c AND EV_READ \<noteq> 0 then 1 else 0) + (if fc_events c AND EV_WRITE \<noteq> 0 then 1 else 0)"

definition io_inv :: "'cb IOManager \<Rightarrow> bool" where
  "io_inv m \<longleftrightarrow> (\<forall>c \<in> set (io_contexts m). context_ok c) \<and>
     unat (io_pending m) = sum_list (map n_events (io_contexts m)) \<and>
     32 \<le> length (io_contexts m) \<and> length (io_contexts m) < 2 ^ 32"

lemma n_events_le: "n_events c \<le> 2"
  by (simp add: n_events_def)

lemma sum_events_le: "sum_list (map n_events cs) \<le> 2 * length cs"
proof (induction cs)
  case (Cons a cs)
  then show ?case using n_events_le[of a] by simp
qed simp

lemma io_inv_context: "io_inv m \<Longrightarrow> fd < length (io_contexts m) \<Longrightarrow> context_ok (io_contexts m ! fd)"
  by (simp add: io_inv_def)

lemma sum_events_put:
  "fd < length cs \<Longrightarrow> sum_list (map n_events (cs[fd := c])) + n_events (cs ! fd) = sum_list (map n_events cs) + n_events c"
proof -
  assume fd: "fd < length cs"
  have "n_events (cs ! fd) \<le> sum_list (map n_events cs)" using fd by (intro member_le_sum_list) auto
  then show ?thesis using fd by (simp add: map_update sum_list_update)
qed

lemma put_inv:
  assumes inv: "io_inv m" and fd: "fd < length (io_contexts m)" and c: "context_ok c"
    and n: "unat n + n_events (io_contexts m ! fd) = unat (io_pending m) + n_events c"
  shows "io_inv (put_context fd c (m\<lparr>io_pending := n, io_scheduled := l\<rparr>))" "io_inv (put_context fd c (m\<lparr>io_pending := n\<rparr>))"
proof -
  have "\<forall>x \<in> set ((io_contexts m)[fd := c]). context_ok x"
    using inv c set_update_subset_insert[of "io_contexts m" fd c] by (auto simp: io_inv_def)
  then show "io_inv (put_context fd c (m\<lparr>io_pending := n, io_scheduled := l\<rparr>))" "io_inv (put_context fd c (m\<lparr>io_pending := n\<rparr>))"
    using inv sum_events_put[OF fd, of c] n by (auto simp: io_inv_def put_context_def)
qed

lemma context_cases:
  assumes "context_ok c"
  obtains "fc_events c = 0" | "fc_events c = 1" | "fc_events c = 4" | "fc_events c = 5"
  using assms by (auto simp: context_ok_def)

definition event_ok :: "event \<Rightarrow> bool" where
  "event_ok ev \<longleftrightarrow> ev = EV_READ \<or> ev = EV_WRITE"

lemmas event_defs = EV_READ_def EV_WRITE_def EV_NONE_def

lemma getEventContext_ok: "event_ok ev \<Longrightarrow> \<exists>x. getEventContext ev c = Inr x"
  by (auto simp: event_ok_def getEventContext_def)

definition context_at :: "event \<Rightarrow> 'cb FdContext \<Rightarrow> 'cb EventContext" where
  "context_at ev c = (if ev = EV_READ then fc_read c else fc_write c)"

definition waiting_task :: "'cb EventContext \<Rightarrow> 'cb ScheduleTask" where
  "waiting_task x = \<lparr>tk_fiber = (if ec_cb x \<noteq> None then None else ec_fiber x), tk_cb = ec_cb x, tk_thread = - 1\<rparr>"

definition triggered :: "event \<Rightarrow> 'cb FdContext \<Rightarrow> 'cb FdContext" where
  "triggered ev c = resetEventContext ev (c\<lparr>fc_events := fc_events c AND NOT ev\<rparr>)"

lemma trigger_eq:
  assumes "io_inv m" "fd < length (io_contexts m)" "event_ok ev" "fc_events (io_contexts m ! fd) AND ev \<noteq> 0"
  shows "\<exists>s. ec_scheduler (context_at ev (io_contexts m ! fd)) = Some s \<and>
    triggerEvent fd ev m = Inr (put_context fd (triggered ev (io_contexts m ! fd))
      (m\<lparr>io_scheduled := io_scheduled m @ [(s, waiting_task (context_at ev (io_contexts m ! fd)))]\<rparr>))"
  using io_inv_context[OF assms(1,2)] assms(3,4)
  by (auto simp: triggerEvent_def Let_def check_def getEventContext_def context_ok_def waiting_ok_def event_ok_def
      context_at_def triggered_def waiting_task_def event_defs)

lemma triggered_ok:
  assumes "context_ok c" "event_ok ev" "fc_events c AND ev \<noteq> 0"
  shows "context_ok (triggered ev c)" "Suc (n_events (triggered ev c)) = n_events c"
    "fc_events (triggered ev c) = fc_events c AND NOT ev"
  using assms(2,3)
  by (cases rule: context_cases[OF assms(1)]; use assms(1) in \<open>auto simp: context_ok_def triggered_def n_events_def
      resetEventContext_def setEventContext_def event_ok_def event_defs waiting_ok_def\<close>)+

lemma pending_pos:
  assumes "io_inv m" "fd < length (io_contexts m)" "0 < n_events (io_contexts m ! fd)"
  shows "0 < unat (io_pending m)" "unat (io_pending m - 1) = unat (io_pending m) - 1"
proof -
  have "n_events (io_contexts m ! fd) \<le> sum_list (map n_events (io_contexts m))"
    using assms(2) by (intro member_le_sum_list) auto
  then show pos: "0 < unat (io_pending m)" using assms by (simp add: io_inv_def)
  then show "unat (io_pending m - 1) = unat (io_pending m) - 1" by (metis unat_gt_0 unat_minus_one)
qed

lemma trigger_if_spec:
  assumes inv: "io_inv m" and fd: "fd < length (io_contexts m)" and ev: "event_ok ev"
    and b: "b \<Longrightarrow> fc_events (io_contexts m ! fd) AND ev \<noteq> 0"
  shows "\<exists>m1. trigger_if b fd ev m = Inr m1 \<and> io_inv m1 \<and> length (io_contexts m1) = length (io_contexts m) \<and>
    fc_events (io_contexts m1 ! fd) = (if b then fc_events (io_contexts m ! fd) AND NOT ev else fc_events (io_contexts m ! fd)) \<and>
    map snd (io_scheduled m1) = map snd (io_scheduled m) @ (if b then [waiting_task (context_at ev (io_contexts m ! fd))] else [])"
proof (cases b)
  case True
  let ?c = "io_contexts m ! fd"
  note e = b[OF True] and ok = io_inv_context[OF inv fd]
  obtain s where s: "triggerEvent fd ev m = Inr (put_context fd (triggered ev ?c)
      (m\<lparr>io_scheduled := io_scheduled m @ [(s, waiting_task (context_at ev ?c))]\<rparr>))"
    using trigger_eq[OF inv fd ev e] by blast
  note t = triggered_ok[OF ok ev e]
  have p: "unat (io_pending m - 1) = unat (io_pending m) - 1" "0 < unat (io_pending m)"
    using pending_pos[OF inv fd] t(2) by auto
  let ?m = "put_context fd (triggered ev ?c)
      (m\<lparr>io_pending := io_pending m - 1, io_scheduled := io_scheduled m @ [(s, waiting_task (context_at ev ?c))]\<rparr>)"
  have "io_inv ?m" using p t(2) by (intro put_inv(1)[OF inv fd t(1)]) simp
  moreover have "trigger_if b fd ev m = Inr ?m" using True s by (simp add: trigger_if_def put_context_def)
  ultimately show ?thesis using True fd t(3) by (simp add: put_context_def)
next
  case False
  then show ?thesis using inv by (simp add: trigger_if_def)
qed

lemma cancelEvent_trigger_if:
  "fd < length (io_contexts m) \<Longrightarrow> fc_events (io_contexts m ! fd) AND ev \<noteq> 0 \<Longrightarrow>
   cancelEvent 0 fd ev m = bindi (trigger_if True fd ev m) (\<lambda>m1. Inr (True, m1))"
  by (cases "triggerEvent fd ev m") (simp_all add: cancelEvent_def trigger_if_def Let_def)

lemma new_context_ok [simp]: "context_ok (new_context i)" "n_events (new_context i) = 0"
  by (simp_all add: context_ok_def new_context_def n_events_def waiting_ok_def event_defs)

lemma resize_inv:
  assumes "io_inv m" "length (io_contexts m) \<le> n" "n < 2 ^ 32"
  shows "io_inv (contextResize n m)"
  using assms by (auto simp: io_inv_def contextResize_def comp_def)

lemma getEventContext_at: "event_ok ev \<Longrightarrow> getEventContext ev c = Inr (context_at ev c)"
  by (auto simp: getEventContext_def event_ok_def context_at_def)

lemma context_at_events: "context_at ev (c\<lparr>fc_events := x\<rparr>) = context_at ev c"
  by (simp add: context_at_def)

lemma context_ok_free:
  assumes ok: "context_ok c" and ev: "event_ok ev" and free: "fc_events c AND ev = 0"
  shows "context_at ev c = empty_context"
proof (cases "ev = EV_READ")
  case True
  have "waiting_ok (fc_read c) (fc_events c AND EV_READ \<noteq> 0)" using ok unfolding context_ok_def by blast
  then have "waiting_ok (fc_read c) False" using free unfolding True by simp
  then show ?thesis unfolding True context_at_def waiting_ok_def by simp
next
  case False
  then have w: "ev = EV_WRITE" using ev by (simp add: event_ok_def)
  have "waiting_ok (fc_write c) (fc_events c AND EV_WRITE \<noteq> 0)" using ok unfolding context_ok_def by blast
  then have "waiting_ok (fc_write c) False" using free unfolding w by simp
  then show ?thesis using False unfolding context_at_def waiting_ok_def by simp
qed

lemma addEvent_spec:
  assumes inv: "io_inv m0" and ev: "event_ok ev" and fd: "fd < 2 ^ 31"
    and st: "cb = None \<longrightarrow> fstate = Fiber_RUNNING"
  shows "(\<exists>m1. addEvent rt (Some s) fiber fstate fd ev cb m0 = Inr (if rt = 0 then 0 else - 1, m1) \<and> io_inv m1 \<and>
      io_scheduled m1 = io_scheduled m0) \<or>
    addEvent rt (Some s) fiber fstate fd ev cb m0 = Inl Assert_failed \<and> fd < length (io_contexts m0) \<and>
      fc_events (io_contexts m0 ! fd) AND ev \<noteq> 0"
proof -
  define m where "m = (if length (io_contexts m0) > fd then m0 else contextResize (fd * 3 div 2) m0)"
  have big: "fd < fd * 3 div 2" if "\<not> length (io_contexts m0) > fd" using that inv unfolding io_inv_def by linarith
  have len: "fd < length (io_contexts m)" using big by (simp add: m_def contextResize_def)
  have im: "io_inv m" using inv resize_inv[OF inv, of "fd * 3 div 2"] fd big by (auto simp: m_def)
  let ?c = "io_contexts m ! fd"
  note ok = io_inv_context[OF im len]
  have sched: "io_scheduled m = io_scheduled m0" by (simp add: m_def contextResize_def)
  show ?thesis
  proof (cases "fc_events ?c AND ev = 0 \<and> rt = 0")
    case True
    let ?x = "\<lparr>ec_scheduler = Some s, ec_fiber = (if cb \<noteq> None then None else Some fiber), ec_cb = cb\<rparr>"
    let ?c1 = "setEventContext ev ?x (?c\<lparr>fc_events := fc_events ?c OR ev\<rparr>)"
    have c1: "context_ok ?c1" "n_events ?c1 = Suc (n_events ?c)"
      using True ev
      by (cases rule: context_cases[OF ok]; use ok in \<open>auto simp: context_ok_def n_events_def setEventContext_def
          event_ok_def event_defs waiting_ok_def\<close>)+
    have x0: "getEventContext ev (?c\<lparr>fc_events := fc_events ?c OR ev\<rparr>) = Inr empty_context"
      unfolding getEventContext_at[OF ev] context_at_events using context_ok_free[OF ok ev] True by blast
    have "unat (io_pending m) < 2 ^ 33" using im sum_events_le[of "io_contexts m"] by (simp add: io_inv_def)
    then have "unat (io_pending m + 1) = Suc (unat (io_pending m))" by (simp add: unat_word_ariths)
    then have "io_inv (put_context fd ?c1 (m\<lparr>io_pending := io_pending m + 1\<rparr>))"
      using c1(2) by (intro put_inv(2)[OF im len c1(1)]) simp
    moreover have "addEvent rt (Some s) fiber fstate fd ev cb m0 =
        Inr (0, put_context fd ?c1 (m\<lparr>io_pending := io_pending m + 1\<rparr>))"
      using True x0 len st unfolding addEvent_def m_def[symmetric] by (auto simp: Let_def check_def empty_context_def)
    ultimately show ?thesis using True sched by (auto simp: put_context_def)
  next
    case False
    then show ?thesis using len im sched unfolding addEvent_def m_def[symmetric]
      by (auto simp: Let_def check_def m_def contextResize_def new_context_def event_defs nth_append split: if_splits)
  qed
qed

section \<open>Histories without deletion\<close>

fun reports_within :: "nat \<Rightarrow> (nat \<times> u32 \<times> int) option list \<Rightarrow> bool" where
  "reports_within n [] \<longleftrightarrow> True"
| "reports_within n (None # rs) \<longleftrightarrow> reports_within n rs"
| "reports_within n (Some (fd, reported, rt2) # rs) \<longleftrightarrow> fd < n \<and> reports_within n rs"

inductive io_run :: "'cb IOManager \<Rightarrow> bool" where
  io_new: "io_run IOManager_new"
| io_add: "io_run m \<Longrightarrow> event_ok ev \<Longrightarrow> fd < 2 ^ 31 \<Longrightarrow> cb = None \<longrightarrow> fstate = Fiber_RUNNING \<Longrightarrow>
    addEvent rt (Some s) fiber fstate fd ev cb m = Inr (r, m') \<Longrightarrow> io_run m'"
| io_cancel: "io_run m \<Longrightarrow> event_ok ev \<Longrightarrow> cancelEvent rt fd ev m = Inr (b, m') \<Longrightarrow> io_run m'"
| io_cancelAll: "io_run m \<Longrightarrow> cancelAll rt fd m = Inr (b, m') \<Longrightarrow> io_run m'"
| io_idle: "io_run m \<Longrightarrow> reports_within (length (io_contexts m)) reports \<Longrightarrow>
    idle_round self cbs reports m = Inr m' \<Longrightarrow> io_run m'"

lemma trigger_if_inv:
  assumes "io_inv m" "fd < length (io_contexts m)" "event_ok ev" "trigger_if b fd ev m = Inr m1"
  shows "io_inv m1" "length (io_contexts m1) = length (io_contexts m)"
proof -
  have "fc_events (io_contexts m ! fd) AND ev \<noteq> 0" if b
    using assms(4) that by (auto simp: trigger_if_def success_iff triggerEvent_def Let_def check_def split: if_splits)
  then obtain m2 where "trigger_if b fd ev m = Inr m2" "io_inv m2" "length (io_contexts m2) = length (io_contexts m)"
    using trigger_if_spec[OF assms(1-3), of b] by blast
  then show "io_inv m1" "length (io_contexts m1) = length (io_contexts m)" using assms(4) by simp_all
qed

lemma event_ok_simps [simp]: "event_ok EV_READ" "event_ok EV_WRITE"
  by (simp_all add: event_ok_def)

lemma new_inv: "io_inv IOManager_new"
proof -
  have "length (io_contexts IOManager_new) = 32" by (simp add: IOManager_new_def contextResize_def)
  then show ?thesis by (simp add: io_inv_def IOManager_new_def contextResize_def comp_def)
qed

lemma cancel_inv: "io_inv m \<Longrightarrow> event_ok ev \<Longrightarrow> cancelEvent rt fd ev m = Inr (b, m') \<Longrightarrow> io_inv m'"
  using trigger_if_inv(1)[of m fd ev True m'] cancelEvent_trigger_if[of fd m ev]
  by (cases "rt = 0") (auto simp: cancelEvent_def Let_def success_iff split: if_splits)

lemma cancelAll_inv:
  assumes "io_inv m" "cancelAll rt fd m = Inr (b, m')"
  shows "io_inv m'"
proof -
  consider "m' = m" | b1 b2 m1 where "fd < length (io_contexts m)" "trigger_if b1 fd EV_READ m = Inr m1" "trigger_if b2 fd EV_WRITE m1 = Inr m'"
    using assms(2) unfolding cancelAll_def by (auto simp: success_iff split: if_splits)
  then show ?thesis
  proof cases
    case 2
    note t = trigger_if_inv[OF assms(1) 2(1) event_ok_simps(1) 2(2)]
    show ?thesis using trigger_if_inv(1)[OF t(1) _ event_ok_simps(2) 2(3)] t(2) 2(1) by simp
  qed (use assms(1) in simp)
qed

lemma handle_inv:
  assumes "io_inv m" "fd < length (io_contexts m)" "handle_event rt2 fd reported m = Inr m'"
  shows "io_inv m'"
proof -
  consider "m' = m" | b1 b2 m1 where "trigger_if b1 fd EV_READ m = Inr m1" "trigger_if b2 fd EV_WRITE m1 = Inr m'"
    using assms(3) unfolding handle_event_def Let_def by (auto simp: success_iff split: if_splits)
  then show ?thesis
  proof cases
    case 2
    note t = trigger_if_inv[OF assms(1,2) event_ok_simps(1) 2(1)]
    show ?thesis using trigger_if_inv(1)[OF t(1) _ event_ok_simps(2) 2(2)] t(2) assms(2) by simp
  qed (use assms(1) in simp)
qed

lemma trigger_if_length: "trigger_if b fd ev m = Inr m' \<Longrightarrow> length (io_contexts m') = length (io_contexts m)"
  by (auto simp: trigger_if_def triggerEvent_def success_iff Let_def put_context_def split: if_splits)

lemma handle_length: "handle_event rt2 fd reported m = Inr m' \<Longrightarrow> length (io_contexts m') = length (io_contexts m)"
  by (auto simp: handle_event_def success_iff Let_def dest!: trigger_if_length split: if_splits)

lemma handle_events_inv:
  "io_inv m \<Longrightarrow> reports_within (length (io_contexts m)) reports \<Longrightarrow>
   handle_events reports m = Inr m' \<Longrightarrow> io_inv m'"
proof (induction reports m rule: handle_events.induct)
  case (3 fd reported rt2 rs m)
  then obtain m1 where m1: "handle_event rt2 fd reported m = Inr m1" "handle_events rs m1 = Inr m'" by (auto simp: success_iff)
  have "io_inv m1" using handle_inv[OF 3(2) _ m1(1)] 3(3) by simp
  then show ?case using 3(1)[OF _ _ m1(2)] 3(3) handle_length[OF m1(1)] by simp
qed auto

lemma idle_round_inv:
  assumes "io_inv m" "reports_within (length (io_contexts m)) reports"
    and "idle_round self cbs reports m = Inr m'"
  shows "io_inv m'"
  by (rule handle_events_inv[OF _ _ assms(3)[unfolded idle_round_def]]) (use assms(1,2) in \<open>simp_all add: io_inv_def\<close>)

lemma io_run_inv: "io_run m \<Longrightarrow> io_inv m"
proof (induction rule: io_run.induct)
  case (io_add m ev fd cb fstate rt s fiber r m')
  then show ?case using addEvent_spec[OF io_add.IH io_add(2,3,4), of rt s fiber] by auto
qed (auto intro: new_inv cancel_inv cancelAll_inv idle_round_inv)

lemma io_invariant_parts:
  assumes "io_run m"
  shows "fd < length (io_contexts m) \<Longrightarrow> event_ok ev \<Longrightarrow>
      (if fc_events (io_contexts m ! fd) AND ev \<noteq> 0
       then ec_scheduler (context_at ev (io_contexts m ! fd)) \<noteq> None \<and>
            (ec_cb (context_at ev (io_contexts m ! fd)) = None \<longleftrightarrow> ec_fiber (context_at ev (io_contexts m ! fd)) \<noteq> None)
       else context_at ev (io_contexts m ! fd) = empty_context)"
    and "unat (io_pending m) = sum_list (map n_events (io_contexts m))"
proof -
  note inv = io_run_inv[OF assms]
  show "unat (io_pending m) = sum_list (map n_events (io_contexts m))" using inv by (simp add: io_inv_def)
  assume fd: "fd < length (io_contexts m)" and ev: "event_ok ev"
  note ok = io_inv_context[OF inv fd]
  have "waiting_ok (context_at ev (io_contexts m ! fd)) (fc_events (io_contexts m ! fd) AND ev \<noteq> 0)"
    using ok ev unfolding context_ok_def event_ok_def context_at_def by (elim conjE disjE) (simp_all add: event_defs)
  then show "(if fc_events (io_contexts m ! fd) AND ev \<noteq> 0
       then ec_scheduler (context_at ev (io_contexts m ! fd)) \<noteq> None \<and>
            (ec_cb (context_at ev (io_contexts m ! fd)) = None \<longleftrightarrow> ec_fiber (context_at ev (io_contexts m ! fd)) \<noteq> None)
       else context_at ev (io_contexts m ! fd) = empty_context)"
    unfolding waiting_ok_def .
qed

text \<open>
  C5: Without \<open>delEvent\<close>, after any sequence of adding and cancelling of events and rounds of the idle loop, with any results of
  the system calls: every registered event of a descriptor has a scheduler and either a callback or a
  fiber waiting for it, an event that is not registered has an empty context, and the count of
  pending events is the number of registered events.\<close>

theorem io_invariant:
  assumes "io_run m"
  shows "(fd < length (io_contexts m) \<longrightarrow> event_ok ev \<longrightarrow> ((if fc_events (io_contexts m ! fd) AND ev \<noteq> 0
       then ec_scheduler (context_at ev (io_contexts m ! fd)) \<noteq> None \<and>
            (ec_cb (context_at ev (io_contexts m ! fd)) = None \<longleftrightarrow> ec_fiber (context_at ev (io_contexts m ! fd)) \<noteq> None)
       else context_at ev (io_contexts m ! fd) = empty_context))) \<and>
    (unat (io_pending m) = sum_list (map n_events (io_contexts m)))"
  using io_invariant_parts(1)[OF assms] io_invariant_parts(2)[OF assms] by blast

definition io_example :: "nat IOManager" where
  "io_example = (case addEvent 0 (Some 1) 7 Fiber_RUNNING 5 EV_READ (Some 3) IOManager_new of Inr r \<Rightarrow> snd r)"

lemma io_example_add: "addEvent 0 (Some 1) 7 Fiber_RUNNING 5 EV_READ (Some 3) IOManager_new = Inr (0, io_example)"
proof -
  have "\<not> (fc_events (io_contexts (IOManager_new :: nat IOManager) ! 5) AND EV_READ \<noteq> 0)"
    by (simp add: IOManager_new_def contextResize_def new_context_def EV_NONE_def)
  then show ?thesis
    using addEvent_spec[OF new_inv, of EV_READ 5 "Some 3" Fiber_RUNNING 0 1 7] by (auto simp: io_example_def)
qed

lemma io_example_run: "io_run io_example"
  by (rule io_add[OF io_new _ _ _ io_example_add]) simp_all

theorem io_invariant_witness: "unat (io_pending io_example) = sum_list (map n_events (io_contexts io_example))"
  using io_invariant[OF io_example_run] by blast

lemma cancel_schedules_waiters_parts:
  assumes "io_run m" "fd < length (io_contexts m)"
  shows "event_ok ev \<Longrightarrow> fc_events (io_contexts m ! fd) AND ev \<noteq> 0 \<Longrightarrow>
      \<exists>m'. cancelEvent 0 fd ev m = Inr (True, m') \<and>
        map snd (io_scheduled m') = map snd (io_scheduled m) @ [waiting_task (context_at ev (io_contexts m ! fd))] \<and>
        fc_events (io_contexts m' ! fd) = fc_events (io_contexts m ! fd) AND NOT ev"
    and "fc_events (io_contexts m ! fd) = 5 \<Longrightarrow>
      \<exists>m'. cancelAll 0 fd m = Inr (True, m') \<and> fc_events (io_contexts m' ! fd) = 0 \<and>
        length (io_scheduled m') = length (io_scheduled m) + 2"
proof -
  note inv = io_run_inv[OF assms(1)]
  show "event_ok ev \<Longrightarrow> fc_events (io_contexts m ! fd) AND ev \<noteq> 0 \<Longrightarrow>
      \<exists>m'. cancelEvent 0 fd ev m = Inr (True, m') \<and>
        map snd (io_scheduled m') = map snd (io_scheduled m) @ [waiting_task (context_at ev (io_contexts m ! fd))] \<and>
        fc_events (io_contexts m' ! fd) = fc_events (io_contexts m ! fd) AND NOT ev"
    using trigger_if_spec[OF inv assms(2), of ev True] cancelEvent_trigger_if[OF assms(2), of ev] by auto
  assume e: "fc_events (io_contexts m ! fd) = 5"
  have bits: "5 AND EV_READ \<noteq> (0 :: u32)" "5 AND NOT EV_READ = (4 :: u32)" "4 AND EV_WRITE \<noteq> (0 :: u32)"
    "4 AND NOT EV_WRITE = (0 :: u32)" by (simp_all add: event_defs)
  obtain m1 where m1: "trigger_if True fd EV_READ m = Inr m1" "io_inv m1" "length (io_contexts m1) = length (io_contexts m)"
      "fc_events (io_contexts m1 ! fd) = 4"
      "map snd (io_scheduled m1) = map snd (io_scheduled m) @ [waiting_task (context_at EV_READ (io_contexts m ! fd))]"
    using trigger_if_spec[OF inv assms(2) event_ok_simps(1), of True] bits unfolding e by auto
  have fd1: "fd < length (io_contexts m1)" using assms(2) m1(3) by simp
  obtain m2 where m2: "trigger_if True fd EV_WRITE m1 = Inr m2" "fc_events (io_contexts m2 ! fd) = 0"
      "map snd (io_scheduled m2) = map snd (io_scheduled m1) @ [waiting_task (context_at EV_WRITE (io_contexts m1 ! fd))]"
    using trigger_if_spec[OF m1(2) fd1 event_ok_simps(2), of True] bits unfolding m1(4) by auto
  have len: "length (io_scheduled m2) = length (io_scheduled m) + 2"
    using arg_cong[OF m1(5), of length] arg_cong[OF m2(3), of length] by simp
  have "cancelAll 0 fd m = Inr (True, m2)"
    using assms(2) e m1(1,4) m2(1,2) bits by (simp add: cancelAll_def check_def)
  then show "\<exists>m'. cancelAll 0 fd m = Inr (True, m') \<and> fc_events (io_contexts m' ! fd) = 0 \<and>
        length (io_scheduled m') = length (io_scheduled m) + 2"
    using m2(2) len by simp
qed

text \<open>
  Cancelling always succeeds without failing an assertion when the system call does: \<open>cancelEvent\<close> of a
  registered event schedules exactly the callback or fiber that waits for it and unregisters the event,
  \<open>cancelAll\<close> schedules the waiting reader and then the waiting writer and leaves no event registered.\<close>

theorem cancel_schedules_waiters:
  assumes "io_run m" "fd < length (io_contexts m)"
  shows "(event_ok ev \<longrightarrow> fc_events (io_contexts m ! fd) AND ev \<noteq> 0 \<longrightarrow> (\<exists>m'. cancelEvent 0 fd ev m = Inr (True, m') \<and>
        map snd (io_scheduled m') = map snd (io_scheduled m) @ [waiting_task (context_at ev (io_contexts m ! fd))] \<and>
        fc_events (io_contexts m' ! fd) = fc_events (io_contexts m ! fd) AND NOT ev)) \<and>
    (fc_events (io_contexts m ! fd) = 5 \<longrightarrow> (\<exists>m'. cancelAll 0 fd m = Inr (True, m') \<and> fc_events (io_contexts m' ! fd) = 0 \<and>
        length (io_scheduled m') = length (io_scheduled m) + 2))"
  using cancel_schedules_waiters_parts(1)[OF assms] cancel_schedules_waiters_parts(2)[OF assms] by blast

lemma io_example_eq:
  "io_example = put_context 5 ((new_context 5)\<lparr>fc_events := EV_READ,
      fc_read := \<lparr>ec_scheduler = Some 1, ec_fiber = None, ec_cb = Some 3\<rparr>\<rparr>) (IOManager_new\<lparr>io_pending := 1\<rparr>)"
  by (simp add: io_example_def addEvent_def check_def getEventContext_def setEventContext_def IOManager_new_def
      contextResize_def new_context_def empty_context_def EV_NONE_def Let_def put_context_def)

lemma io_example_context:
  "5 < length (io_contexts io_example)" "fc_events (io_contexts io_example ! 5) = EV_READ"
  "context_at EV_READ (io_contexts io_example ! 5) = \<lparr>ec_scheduler = Some 1, ec_fiber = None, ec_cb = Some 3\<rparr>"
  by (simp_all add: io_example_eq put_context_def IOManager_new_def contextResize_def context_at_def)

lemma EV_READ_self: "EV_READ AND EV_READ \<noteq> 0"
  by (simp add: EV_READ_def)

theorem cancel_schedules_waiters_witness:
  "\<exists>m'. cancelEvent 0 5 EV_READ io_example = Inr (True, m') \<and>
     map snd (io_scheduled m') = map snd (io_scheduled io_example) @ [\<lparr>tk_fiber = None, tk_cb = Some 3, tk_thread = - 1\<rparr>]"
  using cancel_schedules_waiters[OF io_example_run io_example_context(1), of EV_READ, THEN conjunct1] EV_READ_self
  unfolding io_example_context(2,3) by (auto simp: waiting_task_def)

section \<open>Deletion\<close>

lemma delEvent_leaves_event_parts:
  assumes "io_run m" "fd < length (io_contexts m)" "event_ok ev" "delEvent 0 fd ev m = Inr (True, m')"
  shows "addEvent rt s fiber fstate fd ev cb m' = Inl Assert_failed"
    and "triggerEvent fd ev m' = Inl Null_pointer"
proof -
  let ?c = "io_contexts m ! fd"
  have e: "fc_events ?c AND ev \<noteq> 0"
    using assms(2,4) by (auto simp: delEvent_def Let_def split: if_splits)
  have m': "m' = put_context fd (resetEventContext ev ?c) (m\<lparr>io_pending := io_pending m - 1\<rparr>)"
    using assms(2,4) e unfolding delEvent_def Let_def getEventContext_at[OF assms(3)] by simp
  have c: "io_contexts m' ! fd = resetEventContext ev ?c" "length (io_contexts m') = length (io_contexts m)"
    using assms(2) by (simp_all add: m' put_context_def)
  have ev: "fc_events (resetEventContext ev ?c) = fc_events ?c" "context_at ev (resetEventContext ev ?c) = empty_context"
    using assms(3) by (auto simp: resetEventContext_def setEventContext_def context_at_def event_ok_def event_defs)
  show "addEvent rt s fiber fstate fd ev cb m' = Inl Assert_failed"
    using e assms(2) c ev(1) by (simp add: addEvent_def Let_def check_def)
  show "triggerEvent fd ev m' = Inl Null_pointer"
    using e c ev unfolding triggerEvent_def Let_def getEventContext_at[OF assms(3)] context_at_events
    by (simp add: check_def empty_context_def)
qed

text \<open>
  \<open>delEvent\<close> leaves the event registered although it clears the event's context: when it has succeeded,
  adding the same event again fails an assertion, and if the event is reported once more the null scheduler
  of the cleared context is used.\<close>

theorem delEvent_leaves_event:
  assumes "io_run m" "fd < length (io_contexts m)" "event_ok ev" "delEvent 0 fd ev m = Inr (True, m')"
  shows "(addEvent rt s fiber fstate fd ev cb m' = Inl Assert_failed) \<and>
    (triggerEvent fd ev m' = Inl Null_pointer)"
  using delEvent_leaves_event_parts(1)[OF assms] delEvent_leaves_event_parts(2)[OF assms] by blast

theorem delEvent_leaves_event_witness:
  "\<exists>m'. delEvent 0 5 EV_READ io_example = Inr (True, m') \<and> triggerEvent 5 EV_READ m' = Inl Null_pointer"
proof -
  have "\<exists>m'. delEvent 0 5 EV_READ io_example = Inr (True, m')"
    using io_example_context(1) EV_READ_self by (simp add: delEvent_def Let_def getEventContext_def io_example_context(2))
  then show ?thesis using delEvent_leaves_event[OF io_example_run io_example_context(1)] by (auto simp: event_ok_def)
qed

section \<open>Reported events\<close>

lemma and_bit_u32: "(w :: u32) AND 1 \<noteq> 0 \<longleftrightarrow> bit w 0" "w AND 4 \<noteq> 0 \<longleftrightarrow> bit w 2"
proof -
  show "w AND 1 \<noteq> 0 \<longleftrightarrow> bit w 0" by (simp add: and_one_eq odd_iff_mod_2_eq_one bit_0)
  have "w AND push_bit 2 1 \<noteq> 0 \<longleftrightarrow> bit w 2" by (simp add: bit_iff_and_push_bit_not_eq_0)
  then show "w AND 4 \<noteq> 0 \<longleftrightarrow> bit w 2" by simp
qed

lemmas epoll_defs = EPOLLIN_def EPOLLOUT_def EPOLLERR_def EPOLLHUP_def

lemma real_events_bits:
  "real_events reported events AND EV_READ \<noteq> 0 \<longleftrightarrow>
     reported AND EPOLLIN \<noteq> 0 \<or> reported AND (EPOLLERR OR EPOLLHUP) \<noteq> 0 \<and> events AND EV_READ \<noteq> 0"
  "real_events reported events AND EV_WRITE \<noteq> 0 \<longleftrightarrow>
     reported AND EPOLLOUT \<noteq> 0 \<or> reported AND (EPOLLERR OR EPOLLHUP) \<noteq> 0 \<and> events AND EV_WRITE \<noteq> 0"
proof -
  have b5: "bit (5 :: u32) 0" "bit (5 :: u32) 2" by simp_all
  have b4: "\<not> bit (4 :: u32) 0" "bit (4 :: u32) 2" by simp_all
  have b1: "bit (1 :: u32) 0" "\<not> bit (1 :: u32) 2" by simp_all
  have five: "1 OR 4 = (5 :: u32)" by simp
  show "real_events reported events AND EV_READ \<noteq> 0 \<longleftrightarrow>
     reported AND EPOLLIN \<noteq> 0 \<or> reported AND (EPOLLERR OR EPOLLHUP) \<noteq> 0 \<and> events AND EV_READ \<noteq> 0"
    unfolding real_events_def Let_def EPOLLIN_def EPOLLOUT_def event_defs and_bit_u32 five
    using b5 b4 b1 by (simp add: bit_or_iff bit_and_iff del: bit_numeral_rec)
  show "real_events reported events AND EV_WRITE \<noteq> 0 \<longleftrightarrow>
     reported AND EPOLLOUT \<noteq> 0 \<or> reported AND (EPOLLERR OR EPOLLHUP) \<noteq> 0 \<and> events AND EV_WRITE \<noteq> 0"
    unfolding real_events_def Let_def EPOLLIN_def EPOLLOUT_def event_defs and_bit_u32 five
    using b5 b4 b1 by (simp add: bit_or_iff bit_and_iff del: bit_numeral_rec)
qed

lemma and_not_other: "(w AND NOT EV_READ) AND EV_WRITE = w AND EV_WRITE"
proof -
  have "NOT EV_READ AND EV_WRITE = (EV_WRITE :: u32)" by (simp add: event_defs)
  then show ?thesis by (simp add: and.assoc)
qed

definition registered_only :: "u32 \<Rightarrow> event \<Rightarrow> bool" where
  "registered_only reported events \<longleftrightarrow>
     (reported AND EPOLLIN \<noteq> 0 \<longrightarrow> events AND EV_READ \<noteq> 0) \<and> (reported AND EPOLLOUT \<noteq> 0 \<longrightarrow> events AND EV_WRITE \<noteq> 0)"

lemma handle_event_ok:
  assumes inv: "io_inv m" and fd: "fd < length (io_contexts m)"
    and reg: "registered_only reported (fc_events (io_contexts m ! fd))"
  shows "\<exists>m'. handle_event rt fd reported m = Inr m'"
proof -
  let ?e = "fc_events (io_contexts m ! fd)" and ?r = "real_events reported (fc_events (io_contexts m ! fd))"
  have R: "?r AND EV_READ \<noteq> 0 \<longrightarrow> ?e AND EV_READ \<noteq> 0" and W: "?r AND EV_WRITE \<noteq> 0 \<longrightarrow> ?e AND EV_WRITE \<noteq> 0"
    using reg unfolding real_events_bits registered_only_def by blast+
  obtain m1 where m1: "trigger_if (?r AND EV_READ \<noteq> 0) fd EV_READ m = Inr m1" "io_inv m1"
      "length (io_contexts m1) = length (io_contexts m)"
      "fc_events (io_contexts m1 ! fd) = (if ?r AND EV_READ \<noteq> 0 then ?e AND NOT EV_READ else ?e)"
    using trigger_if_spec[OF inv fd event_ok_simps(1), of "?r AND EV_READ \<noteq> 0"] R by blast
  have e1: "fc_events (io_contexts m1 ! fd) AND EV_WRITE = ?e AND EV_WRITE" unfolding m1(4) using and_not_other[of ?e] by simp
  have fd1: "fd < length (io_contexts m1)" using fd m1(3) by simp
  have W1: "?r AND EV_WRITE \<noteq> 0 \<longrightarrow> fc_events (io_contexts m1 ! fd) AND EV_WRITE \<noteq> 0" unfolding e1 by (rule W)
  obtain m2 where "trigger_if (?r AND EV_WRITE \<noteq> 0) fd EV_WRITE m1 = Inr m2"
    using trigger_if_spec[OF m1(2) fd1 event_ok_simps(2), of "?r AND EV_WRITE \<noteq> 0"] W1 by blast
  then show ?thesis using m1(1) unfolding handle_event_def Let_def by auto
qed

lemma trigger_if_unregistered:
  "fc_events (io_contexts m ! fd) AND ev = 0 \<Longrightarrow> trigger_if True fd ev m = Inl Assert_failed"
  by (simp add: trigger_if_def triggerEvent_def Let_def check_def)

text \<open>
  If the kernel reports read and write readiness for a descriptor of which only the read event is
  registered any more, the handler schedules the waiting reader and then fails an assertion, because the
  write event is triggered without a test that it is registered. A report of registered events only is
  handled without a fault, whatever the system call returns.\<close>

theorem stale_report_asserts:
  assumes "io_run m" "fd < length (io_contexts m)"
  shows "fc_events (io_contexts m ! fd) = EV_READ \<Longrightarrow> reported AND EPOLLIN \<noteq> 0 \<Longrightarrow> reported AND EPOLLOUT \<noteq> 0 \<Longrightarrow>
      handle_event 0 fd reported m = Inl Assert_failed"
    and "registered_only reported (fc_events (io_contexts m ! fd)) \<Longrightarrow> \<exists>m'. handle_event rt fd reported m = Inr m'"
proof -
  note inv = io_run_inv[OF assms(1)]
  show "\<exists>m'. handle_event rt fd reported m = Inr m'" if "registered_only reported (fc_events (io_contexts m ! fd))"
    by (rule handle_event_ok[OF inv assms(2) that])
  assume e: "fc_events (io_contexts m ! fd) = EV_READ" and i: "reported AND EPOLLIN \<noteq> 0" and out: "reported AND EPOLLOUT \<noteq> 0"
  have r: "real_events reported EV_READ AND EV_READ \<noteq> 0" "real_events reported EV_READ AND EV_WRITE \<noteq> 0"
    unfolding real_events_bits using i out by blast+
  have bits: "EV_READ AND NOT EV_READ = 0" "EV_READ AND EV_READ \<noteq> 0" by (simp_all add: EV_READ_def)
  obtain m1 where m1: "trigger_if True fd EV_READ m = Inr m1" "fc_events (io_contexts m1 ! fd) = 0"
    using trigger_if_spec[OF inv assms(2) event_ok_simps(1), of True] bits unfolding e by auto
  have "EV_READ AND real_events reported EV_READ \<noteq> EV_NONE" using r(1) by (simp add: EV_NONE_def and.commute)
  then show "handle_event 0 fd reported m = Inl Assert_failed"
    using r m1(1) trigger_if_unregistered[of m1 fd EV_WRITE] m1(2) unfolding handle_event_def Let_def e by simp
qed

theorem stale_report_asserts_witness:
  "handle_event 0 5 (EPOLLIN OR EPOLLOUT) io_example = Inl Assert_failed \<and>
   (\<exists>m'. handle_event 0 5 EPOLLIN io_example = Inr m')"
proof
  show "handle_event 0 5 (EPOLLIN OR EPOLLOUT) io_example = Inl Assert_failed"
    by (rule stale_report_asserts(1)[OF io_example_run io_example_context(1,2)]) (simp_all add: epoll_defs)
  show "\<exists>m'. handle_event 0 5 EPOLLIN io_example = Inr m'"
    by (rule stale_report_asserts(2)[OF io_example_run io_example_context(1)])
      (simp add: registered_only_def epoll_defs event_defs io_example_context(2))
qed

lemma sint_u32: "sint (w :: u32) = (if uint w < 2147483648 then uint w else uint w - 4294967296)"
proof -
  have lt: "uint w < 4294967296" "0 \<le> uint w" using uint_lt2p[of w] by simp_all
  have "bit (uint w) 31 \<longleftrightarrow> \<not> uint w < 2147483648"
  proof -
    have "uint w div 2147483648 = (if uint w < 2147483648 then 0 else 1)" using lt by auto
    then show ?thesis by (simp add: bit_iff_odd)
  qed
  moreover have "take_bit 32 (uint w) = uint w" using lt by (simp add: take_bit_int_eq_self_iff)
  ultimately show ?thesis by (simp add: sint_uint signed_take_bit_eq_take_bit_minus)
qed

lemma uint_ucast_low: "t < 4294967296 \<Longrightarrow> uint (ucast (t :: u64) :: u32) = uint t"
  by (simp add: word_less_def unsigned_ucast_eq take_bit_int_eq_self_iff)

lemma sint_timeout:
  assumes "0 \<le> i" "i \<le> 5000"
  shows "sint (ucast (word_of_int i :: u64) :: u32) = i"
proof -
  have "uint (word_of_int i :: u64) = i" using assms by (simp add: uint_word_of_int)
  then show ?thesis using assms uint_ucast_low[of "word_of_int i"] by (simp add: sint_u32 word_less_def)
qed

lemma sint_negative_timeout:
  assumes "- 2147483648 \<le> i" "i < 0"
  shows "sint (ucast (word_of_int i :: u64) :: u32) = i"
proof -
  have "uint (ucast (word_of_int i :: u64) :: u32) = i mod 4294967296"
    by (simp add: unsigned_ucast_eq uint_word_of_int take_bit_eq_mod mod_mod_cancel)
  also have "i mod 4294967296 = i + 4294967296" using assms mod_pos_pos_trivial[of "i + 4294967296" 4294967296] by simp
  finally show ?thesis using assms by (simp add: sint_u32)
qed

text \<open>
  A timer that is due in 2147483648 to 4294967295 milliseconds (25 to 50 days) makes the idle loop wait
  without a time limit, since the cast of the timeout to a signed 32-bit number gives a negative value; a
  shorter one gives a timeout of at most five seconds.\<close>

theorem wait_timeout_overflow:
  "2147483648 \<le> t \<Longrightarrow> t < 4294967296 \<Longrightarrow> wait_timeout t < 0"
  "t < 2147483648 \<Longrightarrow> wait_timeout t = min (int (unat t)) 5000"
proof -
  have no_max: "t \<noteq> - 1" if "t < 4294967296" using that by auto
  show "wait_timeout t < 0" if "2147483648 \<le> t" "t < 4294967296"
  proof -
    have "sint (ucast t :: u32) = uint t - 4294967296" "- 2147483648 \<le> uint t - 4294967296" "uint t - 4294967296 < 0"
      using that uint_ucast_low[OF that(2)] by (simp_all add: sint_u32 word_less_def word_le_def)
    moreover have "sint (ucast (word_of_int (uint t - 4294967296) :: u64) :: u32) = uint t - 4294967296"
      using calculation by (intro sint_negative_timeout)
    ultimately show ?thesis using no_max[OF that(2)] by (simp add: wait_timeout_def MAX_TIMEOUT_def)
  qed
  show "wait_timeout t = min (int (unat t)) 5000" if "t < 2147483648"
  proof -
    have lt: "t < 4294967296" using that by (rule less_trans) simp
    have "sint (ucast t :: u32) = uint t" using that uint_ucast_low[OF lt] by (simp add: sint_u32 word_less_def)
    then show ?thesis using no_max[OF lt] sint_timeout[of "min (uint t) 5000"] by (simp add: wait_timeout_def MAX_TIMEOUT_def)
  qed
qed

theorem wait_timeout_overflow_witness: "wait_timeout 2592000000 < 0 \<and> wait_timeout 60000 = 5000 \<and> wait_timeout 20 = 20"
  using wait_timeout_overflow(1)[of 2592000000] wait_timeout_overflow(2)[of 60000] wait_timeout_overflow(2)[of 20] by simp

end
