(* ===== verification/FdHook.thy ===== *)
theory FdHook
  imports IOManager "HOL-Library.Signed_Division"
begin

text \<open>
  The contexts of file descriptors (\<open>fdmanager.h\<close>, \<open>fdmanager.cc\<close>) and the hooked system calls (\<open>hook.cc\<close>). The
  kernel is explicit: for each descriptor, whether \<open>fstat\<close> succeeds and finds a socket, and the status flags that
  the original \<open>fcntl\<close> and \<open>ioctl\<close> read and write. The results of the original calls that transfer data and of the
  waits between them are arguments.
\<close>

section \<open>Descriptor contexts\<close>

record kernel =
  k_stat :: "nat \<Rightarrow> bool option"
  k_flags :: "nat \<Rightarrow> u32"

definition O_NONBLOCK :: u32 where "O_NONBLOCK = 2048"

record FdCtx =
  fx_isInit :: bool
  fx_isSocket :: bool
  fx_sysNonblock :: bool
  fx_userNonblock :: bool
  fx_isClosed :: bool
  fx_fd :: nat
  fx_recvTimeout :: u64
  fx_sendTimeout :: u64

definition set_flags :: "nat \<Rightarrow> u32 \<Rightarrow> kernel \<Rightarrow> kernel" where
  "set_flags fd v k = k\<lparr>k_flags := (k_flags k)(fd := v)\<rparr>"

definition FdCtx_init :: "FdCtx \<Rightarrow> kernel \<Rightarrow> bool \<times> FdCtx \<times> kernel" where
  "FdCtx_init c k =
     (if fx_isInit c then (True, c, k)
      else let c1 = c\<lparr>fx_recvTimeout := - 1, fx_sendTimeout := - 1\<rparr>;
               c2 = (case k_stat k (fx_fd c) of
                       None \<Rightarrow> c1\<lparr>fx_isInit := False, fx_isSocket := False\<rparr>
                     | Some sock \<Rightarrow> c1\<lparr>fx_isInit := True, fx_isSocket := sock\<rparr>);
               flags = k_flags k (fx_fd c);
               k1 = (if fx_isSocket c2 \<and> flags AND O_NONBLOCK = 0 then set_flags (fx_fd c) (flags OR O_NONBLOCK) k else k);
               c3 = c2\<lparr>fx_sysNonblock := fx_isSocket c2, fx_userNonblock := False, fx_isClosed := False\<rparr>
           in (fx_isInit c3, c3, k1))"

definition FdCtx_new :: "nat \<Rightarrow> kernel \<Rightarrow> FdCtx \<times> kernel" where
  "FdCtx_new fd k =
     snd (FdCtx_init \<lparr>fx_isInit = False, fx_isSocket = False, fx_sysNonblock = False, fx_userNonblock = False,
       fx_isClosed = False, fx_fd = fd, fx_recvTimeout = - 1, fx_sendTimeout = - 1\<rparr> k)"

definition SO_RCVTIMEO :: int where "SO_RCVTIMEO = 20"
definition SO_SNDTIMEO :: int where "SO_SNDTIMEO = 21"

definition FdCtx_setTimeout :: "int \<Rightarrow> u64 \<Rightarrow> FdCtx \<Rightarrow> FdCtx" where
  "FdCtx_setTimeout type v c = (if type = SO_RCVTIMEO then c\<lparr>fx_recvTimeout := v\<rparr> else c\<lparr>fx_sendTimeout := v\<rparr>)"

definition FdCtx_getTimeout :: "int \<Rightarrow> FdCtx \<Rightarrow> u64" where
  "FdCtx_getTimeout type c = (if type = SO_RCVTIMEO then fx_recvTimeout c else fx_sendTimeout c)"

section \<open>The manager of descriptors\<close>

type_synonym FdManager = "FdCtx option list"

definition FdManager_new :: FdManager where
  "FdManager_new = replicate 64 None"

text \<open>\<open>m_datas.resize(fd * 1.5)\<close> fills with null pointers.\<close>

definition FdManager_get :: "int \<Rightarrow> bool \<Rightarrow> FdManager \<Rightarrow> kernel \<Rightarrow> (FdCtx option \<times> FdManager \<times> kernel) res" where
  "FdManager_get fd auto_create m k =
     (if fd = - 1 then Inr (None, m, k)
      else if int (length m) \<le> fd \<and> \<not> auto_create then Inr (None, m, k)
      else if fd < 0 then Inl Bad_access
      else if fd < int (length m) \<and> (m ! nat fd \<noteq> None \<or> \<not> auto_create) then Inr (m ! nat fd, m, k)
      else (case FdCtx_new (nat fd) k of
              (ctx, k1) \<Rightarrow>
                let m1 = (if int (length m) \<le> fd
                          then take (nat fd * 3 div 2) m @ replicate (nat fd * 3 div 2 - length m) None else m)
                in if nat fd < length m1 then Inr (Some ctx, m1[nat fd := Some ctx], k1) else Inl Bad_access))"

definition FdManager_del :: "int \<Rightarrow> FdManager \<Rightarrow> FdManager res" where
  "FdManager_del fd m =
     (if int (length m) \<le> fd then Inr m
      else if fd < 0 then Inl Bad_access
      else Inr (m[nat fd := None]))"

section \<open>Hooked calls\<close>

record hook =
  hk_enable :: bool
  hk_fds :: FdManager
  hk_kernel :: kernel

definition set_hook_enable :: "bool \<Rightarrow> hook \<Rightarrow> hook" where
  "set_hook_enable flag h = h\<lparr>hk_enable := flag\<rparr>"

text \<open>\<open>FdMgr::GetInstance()->get(fd)\<close> creates nothing. For a descriptor that is not negative it cannot fail.\<close>

definition fd_ctx :: "nat \<Rightarrow> hook \<Rightarrow> FdCtx option" where
  "fd_ctx fd h = (case FdManager_get (int fd) False (hk_fds h) (hk_kernel h) of Inr (c, r) \<Rightarrow> c | Inl e \<Rightarrow> None)"

definition upd_ctx :: "nat \<Rightarrow> (FdCtx \<Rightarrow> FdCtx) \<Rightarrow> hook \<Rightarrow> hook" where
  "upd_ctx fd f h = h\<lparr>hk_fds := (hk_fds h)[fd := map_option f (hk_fds h ! fd)]\<rparr>"

definition kernel_setfl :: "nat \<Rightarrow> u32 \<Rightarrow> hook \<Rightarrow> hook" where
  "kernel_setfl fd v h = h\<lparr>hk_kernel := set_flags fd v (hk_kernel h)\<rparr>"

definition managed :: "FdCtx option \<Rightarrow> bool" where
  "managed ctx \<longleftrightarrow> (case ctx of None \<Rightarrow> False | Some c \<Rightarrow> \<not> fx_isClosed c \<and> fx_isSocket c)"

definition fcntl_setfl :: "nat \<Rightarrow> u32 \<Rightarrow> hook \<Rightarrow> hook" where
  "fcntl_setfl fd arg h =
     (case fd_ctx fd h of
        Some c \<Rightarrow>
          if managed (Some c)
          then kernel_setfl fd (if fx_sysNonblock c then arg OR O_NONBLOCK else arg AND NOT O_NONBLOCK)
                 (upd_ctx fd (\<lambda>c. c\<lparr>fx_userNonblock := (arg AND O_NONBLOCK \<noteq> 0)\<rparr>) h)
          else kernel_setfl fd arg h
      | None \<Rightarrow> kernel_setfl fd arg h)"

definition fcntl_getfl :: "nat \<Rightarrow> hook \<Rightarrow> u32" where
  "fcntl_getfl fd h =
     (let arg = k_flags (hk_kernel h) fd
      in case fd_ctx fd h of
           Some c \<Rightarrow>
             if managed (Some c)
             then (if fx_userNonblock c then arg OR O_NONBLOCK else arg AND NOT O_NONBLOCK)
             else arg
         | None \<Rightarrow> arg)"

text \<open>The original \<open>ioctl(FIONBIO)\<close> sets or clears the flag in the kernel.\<close>

definition ioctl_fionbio :: "nat \<Rightarrow> bool \<Rightarrow> hook \<Rightarrow> hook" where
  "ioctl_fionbio fd on h =
     (let h1 = (if managed (fd_ctx fd h) then upd_ctx fd (\<lambda>c. c\<lparr>fx_userNonblock := on\<rparr>) h else h);
          flags = k_flags (hk_kernel h1) fd
      in kernel_setfl fd (if on then flags OR O_NONBLOCK else flags AND NOT O_NONBLOCK) h1)"

definition SOL_SOCKET :: int where "SOL_SOCKET = 1"

definition hook_setsockopt :: "nat \<Rightarrow> int \<Rightarrow> int \<Rightarrow> int \<Rightarrow> int \<Rightarrow> hook \<Rightarrow> hook" where
  "hook_setsockopt fd level optname tv_sec tv_usec h =
     (if \<not> hk_enable h then h
      else if level = SOL_SOCKET \<and> (optname = SO_RCVTIMEO \<or> optname = SO_SNDTIMEO) \<and> fd_ctx fd h \<noteq> None
      then upd_ctx fd (FdCtx_setTimeout optname (word_of_int (tv_sec * 1000 + tv_usec sdiv 1000))) h
      else h)"

text \<open>\<open>socket\<close> and \<open>accept\<close> with the descriptor that the original call gave.\<close>

definition create_ctx :: "int \<Rightarrow> hook \<Rightarrow> hook res" where
  "create_ctx fd h =
     bindr (FdManager_get fd True (hk_fds h) (hk_kernel h)) (\<lambda>(c, m, k). Inr (h\<lparr>hk_fds := m, hk_kernel := k\<rparr>))"

definition hook_socket :: "int \<Rightarrow> hook \<Rightarrow> hook res" where
  "hook_socket fd h = (if \<not> hk_enable h then Inr h else if fd = - 1 then Inr h else create_ctx fd h)"

definition hook_accept :: "int \<Rightarrow> hook \<Rightarrow> hook res" where
  "hook_accept fd h = (if fd \<ge> 0 then create_ctx fd h else Inr h)"

text \<open>\<open>close\<close>; \<open>rt\<close> is the result of \<open>epoll_ctl\<close> for the cancelled events.\<close>

definition hook_close :: "int \<Rightarrow> nat \<Rightarrow> 'cb IOManager option \<Rightarrow> hook \<Rightarrow> ('cb IOManager option \<times> hook) io" where
  "hook_close rt fd iom h =
     (if \<not> hk_enable h \<or> fd_ctx fd h = None then Inr (iom, h)
      else bindi (case iom of None \<Rightarrow> Inr None | Some m \<Rightarrow> bindi (cancelAll rt fd m) (\<lambda>r. Inr (Some (snd r)))) (\<lambda>iom1.
           case FdManager_del (int fd) (hk_fds h) of
             Inl e \<Rightarrow> Inl Out_of_bounds
           | Inr m \<Rightarrow> Inr (iom1, h\<lparr>hk_fds := m\<rparr>)))"

section \<open>Data transfer\<close>

definition EINTR :: int where "EINTR = 4"
definition EBADF :: int where "EBADF = 9"
definition EAGAIN :: int where "EAGAIN = 11"
definition ETIMEDOUT :: int where "ETIMEDOUT = 110"

text \<open>
  The retry loop of \<open>do_io\<close>. \<open>calls\<close> are the results of the original call, with \<open>errno\<close>; \<open>waits\<close> are, for each time it would
  block, the result of \<open>addEvent\<close> with \<open>errno\<close> when it failed, else with \<open>cancelled\<close> after the fiber was resumed. \<open>None\<close> is still waiting.
\<close>

fun do_io_loop :: "(int \<times> int) list \<Rightarrow> (int \<times> int) list \<Rightarrow> (int \<times> int) option" where
  "do_io_loop [] waits = None"
| "do_io_loop ((n, e) # calls) waits =
     (if n = - 1 \<and> e = EINTR then do_io_loop calls waits
      else if n = - 1 \<and> e = EAGAIN
      then (case waits of
              [] \<Rightarrow> None
            | (rt, cancelled) # ws \<Rightarrow>
                if rt \<noteq> 0 then Some (- 1, cancelled)
                else if cancelled \<noteq> 0 then Some (- 1, cancelled)
                else do_io_loop calls ws)
      else Some (n, e))"

definition first_call :: "(int \<times> int) list \<Rightarrow> (int \<times> int) option" where
  "first_call calls = (case calls of [] \<Rightarrow> None | c # cs \<Rightarrow> Some c)"

definition do_io :: "nat \<Rightarrow> hook \<Rightarrow> (int \<times> int) list \<Rightarrow> (int \<times> int) list \<Rightarrow> (int \<times> int) option" where
  "do_io fd h calls waits =
     (if \<not> hk_enable h then first_call calls
      else case fd_ctx fd h of
             None \<Rightarrow> first_call calls
           | Some c \<Rightarrow>
               if fx_isClosed c then Some (- 1, EBADF)
               else if \<not> fx_isSocket c \<or> fx_userNonblock c then first_call calls
               else do_io_loop calls waits)"

text \<open>The condition timer that \<open>do_io\<close> starts, when the context has a timeout.\<close>

definition io_timeout :: "nat \<Rightarrow> int \<Rightarrow> hook \<Rightarrow> u64 option" where
  "io_timeout fd type h =
     (case fd_ctx fd h of
        None \<Rightarrow> None
      | Some c \<Rightarrow> if FdCtx_getTimeout type c \<noteq> - 1 then Some (FdCtx_getTimeout type c) else None)"

definition EINPROGRESS :: int where "EINPROGRESS = 115"

text \<open>
  \<open>connect_with_timeout\<close>: the result of the original call, of \<open>addEvent\<close> with \<open>cancelled\<close> after the wait, and of
  \<open>getsockopt(SO_ERROR)\<close> with the error it gives.
\<close>

definition connect_with_timeout ::
    "nat \<Rightarrow> hook \<Rightarrow> int \<times> int \<Rightarrow> int \<times> int \<Rightarrow> int \<times> int \<times> int \<Rightarrow> int \<times> int" where
  "connect_with_timeout fd h call wait opt =
     (if \<not> hk_enable h then call
      else case fd_ctx fd h of
             None \<Rightarrow> (- 1, EBADF)
           | Some c \<Rightarrow>
               if fx_isClosed c then (- 1, EBADF)
               else if \<not> fx_isSocket c \<or> fx_userNonblock c then call
               else if fst call = 0 then (0, snd call)
               else if fst call \<noteq> - 1 \<or> snd call \<noteq> EINPROGRESS then call
               else if fst wait = 0 \<and> snd wait \<noteq> 0 then (- 1, snd wait)
               else (case opt of (rt, err, e) \<Rightarrow>
                       if rt = - 1 then (- 1, e) else if err = 0 then (0, e) else (- 1, err)))"

section \<open>Sleeping\<close>

text \<open>The periods that the hooked calls hand to \<open>addTimer\<close>; arithmetic on \<open>unsigned int\<close> and the cast to \<open>int\<close> keep 32 bits.\<close>

definition sleep_ms :: "u32 \<Rightarrow> u64" where
  "sleep_ms seconds = ucast (seconds * 1000)"

definition usleep_ms :: "u32 \<Rightarrow> u64" where
  "usleep_ms usec = ucast (usec div 1000)"

definition nanosleep_ms :: "int \<Rightarrow> int \<Rightarrow> u64" where
  "nanosleep_ms tv_sec tv_nsec = word_of_int (sint (word_of_int (tv_sec * 1000 + tv_nsec sdiv 1000 sdiv 1000) :: u32))"

section \<open>Non-blocking descriptors behind blocking calls\<close>

text \<open>
  Histories on a thread with hooks: the kernel hands out a socket on a descriptor that has no context, flags are set, timeouts are set,
  descriptors are closed. \<open>ioctl\<close> is left out.
\<close>

definition kernel_opens :: "nat \<Rightarrow> u32 \<Rightarrow> hook \<Rightarrow> hook" where
  "kernel_opens fd flags h =
     h\<lparr>hk_kernel := (hk_kernel h)\<lparr>k_stat := (k_stat (hk_kernel h))(fd := Some True), k_flags := (k_flags (hk_kernel h))(fd := flags)\<rparr>\<rparr>"

inductive hook_run :: "hook \<Rightarrow> bool" where
  hr_start: "hook_run \<lparr>hk_enable = True, hk_fds = FdManager_new, hk_kernel = k\<rparr>"
| hr_socket: "hook_run h \<Longrightarrow> fd_ctx fd h = None \<Longrightarrow> hook_socket (int fd) (kernel_opens fd flags h) = Inr h' \<Longrightarrow> hook_run h'"
| hr_accept: "hook_run h \<Longrightarrow> fd_ctx fd h = None \<Longrightarrow> hook_accept (int fd) (kernel_opens fd flags h) = Inr h' \<Longrightarrow> hook_run h'"
| hr_setfl: "hook_run h \<Longrightarrow> hook_run (fcntl_setfl fd arg h)"
| hr_setsockopt: "hook_run h \<Longrightarrow> hook_run (hook_setsockopt fd level optname sec usec h)"
| hr_close: "hook_run h \<Longrightarrow> hook_close rt fd (iom :: nat IOManager option) h = Inr (iom', h') \<Longrightarrow> hook_run h'"

definition hook_inv :: "hook \<Rightarrow> bool" where
  "hook_inv h \<longleftrightarrow> hk_enable h \<and> 64 \<le> length (hk_fds h) \<and>
     (\<forall>fd c. fd < length (hk_fds h) \<longrightarrow> hk_fds h ! fd = Some c \<longrightarrow>
        \<not> fx_isClosed c \<and> fx_sysNonblock c = fx_isSocket c \<and> (fx_isSocket c \<longrightarrow> bit (k_flags (hk_kernel h) fd) 11))"

lemma fd_ctx_eq: "fd_ctx fd h = (if fd < length (hk_fds h) then hk_fds h ! fd else None)"
  by (simp add: fd_ctx_def FdManager_get_def)

lemma O_NONBLOCK_bit: "w AND O_NONBLOCK \<noteq> 0 \<longleftrightarrow> bit w 11"
proof -
  have "w AND push_bit 11 1 \<noteq> 0 \<longleftrightarrow> bit w 11" by (simp only: bit_iff_and_push_bit_not_eq_0)
  then show ?thesis by (simp add: O_NONBLOCK_def)
qed

lemma bit_O_NONBLOCK: "bit O_NONBLOCK n \<longleftrightarrow> n = 11"
proof -
  have e: "O_NONBLOCK = 2 ^ 11" by (simp add: O_NONBLOCK_def)
  show ?thesis unfolding e bit_exp_iff by auto
qed

lemma bit_or_O_NONBLOCK [simp]: "bit (w OR O_NONBLOCK) 11"
  by (simp add: bit_or_iff bit_O_NONBLOCK)

lemma hook_invD:
  assumes "hook_inv h" "fd_ctx fd h = Some c"
  shows "fd < length (hk_fds h)" "hk_fds h ! fd = Some c" "\<not> fx_isClosed c" "fx_sysNonblock c = fx_isSocket c"
    "fx_isSocket c \<Longrightarrow> bit (k_flags (hk_kernel h) fd) 11"
  using assms by (auto simp: hook_inv_def fd_ctx_eq split: if_splits)

lemma FdCtx_new_eq:
  "FdCtx_new fd k =
     (\<lparr>fx_isInit = (k_stat k fd \<noteq> None), fx_isSocket = (k_stat k fd = Some True), fx_sysNonblock = (k_stat k fd = Some True),
       fx_userNonblock = False, fx_isClosed = False, fx_fd = fd, fx_recvTimeout = - 1, fx_sendTimeout = - 1\<rparr>,
      if k_stat k fd = Some True \<and> k_flags k fd AND O_NONBLOCK = 0 then set_flags fd (k_flags k fd OR O_NONBLOCK) k else k)"
  by (auto simp: FdCtx_new_def FdCtx_init_def Let_def split: option.splits)

lemma upd_ctx_inv:
  assumes "hook_inv h" "\<And>c. fx_isClosed (f c) = fx_isClosed c \<and> fx_sysNonblock (f c) = fx_sysNonblock c \<and> fx_isSocket (f c) = fx_isSocket c"
  shows "hook_inv (upd_ctx fd f h)"
proof -
  have "hk_fds h ! g = Some y \<Longrightarrow> \<not> fx_isClosed y \<and> fx_sysNonblock y = fx_isSocket y \<and> (fx_isSocket y \<longrightarrow> bit (k_flags (hk_kernel h) g) 11)"
    if "g < length (hk_fds h)" for g y using assms(1) that by (simp add: hook_inv_def)
  moreover have "\<exists>y. hk_fds h ! g = Some y \<and> (c = y \<or> c = f y)"
    if "g < length (hk_fds h)" "(hk_fds h)[fd := map_option f (hk_fds h ! fd)] ! g = Some c" for g c
    using that by (cases "g = fd") auto
  ultimately show ?thesis using assms unfolding hook_inv_def upd_ctx_def by (fastforce simp: assms(2))
qed

lemma kernel_setfl_inv:
  "hook_inv h \<Longrightarrow> (managed (fd_ctx fd h) \<Longrightarrow> bit v 11) \<Longrightarrow> hook_inv (kernel_setfl fd v h)"
  by (auto simp: hook_inv_def kernel_setfl_def set_flags_def fd_ctx_eq managed_def)

lemma setfl_inv:
  assumes inv: "hook_inv h"
  shows "hook_inv (fcntl_setfl fd arg h)"
proof (cases "fd_ctx fd h")
  case None
  then show ?thesis using kernel_setfl_inv[OF inv, of fd arg] by (simp add: fcntl_setfl_def managed_def)
next
  case (Some c)
  let ?h = "upd_ctx fd (\<lambda>c. c\<lparr>fx_userNonblock := (arg AND O_NONBLOCK \<noteq> 0)\<rparr>) h"
  have "hook_inv ?h" by (rule upd_ctx_inv[OF inv]) simp
  then show ?thesis using Some inv hook_invD[OF inv Some] kernel_setfl_inv[of ?h fd "arg OR O_NONBLOCK"] kernel_setfl_inv[OF inv, of fd arg]
    by (auto simp: fcntl_setfl_def managed_def)
qed

lemma create_ctx_inv:
  assumes inv: "hook_inv h" and free: "fd_ctx fd h = None" and c: "create_ctx (int fd) (kernel_opens fd flags h) = Inr h'"
  shows "hook_inv h'"
proof -
  let ?k = "hk_kernel (kernel_opens fd flags h)" and ?m = "hk_fds h"
  have st: "k_stat ?k fd = Some True" "hk_fds (kernel_opens fd flags h) = ?m" by (simp_all add: kernel_opens_def)
  let ?m1 = "if length ?m \<le> fd then take (fd * 3 div 2) ?m @ replicate (fd * 3 div 2 - length ?m) None else ?m"
  obtain ctx k1 where n: "FdCtx_new fd ?k = (ctx, k1)" by (cases "FdCtx_new fd ?k")
  have ctx: "\<not> fx_isClosed ctx" "fx_sysNonblock ctx" "fx_isSocket ctx" "bit (k_flags k1 fd) 11"
      "\<And>g. g \<noteq> fd \<Longrightarrow> k_flags k1 g = k_flags (hk_kernel h) g"
    using n st(1) O_NONBLOCK_bit[of "k_flags ?k fd"] unfolding FdCtx_new_eq
    by (auto simp: set_flags_def kernel_opens_def split: if_splits)
  have empty: "\<not> (fd < length ?m \<and> ?m ! fd \<noteq> None)" using free by (auto simp: fd_ctx_eq split: if_splits)
  have len: "64 \<le> length ?m" using inv by (simp add: hook_inv_def)
  then have big: "length ?m \<le> fd \<Longrightarrow> fd < fd * 3 div 2" by linarith
  have lt: "fd < length ?m1" using big by auto
  have "h' = (kernel_opens fd flags h)\<lparr>hk_fds := ?m1[fd := Some ctx], hk_kernel := k1\<rparr>"
    using c n empty lt unfolding create_ctx_def FdManager_get_def st(2) by (auto simp: Let_def split: if_splits)
  then have h': "hk_fds h' = ?m1[fd := Some ctx]" "hk_kernel h' = k1" "hk_enable h' = hk_enable h"
    by (simp_all add: kernel_opens_def)
  have "\<not> fx_isClosed x \<and> fx_sysNonblock x = fx_isSocket x \<and> (fx_isSocket x \<longrightarrow> bit (k_flags k1 g) 11)"
    if g: "g < length ?m1" "?m1[fd := Some ctx] ! g = Some x" for g x
  proof (cases "g = fd")
    case True
    then show ?thesis using g lt ctx(1-4) by simp
  next
    case False
    then have "g < length ?m" "?m ! g = Some x"
      using g len by (auto simp: nth_append split: if_splits)
    then show ?thesis using inv ctx(5)[OF False] by (simp add: hook_inv_def)
  qed
  moreover have "64 \<le> length ?m1" using len by auto
  ultimately show ?thesis unfolding hook_inv_def h' using inv by (auto simp: hook_inv_def)
qed

lemma close_inv: "hook_inv h \<Longrightarrow> hook_close rt fd iom h = Inr (iom', h') \<Longrightarrow> hook_inv h'"
  by (auto simp: hook_close_def success_iff FdManager_del_def hook_inv_def nth_list_update split: if_splits option.splits)

lemma hook_run_inv: "hook_run h \<Longrightarrow> hook_inv h"
proof (induction rule: hook_run.induct)
  case (hr_start k)
  then show ?case by (auto simp: hook_inv_def FdManager_new_def)
next
  case (hr_socket h fd flags h')
  then show ?case using create_ctx_inv[of h fd flags h'] by (auto simp: hook_socket_def hook_inv_def kernel_opens_def split: if_splits)
next
  case (hr_accept h fd flags h')
  then show ?case using create_ctx_inv[of h fd flags h'] by (auto simp: hook_accept_def)
next
  case (hr_setsockopt h fd level optname sec usec)
  then show ?case by (auto simp: hook_setsockopt_def FdCtx_setTimeout_def SO_SNDTIMEO_def SO_RCVTIMEO_def intro!: upd_ctx_inv)
qed (auto intro: setfl_inv close_inv)

lemma user_flag_roundtrip:
  "(if arg AND O_NONBLOCK \<noteq> 0 then (arg OR O_NONBLOCK) OR O_NONBLOCK else (arg OR O_NONBLOCK) AND NOT O_NONBLOCK) = arg"
  by (rule bit_word_eqI) (auto simp: O_NONBLOCK_bit bit_or_iff bit_and_iff bit_not_iff bit_O_NONBLOCK)

lemma setfl_managed:
  assumes inv: "hook_inv h" and c: "fd_ctx fd h = Some c" "fx_isSocket c"
  shows "k_flags (hk_kernel (fcntl_setfl fd arg h)) fd = arg OR O_NONBLOCK"
    and "fd_ctx fd (fcntl_setfl fd arg h) = Some (c\<lparr>fx_userNonblock := (arg AND O_NONBLOCK \<noteq> 0)\<rparr>)"
proof -
  note D = hook_invD[OF inv c(1)]
  have "fcntl_setfl fd arg h = kernel_setfl fd (arg OR O_NONBLOCK) (upd_ctx fd (\<lambda>c. c\<lparr>fx_userNonblock := (arg AND O_NONBLOCK \<noteq> 0)\<rparr>) h)"
    using c D(3,4) by (simp add: fcntl_setfl_def managed_def)
  then show "k_flags (hk_kernel (fcntl_setfl fd arg h)) fd = arg OR O_NONBLOCK"
    "fd_ctx fd (fcntl_setfl fd arg h) = Some (c\<lparr>fx_userNonblock := (arg AND O_NONBLOCK \<noteq> 0)\<rparr>)"
    using D(1,2) by (simp_all add: kernel_setfl_def upd_ctx_def set_flags_def fd_ctx_eq)
qed


definition one_socket :: hook where
  "one_socket = (case hook_socket 5 (kernel_opens 5 2 \<lparr>hk_enable = True, hk_fds = FdManager_new,
     hk_kernel = \<lparr>k_stat = (\<lambda>_. None), k_flags = (\<lambda>_. 0)\<rparr>\<rparr>) of Inr h \<Rightarrow> h)"

lemma one_socket_run: "hook_run one_socket"
proof -
  let ?h = "\<lparr>hk_enable = True, hk_fds = FdManager_new, hk_kernel = \<lparr>k_stat = (\<lambda>_. None), k_flags = (\<lambda>_. 0)\<rparr>\<rparr>"
  have "hook_socket (int 5) (kernel_opens 5 2 ?h) = Inr one_socket"
    by (simp add: one_socket_def hook_socket_def create_ctx_def FdManager_get_def FdManager_new_def kernel_opens_def FdCtx_new_eq
        set_flags_def O_NONBLOCK_def split: if_splits)
  moreover have "fd_ctx 5 ?h = None" by (simp add: fd_ctx_eq FdManager_new_def)
  ultimately show ?thesis by (intro hr_socket[OF hr_start])
qed

lemma one_socket_ctx: "\<exists>c. fd_ctx 5 one_socket = Some c \<and> fx_isSocket c \<and> \<not> fx_userNonblock c"
  by (simp add: one_socket_def hook_socket_def create_ctx_def FdManager_get_def FdManager_new_def kernel_opens_def FdCtx_new_eq
      fd_ctx_eq set_flags_def O_NONBLOCK_def Let_def)


lemma do_io_loop_result:
  "do_io_loop calls waits = Some (n, e) \<Longrightarrow> \<forall>w \<in> set waits. fst w = 0 \<and> snd w \<in> {0, ETIMEDOUT} \<Longrightarrow>
   (n = - 1 \<longrightarrow> e \<noteq> EAGAIN \<and> e \<noteq> EINTR) \<and> ((n, e) \<in> set calls \<or> (n, e) = (- 1, ETIMEDOUT))"
proof (induction calls waits rule: do_io_loop.induct)
  case (2 m f calls waits)
  show ?case
  proof (cases "m = - 1 \<and> f \<in> {EINTR, EAGAIN}")
    case False
    then show ?thesis using "2.prems"(1) by (auto split: if_splits)
  next
    case True
    show ?thesis
    proof (cases "f = EINTR")
      case True
      then show ?thesis using "2.IH"(1) "2.prems" \<open>m = - 1 \<and> f \<in> {EINTR, EAGAIN}\<close> by auto
    next
      case f: False
      with True have m: "m = - 1" "f = EAGAIN" by auto
      obtain rt c ws where w: "waits = (rt, c) # ws" using "2.prems"(1) m f by (cases waits) auto
      show ?thesis
      proof (cases "c = 0")
        case True
        then show ?thesis using "2.IH"(2)[of "(rt, c)" ws rt c] "2.prems" m f w by (auto simp: EAGAIN_def EINTR_def)
      next
        case False
        then show ?thesis using "2.prems" m f w by (auto simp: ETIMEDOUT_def EAGAIN_def EINTR_def)
      qed
    qed
  qed
qed simp



text \<open>
  The original \<open>ioctl\<close> is called with the value of the program, so switching non-blocking mode off with it makes the socket
  blocking in the kernel: the next hooked call blocks the whole thread.
\<close>

theorem ioctl_makes_blocking:
  assumes "hook_run h" "fd_ctx fd h = Some c" "fx_isSocket c"
  shows "k_flags (hk_kernel (ioctl_fionbio fd False h)) fd AND O_NONBLOCK = 0"
proof -
  have "\<not> bit (w AND NOT O_NONBLOCK) 11" for w by (simp add: bit_and_iff bit_not_iff bit_O_NONBLOCK)
  then have "(w AND NOT O_NONBLOCK) AND O_NONBLOCK = 0" for w using O_NONBLOCK_bit by blast
  then show ?thesis by (simp add: ioctl_fionbio_def Let_def kernel_setfl_def set_flags_def)
qed

text \<open>
  A timeout of zero, with which a program switches the timeout of a socket off, makes the hooked calls time out at once; and the periods
  of \<open>sleep\<close> wrap around from 4294968 seconds on.
\<close>

theorem zero_timeout:
  assumes "hook_run h" "fd_ctx fd h = Some c"
  shows "io_timeout fd SO_RCVTIMEO (hook_setsockopt fd SOL_SOCKET SO_RCVTIMEO 0 0 h) = Some 0"
proof -
  note inv = hook_run_inv[OF assms(1)]
  have "(0 :: int) sdiv 1000 = 0" by simp
  then show ?thesis using inv hook_invD(1,2)[OF inv assms(2)] assms(2)
    by (simp add: hook_setsockopt_def hook_inv_def io_timeout_def upd_ctx_def fd_ctx_eq FdCtx_setTimeout_def FdCtx_getTimeout_def)
qed

theorem sleep_wraps: "sleep_ms 4294968 = 704 \<and> (unat s < 4294968 \<longrightarrow> unat (sleep_ms s) = unat s * 1000)"
proof
  show "sleep_ms 4294968 = 704" by (simp add: sleep_ms_def)
  show "unat s < 4294968 \<longrightarrow> unat (sleep_ms s) = unat s * 1000"
  proof
    assume s: "unat s < 4294968"
    then have "unat (s * 1000) = unat s * 1000" by (simp add: unat_word_ariths)
    moreover have "take_bit 64 (unat s * 1000) = unat s * 1000" using s by (simp add: take_bit_nat_eq_self)
    ultimately show "unat (sleep_ms s) = unat s * 1000" by (simp add: sleep_ms_def unsigned_ucast_eq)
  qed
qed

text \<open>
  \<open>close\<close> on a thread without hooks keeps the context. If the kernel hands out the number again, the new socket gets the
  old context and stays blocking.
\<close>

theorem stale_context:
  assumes "hook_run h" "fd_ctx fd h = Some c" "hook_close rt fd (Some iom) (h\<lparr>hk_enable := False\<rparr>) = Inr (iom', h')"
    and "hook_socket (int fd) (kernel_opens fd flags (h'\<lparr>hk_enable := True\<rparr>)) = Inr h2" "flags AND O_NONBLOCK = 0"
  shows "fd_ctx fd h2 = Some c \<and> k_flags (hk_kernel h2) fd AND O_NONBLOCK = 0"
proof -
  note inv = hook_run_inv[OF assms(1)]
  note D = hook_invD(1,2)[OF inv assms(2)]
  have "h' = h\<lparr>hk_enable := False\<rparr>" using assms(3) by (simp add: hook_close_def)
  then show ?thesis using assms(4,5) D
    by (auto simp: hook_socket_def create_ctx_def FdManager_get_def kernel_opens_def fd_ctx_eq)
qed

end
