(* ===== verification/IdleLoop.thy ===== *)
theory IdleLoop
  imports IOManager
begin

text \<open>
  One turn of \<open>IOManager::idle\<close> as a whole, where the timers, the event manager and the scheduler meet: the test for the end, the wait, the
  expired timers and the reported events.
\<close>

section \<open>The turn\<close>

text \<open>
  \<open>now1\<close> and \<open>now2\<close> are the times that \<open>getNextTimer\<close> and \<open>listExpiredCb\<close> read, \<open>nt\<close> is the address of the local timer, \<open>reports\<close> what \<open>epoll_wait\<close> delivers
  (nothing when it fails). \<open>schedule\<close> drops an empty function. The first result says whether the loop goes on.
\<close>

definition idle_turn ::
  "nat \<Rightarrow> 'cb Scheduler \<Rightarrow> u64 \<Rightarrow> u64 \<Rightarrow> addr \<Rightarrow> (nat \<times> u32 \<times> int) option list \<Rightarrow> 'cb TimerManager \<Rightarrow> 'cb IOManager \<Rightarrow>
   (bool \<times> 'cb TimerManager \<times> 'cb IOManager) io" where
  "idle_turn self s now1 now2 nt reports tm m =
     (let (next_timeout, tm1) = getNextTimer now1 tm
      in if IOManager_stopping next_timeout m s then Inr (False, tm1, m)
         else let (cbs, tm2) = listExpiredCb now2 nt tm1
              in bindi (idle_round self (List.map_filter id cbs) reports m) (\<lambda>m1. Inr (True, tm2, m1)))"

text \<open>What the kernel may report: open descriptors, each at most once, and only events that are registered for them.\<close>

fun reports_ok :: "'cb IOManager \<Rightarrow> (nat \<times> u32 \<times> int) option list \<Rightarrow> bool" where
  "reports_ok m [] \<longleftrightarrow> True"
| "reports_ok m (None # rs) \<longleftrightarrow> reports_ok m rs"
| "reports_ok m (Some (fd, reported, rt2) # rs) \<longleftrightarrow>
     fd < length (io_contexts m) \<and> registered_only reported (fc_events (io_contexts m ! fd)) \<and>
     list_all (\<lambda>r. case r of None \<Rightarrow> True | Some (fd2, _) \<Rightarrow> fd2 \<noteq> fd) rs \<and> reports_ok m rs"

text \<open>The tasks that a report makes runnable.\<close>

fun report_tasks :: "'cb IOManager \<Rightarrow> (nat \<times> u32 \<times> int) option \<Rightarrow> 'cb ScheduleTask list" where
  "report_tasks m None = []"
| "report_tasks m (Some (fd, reported, rt2)) =
     (let c = io_contexts m ! fd; real = real_events reported (fc_events c)
      in if rt2 \<noteq> 0 then []
         else (if real AND EV_READ \<noteq> 0 then [waiting_task (fc_read c)] else []) @
              (if real AND EV_WRITE \<noteq> 0 then [waiting_task (fc_write c)] else []))"

definition timer_task :: "'cb \<Rightarrow> 'cb ScheduleTask" where
  "timer_task cb = \<lparr>tk_fiber = None, tk_cb = Some cb, tk_thread = - 1\<rparr>"

section \<open>Reported events\<close>

lemma trigger_if_frame:
  "trigger_if b fd ev m = Inr m1 \<Longrightarrow> fd2 \<noteq> fd \<Longrightarrow> io_contexts m1 ! fd2 = io_contexts m ! fd2"
  by (auto simp: trigger_if_def triggerEvent_def success_iff Let_def put_context_def split: if_splits)

lemma trigger_read_keeps_write:
  "trigger_if b fd EV_READ m = Inr m1 \<Longrightarrow> fd < length (io_contexts m) \<Longrightarrow> fc_write (io_contexts m1 ! fd) = fc_write (io_contexts m ! fd)"
  by (auto simp: trigger_if_def triggerEvent_def success_iff Let_def put_context_def resetEventContext_def setEventContext_def split: if_splits)

lemma handle_event_exact:
  assumes inv: "io_inv m" and fd: "fd < length (io_contexts m)"
    and reg: "registered_only reported (fc_events (io_contexts m ! fd))"
  shows "\<exists>m'. handle_event rt fd reported m = Inr m' \<and> io_inv m' \<and> length (io_contexts m') = length (io_contexts m) \<and>
    (\<forall>fd2. fd2 \<noteq> fd \<longrightarrow> io_contexts m' ! fd2 = io_contexts m ! fd2) \<and>
    map snd (io_scheduled m') = map snd (io_scheduled m) @ report_tasks m (Some (fd, reported, rt))"
proof -
  define c where "c = io_contexts m ! fd"
  define r where "r = real_events reported (fc_events c)"
  have R: "fc_events c AND EV_READ \<noteq> 0" if "r AND EV_READ \<noteq> 0"
    using reg that unfolding r_def c_def[symmetric] real_events_bits registered_only_def by blast
  have W: "fc_events c AND EV_WRITE \<noteq> 0" if "r AND EV_WRITE \<noteq> 0"
    using reg that unfolding r_def c_def[symmetric] real_events_bits registered_only_def by blast
  show ?thesis
  proof (cases "rt \<noteq> 0 \<or> fc_events c AND r = EV_NONE")
    case True
    have none: "\<not> r AND EV_READ \<noteq> 0 \<and> \<not> r AND EV_WRITE \<noteq> 0" if "fc_events c AND r = EV_NONE"
    proof -
      have "\<not> (bit (fc_events c) i \<and> bit r i)" for i using that unfolding EV_NONE_def by (metis bit_0_eq bit_and_iff bot_apply bot_bool_def)
      then show ?thesis using R W unfolding EV_READ_def EV_WRITE_def and_bit_u32 by blast
    qed
    have "report_tasks m (Some (fd, reported, rt)) = []" using True none by (auto simp: Let_def r_def[symmetric] c_def[symmetric])
    moreover have "handle_event rt fd reported m = Inr m" using True by (simp add: handle_event_def Let_def r_def c_def)
    ultimately show ?thesis using inv by simp
  next
    case False
    obtain m1 where m1: "trigger_if (r AND EV_READ \<noteq> 0) fd EV_READ m = Inr m1" "io_inv m1"
      "length (io_contexts m1) = length (io_contexts m)"
      "fc_events (io_contexts m1 ! fd) = (if r AND EV_READ \<noteq> 0 then fc_events c AND NOT EV_READ else fc_events c)"
      "map snd (io_scheduled m1) = map snd (io_scheduled m) @ (if r AND EV_READ \<noteq> 0 then [waiting_task (context_at EV_READ c)] else [])"
      using trigger_if_spec[OF inv fd event_ok_simps(1), of "r AND EV_READ \<noteq> 0"] R unfolding c_def[symmetric] by blast
    have e1: "fc_events (io_contexts m1 ! fd) AND EV_WRITE = fc_events c AND EV_WRITE"
      unfolding m1(4) using and_not_other[of "fc_events c"] by simp
    have fd1: "fd < length (io_contexts m1)" using fd m1(3) by simp
    have W1: "fc_events (io_contexts m1 ! fd) AND EV_WRITE \<noteq> 0" if "r AND EV_WRITE \<noteq> 0" unfolding e1 by (rule W[OF that])
    obtain m2 where m2: "trigger_if (r AND EV_WRITE \<noteq> 0) fd EV_WRITE m1 = Inr m2" "io_inv m2"
      "length (io_contexts m2) = length (io_contexts m1)"
      "map snd (io_scheduled m2) = map snd (io_scheduled m1) @ (if r AND EV_WRITE \<noteq> 0 then [waiting_task (context_at EV_WRITE (io_contexts m1 ! fd))] else [])"
      using trigger_if_spec[OF m1(2) fd1 event_ok_simps(2), of "r AND EV_WRITE \<noteq> 0"] W1 by blast
    have "handle_event rt fd reported m = Inr m2"
      using False m1(1) m2(1) by (simp add: handle_event_def Let_def r_def c_def)
    moreover have "io_contexts m2 ! fd2 = io_contexts m ! fd2" if "fd2 \<noteq> fd" for fd2
      using trigger_if_frame[OF m1(1) that] trigger_if_frame[OF m2(1) that] by simp
    moreover have "context_at EV_READ c = fc_read c" "context_at EV_WRITE (io_contexts m1 ! fd) = fc_write c"
      using trigger_read_keeps_write[OF m1(1) fd] by (simp_all add: context_at_def EV_READ_def EV_WRITE_def c_def)
    ultimately show ?thesis using m1(3,5) m2 False by (simp add: Let_def r_def[symmetric] c_def[symmetric])
  qed
qed

lemma same_contexts_reports:
  assumes "length (io_contexts m') = length (io_contexts m)" "\<forall>fd2. fd2 \<noteq> fd \<longrightarrow> io_contexts m' ! fd2 = io_contexts m ! fd2"
    and "list_all (\<lambda>r. case r of None \<Rightarrow> True | Some (fd2, _) \<Rightarrow> fd2 \<noteq> fd) rs"
  shows "reports_ok m' rs \<longleftrightarrow> reports_ok m rs" "map (report_tasks m') rs = map (report_tasks m) rs"
  using assms by (induction m rs rule: reports_ok.induct) (simp_all add: Let_def)

lemma handle_events_exact:
  "io_inv m \<Longrightarrow> reports_ok m rs \<Longrightarrow>
   \<exists>m'. handle_events rs m = Inr m' \<and> map snd (io_scheduled m') = map snd (io_scheduled m) @ concat (map (report_tasks m) rs)"
proof (induction rs m rule: handle_events.induct)
  case (3 fd reported rt2 rs m)
  from "3.prems"(2) have p: "fd < length (io_contexts m)" "registered_only reported (fc_events (io_contexts m ! fd))"
    "list_all (\<lambda>r. case r of None \<Rightarrow> True | Some (fd2, _) \<Rightarrow> fd2 \<noteq> fd) rs" "reports_ok m rs" by simp_all
  obtain m1 where m1: "handle_event rt2 fd reported m = Inr m1" "io_inv m1" "length (io_contexts m1) = length (io_contexts m)"
    "\<forall>fd2. fd2 \<noteq> fd \<longrightarrow> io_contexts m1 ! fd2 = io_contexts m ! fd2"
    "map snd (io_scheduled m1) = map snd (io_scheduled m) @ report_tasks m (Some (fd, reported, rt2))"
    using handle_event_exact[OF "3.prems"(1) p(1,2)] by blast
  note same = same_contexts_reports[OF m1(3,4) p(3)]
  have "reports_ok m1 rs" using same(1) p(4) by simp
  from "3.IH"[OF m1(2) this] obtain m' where m': "handle_events rs m1 = Inr m'"
    "map snd (io_scheduled m') = map snd (io_scheduled m1) @ concat (map (report_tasks m1) rs)" by blast
  show ?case using m1(1,5) m' same(2) by (intro exI[of _ m']) simp
qed auto

lemma reports_ok_within: "reports_ok m rs \<Longrightarrow> reports_within (length (io_contexts m)) rs"
  by (induction m rs rule: reports_ok.induct) auto

lemma report_tasks_scheduled: "io_contexts m' = io_contexts m \<Longrightarrow> report_tasks m' r = report_tasks m r \<and> reports_ok m' rs = reports_ok m rs"
proof
  assume e: "io_contexts m' = io_contexts m"
  show "report_tasks m' r = report_tasks m r" using e by (cases "(m, r)" rule: report_tasks.cases) auto
  show "reports_ok m' rs = reports_ok m rs" using e by (induction m rs rule: reports_ok.induct) auto
qed

lemma idle_round_exact:
  assumes "io_inv m" "reports_ok m rs"
  shows "\<exists>m'. idle_round self cbs rs m = Inr m' \<and>
    map snd (io_scheduled m') = map snd (io_scheduled m) @ map timer_task cbs @ concat (map (report_tasks m) rs)"
proof -
  define m0 where "m0 = m\<lparr>io_scheduled := io_scheduled m @ map (\<lambda>cb. (self, timer_task cb)) cbs\<rparr>"
  have m0: "io_contexts m0 = io_contexts m" "idle_round self cbs rs m = handle_events rs m0"
    "map snd (io_scheduled m0) = map snd (io_scheduled m) @ map timer_task cbs"
    by (simp_all add: m0_def idle_round_def timer_task_def comp_def)
  have "io_inv m0" using assms(1) by (simp add: io_inv_def m0_def)
  moreover have same: "reports_ok m0 rs" "report_tasks m0 = report_tasks m"
    using report_tasks_scheduled[OF m0(1)] assms(2) by auto
  ultimately show ?thesis using handle_events_exact[of m0 rs] by (simp add: m0)
qed

section \<open>The end of the loop and the timers\<close>

lemma no_pending: "io_inv m \<Longrightarrow> io_pending m = 0 \<longleftrightarrow> (\<forall>c \<in> set (io_contexts m). fc_events c = 0)"
proof -
  assume inv: "io_inv m"
  have one: "n_events c = 0 \<longleftrightarrow> fc_events c = 0" if "c \<in> set (io_contexts m)" for c
  proof -
    have "context_ok c" using inv that by (simp add: io_inv_def)
    then show ?thesis by (cases rule: context_cases) (auto simp: n_events_def event_defs)
  qed
  have "io_pending m = 0 \<longleftrightarrow> sum_list (map n_events (io_contexts m)) = 0"
    using inv by (metis io_inv_def unat_eq_zero)
  then show ?thesis using one by auto
qed

lemma collected_next: "collected now nt (snd (getNextTimer t m)) = collected now nt m"
  "tm_store (snd (getNextTimer t m)) = tm_store m" "active (snd (getNextTimer t m)) a \<longleftrightarrow> active m a"
  by (auto simp: getNextTimer_def collected_def collects_def detectClockRollover_def active_def split: list.splits)

lemma next_timer_none: "now \<noteq> 0 \<Longrightarrow> fst (getNextTimer now m) = - 1 \<longleftrightarrow> tm_timers m = []"
proof (cases "tm_timers m")
  case (Cons e ts)
  assume now: "now \<noteq> 0"
  have "t_next (tm_store m (fst e)) - now \<noteq> - 1" if "\<not> now > t_next (tm_store m (fst e))"
  proof
    assume "t_next (tm_store m (fst e)) - now = - 1"
    then have "t_next (tm_store m (fst e)) = now - 1" by (simp add: algebra_simps)
    moreover have "now - 1 < now" using now by (simp add: word_less_nat_alt unat_minus_one unat_gt_0)
    ultimately show False using that by simp
  qed
  then show ?thesis using Cons by (auto simp: getNextTimer_def split: prod.splits)
qed (simp add: getNextTimer_def)

lemma collected_callbacks:
  assumes "timer_run tm" "\<not> active tm nt"
  shows "List.map_filter id (fst (listExpiredCb now nt tm)) = map (\<lambda>a. the (t_cb (tm_store tm a))) (collected now nt tm)"
proof -
  have some: "t_cb (tm_store tm a) \<noteq> None" if "a \<in> set (collected now nt tm)" for a
    using expiry_effect_parts(2)[OF assms] timer_run_ok[OF assms(1)] that by (auto simp: timers_ok_def)
  have "List.map_filter id (map (\<lambda>a. t_cb (tm_store tm a)) xs) = map (\<lambda>a. the (t_cb (tm_store tm a))) xs"
    if "\<forall>a \<in> set xs. t_cb (tm_store tm a) \<noteq> None" for xs
    using that by (induction xs) (auto simp: map_filter_simps)
  then show ?thesis using expiry_effect_parts(1)[OF assms] some by simp
qed

lemma idle_turn_result:
  assumes "timer_run tm" "io_run m" "\<not> active tm nt" "reports_ok m reports" "now1 \<noteq> 0"
  shows "\<exists>goes_on tm' m'. idle_turn self s now1 now2 nt reports tm m = Inr (goes_on, tm', m') \<and> timer_run tm' \<and> io_run m' \<and>
    (\<not> goes_on \<longleftrightarrow> (\<nexists>a. active tm a) \<and> (\<forall>c \<in> set (io_contexts m). fc_events c = 0) \<and> stopping s) \<and>
    map snd (io_scheduled m') = map snd (io_scheduled m) @
      (if goes_on then map (\<lambda>a. timer_task (the (t_cb (tm_store tm a)))) (collected now2 nt tm) @ concat (map (report_tasks m) reports) else [])"
proof -
  obtain t tm1 where g: "getNextTimer now1 tm = (t, tm1)" by fastforce
  have tm1: "timer_run tm1" "\<not> active tm1 nt" "collected now2 nt tm1 = collected now2 nt tm" "tm_store tm1 = tm_store tm"
    using run_getNextTimer[OF assms(1), of now1] collected_next(1)[of now2 nt now1 tm] collected_next(2)[of now1 tm] collected_next(3)[of now1 tm nt] assms(3) g by simp_all
  have "tm_timers tm = [] \<longleftrightarrow> (\<nexists>a. active tm a)" by (cases "tm_timers tm") (auto simp: active_def)
  then have stop: "IOManager_stopping t m s \<longleftrightarrow> (\<nexists>a. active tm a) \<and> (\<forall>c \<in> set (io_contexts m). fc_events c = 0) \<and> stopping s"
    using next_timer_none[OF assms(5), of tm] no_pending[OF io_run_inv[OF assms(2)]] g by (simp add: IOManager_stopping_def)
  show ?thesis
  proof (cases "IOManager_stopping t m s")
    case True
    then have "idle_turn self s now1 now2 nt reports tm m = Inr (False, tm1, m)" by (simp add: idle_turn_def g)
    then show ?thesis using True stop tm1(1) assms(2) by (intro exI[of _ False]) simp
  next
    case False
    obtain cbs tm2 where l: "listExpiredCb now2 nt tm1 = (cbs, tm2)" by fastforce
    have tm2: "timer_run tm2" using run_listExpiredCb[OF tm1(1,2), of now2] l by simp
    have cbs: "List.map_filter id cbs = map (\<lambda>a. the (t_cb (tm_store tm a))) (collected now2 nt tm)"
      using collected_callbacks[OF tm1(1,2), of now2] l tm1(3,4) by simp
    obtain m1 where m1: "idle_round self (List.map_filter id cbs) reports m = Inr m1"
      "map snd (io_scheduled m1) = map snd (io_scheduled m) @ map timer_task (List.map_filter id cbs) @ concat (map (report_tasks m) reports)"
      using idle_round_exact[OF io_run_inv[OF assms(2)] assms(4)] by blast
    have "io_run m1" by (rule io_idle[OF assms(2) reports_ok_within[OF assms(4)] m1(1)])
    moreover have "idle_turn self s now1 now2 nt reports tm m = Inr (True, tm2, m1)"
      using False m1(1) by (simp add: idle_turn_def g l)
    ultimately show ?thesis using tm2 m1(2) False stop by (intro exI[of _ True]) (simp add: cbs comp_def)
  qed
qed

lemma idle_turn_timers:
  "idle_turn self s now1 now2 nt reports tm m = Inr (goes_on, tm', m') \<Longrightarrow> goes_on \<Longrightarrow> tm' = snd (listExpiredCb now2 nt (snd (getNextTimer now1 tm)))"
  by (auto simp: idle_turn_def success_iff split: prod.splits if_splits)



end
