(* ===== verification/HookWait.thy ===== *)
theory HookWait
  imports FdHook IdleLoop
begin

text \<open>
  The waits inside the hooked calls of \<open>hook.cc\<close>: how a fiber in \<open>do_io\<close> is suspended until its event is reported or its timer runs out, as steps that
  the threads of the scheduler interleave, and how a sleeping fiber is woken by the idle loop.
\<close>

section \<open>Waiting for an event with a timeout\<close>

text \<open>
  Where the fiber is: about to call the original function, between adding the timer and adding the event, suspended, scheduled again but not yet
  resumed, or returned with a result and \<open>errno\<close>. Adding the event and the \<open>yield\<close> after it are one step.
\<close>

datatype io_point = Calling | Arming | Suspended | Woken | Returned int int

text \<open>
  \<open>iw_timeout\<close> tells whether the context has a timeout, \<open>iw_timer\<close> whether the timer of this wait is active, \<open>iw_due\<close> counts its collected callbacks that have
  not run yet, \<open>iw_event\<close> whether the event is registered for the fiber, \<open>iw_cancelled\<close> is the member of \<open>timer_info\<close>. The last two count the
  suspensions of the fiber and how often it was scheduled.
\<close>

record io_wait =
  iw_point :: io_point
  iw_timeout :: bool
  iw_timer :: bool
  iw_due :: nat
  iw_event :: bool
  iw_cancelled :: int
  iw_suspended :: nat
  iw_scheduled :: nat

definition io_start :: "bool \<Rightarrow> io_wait" where
  "io_start to = \<lparr>iw_point = Calling, iw_timeout = to, iw_timer = False, iw_due = 0, iw_event = False, iw_cancelled = 0,
     iw_suspended = 0, iw_scheduled = 0\<rparr>"

text \<open>The original call, repeated while it is interrupted; when it would block, the timer is added.\<close>

definition io_call :: "int \<Rightarrow> int \<Rightarrow> io_wait \<Rightarrow> io_wait" where
  "io_call n e w =
     (if n = - 1 \<and> e = EINTR then w
      else if n = - 1 \<and> e = EAGAIN then w\<lparr>iw_point := Arming, iw_timer := iw_timeout w\<rparr>
      else w\<lparr>iw_point := Returned n e\<rparr>)"

text \<open>\<open>addEvent\<close> with its result, then the \<open>yield\<close>; on an error the timer is cancelled.\<close>

definition io_add_event :: "int \<Rightarrow> int \<Rightarrow> io_wait \<Rightarrow> io_wait" where
  "io_add_event rt e w =
     (if rt \<noteq> 0 then w\<lparr>iw_timer := False, iw_point := Returned (- 1) e\<rparr>
      else w\<lparr>iw_event := True, iw_point := Suspended, iw_suspended := Suc (iw_suspended w)\<rparr>)"

text \<open>The event of the fiber is triggered, by the idle loop or by \<open>cancelEvent\<close>: it is unregistered and the fiber is scheduled.\<close>

definition io_trigger :: "io_wait \<Rightarrow> io_wait" where
  "io_trigger w = w\<lparr>iw_event := False, iw_point := Woken, iw_scheduled := Suc (iw_scheduled w)\<rparr>"

text \<open>The timer expires: its callback is scheduled.\<close>

definition io_expire :: "io_wait \<Rightarrow> io_wait" where
  "io_expire w = w\<lparr>iw_timer := False, iw_due := Suc (iw_due w)\<rparr>"

text \<open>The callback runs. The condition is gone once \<open>do_io\<close> has returned.\<close>

definition io_timer_callback :: "io_wait \<Rightarrow> io_wait" where
  "io_timer_callback w =
     (let w1 = w\<lparr>iw_due := iw_due w - 1\<rparr>
      in case iw_point w of
           Returned _ _ \<Rightarrow> w1
         | _ \<Rightarrow> if iw_cancelled w \<noteq> 0 then w1
                else let w2 = w1\<lparr>iw_cancelled := ETIMEDOUT\<rparr> in if iw_event w2 then io_trigger w2 else w2)"

text \<open>The fiber goes on: the timer is cancelled, and a timeout is reported or the call is tried again.\<close>

definition io_resume :: "io_wait \<Rightarrow> io_wait" where
  "io_resume w =
     (let w1 = w\<lparr>iw_timer := False\<rparr>
      in if iw_cancelled w \<noteq> 0 then w1\<lparr>iw_point := Returned (- 1) (iw_cancelled w)\<rparr> else w1\<lparr>iw_point := Calling\<rparr>)"

inductive io_wait_step :: "io_wait \<Rightarrow> io_wait \<Rightarrow> bool" where
  iw_call: "iw_point w = Calling \<Longrightarrow> io_wait_step w (io_call n e w)"
| iw_add: "iw_point w = Arming \<Longrightarrow> io_wait_step w (io_add_event rt e w)"
| iw_report: "iw_event w \<Longrightarrow> io_wait_step w (io_trigger w)"
| iw_expire: "iw_timer w \<Longrightarrow> io_wait_step w (io_expire w)"
| iw_callback: "0 < iw_due w \<Longrightarrow> io_wait_step w (io_timer_callback w)"
| iw_resume: "iw_point w = Woken \<Longrightarrow> io_wait_step w (io_resume w)"

inductive io_wait_run :: "bool \<Rightarrow> io_wait \<Rightarrow> bool" for to where
  iw_start: "io_wait_run to (io_start to)"
| iw_step: "io_wait_run to w \<Longrightarrow> io_wait_step w w' \<Longrightarrow> io_wait_run to w'"

inductive_cases io_wait_stepE: "io_wait_step w w'"

section \<open>Every suspension is ended once\<close>

definition io_wait_inv :: "bool \<Rightarrow> io_wait \<Rightarrow> bool" where
  "io_wait_inv to w \<longleftrightarrow>
     iw_timeout w = to \<and> (iw_event w \<longleftrightarrow> iw_point w = Suspended) \<and>
     iw_suspended w = iw_scheduled w + (if iw_point w = Suspended then 1 else 0) \<and>
     iw_cancelled w \<in> {0, ETIMEDOUT} \<and>
     (\<not> to \<longrightarrow> iw_cancelled w = 0 \<and> \<not> iw_timer w \<and> iw_due w = 0) \<and>
     (iw_timer w \<longrightarrow> iw_point w \<in> {Arming, Suspended, Woken}) \<and>
     (iw_cancelled w = 0 \<and> to \<and> iw_point w \<in> {Arming, Suspended} \<longrightarrow> iw_timer w \<or> 0 < iw_due w)"

lemmas io_wait_ops = io_call_def io_add_event_def io_trigger_def io_expire_def io_timer_callback_def io_resume_def Let_def

lemma ETIMEDOUT_nonzero [simp]: "ETIMEDOUT \<noteq> 0"
  by (simp add: ETIMEDOUT_def)

lemma io_wait_step_inv: "io_wait_step w w' \<Longrightarrow> io_wait_inv to w \<Longrightarrow> io_wait_inv to w'"
proof (induction rule: io_wait_step.induct)
  case (iw_call w n e)
  then show ?case by (auto simp: io_wait_inv_def io_wait_ops)
next
  case (iw_add w rt e)
  then show ?case by (auto simp: io_wait_inv_def io_wait_ops)
next
  case (iw_report w)
  then show ?case by (auto simp: io_wait_inv_def io_wait_ops)
next
  case (iw_expire w)
  then show ?case by (auto simp: io_wait_inv_def io_wait_ops)
next
  case (iw_callback w)
  then show ?case by (cases "iw_point w") (auto simp: io_wait_inv_def io_wait_ops)
next
  case (iw_resume w)
  then show ?case by (auto simp: io_wait_inv_def io_wait_ops)
qed

lemma io_wait_run_inv: "io_wait_run to w \<Longrightarrow> io_wait_inv to w"
proof (induction rule: io_wait_run.induct)
  case iw_start
  show ?case by (simp add: io_wait_inv_def io_start_def)
qed (rule io_wait_step_inv)



text \<open>
  The timer is added before the event. When it expires in between, its callback finds no event to cancel and marks the wait as timed out; the
  fiber is then suspended with no timer, and without an event nothing ever wakes it: the timeout is lost.
\<close>

definition lost_timeout :: io_wait where
  "lost_timeout = io_add_event 0 0 (io_timer_callback (io_expire (io_call (- 1) EAGAIN (io_start True))))"

lemma lost_timeout_run: "io_wait_run True lost_timeout"
proof -
  let ?a = "io_call (- 1) EAGAIN (io_start True)"
  have "io_wait_run True ?a" by (rule iw_step[OF iw_start], rule iw_call) (simp add: io_start_def)
  then have "io_wait_run True (io_expire ?a)" by (rule iw_step, intro iw_expire) (simp add: io_wait_ops io_start_def EAGAIN_def EINTR_def)
  then have "io_wait_run True (io_timer_callback (io_expire ?a))" by (rule iw_step, intro iw_callback) (simp add: io_wait_ops)
  then show ?thesis unfolding lost_timeout_def
    by (rule iw_step, intro iw_add) (simp add: io_wait_ops io_start_def EAGAIN_def EINTR_def)
qed

lemma timeout_lost: "io_wait_step lost_timeout w \<Longrightarrow> w = io_trigger lost_timeout"
proof -
  have "iw_point lost_timeout = Suspended" "\<not> iw_timer lost_timeout" "iw_due lost_timeout = 0"
    by (simp_all add: lost_timeout_def io_wait_ops io_start_def EAGAIN_def EINTR_def)
  then show "io_wait_step lost_timeout w \<Longrightarrow> w = io_trigger lost_timeout" by (elim io_wait_stepE) simp_all
qed

section \<open>Sleeping\<close>

text \<open>
  The callback of a sleeper schedules its fiber on the event manager; \<open>a\<close> is the address of the new timer. Without the hook the original
  function is called and the timers stay as they are.
\<close>

datatype sleep_callback = Wake nat

definition hook_sleep :: "bool \<Rightarrow> u32 \<Rightarrow> u64 \<Rightarrow> addr \<Rightarrow> nat \<Rightarrow> sleep_callback TimerManager \<Rightarrow> sleep_callback TimerManager" where
  "hook_sleep enable seconds now a fiber tm =
     (if \<not> enable then tm else snd (addTimer now a (sleep_ms seconds) (Some (Wake fiber)) False tm))"

definition hook_usleep :: "bool \<Rightarrow> u32 \<Rightarrow> u64 \<Rightarrow> addr \<Rightarrow> nat \<Rightarrow> sleep_callback TimerManager \<Rightarrow> sleep_callback TimerManager" where
  "hook_usleep enable usec now a fiber tm =
     (if \<not> enable then tm else snd (addTimer now a (usleep_ms usec) (Some (Wake fiber)) False tm))"

definition hook_nanosleep :: "bool \<Rightarrow> int \<Rightarrow> int \<Rightarrow> u64 \<Rightarrow> addr \<Rightarrow> nat \<Rightarrow> sleep_callback TimerManager \<Rightarrow> sleep_callback TimerManager" where
  "hook_nanosleep enable tv_sec tv_nsec now a fiber tm =
     (if \<not> enable then tm else snd (addTimer now a (nanosleep_ms tv_sec tv_nsec) (Some (Wake fiber)) False tm))"

lemma one_timer:
  assumes "tm_timers tm = []"
  shows "tm_timers (snd (addTimer now a ms cb r tm)) = [(a, ())]"
    "tm_store (snd (addTimer now a ms cb r tm)) a = Timer_new now ms cb r"
    "tm_previousTime (snd (addTimer now a ms cb r tm)) = tm_previousTime tm"
  using assms by (simp_all add: addTimer_def insertTimer_def set_insert_def write_timer_def Let_def)

lemma one_collected:
  assumes "tm_timers tm = []" "tm_previousTime tm \<le> now2"
  shows "collected now2 nt (snd (addTimer now a ms cb r tm)) =
    (if now + ms \<le> now2 \<and> (a < nt \<or> now + ms = now2) then [a] else [])"
proof -
  have "\<not> fst (detectClockRollover now2 (snd (addTimer now a ms cb r tm)))"
    using assms(2) one_timer(3)[OF assms(1), of now a ms cb r] by (simp add: detectClockRollover_def not_less)
  then show ?thesis using one_timer[OF assms(1), of now a ms cb r]
    by (auto simp: collected_def collects_def expired_part_def Let_def Comparator_addr Timer_new_def)
qed



text \<open>
  When the address of the sleeper's timer is not below that of the turn's timer, the sleeper is only woken by a turn that runs in the very
  millisecond of its deadline, since the set of timers is ordered by address.
\<close>

lemma sleeper_missed:
  assumes "timer_run tm" "tm_timers tm = []" "tm_previousTime tm \<le> now2" "nt < a" "now + sleep_ms seconds \<noteq> now2"
  shows "fst (listExpiredCb now2 nt (hook_sleep True seconds now a fiber tm)) = []"
proof -
  have sleep: "hook_sleep True seconds now a fiber tm = snd (addTimer now a (sleep_ms seconds) (Some (Wake fiber)) False tm)"
    by (simp add: hook_sleep_def)
  have "timer_run (hook_sleep True seconds now a fiber tm)"
    unfolding sleep using assms(2) by (intro run_add[OF assms(1)]) (simp add: active_def)
  moreover have "\<not> active (hook_sleep True seconds now a fiber tm) nt"
    using one_timer(1)[OF assms(2)] assms(4) by (simp add: sleep active_def)
  ultimately show ?thesis
    using expiry_effect_parts(1)[of "hook_sleep True seconds now a fiber tm" nt now2] one_collected[OF assms(2,3)] assms(4,5) by (simp add: sleep)
qed

end
