(* ===== verification/Address.thy ===== *)
theory Address
  imports Serialize ByteArrayIO HttpMessage
begin

text \<open>
  Socket addresses, \<open>address.h\<close> and \<open>address.cc\<close>: ports and addresses in network byte order, networks, broadcast addresses and
  subnet masks, text forms, the paths of local sockets, the order on addresses, name resolution and the addresses of interfaces.
  \<open>getaddrinfo\<close>, \<open>getifaddrs\<close> and \<open>inet_pton\<close> are calls of the C library and arguments of the definitions.
\<close>

section \<open>Masks\<close>

text \<open>A result of a method that may be the null pointer or undefined behaviour.\<close>

datatype 'a made = Made 'a | Null_result | Undefined

text \<open>
  \<open>(1 << (sizeof(T) * 8 - bits)) - 1\<close> on a signed 32-bit integer: a shift by 32 or more is undefined, and after a shift by 31
  the subtraction overflows.
\<close>

definition CreateMask :: "nat \<Rightarrow> nat \<Rightarrow> u32 option" where
  "CreateMask width bits = (if bits \<le> width \<and> width - bits < 31 then Some (push_bit (width - bits) 1 - 1) else None)"

function CountBytes :: "u32 \<Rightarrow> nat" where
  "CountBytes value = (if value \<noteq> 0 then Suc (CountBytes (value AND (value - 1))) else 0)"
  by pat_completeness auto
termination
proof (relation "measure unat", simp)
  fix v :: u32
  assume "v \<noteq> 0"
  then have "unat (v - 1) < unat v" by (simp add: unat_minus_one unat_gt_0)
  moreover have "unat (v AND (v - 1)) \<le> unat (v - 1)" by (simp add: word_le_nat_alt[symmetric] word_and_le1)
  ultimately show "(v AND (v - 1), v) \<in> measure unat" by simp
qed

declare CountBytes.simps [simp del]

section \<open>IPv4\<close>

text \<open>The fields as they are stored, in network byte order; \<open>host\<close> is the byte order of the machine.\<close>

record sockaddr_in =
  in_port :: u16
  in_addr :: u32
  in_zero :: "byte list"

definition IPv4Address_new :: "byte \<Rightarrow> u32 \<Rightarrow> u16 \<Rightarrow> sockaddr_in" where
  "IPv4Address_new host address pt =
     \<lparr>in_port = byteswapOnLittleEndian host pt, in_addr = byteswapOnLittleEndian host address, in_zero = replicate 8 0\<rparr>"

definition IPv4_getPort :: "byte \<Rightarrow> sockaddr_in \<Rightarrow> u32" where
  "IPv4_getPort host a = ucast (byteswapOnLittleEndian host (in_port a))"

definition IPv4_setPort :: "byte \<Rightarrow> u16 \<Rightarrow> sockaddr_in \<Rightarrow> sockaddr_in" where
  "IPv4_setPort host v a = a\<lparr>in_port := byteswapOnLittleEndian host v\<rparr>"

definition IPv4_insert :: "byte \<Rightarrow> sockaddr_in \<Rightarrow> string" where
  "IPv4_insert host a =
     (let addr = byteswapOnLittleEndian host (in_addr a)
      in dec_string (unat (drop_bit 24 addr AND 255)) @ ''.'' @ dec_string (unat (drop_bit 16 addr AND 255)) @ ''.'' @
         dec_string (unat (drop_bit 8 addr AND 255)) @ ''.'' @ dec_string (unat (addr AND 255)) @
         '':'' @ dec_string (unat (byteswapOnLittleEndian host (in_port a))))"

definition IPv4_broadcastAddress :: "byte \<Rightarrow> nat \<Rightarrow> sockaddr_in \<Rightarrow> sockaddr_in made" where
  "IPv4_broadcastAddress host prefix_len a =
     (if prefix_len > 32 then Null_result
      else case CreateMask 32 prefix_len of
             None \<Rightarrow> Undefined
           | Some m \<Rightarrow> Made (a\<lparr>in_addr := in_addr a OR byteswapOnLittleEndian host m\<rparr>))"

definition IPv4_networkAddress :: "byte \<Rightarrow> nat \<Rightarrow> sockaddr_in \<Rightarrow> sockaddr_in made" where
  "IPv4_networkAddress host prefix_len a =
     (if prefix_len > 32 then Null_result
      else case CreateMask 32 prefix_len of
             None \<Rightarrow> Undefined
           | Some m \<Rightarrow> Made (a\<lparr>in_addr := in_addr a AND byteswapOnLittleEndian host (NOT m)\<rparr>))"

definition IPv4_subnetMask :: "byte \<Rightarrow> nat \<Rightarrow> sockaddr_in made" where
  "IPv4_subnetMask host prefix_len =
     (case CreateMask 32 prefix_len of
        None \<Rightarrow> Undefined
      | Some m \<Rightarrow> Made \<lparr>in_port = 0, in_addr = NOT (byteswapOnLittleEndian host m), in_zero = replicate 8 0\<rparr>)"

section \<open>IPv6\<close>

record sockaddr_in6 =
  in6_port :: u16
  in6_flowinfo :: u32
  in6_addr :: "byte list"
  in6_scope :: u32

definition IPv6Address_empty :: sockaddr_in6 where
  "IPv6Address_empty = \<lparr>in6_port = 0, in6_flowinfo = 0, in6_addr = replicate 16 0, in6_scope = 0\<rparr>"

definition IPv6Address_new :: "byte \<Rightarrow> byte list \<Rightarrow> u16 \<Rightarrow> sockaddr_in6" where
  "IPv6Address_new host address pt = IPv6Address_empty\<lparr>in6_port := byteswapOnLittleEndian host pt, in6_addr := take 16 address\<rparr>"

definition IPv6_getPort :: "byte \<Rightarrow> sockaddr_in6 \<Rightarrow> u32" where
  "IPv6_getPort host a = ucast (byteswapOnLittleEndian host (in6_port a))"

definition IPv6_setPort :: "byte \<Rightarrow> u16 \<Rightarrow> sockaddr_in6 \<Rightarrow> sockaddr_in6" where
  "IPv6_setPort host v a = a\<lparr>in6_port := byteswapOnLittleEndian host v\<rparr>"

text \<open>The masks of one byte; they are always defined.\<close>

definition byte_mask :: "nat \<Rightarrow> byte" where
  "byte_mask bits = ucast (case CreateMask 8 bits of Some m \<Rightarrow> m | None \<Rightarrow> 0)"

definition fill_from :: "nat \<Rightarrow> byte \<Rightarrow> byte list \<Rightarrow> byte list" where
  "fill_from i v bs = take i bs @ replicate (length bs - i) v"

definition IPv6_broadcastAddress :: "nat \<Rightarrow> sockaddr_in6 \<Rightarrow> sockaddr_in6 made" where
  "IPv6_broadcastAddress prefix_len a =
     (let k = prefix_len div 8
      in if k \<ge> 16 then Undefined
         else Made (a\<lparr>in6_addr := fill_from (k + 1) 255 ((in6_addr a)[k := (in6_addr a ! k) OR byte_mask (prefix_len mod 8)])\<rparr>))"

definition IPv6_networkAddress :: "nat \<Rightarrow> sockaddr_in6 \<Rightarrow> sockaddr_in6 made" where
  "IPv6_networkAddress prefix_len a =
     (let k = prefix_len div 8
      in if k \<ge> 16 then Undefined
         else Made (a\<lparr>in6_addr := fill_from (k + 1) 0 ((in6_addr a)[k := (in6_addr a ! k) AND byte_mask (prefix_len mod 8)])\<rparr>))"

definition IPv6_subnetMask :: "nat \<Rightarrow> sockaddr_in6 made" where
  "IPv6_subnetMask prefix_len =
     (let k = prefix_len div 8
      in if k \<ge> 16 then Undefined
         else Made (IPv6Address_empty\<lparr>in6_addr := replicate k 255 @ [NOT (byte_mask (prefix_len mod 8))] @ replicate (15 - k) 0\<rparr>))"

text \<open>The groups of two bytes as the machine reads them, and printing: the first run of zeros is left out.\<close>

fun groups :: "byte \<Rightarrow> byte list \<Rightarrow> u16 list" where
  "groups host (a # b # bs) = word_of_mem host [a, b] # groups host bs"
| "groups host _ = []"

fun hex_string :: "nat \<Rightarrow> string" where
  "hex_string n = (if n < 16 then [hex_digit n] else hex_string (n div 16) @ [hex_digit (n mod 16)])"

declare hex_string.simps [simp del]

fun insert_groups :: "byte \<Rightarrow> u16 list \<Rightarrow> nat \<Rightarrow> bool \<Rightarrow> u16 list \<Rightarrow> string \<times> bool" where
  "insert_groups host addr i used_zeros [] = ([], used_zeros)"
| "insert_groups host addr i used_zeros (g # gs) =
     (if g = 0 \<and> \<not> used_zeros then insert_groups host addr (Suc i) used_zeros gs
      else let skip = (0 < i \<and> addr ! (i - 1) = 0 \<and> \<not> used_zeros);
               (rest, used) = insert_groups host addr (Suc i) (used_zeros \<or> skip) gs
           in ((if skip then '':'' else []) @ (if 0 < i then '':'' else []) @ hex_string (unat (byteswapOnLittleEndian host g)) @ rest, used))"

definition IPv6_insert :: "byte \<Rightarrow> sockaddr_in6 \<Rightarrow> string" where
  "IPv6_insert host a =
     (let addr = groups host (in6_addr a);
          (body, used_zeros) = insert_groups host addr 0 False addr
      in ''['' @ body @ (if \<not> used_zeros \<and> addr ! 7 = 0 then ''::'' else []) @ '']:'' @
         dec_string (unat (byteswapOnLittleEndian host (in6_port a))))"

section \<open>Local sockets\<close>

definition sun_path_size :: nat where "sun_path_size = 108"
definition sun_path_offset :: nat where "sun_path_offset = 2"

record UnixAddress =
  un_path :: string
  un_length :: nat

definition UnixAddress_empty :: UnixAddress where
  "UnixAddress_empty = \<lparr>un_path = replicate sun_path_size NUL, un_length = sun_path_offset + (sun_path_size - 1)\<rparr>"

text \<open>\<open>None\<close> is the exception for a path that is too long. The copy includes the final zero byte.\<close>

definition UnixAddress_new :: "string \<Rightarrow> UnixAddress option" where
  "UnixAddress_new path =
     (let len = length path + 1 - (if path \<noteq> [] \<and> hd path = NUL then 1 else 0)
      in if len > sun_path_size then None
         else Some \<lparr>un_path = overwrite 0 (take len (path @ [NUL])) (replicate sun_path_size NUL), un_length = len + sun_path_offset\<rparr>)"

definition UnixAddress_getPath :: "UnixAddress \<Rightarrow> string" where
  "UnixAddress_getPath a =
     (if un_length a > sun_path_offset \<and> un_path a ! 0 = NUL
      then [CHR 0x5C, CHR ''0''] @ take (un_length a - sun_path_offset - 1) (drop 1 (un_path a))
      else c_str (un_path a))"

section \<open>Splitting a host\<close>

text \<open>
  The beginning of \<open>Address::Lookup\<close>: node and service of a string. \<open>memchr\<close> is the first position of a character.
\<close>

definition memchr :: "char \<Rightarrow> string \<Rightarrow> nat option" where
  "memchr c s = (if c \<in> set s then Some (length (takeWhile (\<lambda>x. x \<noteq> c) s)) else None)"

definition split_host :: "string \<Rightarrow> string \<times> string option" where
  "split_host host =
     (let (node, service) =
            (if host \<noteq> [] \<and> hd host = CHR ''['' then
               (case memchr (CHR '']'') (tl host) of
                  Some n \<Rightarrow>
                    (take n (tl host),
                     if drop (n + 2) host \<noteq> [] \<and> hd (drop (n + 2) host) = CHR '':'' then Some (c_str (drop (n + 3) host)) else None)
                | None \<Rightarrow> ([], None))
             else ([], None));
          (node1, service1) =
            (if node = [] then
               (case memchr (CHR '':'') host of
                  Some n \<Rightarrow>
                    (if memchr (CHR '':'') (drop (n + 1) host) = None
                     then (take n host, Some (c_str (drop (n + 1) host)))
                     else (node, Some (c_str (drop n host))))
                | None \<Rightarrow> (node, None))
             else (node, service))
      in (if node1 = [] then host else node1, service1))"

section \<open>Addresses of every family\<close>

definition AF_UNSPEC :: u16 where "AF_UNSPEC = 0"
definition AF_UNIX :: u16 where "AF_UNIX = 1"
definition AF_INET :: u16 where "AF_INET = 2"
definition AF_INET6 :: u16 where "AF_INET6 = 10"

text \<open>A \<open>sockaddr\<close> by its family; the other ones are known by their family and the 14 bytes after it.\<close>

datatype sockaddr = SA_in sockaddr_in | SA_in6 sockaddr_in6 | SA_other u16 "byte list"

datatype Address = IPv4Address sockaddr_in | IPv6Address sockaddr_in6 | UnixAddress UnixAddress | UnknownAddress u16 "byte list"

fun getFamily :: "Address \<Rightarrow> u16" where
  "getFamily (IPv4Address a) = AF_INET"
| "getFamily (IPv6Address a) = AF_INET6"
| "getFamily (UnixAddress a) = AF_UNIX"
| "getFamily (UnknownAddress f bs) = f"

text \<open>The memory behind \<open>getAddr\<close>, and its length.\<close>

definition in_bytes :: "byte \<Rightarrow> sockaddr_in \<Rightarrow> byte list" where
  "in_bytes host a = mem_of_word host AF_INET @ mem_of_word host (in_port a) @ mem_of_word host (in_addr a) @ in_zero a"

definition in6_bytes :: "byte \<Rightarrow> sockaddr_in6 \<Rightarrow> byte list" where
  "in6_bytes host a = mem_of_word host AF_INET6 @ mem_of_word host (in6_port a) @ mem_of_word host (in6_flowinfo a) @ in6_addr a @
     mem_of_word host (in6_scope a)"

fun sockaddr_bytes :: "byte \<Rightarrow> sockaddr \<Rightarrow> byte list" where
  "sockaddr_bytes host (SA_in a) = in_bytes host a"
| "sockaddr_bytes host (SA_in6 a) = in6_bytes host a"
| "sockaddr_bytes host (SA_other f bs) = mem_of_word host f @ bs"

fun getAddr :: "byte \<Rightarrow> Address \<Rightarrow> byte list" where
  "getAddr host (IPv4Address a) = in_bytes host a"
| "getAddr host (IPv6Address a) = in6_bytes host a"
| "getAddr host (UnixAddress a) = mem_of_word host AF_UNIX @ map of_char (un_path a)"
| "getAddr host (UnknownAddress f bs) = mem_of_word host f @ bs"

fun getAddrLen :: "Address \<Rightarrow> nat" where
  "getAddrLen (IPv4Address a) = 16"
| "getAddrLen (IPv6Address a) = 28"
| "getAddrLen (UnixAddress a) = un_length a"
| "getAddrLen (UnknownAddress f bs) = 16"

definition setAddrLen :: "u32 \<Rightarrow> UnixAddress \<Rightarrow> UnixAddress" where
  "setAddrLen v a = a\<lparr>un_length := unat v\<rparr>"

fun Address_toString :: "byte \<Rightarrow> Address \<Rightarrow> string" where
  "Address_toString host (IPv4Address a) = IPv4_insert host a"
| "Address_toString host (IPv6Address a) = IPv6_insert host a"
| "Address_toString host (UnixAddress a) = UnixAddress_getPath a"
| "Address_toString host (UnknownAddress f bs) = ''[UnknownAddress family='' @ dec_string (unat f) @ '']''"

fun create_address :: "sockaddr \<Rightarrow> Address" where
  "create_address (SA_in a) = IPv4Address a"
| "create_address (SA_in6 a) = IPv6Address a"
| "create_address (SA_other f bs) = UnknownAddress f bs"

definition Address_Create :: "sockaddr option \<Rightarrow> Address option" where
  "Address_Create addr = map_option create_address addr"

fun memcmp :: "byte list \<Rightarrow> byte list \<Rightarrow> int" where
  "memcmp (x # xs) (y # ys) = (if x < y then - 1 else if y < x then 1 else memcmp xs ys)"
| "memcmp _ _ = 0"

definition Address_less :: "byte \<Rightarrow> Address \<Rightarrow> Address \<Rightarrow> bool" where
  "Address_less host a rhs =
     (let minlen = min (getAddrLen a) (getAddrLen rhs);
          result = memcmp (take minlen (getAddr host a)) (take minlen (getAddr host rhs))
      in if result < 0 then True
         else if result > 0 then False
         else getAddrLen a < getAddrLen rhs)"

definition Address_eq :: "byte \<Rightarrow> Address \<Rightarrow> Address \<Rightarrow> bool" where
  "Address_eq host a rhs \<longleftrightarrow>
     getAddrLen a = getAddrLen rhs \<and> memcmp (take (getAddrLen a) (getAddr host a)) (take (getAddrLen a) (getAddr host rhs)) = 0"

text \<open>\<open>IPAddress::setPort\<close>, by the dynamic type.\<close>

fun setPort :: "byte \<Rightarrow> u16 \<Rightarrow> Address \<Rightarrow> Address" where
  "setPort host v (IPv4Address a) = IPv4Address (IPv4_setPort host v a)"
| "setPort host v (IPv6Address a) = IPv6Address (IPv6_setPort host v a)"
| "setPort host v a = a"

fun is_ip :: "Address \<Rightarrow> bool" where
  "is_ip (IPv4Address a) = True"
| "is_ip (IPv6Address a) = True"
| "is_ip _ = False"

section \<open>Name resolution\<close>

text \<open>\<open>getaddrinfo\<close> takes node, service, family, type and protocol and gives an error or the addresses.\<close>

type_synonym resolver = "string \<Rightarrow> string option \<Rightarrow> int \<Rightarrow> int \<Rightarrow> int \<Rightarrow> int + sockaddr list"

definition Lookup :: "resolver \<Rightarrow> Address list \<Rightarrow> string \<Rightarrow> int \<Rightarrow> int \<Rightarrow> int \<Rightarrow> bool \<times> Address list" where
  "Lookup getaddrinfo result host family type protocol =
     (case split_host host of (node, service) \<Rightarrow>
        (case getaddrinfo (c_str node) service family type protocol of
           Inl err \<Rightarrow> (False, result)
         | Inr results \<Rightarrow> let r = result @ map create_address results in (r \<noteq> [], r)))"

definition LookupAny :: "resolver \<Rightarrow> string \<Rightarrow> int \<Rightarrow> int \<Rightarrow> int \<Rightarrow> Address option" where
  "LookupAny getaddrinfo host family type protocol =
     (case Lookup getaddrinfo [] host family type protocol of (ok, result) \<Rightarrow> if ok then Some (result ! 0) else None)"

definition LookupAnyIPAddress :: "resolver \<Rightarrow> string \<Rightarrow> int \<Rightarrow> int \<Rightarrow> int \<Rightarrow> Address option" where
  "LookupAnyIPAddress getaddrinfo host family type protocol =
     (case Lookup getaddrinfo [] host family type protocol of (ok, result) \<Rightarrow> if ok then find is_ip result else None)"

text \<open>\<open>IPAddress::Create\<close> takes the first result of a numeric lookup; \<open>inet_pton\<close> gives the stored form of an address or fails.\<close>

definition IPAddress_Create :: "byte \<Rightarrow> (string \<Rightarrow> int + sockaddr list) \<Rightarrow> string \<Rightarrow> u16 \<Rightarrow> Address option" where
  "IPAddress_Create host getaddrinfo address pt =
     (case getaddrinfo address of
        Inl err \<Rightarrow> None
      | Inr results \<Rightarrow>
          let a = create_address (hd results) in if is_ip a then Some (setPort host pt a) else None)"

definition IPv4Address_Create :: "byte \<Rightarrow> (string \<Rightarrow> u32 option) \<Rightarrow> string \<Rightarrow> u16 \<Rightarrow> sockaddr_in option" where
  "IPv4Address_Create host inet_pton address pt =
     (case inet_pton address of
        None \<Rightarrow> None
      | Some v \<Rightarrow> Some \<lparr>in_port = byteswapOnLittleEndian host pt, in_addr = v, in_zero = replicate 8 0\<rparr>)"

definition IPv6Address_Create :: "byte \<Rightarrow> (string \<Rightarrow> byte list option) \<Rightarrow> string \<Rightarrow> u16 \<Rightarrow> sockaddr_in6 option" where
  "IPv6Address_Create host inet_pton address pt =
     (case inet_pton address of
        None \<Rightarrow> None
      | Some v \<Rightarrow> Some (IPv6Address_empty\<lparr>in6_port := byteswapOnLittleEndian host pt, in6_addr := v\<rparr>))"

section \<open>Addresses of interfaces\<close>

text \<open>Name, address and netmask of an interface, as \<open>getifaddrs\<close> gives them; both pointers may be null.\<close>

record ifaddr =
  ifa_name :: string
  ifa_addr :: "sockaddr option"
  ifa_netmask :: "sockaddr option"

fun sa_family :: "sockaddr \<Rightarrow> u16" where
  "sa_family (SA_in a) = AF_INET"
| "sa_family (SA_in6 a) = AF_INET6"
| "sa_family (SA_other f bs) = f"

text \<open>\<open>std::string\<close> is compared by unsigned bytes; an entry of a \<open>std::multimap\<close> goes behind those with the same key.\<close>

definition string_less :: "string comparator" where
  "string_less s t \<longleftrightarrow> ord_class.lexordp (map of_char s :: byte list) (map of_char t)"

fun multimap_insert :: "'k comparator \<Rightarrow> 'k \<Rightarrow> 'v \<Rightarrow> ('k, 'v) omap \<Rightarrow> ('k, 'v) omap" where
  "multimap_insert lt k v [] = [(k, v)]"
| "multimap_insert lt k v ((j, w) # m) = (if lt k j then (k, v) # (j, w) # m else (j, w) # multimap_insert lt k v m)"

definition equal_range :: "'k comparator \<Rightarrow> 'k \<Rightarrow> ('k, 'v) omap \<Rightarrow> 'v list" where
  "equal_range lt k m = map snd (filter (\<lambda>(j, v). \<not> lt j k \<and> \<not> lt k j) m)"

text \<open>The number of one bits of a netmask; \<open>None\<close> is a null pointer.\<close>

definition prefix_in :: "byte \<Rightarrow> sockaddr option \<Rightarrow> nat option" where
  "prefix_in host netmask =
     map_option (\<lambda>sa. CountBytes (word_of_mem host (take 4 (drop 4 (sockaddr_bytes host sa))) :: u32)) netmask"

definition prefix_in6 :: "byte \<Rightarrow> sockaddr option \<Rightarrow> nat option" where
  "prefix_in6 host netmask =
     map_option (\<lambda>sa. sum_list (map (\<lambda>b. CountBytes (ucast b)) (take 16 (drop 8 (sockaddr_bytes host sa))))) netmask"

text \<open>One round of the loop of \<open>GetInterfaceAddresses\<close>; the outer \<open>None\<close> is a null pointer that is read.\<close>

definition interface_entry :: "byte \<Rightarrow> int \<Rightarrow> ifaddr \<Rightarrow> (Address \<times> nat) option option" where
  "interface_entry host family i =
     (if family \<noteq> uint AF_UNSPEC \<and> ifa_addr i \<noteq> None \<and> family \<noteq> uint (sa_family (the (ifa_addr i))) then Some None
      else case ifa_addr i of
             None \<Rightarrow> None
           | Some (SA_in a) \<Rightarrow> map_option (\<lambda>n. Some (create_address (SA_in a), n)) (prefix_in host (ifa_netmask i))
           | Some (SA_in6 a) \<Rightarrow> map_option (\<lambda>n. Some (create_address (SA_in6 a), n)) (prefix_in6 host (ifa_netmask i))
           | Some (SA_other f bs) \<Rightarrow> Some None)"

type_synonym interfaces = "(string, Address \<times> nat) omap"

fun interface_loop :: "byte \<Rightarrow> int \<Rightarrow> ifaddr list \<Rightarrow> interfaces \<Rightarrow> interfaces option" where
  "interface_loop host family [] result = Some result"
| "interface_loop host family (i # ifs) result =
     (case interface_entry host family i of
        None \<Rightarrow> None
      | Some None \<Rightarrow> interface_loop host family ifs result
      | Some (Some e) \<Rightarrow> interface_loop host family ifs (multimap_insert string_less (ifa_name i) e result))"

definition GetInterfaceAddresses_map :: "byte \<Rightarrow> ifaddr list option \<Rightarrow> int \<Rightarrow> interfaces \<Rightarrow> (bool \<times> interfaces) option" where
  "GetInterfaceAddresses_map host getifaddrs family result =
     (case getifaddrs of
        None \<Rightarrow> Some (False, result)
      | Some ifs \<Rightarrow> map_option (\<lambda>r. (r \<noteq> [], r)) (interface_loop host family ifs result))"

definition GetInterfaceAddresses ::
    "byte \<Rightarrow> ifaddr list option \<Rightarrow> string \<Rightarrow> int \<Rightarrow> (Address \<times> nat) list \<Rightarrow> (bool \<times> (Address \<times> nat) list) option" where
  "GetInterfaceAddresses host getifaddrs iface family result =
     (if iface = [] \<or> iface = ''*''
      then Some (True, result @
             (if family = uint AF_INET \<or> family = uint AF_UNSPEC then [(IPv4Address (IPv4Address_new host 0 0), 0)] else []) @
             (if family = uint AF_INET6 \<or> family = uint AF_UNSPEC then [(IPv6Address IPv6Address_empty, 0)] else []))
      else case GetInterfaceAddresses_map host getifaddrs family [] of
             None \<Rightarrow> None
           | Some (False, r) \<Rightarrow> Some (False, result)
           | Some (True, r) \<Rightarrow> let r1 = result @ equal_range string_less iface r in Some (r1 \<noteq> [], r1))"

section \<open>Byte order and bits\<close>

lemma le_bytes_div: "le_bytes n v = map (\<lambda>k. of_nat (v div 256 ^ k)) [0..<n]"
proof (induction n arbitrary: v)
  case (Suc n)
  have "[0..<Suc n] = 0 # map Suc [0..<n]" by (simp add: map_Suc_upt upt_conv_Cons del: upt_Suc)
  then show ?case using Suc[of "v div 256"] by (simp add: comp_def div_mult2_eq)
qed simp

lemma bit_le_bytes:
  fixes w :: "'a::len word"
  assumes "k < n" "j < 8"
  shows "bit (le_bytes n (unat w) ! k) j \<longleftrightarrow> bit w (8 * k + j)"
proof -
  have "256 ^ k = (2 :: nat) ^ (8 * k)" by (simp add: power_mult)
  then have "unat w div 256 ^ k = drop_bit (8 * k) (unat w)" by (simp add: drop_bit_eq_div)
  moreover have "bit (of_nat m :: byte) j \<longleftrightarrow> bit m j" for m using assms(2) by transfer (simp add: bit_take_bit_iff bit_of_nat_iff_bit)
  ultimately show ?thesis using assms(1) by (simp add: le_bytes_div bit_drop_bit_eq bit_unsigned_iff)
qed

lemma bit_byteswap:
  fixes w :: "'a::len word"
  assumes "LENGTH('a) = 8 * n" "i < 8 * n"
  shows "bit (byteswap w) i \<longleftrightarrow> bit w (8 * (n - 1 - i div 8) + i mod 8)"
proof -
  let ?k = "i div 8" and ?j = "i mod 8"
  have k: "?k < n" "?j < 8" using assms(2) by auto
  have "bit (byteswap w) (8 * ?k + ?j) \<longleftrightarrow> bit (rev (le_bytes n (unat w)) ! ?k) ?j"
    using bit_le_bytes[OF k, of "byteswap w"] by (simp add: le_bytes_byteswap[OF assms(1)])
  also have "\<dots> \<longleftrightarrow> bit w (8 * (n - 1 - ?k) + ?j)"
    using bit_le_bytes[of "n - 1 - ?k" n ?j w] k by (simp add: rev_nth)
  finally show ?thesis by simp
qed

text \<open>The position in the host's order of a bit of a word in network order.\<close>

definition net_pos :: "byte \<Rightarrow> nat \<Rightarrow> nat" where
  "net_pos host i = (if host = SYLAR_BIG_ENDIAN then i else 8 * (3 - i div 8) + i mod 8)"

lemma bit_network:
  fixes w :: u32
  shows "i < 32 \<Longrightarrow> bit (byteswapOnLittleEndian host w) i \<longleftrightarrow> bit w (net_pos host i)"
  using bit_byteswap[of 4 i w] by (simp add: byteswapOnLittleEndian_def net_pos_def)

lemma net_pos_less: "i < 32 \<Longrightarrow> net_pos host i < 32"
  by (simp add: net_pos_def) presburger

lemma net_pos_inv: "i < 32 \<Longrightarrow> net_pos host (net_pos host i) = i"
  by (simp add: net_pos_def)

lemma to_network_inv:
  fixes w :: u32
  shows "byteswapOnLittleEndian host (byteswapOnLittleEndian host w) = w"
  using byteswap_byteswap[of 4 w] by (simp add: byteswapOnLittleEndian_def)

lemma to_network_bitwise:
  fixes a b :: u32
  shows "byteswapOnLittleEndian host (a OR b) = byteswapOnLittleEndian host a OR byteswapOnLittleEndian host b"
    "byteswapOnLittleEndian host (a AND b) = byteswapOnLittleEndian host a AND byteswapOnLittleEndian host b"
    "byteswapOnLittleEndian host (NOT a) = NOT (byteswapOnLittleEndian host a)"
  by (rule bit_word_eqI, simp add: bit_network bit_or_iff bit_and_iff bit_not_iff net_pos_less)+

section \<open>Counting bits\<close>

lemma clear_lowest:
  fixes w :: u32
  assumes "bit w n" "\<And>i. i < n \<Longrightarrow> \<not> bit w i"
  shows "{i. bit (w AND (w - 1)) i} = {i. bit w i} - {n}"
proof -
  let ?r = "unset_bit n w"
  have n: "n < 32" using assms(1) bit_imp_le_length by force
  have p: "bit (2 ^ n :: u32) i \<longleftrightarrow> i = n" for i using n by (auto simp: bit_exp_iff)
  have "w = ?r OR 2 ^ n" by (rule bit_word_eqI) (auto simp: bit_or_iff bit_unset_bit_iff p assms(1))
  moreover have "?r OR 2 ^ n = ?r + 2 ^ n" by (rule disjunctive_add[symmetric]) (auto simp: bit_unset_bit_iff p)
  ultimately have "w - 1 = ?r + mask n" by (simp add: mask_eq_exp_minus_1)
  moreover have "?r + mask n = ?r OR mask n" using assms(2) by (intro disjunctive_add) (auto simp: bit_unset_bit_iff bit_mask_iff)
  ultimately have "w - 1 = ?r OR mask n" by simp
  then have "bit (w AND (w - 1)) i \<longleftrightarrow> bit w i \<and> i \<noteq> n" for i
    using assms(2)[of i] by (auto simp: bit_and_iff bit_or_iff bit_unset_bit_iff bit_mask_iff)
  then show ?thesis by blast
qed

lemma CountBytes_card: "CountBytes w = card {i. bit w i}"
proof (induction w rule: CountBytes.induct)
  case (1 w)
  show ?case
  proof (cases "w = 0")
    case False
    define n where "n = (LEAST i. bit w i)"
    have "\<exists>i. bit w i" using False by (metis bit_eqI bit_0_eq bot_apply bot_bool_def)
    then have n: "bit w n" "\<And>i. i < n \<Longrightarrow> \<not> bit w i" unfolding n_def by (auto intro: LeastI_ex dest: not_less_Least)
    have "finite {i. bit w i}" by (rule finite_subset[of _ "{..<32}"]) (auto dest: bit_imp_le_length)
    then have "card {i. bit w i} = Suc (card ({i. bit w i} - {n}))" using n(1) by (intro card.remove) simp_all
    then show ?thesis using 1 False clear_lowest[OF n] by (subst CountBytes.simps) simp
  qed (simp add: CountBytes.simps)
qed

lemma CountBytes_network: "CountBytes (byteswapOnLittleEndian host w) = CountBytes w"
proof -
  have s: "{i. bit v i} = {i \<in> {..<32}. bit v i}" for v :: u32 by (auto dest: bit_imp_le_length)
  have "bij_betw (net_pos host) {i. bit (byteswapOnLittleEndian host w) i} {i. bit w i}" unfolding s
    by (rule bij_betw_byWitness[where f' = "net_pos host"]) (auto simp: bit_network net_pos_inv net_pos_less)
  then show ?thesis by (simp add: CountBytes_card bij_betw_same_card)
qed

section \<open>Networks\<close>

definition host_addr :: "byte \<Rightarrow> sockaddr_in \<Rightarrow> u32" where
  "host_addr host a = byteswapOnLittleEndian host (in_addr a)"

lemma CreateMask_32: "2 \<le> p \<Longrightarrow> p \<le> 32 \<Longrightarrow> CreateMask 32 p = Some (mask (32 - p))"
  by (simp add: CreateMask_def mask_eq_exp_minus_1)

text \<open>
  For prefixes of 2 to 32 bits, the network address keeps the prefix and clears the host part, the broadcast address keeps the
  prefix and sets the host part, the subnet mask has exactly the bits of the prefix, and counting the bits of the mask, as it is done
  for the netmask of an interface, gives the length of the prefix back.\<close>

theorem ipv4_subnet:
  assumes "2 \<le> p" "p \<le> 32"
  shows "\<exists>n b m. IPv4_networkAddress host p a = Made n \<and> IPv4_broadcastAddress host p a = Made b \<and> IPv4_subnetMask host p = Made m \<and>
    in_port n = in_port a \<and> in_port b = in_port a \<and>
    (\<forall>i < 32. (bit (host_addr host n) i \<longleftrightarrow> bit (host_addr host a) i \<and> 32 - p \<le> i) \<and>
      (bit (host_addr host b) i \<longleftrightarrow> bit (host_addr host a) i \<or> i < 32 - p) \<and> (bit (host_addr host m) i \<longleftrightarrow> 32 - p \<le> i)) \<and>
    CountBytes (in_addr m) = p"
proof -
  let ?m = "mask (32 - p) :: u32"
  have bits: "{i. bit (NOT ?m) i} = {32 - p ..< 32}" by (auto simp: bit_not_iff bit_mask_iff dest: bit_imp_le_length)
  have "CountBytes (NOT ?m) = p" unfolding CountBytes_card bits using assms by simp
  then have "CountBytes (NOT (byteswapOnLittleEndian host ?m)) = p"
    using CountBytes_network[of host "NOT ?m"] by (simp add: to_network_bitwise)
  then show ?thesis using assms
    by (auto simp: IPv4_networkAddress_def IPv4_broadcastAddress_def IPv4_subnetMask_def CreateMask_32 host_addr_def to_network_bitwise
        to_network_inv bit_and_iff bit_or_iff bit_not_iff bit_mask_iff)
qed

theorem ipv4_subnet_witness:
  "2 \<le> (24 :: nat) \<and> (24 :: nat) \<le> 32 \<and> (\<exists>n. IPv4_networkAddress SYLAR_LITTLE_ENDIAN 24 (IPv4Address_new SYLAR_LITTLE_ENDIAN 0xC0A80105 80) = Made n)"
  using ipv4_subnet[of 24 SYLAR_LITTLE_ENDIAN "IPv4Address_new SYLAR_LITTLE_ENDIAN 0xC0A80105 80"] by auto

lemma ipv4_short_prefix: "p < 2 \<Longrightarrow> IPv4_subnetMask host p = Undefined \<and> IPv4_networkAddress host p a = Undefined"
  by (auto simp: IPv4_subnetMask_def IPv4_networkAddress_def CreateMask_def)

text \<open>
  The network address of an IPv6 address keeps the host bits of the byte in which the prefix ends and clears its prefix bits, and
  a prefix of 128 bits is outside the array.\<close>

lemma ipv6_prefix_128: "IPv6_networkAddress 128 b = Undefined" "IPv6_broadcastAddress 128 b = Undefined" "IPv6_subnetMask 128 = Undefined"
  by (simp_all add: IPv6_networkAddress_def IPv6_broadcastAddress_def IPv6_subnetMask_def)

lemma ipv6_network_wrong:
  "case IPv6_networkAddress 68 (IPv6Address_new SYLAR_LITTLE_ENDIAN (replicate 16 0xAB) 0) of
     Made n \<Rightarrow> in6_addr n = replicate 8 0xAB @ [0x0B] @ replicate 7 0 | _ \<Rightarrow> False"
  by code_simp

section \<open>The order on addresses\<close>

definition address_ok :: "Address \<Rightarrow> bool" where
  "address_ok a \<longleftrightarrow> (case a of
     IPv4Address x \<Rightarrow> length (in_zero x) = 8
   | IPv6Address x \<Rightarrow> length (in6_addr x) = 16
   | UnixAddress x \<Rightarrow> length (un_path x) = sun_path_size \<and> sun_path_offset \<le> un_length x \<and> un_length x \<le> sun_path_offset + sun_path_size
   | UnknownAddress f bs \<Rightarrow> length bs = 14)"

definition address_key :: "byte \<Rightarrow> Address \<Rightarrow> byte list" where
  "address_key host a = take (getAddrLen a) (getAddr host a)"

lemma length_mem_of_word [simp]: "length (mem_of_word host (w :: 'a::len word)) = LENGTH('a) div 8"
  by (simp add: mem_of_word_def Let_def)

lemma length_address_key: "address_ok a \<Longrightarrow> length (address_key host a) = getAddrLen a"
  by (cases a) (auto simp: address_ok_def address_key_def in_bytes_def in6_bytes_def sun_path_size_def sun_path_offset_def)

lemma memcmp_take:
  "(memcmp (take (min (length xs) (length ys)) xs) (take (min (length xs) (length ys)) ys) < 0 \<or>
    memcmp (take (min (length xs) (length ys)) xs) (take (min (length xs) (length ys)) ys) = 0 \<and> length xs < length ys) \<longleftrightarrow>
   ord_class.lexordp xs ys"
  by (induction xs ys rule: memcmp.induct) auto

lemma memcmp_eq: "length xs = length ys \<Longrightarrow> memcmp xs ys = 0 \<longleftrightarrow> xs = ys"
  by (induction xs ys rule: memcmp.induct) (auto simp: not_less)

lemma Address_less_key:
  assumes "address_ok a" "address_ok b"
  shows "Address_less host a b \<longleftrightarrow> ord_class.lexordp (address_key host a) (address_key host b)"
proof -
  let ?n = "min (getAddrLen a) (getAddrLen b)"
  have "take ?n (getAddr host a) = take ?n (address_key host a)" "take ?n (getAddr host b) = take ?n (address_key host b)"
    by (simp_all add: address_key_def)
  then show ?thesis
    using memcmp_take[of "address_key host a" "address_key host b"] length_address_key[OF assms(1), of host] length_address_key[OF assms(2), of host]
    by (auto simp: Address_less_def Let_def)
qed

lemma Address_eq_key:
  assumes "address_ok a" "address_ok b"
  shows "Address_eq host a b \<longleftrightarrow> address_key host a = address_key host b"
proof (cases "getAddrLen a = getAddrLen b")
  case True
  then show ?thesis
    using memcmp_eq[of "address_key host a" "address_key host b"] length_address_key[OF assms(1), of host] length_address_key[OF assms(2), of host]
    by (simp add: Address_eq_def address_key_def)
next
  case False
  then have "address_key host a \<noteq> address_key host b" using length_address_key[OF assms(1), of host] length_address_key[OF assms(2), of host] by metis
  with False show ?thesis by (simp add: Address_eq_def)
qed

text \<open>
  C39: \<open>operator<\<close> is a strict order on well-formed addresses, and two addresses are equal under \<open>operator==\<close> exactly when neither is
  below the other, so that addresses can be keys of ordered containers.\<close>

theorem address_order:
  assumes "address_ok a" "address_ok b" "address_ok c"
  shows "\<not> Address_less host a a \<and> (Address_less host a b \<longrightarrow> Address_less host b c \<longrightarrow> Address_less host a c) \<and>
    (Address_eq host a b \<longleftrightarrow> \<not> Address_less host a b \<and> \<not> Address_less host b a)"
  using assms lexordp_trans lexordp_linear[of "address_key host a" "address_key host b"] lexordp_irreflexive'
  unfolding Address_less_key[OF assms(1,1)] Address_less_key[OF assms(1,2)] Address_less_key[OF assms(2,3)] Address_less_key[OF assms(1,3)]
    Address_less_key[OF assms(2,1)] Address_eq_key[OF assms(1,2)]
  by metis

theorem address_order_witness:
  "let a = IPv4Address (IPv4Address_new SYLAR_LITTLE_ENDIAN 0x7F000001 80); b = IPv6Address IPv6Address_empty;
       c = UnixAddress UnixAddress_empty
   in address_ok a \<and> address_ok b \<and> address_ok c \<and> \<not> Address_less SYLAR_LITTLE_ENDIAN a a"
  using address_order[of "IPv4Address (IPv4Address_new SYLAR_LITTLE_ENDIAN 0x7F000001 80)" "IPv6Address IPv6Address_empty"
      "UnixAddress UnixAddress_empty" SYLAR_LITTLE_ENDIAN]
  by (simp add: address_ok_def IPv4Address_new_def IPv6Address_empty_def UnixAddress_empty_def sun_path_size_def sun_path_offset_def)

section \<open>Paths of local sockets\<close>

lemma UnixAddress_path:
  assumes "NUL \<notin> set path" "length path < sun_path_size"
  shows "UnixAddress_new path = Some \<lparr>un_path = path @ replicate (sun_path_size - length path) NUL, un_length = length path + 3\<rparr>"
proof -
  have "\<not> (path \<noteq> [] \<and> hd path = NUL)" using assms(1) by (metis list.set_sel(1))
  moreover have "NUL # replicate (sun_path_size - Suc (length path)) NUL = replicate (sun_path_size - length path) NUL"
    using assms(2) by (simp add: Suc_diff_Suc flip: replicate_Suc)
  ultimately show ?thesis using assms(2) by (simp add: UnixAddress_new_def Let_def overwrite_def sun_path_offset_def)
qed

text \<open>
  The path of a local socket is read back: a path without zero bytes that is not empty is stored when it has at most 107 characters, gives itself as
  path, and is refused when it is longer; a name in the abstract space, which starts with a zero byte, is stored up to 108 bytes
  and shown with an escaped zero in front.\<close>

theorem unix_path_roundtrip:
  "(path \<noteq> [] \<and> NUL \<notin> set path \<longrightarrow> map_option UnixAddress_getPath (UnixAddress_new path) = (if length path < sun_path_size then Some path else None)) \<and>
   map_option UnixAddress_getPath (UnixAddress_new (NUL # nm)) =
     (if length nm < sun_path_size then Some ([CHR 0x5C, CHR ''0''] @ nm) else None)"
proof
  show "path \<noteq> [] \<and> NUL \<notin> set path \<longrightarrow> map_option UnixAddress_getPath (UnixAddress_new path) = (if length path < sun_path_size then Some path else None)"
  proof
    assume "path \<noteq> [] \<and> NUL \<notin> set path"
    then have ne: "path \<noteq> []" and n: "NUL \<notin> set path" by auto
    show "map_option UnixAddress_getPath (UnixAddress_new path) = (if length path < sun_path_size then Some path else None)"
    proof (cases "length path < sun_path_size")
      case True
      have "c_str (path @ replicate (sun_path_size - length path) NUL) = path"
        using n by (simp add: c_str_def takeWhile_append takeWhile_eq_Nil_iff hd_replicate)
      moreover have "(path @ replicate (sun_path_size - length path) NUL) ! 0 \<noteq> NUL" using n ne by (cases path) auto
      ultimately show ?thesis using True by (auto simp: UnixAddress_path[OF n True] UnixAddress_getPath_def)
    next
      case False
      have "\<not> (path \<noteq> [] \<and> hd path = NUL)" using n by (metis list.set_sel(1))
      then show ?thesis using False by (auto simp: UnixAddress_new_def Let_def)
    qed
  qed
  show "map_option UnixAddress_getPath (UnixAddress_new (NUL # nm)) =
     (if length nm < sun_path_size then Some ([CHR 0x5C, CHR ''0''] @ nm) else None)"
    by (simp add: UnixAddress_new_def UnixAddress_getPath_def overwrite_def sun_path_offset_def)
qed

theorem unix_path_roundtrip_witness:
  "map_option UnixAddress_getPath (UnixAddress_new ''/tmp/s'') = Some ''/tmp/s''"
  using unix_path_roundtrip[of "''/tmp/s''" "[]"] by (simp add: sun_path_size_def)

section \<open>Addresses of an interface\<close>

lemma string_less_order:
  "\<not> string_less s s" "string_less s t \<Longrightarrow> string_less t u \<Longrightarrow> string_less s u" "\<not> string_less s t \<Longrightarrow> \<not> string_less t s \<Longrightarrow> s = t"
proof -
  have inj: "inj (of_char :: char \<Rightarrow> byte)"
  proof (rule injI)
    fix c d :: char assume "(of_char c :: byte) = of_char d"
    moreover have "unat (of_char e :: byte) = of_char e" for e :: char
      using nat_of_char_less_256[of e] unat_of_nat[where 'a = 8, of "of_char e"] by (simp add: of_nat_of_char)
    ultimately have "(of_char c :: nat) = of_char d" by metis
    then show "c = d" by simp
  qed
  show "\<not> string_less s s" by (simp add: string_less_def lexordp_irreflexive')
  show "string_less s t \<Longrightarrow> string_less t u \<Longrightarrow> string_less s u" unfolding string_less_def by (rule lexordp_trans)
  show "\<not> string_less s t \<Longrightarrow> \<not> string_less t s \<Longrightarrow> s = t"
    using lexordp_linear[of "map of_char s :: byte list" "map of_char t"] inj by (auto simp: string_less_def inj_map_eq_map)
qed

definition named :: "string \<Rightarrow> (string, 'v) omap \<Rightarrow> 'v list" where
  "named k m = map snd (filter (\<lambda>e. fst e = k) m)"

definition multimap_sorted :: "(string, 'v) omap \<Rightarrow> bool" where
  "multimap_sorted m \<longleftrightarrow> sorted_wrt (\<lambda>x y. \<not> string_less (fst y) (fst x)) m"

lemma equal_range_named: "equal_range string_less k m = named k m"
proof -
  have "(\<lambda>(j, v :: 'a). \<not> string_less j k \<and> \<not> string_less k j) = (\<lambda>e. fst e = k)"
    using string_less_order by (auto simp: fun_eq_iff)
  then show ?thesis by (simp add: equal_range_def named_def)
qed

lemma set_multimap_insert: "set (multimap_insert lt k v m) = insert (k, v) (set m)"
  by (induction lt k v m rule: multimap_insert.induct) auto

lemma multimap_insert_sorted:
  "multimap_sorted m \<Longrightarrow> multimap_sorted (multimap_insert string_less k v m)"
proof (induction m)
  case (Cons e m)
  obtain j w where e: "e = (j, w)" by (cases e)
  show ?case
  proof (cases "string_less k j")
    case True
    have "\<not> string_less (fst x) k" if "x \<in> set m" for x using Cons.prems that True e string_less_order(2)[of "fst x" k j] by (auto simp: multimap_sorted_def)
    then show ?thesis using True Cons.prems e string_less_order(1) string_less_order(2)[of k j k] by (auto simp: multimap_sorted_def)
  next
    case False
    then show ?thesis using Cons e by (auto simp: multimap_sorted_def set_multimap_insert)
  qed
qed (simp add: multimap_sorted_def)

lemma named_insert:
  "multimap_sorted m \<Longrightarrow> named n (multimap_insert string_less k v m) = named n m @ (if n = k then [v] else [])"
proof (induction m)
  case (Cons e m)
  obtain j w where e: "e = (j, w)" by (cases e)
  show ?case
  proof (cases "string_less k j")
    case True
    have "fst x \<noteq> k" if "x \<in> set (e # m)" for x using Cons.prems that True e string_less_order(1) by (auto simp: multimap_sorted_def)
    then have "named k (e # m) = []" by (simp add: named_def filter_empty_conv del: filter.simps)
    then show ?thesis using True e by (auto simp: named_def)
  next
    case False
    have "named n (x # xs) = (if fst x = n then snd x # named n xs else named n xs)" for x :: "string \<times> 'a" and xs by (simp add: named_def)
    then show ?thesis using Cons False e by (simp add: multimap_sorted_def)
  qed
qed (simp add: named_def)

definition entries :: "byte \<Rightarrow> int \<Rightarrow> string \<Rightarrow> ifaddr list \<Rightarrow> (Address \<times> nat) list" where
  "entries host family iface ifs =
     List.map_filter (\<lambda>i. if ifa_name i = iface then Option.bind (interface_entry host family i) id else None) ifs"

lemma interface_loop_named:
  assumes "\<forall>i \<in> set ifs. interface_entry host family i \<noteq> None" "multimap_sorted m"
  shows "\<exists>r. interface_loop host family ifs m = Some r \<and> named iface r = named iface m @ entries host family iface ifs"
  using assms
proof (induction ifs arbitrary: m)
  case (Cons i ifs)
  then obtain o1 where o1: "interface_entry host family i = Some o1" by auto
  show ?case
  proof (cases o1)
    case None
    then show ?thesis using Cons o1 by (simp add: entries_def map_filter_simps)
  next
    case (Some e)
    let ?m = "multimap_insert string_less (ifa_name i) e m"
    have "\<exists>r. interface_loop host family ifs ?m = Some r \<and> named iface r = named iface ?m @ entries host family iface ifs"
      using Cons.prems(1) by (intro Cons.IH multimap_insert_sorted[OF Cons.prems(2)]) simp
    then show ?thesis using Cons.prems(2) Some o1 by (auto simp: named_insert entries_def map_filter_simps)
  qed
qed (simp add: entries_def map_filter_simps)

text \<open>
  Asked for an interface by name, \<open>GetInterfaceAddresses\<close> gives exactly the IPv4 and IPv6 addresses of the interfaces with that
  name and the asked family, in the order of the system's list, with the number of one bits of their netmasks, and reports
  success when there are any, provided that no interface lacks an address or a needed netmask.\<close>

theorem interface_addresses:
  assumes "\<forall>i \<in> set ifs. interface_entry host family i \<noteq> None" "iface \<noteq> []" "iface \<noteq> ''*''"
  shows "GetInterfaceAddresses host (Some ifs) iface family [] =
    Some (entries host family iface ifs \<noteq> [], entries host family iface ifs)"
proof -
  have "multimap_sorted []" by (simp add: multimap_sorted_def)
  from interface_loop_named[OF assms(1) this, of iface]
  obtain r where r: "interface_loop host family ifs [] = Some r" "named iface r = entries host family iface ifs" by (auto simp: named_def)
  then show ?thesis using assms(2,3)
    by (cases "r = []") (auto simp: GetInterfaceAddresses_def GetInterfaceAddresses_map_def equal_range_named Let_def named_def)
qed

definition loopback :: ifaddr where
  "loopback = \<lparr>ifa_name = ''lo'', ifa_addr = Some (SA_in (IPv4Address_new SYLAR_LITTLE_ENDIAN 0x7F000001 0)),
     ifa_netmask = Some (SA_in (IPv4Address_new SYLAR_LITTLE_ENDIAN 0xFF000000 0))\<rparr>"

lemma loopback_entry:
  "interface_entry SYLAR_LITTLE_ENDIAN 0 loopback = Some (Some (IPv4Address (IPv4Address_new SYLAR_LITTLE_ENDIAN 0x7F000001 0), 8))"
  by code_simp

theorem interface_addresses_witness:
  "GetInterfaceAddresses SYLAR_LITTLE_ENDIAN (Some [loopback]) ''lo'' 0 [] =
     Some (True, [(IPv4Address (IPv4Address_new SYLAR_LITTLE_ENDIAN 0x7F000001 0), 8)])"
  using interface_addresses[of "[loopback]" SYLAR_LITTLE_ENDIAN 0 "''lo''"]
  by (simp add: loopback_entry entries_def map_filter_simps) (simp add: loopback_def)

text \<open>An interface without an address makes the loop read a null pointer.\<close>

lemma interface_null: "GetInterfaceAddresses_map host (Some (\<lparr>ifa_name = nm, ifa_addr = None, ifa_netmask = None\<rparr> # ifs)) family r = None"
  by (simp add: GetInterfaceAddresses_map_def interface_entry_def)

section \<open>Text forms\<close>

lemma address_text_examples:
  "IPv4_insert SYLAR_LITTLE_ENDIAN (IPv4Address_new SYLAR_LITTLE_ENDIAN 0xC0A80105 8080) = ''192.168.1.5:8080''"
  "IPv6_insert SYLAR_LITTLE_ENDIAN (IPv6Address_new SYLAR_LITTLE_ENDIAN (replicate 15 0 @ [1]) 80) = ''[::1]:80''"
  "IPv6_insert SYLAR_LITTLE_ENDIAN IPv6Address_empty = ''[::]:0''"
  "IPv6_insert SYLAR_LITTLE_ENDIAN (IPv6Address_new SYLAR_LITTLE_ENDIAN ([0x20, 1, 0x0D, 0xB8] @ replicate 10 0 @ [0, 1]) 443) = ''[2001:db8::1]:443''"
  by code_simp+

text \<open>
  Splitting works for the usual forms. For an IPv6 address without brackets, the text from its first colon on is passed as the service.\<close>

lemma split_host_examples:
  "split_host ''example.com:80'' = (''example.com'', Some ''80'')" "split_host ''example.com'' = (''example.com'', None)"
  "split_host ''[::1]:80'' = (''::1'', Some ''80'')" "split_host ''[::1]'' = (''::1'', None)"
  "split_host ''fe80::1'' = (''fe80::1'', Some ''::1'')"
  by code_simp+

text \<open>The addresses of a lookup, and the port that is set on one afterwards.\<close>

lemma port_roundtrip: "IPv4_getPort host (IPv4_setPort host v a) = ucast v" "IPv6_getPort host (IPv6_setPort host v b) = ucast v"
  using byteswap_byteswap[of 2 v] by (simp_all add: IPv4_getPort_def IPv4_setPort_def IPv6_getPort_def IPv6_setPort_def byteswapOnLittleEndian_def)

lemma LookupAnyIPAddress_ip: "LookupAnyIPAddress g host family type protocol = Some a \<Longrightarrow> is_ip a"
  by (auto simp: LookupAnyIPAddress_def find_Some_iff split: prod.splits if_splits)

end
