(* ===== verification/Sockets.thy ===== *)
theory Sockets
  imports FdHook Address Uri
begin

text \<open>
  The socket class, \<open>socket.h\<close> and \<open>socket.cc\<close>, over the hooked system calls: creation, binding, connecting, accepting, closing,
  timeouts and addresses. What the operating system answers is a record of the calls' results, an argument of the operations; transfer of data
  is in the theory of socket streams. Log output and the removal of the file of a local socket are left out.
\<close>

section \<open>State\<close>

record Socket =
  so_sock :: int
  so_family :: u16
  so_type :: int
  so_protocol :: int
  so_isConnected :: bool
  so_localAddress :: "Address option"
  so_remoteAddress :: "Address option"

definition TCP :: int where "TCP = 1"
definition UDP :: int where "UDP = 2"
definition SO_REUSEADDR :: int where "SO_REUSEADDR = 2"
definition IPPROTO_TCP :: int where "IPPROTO_TCP = 6"
definition TCP_NODELAY :: int where "TCP_NODELAY = 1"

text \<open>
  Answers of the system: the descriptor of \<open>socket\<close>; the results of \<open>connect\<close>, of the wait and of \<open>getsockopt\<close> as
  \<open>connect_with_timeout\<close> takes them; whether \<open>bind\<close> and \<open>listen\<close> succeed; the addresses of \<open>getpeername\<close> and \<open>getsockname\<close>.
\<close>

record answers =
  y_socket :: int
  y_connect :: "(int \<times> int) \<times> (int \<times> int) \<times> (int \<times> int \<times> int)"
  y_bind :: bool
  y_listen :: bool
  y_peer :: "Address option"
  y_name :: "Address option"

definition Socket_new :: "u16 \<Rightarrow> int \<Rightarrow> int \<Rightarrow> Socket" where
  "Socket_new family type protocol =
     \<lparr>so_sock = - 1, so_family = family, so_type = type, so_protocol = protocol, so_isConnected = False,
      so_localAddress = None, so_remoteAddress = None\<rparr>"

definition isValid :: "Socket \<Rightarrow> bool" where
  "isValid s \<longleftrightarrow> so_sock s \<noteq> - 1"

definition setOption :: "int \<Rightarrow> int \<Rightarrow> int \<Rightarrow> int \<Rightarrow> Socket \<Rightarrow> hook \<Rightarrow> hook" where
  "setOption level option v1 v2 s h = (if so_sock s < 0 then h else hook_setsockopt (nat (so_sock s)) level option v1 v2 h)"

definition initSock :: "Socket \<Rightarrow> hook \<Rightarrow> hook" where
  "initSock s h =
     (let h1 = setOption SOL_SOCKET SO_REUSEADDR 1 0 s h
      in if so_type s = TCP then setOption IPPROTO_TCP TCP_NODELAY 1 0 s h1 else h1)"

definition newSock :: "answers \<Rightarrow> Socket \<Rightarrow> hook \<Rightarrow> (Socket \<times> hook) res" where
  "newSock y s h =
     bindr (hook_socket (y_socket y) h) (\<lambda>h1.
       let s1 = s\<lparr>so_sock := y_socket y\<rparr> in Inr (s1, if isValid s1 then initSock s1 h1 else h1))"

definition CreateTCP :: "Address \<Rightarrow> Socket" where
  "CreateTCP address = Socket_new (getFamily address) TCP 0"

definition CreateUDP :: "answers \<Rightarrow> Address \<Rightarrow> hook \<Rightarrow> (Socket \<times> hook) res" where
  "CreateUDP y address h =
     bindr (newSock y (Socket_new (getFamily address) UDP 0) h) (\<lambda>(s, h1). Inr (s\<lparr>so_isConnected := True\<rparr>, h1))"

definition CreateTCPSocket :: Socket where "CreateTCPSocket = Socket_new AF_INET TCP 0"

definition CreateTCPSocket6 :: Socket where "CreateTCPSocket6 = Socket_new AF_INET6 TCP 0"

definition CreateUDPSocket :: "answers \<Rightarrow> hook \<Rightarrow> (Socket \<times> hook) res" where
  "CreateUDPSocket y h = bindr (newSock y (Socket_new AF_INET UDP 0) h) (\<lambda>(s, h1). Inr (s\<lparr>so_isConnected := True\<rparr>, h1))"

definition CreateUDPSocket6 :: "answers \<Rightarrow> hook \<Rightarrow> (Socket \<times> hook) res" where
  "CreateUDPSocket6 y h = bindr (newSock y (Socket_new AF_INET6 UDP 0) h) (\<lambda>(s, h1). Inr (s\<lparr>so_isConnected := True\<rparr>, h1))"

definition CreateUnixTCPSocket :: Socket where "CreateUnixTCPSocket = Socket_new AF_UNIX TCP 0"

definition CreateUnixUDPSocket :: Socket where "CreateUnixUDPSocket = Socket_new AF_UNIX UDP 0"

section \<open>Addresses and timeouts\<close>

definition getRemoteAddress :: "answers \<Rightarrow> Socket \<Rightarrow> Address \<times> Socket" where
  "getRemoteAddress y s =
     (case so_remoteAddress s of
        Some a \<Rightarrow> (a, s)
      | None \<Rightarrow> (case y_peer y of
                   None \<Rightarrow> (UnknownAddress (so_family s) (replicate 14 0), s)
                 | Some a \<Rightarrow> (a, s\<lparr>so_remoteAddress := Some a\<rparr>)))"

definition getLocalAddress :: "answers \<Rightarrow> Socket \<Rightarrow> Address \<times> Socket" where
  "getLocalAddress y s =
     (case so_localAddress s of
        Some a \<Rightarrow> (a, s)
      | None \<Rightarrow> (case y_name y of
                   None \<Rightarrow> (UnknownAddress (so_family s) (replicate 14 0), s)
                 | Some a \<Rightarrow> (a, s\<lparr>so_localAddress := Some a\<rparr>)))"

text \<open>\<open>timeval { int(v / 1000), int(v % 1000 * 1000) }\<close>; division and remainder of C++ truncate.\<close>

definition set_timeout :: "int \<Rightarrow> int \<Rightarrow> Socket \<Rightarrow> hook \<Rightarrow> hook" where
  "set_timeout type v s h =
     setOption SOL_SOCKET type (sint (word_of_int (v sdiv 1000) :: u32)) (sint (word_of_int (v smod 1000 * 1000) :: u32)) s h"

definition get_timeout :: "int \<Rightarrow> Socket \<Rightarrow> hook \<Rightarrow> int" where
  "get_timeout type s h =
     (if so_sock s < 0 then - 1
      else case fd_ctx (nat (so_sock s)) h of Some c \<Rightarrow> sint (FdCtx_getTimeout type c) | None \<Rightarrow> - 1)"

definition setRecvTimeout :: "int \<Rightarrow> Socket \<Rightarrow> hook \<Rightarrow> hook" where "setRecvTimeout v s h = set_timeout SO_RCVTIMEO v s h"
definition setSendTimeout :: "int \<Rightarrow> Socket \<Rightarrow> hook \<Rightarrow> hook" where "setSendTimeout v s h = set_timeout SO_SNDTIMEO v s h"
definition getRecvTimeout :: "Socket \<Rightarrow> hook \<Rightarrow> int" where "getRecvTimeout s h = get_timeout SO_RCVTIMEO s h"
definition getSendTimeout :: "Socket \<Rightarrow> hook \<Rightarrow> int" where "getSendTimeout s h = get_timeout SO_SNDTIMEO s h"

section \<open>Life of a socket\<close>

text \<open>The effect of \<open>::close\<close> on the descriptor contexts, see \<open>hook_close\<close>.\<close>

definition close_fd :: "nat \<Rightarrow> hook \<Rightarrow> hook" where
  "close_fd fd h = (if hk_enable h \<and> fd_ctx fd h \<noteq> None then h\<lparr>hk_fds := (hk_fds h)[fd := None]\<rparr> else h)"

lemma close_fd_hook_close: "hook_close rt fd iom h = Inr (iom', h') \<Longrightarrow> h' = close_fd fd h"
  by (auto simp: hook_close_def close_fd_def FdManager_del_def fd_ctx_eq success_iff split: if_splits sum.splits)

definition close_socket :: "Socket \<Rightarrow> hook \<Rightarrow> bool \<times> Socket \<times> hook" where
  "close_socket s h =
     (if \<not> so_isConnected s \<and> so_sock s = - 1 then (True, s, h)
      else if so_sock s \<noteq> - 1 then (False, s\<lparr>so_isConnected := False, so_sock := - 1\<rparr>, close_fd (nat (so_sock s)) h)
      else (False, s\<lparr>so_isConnected := False\<rparr>, h))"

definition Socket_connect :: "answers \<Rightarrow> Address \<Rightarrow> Socket \<Rightarrow> hook \<Rightarrow> (bool \<times> Socket \<times> hook) res" where
  "Socket_connect y addr s h =
     bindr (let s1 = s\<lparr>so_remoteAddress := Some addr\<rparr> in if isValid s1 then Inr (s1, h) else newSock y s1 h) (\<lambda>(s1, h1).
       if \<not> isValid s1 then Inr (False, s1, h1)
       else if getFamily addr \<noteq> so_family s1 then Inr (False, s1, h1)
       else case y_connect y of (call, wait, opt) \<Rightarrow>
              if fst (connect_with_timeout (nat (so_sock s1)) h1 call wait opt) \<noteq> 0
              then (case close_socket s1 h1 of (r, s2, h2) \<Rightarrow> Inr (False, s2, h2))
              else let s2 = s1\<lparr>so_isConnected := True\<rparr>;
                       s3 = snd (getRemoteAddress y s2);
                       s4 = snd (getLocalAddress y s3)
                   in Inr (True, s4, h1))"

definition reconnect :: "answers \<Rightarrow> Socket \<Rightarrow> hook \<Rightarrow> (bool \<times> Socket \<times> hook) res" where
  "reconnect y s h =
     (case so_remoteAddress s of
        None \<Rightarrow> Inr (False, s, h)
      | Some a \<Rightarrow> Socket_connect y a (s\<lparr>so_localAddress := None\<rparr>) h)"

text \<open>\<open>yp\<close> are the answers for the probe that connects to a local socket before it is bound.\<close>

definition Socket_bind :: "answers \<Rightarrow> answers \<Rightarrow> Address \<Rightarrow> Socket \<Rightarrow> hook \<Rightarrow> (bool \<times> Socket \<times> hook) res" where
  "Socket_bind y yp addr s h =
     bindr (let s1 = s\<lparr>so_localAddress := Some addr\<rparr> in if isValid s1 then Inr (s1, h) else newSock y s1 h) (\<lambda>(s1, h1).
       if \<not> isValid s1 then Inr (False, s1, h1)
       else if getFamily addr \<noteq> so_family s1 then Inr (False, s1, h1)
       else bindr (case addr of
                     UnixAddress a \<Rightarrow>
                       bindr (Socket_connect yp addr CreateUnixTCPSocket h1) (\<lambda>(used, p, h2).
                         Inr (used, snd (snd (close_socket p h2))))
                   | _ \<Rightarrow> Inr (False, h1)) (\<lambda>(used, h2).
         if used then Inr (False, s1, h2)
         else if \<not> y_bind y then Inr (False, s1, h2)
         else Inr (True, snd (getLocalAddress y s1), h2)))"

definition Socket_listen :: "answers \<Rightarrow> Socket \<Rightarrow> bool" where
  "Socket_listen y s \<longleftrightarrow> isValid s \<and> y_listen y"

definition Socket_init :: "answers \<Rightarrow> int \<Rightarrow> Socket \<Rightarrow> hook \<Rightarrow> bool \<times> Socket \<times> hook" where
  "Socket_init y sock s h =
     (if 0 \<le> sock \<and> managed (fd_ctx (nat sock) h)
      then let s1 = s\<lparr>so_sock := sock, so_isConnected := True\<rparr>;
               h1 = initSock s1 h;
               s2 = snd (getLocalAddress y s1);
               s3 = snd (getRemoteAddress y s2)
           in (True, s3, h1)
      else (False, s, h))"

text \<open>\<open>newsock\<close> is the descriptor that the original \<open>accept\<close> gave, after the waits of \<open>do_io\<close>.\<close>

definition Socket_accept :: "answers \<Rightarrow> int \<Rightarrow> Socket \<Rightarrow> hook \<Rightarrow> (Socket option \<times> hook) res" where
  "Socket_accept y newsock s h =
     bindr (hook_accept newsock h) (\<lambda>h1.
       if newsock = - 1 then Inr (None, h1)
       else case Socket_init y newsock (Socket_new (so_family s) (so_type s) (so_protocol s)) h1 of
              (ok, c, h2) \<Rightarrow> Inr (if ok then Some c else None, h2))"

text \<open>\<open>getError\<close>: the error that \<open>getsockopt\<close> gives, or \<open>errno\<close> when it fails.\<close>

definition getError :: "int \<times> int \<times> int \<Rightarrow> int" where
  "getError opt = (case opt of (rt, error, errno) \<Rightarrow> if rt \<noteq> 0 then errno else error)"

definition Socket_dump :: "byte \<Rightarrow> Socket \<Rightarrow> string" where
  "Socket_dump host s =
     ''[Socket sock='' @ int_string (so_sock s) @ '' is_connected='' @ (if so_isConnected s then ''1'' else ''0'') @
     '' family='' @ dec_string (unat (so_family s)) @ '' type='' @ int_string (so_type s) @ '' protocol='' @ int_string (so_protocol s) @
     (case so_localAddress s of Some a \<Rightarrow> '' local_address='' @ Address_toString host a | None \<Rightarrow> []) @
     (case so_remoteAddress s of Some a \<Rightarrow> '' remote_address='' @ Address_toString host a | None \<Rightarrow> []) @ '']''"

section \<open>Timeouts are read back\<close>

lemma timeval_ms:
  assumes "- (2 ^ 31) * 1000 \<le> v" "v < 2 ^ 31 * 1000"
  shows "sint (word_of_int (v sdiv 1000) :: u32) * 1000 + sint (word_of_int (v smod 1000 * 1000) :: u32) sdiv 1000 = v"
proof -
  have fits: "sint (word_of_int x :: u32) = x" if "- (2 ^ 31) \<le> x" "x < 2 ^ 31" for x
    using that by (simp add: signed_of_int signed_take_bit_int_eq_self)
  have "\<bar>v smod 1000\<bar> < 1000" by (cases "0 \<le> v") (auto simp: signed_modulo_int_def sgn_if abs_if)
  then have r: "- 1000 < v smod 1000" "v smod 1000 < 1000" by linarith+
  have d: "v sdiv 1000 * 1000 + v smod 1000 = v" 
  proof (cases "0 \<le> v")
    case False
    have "(- v) div 1000 * 1000 + (- v) mod 1000 = - v" by (rule div_mult_mod_eq)
    moreover have "v sdiv 1000 = - ((- v) div 1000)" "v smod 1000 = - ((- v) mod 1000)"
      using False by (auto simp: signed_modulo_int_def signed_divide_int_def sgn_if abs_if)
    ultimately show ?thesis by linarith
  qed (auto simp: signed_modulo_int_def signed_divide_int_def sgn_if abs_if)
  have "0 \<le> v smod 1000 \<or> v < 0" by (auto simp: signed_modulo_int_def sgn_if abs_if)
  then have "v sdiv 1000 < 2 ^ 31" using d r assms by (elim disjE; simp)
  moreover have "- (2 ^ 31) \<le> v sdiv 1000" using d r assms by linarith
  ultimately have e1: "sint (word_of_int (v sdiv 1000) :: u32) = v sdiv 1000" by (intro fits)
  have "- (2 ^ 31) \<le> v smod 1000 * 1000" "v smod 1000 * 1000 < 2 ^ 31" using r by simp_all
  then have e2: "sint (word_of_int (v smod 1000 * 1000) :: u32) = v smod 1000 * 1000" by (rule fits)
  have "v smod 1000 * 1000 sdiv 1000 = v smod 1000" by (cases "0 \<le> v smod 1000") (auto simp: signed_divide_int_def sgn_if abs_if)
  then show ?thesis unfolding e1 e2 using d by simp
qed

text \<open>
  A timeout that is set on a socket with a context is the timeout that is read back, in milliseconds and for the direction it was set,
  negative values included, as long as its seconds fit 32 bits; the other direction keeps its timeout.\<close>

theorem timeout_roundtrip:
  assumes "hk_enable h" "0 \<le> so_sock s" "fd_ctx (nat (so_sock s)) h \<noteq> None" "- (2 ^ 31) * 1000 \<le> v" "v < 2 ^ 31 * 1000"
  shows "getRecvTimeout s (setRecvTimeout v s h) = v \<and> getSendTimeout s (setSendTimeout v s h) = v \<and>
    getSendTimeout s (setRecvTimeout v s h) = getSendTimeout s h \<and> getRecvTimeout s (setSendTimeout v s h) = getRecvTimeout s h"
proof -
  obtain c where c: "fd_ctx (nat (so_sock s)) h = Some c" using assms(3) by auto
  have len: "nat (so_sock s) < length (hk_fds h)" and at: "hk_fds h ! nat (so_sock s) = Some c" using c by (auto simp: fd_ctx_eq split: if_splits)
  have ctx: "fd_ctx (nat (so_sock s)) (set_timeout t v s h) = Some (FdCtx_setTimeout t (word_of_int v) c)" if "t = SO_RCVTIMEO \<or> t = SO_SNDTIMEO" for t
    using assms(1,2) that c timeval_ms[OF assms(4,5)] len at
    by (simp add: set_timeout_def setOption_def hook_setsockopt_def upd_ctx_def fd_ctx_eq)
  have v: "sint (word_of_int v :: u64) = v" using assms(4,5) by (simp add: signed_of_int signed_take_bit_int_eq_self)
  show ?thesis using assms(2) c ctx[of SO_RCVTIMEO] ctx[of SO_SNDTIMEO] v
    by (simp add: getRecvTimeout_def getSendTimeout_def setRecvTimeout_def setSendTimeout_def get_timeout_def FdCtx_getTimeout_def
        FdCtx_setTimeout_def SO_RCVTIMEO_def SO_SNDTIMEO_def)
qed

theorem timeout_roundtrip_witness:
  "hk_enable one_socket \<and> getRecvTimeout ((CreateTCPSocket)\<lparr>so_sock := 5\<rparr>) (setRecvTimeout 1500 ((CreateTCPSocket)\<lparr>so_sock := 5\<rparr>) one_socket) = 1500"
proof -
  have "hk_enable one_socket" using hook_run_inv[OF one_socket_run] by (simp add: hook_inv_def)
  moreover have "fd_ctx (nat (so_sock ((CreateTCPSocket)\<lparr>so_sock := 5\<rparr>))) one_socket \<noteq> None" using one_socket_ctx by auto
  ultimately show ?thesis using timeout_roundtrip[of one_socket "(CreateTCPSocket)\<lparr>so_sock := 5\<rparr>" 1500] by simp
qed

section \<open>States of a socket\<close>

lemma setOption_len [simp]: "length (hk_fds (setOption level option a b s h)) = length (hk_fds h)"
  by (simp add: setOption_def hook_setsockopt_def upd_ctx_def)

lemma initSock_id [simp]: "initSock s h = h"
  by (simp add: initSock_def setOption_def hook_setsockopt_def SO_REUSEADDR_def SO_RCVTIMEO_def SO_SNDTIMEO_def IPPROTO_TCP_def SOL_SOCKET_def)

lemma address_keeps [simp]:
  "so_sock (snd (getRemoteAddress y s)) = so_sock s" "so_isConnected (snd (getRemoteAddress y s)) = so_isConnected s"
  "so_sock (snd (getLocalAddress y s)) = so_sock s" "so_isConnected (snd (getLocalAddress y s)) = so_isConnected s"
  "so_remoteAddress s = Some a \<Longrightarrow> so_remoteAddress (snd (getRemoteAddress y s)) = Some a"
  "so_remoteAddress (snd (getLocalAddress y s)) = so_remoteAddress s"
  "so_localAddress s = Some a \<Longrightarrow> so_localAddress (snd (getLocalAddress y s)) = Some a"
  by (auto simp: getRemoteAddress_def getLocalAddress_def split: option.splits)

lemma newSock_Inr: "newSock y s h = Inr (s', h') \<Longrightarrow> s' = s\<lparr>so_sock := y_socket y\<rparr>"
  by (auto simp: newSock_def success_iff Let_def)

definition socket_ok :: "Socket \<Rightarrow> bool" where
  "socket_ok s \<longleftrightarrow> (so_isConnected s \<longrightarrow> isValid s) \<and> - 1 \<le> so_sock s"

lemma close_socket_ok:
  assumes "socket_ok s" "close_socket s h = (r, s', h')"
  shows "socket_ok s' \<and> \<not> so_isConnected s' \<and> \<not> isValid s' \<and> (r \<longleftrightarrow> \<not> isValid s)"
  using assms by (auto simp: close_socket_def socket_ok_def isValid_def split: if_splits)

lemma connect_ok:
  assumes "socket_ok s" "- 1 \<le> y_socket y" "Socket_connect y a s h = Inr (r, s', h')"
  shows "socket_ok s' \<and> (r \<longrightarrow> so_isConnected s' \<and> isValid s' \<and> so_remoteAddress s' = Some a \<and> getFamily a = so_family s) \<and>
    (\<not> r \<and> getFamily a = so_family s \<longrightarrow> \<not> isValid s' \<and> \<not> so_isConnected s')"
proof -
  let ?s1 = "s\<lparr>so_remoteAddress := Some a\<rparr>"
  obtain s1 h1 where s1: "(if isValid ?s1 then Inr (?s1, h) else newSock y ?s1 h) = Inr (s1, h1)"
    using assms(3) by (auto simp: Socket_connect_def success_iff Let_def)
  have f: "so_family s1 = so_family s" "so_remoteAddress s1 = Some a" "so_isConnected s1 = so_isConnected s" "socket_ok s1 \<or> \<not> isValid s1"
    using s1 assms(1,2) newSock_Inr[of y ?s1 h s1 h1] by (auto simp: socket_ok_def isValid_def split: if_splits)
  have nv: "\<not> isValid s1 \<Longrightarrow> socket_ok s1 \<and> \<not> so_isConnected s1"
    using s1 assms(1) newSock_Inr[of y ?s1 h s1 h1] by (auto simp: socket_ok_def isValid_def split: if_splits)
  obtain call wait opt where c: "y_connect y = (call, wait, opt)" by (cases "y_connect y")
  obtain q s2 h2 where q: "close_socket s1 h1 = (q, s2, h2)" by (cases "close_socket s1 h1")
  show ?thesis
  proof (cases "isValid s1 \<and> getFamily a = so_family s1")
    case True
    then have ok: "socket_ok s1" using f(4) by blast
    show ?thesis using assms(3) True f s1 c q close_socket_ok[OF ok q] ok
      by (auto simp: Socket_connect_def Let_def socket_ok_def isValid_def split: if_splits)
  next
    case False
    then show ?thesis using assms(3) f s1 nv by (auto simp: Socket_connect_def Let_def socket_ok_def split: if_splits)
  qed
qed

lemma bind_ok:
  assumes "socket_ok s" "- 1 \<le> y_socket y" "Socket_bind y yp a s h = Inr (r, s', h')"
  shows "socket_ok s' \<and> (r \<longrightarrow> isValid s' \<and> so_localAddress s' = Some a)"
proof -
  let ?s1 = "s\<lparr>so_localAddress := Some a\<rparr>"
  obtain s1 h1 where s1: "(if isValid ?s1 then Inr (?s1, h) else newSock y ?s1 h) = Inr (s1, h1)"
    using assms(3) by (auto simp: Socket_bind_def success_iff Let_def)
  have f: "so_localAddress s1 = Some a" "socket_ok s1"
    using s1 assms(1,2) newSock_Inr[of y ?s1 h s1 h1] by (auto simp: socket_ok_def isValid_def split: if_splits)
  have "s' = s1 \<and> \<not> r \<or> r \<and> isValid s1 \<and> s' = snd (getLocalAddress y s1)"
    using assms(3) s1 by (auto simp: Socket_bind_def Let_def success_iff split: if_splits)
  then show ?thesis using f by (auto simp: socket_ok_def isValid_def)
qed

lemma accept_ok: "Socket_accept y n s h = Inr (Some c, h') \<Longrightarrow> socket_ok c \<and> so_isConnected c \<and> so_sock c = n"
  by (auto simp: Socket_accept_def Socket_init_def Let_def success_iff socket_ok_def isValid_def split: if_splits)

inductive tcp_life :: "Socket \<Rightarrow> bool" where
  tl_new: "tcp_life (Socket_new family TCP 0)"
| tl_connect: "tcp_life s \<Longrightarrow> - 1 \<le> y_socket y \<Longrightarrow> Socket_connect y a s h = Inr (r, s', h') \<Longrightarrow> tcp_life s'"
| tl_reconnect: "tcp_life s \<Longrightarrow> - 1 \<le> y_socket y \<Longrightarrow> reconnect y s h = Inr (r, s', h') \<Longrightarrow> tcp_life s'"
| tl_bind: "tcp_life s \<Longrightarrow> - 1 \<le> y_socket y \<Longrightarrow> Socket_bind y yp a s h = Inr (r, s', h') \<Longrightarrow> tcp_life s'"
| tl_accept: "tcp_life s \<Longrightarrow> Socket_accept y n s h = Inr (Some c, h') \<Longrightarrow> tcp_life c"
| tl_close: "tcp_life s \<Longrightarrow> close_socket s h = (r, s', h') \<Longrightarrow> tcp_life s'"

lemma tcp_life_ok: "tcp_life s \<Longrightarrow> socket_ok s"
proof (induction rule: tcp_life.induct)
  case (tl_new family)
  then show ?case by (simp add: socket_ok_def Socket_new_def)
next
  case (tl_connect s y a h r s' h')
  then show ?case using connect_ok by blast
next
  case (tl_bind s y yp a h r s' h')
  then show ?case using bind_ok by blast
next
  case (tl_accept s y n h c h')
  then show ?case using accept_ok by blast
next
  case (tl_close s h r s' h')
  then show ?case using close_socket_ok by blast
next
  case (tl_reconnect s y h r s' h')
  have "socket_ok (s\<lparr>so_localAddress := None\<rparr>)" using tl_reconnect.IH by (simp add: socket_ok_def isValid_def)
  then show ?case using tl_reconnect connect_ok[of "s\<lparr>so_localAddress := None\<rparr>" y] by (fastforce simp: reconnect_def split: option.splits)
qed

text \<open>
  C26: A TCP socket that is connected has a descriptor after every history of connecting, reconnecting, binding, accepting and closing,
  and closing leaves it without one and not connected; closing again changes nothing.\<close>

theorem socket_invariant:
  assumes "tcp_life s"
  shows "(so_isConnected s \<longrightarrow> isValid s) \<and>
    (case close_socket s h of (r, s', h') \<Rightarrow> \<not> so_isConnected s' \<and> \<not> isValid s' \<and> close_socket s' h' = (True, s', h'))"
proof -
  obtain r s' h' where c: "close_socket s h = (r, s', h')" by (cases "close_socket s h")
  have "so_isConnected s \<longrightarrow> isValid s" using tcp_life_ok[OF assms] by (simp add: socket_ok_def)
  then show ?thesis using close_socket_ok[OF tcp_life_ok[OF assms] c] c by (auto simp: close_socket_def isValid_def split: if_splits)
qed

theorem socket_invariant_witness:
  "tcp_life CreateTCPSocket \<and> \<not> isValid (fst (snd (close_socket CreateTCPSocket one_socket)))"
  using socket_invariant[of CreateTCPSocket one_socket] tl_new[of AF_INET] by (auto simp: CreateTCPSocket_def split: prod.splits)

section \<open>Totality\<close>

lemma create_ctx_Inr:
  assumes "64 \<le> length (hk_fds h)" "- 1 \<le> fd"
  shows "\<exists>h'. create_ctx fd h = Inr h' \<and> length (hk_fds h) \<le> length (hk_fds h') \<and> hk_enable h' = hk_enable h"
proof (cases "fd = - 1")
  case False
  then have "0 \<le> fd" using assms(2) by simp
  then show ?thesis using assms(1)
    by (auto simp: create_ctx_def FdManager_get_def Let_def split: prod.splits)
qed (simp add: create_ctx_def FdManager_get_def)

lemma newSock_total:
  assumes "64 \<le> length (hk_fds h)" "- 1 \<le> y_socket y"
  shows "\<exists>h'. newSock y s h = Inr (s\<lparr>so_sock := y_socket y\<rparr>, h') \<and> 64 \<le> length (hk_fds h')"
  using create_ctx_Inr[OF assms] assms(1) by (auto simp: newSock_def hook_socket_def Let_def)

lemma close_len: "length (hk_fds (snd (snd (close_socket s h)))) = length (hk_fds h)"
  by (simp add: close_socket_def close_fd_def)

lemma connect_total:
  assumes "64 \<le> length (hk_fds h)" "- 1 \<le> y_socket y"
  shows "\<exists>r s' h'. Socket_connect y a s h = Inr (r, s', h') \<and> 64 \<le> length (hk_fds h')"
proof -
  let ?s1 = "s\<lparr>so_remoteAddress := Some a\<rparr>"
  obtain s1 h1 where s1: "(if isValid ?s1 then Inr (?s1, h) else newSock y ?s1 h) = Inr (s1, h1)" "64 \<le> length (hk_fds h1)"
    using newSock_total[OF assms, of ?s1] assms(1) by (cases "isValid ?s1") auto
  obtain q s2 h2 where q: "close_socket s1 h1 = (q, s2, h2)" by (cases "close_socket s1 h1")
  have "64 \<le> length (hk_fds h2)" using close_len[of s1 h1] q s1(2) by simp
  then show ?thesis using s1 q by (auto simp: Socket_connect_def Let_def split: prod.splits)
qed

lemma bind_total:
  assumes "64 \<le> length (hk_fds h)" "- 1 \<le> y_socket y" "- 1 \<le> y_socket yp"
  shows "\<exists>r s' h'. Socket_bind y yp a s h = Inr (r, s', h') \<and> 64 \<le> length (hk_fds h')"
proof -
  let ?s1 = "s\<lparr>so_localAddress := Some a\<rparr>"
  obtain s1 h1 where s1: "(if isValid ?s1 then Inr (?s1, h) else newSock y ?s1 h) = Inr (s1, h1)" "64 \<le> length (hk_fds h1)"
    using newSock_total[OF assms(1,2), of ?s1] assms(1) by (cases "isValid ?s1") auto
  obtain r p h2 where p: "Socket_connect yp a CreateUnixTCPSocket h1 = Inr (r, p, h2)" "64 \<le> length (hk_fds h2)"
    using connect_total[OF s1(2) assms(3)] by blast
  have "64 \<le> length (hk_fds (snd (snd (close_socket p h2))))" using p(2) by (simp add: close_len)
  then show ?thesis using s1 p by (cases a) (auto simp: Socket_bind_def Let_def)
qed

section \<open>Connecting\<close>


definition refused :: answers where
  "refused = \<lparr>y_socket = 7, y_connect = ((- 1, 111), (0, 0), (0, 0, 0)), y_bind = True, y_listen = True, y_peer = None, y_name = None\<rparr>"


text \<open>A datagram socket is marked as connected even when no descriptor could be created.\<close>

lemma udp_connected_without_descriptor:
  assumes "y_socket y = - 1"
  shows "\<exists>s. CreateUDP y a h = Inr (s, h) \<and> so_isConnected s \<and> \<not> isValid s"
  using assms by (simp add: CreateUDP_def newSock_def hook_socket_def Socket_new_def isValid_def Let_def)

text \<open>After \<open>bind\<close>, the local address is the one that was asked for, whatever the system chose, a free port for example.\<close>

lemma bind_reports_asked_address:
  "so_localAddress s = Some a \<Longrightarrow> fst (getLocalAddress y s) = a"
  by (simp add: getLocalAddress_def)

end
