(* ===== verification/HookCalls.thy ===== *)
theory HookCalls
  imports HookWait Sockets
begin

text \<open>
  The hooked functions of \<open>hook.cc\<close> one by one, on top of \<open>do_io\<close>: which event and which timeout each waits for, what the interleaved waits make of a
  call, the commands of \<open>fcntl\<close>, and the functions of \<open>socket.cc\<close> that transfer data with addresses.
\<close>

section \<open>The results of a wait\<close>

text \<open>
  The waits that \<open>do_io_loop\<close> takes as an argument: \<open>addEvent\<close> failed with any \<open>errno\<close>, or the fiber was resumed, with a timeout only if
  the context has one.
\<close>

definition waits_ok :: "bool \<Rightarrow> (int \<times> int) list \<Rightarrow> bool" where
  "waits_ok to waits \<longleftrightarrow> list_all (\<lambda>(rt, c). rt \<noteq> 0 \<or> c = 0 \<or> to \<and> c = ETIMEDOUT) waits"

text \<open>What is known of the loop at a point of the fiber, after some calls and waits.\<close>

definition io_history :: "bool \<Rightarrow> io_wait \<Rightarrow> (int \<times> int) list \<Rightarrow> (int \<times> int) list \<Rightarrow> bool" where
  "io_history to w calls waits \<longleftrightarrow> waits_ok to waits \<and>
     (case iw_point w of
        Calling \<Rightarrow> \<forall>cs ws. do_io_loop (calls @ cs) (waits @ ws) = do_io_loop cs ws
      | Returned n e \<Rightarrow> do_io_loop calls waits = Some (n, e)
      | _ \<Rightarrow> \<forall>cs ws. do_io_loop (calls @ cs) (waits @ ws) = do_io_loop ((- 1, EAGAIN) # cs) ws)"

lemma io_history_same_point: "io_history to w calls waits \<Longrightarrow> iw_point w' = iw_point w \<Longrightarrow> io_history to w' calls waits"
  by (simp add: io_history_def)

lemma io_history_call:
  assumes h: "io_history to w calls waits" and p: "iw_point w = Calling"
  shows "io_history to (io_call n e w) (calls @ [(n, e)]) waits"
proof -
  have d: "do_io_loop (calls @ cs) (waits @ ws) = do_io_loop cs ws" for cs ws using h p by (simp add: io_history_def)
  have l: "do_io_loop ((calls @ [(n, e)]) @ cs) (waits @ ws) = do_io_loop ((n, e) # cs) ws" for cs ws using d by simp
  consider "n = - 1 \<and> e = EINTR" | "n = - 1 \<and> e = EAGAIN" | "\<not> (n = - 1 \<and> (e = EINTR \<or> e = EAGAIN))" by blast
  then show ?thesis
  proof cases
    case 1
    then show ?thesis using h p l by (simp add: io_history_def io_call_def)
  next
    case 2
    then show ?thesis using h p l by (simp add: io_history_def io_call_def EAGAIN_def EINTR_def)
  next
    case 3
    then have "do_io_loop (calls @ [(n, e)]) waits = Some (n, e)" using l[of "[]" "[]"] by auto
    then show ?thesis using 3 h by (auto simp: io_history_def io_call_def)
  qed
qed

lemma io_history_wait:
  assumes h: "io_history to w calls waits" and p: "iw_point w \<in> {Arming, Suspended, Woken}"
  shows "do_io_loop (calls @ cs) (waits @ (rt, c) # ws) =
    (if rt \<noteq> 0 then Some (- 1, c) else if c \<noteq> 0 then Some (- 1, c) else do_io_loop cs ws)"
proof -
  have "do_io_loop (calls @ cs) (waits @ ws) = do_io_loop ((- 1, EAGAIN) # cs) ws" for cs ws using h p by (auto simp: io_history_def)
  then show ?thesis by (simp add: EAGAIN_def EINTR_def)
qed

lemma io_history_step:
  assumes "io_wait_step w w'" "io_wait_inv to w" "io_history to w calls waits"
  shows "\<exists>calls waits. io_history to w' calls waits"
  using assms
proof (induction rule: io_wait_step.induct)
  case (iw_call w n e)
  then show ?case using io_history_call by blast
next
  case (iw_add w rt e)
  show ?case
  proof (cases "rt = 0")
    case True
    then have "io_history to (io_add_event rt e w) calls waits" using iw_add by (simp add: io_history_def io_add_event_def)
    then show ?thesis by blast
  next
    case False
    then have "do_io_loop calls (waits @ [(rt, e)]) = Some (- 1, e)"
      using io_history_wait[OF iw_add(3), of "[]" rt e "[]"] iw_add(1) by simp
    then have "io_history to (io_add_event rt e w) calls (waits @ [(rt, e)])"
      using False iw_add(3) by (simp add: io_history_def io_add_event_def waits_ok_def)
    then show ?thesis by blast
  qed
next
  case (iw_report w)
  then have "io_history to (io_trigger w) calls waits" by (simp add: io_history_def io_trigger_def io_wait_inv_def)
  then show ?case by blast
next
  case (iw_expire w)
  then show ?case using io_history_same_point[of to w calls waits "io_expire w"] by (auto simp: io_expire_def)
next
  case (iw_callback w)
  then have "io_history to (io_timer_callback w) calls waits"
    by (cases "iw_point w") (auto simp: io_history_def io_timer_callback_def io_trigger_def io_wait_inv_def Let_def)
  then show ?case by blast
next
  case (iw_resume w)
  let ?c = "iw_cancelled w"
  have ok: "waits_ok to (waits @ [(0, ?c)])" using iw_resume(2,3) by (auto simp: io_history_def waits_ok_def io_wait_inv_def)
  have l: "do_io_loop (calls @ cs) (waits @ (0, ?c) # ws) = (if ?c \<noteq> 0 then Some (- 1, ?c) else do_io_loop cs ws)" for cs ws
    using io_history_wait[OF iw_resume(3)] iw_resume(1) by simp
  have "io_history to (io_resume w) calls (waits @ [(0, ?c)])"
    using ok l[of "[]" "[]"] l by (cases "?c = 0") (simp_all add: io_history_def io_resume_def Let_def)
  then show ?case by blast
qed

lemma io_wait_run_history: "io_wait_run to w \<Longrightarrow> \<exists>calls waits. io_history to w calls waits"
proof (induction rule: io_wait_run.induct)
  case iw_start
  have "io_history to (io_start to) [] []" by (simp add: io_history_def io_start_def waits_ok_def)
  then show ?case by blast
next
  case (iw_step w w')
  then show ?case using io_history_step io_wait_run_inv by blast
qed

text \<open>The steps of one round, for a fiber that is about to call.\<close>

lemma run_would_block:
  assumes "io_wait_run to w" "iw_point w = Calling" "iw_timeout w = to"
  shows "io_wait_run to (w\<lparr>iw_point := Arming, iw_timer := to\<rparr>)"
  using iw_step[OF assms(1) iw_call[OF assms(2), of "- 1" EAGAIN]] assms(3) by (simp add: io_call_def EAGAIN_def EINTR_def)

lemma run_suspended:
  assumes "io_wait_run to w" "iw_point w = Calling" "iw_timeout w = to"
  shows "\<exists>w'. io_wait_run to w' \<and> iw_point w' = Suspended \<and> iw_event w' \<and> iw_timer w' = to \<and> iw_timeout w' = to \<and> iw_cancelled w' = iw_cancelled w"
  using iw_step[OF run_would_block[OF assms] iw_add[of _ 0 0]] assms(3)
  by (intro exI[of _ "io_add_event 0 0 (w\<lparr>iw_point := Arming, iw_timer := to\<rparr>)"]) (simp add: io_add_event_def)

lemma run_woken:
  assumes "io_wait_run to w" "iw_point w = Calling" "iw_timeout w = to" "iw_cancelled w = 0"
  shows "\<exists>w'. io_wait_run to w' \<and> iw_point w' = Calling \<and> iw_timeout w' = to \<and> iw_cancelled w' = 0"
proof -
  obtain v where v: "io_wait_run to v" "iw_event v" "iw_timeout v = to" "iw_cancelled v = 0" using run_suspended[OF assms(1-3)] assms(4) by auto
  have "io_wait_run to (io_resume (io_trigger v))"
    by (rule iw_step[OF iw_step[OF v(1) iw_report[OF v(2)]]], rule iw_resume) (simp add: io_trigger_def)
  then show ?thesis using v(3,4) by (intro exI[of _ "io_resume (io_trigger v)"]) (simp add: io_resume_def io_trigger_def Let_def)
qed

lemma run_timed_out:
  assumes "io_wait_run True w" "iw_point w = Calling" "iw_timeout w" "iw_cancelled w = 0"
  shows "\<exists>w'. io_wait_run True w' \<and> iw_point w' = Returned (- 1) ETIMEDOUT"
proof -
  obtain v where v: "io_wait_run True v" "iw_event v" "iw_point v = Suspended" "iw_timer v" "iw_cancelled v = 0"
    using run_suspended[OF assms(1,2)] assms(3,4) by auto
  have "io_wait_run True (io_timer_callback (io_expire v))"
    by (rule iw_step[OF iw_step[OF v(1) iw_expire[OF v(4)]]], rule iw_callback) (simp add: io_expire_def)
  then have "io_wait_run True (io_resume (io_timer_callback (io_expire v)))"
    by (rule iw_step, intro iw_resume) (simp add: io_timer_callback_def io_expire_def io_trigger_def v Let_def)
  then show ?thesis
    using v by (intro exI[of _ "io_resume (io_timer_callback (io_expire v))"])
      (simp add: io_resume_def io_timer_callback_def io_expire_def io_trigger_def Let_def)
qed

lemma loop_has_run:
  "do_io_loop calls waits = Some (n, e) \<Longrightarrow> waits_ok to waits \<Longrightarrow> io_wait_run to w \<Longrightarrow> iw_point w = Calling \<Longrightarrow> iw_timeout w = to \<Longrightarrow>
   iw_cancelled w = 0 \<Longrightarrow> \<exists>w'. io_wait_run to w' \<and> iw_point w' = Returned n e"
proof (induction calls waits arbitrary: w rule: do_io_loop.induct)
  case (2 m f calls waits)
  consider "m = - 1 \<and> f = EINTR" | "m = - 1 \<and> f = EAGAIN" "f \<noteq> EINTR" | "\<not> (m = - 1 \<and> (f = EINTR \<or> f = EAGAIN))" by blast
  then show ?case
  proof cases
    case 1
    then show ?thesis using "2.IH"(1) "2.prems" by simp
  next
    case 3
    then have "n = m" "e = f" using "2.prems"(1) by (auto split: if_splits)
    moreover have "io_call m f w = w\<lparr>iw_point := Returned m f\<rparr>" using 3 by (auto simp: io_call_def)
    ultimately show ?thesis using iw_step[OF "2.prems"(3) iw_call[OF "2.prems"(4), of m f]] by auto
  next
    case b: 2
    then obtain rt c ws where ws: "waits = (rt, c) # ws" using "2.prems"(1) by (cases waits) auto
    have ok: "rt \<noteq> 0 \<or> c = 0 \<or> to \<and> c = ETIMEDOUT" "waits_ok to ws" using "2.prems"(2) by (simp_all add: ws waits_ok_def)
    consider "rt \<noteq> 0" | "rt = 0" "c = 0" | "rt = 0" "c = ETIMEDOUT" to using ok(1) by blast
    then show ?thesis
    proof cases
      case 1
      then have "n = - 1" "e = c" using "2.prems"(1) b ws by auto
      moreover have "io_wait_run to (io_add_event rt c (w\<lparr>iw_point := Arming, iw_timer := to\<rparr>))"
        by (rule iw_step[OF run_would_block[OF "2.prems"(3-5)]], rule iw_add) simp
      ultimately show ?thesis using 1 by (intro exI[of _ "io_add_event rt c (w\<lparr>iw_point := Arming, iw_timer := to\<rparr>)"]) (simp add: io_add_event_def)
    next
      case r: 2
      obtain w' where "io_wait_run to w'" "iw_point w' = Calling" "iw_timeout w' = to" "iw_cancelled w' = 0"
        using run_woken[OF "2.prems"(3-6)] by blast
      then show ?thesis using "2.IH"(2)[of "(rt, c)" ws rt c w'] "2.prems"(1) b ws r ok(2) by auto
    next
      case 3
      then have "n = - 1" "e = ETIMEDOUT" using "2.prems"(1) b ws by auto
      then show ?thesis using run_timed_out 3 "2.prems"(3-6) by auto
    qed
  qed
qed simp


section \<open>The functions that transfer data\<close>

datatype hooked = H_accept | H_read | H_readv | H_recv | H_recvfrom | H_recvmsg | H_write | H_writev | H_send | H_sendto | H_sendmsg

text \<open>The event and the timeout that each passes to \<open>do_io\<close>.\<close>

fun hooked_event :: "hooked \<Rightarrow> event" where
  "hooked_event H_accept = EV_READ"
| "hooked_event H_read = EV_READ"
| "hooked_event H_readv = EV_READ"
| "hooked_event H_recv = EV_READ"
| "hooked_event H_recvfrom = EV_READ"
| "hooked_event H_recvmsg = EV_READ"
| "hooked_event H_write = EV_WRITE"
| "hooked_event H_writev = EV_WRITE"
| "hooked_event H_send = EV_WRITE"
| "hooked_event H_sendto = EV_WRITE"
| "hooked_event H_sendmsg = EV_WRITE"

fun hooked_so :: "hooked \<Rightarrow> int" where
  "hooked_so H_accept = SO_RCVTIMEO"
| "hooked_so H_read = SO_RCVTIMEO"
| "hooked_so H_readv = SO_RCVTIMEO"
| "hooked_so H_recv = SO_RCVTIMEO"
| "hooked_so H_recvfrom = SO_RCVTIMEO"
| "hooked_so H_recvmsg = SO_RCVTIMEO"
| "hooked_so H_write = SO_SNDTIMEO"
| "hooked_so H_writev = SO_SNDTIMEO"
| "hooked_so H_send = SO_SNDTIMEO"
| "hooked_so H_sendto = SO_SNDTIMEO"
| "hooked_so H_sendmsg = SO_SNDTIMEO"

text \<open>A hooked function, with the timer that its waits set.\<close>

definition hooked_call :: "hooked \<Rightarrow> nat \<Rightarrow> hook \<Rightarrow> (int \<times> int) list \<Rightarrow> (int \<times> int) list \<Rightarrow> (int \<times> int) option \<times> u64 option" where
  "hooked_call f fd h calls waits = (do_io fd h calls waits, io_timeout fd (hooked_so f) h)"

text \<open>A timeout that is set for one direction is used by the functions of this direction and by no other.\<close>

lemma timeout_per_direction:
  assumes "hook_run h" "fd_ctx fd h = Some c" "so = SO_RCVTIMEO \<or> so = SO_SNDTIMEO"
    and "ms = word_of_int (tv_sec * 1000 + tv_usec sdiv 1000)" "ms \<noteq> - 1"
  shows "snd (hooked_call f fd (hook_setsockopt fd SOL_SOCKET so tv_sec tv_usec h) calls waits) =
    (if so = hooked_so f then Some ms else io_timeout fd (hooked_so f) h)"
proof -
  note inv = hook_run_inv[OF assms(1)]
  have so: "hooked_so f = SO_RCVTIMEO \<or> hooked_so f = SO_SNDTIMEO" by (cases f) simp_all
  show ?thesis using inv hook_invD(1,2)[OF inv assms(2)] assms(2-5) so
    by (auto simp: hooked_call_def hook_setsockopt_def hook_inv_def io_timeout_def upd_ctx_def fd_ctx_eq FdCtx_setTimeout_def FdCtx_getTimeout_def
        SO_RCVTIMEO_def SO_SNDTIMEO_def)
qed

section \<open>The commands of fcntl\<close>

text \<open>What is read from the variable arguments: nothing, an \<open>int\<close>, a pointer to a lock or to an owner.\<close>

datatype fcntl_arg = No_arg | Int_arg u32 | Lock_arg nat | Owner_arg nat

text \<open>The outcome: new flags, the flags shown, or the original call with the argument that is passed on.\<close>

datatype fcntl_result = Set_flags hook | Get_flags u32 | Pass int fcntl_arg

definition F_SETFL :: int where "F_SETFL = 4"
definition F_GETFL :: int where "F_GETFL = 3"

text \<open>\<open>F_DUPFD\<close>, \<open>F_DUPFD_CLOEXEC\<close>, \<open>F_SETFD\<close>, \<open>F_SETOWN\<close>, \<open>F_SETSIG\<close>, \<open>F_SETLEASE\<close>, \<open>F_NOTIFY\<close>, \<open>F_SETPIPE_SZ\<close>.\<close>

definition fcntl_int_cmds :: "int list" where
  "fcntl_int_cmds = [0, 1030, 2, 8, 10, 1024, 1026, 1031]"

text \<open>\<open>F_SETLK\<close>, \<open>F_SETLKW\<close>, \<open>F_GETLK\<close>.\<close>

definition fcntl_lock_cmds :: "int list" where
  "fcntl_lock_cmds = [6, 7, 5]"

text \<open>\<open>F_GETOWN_EX\<close>, \<open>F_SETOWN_EX\<close>.\<close>

definition fcntl_owner_cmds :: "int list" where
  "fcntl_owner_cmds = [16, 15]"

text \<open>The argument that the caller passed is given as an integer and as a pointer.\<close>

definition hook_fcntl :: "nat \<Rightarrow> int \<Rightarrow> u32 \<Rightarrow> nat \<Rightarrow> hook \<Rightarrow> fcntl_result" where
  "hook_fcntl fd cmd i p h =
     (if cmd = F_SETFL then Set_flags (fcntl_setfl fd i h)
      else if cmd = F_GETFL then Get_flags (fcntl_getfl fd h)
      else if cmd \<in> set fcntl_int_cmds then Pass cmd (Int_arg i)
      else if cmd \<in> set fcntl_lock_cmds then Pass cmd (Lock_arg p)
      else if cmd \<in> set fcntl_owner_cmds then Pass cmd (Owner_arg p)
      else Pass cmd No_arg)"

text \<open>
  The commands for locks of open file descriptions (\<open>F_OFD_SETLK\<close>, 37) and for seals (\<open>F_ADD_SEALS\<close>, 1033) fall through to the default, which
  drops their argument.
\<close>

lemma fcntl_drops_argument: "hook_fcntl fd 37 i p h = Pass 37 No_arg" "hook_fcntl fd 1033 i p h = Pass 1033 No_arg"
  by (simp_all add: hook_fcntl_def F_SETFL_def F_GETFL_def fcntl_int_cmds_def fcntl_lock_cmds_def fcntl_owner_cmds_def)

text \<open>
  \<open>F_DUPFD\<close> is passed on and the new descriptor gets no context. It shares the flags of the old one, so a copy of a socket that the program believes
  to be blocking shows \<open>O_NONBLOCK\<close> and its hooked calls return "try again".
\<close>

lemma duplicate_not_hidden:
  assumes "hook_run h" "fd_ctx fd h = Some c" "fx_isSocket c" "fd_ctx fd2 h = None"
    and "h2 = kernel_setfl fd2 (k_flags (hk_kernel h) fd) h"
  shows "fcntl_getfl fd2 h2 AND O_NONBLOCK \<noteq> 0 \<and> do_io fd2 h2 ((- 1, EAGAIN) # calls) waits = Some (- 1, EAGAIN)"
proof -
  have b: "bit (k_flags (hk_kernel h) fd) 11" using hook_invD(5)[OF hook_run_inv[OF assms(1)] assms(2,3)] .
  have n: "fd_ctx fd2 h2 = None" using assms(4,5) by (simp add: fd_ctx_eq kernel_setfl_def split: if_splits)
  have "fcntl_getfl fd2 h2 = k_flags (hk_kernel h) fd" using n assms(5) by (simp add: fcntl_getfl_def Let_def kernel_setfl_def set_flags_def)
  then show ?thesis using b n by (simp add: O_NONBLOCK_bit do_io_def first_call_def)
qed

section \<open>Sending and receiving on a socket\<close>

text \<open>
  What a call of the socket class asks of the system: the function, the buffers (bytes to send or room to receive), the name in the message or the
  address argument, and the flags. The results of the original call depend on the request.
\<close>

datatype buffers = Out "byte list list" | Room "nat list"

record request =
  rq_call :: hooked
  rq_bufs :: buffers
  rq_name :: "Address option"
  rq_flags :: int

type_synonym system = "request \<Rightarrow> (int \<times> int) list"

text \<open>The descriptor -1 has no context: the original function is called.\<close>

definition socket_transfer :: "system \<Rightarrow> request \<Rightarrow> Socket \<Rightarrow> hook \<Rightarrow> (int \<times> int) list \<Rightarrow> int option" where
  "socket_transfer sys rq s h waits =
     (if \<not> so_isConnected s then Some (- 1)
      else map_option fst (if so_sock s < 0 then first_call (sys rq) else fst (hooked_call (rq_call rq) (nat (so_sock s)) h (sys rq) waits)))"

definition Socket_send_buffer :: "system \<Rightarrow> byte list \<Rightarrow> int \<Rightarrow> Socket \<Rightarrow> hook \<Rightarrow> (int \<times> int) list \<Rightarrow> int option" where
  "Socket_send_buffer sys buf flags = socket_transfer sys \<lparr>rq_call = H_send, rq_bufs = Out [buf], rq_name = None, rq_flags = flags\<rparr>"

definition Socket_send_iovec :: "system \<Rightarrow> byte list list \<Rightarrow> int \<Rightarrow> Socket \<Rightarrow> hook \<Rightarrow> (int \<times> int) list \<Rightarrow> int option" where
  "Socket_send_iovec sys bufs flags = socket_transfer sys \<lparr>rq_call = H_sendmsg, rq_bufs = Out bufs, rq_name = None, rq_flags = flags\<rparr>"

definition Socket_sendTo :: "system \<Rightarrow> byte list \<Rightarrow> Address \<Rightarrow> int \<Rightarrow> Socket \<Rightarrow> hook \<Rightarrow> (int \<times> int) list \<Rightarrow> int option" where
  "Socket_sendTo sys buf to flags = socket_transfer sys \<lparr>rq_call = H_sendto, rq_bufs = Out [buf], rq_name = Some to, rq_flags = flags\<rparr>"

definition Socket_sendTo_iovec :: "system \<Rightarrow> byte list list \<Rightarrow> Address \<Rightarrow> int \<Rightarrow> Socket \<Rightarrow> hook \<Rightarrow> (int \<times> int) list \<Rightarrow> int option" where
  "Socket_sendTo_iovec sys bufs to flags = socket_transfer sys \<lparr>rq_call = H_sendmsg, rq_bufs = Out bufs, rq_name = Some to, rq_flags = flags\<rparr>"

definition Socket_recv_buffer :: "system \<Rightarrow> nat \<Rightarrow> int \<Rightarrow> Socket \<Rightarrow> hook \<Rightarrow> (int \<times> int) list \<Rightarrow> int option" where
  "Socket_recv_buffer sys len flags = socket_transfer sys \<lparr>rq_call = H_recv, rq_bufs = Room [len], rq_name = None, rq_flags = flags\<rparr>"

definition Socket_recv_iovec :: "system \<Rightarrow> nat list \<Rightarrow> int \<Rightarrow> Socket \<Rightarrow> hook \<Rightarrow> (int \<times> int) list \<Rightarrow> int option" where
  "Socket_recv_iovec sys lens flags = socket_transfer sys \<lparr>rq_call = H_recvmsg, rq_bufs = Room lens, rq_name = None, rq_flags = flags\<rparr>"

definition Socket_recvFrom :: "system \<Rightarrow> nat \<Rightarrow> Address \<Rightarrow> int \<Rightarrow> Socket \<Rightarrow> hook \<Rightarrow> (int \<times> int) list \<Rightarrow> int option" where
  "Socket_recvFrom sys len from flags = socket_transfer sys \<lparr>rq_call = H_recvfrom, rq_bufs = Room [len], rq_name = Some from, rq_flags = flags\<rparr>"

definition Socket_recvFrom_iovec :: "system \<Rightarrow> nat list \<Rightarrow> Address \<Rightarrow> int \<Rightarrow> Socket \<Rightarrow> hook \<Rightarrow> (int \<times> int) list \<Rightarrow> int option" where
  "Socket_recvFrom_iovec sys lens from flags = socket_transfer sys \<lparr>rq_call = H_recvmsg, rq_bufs = Room lens, rq_name = Some from, rq_flags = flags\<rparr>"

text \<open>
  A transfer on a connected socket in blocking mode returns one of the results that the system gives for its own request, or -1 after the timeout of
  the socket; without a connection the system is not asked.
\<close>

lemma transfer_result:
  assumes "hook_run h" "0 \<le> so_sock s" "fd_ctx (nat (so_sock s)) h = Some c" "fx_isSocket c" "\<not> fx_userNonblock c"
    and "\<forall>w \<in> set waits. fst w = 0 \<and> snd w \<in> {0, ETIMEDOUT}" "socket_transfer sys rq s h waits = Some n"
  shows "n = - 1 \<or> so_isConnected s \<and> n \<in> fst ` set (sys rq)"
proof (cases "so_isConnected s")
  case True
  have "do_io (nat (so_sock s)) h (sys rq) waits = do_io_loop (sys rq) waits"
    using hook_run_inv[OF assms(1)] hook_invD(3)[OF hook_run_inv[OF assms(1)] assms(3)] assms(3-5) by (simp add: do_io_def hook_inv_def)
  then obtain e where "do_io_loop (sys rq) waits = Some (n, e)"
    using assms(2,7) True by (auto simp: socket_transfer_def hooked_call_def)
  from do_io_loop_result[OF this assms(6)] show ?thesis using True by force
qed (use assms(7) in \<open>simp add: socket_transfer_def\<close>)

end
