(* ===== verification/TcpServer.thy ===== *)
theory TcpServer
  imports Sockets Scheduler
begin

text \<open>
  The TCP server, \<open>tcp_server.h\<close> and \<open>tcp_server.cc\<close>: binding of a list of addresses, starting, the accept loop and stopping. The server
  works on the scheduler of one of its two workers at a time, which is an argument; the callbacks it schedules are values.
\<close>

section \<open>The server\<close>

datatype server_task = Start_accept Socket | Handle_client Socket | Close_listeners

record TcpServer =
  ts_socks :: "Socket list"
  ts_recvTimeout :: u64
  ts_name :: string
  ts_type :: string
  ts_isStop :: bool

definition TcpServer_new :: "u64 \<Rightarrow> TcpServer" where
  "TcpServer_new read_timeout =
     \<lparr>ts_socks = [], ts_recvTimeout = read_timeout, ts_name = ''sylar/1.0.0'', ts_type = ''tcp'', ts_isStop = True\<rparr>"

definition server_callback :: "server_task \<Rightarrow> server_task ScheduleTask" where
  "server_callback t = \<lparr>tk_fiber = None, tk_cb = Some t, tk_thread = - 1\<rparr>"

text \<open>A socket that nothing refers to any more is closed by its destructor.\<close>

definition destroy_socket :: "Socket \<Rightarrow> hook \<Rightarrow> hook" where
  "destroy_socket s h = snd (snd (close_socket s h))"

text \<open>Every address comes with the system's answers for its socket and for the probe of a local socket.\<close>

type_synonym bind_request = "Address \<times> answers \<times> answers"

fun bind_loop :: "bind_request list \<Rightarrow> Socket list \<Rightarrow> Address list \<Rightarrow> hook \<Rightarrow> (Socket list \<times> Address list \<times> hook) res" where
  "bind_loop [] socks fails h = Inr (socks, fails, h)"
| "bind_loop ((addr, y, yp) # rs) socks fails h =
     bindr (Socket_bind y yp addr (CreateTCP addr) h) (\<lambda>(ok, sock, h1).
       if ok \<and> Socket_listen y sock then bind_loop rs (socks @ [sock]) fails h1
       else bind_loop rs socks (fails @ [addr]) (destroy_socket sock h1))"

definition TcpServer_bind :: "bind_request list \<Rightarrow> Address list \<Rightarrow> TcpServer \<Rightarrow> hook \<Rightarrow> (bool \<times> Address list \<times> TcpServer \<times> hook) res" where
  "TcpServer_bind addrs fails srv h =
     bindr (bind_loop addrs (ts_socks srv) fails h) (\<lambda>(socks, fails1, h1).
       if fails1 \<noteq> [] then Inr (False, fails1, srv\<lparr>ts_socks := []\<rparr>, fold destroy_socket socks h1)
       else Inr (True, fails1, srv\<lparr>ts_socks := socks\<rparr>, h1))"

definition TcpServer_bind_one :: "bind_request \<Rightarrow> TcpServer \<Rightarrow> hook \<Rightarrow> (bool \<times> TcpServer \<times> hook) res" where
  "TcpServer_bind_one addr srv h = bindr (TcpServer_bind [addr] [] srv h) (\<lambda>(ok, fails, srv1, h1). Inr (ok, srv1, h1))"

definition TcpServer_start :: "TcpServer \<Rightarrow> server_task Scheduler \<Rightarrow> bool \<times> TcpServer \<times> server_task Scheduler" where
  "TcpServer_start srv w =
     (if \<not> ts_isStop srv then (True, srv, w)
      else (True, srv\<lparr>ts_isStop := False\<rparr>, fold (\<lambda>sock w. snd (schedule (server_callback (Start_accept sock)) w)) (ts_socks srv) w))"

text \<open>
  The accept loop: each round has the value of \<open>m_isStop\<close> that it reads, the descriptor that \<open>accept\<close> gives and the answers for the new
  socket. After the last round the loop waits in \<open>accept\<close>.
\<close>

fun startAccept ::
    "(bool \<times> int \<times> answers) list \<Rightarrow> TcpServer \<Rightarrow> Socket \<Rightarrow> hook \<Rightarrow> server_task Scheduler \<Rightarrow> (hook \<times> server_task Scheduler) res" where
  "startAccept [] srv sock h w = Inr (h, w)"
| "startAccept ((halt, newsock, y) # rs) srv sock h w =
     (if halt then Inr (h, w)
      else bindr (Socket_accept y newsock sock h) (\<lambda>(client, h1).
             case client of
               Some c \<Rightarrow> startAccept rs srv sock (setRecvTimeout (sint (ts_recvTimeout srv)) c h1)
                           (snd (schedule (server_callback (Handle_client c)) w))
             | None \<Rightarrow> startAccept rs srv sock h1 w))"

definition TcpServer_stop :: "TcpServer \<Rightarrow> server_task Scheduler \<Rightarrow> TcpServer \<times> server_task Scheduler" where
  "TcpServer_stop srv w = (srv\<lparr>ts_isStop := True\<rparr>, snd (schedule (server_callback Close_listeners) w))"

text \<open>What the scheduled task of \<open>stop\<close> does; the cancelled events are those of \<open>cancelAll\<close>.\<close>

definition close_listeners :: "TcpServer \<Rightarrow> hook \<Rightarrow> TcpServer \<times> hook" where
  "close_listeners srv h = (srv\<lparr>ts_socks := []\<rparr>, fold destroy_socket (ts_socks srv) h)"

text \<open>The destructor.\<close>

definition TcpServer_delete :: "TcpServer \<Rightarrow> hook \<Rightarrow> TcpServer \<times> hook" where
  "TcpServer_delete srv h = (srv\<lparr>ts_socks := []\<rparr>, fold destroy_socket (ts_socks srv) h)"

section \<open>Binding\<close>

text \<open>The addresses that fail, and a listening socket for every other address.\<close>

definition listening :: "Socket \<Rightarrow> Address \<Rightarrow> bool" where
  "listening s a \<longleftrightarrow> isValid s \<and> so_localAddress s = Some a \<and> \<not> so_isConnected s"

lemma bind_result:
  assumes "Socket_bind y yp a (CreateTCP a) h = Inr (True, s', h')"
  shows "so_localAddress s' = Some a \<and> isValid s' \<and> \<not> so_isConnected s'"
proof -
  let ?s1 = "CreateTCP a\<lparr>so_localAddress := Some a\<rparr>"
  obtain s1 h1 where s1: "(if isValid ?s1 then Inr (?s1, h) else newSock y ?s1 h) = Inr (s1, h1)"
    using assms by (auto simp: Socket_bind_def success_iff Let_def)
  have "so_localAddress s1 = Some a" "\<not> so_isConnected s1"
    using s1 newSock_Inr[of y ?s1 h s1 h1] by (auto simp: CreateTCP_def Socket_new_def split: if_splits)
  moreover have "isValid s1" "s' = snd (getLocalAddress y s1)"
    using assms s1 by (auto simp: Socket_bind_def Let_def success_iff split: if_splits)
  ultimately show ?thesis by (simp add: isValid_def)
qed

definition request_ok :: "bind_request \<Rightarrow> bool" where
  "request_ok r \<longleftrightarrow> (case r of (a, y, yp) \<Rightarrow> - 1 \<le> y_socket y \<and> - 1 \<le> y_socket yp)"

lemma destroy_len: "length (hk_fds (destroy_socket s h)) = length (hk_fds h)"
  by (simp add: destroy_socket_def close_len)

lemma bind_loop_result:
  assumes "list_all request_ok rs" "64 \<le> length (hk_fds h)"
  shows "\<exists>new failed h'. bind_loop rs socks fails h = Inr (socks @ new, fails @ failed, h') \<and>
    (failed = [] \<longrightarrow> list_all2 listening new (map fst rs)) \<and> length new + length failed = length rs"
  using assms
proof (induction rs arbitrary: socks fails h)
  case (Cons r rs)
  obtain a y yp where r: "r = (a, y, yp)" by (cases r)
  have y: "- 1 \<le> y_socket y" "- 1 \<le> y_socket yp" using Cons.prems(1) r by (simp_all add: request_ok_def)
  obtain ok s1 h1 where b: "Socket_bind y yp a (CreateTCP a) h = Inr (ok, s1, h1)" "64 \<le> length (hk_fds h1)"
    using bind_total[OF Cons.prems(2) y] by blast
  show ?case
  proof (cases "ok \<and> Socket_listen y s1")
    case True
    then have "listening s1 a" using bind_result[of y yp a h s1 h1] b(1) by (simp add: listening_def)
    moreover obtain new failed h' where i: "bind_loop rs (socks @ [s1]) fails h1 = Inr ((socks @ [s1]) @ new, fails @ failed, h')"
      "failed = [] \<longrightarrow> list_all2 listening new (map fst rs)" "length new + length failed = length rs"
      using Cons.IH[of h1 "socks @ [s1]" fails] Cons.prems(1) b(2) by auto
    ultimately show ?thesis using True b r by (intro exI[of _ "s1 # new"] exI[of _ failed] exI[of _ h']) simp
  next
    case False
    obtain new failed h' where i: "bind_loop rs socks (fails @ [a]) (destroy_socket s1 h1) = Inr (socks @ new, (fails @ [a]) @ failed, h')"
      "length new + length failed = length rs"
      using Cons.IH[of "destroy_socket s1 h1" socks "fails @ [a]"] Cons.prems(1) b(2) by (auto simp: destroy_len)
    then show ?thesis using False b r by (intro exI[of _ new] exI[of _ "a # failed"] exI[of _ h']) auto
  qed
qed simp

text \<open>
  Binding is all or nothing: it always comes back; when it reports success, the server has, besides the sockets it had, one socket per
  address in order, each bound to its address, with a descriptor and listening; when an address fails, it is reported and the server has no
  sockets at all.\<close>

theorem bind_all_or_nothing:
  assumes "list_all request_ok rs" "64 \<le> length (hk_fds h)"
  shows "\<exists>ok failed srv' h'. TcpServer_bind rs [] srv h = Inr (ok, failed, srv', h') \<and> (ok \<longleftrightarrow> failed = []) \<and>
    (ok \<longrightarrow> (\<exists>new. ts_socks srv' = ts_socks srv @ new \<and> list_all2 listening new (map fst rs))) \<and>
    (\<not> ok \<longrightarrow> ts_socks srv' = [] \<and> length failed \<le> length rs)"
proof -
  obtain new failed h' where b: "bind_loop rs (ts_socks srv) [] h = Inr (ts_socks srv @ new, failed, h')"
    "failed = [] \<longrightarrow> list_all2 listening new (map fst rs)" "length new + length failed = length rs"
    using bind_loop_result[OF assms, of "ts_socks srv" "[]"] by auto
  show ?thesis
  proof (cases "failed = []")
    case True
    then show ?thesis using b
      by (intro exI[of _ True] exI[of _ "[]"] exI[of _ "srv\<lparr>ts_socks := ts_socks srv @ new\<rparr>"] exI[of _ h']) (simp add: TcpServer_bind_def)
  next
    case False
    then show ?thesis using b
      by (intro exI[of _ False] exI[of _ failed] exI[of _ "srv\<lparr>ts_socks := []\<rparr>"] exI[of _ "fold destroy_socket (ts_socks srv @ new) h'"])
        (simp add: TcpServer_bind_def)
  qed
qed

theorem bind_all_or_nothing_witness:
  "list_all request_ok [(IPv4Address (IPv4Address_new SYLAR_LITTLE_ENDIAN 0 80), refused, refused)] \<and>
   (\<exists>ok failed srv' h'. TcpServer_bind [(IPv4Address (IPv4Address_new SYLAR_LITTLE_ENDIAN 0 80), refused, refused)] [] (TcpServer_new 0) one_socket =
      Inr (ok, failed, srv', h'))"
proof -
  have "list_all request_ok [(IPv4Address (IPv4Address_new SYLAR_LITTLE_ENDIAN 0 80), refused, refused)]" by (simp add: request_ok_def refused_def)
  moreover have "64 \<le> length (hk_fds one_socket)" using hook_run_inv[OF one_socket_run] by (simp add: hook_inv_def)
  moreover note bind_all_or_nothing[OF calculation, of "TcpServer_new 0"]
  ultimately show ?thesis by blast
qed

section \<open>Starting, accepting, stopping\<close>

lemma schedule_tasks: "sc_tasks (snd (schedule (server_callback t) w)) = sc_tasks w @ [server_callback t]"
  by (simp add: schedule_def scheduleNoLock_def ScheduleTask_ok_def server_callback_def)

lemma fold_schedule: "sc_tasks (fold (\<lambda>x w. snd (schedule (server_callback (f x)) w)) xs w) = sc_tasks w @ map (\<lambda>x. server_callback (f x)) xs"
  by (induction xs arbitrary: w) (simp_all add: schedule_tasks)

text \<open>Starting a stopped server schedules one accept loop per socket; starting it again schedules nothing.\<close>

lemma start_once:
  assumes "ts_isStop srv" "TcpServer_start srv w = (r, srv', w')"
  shows "r \<and> \<not> ts_isStop srv' \<and> sc_tasks w' = sc_tasks w @ map (\<lambda>s. server_callback (Start_accept s)) (ts_socks srv) \<and>
    TcpServer_start srv' w' = (True, srv', w')"
  using assms by (auto simp: TcpServer_start_def fold_schedule)

text \<open>The descriptors of a run of the accept loop: those that \<open>accept\<close> gave before the loop saw the stop flag.\<close>

definition accepted :: "(bool \<times> int \<times> answers) list \<Rightarrow> int list" where
  "accepted rs = filter (\<lambda>n. n \<noteq> - 1) (map (\<lambda>(halt, n, y). n) (takeWhile (\<lambda>(halt, n, y). \<not> halt) rs))"

definition sockets_only :: "hook \<Rightarrow> int \<Rightarrow> bool" where
  "sockets_only h n \<longleftrightarrow> n = - 1 \<or>
     0 \<le> n \<and> k_stat (hk_kernel h) (nat n) = Some True \<and> (fd_ctx (nat n) h = None \<or> managed (fd_ctx (nat n) h))"

lemma create_ctx_sockets:
  assumes "64 \<le> length (hk_fds h)" "0 \<le> n" "sockets_only h n" "create_ctx n h = Inr h'"
  shows "managed (fd_ctx (nat n) h')" "sockets_only h m \<Longrightarrow> sockets_only h' m" "64 \<le> length (hk_fds h')"
proof -
  have "managed (fd_ctx (nat n) h') \<and> k_stat (hk_kernel h') = k_stat (hk_kernel h) \<and> (\<forall>g. g \<noteq> nat n \<longrightarrow> fd_ctx g h' = fd_ctx g h) \<and>
    length (hk_fds h) \<le> length (hk_fds h')"
  proof (cases "fd_ctx (nat n) h")
    case None
    let ?l = "nat n * 3 div 2" and ?m = "hk_fds h"
    define m1 where "m1 = (if int (length ?m) \<le> n then take ?l ?m @ replicate (?l - length ?m) None else ?m)"
    obtain c k1 where c: "FdCtx_new (nat n) (hk_kernel h) = (c, k1)" by (cases "FdCtx_new (nat n) (hk_kernel h)")
    have k: "managed (Some c)" "k_stat k1 = k_stat (hk_kernel h)"
      using c assms(2,3) by (auto simp: FdCtx_new_eq sockets_only_def managed_def set_flags_def split: if_splits)
    have len: "nat n < length m1" "length ?m \<le> length m1" using assms(1,2) by (auto simp: m1_def)
    have old: "(if g < length m1 then m1 ! g else None) = (if g < length ?m then ?m ! g else None)" for g
      using assms(1,2) by (auto simp: m1_def nth_append)
    have "\<not> (n < int (length ?m) \<and> ?m ! nat n \<noteq> None)" using None assms(2) by (auto simp: fd_ctx_eq split: if_splits)
    then have h': "h' = h\<lparr>hk_fds := m1[nat n := Some c], hk_kernel := k1\<rparr>"
      using assms(2,4) c len(1) by (simp add: create_ctx_def FdManager_get_def Let_def m1_def split: if_splits)
    have "fd_ctx g h' = (if g = nat n then Some c else fd_ctx g h)" for g
      using old[of g] len(1) by (cases "g = nat n") (auto simp: h' fd_ctx_eq split: if_splits)
    then show ?thesis using k len by (simp add: h')
  next
    case (Some c)
    then have "h' = h" using assms(2,4) by (auto simp: create_ctx_def FdManager_get_def fd_ctx_eq split: if_splits)
    then show ?thesis using Some assms(2,3) by (simp add: sockets_only_def)
  qed
  then show "managed (fd_ctx (nat n) h')" "sockets_only h m \<Longrightarrow> sockets_only h' m" "64 \<le> length (hk_fds h')"
    using assms(1,2) by (cases "nat m = nat n"; force simp: sockets_only_def)+
qed

lemma timeout_keeps: "sockets_only h m \<Longrightarrow> sockets_only (setRecvTimeout v c h) m" "length (hk_fds (setRecvTimeout v c h)) = length (hk_fds h)"
proof -
  have "managed (fd_ctx g (setRecvTimeout v c h)) = managed (fd_ctx g h)" "fd_ctx g (setRecvTimeout v c h) = None \<longleftrightarrow> fd_ctx g h = None" for g
    by (auto simp: setRecvTimeout_def set_timeout_def setOption_def hook_setsockopt_def upd_ctx_def fd_ctx_eq managed_def FdCtx_setTimeout_def
        nth_list_update split: option.splits)
  moreover have "k_stat (hk_kernel (setRecvTimeout v c h)) = k_stat (hk_kernel h)"
    by (simp add: setRecvTimeout_def set_timeout_def setOption_def hook_setsockopt_def upd_ctx_def)
  ultimately show "sockets_only h m \<Longrightarrow> sockets_only (setRecvTimeout v c h) m" by (auto simp: sockets_only_def)
  show "length (hk_fds (setRecvTimeout v c h)) = length (hk_fds h)" by (simp add: setRecvTimeout_def set_timeout_def)
qed

lemma accept_client:
  assumes "64 \<le> length (hk_fds h)" "sockets_only h n" "n \<noteq> - 1"
  shows "\<exists>c h'. Socket_accept y n s h = Inr (Some c, h') \<and> so_sock c = n \<and> so_isConnected c \<and> 64 \<le> length (hk_fds h') \<and>
    (\<forall>m. sockets_only h m \<longrightarrow> sockets_only h' m)"
proof -
  have n: "0 \<le> n" using assms(2,3) by (simp add: sockets_only_def)
  then obtain h' where h': "create_ctx n h = Inr h'" using create_ctx_Inr[OF assms(1), of n] by auto
  note k = create_ctx_sockets[OF assms(1) n assms(2) h']
  show ?thesis using h' k n assms(3) by (auto simp: Socket_accept_def hook_accept_def Socket_init_def Let_def)
qed

text \<open>
  C16: The accept loop hands every connection to a worker exactly once and in order: for every run of rounds, the tasks it schedules are one per
  descriptor that \<open>accept\<close> gave before the stop flag was seen, each with a connected socket on that descriptor; failed accepts are skipped.\<close>

theorem accept_schedules_clients:
  assumes "64 \<le> length (hk_fds h)" "list_all (\<lambda>(halt, n, y). sockets_only h n) rs"
  shows "\<exists>h' w' cs. startAccept rs srv sock h w = Inr (h', w') \<and> sc_tasks w' = sc_tasks w @ map (\<lambda>c. server_callback (Handle_client c)) cs \<and>
    map so_sock cs = accepted rs \<and> list_all so_isConnected cs"
  using assms
proof (induction rs arbitrary: h w)
  case (Cons r rs)
  obtain halt n y where r: "r = (halt, n, y)" by (cases r)
  have rest: "list_all (\<lambda>(halt, n, y). sockets_only h' n) rs" if "\<forall>m. sockets_only h m \<longrightarrow> sockets_only h' m" for h'
    using Cons.prems(2) that by (auto simp: list_all_iff)
  show ?case
  proof (cases "halt")
    case True
    then show ?thesis using r by (intro exI[of _ h] exI[of _ w] exI[of _ "[]"]) (simp add: accepted_def)
  next
    case False
    show ?thesis
    proof (cases "n = - 1")
      case True
      then show ?thesis using Cons.IH[OF Cons.prems(1) rest[of h]] False r by (simp add: Socket_accept_def hook_accept_def accepted_def)
    next
      case n: False
      have "sockets_only h n" using Cons.prems(2) r by simp
      from accept_client[OF Cons.prems(1) this n, of y sock] obtain c h1 where c: "Socket_accept y n sock h = Inr (Some c, h1)" "so_sock c = n"
        "so_isConnected c" "64 \<le> length (hk_fds h1)" "\<forall>m. sockets_only h m \<longrightarrow> sockets_only h1 m" by blast
      let ?h = "setRecvTimeout (sint (ts_recvTimeout srv)) c h1" and ?w = "snd (schedule (server_callback (Handle_client c)) w)"
      obtain h' w' cs where i: "startAccept rs srv sock ?h ?w = Inr (h', w')"
        "sc_tasks w' = sc_tasks ?w @ map (\<lambda>c. server_callback (Handle_client c)) cs" "map so_sock cs = accepted rs" "list_all so_isConnected cs"
        using Cons.IH[of ?h ?w] rest[of ?h] c(4,5) timeout_keeps by metis
      then show ?thesis using False n r c by (intro exI[of _ h'] exI[of _ w'] exI[of _ "c # cs"]) (simp add: schedule_tasks accepted_def)
    qed
  qed
qed (simp add: accepted_def)

lemma one_socket_accepts: "sockets_only one_socket 5" "64 \<le> length (hk_fds one_socket)"
  by (simp_all add: sockets_only_def managed_def one_socket_def hook_socket_def create_ctx_def FdManager_get_def FdManager_new_def
      kernel_opens_def FdCtx_new_eq fd_ctx_eq set_flags_def O_NONBLOCK_def Let_def)

definition no_tasks :: "server_task Scheduler" where
  "no_tasks = \<lparr>sc_tasks = [], sc_threadIds = [], sc_threadCount = 1, sc_activeThreadCount = 0, sc_idleThreadCount = 0, sc_hasRootFiber = False,
     sc_rootThread = - 1, sc_useCaller = False, sc_stopping = False\<rparr>"

theorem accept_schedules_clients_witness:
  "\<exists>h' w' c. startAccept [(False, - 1, refused), (False, 5, refused), (True, - 1, refused)] (TcpServer_new 0) CreateTCPSocket one_socket no_tasks =
     Inr (h', w') \<and> sc_tasks w' = [server_callback (Handle_client c)] \<and> so_sock c = 5 \<and> so_isConnected c"
proof -
  have "list_all (\<lambda>(halt, n, y). sockets_only one_socket n) [(False, - 1, refused), (False, 5, refused), (True, - 1, refused)]"
    using one_socket_accepts by (simp add: sockets_only_def)
  from accept_schedules_clients[OF one_socket_accepts(2) this, of "TcpServer_new 0" CreateTCPSocket no_tasks]
  show ?thesis by (auto simp: accepted_def no_tasks_def)
qed

text \<open>
  Stopping schedules the task that closes the sockets. When it has run, or the server is destroyed, the server has no sockets and, under the hook, no
  listening descriptor has a context any more.
\<close>

lemma close_fd_enable [simp]: "hk_enable (close_fd fd h) = hk_enable h" "hk_enable (destroy_socket s h) = hk_enable h"
  by (simp_all add: close_fd_def destroy_socket_def close_socket_def)

lemma destroy_ctx:
  assumes "hk_enable h"
  shows "isValid s \<Longrightarrow> fd_ctx (nat (so_sock s)) (destroy_socket s h) = None" "fd_ctx fd h = None \<Longrightarrow> fd_ctx fd (destroy_socket s h) = None"
  using assms by (auto simp: destroy_socket_def close_socket_def close_fd_def fd_ctx_eq isValid_def nth_list_update split: if_splits)

lemma destroy_all_ctx:
  "hk_enable h \<Longrightarrow> s \<in> set ss \<and> isValid s \<and> fd = nat (so_sock s) \<or> fd_ctx fd h = None \<Longrightarrow> fd_ctx fd (fold destroy_socket ss h) = None"
proof (induction ss arbitrary: h)
  case (Cons t ss)
  then have "s \<in> set ss \<and> isValid s \<and> fd = nat (so_sock s) \<or> fd_ctx fd (destroy_socket t h) = None"
    using destroy_ctx[OF Cons.prems(1)] by auto
  then show ?case using Cons.IH[of "destroy_socket t h"] Cons.prems(1) by simp
qed simp

lemma stop_closes:
  assumes "hk_enable h" "s \<in> set (ts_socks srv)" "isValid s"
  shows "ts_isStop (fst (TcpServer_stop srv w))" "sc_tasks (snd (TcpServer_stop srv w)) = sc_tasks w @ [server_callback Close_listeners]"
    "ts_socks (fst (close_listeners srv h)) = []" "fd_ctx (nat (so_sock s)) (snd (close_listeners srv h)) = None"
    "TcpServer_delete srv h = close_listeners srv h"
  using assms destroy_all_ctx[of h s "ts_socks srv"]
  by (simp_all add: TcpServer_stop_def schedule_tasks close_listeners_def TcpServer_delete_def)

end
