(* ===== verification/ServerStop.thy ===== *)
theory ServerStop
  imports TcpServer IdleLoop
begin

text \<open>
  Stopping a server, where sockets, hooked calls and the event manager meet: the task that \<open>TcpServer::stop\<close> schedules cancels the events of each listening
  socket and closes it, and the hooked \<open>close\<close> cancels what is left and drops the context of the descriptor.
\<close>

section \<open>Cancelling the events of a socket\<close>

text \<open>The event manager indexes its contexts with the descriptor: a negative one is outside of them. \<open>rt\<close> is the result of \<open>epoll_ctl\<close>.\<close>

definition Socket_cancelRead :: "int \<Rightarrow> Socket \<Rightarrow> 'cb IOManager \<Rightarrow> (bool \<times> 'cb IOManager) io" where
  "Socket_cancelRead rt s m = (if so_sock s < 0 then Inl Out_of_bounds else cancelEvent rt (nat (so_sock s)) EV_READ m)"

definition Socket_cancelWrite :: "int \<Rightarrow> Socket \<Rightarrow> 'cb IOManager \<Rightarrow> (bool \<times> 'cb IOManager) io" where
  "Socket_cancelWrite rt s m = (if so_sock s < 0 then Inl Out_of_bounds else cancelEvent rt (nat (so_sock s)) EV_WRITE m)"

definition Socket_cancelAccept :: "int \<Rightarrow> Socket \<Rightarrow> 'cb IOManager \<Rightarrow> (bool \<times> 'cb IOManager) io" where
  "Socket_cancelAccept rt s m = (if so_sock s < 0 then Inl Out_of_bounds else cancelEvent rt (nat (so_sock s)) EV_READ m)"

definition Socket_cancelAll :: "int \<Rightarrow> Socket \<Rightarrow> 'cb IOManager \<Rightarrow> (bool \<times> 'cb IOManager) io" where
  "Socket_cancelAll rt s m = (if so_sock s < 0 then Inl Out_of_bounds else cancelAll rt (nat (so_sock s)) m)"

text \<open>\<open>Socket::close\<close> with the events that the hooked \<open>close\<close> cancels.\<close>

definition Socket_close_events :: "int \<Rightarrow> Socket \<Rightarrow> hook \<Rightarrow> 'cb IOManager \<Rightarrow> (hook \<times> 'cb IOManager) io" where
  "Socket_close_events rt s h m =
     (if so_sock s < 0 then Inr (h, m)
      else bindi (hook_close rt (nat (so_sock s)) (Some m) h) (\<lambda>(iom, h1). Inr (h1, case iom of Some m1 \<Rightarrow> m1 | None \<Rightarrow> m)))"

fun stop_task :: "int \<Rightarrow> Socket list \<Rightarrow> hook \<Rightarrow> 'cb IOManager \<Rightarrow> (hook \<times> 'cb IOManager) io" where
  "stop_task rt [] h m = Inr (h, m)"
| "stop_task rt (sock # socks) h m =
     bindi (Socket_cancelAll rt sock m) (\<lambda>(b, m1).
     bindi (Socket_close_events rt sock h m1) (\<lambda>(h2, m2). stop_task rt socks h2 m2))"

section \<open>Who is woken\<close>

text \<open>The fibers or callbacks that wait for the events of a descriptor, the reader first.\<close>

definition waiters :: "'cb FdContext \<Rightarrow> 'cb ScheduleTask list" where
  "waiters c =
     (if fc_events c AND EV_READ \<noteq> 0 then [waiting_task (fc_read c)] else []) @
     (if fc_events c AND EV_WRITE \<noteq> 0 then [waiting_task (fc_write c)] else [])"

lemma cancelAll_exact:
  assumes inv: "io_inv m" and fd: "fd < length (io_contexts m)"
  shows "\<exists>b m'. cancelAll 0 fd m = Inr (b, m') \<and> io_inv m' \<and> length (io_contexts m') = length (io_contexts m) \<and>
    (\<forall>fd2. fd2 \<noteq> fd \<longrightarrow> io_contexts m' ! fd2 = io_contexts m ! fd2) \<and> fc_events (io_contexts m' ! fd) = 0 \<and>
    map snd (io_scheduled m') = map snd (io_scheduled m) @ waiters (io_contexts m ! fd)"
proof (cases "fc_events (io_contexts m ! fd) = 0")
  case True
  then show ?thesis using inv fd by (intro exI[of _ False] exI[of _ m]) (simp add: cancelAll_def waiters_def)
next
  case False
  define c where "c = io_contexts m ! fd"
  have ok: "context_ok c" unfolding c_def by (rule io_inv_context[OF inv fd])
  let ?r = "fc_events c AND EV_READ \<noteq> 0"
  obtain m1 where m1: "trigger_if ?r fd EV_READ m = Inr m1" "io_inv m1" "length (io_contexts m1) = length (io_contexts m)"
    "fc_events (io_contexts m1 ! fd) = (if ?r then fc_events c AND NOT EV_READ else fc_events c)"
    "map snd (io_scheduled m1) = map snd (io_scheduled m) @ (if ?r then [waiting_task (context_at EV_READ c)] else [])"
    using trigger_if_spec[OF inv fd event_ok_simps(1), of ?r] unfolding c_def by blast
  have fd1: "fd < length (io_contexts m1)" using fd m1(3) by simp
  let ?w = "fc_events (io_contexts m1 ! fd) AND EV_WRITE \<noteq> 0"
  have w: "?w \<longleftrightarrow> fc_events c AND EV_WRITE \<noteq> 0" unfolding m1(4) using and_not_other[of "fc_events c"] by simp
  obtain m2 where m2: "trigger_if ?w fd EV_WRITE m1 = Inr m2" "io_inv m2" "length (io_contexts m2) = length (io_contexts m1)"
    "fc_events (io_contexts m2 ! fd) = (if ?w then fc_events (io_contexts m1 ! fd) AND NOT EV_WRITE else fc_events (io_contexts m1 ! fd))"
    "map snd (io_scheduled m2) = map snd (io_scheduled m1) @ (if ?w then [waiting_task (context_at EV_WRITE (io_contexts m1 ! fd))] else [])"
    using trigger_if_spec[OF m1(2) fd1 event_ok_simps(2), of ?w] by blast
  have zero: "fc_events (io_contexts m2 ! fd) = 0"
    unfolding m2(4) m1(4) by (cases rule: context_cases[OF ok]) (simp_all add: event_defs)
  have all: "cancelAll 0 fd m = Inr (True, m2)"
    using False fd m1(1) m2(1) zero by (simp add: cancelAll_def check_def c_def)
  have frame: "io_contexts m2 ! fd2 = io_contexts m ! fd2" if "fd2 \<noteq> fd" for fd2
    using trigger_if_frame[OF m1(1) that] trigger_if_frame[OF m2(1) that] by simp
  have at: "context_at EV_READ c = fc_read c" "context_at EV_WRITE (io_contexts m1 ! fd) = fc_write c"
    using trigger_read_keeps_write[OF m1(1) fd] by (simp_all add: context_at_def EV_READ_def EV_WRITE_def c_def)
  have sched: "map snd (io_scheduled m2) = map snd (io_scheduled m) @ waiters c"
    unfolding m2(5) w m1(5) at waiters_def by simp
  show ?thesis using all m2(2,3) m1(3) frame zero sched unfolding c_def by (intro exI[of _ True] exI[of _ m2]) simp
qed

lemma cancelAll_none: "fc_events (io_contexts m ! fd) = 0 \<Longrightarrow> cancelAll rt fd m = Inr (False, m)"
  by (simp add: cancelAll_def)

lemma close_events:
  assumes "isValid s" "0 \<le> so_sock s" "fc_events (io_contexts m ! nat (so_sock s)) = 0"
  shows "\<exists>h'. Socket_close_events rt s h m = Inr (h', m) \<and> h' = close_fd (nat (so_sock s)) h"
proof -
  have "\<exists>h'. hook_close rt (nat (so_sock s)) (Some m) h = Inr (Some m, h')"
    using cancelAll_none[OF assms(3)] by (auto simp: hook_close_def FdManager_del_def)
  then obtain h' where h': "hook_close rt (nat (so_sock s)) (Some m) h = Inr (Some m, h')" by blast
  show ?thesis using h' close_fd_hook_close[OF h'] assms(2) by (simp add: Socket_close_events_def)
qed

lemma close_fd_ctx: "hk_enable h \<Longrightarrow> fd_ctx fd (close_fd fd h) = None" "fd_ctx fd2 h = None \<Longrightarrow> fd_ctx fd2 (close_fd fd h) = None"
  by (auto simp: close_fd_def fd_ctx_eq nth_list_update)

lemma stop_task_exact:
  assumes "io_inv m" "hk_enable h" "distinct (map so_sock socks)"
    and "\<forall>s \<in> set socks. isValid s \<and> 0 \<le> so_sock s \<and> nat (so_sock s) < length (io_contexts m)"
  shows "\<exists>h' m'. stop_task 0 socks h m = Inr (h', m') \<and>
    map snd (io_scheduled m') = map snd (io_scheduled m) @ concat (map (\<lambda>s. waiters (io_contexts m ! nat (so_sock s))) socks) \<and>
    (\<forall>fd. fd \<notin> (\<lambda>s. nat (so_sock s)) ` set socks \<longrightarrow> io_contexts m' ! fd = io_contexts m ! fd) \<and>
    (\<forall>fd. fd_ctx fd h = None \<longrightarrow> fd_ctx fd h' = None) \<and>
    (\<forall>s \<in> set socks. fc_events (io_contexts m' ! nat (so_sock s)) = 0 \<and> fd_ctx (nat (so_sock s)) h' = None)"
  using assms
proof (induction socks arbitrary: h m)
  case (Cons s socks)
  let ?fd = "nat (so_sock s)"
  have s: "isValid s" "0 \<le> so_sock s" "?fd < length (io_contexts m)" using Cons.prems(4) by auto
  obtain b m1 where m1: "cancelAll 0 ?fd m = Inr (b, m1)" "io_inv m1" "length (io_contexts m1) = length (io_contexts m)"
    "\<forall>fd2. fd2 \<noteq> ?fd \<longrightarrow> io_contexts m1 ! fd2 = io_contexts m ! fd2" "fc_events (io_contexts m1 ! ?fd) = 0"
    "map snd (io_scheduled m1) = map snd (io_scheduled m) @ waiters (io_contexts m ! ?fd)"
    using cancelAll_exact[OF Cons.prems(1) s(3)] by blast
  obtain h1 where h1: "Socket_close_events 0 s h m1 = Inr (h1, m1)" "h1 = close_fd ?fd h"
    using close_events[OF s(1,2) m1(5)] by blast
  have other: "nat (so_sock t) \<noteq> ?fd" if "t \<in> set socks" for t
  proof -
    have "so_sock t \<in> so_sock ` set socks" using that by (rule imageI)
    then have "so_sock t \<noteq> so_sock s" using Cons.prems(3) by auto
    then show ?thesis using Cons.prems(4) s(2) that by (simp add: eq_nat_nat_iff)
  qed
  have prems: "hk_enable h1" "distinct (map so_sock socks)"
    "\<forall>t \<in> set socks. isValid t \<and> 0 \<le> so_sock t \<and> nat (so_sock t) < length (io_contexts m1)"
    using Cons.prems(2,3,4) h1(2) m1(3) by auto
  obtain h' m' where i: "stop_task 0 socks h1 m1 = Inr (h', m')"
    "map snd (io_scheduled m') = map snd (io_scheduled m1) @ concat (map (\<lambda>s. waiters (io_contexts m1 ! nat (so_sock s))) socks)"
    "\<forall>fd. fd \<notin> (\<lambda>s. nat (so_sock s)) ` set socks \<longrightarrow> io_contexts m' ! fd = io_contexts m1 ! fd"
    "\<forall>fd. fd_ctx fd h1 = None \<longrightarrow> fd_ctx fd h' = None"
    "\<forall>t \<in> set socks. fc_events (io_contexts m' ! nat (so_sock t)) = 0 \<and> fd_ctx (nat (so_sock t)) h' = None"
    using Cons.IH[OF m1(2) prems] by blast
  have "stop_task 0 (s # socks) h m = Inr (h', m')" using s(2) m1(1) h1(1) i(1) by (simp add: Socket_cancelAll_def)
  moreover have same: "map (\<lambda>s. waiters (io_contexts m1 ! nat (so_sock s))) socks = map (\<lambda>s. waiters (io_contexts m ! nat (so_sock s))) socks"
    using m1(4) other by simp
  have "map snd (io_scheduled m') = map snd (io_scheduled m) @ concat (map (\<lambda>s. waiters (io_contexts m ! nat (so_sock s))) (s # socks))"
    unfolding i(2) same m1(6) by simp
  moreover have "?fd \<notin> (\<lambda>s. nat (so_sock s)) ` set socks" using other by force
  then have "fc_events (io_contexts m' ! ?fd) = 0" using i(3) m1(5) by simp
  moreover have "fd_ctx ?fd h' = None" using close_fd_ctx(1)[OF Cons.prems(2)] h1(2) i(4) by simp
  moreover have "\<forall>fd. fd_ctx fd h = None \<longrightarrow> fd_ctx fd h' = None" using close_fd_ctx(2) h1(2) i(4) by simp
  moreover have "\<forall>fd. fd \<notin> (\<lambda>s. nat (so_sock s)) ` set (s # socks) \<longrightarrow> io_contexts m' ! fd = io_contexts m ! fd"
    using i(3) m1(4) by simp
  ultimately show ?case using i(5) by (intro exI[of _ h'] exI[of _ m']) simp
qed simp

text \<open>
  C17: When the task of \<open>stop\<close> runs, after any history of events: it does not fail, every fiber that waits on a listening socket, in particular the one
  in \<open>accept\<close>, is scheduled exactly once, in the order of the sockets, no event of these sockets stays registered, other descriptors
  keep theirs, and the contexts of the closed descriptors are gone.\<close>

theorem stop_wakes_acceptors:
  assumes "io_run m" "hk_enable h" "distinct (map so_sock (ts_socks srv))"
    and "\<forall>s \<in> set (ts_socks srv). isValid s \<and> 0 \<le> so_sock s \<and> nat (so_sock s) < length (io_contexts m)"
  shows "\<exists>h' m'. stop_task 0 (ts_socks srv) h m = Inr (h', m') \<and>
    map snd (io_scheduled m') = map snd (io_scheduled m) @ concat (map (\<lambda>s. waiters (io_contexts m ! nat (so_sock s))) (ts_socks srv)) \<and>
    (\<forall>fd. fd \<notin> (\<lambda>s. nat (so_sock s)) ` set (ts_socks srv) \<longrightarrow> io_contexts m' ! fd = io_contexts m ! fd) \<and>
    (\<forall>s \<in> set (ts_socks srv). fc_events (io_contexts m' ! nat (so_sock s)) = 0 \<and> fd_ctx (nat (so_sock s)) h' = None)"
  using stop_task_exact[OF io_run_inv[OF assms(1)] assms(2-4)] by blast

theorem stop_wakes_acceptors_witness:
  "\<exists>h' m'. stop_task 0 [CreateTCPSocket\<lparr>so_sock := 5\<rparr>] one_socket io_example = Inr (h', m') \<and>
     map snd (io_scheduled m') = [\<lparr>tk_fiber = None, tk_cb = Some 3, tk_thread = - 1\<rparr>]"
proof -
  let ?srv = "(TcpServer_new 0)\<lparr>ts_socks := [CreateTCPSocket\<lparr>so_sock := 5\<rparr>]\<rparr>"
  have ctx: "fc_events (io_contexts io_example ! 5) = EV_READ" "fc_read (io_contexts io_example ! 5) = \<lparr>ec_scheduler = Some 1, ec_fiber = None, ec_cb = Some 3\<rparr>"
    using io_example_context by (simp_all add: context_at_def)
  have w: "waiters (io_contexts io_example ! 5) = [\<lparr>tk_fiber = None, tk_cb = Some 3, tk_thread = - 1\<rparr>]"
    unfolding waiters_def ctx by (simp add: event_defs waiting_task_def)
  have none: "map snd (io_scheduled io_example) = []" by (simp add: io_example_eq put_context_def IOManager_new_def contextResize_def)
  have "hk_enable one_socket" by code_simp
  moreover have "\<forall>s \<in> set (ts_socks ?srv). isValid s \<and> 0 \<le> so_sock s \<and> nat (so_sock s) < length (io_contexts io_example)"
    using io_example_context(1) by (simp add: isValid_def)
  ultimately show ?thesis
    using stop_wakes_acceptors[OF io_example_run, of one_socket ?srv] w none by (auto simp: TcpServer_new_def)
qed

end
