(* ===== verification/Config.thy ===== *)
theory Config
  imports StringUtil HttpMessage
begin

text \<open>
  Configuration variables, \<open>config.h\<close> and \<open>config.cc\<close>: variables with listeners, the registry of variables by name, and loading from a
  YAML document. Conversions between values and text are those of boost and yaml-cpp and are arguments, as is the printing of a node. A
  variable has the name of its type, which decides the dynamic casts.
\<close>

section \<open>Variables\<close>

record ('v, 'cb) ConfigVar =
  cv_name :: string
  cv_description :: string
  cv_type :: string
  cv_val :: 'v
  cv_cbs :: "(nat \<times> 'cb) list"

definition ConfigVar_new :: "string \<Rightarrow> string \<Rightarrow> 'v \<Rightarrow> string \<Rightarrow> ('v, 'cb) ConfigVar" where
  "ConfigVar_new type name default_value description =
     \<lparr>cv_name = map tolower name, cv_description = description, cv_type = type, cv_val = default_value, cv_cbs = []\<rparr>"

text \<open>
  The calls of the listeners, up to the first that throws; \<open>throws\<close> says which do. The second result says whether one did.
\<close>

fun notify :: "('cb \<Rightarrow> 'v \<Rightarrow> 'v \<Rightarrow> bool) \<Rightarrow> (nat \<times> 'cb) list \<Rightarrow> 'v \<Rightarrow> 'v \<Rightarrow> ('cb \<times> 'v \<times> 'v) list \<times> bool" where
  "notify throws [] old new = ([], False)"
| "notify throws ((k, cb) # cbs) old new =
     (if throws cb old new then ([(cb, old, new)], True)
      else case notify throws cbs old new of (calls, t) \<Rightarrow> ((cb, old, new) # calls, t))"

text \<open>\<open>eq\<close> is the \<open>operator==\<close> of the type. The results: the calls, whether an exception leaves the function, the variable.\<close>

definition setValue ::
    "('cb \<Rightarrow> 'v \<Rightarrow> 'v \<Rightarrow> bool) \<Rightarrow> ('v \<Rightarrow> 'v \<Rightarrow> bool) \<Rightarrow> 'v \<Rightarrow> ('v, 'cb) ConfigVar \<Rightarrow> ('cb \<times> 'v \<times> 'v) list \<times> bool \<times> ('v, 'cb) ConfigVar" where
  "setValue throws eq v var =
     (if eq v (cv_val var) then ([], False, var)
      else case notify throws (cv_cbs var) (cv_val var) v of
             (calls, True) \<Rightarrow> (calls, True, var)
           | (calls, False) \<Rightarrow> (calls, False, var\<lparr>cv_val := v\<rparr>))"

text \<open>The first result is the value returned; exceptions of the conversion and of listeners are caught.\<close>

definition fromString ::
    "('cb \<Rightarrow> 'v \<Rightarrow> 'v \<Rightarrow> bool) \<Rightarrow> ('v \<Rightarrow> 'v \<Rightarrow> bool) \<Rightarrow> (string \<Rightarrow> 'v option) \<Rightarrow> string \<Rightarrow> ('v, 'cb) ConfigVar \<Rightarrow>
     bool \<times> ('cb \<times> 'v \<times> 'v) list \<times> ('v, 'cb) ConfigVar" where
  "fromString throws eq FromStr val var =
     (case FromStr val of
        None \<Rightarrow> (False, [], var)
      | Some v \<Rightarrow> (case setValue throws eq v var of (calls, t, var1) \<Rightarrow> (False, calls, var1)))"

definition ConfigVar_toString :: "('v \<Rightarrow> string option) \<Rightarrow> ('v, 'cb) ConfigVar \<Rightarrow> string" where
  "ConfigVar_toString ToStr var = (case ToStr (cv_val var) of Some s \<Rightarrow> s | None \<Rightarrow> [])"

text \<open>Listeners are kept by key in a \<open>std::map\<close>; \<open>s_fun_id\<close> is shared by the variables of a type.\<close>

definition nat_less :: "nat comparator" where "nat_less a b \<longleftrightarrow> a < b"

definition addListener :: "nat \<Rightarrow> 'cb \<Rightarrow> ('v, 'cb) ConfigVar \<Rightarrow> nat \<times> nat \<times> ('v, 'cb) ConfigVar" where
  "addListener s_fun_id cb var =
     (let id = Suc s_fun_id in (id, id, var\<lparr>cv_cbs := map_assign nat_less id cb (cv_cbs var)\<rparr>))"

definition delListener :: "nat \<Rightarrow> ('v, 'cb) ConfigVar \<Rightarrow> ('v, 'cb) ConfigVar" where
  "delListener key var = var\<lparr>cv_cbs := map_erase nat_less key (cv_cbs var)\<rparr>"

definition getListener :: "nat \<Rightarrow> ('v, 'cb) ConfigVar \<Rightarrow> 'cb option" where
  "getListener key var = map_find nat_less key (cv_cbs var)"

definition clearListener :: "('v, 'cb) ConfigVar \<Rightarrow> ('v, 'cb) ConfigVar" where
  "clearListener var = var\<lparr>cv_cbs := []\<rparr>"

section \<open>The registry\<close>

type_synonym ('v, 'cb) registry = "string \<Rightarrow> ('v, 'cb) ConfigVar option"

definition config_name_chars :: string where
  "config_name_chars = ''abcdefghikjlmnopqrstuvwxyz._012345678''"

definition valid_name :: "string \<Rightarrow> bool" where
  "valid_name name \<longleftrightarrow> find_first_not_of name config_name_chars = None"

datatype lookup = Found | Wrong_type | Invalid_argument_thrown

definition Config_Lookup :: "string \<Rightarrow> string \<Rightarrow> 'v \<Rightarrow> string \<Rightarrow> ('v, 'cb) registry \<Rightarrow> lookup \<times> ('v, 'cb) registry" where
  "Config_Lookup type name default_value description datas =
     (case datas name of
        Some var \<Rightarrow> (if cv_type var = type then Found else Wrong_type, datas)
      | None \<Rightarrow>
          if \<not> valid_name name then (Invalid_argument_thrown, datas)
          else (Found, datas(name \<mapsto> ConfigVar_new type name default_value description)))"

definition Config_find :: "string \<Rightarrow> string \<Rightarrow> ('v, 'cb) registry \<Rightarrow> ('v, 'cb) ConfigVar option" where
  "Config_find type name datas =
     (case datas name of Some var \<Rightarrow> if cv_type var = type then Some var else None | None \<Rightarrow> None)"

definition LookupBase :: "string \<Rightarrow> ('v, 'cb) registry \<Rightarrow> ('v, 'cb) ConfigVar option" where
  "LookupBase name datas = datas name"

section \<open>YAML documents\<close>

datatype yaml = Yaml_null | Scalar string | Sequence "yaml list" | Map_node "(string \<times> yaml) list"

definition join :: "string \<Rightarrow> string \<Rightarrow> string" where
  "join pfx key = (if pfx = [] then key else pfx @ ''.'' @ key)"

fun ListAllMember :: "string \<Rightarrow> yaml \<Rightarrow> (string \<times> yaml) list" where
  "ListAllMember pfx (Map_node kvs) =
     (if \<not> valid_name pfx then []
      else (pfx, Map_node kvs) # concat (map (\<lambda>(k, n). ListAllMember (join pfx k) n) kvs))"
| "ListAllMember pfx node = (if \<not> valid_name pfx then [] else [(pfx, node)])"

text \<open>\<open>print\<close> is the output operator of a node.\<close>

definition node_text :: "(yaml \<Rightarrow> string) \<Rightarrow> yaml \<Rightarrow> string" where
  "node_text print n = (case n of Scalar s \<Rightarrow> s | _ \<Rightarrow> print n)"

text \<open>How the variable with a type reads, compares and throws: the arguments of \<open>fromString\<close> by type.\<close>

record ('v, 'cb) conversions =
  co_from :: "string \<Rightarrow> string \<Rightarrow> 'v option"
  co_eq :: "string \<Rightarrow> 'v \<Rightarrow> 'v \<Rightarrow> bool"
  co_throws :: "'cb \<Rightarrow> 'v \<Rightarrow> 'v \<Rightarrow> bool"

definition load_node ::
    "('v, 'cb) conversions \<Rightarrow> (yaml \<Rightarrow> string) \<Rightarrow> string \<times> yaml \<Rightarrow> ('v, 'cb) registry \<Rightarrow> ('v, 'cb) registry" where
  "load_node co print kn datas =
     (case kn of (k, n) \<Rightarrow>
        if k = [] then datas
        else let key = map tolower k
             in case LookupBase key datas of
                  None \<Rightarrow> datas
                | Some var \<Rightarrow>
                    datas(key \<mapsto> snd (snd (fromString (co_throws co) (co_eq co (cv_type var)) (co_from co (cv_type var)) (node_text print n) var))))"

definition LoadFromYaml :: "('v, 'cb) conversions \<Rightarrow> (yaml \<Rightarrow> string) \<Rightarrow> yaml \<Rightarrow> ('v, 'cb) registry \<Rightarrow> ('v, 'cb) registry" where
  "LoadFromYaml co print root datas = fold (load_node co print) (ListAllMember [] root) datas"

section \<open>Listeners\<close>

interpretation listeners: ordered_keys nat_less
  unfolding nat_less_def by (rule ordered_keys_measure[of id, simplified])

definition listeners_ok :: "nat \<Rightarrow> ('v, 'cb) ConfigVar \<Rightarrow> bool" where
  "listeners_ok n var \<longleftrightarrow> map_sorted nat_less (cv_cbs var) \<and> (\<forall>e \<in> set (cv_cbs var). fst e \<le> n)"

lemma map_assign_above:
  "\<forall>e \<in> set m. fst e < k \<Longrightarrow> map_assign nat_less k v m = m @ [(k, v)]"
  by (induction m) (auto simp: nat_less_def)

lemma map_erase_above:
  "\<forall>e \<in> set m. fst e < k \<Longrightarrow> map_erase nat_less k (m @ [(k, v)]) = m"
  by (induction m) (auto simp: nat_less_def)

lemma notify_all: "(\<And>cb. \<not> throws cb old new) \<Longrightarrow> notify throws cbs old new = (map (\<lambda>(k, cb). (cb, old, new)) cbs, False)"
  by (induction throws cbs old new rule: notify.induct) auto

text \<open>
  A new listener gets a key of its own, is called last, is found under its key and leaves no trace when it is deleted; the others stay
  as they are. Setting a value that differs from the current one calls every listener once, in the order of their keys, with the old and
  the new value, and then stores it; setting an equal value does nothing.\<close>

theorem config_listeners:
  assumes "listeners_ok n var" "\<And>cb a b. \<not> throws cb a b"
  shows "case addListener n cb var of (key, n', var') \<Rightarrow>
    listeners_ok n' var' \<and> getListener key var = None \<and> getListener key var' = Some cb \<and>
    (\<forall>j. j \<noteq> key \<longrightarrow> getListener j var' = getListener j var) \<and> delListener key var' = var \<and>
    setValue throws eq v var' =
      (if eq v (cv_val var) then ([], False, var')
       else (map (\<lambda>(k, f). (f, cv_val var, v)) (cv_cbs var) @ [(cb, cv_val var, v)], False, var'\<lparr>cv_val := v\<rparr>))"
proof -
  let ?k = "Suc n"
  have lt: "\<forall>e \<in> set (cv_cbs var). fst e < ?k" using assms(1) by (auto simp: listeners_ok_def)
  have srt: "map_sorted nat_less (cv_cbs var)" using assms(1) by (simp add: listeners_ok_def)
  have none: "map_find nat_less ?k (cv_cbs var) = None"
    using lt listeners.find_Some_mem[of ?k "cv_cbs var"] by (cases "map_find nat_less ?k (cv_cbs var)") (auto simp: listeners.same_def nat_less_def)
  have found: "map_find nat_less j (map_assign nat_less ?k cb (cv_cbs var)) = (if j = ?k then Some cb else map_find nat_less j (cv_cbs var))" for j
    using listeners.find_assign[OF srt, of j ?k cb] by (auto simp: listeners.same_def nat_less_def)
  have "map_sorted nat_less (map_assign nat_less ?k cb (cv_cbs var))" by (rule listeners.sorted_assign[OF srt])
  then show ?thesis using lt none found assms(2) map_assign_above[OF lt] map_erase_above[OF lt]
    by (auto simp: addListener_def Let_def listeners_ok_def getListener_def delListener_def setValue_def notify_all less_Suc_eq_le)
qed

section \<open>Names\<close>

lemma valid_name_iff: "valid_name s \<longleftrightarrow> set s \<subseteq> set config_name_chars"
proof -
  have "find_first_not_of s d = None \<longleftrightarrow> set s \<subseteq> set d" for d by (induction s) auto
  then show ?thesis by (simp add: valid_name_def)
qed

lemma valid_name_lower: "valid_name s \<Longrightarrow> map tolower s = s"
proof -
  have "list_all (\<lambda>c. tolower c = c) config_name_chars" by code_simp
  then show "valid_name s \<Longrightarrow> map tolower s = s" by (auto simp: valid_name_iff list_all_iff intro!: map_idI)
qed

lemma valid_join: "valid_name (foldl join p ks) \<Longrightarrow> valid_name p"
proof (induction ks arbitrary: p)
  case (Cons k ks)
  then have "valid_name (join p k)" by simp
  then show ?case by (auto simp: valid_name_iff join_def split: if_splits)
qed simp

inductive yaml_path :: "yaml \<Rightarrow> string list \<Rightarrow> yaml \<Rightarrow> bool" where
  here: "yaml_path n [] n"
| there: "(k, m) \<in> set kvs \<Longrightarrow> yaml_path m ks n \<Longrightarrow> yaml_path (Map_node kvs) (k # ks) n"

inductive_cases yaml_path_MapE: "yaml_path (Map_node kvs) ks n"
inductive_cases yaml_path_leafE: "yaml_path (Scalar s) ks n" "yaml_path Yaml_null ks n" "yaml_path (Sequence ns) ks n"

lemma ListAllMember_iff:
  "(k, n) \<in> set (ListAllMember p root) \<longleftrightarrow> (\<exists>ks. yaml_path root ks n \<and> k = foldl join p ks \<and> valid_name k)"
proof (induction p root rule: ListAllMember.induct)
  case (1 p kvs)
  show ?case
  proof (cases "valid_name p")
    case True
    have "(k, n) \<in> set (ListAllMember p (Map_node kvs)) \<longleftrightarrow>
      (k, n) = (p, Map_node kvs) \<or> (\<exists>(j, m) \<in> set kvs. \<exists>ks. yaml_path m ks n \<and> k = foldl join (join p j) ks \<and> valid_name k)"
      using True 1 by fastforce
    also have "\<dots> \<longleftrightarrow> (\<exists>ks. yaml_path (Map_node kvs) ks n \<and> k = foldl join p ks \<and> valid_name k)"
    proof
      assume "(k, n) = (p, Map_node kvs) \<or> (\<exists>(j, m) \<in> set kvs. \<exists>ks. yaml_path m ks n \<and> k = foldl join (join p j) ks \<and> valid_name k)"
      then show "\<exists>ks. yaml_path (Map_node kvs) ks n \<and> k = foldl join p ks \<and> valid_name k"
      proof (elim disjE)
        assume "(k, n) = (p, Map_node kvs)"
        then show ?thesis using here[of "Map_node kvs"] True by (intro exI[of _ "[]"]) simp
      next
        assume "\<exists>(j, m) \<in> set kvs. \<exists>ks. yaml_path m ks n \<and> k = foldl join (join p j) ks \<and> valid_name k"
        then obtain j m ks where "(j, m) \<in> set kvs" "yaml_path m ks n" "k = foldl join (join p j) ks" "valid_name k" by auto
        then show ?thesis using there by (intro exI[of _ "j # ks"]) simp
      qed
    next
      assume "\<exists>ks. yaml_path (Map_node kvs) ks n \<and> k = foldl join p ks \<and> valid_name k"
      then show "(k, n) = (p, Map_node kvs) \<or> (\<exists>(j, m) \<in> set kvs. \<exists>ks. yaml_path m ks n \<and> k = foldl join (join p j) ks \<and> valid_name k)"
        by (fastforce elim: yaml_path_MapE)
    qed
    finally show ?thesis .
  next
    case False
    then show ?thesis using valid_join by auto
  qed
qed (use valid_join in \<open>auto elim!: yaml_path_leafE intro: here exI[of _ "[]"]\<close>)

theorem config_listeners_witness:
  "listeners_ok 0 (ConfigVar_new ''int'' ''tcp.port'' (80 :: int) [] :: (int, nat) ConfigVar) \<and>
   (case addListener 0 (7 :: nat) (ConfigVar_new ''int'' ''tcp.port'' (80 :: int) []) of
      (key, n', var') \<Rightarrow> fst (setValue (\<lambda>_ _ _. False) (=) 90 var') = [(7, 80, 90)])"
proof -
  let ?v = "ConfigVar_new ''int'' ''tcp.port'' (80 :: int) [] :: (int, nat) ConfigVar"
  have "listeners_ok 0 ?v" by (simp add: listeners_ok_def ConfigVar_new_def)
  with config_listeners[OF this, of "\<lambda>_ _ _. False" 7 "(=)" 90] show ?thesis
    by (auto simp: ConfigVar_new_def split: prod.splits)
qed

section \<open>Loading\<close>

definition read_node :: "('v, 'cb) conversions \<Rightarrow> (yaml \<Rightarrow> string) \<Rightarrow> yaml \<Rightarrow> ('v, 'cb) ConfigVar \<Rightarrow> ('v, 'cb) ConfigVar" where
  "read_node co print n var =
     snd (snd (fromString (co_throws co) (co_eq co (cv_type var)) (co_from co (cv_type var)) (node_text print n) var))"

definition assigned :: "yaml \<Rightarrow> string \<Rightarrow> yaml list" where
  "assigned root name = map snd (filter (\<lambda>e. fst e = name) (ListAllMember [] root))"

lemma read_node_keeps: "cv_name (read_node co print n var) = cv_name var" "cv_type (read_node co print n var) = cv_type var"
  by (auto simp: read_node_def fromString_def setValue_def split: option.splits prod.splits bool.splits)

lemma fold_load:
  assumes "name \<noteq> []" "\<forall>e \<in> set kns. valid_name (fst e)"
  shows "fold (load_node co print) kns datas name =
    map_option (fold (read_node co print) (map snd (filter (\<lambda>e. fst e = name) kns))) (datas name)"
  using assms(2)
proof (induction kns arbitrary: datas)
  case Nil
  show ?case by (cases "datas name") simp_all
next
  case (Cons e kns)
  obtain k n where e: "e = (k, n)" by (cases e)
  have low: "map tolower k = k" using Cons.prems e valid_name_lower by simp
  have "load_node co print e datas name = (if k = name then map_option (read_node co print n) (datas name) else datas name)"
    using assms(1) e low by (auto simp: load_node_def LookupBase_def read_node_def Let_def split: option.splits)
  moreover have "fold (load_node co print) (e # kns) datas name = fold (load_node co print) kns (load_node co print e datas) name" by simp
  ultimately show ?case using Cons e by (cases "datas name") (auto simp: option.map_comp)
qed

text \<open>
  C20: Loading a document changes exactly the registered variables that it names: a variable takes, one after the other, the values of the nodes
  whose keys from the root, joined by dots, are its name, read by the conversion of its type, and stays as it is when there are none; no
  variable is added.\<close>

theorem yaml_sets_variables:
  assumes "name \<noteq> []"
  shows "LoadFromYaml co print root datas name = map_option (fold (read_node co print) (assigned root name)) (datas name) \<and>
    (\<forall>n. n \<in> set (assigned root name) \<longleftrightarrow> (\<exists>ks. yaml_path root ks n \<and> foldl join [] ks = name \<and> valid_name name))"
proof
  have "\<forall>e \<in> set (ListAllMember [] root). valid_name (fst e)" using ListAllMember_iff by fastforce
  then show "LoadFromYaml co print root datas name = map_option (fold (read_node co print) (assigned root name)) (datas name)"
    unfolding LoadFromYaml_def assigned_def by (rule fold_load[OF assms])
  show "\<forall>n. n \<in> set (assigned root name) \<longleftrightarrow> (\<exists>ks. yaml_path root ks n \<and> foldl join [] ks = name \<and> valid_name name)"
  proof
    fix n
    have "n \<in> set (assigned root name) \<longleftrightarrow> (name, n) \<in> set (ListAllMember [] root)" by (force simp: assigned_def)
    then show "n \<in> set (assigned root name) \<longleftrightarrow> (\<exists>ks. yaml_path root ks n \<and> foldl join [] ks = name \<and> valid_name name)"
      unfolding ListAllMember_iff by auto
  qed
qed

definition example_yaml :: yaml where
  "example_yaml = Map_node [(''tcp'', Map_node [(''port'', Scalar ''8080'')])]"

theorem yaml_sets_variables_witness:
  "''tcp.port'' \<noteq> [] \<and> assigned example_yaml ''tcp.port'' = [Scalar ''8080''] \<and>
   (\<exists>ks. yaml_path example_yaml ks (Scalar ''8080'') \<and> foldl join [] ks = ''tcp.port'')"
proof -
  have a: "assigned example_yaml ''tcp.port'' = [Scalar ''8080'']" by code_simp
  then have "Scalar ''8080'' \<in> set (assigned example_yaml ''tcp.port'')" by simp
  then have "\<exists>ks. yaml_path example_yaml ks (Scalar ''8080'') \<and> foldl join [] ks = ''tcp.port''"
    using yaml_sets_variables[of "''tcp.port''" undefined undefined example_yaml Map.empty] by auto
  with a show ?thesis by simp
qed

section \<open>The registry\<close>

inductive config_run :: "('v, 'cb) registry \<Rightarrow> bool" where
  cr_empty: "config_run Map.empty"
| cr_lookup: "config_run d \<Longrightarrow> config_run (snd (Config_Lookup type name v description d))"
| cr_load: "config_run d \<Longrightarrow> config_run (LoadFromYaml co print root d)"
| cr_set: "config_run d \<Longrightarrow> d name = Some var \<Longrightarrow> config_run (d(name \<mapsto> snd (snd (setValue throws eq v var))))"

definition registry_ok :: "('v, 'cb) registry \<Rightarrow> bool" where
  "registry_ok d \<longleftrightarrow> (\<forall>name var. d name = Some var \<longrightarrow> valid_name name \<and> cv_name var = name)"

lemma load_node_ok: "registry_ok d \<Longrightarrow> registry_ok (load_node co print e d)"
proof -
  assume ok: "registry_ok d"
  obtain k n where e: "e = (k, n)" by (cases e)
  have "load_node co print e d = d \<or> (\<exists>name var. d name = Some var \<and> load_node co print e d = d(name \<mapsto> read_node co print n var))"
    by (auto simp: e load_node_def LookupBase_def read_node_def Let_def split: option.splits)
  then show "registry_ok (load_node co print e d)" using ok by (auto simp: registry_ok_def read_node_keeps split: if_splits)
qed

lemma load_ok: "registry_ok d \<Longrightarrow> registry_ok (LoadFromYaml co print root d)"
proof -
  have "registry_ok d \<Longrightarrow> registry_ok (fold (load_node co print) es d)" for es by (induction es arbitrary: d) (auto simp: load_node_ok)
  then show "registry_ok d \<Longrightarrow> registry_ok (LoadFromYaml co print root d)" by (simp add: LoadFromYaml_def)
qed

text \<open>
  After every history of lookups, loads and assignments, a variable is registered under its own name, which has only the allowed
  characters; a lookup finds a registered variable of the asked type and keeps it, refuses one of another type, and creates one
  with the default value only under a name that is valid.\<close>

theorem config_registry:
  assumes "config_run d"
  shows "registry_ok d \<and>
    (case Config_Lookup type name v description d of
       (Found, d') \<Rightarrow> (\<exists>var. d' name = Some var \<and> cv_type var = type \<and> (case d name of Some old \<Rightarrow> var = old | None \<Rightarrow> cv_val var = v)) \<and>
         (\<forall>j. j \<noteq> name \<longrightarrow> d' j = d j)
     | (Wrong_type, d') \<Rightarrow> d' = d \<and> (\<exists>var. d name = Some var \<and> cv_type var \<noteq> type)
     | (Invalid_argument_thrown, d') \<Rightarrow> d' = d \<and> d name = None \<and> \<not> valid_name name)"
proof
  show "registry_ok d" using assms
  proof (induction rule: config_run.induct)
    case (cr_lookup d type name v description)
    then show ?case using valid_name_lower[of name]
      by (auto simp: registry_ok_def Config_Lookup_def ConfigVar_new_def split: option.splits)
  next
    case (cr_set d name var throws eq v)
    then show ?case by (auto simp: registry_ok_def setValue_def split: prod.splits bool.splits)
  next
    case cr_empty
    show ?case by (simp add: registry_ok_def)
  next
    case (cr_load d co print root)
    from cr_load.IH show ?case by (rule load_ok)
  qed
  show "case Config_Lookup type name v description d of
       (Found, d') \<Rightarrow> (\<exists>var. d' name = Some var \<and> cv_type var = type \<and> (case d name of Some old \<Rightarrow> var = old | None \<Rightarrow> cv_val var = v)) \<and>
         (\<forall>j. j \<noteq> name \<longrightarrow> d' j = d j)
     | (Wrong_type, d') \<Rightarrow> d' = d \<and> (\<exists>var. d name = Some var \<and> cv_type var \<noteq> type)
     | (Invalid_argument_thrown, d') \<Rightarrow> d' = d \<and> d name = None \<and> \<not> valid_name name"
    by (auto simp: Config_Lookup_def ConfigVar_new_def split: option.splits)
qed

theorem config_registry_witness:
  "config_run (Map.empty :: (int, nat) registry) \<and> fst (Config_Lookup ''int'' ''port9'' (80 :: int) [] (Map.empty :: (int, nat) registry)) = Invalid_argument_thrown"
proof -
  have "\<not> valid_name ''port9''" by code_simp
  then show ?thesis using config_registry[OF cr_empty, where name = "''port9''" and v = "80 :: int"] cr_empty by (simp add: Config_Lookup_def)
qed

section \<open>What is refused\<close>

text \<open>The digit 9 and capital letters are not allowed; a document with capital letters in a key is not read there.\<close>

lemma config_name_examples:
  "valid_name ''tcp.read_timeout8''" "\<not> valid_name ''server9''" "ListAllMember [] (Map_node [(''Port'', Scalar ''1'')]) = [([], Map_node [(''Port'', Scalar ''1'')])]"
  by code_simp+

lemma fromString_always_false: "\<not> fst (fromString throws eq FromStr val var)"
  by (auto simp: fromString_def split: option.splits prod.splits)

end
