(* ===== verification/Settings.thy ===== *)
theory Settings
  imports Config
begin

text \<open>
  Variables that the program keeps in step with its configuration: the sizes of \<open>http/http_parser.cc\<close> and the connection timeout of \<open>hook.cc\<close>. At
  start each is set to the value of a configuration variable, and a listener on the variable assigns it whenever the value changes.
\<close>

section \<open>A variable and its copy\<close>

text \<open>The listener that assigns the copy, and the listeners of others.\<close>

datatype 'l setting_listener = Assign | Foreign 'l

record ('v, 'l, 's) setting =
  st_var :: "('v, 'l setting_listener) ConfigVar"
  st_copy :: 's
  st_fun_id :: nat

text \<open>What the calls of the listeners do to the copy; \<open>conv\<close> is the conversion of the assignment.\<close>

definition run_listener :: "('v \<Rightarrow> 's) \<Rightarrow> 'l setting_listener \<times> 'v \<times> 'v \<Rightarrow> 's \<Rightarrow> 's" where
  "run_listener conv call copy = (case call of (Assign, old, new) \<Rightarrow> conv new | (Foreign l, old, new) \<Rightarrow> copy)"

text \<open>The static initialiser: the variable is registered with its default, the copy takes its value, and the listener is added.\<close>

definition setting_init :: "('v \<Rightarrow> 's) \<Rightarrow> string \<Rightarrow> string \<Rightarrow> 'v \<Rightarrow> string \<Rightarrow> nat \<Rightarrow> ('v, 'l, 's) setting" where
  "setting_init conv type name default_value description s_fun_id =
     (let var = ConfigVar_new type name default_value description;
          copy = conv (cv_val var)
      in case addListener s_fun_id Assign var of (key, fun_id, var1) \<Rightarrow> \<lparr>st_var = var1, st_copy = copy, st_fun_id = fun_id\<rparr>)"

definition setting_set :: "('l setting_listener \<Rightarrow> 'v \<Rightarrow> 'v \<Rightarrow> bool) \<Rightarrow> ('v \<Rightarrow> 's) \<Rightarrow> 'v \<Rightarrow> ('v, 'l, 's) setting \<Rightarrow> ('v, 'l, 's) setting" where
  "setting_set throws conv v t =
     (case setValue throws (=) v (st_var t) of (calls, thrown, var) \<Rightarrow>
        t\<lparr>st_var := var, st_copy := fold (run_listener conv) calls (st_copy t)\<rparr>)"

definition setting_load ::
    "('l setting_listener \<Rightarrow> 'v \<Rightarrow> 'v \<Rightarrow> bool) \<Rightarrow> ('v \<Rightarrow> 's) \<Rightarrow> (string \<Rightarrow> 'v option) \<Rightarrow> string \<Rightarrow> ('v, 'l, 's) setting \<Rightarrow> ('v, 'l, 's) setting" where
  "setting_load throws conv FromStr doc t =
     (case fromString throws (=) FromStr doc (st_var t) of (r, calls, var) \<Rightarrow>
        t\<lparr>st_var := var, st_copy := fold (run_listener conv) calls (st_copy t)\<rparr>)"

definition setting_listen :: "'l \<Rightarrow> ('v, 'l, 's) setting \<Rightarrow> ('v, 'l, 's) setting" where
  "setting_listen l t = (case addListener (st_fun_id t) (Foreign l) (st_var t) of (key, fun_id, var) \<Rightarrow> t\<lparr>st_var := var, st_fun_id := fun_id\<rparr>)"

definition setting_unlisten :: "nat \<Rightarrow> ('v, 'l, 's) setting \<Rightarrow> ('v, 'l, 's) setting" where
  "setting_unlisten key t = t\<lparr>st_var := delListener key (st_var t)\<rparr>"

section \<open>The settings of the program\<close>

definition http_request_buffer_size :: "nat \<Rightarrow> (u64, 'l, u64) setting" where
  "http_request_buffer_size = setting_init id ''uint64_t'' ''http.request.buffer_size'' (4 * 1024) ''http request buffer size''"

definition http_request_max_body_size :: "nat \<Rightarrow> (u64, 'l, u64) setting" where
  "http_request_max_body_size = setting_init id ''uint64_t'' ''http.request.max_body_size'' (64 * 1024 * 1024) ''http request max body size''"

definition http_response_buffer_size :: "nat \<Rightarrow> (u64, 'l, u64) setting" where
  "http_response_buffer_size = setting_init id ''uint64_t'' ''http.response.buffer_size'' (4 * 1024) ''http response buffer size''"

definition http_response_max_body_size :: "nat \<Rightarrow> (u64, 'l, u64) setting" where
  "http_response_max_body_size = setting_init id ''uint64_t'' ''http.response.max_body_size'' (64 * 1024 * 1024) ''http response max body size''"

text \<open>An \<open>int\<close> assigned to an \<open>uint64_t\<close> is extended by its sign.\<close>

definition tcp_connect_timeout :: "nat \<Rightarrow> (u32, 'l, u64) setting" where
  "tcp_connect_timeout = setting_init scast ''int'' ''tcp.connect.timeout'' 5000 ''tcp connect timeout''"

section \<open>The copies follow\<close>

text \<open>
  The histories of a setting: values are set by the program or read from documents, others add listeners and remove them, but nobody removes the
  listener of the setting, which nobody else has the key of.
\<close>

inductive setting_run :: "('l setting_listener \<Rightarrow> 'v \<Rightarrow> 'v \<Rightarrow> bool) \<Rightarrow> ('v \<Rightarrow> 's) \<Rightarrow> ('v, 'l, 's) setting \<Rightarrow> bool" for throws conv where
  sr_init: "setting_run throws conv (setting_init conv type name v d n)"
| sr_set: "setting_run throws conv t \<Longrightarrow> setting_run throws conv (setting_set throws conv v t)"
| sr_load: "setting_run throws conv t \<Longrightarrow> setting_run throws conv (setting_load throws conv FromStr doc t)"
| sr_listen: "setting_run throws conv t \<Longrightarrow> setting_run throws conv (setting_listen l t)"
| sr_unlisten: "setting_run throws conv t \<Longrightarrow> getListener key (st_var t) \<noteq> Some Assign \<Longrightarrow> setting_run throws conv (setting_unlisten key t)"

definition setting_ok :: "('v \<Rightarrow> 's) \<Rightarrow> ('v, 'l, 's) setting \<Rightarrow> bool" where
  "setting_ok conv t \<longleftrightarrow> st_copy t = conv (cv_val (st_var t)) \<and> Assign \<in> snd ` set (cv_cbs (st_var t)) \<and> listeners_ok (st_fun_id t) (st_var t)"

lemma run_listeners:
  "fold (run_listener conv) (map (\<lambda>(k, cb). (cb, old, new)) cbs) copy = (if Assign \<in> snd ` set cbs then conv new else copy)"
proof (induction cbs arbitrary: copy)
  case (Cons e cbs)
  then show ?case by (cases e; cases "snd e") (auto simp: run_listener_def)
qed simp

lemma nothing_thrown:
  "\<forall>cb a b. \<not> throws cb a b \<Longrightarrow> notify throws cbs old new = (map (\<lambda>(k, cb). (cb, old, new)) cbs, False)"
  by (simp add: notify_all)

lemma set_ok:
  assumes "\<forall>cb a b. \<not> throws cb a b" "setting_ok conv t"
  shows "setting_ok conv (setting_set throws conv v t)"
  using assms(2) nothing_thrown[OF assms(1)]
  by (auto simp: setting_set_def setValue_def setting_ok_def run_listeners listeners_ok_def)

lemma load_set:
  "setting_load throws conv FromStr doc t = (case FromStr doc of None \<Rightarrow> t | Some v \<Rightarrow> setting_set throws conv v t)"
  by (auto simp: setting_load_def fromString_def setting_set_def split: option.split prod.split)

lemma listen_ok:
  assumes "listeners_ok n var"
  shows "listeners_ok (Suc n) (snd (snd (addListener n cb var)))" "cv_cbs (snd (snd (addListener n cb var))) = cv_cbs var @ [(Suc n, cb)]"
    "cv_val (snd (snd (addListener n cb var))) = cv_val var"
proof -
  have above: "\<forall>e \<in> set (cv_cbs var). fst e < Suc n" using assms by (auto simp: listeners_ok_def)
  show "cv_cbs (snd (snd (addListener n cb var))) = cv_cbs var @ [(Suc n, cb)]"
    using map_assign_above[OF above] by (simp add: addListener_def)
  moreover have "map_sorted nat_less (map_assign nat_less (Suc n) cb (cv_cbs var))"
    using assms by (intro listeners.sorted_assign) (simp add: listeners_ok_def)
  ultimately show "listeners_ok (Suc n) (snd (snd (addListener n cb var)))"
    using assms by (auto simp: listeners_ok_def addListener_def le_Suc_eq)
  show "cv_val (snd (snd (addListener n cb var))) = cv_val var" by (simp add: addListener_def)
qed

lemma erase_keeps:
  "map_sorted nat_less m \<Longrightarrow> e \<in> set m \<Longrightarrow> map_find nat_less key m \<noteq> Some (snd e) \<Longrightarrow> e \<in> set (map_erase nat_less key m)"
  by (induction m rule: omap_induct) (auto simp: nat_less_def split: if_splits)

lemma unlisten_ok:
  assumes "setting_ok conv t" "getListener key (st_var t) \<noteq> Some Assign"
  shows "setting_ok conv (setting_unlisten key t)"
proof -
  from assms(1) have srt: "map_sorted nat_less (cv_cbs (st_var t))" by (simp add: setting_ok_def listeners_ok_def)
  from assms(1) obtain e where "e \<in> set (cv_cbs (st_var t))" "snd e = Assign" by (auto simp: setting_ok_def)
  then have "e \<in> set (map_erase nat_less key (cv_cbs (st_var t)))"
    using erase_keeps[OF srt] assms(2) by (simp add: getListener_def)
  then have "Assign \<in> snd ` set (map_erase nat_less key (cv_cbs (st_var t)))" using \<open>snd e = Assign\<close> by force
  then show ?thesis
    using assms(1) listeners.sorted_erase[OF srt] listeners.set_erase[of key "cv_cbs (st_var t)"]
    by (auto simp: setting_ok_def setting_unlisten_def delListener_def listeners_ok_def)
qed

lemma setting_run_ok:
  assumes "\<forall>cb a b. \<not> throws cb a b"
  shows "setting_run throws conv t \<Longrightarrow> setting_ok conv t"
proof (induction rule: setting_run.induct)
  case (sr_init type name v d n)
  show ?case using listen_ok[of n "ConfigVar_new type name v d" Assign]
    by (auto simp: setting_init_def setting_ok_def ConfigVar_new_def listeners_ok_def addListener_def)
next
  case (sr_load t FromStr doc)
  show ?case using sr_load.IH set_ok[OF assms sr_load.IH] by (simp add: load_set split: option.split)
next
  case (sr_listen t l)
  then show ?case using listen_ok[of "st_fun_id t" "st_var t" "Foreign l"]
    by (cases "addListener (st_fun_id t) (Foreign l) (st_var t)") (auto simp: setting_listen_def setting_ok_def addListener_def)
qed (use set_ok[OF assms] unlisten_ok in blast)+



text \<open>
  When a listener behind that of the setting throws, the copy has the new value and the variable still has the old one.
\<close>

lemma throwing_listener:
  "let t = setting_set (\<lambda>cb _ _. cb = Foreign ()) id 8192 (setting_listen () (http_request_buffer_size 0))
   in st_copy t = 8192 \<and> cv_val (st_var t) = 4096"
  by code_simp

lemma setting_names:
  "list_all valid_name [''http.request.buffer_size'', ''http.request.max_body_size'', ''http.response.buffer_size'',
     ''http.response.max_body_size'', ''tcp.connect.timeout'']"
  by code_simp

end
