(* ===== verification/LogFormat.thy ===== *)
theory LogFormat
  imports HttpMessage Uri
begin

text \<open>
  Levels, events and formatters of the log, \<open>log.h\<close> and \<open>log.cc\<close>: the pattern parser of a formatter and the text of an event. The
  formatting of a time by \<open>localtime_r\<close> and \<open>strftime\<close> is an argument.
\<close>

section \<open>Levels\<close>

datatype LogLevel = UNKNOW | DEBUG | INFO | WARN | ERROR | FATAL

fun level_num :: "LogLevel \<Rightarrow> nat" where
  "level_num UNKNOW = 0"
| "level_num DEBUG = 1"
| "level_num INFO = 2"
| "level_num WARN = 3"
| "level_num ERROR = 4"
| "level_num FATAL = 5"

text \<open>Levels compare as their numbers.\<close>

instantiation LogLevel :: linorder
begin

definition less_eq_LogLevel :: "LogLevel \<Rightarrow> LogLevel \<Rightarrow> bool" where
  "less_eq_LogLevel a b \<longleftrightarrow> level_num a \<le> level_num b"

definition less_LogLevel :: "LogLevel \<Rightarrow> LogLevel \<Rightarrow> bool" where
  "less_LogLevel a b \<longleftrightarrow> level_num a < level_num b"

instance
proof
  fix a b :: LogLevel
  show "a \<le> b \<Longrightarrow> b \<le> a \<Longrightarrow> a = b" by (cases a; cases b) (simp_all add: less_eq_LogLevel_def)
qed (auto simp: less_eq_LogLevel_def less_LogLevel_def)

end

fun LogLevel_ToString :: "LogLevel \<Rightarrow> string" where
  "LogLevel_ToString DEBUG = ''DEBUG''"
| "LogLevel_ToString INFO = ''INFO''"
| "LogLevel_ToString WARN = ''WARN''"
| "LogLevel_ToString ERROR = ''ERROR''"
| "LogLevel_ToString FATAL = ''FATAL''"
| "LogLevel_ToString UNKNOW = ''UNKNOW''"

definition LogLevel_FromString :: "string \<Rightarrow> LogLevel" where
  "LogLevel_FromString str =
     (if str = ''debug'' then DEBUG
      else if str = ''info'' then INFO
      else if str = ''warn'' then WARN
      else if str = ''error'' then ERROR
      else if str = ''fatal'' then FATAL
      else if str = ''DEBUG'' then DEBUG
      else if str = ''INFO'' then INFO
      else if str = ''WARN'' then WARN
      else if str = ''ERROR'' then ERROR
      else if str = ''FATAL'' then FATAL
      else UNKNOW)"

section \<open>Events and format items\<close>

record LogEvent =
  ev_file :: string
  ev_line :: int
  ev_elapse :: u32
  ev_threadId :: u32
  ev_fiberId :: u32
  ev_time :: u64
  ev_threadName :: string
  ev_content :: string
  ev_logger :: string
  ev_level :: LogLevel

datatype FormatItem =
    MessageFormatItem | LevelFormatItem | ElapseFormatItem | LogNameFormatItem | ThreadIdFormatItem | FiberIdFormatItem
  | ThreadNameFormatItem | DateTimeFormatItem string | FilenameFormatItem | LineFormatItem | NewLineFormatItem
  | StringFormatItem string | TabFormatItem

definition DateTimeFormatItem_new :: "string \<Rightarrow> FormatItem" where
  "DateTimeFormatItem_new format = DateTimeFormatItem (if format = [] then ''%Y-%m-%d %H:%M:%S'' else format)"

fun FormatItem_format :: "(string \<Rightarrow> u64 \<Rightarrow> string) \<Rightarrow> LogLevel \<Rightarrow> LogEvent \<Rightarrow> FormatItem \<Rightarrow> string" where
  "FormatItem_format strftime level event MessageFormatItem = ev_content event"
| "FormatItem_format strftime level event LevelFormatItem = LogLevel_ToString level"
| "FormatItem_format strftime level event ElapseFormatItem = dec_string (unat (ev_elapse event))"
| "FormatItem_format strftime level event LogNameFormatItem = ev_logger event"
| "FormatItem_format strftime level event ThreadIdFormatItem = dec_string (unat (ev_threadId event))"
| "FormatItem_format strftime level event FiberIdFormatItem = dec_string (unat (ev_fiberId event))"
| "FormatItem_format strftime level event ThreadNameFormatItem = ev_threadName event"
| "FormatItem_format strftime level event (DateTimeFormatItem f) = strftime f (ev_time event)"
| "FormatItem_format strftime level event FilenameFormatItem = ev_file event"
| "FormatItem_format strftime level event LineFormatItem = int_string (ev_line event)"
| "FormatItem_format strftime level event NewLineFormatItem = [CHR 0x0A]"
| "FormatItem_format strftime level event (StringFormatItem s) = s"
| "FormatItem_format strftime level event TabFormatItem = [CHR 0x09]"

section \<open>Patterns\<close>

text \<open>
  The scanning of a pattern: \<open>parsing_string\<close>, the literal text so far, the pieces found and the date format. A piece is literal text or
  the character of an item. The results: the pieces and the date format, an unclosed brace, or a read behind the end of the pattern.
\<close>

datatype piece = Literal string | Item char

datatype scan = Scanned "piece list" string | Not_closed | Read_behind

definition push_literal :: "string \<Rightarrow> piece list \<Rightarrow> piece list" where
  "push_literal tmp patterns = (if tmp = [] then patterns else patterns @ [Literal tmp])"

function scan_pattern :: "string \<Rightarrow> bool \<Rightarrow> string \<Rightarrow> piece list \<Rightarrow> string \<Rightarrow> scan" where
  "scan_pattern [] parsing_string tmp patterns dateformat = Scanned (push_literal tmp patterns) dateformat"
| "scan_pattern (c # cs) parsing_string tmp patterns dateformat =
     (if c = CHR ''%'' then
        (if parsing_string then scan_pattern cs False [] (push_literal tmp patterns) dateformat
         else scan_pattern cs True tmp (patterns @ [Item c]) dateformat)
      else if parsing_string then scan_pattern cs True (tmp @ [c]) patterns dateformat
      else if c \<noteq> CHR ''d'' then scan_pattern cs True tmp (patterns @ [Item c]) dateformat
      else case cs of
             [] \<Rightarrow> Read_behind
           | b # ds \<Rightarrow>
               if b \<noteq> CHR ''{'' then scan_pattern cs True tmp (patterns @ [Item c]) dateformat
               else case dropWhile (\<lambda>x. x \<noteq> CHR ''}'') ds of
                      [] \<Rightarrow> Not_closed
                    | e # es \<Rightarrow>
                        scan_pattern es True tmp (patterns @ [Item c]) (dateformat @ takeWhile (\<lambda>x. x \<noteq> CHR ''}'') ds))"
  by pat_completeness auto
termination
proof (relation "measure (\<lambda>(cs, p, tmp, patterns, df). length cs)", goal_cases)
  case (7 c cs p tmp patterns df b ds e es)
  have "length (dropWhile (\<lambda>x. x \<noteq> CHR ''}'') ds) \<le> length ds" by (simp add: length_dropWhile_le)
  with 7 show ?case by simp
qed auto

text \<open>The table \<open>s_format_items\<close>.\<close>

definition s_format_items :: "(char \<times> FormatItem) list" where
  "s_format_items =
     [(CHR ''m'', MessageFormatItem), (CHR ''p'', LevelFormatItem), (CHR ''r'', ElapseFormatItem), (CHR ''c'', LogNameFormatItem),
      (CHR ''t'', ThreadIdFormatItem), (CHR ''n'', NewLineFormatItem), (CHR ''d'', DateTimeFormatItem_new ''d''), (CHR ''f'', FilenameFormatItem),
      (CHR ''l'', LineFormatItem), (CHR ''T'', TabFormatItem), (CHR ''F'', FiberIdFormatItem), (CHR ''N'', ThreadNameFormatItem)]"

text \<open>The items made from the pieces, up to the first unknown one; the second result says whether there was one.\<close>

fun make_items :: "string \<Rightarrow> piece list \<Rightarrow> FormatItem list \<times> bool" where
  "make_items dateformat [] = ([], False)"
| "make_items dateformat (Literal s # ps) = (case make_items dateformat ps of (r, e) \<Rightarrow> (StringFormatItem s # r, e))"
| "make_items dateformat (Item c # ps) =
     (if c = CHR ''d'' then (case make_items dateformat ps of (r, e) \<Rightarrow> (DateTimeFormatItem_new dateformat # r, e))
      else case map_of s_format_items c of
             None \<Rightarrow> ([], True)
           | Some i \<Rightarrow> (case make_items dateformat ps of (r, e) \<Rightarrow> (i # r, e)))"

record LogFormatter =
  lf_pattern :: string
  lf_items :: "FormatItem list"
  lf_error :: bool

text \<open>\<open>None\<close> is the read behind the end of the pattern.\<close>

definition LogFormatter_new :: "string \<Rightarrow> LogFormatter option" where
  "LogFormatter_new pattern =
     (case scan_pattern pattern True [] [] [] of
        Read_behind \<Rightarrow> None
      | Not_closed \<Rightarrow> Some \<lparr>lf_pattern = pattern, lf_items = [], lf_error = True\<rparr>
      | Scanned pieces dateformat \<Rightarrow>
          (case make_items dateformat pieces of (is, e) \<Rightarrow> Some \<lparr>lf_pattern = pattern, lf_items = is, lf_error = e\<rparr>))"

definition LogFormatter_format :: "(string \<Rightarrow> u64 \<Rightarrow> string) \<Rightarrow> LogLevel \<Rightarrow> LogEvent \<Rightarrow> LogFormatter \<Rightarrow> string" where
  "LogFormatter_format strftime level event f = concat (map (FormatItem_format strftime level event) (lf_items f))"

section \<open>Patterns of items\<close>

fun item_char :: "FormatItem \<Rightarrow> char" where
  "item_char MessageFormatItem = CHR ''m''"
| "item_char LevelFormatItem = CHR ''p''"
| "item_char ElapseFormatItem = CHR ''r''"
| "item_char LogNameFormatItem = CHR ''c''"
| "item_char ThreadIdFormatItem = CHR ''t''"
| "item_char FiberIdFormatItem = CHR ''F''"
| "item_char ThreadNameFormatItem = CHR ''N''"
| "item_char (DateTimeFormatItem f) = CHR ''d''"
| "item_char FilenameFormatItem = CHR ''f''"
| "item_char LineFormatItem = CHR ''l''"
| "item_char NewLineFormatItem = CHR ''n''"
| "item_char (StringFormatItem s) = CHR ''s''"
| "item_char TabFormatItem = CHR ''T''"

definition item_pattern :: "FormatItem \<Rightarrow> string" where
  "item_pattern i = (case i of StringFormatItem s \<Rightarrow> s | DateTimeFormatItem f \<Rightarrow> ''%d{'' @ f @ ''}'' | _ \<Rightarrow> [CHR ''%'', item_char i])"

lemma item_pattern_simps:
  "item_pattern (StringFormatItem s) = s" "item_pattern (DateTimeFormatItem f) = ''%d{'' @ f @ ''}''"
  by (simp_all add: item_pattern_def)

fun is_literal :: "FormatItem \<Rightarrow> bool" where
  "is_literal (StringFormatItem s) = True"
| "is_literal _ = False"

fun is_date :: "FormatItem \<Rightarrow> bool" where
  "is_date (DateTimeFormatItem f) = True"
| "is_date _ = False"

text \<open>Literals are not empty, have no percent sign and do not touch; dates have the one given format.\<close>

fun items_ok :: "string \<Rightarrow> FormatItem list \<Rightarrow> bool" where
  "items_ok df [] = True"
| "items_ok df (StringFormatItem s # is) = (s \<noteq> [] \<and> CHR ''%'' \<notin> set s \<and> (is = [] \<or> \<not> is_literal (hd is)) \<and> items_ok df is)"
| "items_ok df (DateTimeFormatItem f # is) = (f = df \<and> list_all (\<lambda>i. \<not> is_date i) is \<and> items_ok df is)"
| "items_ok df (i # is) = items_ok df is"

fun item_piece :: "FormatItem \<Rightarrow> piece" where
  "item_piece (StringFormatItem s) = Literal s"
| "item_piece i = Item (item_char i)"

definition dates :: "FormatItem list \<Rightarrow> string" where
  "dates is = concat (map (\<lambda>i. case i of DateTimeFormatItem f \<Rightarrow> f | _ \<Rightarrow> []) is)"

lemma scan_literal:
  "CHR ''%'' \<notin> set s \<Longrightarrow> scan_pattern (s @ cs) True tmp ps df = scan_pattern cs True (tmp @ s) ps df"
  by (induction s arbitrary: tmp) auto

lemma scan_date:
  assumes "CHR ''}'' \<notin> set f"
  shows "scan_pattern (''%d{'' @ f @ ''}'' @ cs) True tmp ps df = scan_pattern cs True [] (push_literal tmp ps @ [Item (CHR ''d'')]) (df @ f)"
proof -
  have "dropWhile (\<lambda>x. x \<noteq> CHR ''}'') (f @ CHR ''}'' # cs) = CHR ''}'' # cs" "takeWhile (\<lambda>x. x \<noteq> CHR ''}'') (f @ CHR ''}'' # cs) = f"
    using assms by (auto simp: dropWhile_append takeWhile_append dest: dropWhile_eq_Nil_conv[THEN iffD1])
  then show ?thesis by simp
qed

lemma scan_items:
  assumes "items_ok d is" "CHR ''}'' \<notin> set d" "tmp = [] \<or> is = [] \<or> \<not> is_literal (hd is)"
  shows "scan_pattern (concat (map item_pattern is)) True tmp ps df =
    Scanned (push_literal tmp ps @ map item_piece is) (df @ dates is)"
  using assms
proof (induction d "is" arbitrary: tmp ps df rule: items_ok.induct)
  case (1 d)
  then show ?case by (simp add: dates_def)
next
  case (2 d s "is")
  then have "tmp = []" by simp
  then show ?case using 2 by (simp add: item_pattern_simps scan_literal dates_def push_literal_def)
next
  case (3 d f "is")
  then show ?case using scan_date[of f "concat (map item_pattern is)" tmp ps df]
    by (cases "tmp = []") (simp_all add: item_pattern_simps dates_def push_literal_def del: scan_pattern.simps)
qed (simp_all add: item_pattern_def dates_def push_literal_def)

lemma make_items_pieces:
  assumes "items_ok d is" "d \<noteq> []"
  shows "make_items d (map item_piece is) = (is, False)"
  using assms by (induction d "is" rule: items_ok.induct) (simp_all add: DateTimeFormatItem_new_def s_format_items_def)

lemma dates_none: "list_all (\<lambda>i. \<not> is_date i) is \<Longrightarrow> dates is = []"
  by (induction "is") (auto simp: dates_def split: FormatItem.splits)

lemma dates_Cons: "dates (i # is) = (case i of DateTimeFormatItem f \<Rightarrow> f | _ \<Rightarrow> []) @ dates is" "dates [] = []"
  by (simp_all add: dates_def)

lemma dates_one: "items_ok d is \<Longrightarrow> dates is = [] \<or> dates is = d"
  by (induction d "is" rule: items_ok.induct) (simp_all add: dates_Cons dates_none)

lemma make_items_no_dates:
  assumes "items_ok d is" "list_all (\<lambda>i. \<not> is_date i) is"
  shows "make_items df (map item_piece is) = (is, False)"
  using assms by (induction d "is" rule: items_ok.induct) (simp_all add: s_format_items_def)

lemma dates_all: "items_ok d is \<Longrightarrow> d \<noteq> [] \<Longrightarrow> dates is = [] \<Longrightarrow> list_all (\<lambda>i. \<not> is_date i) is"
  by (induction d "is" rule: items_ok.induct) (simp_all add: dates_Cons)

text \<open>
  Patterns and items correspond: writing a list of items as a pattern and giving it to a formatter gives these items back without an
  error, and the text of an event is the concatenation of the texts of the items, in order.\<close>

theorem pattern_roundtrip:
  assumes "items_ok d is" "d \<noteq> []" "CHR ''}'' \<notin> set d"
  shows "\<exists>f. LogFormatter_new (concat (map item_pattern is)) = Some f \<and> lf_items f = is \<and> \<not> lf_error f \<and>
    LogFormatter_format strftime level event f = concat (map (FormatItem_format strftime level event) is)"
proof -
  have s: "scan_pattern (concat (map item_pattern is)) True [] [] [] = Scanned (map item_piece is) (dates is)"
    using scan_items[OF assms(1,3), of "[]" "[]" "[]"] by (simp add: push_literal_def)
  have "make_items (dates is) (map item_piece is) = (is, False)"
    using dates_one[OF assms(1)] make_items_pieces[OF assms(1,2)] make_items_no_dates[OF assms(1) dates_all[OF assms(1,2)]] by auto
  then show ?thesis using s by (simp add: LogFormatter_new_def LogFormatter_format_def)
qed

definition default_pattern :: string where
  "default_pattern = ''%d{%Y-%m-%d %H:%M:%S}%T%t%T%N%T%F%T[%p]%T[%c]%T%f:%l%T%m%n''"

definition default_items :: "FormatItem list" where
  "default_items = [DateTimeFormatItem ''%Y-%m-%d %H:%M:%S'', TabFormatItem, ThreadIdFormatItem, TabFormatItem, ThreadNameFormatItem, TabFormatItem,
     FiberIdFormatItem, TabFormatItem, StringFormatItem ''['', LevelFormatItem, StringFormatItem '']'', TabFormatItem, StringFormatItem ''['',
     LogNameFormatItem, StringFormatItem '']'', TabFormatItem, FilenameFormatItem, StringFormatItem '':'', LineFormatItem, TabFormatItem,
     MessageFormatItem, NewLineFormatItem]"

theorem pattern_roundtrip_witness:
  "\<exists>f. LogFormatter_new default_pattern = Some f \<and> lf_items f = default_items \<and> \<not> lf_error f"
proof -
  have "items_ok ''%Y-%m-%d %H:%M:%S'' default_items" "default_pattern = concat (map item_pattern default_items)" by code_simp+
  then show ?thesis using pattern_roundtrip[of "''%Y-%m-%d %H:%M:%S''" default_items] by fastforce
qed

lemma level_names: "LogLevel_FromString (LogLevel_ToString l) = l"
  by (cases l) (simp_all add: LogLevel_FromString_def)

section \<open>What goes wrong in patterns\<close>

text \<open>
  The escape of a percent sign is refused; two dates share the concatenation of their formats; a date at the end of the pattern reads behind it.
\<close>

lemma pattern_errors:
  "map_option lf_error (LogFormatter_new ''100%%'') = Some True"
  "map_option lf_items (LogFormatter_new ''%d{%H} %d{%M}'') =
     Some [DateTimeFormatItem ''%H%M'', StringFormatItem '' '', DateTimeFormatItem ''%H%M'']"
  "LogFormatter_new ''%m%d'' = None"
  "map_option lf_error (LogFormatter_new ''%d{%H'') = Some True"
  by code_simp+

end
