(* ===== verification/Logger.thy ===== *)
theory Logger
  imports LogFormat Config
begin

text \<open>
  Loggers and appenders, \<open>log.h\<close> and \<open>log.cc\<close>: the tree of loggers under the root, what a call of \<open>log\<close> writes, and the listener that
  applies a changed configuration. Appenders are shared objects in a store; standard output and the files are texts. No two file
  appenders write to one file at the same time.
\<close>

section \<open>State\<close>

text \<open>A file appender has the name of its file and the time at which it opened it.\<close>

record LogAppender =
  ap_file :: "string option"
  ap_level :: LogLevel
  ap_hasFormatter :: bool
  ap_formatter :: "LogFormatter option"
  ap_lastTime :: u64

record Logger =
  lg_name :: string
  lg_level :: LogLevel
  lg_appenders :: "nat list"
  lg_formatter :: "LogFormatter option"
  lg_hasRoot :: bool

record logs =
  ls_appenders :: "nat \<Rightarrow> LogAppender"
  ls_next :: nat
  ls_loggers :: "string \<Rightarrow> Logger option"
  ls_stdout :: string
  ls_files :: "string \<Rightarrow> string"

definition upd_appender :: "nat \<Rightarrow> (LogAppender \<Rightarrow> LogAppender) \<Rightarrow> logs \<Rightarrow> logs" where
  "upd_appender a f w = w\<lparr>ls_appenders := (ls_appenders w)(a := f (ls_appenders w a))\<rparr>"

definition upd_logger :: "string \<Rightarrow> (Logger \<Rightarrow> Logger) \<Rightarrow> logs \<Rightarrow> logs" where
  "upd_logger name f w = w\<lparr>ls_loggers := (ls_loggers w)(name := map_option f (ls_loggers w name))\<rparr>"

section \<open>Appenders\<close>

definition new_appender :: "string option \<Rightarrow> logs \<Rightarrow> nat \<times> logs" where
  "new_appender fname w =
     (ls_next w, w\<lparr>ls_next := Suc (ls_next w), ls_appenders := (ls_appenders w)(ls_next w :=
        \<lparr>ap_file = fname, ap_level = DEBUG, ap_hasFormatter = False, ap_formatter = None, ap_lastTime = 0\<rparr>)\<rparr>)"

text \<open>Opening an output file stream empties the file.\<close>

definition reopen :: "string \<Rightarrow> logs \<Rightarrow> logs" where
  "reopen fname w = w\<lparr>ls_files := (ls_files w)(fname := [])\<rparr>"

definition FileLogAppender_new :: "string \<Rightarrow> logs \<Rightarrow> nat \<times> logs" where
  "FileLogAppender_new fname w = (case new_appender (Some fname) w of (a, w1) \<Rightarrow> (a, reopen fname w1))"

definition StdoutLogAppender_new :: "logs \<Rightarrow> nat \<times> logs" where
  "StdoutLogAppender_new w = new_appender None w"

definition LogAppender_setFormatter :: "LogFormatter option \<Rightarrow> nat \<Rightarrow> logs \<Rightarrow> logs" where
  "LogAppender_setFormatter val a w = upd_appender a (\<lambda>ap. ap\<lparr>ap_formatter := val, ap_hasFormatter := (val \<noteq> None)\<rparr>) w"

definition LogAppender_setLevel :: "LogLevel \<Rightarrow> nat \<Rightarrow> logs \<Rightarrow> logs" where
  "LogAppender_setLevel val a w = upd_appender a (\<lambda>ap. ap\<lparr>ap_level := val\<rparr>) w"

text \<open>\<open>None\<close> is the use of a null formatter.\<close>

definition appender_log :: "(string \<Rightarrow> u64 \<Rightarrow> string) \<Rightarrow> LogLevel \<Rightarrow> LogEvent \<Rightarrow> nat \<Rightarrow> logs \<Rightarrow> logs option" where
  "appender_log strftime level event a w =
     (let ap = ls_appenders w a
      in if level < ap_level ap then Some w
         else case ap_file ap of
                None \<Rightarrow> map_option (\<lambda>f. w\<lparr>ls_stdout := ls_stdout w @ LogFormatter_format strftime level event f\<rparr>) (ap_formatter ap)
              | Some fname \<Rightarrow>
                  let now = ev_time event;
                      w1 = (if ap_lastTime ap + 3 \<le> now then upd_appender a (\<lambda>ap. ap\<lparr>ap_lastTime := now\<rparr>) (reopen fname w) else w)
                  in map_option (\<lambda>f. w1\<lparr>ls_files := (ls_files w1)(fname := ls_files w1 fname @ LogFormatter_format strftime level event f)\<rparr>)
                       (ap_formatter ap))"

section \<open>Loggers\<close>

definition Logger_new :: "string \<Rightarrow> bool \<Rightarrow> Logger" where
  "Logger_new name has_root =
     \<lparr>lg_name = name, lg_level = DEBUG, lg_appenders = [], lg_formatter = LogFormatter_new default_pattern, lg_hasRoot = has_root\<rparr>"

definition Logger_setLevel :: "LogLevel \<Rightarrow> string \<Rightarrow> logs \<Rightarrow> logs" where
  "Logger_setLevel val name w = upd_logger name (\<lambda>l. l\<lparr>lg_level := val\<rparr>) w"

definition own_appenders :: "string \<Rightarrow> logs \<Rightarrow> nat list" where
  "own_appenders name w = (case ls_loggers w name of Some l \<Rightarrow> lg_appenders l | None \<Rightarrow> [])"

definition Logger_setFormatter :: "LogFormatter option \<Rightarrow> string \<Rightarrow> logs \<Rightarrow> logs" where
  "Logger_setFormatter val name w =
     fold (\<lambda>a w. if ap_hasFormatter (ls_appenders w a) then w else upd_appender a (\<lambda>ap. ap\<lparr>ap_formatter := val\<rparr>) w)
       (own_appenders name w) (upd_logger name (\<lambda>l. l\<lparr>lg_formatter := val\<rparr>) w)"

text \<open>\<open>None\<close> is a read behind the end of the pattern.\<close>

definition Logger_setFormatter_str :: "string \<Rightarrow> string \<Rightarrow> logs \<Rightarrow> logs option" where
  "Logger_setFormatter_str val name w =
     map_option (\<lambda>f. if lf_error f then w else Logger_setFormatter (Some f) name w) (LogFormatter_new val)"

definition addAppender :: "nat \<Rightarrow> string \<Rightarrow> logs \<Rightarrow> logs" where
  "addAppender a name w =
     (case ls_loggers w name of
        None \<Rightarrow> w
      | Some l \<Rightarrow>
          let w1 = (if ap_formatter (ls_appenders w a) = None then upd_appender a (\<lambda>ap. ap\<lparr>ap_formatter := lg_formatter l\<rparr>) w else w)
          in upd_logger name (\<lambda>l. l\<lparr>lg_appenders := lg_appenders l @ [a]\<rparr>) w1)"

definition delAppender :: "nat \<Rightarrow> string \<Rightarrow> logs \<Rightarrow> logs" where
  "delAppender a name w = upd_logger name (\<lambda>l. l\<lparr>lg_appenders := remove1 a (lg_appenders l)\<rparr>) w"

definition clearAppenders :: "string \<Rightarrow> logs \<Rightarrow> logs" where
  "clearAppenders name w = upd_logger name (\<lambda>l. l\<lparr>lg_appenders := []\<rparr>) w"

fun log_appenders :: "(string \<Rightarrow> u64 \<Rightarrow> string) \<Rightarrow> LogLevel \<Rightarrow> LogEvent \<Rightarrow> nat list \<Rightarrow> logs \<Rightarrow> logs option" where
  "log_appenders strftime level event [] w = Some w"
| "log_appenders strftime level event (a # as) w =
     (case appender_log strftime level event a w of None \<Rightarrow> None | Some w1 \<Rightarrow> log_appenders strftime level event as w1)"

text \<open>\<open>m_root\<close> of the root logger is null.\<close>

definition Logger_log :: "(string \<Rightarrow> u64 \<Rightarrow> string) \<Rightarrow> string \<Rightarrow> LogLevel \<Rightarrow> LogEvent \<Rightarrow> logs \<Rightarrow> logs option" where
  "Logger_log strftime name level event w =
     (case ls_loggers w name of
        None \<Rightarrow> Some w
      | Some l \<Rightarrow>
          if level < lg_level l then Some w
          else if lg_appenders l \<noteq> [] then log_appenders strftime level event (lg_appenders l) w
          else if lg_hasRoot l then
            (case ls_loggers w ''root'' of
               None \<Rightarrow> Some w
             | Some r \<Rightarrow> if level < lg_level r then Some w else log_appenders strftime level event (lg_appenders r) w)
          else Some w)"

definition LoggerManager_new :: "(string \<Rightarrow> string) \<Rightarrow> logs" where
  "LoggerManager_new files =
     (let w = \<lparr>ls_appenders = (\<lambda>_. \<lparr>ap_file = None, ap_level = DEBUG, ap_hasFormatter = False, ap_formatter = None, ap_lastTime = 0\<rparr>), ls_next = 0,
               ls_loggers = [''root'' \<mapsto> Logger_new ''root'' False], ls_stdout = [], ls_files = files\<rparr>
      in case StdoutLogAppender_new w of (a, w1) \<Rightarrow> addAppender a ''root'' w1)"

definition getLogger :: "string \<Rightarrow> logs \<Rightarrow> logs" where
  "getLogger name w =
     (case ls_loggers w name of
        Some l \<Rightarrow> w
      | None \<Rightarrow> w\<lparr>ls_loggers := (ls_loggers w)(name \<mapsto> Logger_new name True)\<rparr>)"

section \<open>Configuration\<close>

record LogAppenderDefine =
  ad_type :: int
  ad_level :: LogLevel
  ad_formatter :: string
  ad_file :: string

record LogDefine =
  ld_name :: string
  ld_level :: LogLevel
  ld_formatter :: string
  ld_appenders :: "LogAppenderDefine list"

text \<open>\<open>operator==\<close> compares the appenders of the left side with themselves.\<close>

definition LogDefine_eq :: "LogDefine \<Rightarrow> LogDefine \<Rightarrow> bool" where
  "LogDefine_eq a oth \<longleftrightarrow>
     ld_name a = ld_name oth \<and> ld_level a = ld_level oth \<and> ld_formatter a = ld_formatter oth \<and> ld_appenders a = ld_appenders a"

definition find_define :: "string \<Rightarrow> LogDefine list \<Rightarrow> LogDefine option" where
  "find_define name ds = find (\<lambda>d. ld_name d = name) ds"

definition add_defined :: "string \<Rightarrow> LogAppenderDefine \<Rightarrow> logs \<Rightarrow> logs option" where
  "add_defined name d w =
     (if ad_type d \<noteq> 1 \<and> ad_type d \<noteq> 2 then Some w
      else case (if ad_type d = 1 then FileLogAppender_new (ad_file d) w else StdoutLogAppender_new w) of
             (a, w1) \<Rightarrow>
               let w2 = LogAppender_setLevel (ad_level d) a w1
               in if ad_formatter d = [] then Some (addAppender a name w2)
                  else map_option (\<lambda>f. addAppender a name (if lf_error f then w2 else LogAppender_setFormatter (Some f) a w2))
                         (LogFormatter_new (ad_formatter d)))"

fun add_all :: "string \<Rightarrow> LogAppenderDefine list \<Rightarrow> logs \<Rightarrow> logs option" where
  "add_all name [] w = Some w"
| "add_all name (d # ds) w = (case add_defined name d w of None \<Rightarrow> None | Some w1 \<Rightarrow> add_all name ds w1)"

definition apply_define :: "LogDefine \<Rightarrow> logs \<Rightarrow> logs option" where
  "apply_define d w =
     (let w1 = Logger_setLevel (ld_level d) (ld_name d) (getLogger (ld_name d) w)
      in case (if ld_formatter d = [] then Some w1 else Logger_setFormatter_str (ld_formatter d) (ld_name d) w1) of
           None \<Rightarrow> None
         | Some w2 \<Rightarrow> add_all (ld_name d) (ld_appenders d) (clearAppenders (ld_name d) w2))"

fun apply_new :: "LogDefine list \<Rightarrow> LogDefine list \<Rightarrow> logs \<Rightarrow> logs option" where
  "apply_new old [] w = Some w"
| "apply_new old (d # ds) w =
     (case (case find_define (ld_name d) old of Some e \<Rightarrow> if LogDefine_eq d e then Some w else apply_define d w | None \<Rightarrow> apply_define d w) of
        None \<Rightarrow> None
      | Some w1 \<Rightarrow> apply_new old ds w1)"

definition remove_define :: "LogDefine list \<Rightarrow> LogDefine \<Rightarrow> logs \<Rightarrow> logs" where
  "remove_define new d w =
     (if find_define (ld_name d) new = None
      then clearAppenders (ld_name d) (Logger_setLevel UNKNOW (ld_name d) (getLogger (ld_name d) w)) else w)"

text \<open>The listener of the variable \<open>logs\<close>; a set of definitions is the list of its elements in order.\<close>

definition logs_changed :: "LogDefine list \<Rightarrow> LogDefine list \<Rightarrow> logs \<Rightarrow> logs option" where
  "logs_changed old new w = map_option (fold (remove_define new) old) (apply_new old new w)"

section \<open>Definitions in documents\<close>

text \<open>
  The member of a node, \<open>n[key]\<close>: the outer \<open>None\<close> is an exception, the inner one an undefined member. \<open>as\<close> is the conversion of a node to a
  string of yaml-cpp, \<open>None\<close> being its exception.
\<close>

fun yaml_member :: "yaml \<Rightarrow> string \<Rightarrow> yaml option option" where
  "yaml_member (Map_node kvs) k = Some (map_of kvs k)"
| "yaml_member (Scalar s) k = None"
| "yaml_member (Sequence ns) k = Some None"
| "yaml_member Yaml_null k = Some None"

definition optional_string :: "(yaml \<Rightarrow> string option) \<Rightarrow> yaml option \<Rightarrow> string option" where
  "optional_string as n = (case n of None \<Rightarrow> Some [] | Some m \<Rightarrow> as m)"

text \<open>One appender: the outer \<open>None\<close> is an exception, the inner one an appender that is skipped.\<close>

definition appender_of_yaml :: "(yaml \<Rightarrow> string option) \<Rightarrow> yaml \<Rightarrow> LogAppenderDefine option option" where
  "appender_of_yaml as a =
     Option.bind (yaml_member a ''type'') (\<lambda>t.
       case t of
         None \<Rightarrow> Some None
       | Some tn \<Rightarrow> Option.bind (as tn) (\<lambda>type.
           if type = ''FileLogAppender'' then
             Option.bind (yaml_member a ''file'') (\<lambda>f.
               case f of
                 None \<Rightarrow> Some None
               | Some fn \<Rightarrow> Option.bind (as fn) (\<lambda>file.
                   Option.bind (Option.bind (yaml_member a ''formatter'') (optional_string as)) (\<lambda>fmt.
                     Some (Some \<lparr>ad_type = 1, ad_level = UNKNOW, ad_formatter = fmt, ad_file = file\<rparr>))))
           else if type = ''StdoutLogAppender'' then
             Option.bind (Option.bind (yaml_member a ''formatter'') (optional_string as)) (\<lambda>fmt.
               Some (Some \<lparr>ad_type = 2, ad_level = UNKNOW, ad_formatter = fmt, ad_file = []\<rparr>))
           else Some None))"

fun appenders_of_yaml :: "(yaml \<Rightarrow> string option) \<Rightarrow> yaml list \<Rightarrow> LogAppenderDefine list option" where
  "appenders_of_yaml as [] = Some []"
| "appenders_of_yaml as (a # ns) =
     Option.bind (appender_of_yaml as a) (\<lambda>d. map_option (\<lambda>ds. (case d of Some x \<Rightarrow> [x] | None \<Rightarrow> []) @ ds) (appenders_of_yaml as ns))"

text \<open>The elements \<open>node[0]\<close>, \<open>node[1]\<close>, ...; the entries of a mapping are not found by number.\<close>

fun yaml_elements :: "yaml \<Rightarrow> yaml list option" where
  "yaml_elements (Sequence ns) = Some ns"
| "yaml_elements (Map_node kvs) = (if kvs = [] then Some [] else None)"
| "yaml_elements _ = Some []"

definition define_of_yaml :: "(yaml \<Rightarrow> string option) \<Rightarrow> yaml \<Rightarrow> LogDefine option" where
  "define_of_yaml as n =
     Option.bind (Option.bind (yaml_member n ''name'') (\<lambda>m. Option.bind m as)) (\<lambda>name.
     Option.bind (Option.bind (yaml_member n ''level'') (optional_string as)) (\<lambda>level.
     Option.bind (Option.bind (yaml_member n ''formatter'') (optional_string as)) (\<lambda>fmt.
     Option.bind (yaml_member n ''appenders'') (\<lambda>aps.
     Option.bind (case aps of None \<Rightarrow> Some [] | Some m \<Rightarrow> yaml_elements m) (\<lambda>ns.
     map_option (\<lambda>ds. \<lparr>ld_name = name, ld_level = LogLevel_FromString level, ld_formatter = fmt, ld_appenders = ds\<rparr>)
       (appenders_of_yaml as ns))))))"

definition map_or_null :: "(string \<times> yaml) list \<Rightarrow> yaml" where
  "map_or_null kvs = (if kvs = [] then Yaml_null else Map_node kvs)"

definition yaml_of_appender :: "LogAppenderDefine \<Rightarrow> yaml" where
  "yaml_of_appender a = map_or_null
     ((if ad_type a = 1 then [(''type'', Scalar ''FileLogAppender''), (''file'', Scalar (ad_file a))]
       else if ad_type a = 2 then [(''type'', Scalar ''StdoutLogAppender'')] else []) @
      (if ad_level a \<noteq> UNKNOW then [(''level'', Scalar (LogLevel_ToString (ad_level a)))] else []) @
      (if ad_formatter a \<noteq> [] then [(''formatter'', Scalar (ad_formatter a))] else []))"

definition yaml_of_define :: "LogDefine \<Rightarrow> yaml" where
  "yaml_of_define d = Map_node
     ([(''name'', Scalar (ld_name d))] @
      (if ld_level d \<noteq> UNKNOW then [(''level'', Scalar (LogLevel_ToString (ld_level d)))] else []) @
      (if ld_formatter d \<noteq> [] then [(''formatter'', Scalar (ld_formatter d))] else []) @
      (if ld_appenders d \<noteq> [] then [(''appenders'', Sequence (map yaml_of_appender (ld_appenders d)))] else []))"

definition known_type :: "LogAppenderDefine \<Rightarrow> bool" where
  "known_type a \<longleftrightarrow> ad_type a = 1 \<or> ad_type a = 2"

definition stored :: "LogAppenderDefine \<Rightarrow> LogAppenderDefine" where
  "stored a = a\<lparr>ad_level := UNKNOW, ad_file := (if ad_type a = 1 then ad_file a else [])\<rparr>"

lemma appender_of_yaml_of:
  assumes "\<And>s. as (Scalar s) = Some s"
  shows "appender_of_yaml as (yaml_of_appender a) = Some (if known_type a then Some (stored a) else None)"
  using assms by (auto simp: appender_of_yaml_def yaml_of_appender_def map_or_null_def known_type_def stored_def optional_string_def)

lemma appenders_of_yaml_of:
  assumes "\<And>s. as (Scalar s) = Some s"
  shows "appenders_of_yaml as (map yaml_of_appender ds) = Some (map stored (filter known_type ds))"
  by (induction ds) (simp_all add: appender_of_yaml_of[OF assms])

text \<open>
  A log definition that is written as a document is read back: name, level, format and the appenders, in order, except that the levels of
  the appenders are lost and appenders of an unknown type are dropped.\<close>

theorem log_define_roundtrip:
  assumes "\<And>s. as (Scalar s) = Some s"
  shows "define_of_yaml as (yaml_of_define d) = Some (d\<lparr>ld_appenders := map stored (filter known_type (ld_appenders d))\<rparr>)"
proof -
  have "LogLevel_FromString [] = UNKNOW" by (simp add: LogLevel_FromString_def)
  then show ?thesis using assms appenders_of_yaml_of[OF assms, of "ld_appenders d"]
    by (auto simp: define_of_yaml_def yaml_of_define_def optional_string_def level_names)
qed

theorem log_define_roundtrip_witness:
  "define_of_yaml (\<lambda>n. case n of Scalar s \<Rightarrow> Some s | _ \<Rightarrow> None)
     (yaml_of_define \<lparr>ld_name = ''system'', ld_level = ERROR, ld_formatter = [], ld_appenders = []\<rparr>) =
   Some \<lparr>ld_name = ''system'', ld_level = ERROR, ld_formatter = [], ld_appenders = []\<rparr>"
  using log_define_roundtrip[of "\<lambda>n. case n of Scalar s \<Rightarrow> Some s | _ \<Rightarrow> None"
      "\<lparr>ld_name = ''system'', ld_level = ERROR, ld_formatter = [], ld_appenders = []\<rparr>"] by simp

section \<open>What a call writes\<close>

text \<open>Every logger and every attached appender has a formatter, attached appenders exist, and there is a root logger.\<close>

definition logs_ok :: "logs \<Rightarrow> bool" where
  "logs_ok w \<longleftrightarrow> ls_loggers w ''root'' \<noteq> None \<and> (\<forall>name l. ls_loggers w name = Some l \<longrightarrow> lg_formatter l \<noteq> None \<and>
     (\<forall>a \<in> set (lg_appenders l). a < ls_next w \<and> ap_formatter (ls_appenders w a) \<noteq> None))"

text \<open>The text that an appender to standard output writes.\<close>

definition stdout_text :: "(string \<Rightarrow> u64 \<Rightarrow> string) \<Rightarrow> LogLevel \<Rightarrow> LogEvent \<Rightarrow> LogAppender \<Rightarrow> string" where
  "stdout_text strftime level event ap =
     (case ap_formatter ap of
        Some f \<Rightarrow> if ap_file ap = None \<and> ap_level ap \<le> level then LogFormatter_format strftime level event f else []
      | None \<Rightarrow> [])"

lemma same_time: "\<exists>t. ap = ap\<lparr>ap_lastTime := t\<rparr>" for ap :: LogAppender
  by (rule exI[of _ "ap_lastTime ap"]) simp

lemma appender_log_effect:
  assumes "ap_formatter (ls_appenders w a) \<noteq> None"
  shows "\<exists>w'. appender_log strftime level event a w = Some w' \<and> ls_loggers w' = ls_loggers w \<and> ls_next w' = ls_next w \<and>
    ls_stdout w' = ls_stdout w @ stdout_text strftime level event (ls_appenders w a) \<and>
    (\<forall>b. \<exists>t. ls_appenders w' b = (ls_appenders w b)\<lparr>ap_lastTime := t\<rparr>)"
proof -
  have upd: "\<exists>t. ls_appenders (upd_appender a (\<lambda>ap. ap\<lparr>ap_lastTime := n\<rparr>) v) b = (ls_appenders v b)\<lparr>ap_lastTime := t\<rparr>" for n v b
    using same_time by (auto simp: upd_appender_def)
  obtain f where f: "ap_formatter (ls_appenders w a) = Some f" using assms by auto
  show ?thesis
    using same_time upd[of "ev_time event" "reopen fn w" for fn] f
    by (auto simp: appender_log_def Let_def stdout_text_def reopen_def upd_appender_def split: option.splits)
qed

lemma stdout_text_time [simp]: "stdout_text strftime level event (ap\<lparr>ap_lastTime := t\<rparr>) = stdout_text strftime level event ap"
  by (simp add: stdout_text_def split: option.split)

lemma log_appenders_effect:
  assumes "\<forall>a \<in> set as. ap_formatter (ls_appenders w a) \<noteq> None"
  shows "\<exists>w'. log_appenders strftime level event as w = Some w' \<and> ls_loggers w' = ls_loggers w \<and> ls_next w' = ls_next w \<and>
    ls_stdout w' = ls_stdout w @ concat (map (\<lambda>a. stdout_text strftime level event (ls_appenders w a)) as) \<and>
    (\<forall>b. \<exists>t. ls_appenders w' b = (ls_appenders w b)\<lparr>ap_lastTime := t\<rparr>)"
  using assms
proof (induction as arbitrary: w)
  case Nil
  then show ?case using same_time by simp
next
  case (Cons a as)
  obtain w1 where w1: "appender_log strftime level event a w = Some w1" "ls_loggers w1 = ls_loggers w" "ls_next w1 = ls_next w"
    "ls_stdout w1 = ls_stdout w @ stdout_text strftime level event (ls_appenders w a)" "\<forall>b. \<exists>t. ls_appenders w1 b = (ls_appenders w b)\<lparr>ap_lastTime := t\<rparr>"
    using appender_log_effect[of w a strftime level event] Cons.prems by auto
  have f: "ap_formatter (ls_appenders w1 b) = ap_formatter (ls_appenders w b)"
    "stdout_text strftime level event (ls_appenders w1 b) = stdout_text strftime level event (ls_appenders w b)" for b
    using w1(5)[THEN spec, of b] by auto
  obtain w2 where w2: "log_appenders strftime level event as w1 = Some w2" "ls_loggers w2 = ls_loggers w1" "ls_next w2 = ls_next w1"
    "ls_stdout w2 = ls_stdout w1 @ concat (map (\<lambda>a. stdout_text strftime level event (ls_appenders w1 a)) as)"
    "\<forall>b. \<exists>t. ls_appenders w2 b = (ls_appenders w1 b)\<lparr>ap_lastTime := t\<rparr>"
    using Cons.IH[of w1] Cons.prems f(1) by auto
  have "\<exists>t. ls_appenders w2 b = (ls_appenders w b)\<lparr>ap_lastTime := t\<rparr>" for b
    using w1(5)[THEN spec, of b] w2(5)[THEN spec, of b] by auto
  then show ?case using w1 w2 f(2) by simp
qed

lemma log_ok:
  assumes "logs_ok w"
  shows "\<exists>w'. Logger_log strftime name level event w = Some w' \<and> logs_ok w'"
proof -
  have "\<exists>w'. log_appenders strftime level event (lg_appenders l) w = Some w' \<and> logs_ok w'" if "ls_loggers w m = Some l" for m l
  proof -
    have "\<forall>a \<in> set (lg_appenders l). ap_formatter (ls_appenders w a) \<noteq> None" using assms that by (auto simp: logs_ok_def)
    from log_appenders_effect[OF this, of strftime level event] obtain w' where w': "log_appenders strftime level event (lg_appenders l) w = Some w'"
      "ls_loggers w' = ls_loggers w" "ls_next w' = ls_next w" "\<forall>b. \<exists>t. ls_appenders w' b = (ls_appenders w b)\<lparr>ap_lastTime := t\<rparr>" by blast
    have "ap_formatter (ls_appenders w' b) = ap_formatter (ls_appenders w b)" for b using w'(4)[THEN spec, of b] by auto
    then show ?thesis using w' assms by (simp add: logs_ok_def)
  qed
  then show ?thesis using assms by (auto simp: Logger_log_def split: option.splits)
qed

lemma LogFormatter_default: "LogFormatter_new default_pattern \<noteq> None"
  by code_simp

lemma upd_loggerD: "ls_loggers (upd_logger n f w) m = Some l \<Longrightarrow> \<exists>k. ls_loggers w m = Some k \<and> (l = k \<or> m = n \<and> l = f k)"
  by (auto simp: upd_logger_def split: if_splits)

lemma upd_logger_ok:
  assumes "logs_ok w" "\<And>l. lg_formatter l \<noteq> None \<Longrightarrow> lg_formatter (f l) \<noteq> None" "\<And>l. set (lg_appenders (f l)) \<subseteq> set (lg_appenders l)"
  shows "logs_ok (upd_logger n f w)"
proof -
  have e: "ls_next (upd_logger n f w) = ls_next w" "ls_appenders (upd_logger n f w) = ls_appenders w"
    "ls_loggers (upd_logger n f w) ''root'' \<noteq> None \<longleftrightarrow> ls_loggers w ''root'' \<noteq> None" by (auto simp: upd_logger_def)
  have "lg_formatter l \<noteq> None \<and> (\<forall>a \<in> set (lg_appenders l). a < ls_next w \<and> ap_formatter (ls_appenders w a) \<noteq> None)"
    if l: "ls_loggers (upd_logger n f w) m = Some l" for m l
  proof -
    obtain k where k: "ls_loggers w m = Some k" "l = k \<or> l = f k" using upd_loggerD[OF l] by blast
    then have "lg_formatter k \<noteq> None" "\<forall>a \<in> set (lg_appenders k). a < ls_next w \<and> ap_formatter (ls_appenders w a) \<noteq> None"
      using assms(1) by (auto simp: logs_ok_def)
    then show ?thesis using k(2) assms(2)[of k] assms(3)[of k] by auto
  qed
  then show ?thesis using assms(1) e by (simp add: logs_ok_def)
qed

lemma upd_appender_ok:
  assumes "logs_ok w" "\<And>ap. ap_formatter ap \<noteq> None \<Longrightarrow> ap_formatter (f ap) \<noteq> None"
  shows "logs_ok (upd_appender a f w)"
  using assms by (fastforce simp: logs_ok_def upd_appender_def)

lemma setFormatter_ok: "logs_ok w \<Longrightarrow> logs_ok (Logger_setFormatter (Some f) n w)"
proof -
  have u: "logs_ok v \<Longrightarrow> logs_ok (upd_appender a (\<lambda>ap. ap\<lparr>ap_formatter := Some f\<rparr>) v)" for a v by (rule upd_appender_ok) auto
  have step: "logs_ok v \<Longrightarrow> logs_ok (fold (\<lambda>a w. if ap_hasFormatter (ls_appenders w a) then w else upd_appender a (\<lambda>ap. ap\<lparr>ap_formatter := Some f\<rparr>) w) as v)"
    for as v by (induction as arbitrary: v) (simp_all add: u)
  assume "logs_ok w"
  then show ?thesis unfolding Logger_setFormatter_def by (intro step upd_logger_ok) auto
qed

lemma setFormatter_str_ok: "logs_ok w \<Longrightarrow> Logger_setFormatter_str v n w = Some w' \<Longrightarrow> logs_ok w'"
  by (auto simp: Logger_setFormatter_str_def setFormatter_ok split: if_splits)

lemma new_appender_ok: "logs_ok w \<Longrightarrow> logs_ok (snd (new_appender fn w))"
  by (fastforce simp: logs_ok_def new_appender_def)

lemma reopen_ok: "logs_ok w \<Longrightarrow> logs_ok (reopen fn w)"
  by (simp add: logs_ok_def reopen_def)

lemma getLogger_ok: "logs_ok w \<Longrightarrow> logs_ok (getLogger n w)"
  using LogFormatter_default by (auto simp: logs_ok_def getLogger_def Logger_new_def split: option.splits if_splits)

lemma addAppender_ok:
  assumes "logs_ok w" "a < ls_next w"
  shows "logs_ok (addAppender a n w)"
proof (cases "ls_loggers w n")
  case None
  then show ?thesis using assms by (simp add: addAppender_def)
next
  case (Some l)
  define w1 where "w1 = (if ap_formatter (ls_appenders w a) = None then upd_appender a (\<lambda>ap. ap\<lparr>ap_formatter := lg_formatter l\<rparr>) w else w)"
  have "lg_formatter l \<noteq> None" using assms(1) Some by (auto simp: logs_ok_def)
  then have w1: "logs_ok w1" "ap_formatter (ls_appenders w1 a) \<noteq> None" "ls_next w1 = ls_next w"
    using assms(1) upd_appender_ok[of w "\<lambda>ap. ap\<lparr>ap_formatter := lg_formatter l\<rparr>" a] by (auto simp: w1_def upd_appender_def)
  have "addAppender a n w = upd_logger n (\<lambda>l. l\<lparr>lg_appenders := lg_appenders l @ [a]\<rparr>) w1" using Some by (simp add: addAppender_def w1_def Let_def)
  moreover have "logs_ok (upd_logger n (\<lambda>l. l\<lparr>lg_appenders := lg_appenders l @ [a]\<rparr>) w1)"
    using w1 assms(2) unfolding logs_ok_def by (fastforce simp: upd_logger_def split: if_splits)
  ultimately show ?thesis by simp
qed

section \<open>What a configuration sets\<close>

text \<open>A logger as the configuration sees it: its level, and the file and the level of its appenders.\<close>

definition appender_view :: "logs \<Rightarrow> nat \<Rightarrow> string option \<times> LogLevel" where
  "appender_view w a = (ap_file (ls_appenders w a), ap_level (ls_appenders w a))"

definition view :: "logs \<Rightarrow> string \<Rightarrow> (LogLevel \<times> (string option \<times> LogLevel) list) option" where
  "view w n = map_option (\<lambda>l. (lg_level l, map (appender_view w) (lg_appenders l))) (ls_loggers w n)"

definition appender_desc :: "LogAppenderDefine \<Rightarrow> string option \<times> LogLevel" where
  "appender_desc d = (if ad_type d = 1 then Some (ad_file d) else None, ad_level d)"

text \<open>A state in which one appender is new and not attached.\<close>

definition extends :: "logs \<Rightarrow> string option \<Rightarrow> LogLevel \<Rightarrow> logs \<Rightarrow> bool" where
  "extends w fn lvl w1 \<longleftrightarrow> logs_ok w1 \<and> ls_loggers w1 = ls_loggers w \<and> ls_next w1 = Suc (ls_next w) \<and>
     (\<forall>b. b \<noteq> ls_next w \<longrightarrow> ls_appenders w1 b = ls_appenders w b) \<and> appender_view w1 (ls_next w) = (fn, lvl)"

lemma create_extends:
  assumes "logs_ok w"
  shows "fst (FileLogAppender_new fn w) = ls_next w" "extends w (Some fn) DEBUG (snd (FileLogAppender_new fn w))"
    "fst (StdoutLogAppender_new w) = ls_next w" "extends w None DEBUG (snd (StdoutLogAppender_new w))"
proof -
  have ok: "logs_ok (snd (new_appender f w))" for f by (rule new_appender_ok[OF assms])
  then show "extends w None DEBUG (snd (StdoutLogAppender_new w))"
    by (auto simp: extends_def StdoutLogAppender_new_def new_appender_def appender_view_def)
  show "extends w (Some fn) DEBUG (snd (FileLogAppender_new fn w))"
    using reopen_ok[OF ok[of "Some fn"], of fn]
    by (auto simp: extends_def FileLogAppender_new_def new_appender_def appender_view_def reopen_def)
qed (simp_all add: FileLogAppender_new_def StdoutLogAppender_new_def new_appender_def)

lemma upd_extends:
  assumes "extends w fn lvl w1" "\<And>ap. ap_formatter ap \<noteq> None \<Longrightarrow> ap_formatter (f ap) \<noteq> None"
    "\<And>ap. ap_file (f ap) = ap_file ap \<and> ap_level (f ap) = (if g then lvl' else ap_level ap)"
  shows "extends w fn (if g then lvl' else lvl) (upd_appender (ls_next w) f w1)"
  using assms(1,3) upd_appender_ok[of w1 f "ls_next w"] assms(2)
  by (auto simp: extends_def upd_appender_def appender_view_def)

lemma add_extends:
  assumes "logs_ok w" "extends w fn lvl w1"
  shows "logs_ok (addAppender (ls_next w) n w1) \<and>
    view (addAppender (ls_next w) n w1) = (view w)(n := map_option (\<lambda>(l, as). (l, as @ [(fn, lvl)])) (view w n))"
proof -
  let ?a = "ls_next w" and ?w = "addAppender (ls_next w) n w1"
  have ok: "logs_ok ?w" using addAppender_ok[of w1 ?a n] assms(2) by (simp add: extends_def)
  have av: "appender_view ?w b = (if b = ?a then (fn, lvl) else appender_view w b)" for b
    using assms(2) by (auto simp: addAppender_def extends_def upd_appender_def upd_logger_def appender_view_def Let_def split: option.splits)
  have lg: "ls_loggers ?w = (ls_loggers w)(n := map_option (\<lambda>l. l\<lparr>lg_appenders := lg_appenders l @ [?a]\<rparr>) (ls_loggers w n))"
    using assms(2) by (auto simp: addAppender_def extends_def upd_appender_def upd_logger_def Let_def fun_upd_idem split: option.splits)
  have old: "map (appender_view ?w) (lg_appenders l) = map (appender_view w) (lg_appenders l)" if "ls_loggers w m = Some l" for m l
    using assms(1) that by (auto simp: av logs_ok_def)
  have "view ?w m = ((view w)(n := map_option (\<lambda>(l, as). (l, as @ [(fn, lvl)])) (view w n))) m" for m
    using old[of m] by (cases "ls_loggers w m") (auto simp: view_def lg av)
  then show ?thesis using ok by auto
qed

lemma add_defined_view:
  assumes "logs_ok w" "add_defined n d w = Some w'"
  shows "logs_ok w' \<and> view w' = (if known_type d then (view w)(n := map_option (\<lambda>(l, as). (l, as @ [appender_desc d])) (view w n)) else view w)"
proof (cases "known_type d")
  case False
  then show ?thesis using assms by (simp add: add_defined_def known_type_def)
next
  case True
  define w1 where "w1 = snd (if ad_type d = 1 then FileLogAppender_new (ad_file d) w else StdoutLogAppender_new w)"
  let ?a = "ls_next w"
  have w1: "(if ad_type d = 1 then FileLogAppender_new (ad_file d) w else StdoutLogAppender_new w) = (?a, w1)"
    using create_extends(1,3)[OF assms(1)] by (auto simp: w1_def prod_eq_iff)
  have "extends w (fst (appender_desc d)) DEBUG w1" using create_extends(2,4)[OF assms(1)] by (auto simp: w1_def appender_desc_def)
  from upd_extends[OF this, of "\<lambda>ap. ap\<lparr>ap_level := ad_level d\<rparr>" True "ad_level d"]
  have e2: "extends w (fst (appender_desc d)) (ad_level d) (LogAppender_setLevel (ad_level d) ?a w1)" by (simp add: LogAppender_setLevel_def)
  from upd_extends[OF this, of "\<lambda>ap. ap\<lparr>ap_formatter := Some f, ap_hasFormatter := (Some f \<noteq> None)\<rparr>" False undefined for f]
  have e3: "extends w (fst (appender_desc d)) (ad_level d) (LogAppender_setFormatter (Some f) ?a (LogAppender_setLevel (ad_level d) ?a w1))" for f
    by (simp add: LogAppender_setFormatter_def)
  have "\<exists>w3. extends w (fst (appender_desc d)) (ad_level d) w3 \<and> w' = addAppender ?a n w3"
    using assms(2) True w1 e2 e3 by (auto simp: add_defined_def known_type_def Let_def split: if_splits)
  then show ?thesis using add_extends[OF assms(1)] True by (auto simp: appender_desc_def)
qed

lemma add_all_view:
  assumes "logs_ok w" "add_all n ds w = Some w'"
  shows "logs_ok w' \<and> view w' = (view w)(n := map_option (\<lambda>(l, as). (l, as @ map appender_desc (filter known_type ds))) (view w n))"
  using assms
proof (induction ds arbitrary: w)
  case Nil
  then show ?case by (cases "view w n") (auto simp: fun_upd_idem)
next
  case (Cons d ds)
  then obtain w1 where w1: "add_defined n d w = Some w1" "add_all n ds w1 = Some w'" by (auto split: option.splits)
  have "logs_ok w1" "view w1 = (if known_type d then (view w)(n := map_option (\<lambda>(l, as). (l, as @ [appender_desc d])) (view w n)) else view w)"
    using add_defined_view[OF Cons.prems(1) w1(1)] by auto
  with Cons.IH[OF this(1) w1(2)] show ?case by (cases "view w n") auto
qed

lemma view_upd_logger:
  "view (upd_logger n f w) = (view w)(n := map_option (\<lambda>l. (lg_level (f l), map (appender_view w) (lg_appenders (f l)))) (ls_loggers w n))"
proof -
  have "appender_view (upd_logger n f w) = appender_view w" "ls_loggers (upd_logger n f w) = (ls_loggers w)(n := map_option f (ls_loggers w n))"
    by (simp_all add: appender_view_def upd_logger_def fun_eq_iff)
  then show ?thesis by (intro ext) (simp add: view_def option.map_comp comp_def)
qed

lemma setLevel_view: "view (Logger_setLevel v n w) = (view w)(n := map_option (\<lambda>(l, as). (v, as)) (view w n))"
  by (simp add: Logger_setLevel_def view_upd_logger) (simp add: view_def option.map_comp comp_def)

lemma clear_view: "view (clearAppenders n w) = (view w)(n := map_option (\<lambda>(l, as). (l, [])) (view w n))"
  by (simp add: clearAppenders_def view_upd_logger) (simp add: view_def option.map_comp comp_def)

lemma getLogger_view: "view (getLogger n w) = (case view w n of None \<Rightarrow> (view w)(n \<mapsto> (DEBUG, [])) | Some x \<Rightarrow> view w)"
proof -
  have e: "appender_view (getLogger n w) = appender_view w" by (simp add: appender_view_def getLogger_def fun_eq_iff split: option.split)
  show ?thesis
  proof (cases "ls_loggers w n")
    case None
    then have "ls_loggers (getLogger n w) = (ls_loggers w)(n \<mapsto> Logger_new n True)" by (simp add: getLogger_def)
    then show ?thesis using None by (intro ext) (simp add: view_def e Logger_new_def)
  next
    case (Some l)
    then show ?thesis by (simp add: getLogger_def view_def)
  qed
qed

lemma setFormatter_view: "view (Logger_setFormatter f n w) = view w"
proof -
  let ?s = "\<lambda>a w. if ap_hasFormatter (ls_appenders w a) then w else upd_appender a (\<lambda>ap. ap\<lparr>ap_formatter := f\<rparr>) w"
  have one: "appender_view (?s a u) = appender_view u \<and> ls_loggers (?s a u) = ls_loggers u" for a u
    by (auto simp: upd_appender_def appender_view_def fun_eq_iff)
  have "appender_view (fold ?s as u) = appender_view u \<and> ls_loggers (fold ?s as u) = ls_loggers u" for as u
  proof (induction as arbitrary: u)
    case (Cons a as)
    show ?case using Cons.IH[of "?s a u"] one[where a = a and u = u] by simp
  qed simp
  then have "view (Logger_setFormatter f n w) = view (upd_logger n (\<lambda>l. l\<lparr>lg_formatter := f\<rparr>) w)"
    by (intro ext) (simp add: Logger_setFormatter_def view_def)
  also have "\<dots> = view w" by (auto simp: view_upd_logger view_def fun_eq_iff)
  finally show ?thesis .
qed

lemma setFormatter_str_view: "Logger_setFormatter_str v n w = Some w' \<Longrightarrow> view w' = view w"
  by (auto simp: Logger_setFormatter_str_def setFormatter_view split: if_splits)

lemma setLevel_ok: "logs_ok w \<Longrightarrow> logs_ok (Logger_setLevel v n w)"
  unfolding Logger_setLevel_def by (rule upd_logger_ok) auto

lemma clear_ok: "logs_ok w \<Longrightarrow> logs_ok (clearAppenders n w)"
  unfolding clearAppenders_def by (rule upd_logger_ok) auto

text \<open>What a definition asks for.\<close>

definition define_view :: "LogDefine \<Rightarrow> LogLevel \<times> (string option \<times> LogLevel) list" where
  "define_view d = (ld_level d, map appender_desc (filter known_type (ld_appenders d)))"

lemma apply_define_view:
  assumes "logs_ok w" "apply_define d w = Some w'"
  shows "logs_ok w' \<and> view w' = (view w)(ld_name d \<mapsto> define_view d)"
proof -
  let ?n = "ld_name d"
  define w1 where "w1 = Logger_setLevel (ld_level d) ?n (getLogger ?n w)"
  have w1: "logs_ok w1" "\<exists>as. view w1 = (view w)(?n \<mapsto> (ld_level d, as))"
    using setLevel_ok[OF getLogger_ok[OF assms(1)]] by (auto simp: w1_def setLevel_view getLogger_view split: option.splits)
  obtain w2 where w2: "(if ld_formatter d = [] then Some w1 else Logger_setFormatter_str (ld_formatter d) ?n w1) = Some w2"
    "add_all ?n (ld_appenders d) (clearAppenders ?n w2) = Some w'"
    using assms(2) unfolding apply_define_def Let_def w1_def[symmetric] by (auto split: option.splits)
  have "logs_ok w2" "view w2 = view w1"
    using w2(1) w1(1) setFormatter_str_ok[of w1 "ld_formatter d" ?n w2] setFormatter_str_view[of "ld_formatter d" ?n w1 w2] by (auto split: if_splits)
  with add_all_view[OF clear_ok w2(2)] w1(2) show ?thesis by (auto simp: clear_view define_view_def)
qed

definition unchanged :: "LogDefine list \<Rightarrow> LogDefine \<Rightarrow> bool" where
  "unchanged old d \<longleftrightarrow> (case find_define (ld_name d) old of Some e \<Rightarrow> LogDefine_eq d e | None \<Rightarrow> False)"

lemma find_define_Cons: "find_define n (d # ds) = (if ld_name d = n then Some d else find_define n ds)"
  by (simp add: find_define_def)

lemma find_define_None: "n \<notin> ld_name ` set ds \<Longrightarrow> find_define n ds = None"
  by (auto simp: find_define_def find_None_iff)

lemma apply_new_view:
  assumes "logs_ok w" "apply_new old ds w = Some w'" "distinct (map ld_name ds)"
  shows "logs_ok w' \<and> view w' n =
    (case find_define n ds of Some d \<Rightarrow> if unchanged old d then view w n else Some (define_view d) | None \<Rightarrow> view w n)"
  using assms
proof (induction ds arbitrary: w)
  case Nil
  then show ?case by (simp add: find_define_def)
next
  case (Cons d ds)
  obtain w1 where w1: "(if unchanged old d then Some w else apply_define d w) = Some w1" "apply_new old ds w1 = Some w'"
    using Cons.prems(2) by (auto simp: unchanged_def split: option.splits if_splits)
  have v: "logs_ok w1" "view w1 = (if unchanged old d then view w else (view w)(ld_name d \<mapsto> define_view d))"
    using w1(1) Cons.prems(1) apply_define_view[OF Cons.prems(1), of d w1] by (auto split: if_splits)
  have "find_define (ld_name d) ds = None" using Cons.prems(3) by (intro find_define_None) auto
  then show ?case using Cons.IH[OF v(1) w1(2)] Cons.prems(3) v(2) by (auto simp: find_define_Cons split: option.splits)
qed

lemma remove_define_view:
  assumes "logs_ok w"
  shows "logs_ok (remove_define new d w)"
    "view (remove_define new d w) = (if find_define (ld_name d) new = None then (view w)(ld_name d \<mapsto> (UNKNOW, [])) else view w)"
  using clear_ok[OF setLevel_ok[OF getLogger_ok[OF assms]]] assms
  by (auto simp: remove_define_def clear_view setLevel_view getLogger_view split: option.splits)

lemma remove_all_view:
  assumes "logs_ok w"
  shows "logs_ok (fold (remove_define new) old w) \<and> view (fold (remove_define new) old w) n =
    (if n \<in> ld_name ` set old \<and> find_define n new = None then Some (UNKNOW, []) else view w n)"
  using assms
proof (induction old arbitrary: w)
  case (Cons d old)
  then show ?case using Cons.IH[OF remove_define_view(1)[OF Cons.prems, of new d]] remove_define_view(2)[OF Cons.prems, of new d] by auto
qed simp

inductive log_run :: "logs \<Rightarrow> bool" where
  lr_new: "log_run (LoggerManager_new files)"
| lr_get: "log_run w \<Longrightarrow> log_run (getLogger n w)"
| lr_level: "log_run w \<Longrightarrow> log_run (Logger_setLevel v n w)"
| lr_formatter: "log_run w \<Longrightarrow> Logger_setFormatter_str v n w = Some w' \<Longrightarrow> log_run w'"
| lr_add: "log_run w \<Longrightarrow> add_defined n d w = Some w' \<Longrightarrow> log_run w'"
| lr_del: "log_run w \<Longrightarrow> log_run (delAppender a n w)"
| lr_clear: "log_run w \<Longrightarrow> log_run (clearAppenders n w)"
| lr_log: "log_run w \<Longrightarrow> Logger_log strftime n level event w = Some w' \<Longrightarrow> log_run w'"
| lr_config: "log_run w \<Longrightarrow> distinct (map ld_name new) \<Longrightarrow> logs_changed old new w = Some w' \<Longrightarrow> log_run w'"

lemma manager_ok: "logs_ok (LoggerManager_new files)"
proof -
  let ?w = "\<lparr>ls_appenders = (\<lambda>_. \<lparr>ap_file = None, ap_level = DEBUG, ap_hasFormatter = False, ap_formatter = None, ap_lastTime = 0\<rparr>), ls_next = 0,
    ls_loggers = [''root'' \<mapsto> Logger_new ''root'' False], ls_stdout = [], ls_files = files\<rparr>"
  have "logs_ok ?w" using LogFormatter_default by (simp add: logs_ok_def Logger_new_def)
  from create_extends(3,4)[OF this] add_extends[OF this] show ?thesis
    by (auto simp: LoggerManager_new_def Let_def split: prod.splits)
qed

lemma log_run_ok: "log_run w \<Longrightarrow> logs_ok w"
proof (induction rule: log_run.induct)
  case (lr_new files)
  show ?case by (rule manager_ok)
next
  case (lr_formatter w v n w')
  then show ?case by (blast intro: setFormatter_str_ok)
next
  case (lr_add w n d w')
  then show ?case using add_defined_view by blast
next
  case (lr_del w a n)
  show ?case unfolding delAppender_def by (rule upd_logger_ok[OF lr_del.IH]) (auto dest: notin_set_remove1 in_set_remove1[THEN iffD1] set_remove1_subset[THEN subsetD])
next
  case (lr_log w strftime n level event w')
  then show ?case using log_ok[of w strftime n level event] by auto
next
  case (lr_config w new old w')
  then show ?case using apply_new_view[OF lr_config.IH _ lr_config.hyps(2)] remove_all_view by (auto simp: logs_changed_def)
qed (auto intro: getLogger_ok setLevel_ok clear_ok)

text \<open>
  A changed configuration is applied: every logger that it defines, newly or in another way, has the level it asks for and the appenders
  of a known type in order, with their files and levels; every logger that it defined before and does not define any more lets
  everything through and has no appenders of its own; all other loggers keep their level and appenders.\<close>

theorem log_config_applied:
  assumes "log_run w" "logs_changed old new w = Some w'" "distinct (map ld_name new)"
  shows "view w' n =
    (case find_define n new of
       Some d \<Rightarrow> if unchanged old d then view w n else Some (define_view d)
     | None \<Rightarrow> if n \<in> ld_name ` set old then Some (UNKNOW, []) else view w n)"
proof -
  obtain w1 where w1: "apply_new old new w = Some w1" "w' = fold (remove_define new) old w1" using assms(2) by (auto simp: logs_changed_def)
  note a = apply_new_view[OF log_run_ok[OF assms(1)] w1(1) assms(3), of n]
  show ?thesis using remove_all_view[OF conjunct1[OF a], of new old n] conjunct2[OF a] w1(2) by (auto split: option.splits)
qed

definition system_log :: LogDefine where
  "system_log = \<lparr>ld_name = ''system'', ld_level = ERROR, ld_formatter = ''%m%n'', ld_appenders =
     [\<lparr>ad_type = 2, ad_level = WARN, ad_formatter = [], ad_file = []\<rparr>]\<rparr>"

lemma logs_changed_total:
  assumes "\<forall>d \<in> set new. (ld_formatter d = [] \<or> LogFormatter_new (ld_formatter d) \<noteq> None) \<and>
    (\<forall>a \<in> set (ld_appenders d). ad_formatter a = [] \<or> LogFormatter_new (ad_formatter a) \<noteq> None)"
  shows "\<exists>w'. logs_changed old new w = Some w'"
proof -
  have add: "\<exists>w'. add_all n ds w = Some w'" if "\<forall>a \<in> set ds. ad_formatter a = [] \<or> LogFormatter_new (ad_formatter a) \<noteq> None" for n ds w
    using that
  proof (induction ds arbitrary: w)
    case (Cons d ds)
    have "\<exists>w1. add_defined n d w = Some w1" using Cons.prems by (auto simp: add_defined_def Let_def split: prod.splits)
    then show ?case using Cons by auto
  qed simp
  have def: "\<exists>w'. apply_define d w = Some w'" if "d \<in> set new" for d w
    using assms that add by (fastforce simp: apply_define_def Logger_setFormatter_str_def Let_def split: option.splits)
  have "\<exists>w'. apply_new old ds w = Some w'" if "set ds \<subseteq> set new" for ds w
    using that
  proof (induction ds arbitrary: w)
    case (Cons d ds)
    obtain w1 where "apply_define d w = Some w1" using def[of d w] Cons.prems by auto
    then show ?case using Cons by (auto split: option.splits)
  qed simp
  from this[OF subset_refl] show ?thesis by (auto simp: logs_changed_def)
qed

theorem log_config_applied_witness:
  "\<exists>w'. logs_changed [] [system_log] (LoggerManager_new (\<lambda>_. [])) = Some w' \<and> view w' ''system'' = Some (ERROR, [(None, WARN)])"
proof -
  have f: "LogFormatter_new ''%m%n'' \<noteq> None" by code_simp
  have t: "\<forall>d \<in> set [system_log]. (ld_formatter d = [] \<or> LogFormatter_new (ld_formatter d) \<noteq> None) \<and>
    (\<forall>a \<in> set (ld_appenders d). ad_formatter a = [] \<or> LogFormatter_new (ad_formatter a) \<noteq> None)"
    using f by (simp add: system_log_def)
  obtain w' where w': "logs_changed [] [system_log] (LoggerManager_new (\<lambda>_. [])) = Some w'" using logs_changed_total[OF t] by blast
  have "distinct (map ld_name [system_log])" by simp
  from log_config_applied[OF lr_new w' this, of "''system''"] w' show ?thesis
    by (simp add: find_define_def system_log_def unchanged_def define_view_def appender_desc_def known_type_def)
qed


definition hello :: LogEvent where
  "hello = \<lparr>ev_file = ''main.cc'', ev_line = 7, ev_elapse = 0, ev_threadId = 1, ev_fiberId = 0, ev_time = 0, ev_threadName = ''main'',
     ev_content = ''hello'', ev_logger = ''root'', ev_level = INFO\<rparr>"


section \<open>What is lost\<close>

text \<open>When at least three seconds have passed since a file appender opened its file, the next event empties it.\<close>

lemma file_log_truncated:
  assumes "ap_file (ls_appenders w a) = Some fn" "ap_formatter (ls_appenders w a) = Some f"
    "ap_lastTime (ls_appenders w a) + 3 \<le> ev_time event" "ap_level (ls_appenders w a) \<le> level"
  shows "\<exists>w'. appender_log strftime level event a w = Some w' \<and> ls_files w' fn = LogFormatter_format strftime level event f"
  using assms by (simp add: appender_log_def Let_def reopen_def upd_appender_def not_less[symmetric])

text \<open>A change of the appenders alone is not noticed.\<close>

lemma appender_change_ignored: "LogDefine_eq (d\<lparr>ld_appenders := as\<rparr>) d"
  by (simp add: LogDefine_eq_def)

end
