(* ===== verification/ConfigCast.thy ===== *)
theory ConfigCast
  imports Config Address
begin

text \<open>
  The conversions between configuration values and text of \<open>config.h\<close>, \<open>LexicalCast\<close>, for the containers of the standard library. The library
  yaml-cpp is an argument: what its parser and its printer give, and what an index into a map node gives. The conversions of the elements are
  arguments as well, so that containers nest. \<open>None\<close> is an exception.
\<close>

section \<open>The YAML library\<close>

record yaml_lib =
  yl_load :: "string \<Rightarrow> yaml option"
  yl_print :: "yaml \<Rightarrow> string"
  yl_map_index :: "(string \<times> yaml) list \<Rightarrow> nat \<Rightarrow> yaml option"

fun node_size :: "yaml \<Rightarrow> nat" where
  "node_size (Sequence ns) = length ns"
| "node_size (Map_node kvs) = length kvs"
| "node_size _ = 0"

text \<open>\<open>node[i]\<close> with an index below the size.\<close>

fun node_at :: "yaml_lib \<Rightarrow> yaml \<Rightarrow> nat \<Rightarrow> yaml option" where
  "node_at lib (Sequence ns) i = Some (ns ! i)"
| "node_at lib (Map_node kvs) i = yl_map_index lib kvs i"
| "node_at lib _ i = None"

section \<open>From text\<close>

text \<open>The loop over the elements of a node, as the conversions to vectors, lists and sets share it: each element is printed and converted.\<close>

definition read_elements :: "yaml_lib \<Rightarrow> (string \<Rightarrow> 'a option) \<Rightarrow> string \<Rightarrow> 'a list option" where
  "read_elements lib from v =
     Option.bind (yl_load lib v) (\<lambda>node.
       those (map (\<lambda>i. Option.bind (node_at lib node i) (\<lambda>n. from (yl_print lib n))) [0..<node_size node]))"

definition vector_of_string :: "yaml_lib \<Rightarrow> (string \<Rightarrow> 'a option) \<Rightarrow> string \<Rightarrow> 'a list option" where
  "vector_of_string lib from v = read_elements lib from v"

definition list_of_string :: "yaml_lib \<Rightarrow> (string \<Rightarrow> 'a option) \<Rightarrow> string \<Rightarrow> 'a list option" where
  "list_of_string lib from v = read_elements lib from v"

text \<open>A \<open>std::set\<close> under the order of its type; an unordered set is its contents.\<close>

definition set_of_string :: "'a comparator \<Rightarrow> yaml_lib \<Rightarrow> (string \<Rightarrow> 'a option) \<Rightarrow> string \<Rightarrow> ('a, unit) omap option" where
  "set_of_string lt lib from v = map_option (\<lambda>xs. fold (\<lambda>x s. map_insert lt x () s) xs []) (read_elements lib from v)"

definition unordered_set_of_string :: "yaml_lib \<Rightarrow> (string \<Rightarrow> 'a option) \<Rightarrow> string \<Rightarrow> 'a set option" where
  "unordered_set_of_string lib from v = map_option set (read_elements lib from v)"

text \<open>
  The members of a map node in the order of the document. The iterator of a sequence has no \<open>first\<close>: using it throws.
\<close>

definition read_members :: "yaml_lib \<Rightarrow> (string \<Rightarrow> 'a option) \<Rightarrow> string \<Rightarrow> (string \<times> 'a) list option" where
  "read_members lib from v =
     Option.bind (yl_load lib v) (\<lambda>node.
       case node of
         Map_node kvs \<Rightarrow> those (map (\<lambda>(k, n). map_option (Pair k) (from (yl_print lib n))) kvs)
       | Sequence ns \<Rightarrow> if ns = [] then Some [] else None
       | _ \<Rightarrow> Some [])"

definition map_of_string :: "yaml_lib \<Rightarrow> (string \<Rightarrow> 'a option) \<Rightarrow> string \<Rightarrow> (string, 'a) omap option" where
  "map_of_string lib from v = map_option (\<lambda>kvs. fold (\<lambda>(k, x) m. map_insert string_less k x m) kvs []) (read_members lib from v)"

text \<open>Inserting into an unordered map keeps the first value of a key.\<close>

definition unordered_map_of_string :: "yaml_lib \<Rightarrow> (string \<Rightarrow> 'a option) \<Rightarrow> string \<Rightarrow> (string \<Rightarrow> 'a option) option" where
  "unordered_map_of_string lib from v =
     map_option (\<lambda>kvs. fold (\<lambda>(k, x) m. if m k = None then m(k \<mapsto> x) else m) kvs (\<lambda>_. None)) (read_members lib from v)"

section \<open>To text\<close>

text \<open>The node that is built from the elements; an unordered container is given in the order of its iteration.\<close>

definition sequence_node :: "yaml_lib \<Rightarrow> ('a \<Rightarrow> string option) \<Rightarrow> 'a list \<Rightarrow> yaml option" where
  "sequence_node lib to xs = map_option Sequence (those (map (\<lambda>x. Option.bind (to x) (yl_load lib)) xs))"

definition string_of_vector :: "yaml_lib \<Rightarrow> ('a \<Rightarrow> string option) \<Rightarrow> 'a list \<Rightarrow> string option" where
  "string_of_vector lib to v = map_option (yl_print lib) (sequence_node lib to v)"

definition string_of_list :: "yaml_lib \<Rightarrow> ('a \<Rightarrow> string option) \<Rightarrow> 'a list \<Rightarrow> string option" where
  "string_of_list lib to v = map_option (yl_print lib) (sequence_node lib to v)"

definition string_of_set :: "yaml_lib \<Rightarrow> ('a \<Rightarrow> string option) \<Rightarrow> ('a, unit) omap \<Rightarrow> string option" where
  "string_of_set lib to v = map_option (yl_print lib) (sequence_node lib to (map fst v))"

definition string_of_unordered_set :: "yaml_lib \<Rightarrow> ('a \<Rightarrow> string option) \<Rightarrow> 'a list \<Rightarrow> string option" where
  "string_of_unordered_set lib to v = map_option (yl_print lib) (sequence_node lib to v)"

text \<open>\<open>node[key] = value\<close>.\<close>

fun put_member :: "string \<Rightarrow> yaml \<Rightarrow> (string \<times> yaml) list \<Rightarrow> (string \<times> yaml) list" where
  "put_member k n [] = [(k, n)]"
| "put_member k n ((j, m) # kvs) = (if j = k then (j, n) # kvs else (j, m) # put_member k n kvs)"

definition map_node :: "yaml_lib \<Rightarrow> ('a \<Rightarrow> string option) \<Rightarrow> (string \<times> 'a) list \<Rightarrow> yaml option" where
  "map_node lib to v =
     map_option (\<lambda>kns. Map_node (fold (\<lambda>(k, n) kvs. put_member k n kvs) kns []))
       (those (map (\<lambda>(k, x). map_option (Pair k) (Option.bind (to x) (yl_load lib))) v))"

definition string_of_map :: "yaml_lib \<Rightarrow> ('a \<Rightarrow> string option) \<Rightarrow> (string, 'a) omap \<Rightarrow> string option" where
  "string_of_map lib to v = map_option (yl_print lib) (map_node lib to v)"

definition string_of_unordered_map :: "yaml_lib \<Rightarrow> ('a \<Rightarrow> string option) \<Rightarrow> (string \<times> 'a) list \<Rightarrow> string option" where
  "string_of_unordered_map lib to v = map_option (yl_print lib) (map_node lib to v)"

section \<open>Round trips\<close>

text \<open>
  A value survives its way through a document: its text is parsed as a node, and the text that is printed for this node is converted back to it.
  A node is kept by the library when its text is parsed as this node.
\<close>

definition castable :: "yaml_lib \<Rightarrow> ('a \<Rightarrow> string option) \<Rightarrow> (string \<Rightarrow> 'a option) \<Rightarrow> 'a \<Rightarrow> bool" where
  "castable lib to from x \<longleftrightarrow> (\<exists>s n. to x = Some s \<and> yl_load lib s = Some n \<and> from (yl_print lib n) = Some x)"

definition reloads :: "yaml_lib \<Rightarrow> yaml option \<Rightarrow> bool" where
  "reloads lib n \<longleftrightarrow> Option.bind (map_option (yl_print lib) n) (yl_load lib) = n"

lemma those_eq: "(\<forall>x \<in> set xs. f x = Some (g x)) \<Longrightarrow> those (map f xs) = Some (map g xs)"
  by (induction xs) auto

lemma castable_node:
  assumes "\<forall>x \<in> set xs. castable lib to from x"
  shows "\<exists>g. \<forall>x \<in> set xs. Option.bind (to x) (yl_load lib) = Some (g x) \<and> from (yl_print lib (g x)) = Some x"
proof -
  have "\<forall>x \<in> set xs. \<exists>n. Option.bind (to x) (yl_load lib) = Some n \<and> from (yl_print lib n) = Some x"
    using assms by (fastforce simp: castable_def)
  then show ?thesis by (rule bchoice)
qed

lemma elements_roundtrip:
  assumes "\<forall>x \<in> set xs. castable lib to from x" "reloads lib (sequence_node lib to xs)"
  shows "\<exists>ns. sequence_node lib to xs = Some (Sequence ns) \<and> yl_load lib (yl_print lib (Sequence ns)) = Some (Sequence ns) \<and>
    read_elements lib from (yl_print lib (Sequence ns)) = Some xs"
proof -
  obtain g where g: "\<forall>x \<in> set xs. Option.bind (to x) (yl_load lib) = Some (g x) \<and> from (yl_print lib (g x)) = Some x"
    using castable_node[OF assms(1)] by blast
  then have node: "sequence_node lib to xs = Some (Sequence (map g xs))"
    by (simp add: sequence_node_def those_eq[where g = g])
  then have load: "yl_load lib (yl_print lib (Sequence (map g xs))) = Some (Sequence (map g xs))"
    using assms(2) by (simp add: reloads_def)
  have "those (map (\<lambda>i. from (yl_print lib (map g xs ! i))) [0..<length xs]) = Some (map (\<lambda>i. xs ! i) [0..<length xs])"
    using g by (intro those_eq) simp
  then have "read_elements lib from (yl_print lib (Sequence (map g xs))) = Some xs"
    by (simp add: read_elements_def load map_nth)
  then show ?thesis using node load by blast
qed

lemma insert_above: "\<forall>e \<in> set m. lt (fst e) k \<and> \<not> lt k (fst e) \<Longrightarrow> map_insert lt k v m = m @ [(k, v)]"
  by (induction m) auto

lemma insert_sorted:
  assumes "ordered_keys lt"
  shows "map_sorted lt (acc @ m) \<Longrightarrow> fold (\<lambda>(k, v) s. map_insert lt k v s) m acc = acc @ m"
proof (induction m arbitrary: acc rule: omap_induct)
  case (Cons k v m)
  have "\<forall>e \<in> set acc. lt (fst e) k" using Cons.prems by (induction acc rule: omap_induct) auto
  then have "map_insert lt k v acc = acc @ [(k, v)]" using ordered_keys.asym[OF assms] by (intro insert_above) blast
  then show ?case using Cons.IH[of "acc @ [(k, v)]"] Cons.prems by simp
qed simp

lemma put_members:
  "distinct (map fst (acc @ kns)) \<Longrightarrow> fold (\<lambda>(k, n) kvs. put_member k n kvs) kns acc = acc @ kns"
proof (induction kns arbitrary: acc rule: omap_induct)
  case (Cons k n kns)
  have "put_member k n acc = acc @ [(k, n)]" if "k \<notin> fst ` set acc" using that by (induction acc rule: omap_induct) auto
  then show ?case using Cons.IH[of "acc @ [(k, n)]"] Cons.prems by simp
qed simp

lemma members_roundtrip:
  assumes "\<forall>(k, x) \<in> set v. castable lib to from x" "distinct (map fst v)" "reloads lib (map_node lib to v)"
  shows "\<exists>kvs. map_node lib to v = Some (Map_node kvs) \<and> yl_load lib (yl_print lib (Map_node kvs)) = Some (Map_node kvs) \<and>
    read_members lib from (yl_print lib (Map_node kvs)) = Some v"
proof -
  have "\<forall>x \<in> set (map snd v). castable lib to from x" using assms(1) by auto
  then obtain g where g: "\<forall>x \<in> set (map snd v). Option.bind (to x) (yl_load lib) = Some (g x) \<and> from (yl_print lib (g x)) = Some x"
    using castable_node by blast
  let ?kns = "map (\<lambda>(k, x). (k, g x)) v"
  have "those (map (\<lambda>(k, x). map_option (Pair k) (Option.bind (to x) (yl_load lib))) v) = Some ?kns"
    using g by (intro those_eq) force
  moreover have keys: "map fst ?kns = map fst v" by (simp add: case_prod_beta comp_def)
  have "fold (\<lambda>(k, n) kvs. put_member k n kvs) ?kns [] = [] @ ?kns"
    by (rule put_members) (simp only: append_Nil keys assms(2))
  ultimately have node: "map_node lib to v = Some (Map_node ?kns)" by (simp add: map_node_def)
  then have load: "yl_load lib (yl_print lib (Map_node ?kns)) = Some (Map_node ?kns)" using assms(3) by (simp add: reloads_def)
  have "those (map (\<lambda>e. map_option (Pair (fst e)) (from (yl_print lib (g (snd e))))) v) = Some (map (\<lambda>e. e) v)"
    using g by (intro those_eq) force
  then have "read_members lib from (yl_print lib (Map_node ?kns)) = Some v"
    by (simp add: read_members_def load comp_def case_prod_beta)
  then show ?thesis using node load by blast
qed

lemma first_values:
  "distinct (map fst kvs) \<Longrightarrow> (\<forall>k \<in> fst ` set kvs. m k = None) \<Longrightarrow>
   fold (\<lambda>(k, x) m. if m k = None then m(k \<mapsto> x) else m) kvs m = m ++ map_of kvs"
proof (induction kvs arbitrary: m rule: omap_induct)
  case (Cons k x kvs)
  have "m(k \<mapsto> x) ++ map_of kvs = m ++ map_of ((k, x) # kvs)"
    using Cons.prems(1) by (simp add: map_add_upd_left dom_map_of_conv_image_fst)
  moreover have "\<forall>j \<in> fst ` set kvs. (m(k \<mapsto> x)) j = None" using Cons.prems by auto
  ultimately show ?case using Cons.IH[of "m(k \<mapsto> x)"] Cons.prems by (simp del: fun_upd_apply)
qed simp

interpretation string_keys: ordered_keys string_less
proof
  fix a b c :: string
  show "\<not> string_less a b \<Longrightarrow> \<not> string_less b a \<Longrightarrow> \<not> string_less b c \<Longrightarrow> \<not> string_less c b \<Longrightarrow> \<not> string_less a c"
    using string_less_order(1,3) by metis
qed (use string_less_order in blast)+

lemma string_sorted_distinct: "map_sorted string_less m \<Longrightarrow> distinct (map fst m)"
  by (induction m rule: omap_induct) (use string_keys.irrefl in fastforce)+

lemma set_roundtrip:
  assumes "ordered_keys lt" "map_sorted lt s"
  shows "fold (\<lambda>x s. map_insert lt x () s) (map fst s) [] = s"
proof -
  have "fold (\<lambda>x s. map_insert lt x () s) (map fst m) acc = fold (\<lambda>(k, v) s. map_insert lt k v s) m acc" for m :: "('a, unit) omap" and acc
    by (induction m arbitrary: acc rule: omap_induct) auto
  then show ?thesis using insert_sorted[OF assms(1), of "[]" s] assms(2) by simp
qed


definition tiny_yaml :: yaml_lib where
  "tiny_yaml = \<lparr>
     yl_load = (\<lambda>s. Some (if s = ''[a, b]'' then Sequence [Scalar ''a'', Scalar ''b''] else if s = ''{k: a}'' then Map_node [(''k'', Scalar ''a'')] else Scalar s)),
     yl_print = (\<lambda>n. case n of Scalar s \<Rightarrow> s | Sequence _ \<Rightarrow> ''[a, b]'' | Map_node _ \<Rightarrow> ''{k: a}'' | Yaml_null \<Rightarrow> ''~''),
     yl_map_index = (\<lambda>_ _. None)\<rparr>"


section \<open>What is not a list\<close>

text \<open>A scalar is read as an empty container, without an error, and a sequence is not read as a map.\<close>

lemma scalar_is_empty:
  "yl_load lib v = Some (Scalar s) \<Longrightarrow> vector_of_string lib from v = Some [] \<and> map_of_string lib from v = Some []"
  by (simp add: vector_of_string_def map_of_string_def read_elements_def read_members_def)

lemma sequence_is_no_map: "yl_load lib v = Some (Sequence (n # ns)) \<Longrightarrow> map_of_string lib from v = None"
  by (simp add: map_of_string_def read_members_def)

end
