(* ===== verification/LogYaml.thy ===== *)
theory LogYaml
  imports Logger ConfigCast
begin

text \<open>
  The documents that loggers, appenders and their manager print of themselves, \<open>toYamlString\<close> in \<open>log.cc\<close>, and how the configuration variable
  \<open>logs\<close>, a set of log definitions, reads them. yaml-cpp is the record \<open>yaml_lib\<close>; parts are printed and parsed again before they are put into the
  whole, as in the source.
\<close>

section \<open>Documents\<close>

definition appender_node :: "LogAppender \<Rightarrow> yaml" where
  "appender_node ap = Map_node
     ((case ap_file ap of Some fname \<Rightarrow> [(''type'', Scalar ''FileLogAppender''), (''file'', Scalar fname)]
       | None \<Rightarrow> [(''type'', Scalar ''StdoutLogAppender'')]) @
      (if ap_level ap \<noteq> UNKNOW then [(''level'', Scalar (LogLevel_ToString (ap_level ap)))] else []) @
      (case ap_formatter ap of Some f \<Rightarrow> if ap_hasFormatter ap then [(''formatter'', Scalar (lf_pattern f))] else [] | None \<Rightarrow> []))"

definition appender_toYamlString :: "yaml_lib \<Rightarrow> LogAppender \<Rightarrow> string" where
  "appender_toYamlString lib ap = yl_print lib (appender_node ap)"

definition logger_node :: "yaml_lib \<Rightarrow> (nat \<Rightarrow> LogAppender) \<Rightarrow> Logger \<Rightarrow> yaml option" where
  "logger_node lib aps l =
     map_option (\<lambda>ns. Map_node
       ([(''name'', Scalar (lg_name l))] @
        (if lg_level l \<noteq> UNKNOW then [(''level'', Scalar (LogLevel_ToString (lg_level l)))] else []) @
        (case lg_formatter l of Some f \<Rightarrow> [(''formatter'', Scalar (lf_pattern f))] | None \<Rightarrow> []) @
        (if ns \<noteq> [] then [(''appenders'', Sequence ns)] else [])))
       (those (map (\<lambda>a. yl_load lib (appender_toYamlString lib (aps a))) (lg_appenders l)))"

definition logger_toYamlString :: "yaml_lib \<Rightarrow> (nat \<Rightarrow> LogAppender) \<Rightarrow> Logger \<Rightarrow> string option" where
  "logger_toYamlString lib aps l = map_option (yl_print lib) (logger_node lib aps l)"

text \<open>The loggers of the manager in the order of their names.\<close>

definition manager_node :: "yaml_lib \<Rightarrow> (nat \<Rightarrow> LogAppender) \<Rightarrow> Logger list \<Rightarrow> yaml option" where
  "manager_node lib aps ls =
     map_option (\<lambda>ns. if ns = [] then Yaml_null else Sequence ns)
       (those (map (\<lambda>l. Option.bind (logger_toYamlString lib aps l) (yl_load lib)) ls))"

definition manager_toYamlString :: "yaml_lib \<Rightarrow> (nat \<Rightarrow> LogAppender) \<Rightarrow> Logger list \<Rightarrow> string option" where
  "manager_toYamlString lib aps ls = map_option (yl_print lib) (manager_node lib aps ls)"

text \<open>The conversions of the variable \<open>logs\<close>: log definitions are ordered by name.\<close>

definition LogDefine_less :: "LogDefine comparator" where
  "LogDefine_less a b \<longleftrightarrow> string_less (ld_name a) (ld_name b)"

definition define_of_string :: "yaml_lib \<Rightarrow> (yaml \<Rightarrow> string option) \<Rightarrow> string \<Rightarrow> LogDefine option" where
  "define_of_string lib as v = Option.bind (yl_load lib v) (define_of_yaml as)"

definition logs_of_string :: "yaml_lib \<Rightarrow> (yaml \<Rightarrow> string option) \<Rightarrow> string \<Rightarrow> (LogDefine, unit) omap option" where
  "logs_of_string lib as v = set_of_string LogDefine_less lib (define_of_string lib as) v"

section \<open>What is read of them\<close>

text \<open>The definition of a logger: everything but the levels of its appenders.\<close>

definition appender_define :: "LogAppender \<Rightarrow> LogAppenderDefine" where
  "appender_define ap =
     \<lparr>ad_type = (if ap_file ap = None then 2 else 1), ad_level = UNKNOW,
      ad_formatter = (case ap_formatter ap of Some f \<Rightarrow> if ap_hasFormatter ap then lf_pattern f else [] | None \<Rightarrow> []),
      ad_file = (case ap_file ap of Some fname \<Rightarrow> fname | None \<Rightarrow> [])\<rparr>"

definition logger_define :: "(nat \<Rightarrow> LogAppender) \<Rightarrow> Logger \<Rightarrow> LogDefine" where
  "logger_define aps l =
     \<lparr>ld_name = lg_name l, ld_level = lg_level l, ld_formatter = (case lg_formatter l of Some f \<Rightarrow> lf_pattern f | None \<Rightarrow> []),
      ld_appenders = map (\<lambda>a. appender_define (aps a)) (lg_appenders l)\<rparr>"

lemma appender_node_define:
  assumes "\<And>s. as (Scalar s) = Some s"
  shows "appender_of_yaml as (appender_node ap) = Some (Some (appender_define ap))"
  using assms by (auto simp: appender_of_yaml_def appender_node_def appender_define_def optional_string_def split: option.splits)

lemma appender_nodes_define:
  assumes "\<And>s. as (Scalar s) = Some s"
  shows "appenders_of_yaml as (map appender_node aps) = Some (map appender_define aps)"
  by (induction aps) (simp_all add: appender_node_define[OF assms])

lemma logger_node_define:
  assumes "\<And>s. as (Scalar s) = Some s" "\<forall>a \<in> set (lg_appenders l). reloads lib (Some (appender_node (aps a)))"
  shows "\<exists>n. logger_node lib aps l = Some n \<and> define_of_yaml as n = Some (logger_define aps l)"
proof -
  let ?ns = "map (\<lambda>a. appender_node (aps a)) (lg_appenders l)"
  have "those (map (\<lambda>a. yl_load lib (appender_toYamlString lib (aps a))) (lg_appenders l)) = Some ?ns"
    using assms(2) by (intro those_eq) (simp add: reloads_def appender_toYamlString_def)
  moreover have "appenders_of_yaml as ?ns = Some (map (\<lambda>a. appender_define (aps a)) (lg_appenders l))"
    using appender_nodes_define[OF assms(1), of "map aps (lg_appenders l)"] by (simp add: comp_def)
  moreover have "LogLevel_FromString [] = UNKNOW" by (simp add: LogLevel_FromString_def)
  ultimately show ?thesis using assms(1)
    by (auto simp: logger_node_def logger_define_def define_of_yaml_def optional_string_def level_names split: option.splits)
qed

lemma manager_elements:
  assumes "\<And>s. as (Scalar s) = Some s" "\<forall>l \<in> set ls. (\<forall>a \<in> set (lg_appenders l). reloads lib (Some (appender_node (aps a)))) \<and> reloads lib (logger_node lib aps l)"
    and "reloads lib (manager_node lib aps ls)"
  shows "Option.bind (manager_toYamlString lib aps ls) (read_elements lib (define_of_string lib as)) = Some (map (logger_define aps) ls)"
proof -
  have "\<exists>n. logger_node lib aps l = Some n \<and> define_of_yaml as n = Some (logger_define aps l)" if "l \<in> set ls" for l
    using logger_node_define[where as = as and lib = lib and aps = aps and l = l, OF assms(1)] assms(2) that by blast
  then obtain g where g: "\<forall>l \<in> set ls. logger_node lib aps l = Some (g l) \<and> define_of_yaml as (g l) = Some (logger_define aps l)"
    using bchoice[of "set ls" "\<lambda>l n. logger_node lib aps l = Some n \<and> define_of_yaml as n = Some (logger_define aps l)"] by blast
  have load: "yl_load lib (yl_print lib (g l)) = Some (g l)" if "l \<in> set ls" for l
    using g assms(2) that by (auto simp: reloads_def)
  have "those (map (\<lambda>l. Option.bind (logger_toYamlString lib aps l) (yl_load lib)) ls) = Some (map g ls)"
    using g load by (intro those_eq) (simp add: logger_toYamlString_def)
  then have node: "manager_node lib aps ls = Some (if ls = [] then Yaml_null else Sequence (map g ls))" by (simp add: manager_node_def)
  have again: "yl_load lib (yl_print lib (if ls = [] then Yaml_null else Sequence (map g ls))) = manager_node lib aps ls"
    using assms(3) node by (simp add: reloads_def)
  have "those (map (\<lambda>i. define_of_string lib as (yl_print lib (map g ls ! i))) [0..<length ls]) = Some (map (\<lambda>i. logger_define aps (ls ! i)) [0..<length ls])"
    using g load by (intro those_eq) (simp add: define_of_string_def)
  moreover have "map (\<lambda>i. logger_define aps (ls ! i)) [0..<length ls] = map (logger_define aps) ls" by (intro nth_equalityI) simp_all
  ultimately show ?thesis using node again by (auto simp: manager_toYamlString_def read_elements_def)
qed

lemma define_keys: "ordered_keys LogDefine_less"
proof
  fix a b c :: LogDefine
  show "\<not> LogDefine_less a b \<Longrightarrow> \<not> LogDefine_less b a \<Longrightarrow> \<not> LogDefine_less b c \<Longrightarrow> \<not> LogDefine_less c b \<Longrightarrow> \<not> LogDefine_less a c"
    unfolding LogDefine_less_def by (rule string_keys.incomparable_trans)
  show "LogDefine_less a b \<Longrightarrow> LogDefine_less b c \<Longrightarrow> LogDefine_less a c"
    unfolding LogDefine_less_def by (rule string_keys.trans)
qed (simp add: LogDefine_less_def string_keys.irrefl)

text \<open>
  C22: The document that the manager of the loggers prints is a valid value of the configuration variable for logs: read back, it gives one definition per
  logger, in the order of their names, with its name, level, pattern and appenders; only the levels of the appenders are lost. This holds for a
  library that parses the printed nodes as these nodes and converts scalars to their text.\<close>

theorem logs_document:
  assumes "\<And>s. as (Scalar s) = Some s"
    and "\<forall>l \<in> set ls. (\<forall>a \<in> set (lg_appenders l). reloads lib (Some (appender_node (aps a)))) \<and> reloads lib (logger_node lib aps l)"
    and "reloads lib (manager_node lib aps ls)" "sorted_wrt string_less (map lg_name ls)"
  shows "Option.bind (manager_toYamlString lib aps ls) (logs_of_string lib as) = Some (map (\<lambda>l. (logger_define aps l, ())) ls)"
proof -
  let ?s = "map (\<lambda>l. (logger_define aps l, ())) ls"
  have "map_sorted LogDefine_less ?s"
    using assms(4) by (induction ls) (auto simp: LogDefine_less_def logger_define_def)
  then have "fold (\<lambda>x s. map_insert LogDefine_less x () s) (map fst ?s) [] = ?s" by (rule set_roundtrip[OF define_keys])
  then have ins: "fold (\<lambda>x s. map_insert LogDefine_less x () s) (map (logger_define aps) ls) [] = ?s" by (simp add: comp_def)
  obtain v where v: "manager_toYamlString lib aps ls = Some v" "read_elements lib (define_of_string lib as) v = Some (map (logger_define aps) ls)"
    using manager_elements[OF assms(1,2,3)] by (auto simp: bind_eq_Some_conv)
  show ?thesis using v ins by (simp add: logs_of_string_def set_of_string_def)
qed

definition quiet_logger :: Logger where
  "quiet_logger = \<lparr>lg_name = ''root'', lg_level = WARN, lg_appenders = [], lg_formatter = None, lg_hasRoot = False\<rparr>"

definition log_yaml :: yaml_lib where
  "log_yaml = \<lparr>
     yl_load = (\<lambda>s. Some (if s = ''- root'' then Sequence [Map_node [(''name'', Scalar ''root''), (''level'', Scalar ''WARN'')]]
                           else Map_node [(''name'', Scalar ''root''), (''level'', Scalar ''WARN'')])),
     yl_print = (\<lambda>n. case n of Sequence _ \<Rightarrow> ''- root'' | _ \<Rightarrow> ''root''),
     yl_map_index = (\<lambda>_ _. None)\<rparr>"

lemma log_yaml_simps:
  "yl_load log_yaml s = Some (if s = ''- root'' then Sequence [Map_node [(''name'', Scalar ''root''), (''level'', Scalar ''WARN'')]]
     else Map_node [(''name'', Scalar ''root''), (''level'', Scalar ''WARN'')])"
  "yl_print log_yaml (Sequence ns) = ''- root''" "yl_print log_yaml (Map_node kvs) = ''root''"
  by (simp_all add: log_yaml_def)

definition plain_appenders :: "nat \<Rightarrow> LogAppender" where
  "plain_appenders _ = \<lparr>ap_file = None, ap_level = DEBUG, ap_hasFormatter = False, ap_formatter = None, ap_lastTime = 0\<rparr>"

theorem logs_document_witness:
  "Option.bind (manager_toYamlString log_yaml plain_appenders [quiet_logger]) (logs_of_string log_yaml (\<lambda>n. case n of Scalar s \<Rightarrow> Some s | _ \<Rightarrow> None)) =
   Some [(\<lparr>ld_name = ''root'', ld_level = WARN, ld_formatter = [], ld_appenders = []\<rparr>, ())]"
proof -
  have node: "logger_node log_yaml plain_appenders quiet_logger = Some (Map_node [(''name'', Scalar ''root''), (''level'', Scalar ''WARN'')])"
    by (simp add: logger_node_def quiet_logger_def)
  have "reloads log_yaml (logger_node log_yaml plain_appenders quiet_logger)" by (simp add: node reloads_def log_yaml_simps)
  moreover have "reloads log_yaml (manager_node log_yaml plain_appenders [quiet_logger])"
    by (simp add: manager_node_def logger_toYamlString_def node reloads_def log_yaml_simps)
  ultimately show ?thesis
    using logs_document[of "\<lambda>n. case n of Scalar s \<Rightarrow> Some s | _ \<Rightarrow> None" "[quiet_logger]" log_yaml plain_appenders]
    by (simp add: logger_define_def quiet_logger_def)
qed

end
