(* ===== verification/LogStatement.thy ===== *)
theory LogStatement
  imports Logger
begin

text \<open>
  Logging statements: the macros of \<open>log.h\<close>, which test the level of the logger, build an event, stream pieces of text into it or format one, and
  hand it to its logger when the temporary wrapper is destroyed at the end of the statement (\<open>LogEventWrap\<close> in \<open>log.cc\<close>).
\<close>

section \<open>Events\<close>

text \<open>Where the statement stands and who runs it.\<close>

record log_site =
  si_file :: string
  si_line :: int
  si_threadId :: u32
  si_fiberId :: u32
  si_time :: u64
  si_threadName :: string

definition LogEvent_new :: "string \<Rightarrow> LogLevel \<Rightarrow> log_site \<Rightarrow> LogEvent" where
  "LogEvent_new name level site =
     \<lparr>ev_file = si_file site, ev_line = si_line site, ev_elapse = 0, ev_threadId = si_threadId site, ev_fiberId = si_fiberId site,
      ev_time = si_time site, ev_threadName = si_threadName site, ev_content = [], ev_logger = name, ev_level = level\<rparr>"

definition LogEvent_stream :: "string \<Rightarrow> LogEvent \<Rightarrow> LogEvent" where
  "LogEvent_stream s event = event\<lparr>ev_content := ev_content event @ s\<rparr>"

text \<open>\<open>formatted\<close> is what \<open>vasprintf\<close> gives, \<open>None\<close> when it fails.\<close>

definition LogEvent_format :: "string option \<Rightarrow> LogEvent \<Rightarrow> LogEvent" where
  "LogEvent_format formatted event = (case formatted of None \<Rightarrow> event | Some s \<Rightarrow> event\<lparr>ev_content := ev_content event @ s\<rparr>)"

text \<open>The destructor of the wrapper.\<close>

definition LogEventWrap_delete :: "(string \<Rightarrow> u64 \<Rightarrow> string) \<Rightarrow> LogEvent \<Rightarrow> logs \<Rightarrow> logs option" where
  "LogEventWrap_delete strftime event w = Logger_log strftime (ev_logger event) (ev_level event) event w"

definition Logger_getLevel :: "string \<Rightarrow> logs \<Rightarrow> LogLevel" where
  "Logger_getLevel name w = (case ls_loggers w name of Some l \<Rightarrow> lg_level l | None \<Rightarrow> UNKNOW)"

section \<open>Statements\<close>

text \<open>The pieces are functions of the state of the program: they are only evaluated when the test of the level succeeds.\<close>

definition SYLAR_LOG_LEVEL :: "(string \<Rightarrow> u64 \<Rightarrow> string) \<Rightarrow> log_site \<Rightarrow> string \<Rightarrow> LogLevel \<Rightarrow> string list \<Rightarrow> logs \<Rightarrow> logs option" where
  "SYLAR_LOG_LEVEL strftime site name level pieces w =
     (if Logger_getLevel name w \<le> level then LogEventWrap_delete strftime (fold LogEvent_stream pieces (LogEvent_new name level site)) w else Some w)"

definition SYLAR_LOG_FMT_LEVEL :: "(string \<Rightarrow> u64 \<Rightarrow> string) \<Rightarrow> log_site \<Rightarrow> string \<Rightarrow> LogLevel \<Rightarrow> string option \<Rightarrow> logs \<Rightarrow> logs option" where
  "SYLAR_LOG_FMT_LEVEL strftime site name level formatted w =
     (if Logger_getLevel name w \<le> level then LogEventWrap_delete strftime (LogEvent_format formatted (LogEvent_new name level site)) w else Some w)"

text \<open>The methods of the logger that fix the level.\<close>

definition Logger_debug :: "(string \<Rightarrow> u64 \<Rightarrow> string) \<Rightarrow> string \<Rightarrow> LogEvent \<Rightarrow> logs \<Rightarrow> logs option" where
  "Logger_debug strftime name event w = Logger_log strftime name DEBUG event w"

definition Logger_info :: "(string \<Rightarrow> u64 \<Rightarrow> string) \<Rightarrow> string \<Rightarrow> LogEvent \<Rightarrow> logs \<Rightarrow> logs option" where
  "Logger_info strftime name event w = Logger_log strftime name INFO event w"

definition Logger_warn :: "(string \<Rightarrow> u64 \<Rightarrow> string) \<Rightarrow> string \<Rightarrow> LogEvent \<Rightarrow> logs \<Rightarrow> logs option" where
  "Logger_warn strftime name event w = Logger_log strftime name WARN event w"

definition Logger_error :: "(string \<Rightarrow> u64 \<Rightarrow> string) \<Rightarrow> string \<Rightarrow> LogEvent \<Rightarrow> logs \<Rightarrow> logs option" where
  "Logger_error strftime name event w = Logger_log strftime name ERROR event w"

definition Logger_fatal :: "(string \<Rightarrow> u64 \<Rightarrow> string) \<Rightarrow> string \<Rightarrow> LogEvent \<Rightarrow> logs \<Rightarrow> logs option" where
  "Logger_fatal strftime name event w = Logger_log strftime name FATAL event w"

lemma streamed: "fold LogEvent_stream pieces event = event\<lparr>ev_content := ev_content event @ concat pieces\<rparr>"
  by (induction pieces arbitrary: event) (simp_all add: LogEvent_stream_def)

text \<open>
  The test of the level in the macros only saves work: a statement on a known logger does exactly what handing the finished event to the logger
  would do, with all pieces in order as its content, at the place and level of the statement; below the level of the logger nothing is written.\<close>

theorem statement_equals_log:
  assumes "ls_loggers w name = Some l"
  shows "SYLAR_LOG_LEVEL strftime site name level pieces w =
      Logger_log strftime name level ((LogEvent_new name level site)\<lparr>ev_content := concat pieces\<rparr>) w \<and>
    SYLAR_LOG_FMT_LEVEL strftime site name level (Some s) w =
      Logger_log strftime name level ((LogEvent_new name level site)\<lparr>ev_content := s\<rparr>) w \<and>
    (level < lg_level l \<longrightarrow> SYLAR_LOG_LEVEL strftime site name level pieces w = Some w)"
proof (cases "lg_level l \<le> level")
  case True
  then have "\<not> level < lg_level l" by simp
  then show ?thesis
    using True assms by (simp add: SYLAR_LOG_LEVEL_def SYLAR_LOG_FMT_LEVEL_def Logger_getLevel_def streamed LogEventWrap_delete_def LogEvent_new_def
        LogEvent_format_def)
next
  case False
  moreover from False have "level < lg_level l" by simp
  ultimately show ?thesis using assms by (simp add: SYLAR_LOG_LEVEL_def SYLAR_LOG_FMT_LEVEL_def Logger_getLevel_def Logger_log_def)
qed

definition some_site :: log_site where
  "some_site = \<lparr>si_file = ''a.cc'', si_line = 7, si_threadId = 1, si_fiberId = 2, si_time = 9, si_threadName = ''t''\<rparr>"

theorem statement_equals_log_witness:
  "SYLAR_LOG_LEVEL (\<lambda>f t. []) some_site ''root'' INFO [''a='', ''1''] (LoggerManager_new (\<lambda>_. [])) =
   Logger_log (\<lambda>f t. []) ''root'' INFO ((LogEvent_new ''root'' INFO some_site)\<lparr>ev_content := ''a=1''\<rparr>) (LoggerManager_new (\<lambda>_. []))"
proof -
  have "ls_loggers (LoggerManager_new (\<lambda>_. [])) ''root'' \<noteq> None"
    by (simp add: LoggerManager_new_def StdoutLogAppender_new_def new_appender_def addAppender_def upd_logger_def upd_appender_def Let_def)
  then obtain l where "ls_loggers (LoggerManager_new (\<lambda>_. [])) ''root'' = Some l" by blast
  from statement_equals_log[OF this, of "\<lambda>f t. []" some_site INFO "[''a='', ''1'']"] show ?thesis by simp
qed

text \<open>When formatting fails an event without text is logged.\<close>

lemma failed_format_logs_empty:
  "ls_loggers w name = Some l \<Longrightarrow> lg_level l \<le> level \<Longrightarrow>
   SYLAR_LOG_FMT_LEVEL strftime site name level None w = Logger_log strftime name level (LogEvent_new name level site) w"
  by (simp add: SYLAR_LOG_FMT_LEVEL_def Logger_getLevel_def LogEventWrap_delete_def LogEvent_new_def LogEvent_format_def)

end
