(* ===== verification/Spec2Isabelle.thy ===== *)
theory Spec2Isabelle
  imports ByteArrayIO Serialize HttpNames HttpSyntax StreamFix PoolClient TypeUtil Locks HookCalls ServerStop Settings LogYaml LogStatement
begin

text \<open>
  A verification of TinyNetFramework (\<open>src/sylar\<close>), a C++ library of fibers, a scheduler, an event loop, sockets, byte arrays and HTTP.

  \<^bold>\<open>The program.\<close> Work is done by fibers, which a scheduler runs on a pool of threads. An \<open>IOManager\<close> is a scheduler whose idle fiber waits in
  \<open>epoll_wait\<close> for descriptors and timers and schedules the fibers and callbacks that wait for them. The hooked system calls turn blocking calls on
  sockets into registering an event, yielding and trying again. On top of this are sockets, a TCP server that accepts connections and schedules a task
  for each, byte streams, a parser for HTTP messages (the vendored C code of \<open>http-parser\<close> and the classes around it), servlets, an
  HTTP server and an HTTP client with a pool of connections. Byte arrays serialise values; configuration variables and loggers are used throughout.

  \<^bold>\<open>Conventions.\<close> A class or struct is a record, an enumeration a datatype, an integer a word of its width where its range matters. Operations are
  functions on explicit states; a thrown exception, a failed assertion and an access to a bad pointer are values of a sum or option type. A pointer
  is an index or an address in a store where sharing matters, else the value. What the operating system and other libraries answer (system calls,
  clocks, \<open>fnmatch\<close>, \<open>strftime\<close>, boost and yaml-cpp) is an argument of the definitions. Threads that interleave are step relations: one step is what
  a thread does under a lock or between two points where others can interfere.

  \<^bold>\<open>Byte arrays\<close> (\<open>bytearray.h\<close>, \<open>bytearray.cc\<close>, \<open>endian.h\<close>).
  \<^item> \<open>Prelude\<close>: machine types, results of operations that may fault, block lemmas.
  \<^item> \<open>ByteArray\<close>: the chain of blocks with its cursor, \<open>read\<close>, \<open>write\<close>, \<open>setPosition\<close>, \<open>clear\<close>, \<open>addCapacity\<close>. Every sequence of operations simulates a flat
    array with a cursor (refinement).
  \<^item> \<open>ByteArrayIO\<close>: buffers for \<open>readv\<close> and \<open>writev\<close>, files and the hex dump; reading a file ends and writes its content.
  \<^item> \<open>Serialize\<close>: fixed width, variable length, zigzag, string and float formats. The locales \<open>byte_source\<close> and \<open>byte_store\<close> are the interface between formats
    and storage, interpreted on the byte array; round trips hold for either byte order of the host.

  \<^bold>\<open>The HTTP message parser\<close> (\<open>http/http-parser/http_parser.h\<close>, \<open>http_parser.c\<close>).
  \<^item> \<open>HttpDefs\<close>, \<open>HttpChars\<close>: the parser object, error codes, methods, callbacks, character tables.
  \<^item> \<open>HttpUrl\<close>: \<open>parse_url_char\<close>, \<open>http_parse_host\<close>, \<open>http_parser_parse_url\<close>; the components lie inside the buffer and the port is the decimal value.
  \<^item> \<open>HttpExec\<close>, \<open>HttpHeaders\<close>, \<open>HttpParser\<close>: \<open>http_parser_execute\<close>, one definition per case of its \<open>switch\<close>, with the macros and all callbacks. The jump to
    \<open>reexecute\<close> has fuel for eight jumps per character, the loop one round per character and the last test.
  \<^item> \<open>HttpInvariant\<close>, \<open>HttpSafety\<close>: the locale \<open>parser_client\<close> states what a client's callbacks may do; in it, every call returns, no assertion fails, nothing
    outside the buffer is read, and neither fuel runs out.
  \<^item> \<open>HttpReach\<close>: the same over all histories of calls, pauses and resumptions; bodies arrive unchanged however they are cut.
  \<^item> \<open>HttpNames\<close>, \<open>HttpSyntax\<close>: the automata for header names, methods, content lengths and chunk sizes agree with direct definitions.

  \<^bold>\<open>HTTP messages and connections\<close> (\<open>http/http.cc\<close>, \<open>http_parser.cc\<close>, \<open>servlet.cc\<close>, \<open>http_session.cc\<close>, \<open>http_server.cc\<close>, \<open>http_connection.cc\<close>, \<open>uri.cc\<close>,
  \<open>stream.cc\<close>, \<open>streams/socket_stream.cc\<close>, \<open>util.cc\<close>).
  \<^item> \<open>StringUtil\<close>: URL encoding and decoding, trimming, path names. \<open>OrderedMap\<close>: \<open>std::map\<close> and \<open>std::set\<close> under a comparator, as the locale \<open>ordered_keys\<close>.
    \<open>TypeUtil\<close>: reading of numbers and of process files; printed 64-bit numbers are read back.
  \<^item> \<open>HttpMessage\<close>, \<open>HttpMessageLaws\<close>: requests and responses, lazily parsed parameters and cookies, text forms; encoded queries are parsed back.
  \<^item> \<open>HttpMsgParser\<close>: the callbacks that build messages, two interpretations of \<open>parser_client\<close>.
  \<^item> \<open>SocketStream\<close>: fixed size transfers over the locales \<open>stream_reader\<close> and \<open>stream_writer\<close>; reading into and writing from a byte array.
    \<open>StreamFix\<close>: fixed sizes through a byte array, which agree with those through a buffer.
  \<^item> \<open>Servlet\<close>: dispatch by exact and by pattern matches. \<open>HttpSession\<close>: receiving a message (locale \<open>message_parser\<close>) and serving a client: requests are
    answered in order. The receiving loop is a function on what the connection delivers and ends with it.
  \<^item> \<open>Uri\<close>, \<open>HttpClient\<close>: URIs, building of requests, the exchange, the accounting of the pool. \<open>PoolClient\<close>: the entry points of the pool and sequences of requests.

  \<^bold>\<open>Concurrency\<close> (\<open>timer.cc\<close>, \<open>fiber.cc\<close>, \<open>scheduler.cc\<close>, \<open>iomanager.cc\<close>, \<open>fdmanager.cc\<close>, \<open>hook.cc\<close>, \<open>mutex.h\<close>, \<open>thread.cc\<close>).
  \<^item> \<open>Timer\<close>: the set of timers, expiry, clock rollover. \<open>Fiber\<close>: the states of fibers and the context switches of a thread, with their invariant.
  \<^item> \<open>Scheduler\<close>: the queue and the threads of the pool; tasks are neither lost nor doubled, and the pool can always be shut down.
  \<^item> \<open>IOManager\<close>: event contexts, adding, cancelling, triggering; registered events have their waiters and are counted.
  \<^item> \<open>IdleLoop\<close>: a turn of the idle loop over timers, events and the scheduler together.
  \<^item> \<open>FdHook\<close>: descriptor contexts and hooked calls; the non-blocking mode of the kernel is hidden from the program.
  \<^item> \<open>HookWait\<close>: the suspension of a fiber in a hooked call, in every interleaving with the event loop and the timer of the call, and sleeping
    fibers together with the idle loop, which wakes them once and on time.
  \<^item> \<open>HookCalls\<close>: the hooked functions one by one, the commands of \<open>fcntl\<close>, datagrams; the interleaved wait returns what the retry loop computes.
  \<^item> \<open>Locks\<close>: scoped guards (locale \<open>lockable\<close>), the lock by atomic exchange, and the start of a thread, in every interleaving.

  \<^bold>\<open>Sockets and services\<close> (\<open>address.cc\<close>, \<open>socket.cc\<close>, \<open>tcp_server.cc\<close>, \<open>config.h\<close>, \<open>config.cc\<close>, \<open>log.h\<close>, \<open>log.cc\<close>, \<open>util.cc\<close>).
  \<^item> \<open>Address\<close>: subnets, the order on addresses, local sockets, interfaces. \<open>Sockets\<close>: the life of a socket over the hooked calls.
  \<^item> \<open>TcpServer\<close>: binding and the accept loop. \<open>ServerStop\<close>: stopping over sockets, the hooked \<open>close\<close> and the event manager; waiting fibers are woken.
  \<^item> \<open>Config\<close>: variables, listeners, the registry, loading of documents. \<open>ConfigCast\<close>: the conversions of containers to text and back, a round trip over
    the conversion of the elements. \<open>Settings\<close>: the variables of the HTTP parsers and the hooks that follow the configuration.
  \<^item> \<open>LogFormat\<close>, \<open>Logger\<close>: patterns, delivery of events through the tree of loggers, the log configuration. \<open>LogYaml\<close>: the documents
    that loggers print and that the log configuration reads. \<open>LogStatement\<close>: the logging macros. \<open>FileSystem\<close>: the file operations of \<open>FSUtil\<close>.

  \<^bold>\<open>Where the code does not do what it means to.\<close> The models keep the source's behaviour, and lemmas show the consequences: among others the
  comparator of timers ignores deadlines (\<open>deadlines_ignored\<close>), \<open>delEvent\<close> keeps events (\<open>delEvent_leaves_event\<close>), a stale report fails an assertion
  (\<open>stale_report_asserts\<close>), a range of tasks is scheduled for ever (\<open>schedule_range_diverges\<close>), positional reads of a byte array use the current block
  (\<open>positional_read_uses_current_block\<close>), \<open>TrimRight\<close> cuts too much (\<open>trim_functions\<close>), IPv6 networks are wrong (\<open>ipv6_network_wrong\<close>), a reopened log
  file is emptied (\<open>file_log_truncated\<close>), sockets are not removed (\<open>socket_not_removed\<close>), the timeout of a hooked call can be lost (\<open>timeout_lost\<close>), a
  sleeper can be missed (\<open>sleeper_missed\<close>), listeners run before a value is stored (\<open>throwing_listener\<close>),
  duplicated descriptors are not hooked (\<open>duplicate_not_hidden\<close>), and the pool keeps connections with half a request (\<open>partial_request_pooled\<close>).

  \<^bold>\<open>Not modelled.\<close> Time, \<open>printf\<close> formatting, wide strings, floating point text, backtraces and demangling, which pass values on to the C library; the
  text forms of servers and sockets; macros, singletons and build files, which have no behaviour of their own; log output inside the other
  components; and the test programs. Memory is not exhausted, and destructors are modelled where they close, release or detach something.
\<close>

end
